(* ===== verification/Prelude.thy ===== *)
theory Prelude
  imports Main "HOL-Library.AList"
begin

text \<open>
  Shared vocabulary of the development: the result type of fallible operations, the runner
  that threads a state through a sequence of fallible steps, decimal rendering of numbers, and
  lemmas about association lists and list segments.
\<close>

subsection \<open>Results\<close>

text \<open>A fallible operation returns \<open>Inl\<close> of an error or \<open>Inr\<close> of its value.\<close>

type_synonym ('e, 'a) result = "'e + 'a"

definition andThen :: "('e, 'a) result \<Rightarrow> ('a \<Rightarrow> ('e, 'b) result) \<Rightarrow> ('e, 'b) result" where
  "andThen r f = (case r of Inl e \<Rightarrow> Inl e | Inr a \<Rightarrow> f a)"

lemma andThen_simps [simp]:
  "andThen (Inl e) f = Inl e"
  "andThen (Inr a) f = f a"
  by (simp_all add: andThen_def)

lemma andThen_cong [fundef_cong]:
  "r = r' \<Longrightarrow> (\<And>a. r' = Inr a \<Longrightarrow> f a = g a) \<Longrightarrow> andThen r f = andThen r' g"
  by (auto simp: andThen_def split: sum.splits)

lemma andThen_eq_Inr: "andThen r f = Inr b \<longleftrightarrow> (\<exists>a. r = Inr a \<and> f a = Inr b)"
  by (cases r) auto

lemma andThen_assoc: "andThen (andThen r f) g = andThen r (\<lambda>a. andThen (f a) g)"
  by (cases r) auto

lemma andThen_Inr_right [simp]: "andThen r Inr = r"
  by (cases r) auto

definition ensure :: "bool \<Rightarrow> 'e \<Rightarrow> ('e, unit) result" where
  "ensure b e = (if b then Inr () else Inl e)"

lemma ensure_simps [simp]: "ensure True e = Inr ()" "ensure False e = Inl e"
  by (simp_all add: ensure_def)

lemma ensure_eq_Inr: "ensure b e = Inr u \<longleftrightarrow> b"
  by (simp add: ensure_def)

subsection \<open>Running a sequence of fallible steps\<close>

text \<open>The loops of the program that thread a state through a list and stop at the first throw.\<close>

fun run_steps :: "('s \<Rightarrow> 'o \<Rightarrow> ('e, 's) result) \<Rightarrow> 's \<Rightarrow> 'o list \<Rightarrow> ('e, 's) result" where
  "run_steps step s [] = Inr s"
| "run_steps step s (x # xs) = andThen (step s x) (\<lambda>s'. run_steps step s' xs)"

lemma run_steps_cong [fundef_cong]:
  "xs = ys \<Longrightarrow> s = t \<Longrightarrow> (\<And>s x. x \<in> set ys \<Longrightarrow> f s x = g s x) \<Longrightarrow> run_steps f s xs = run_steps g t ys"
proof (induction ys arbitrary: xs s t)
  case (Cons y ys)
  then show ?case by (auto simp: andThen_def split: sum.splits)
qed simp

lemma run_steps_append:
  "run_steps step s (xs @ ys) = andThen (run_steps step s xs) (\<lambda>s'. run_steps step s' ys)"
  by (induction xs arbitrary: s) (auto simp: andThen_assoc)

lemma run_steps_snoc:
  "run_steps step s (xs @ [x]) = andThen (run_steps step s xs) (\<lambda>s'. step s' x)"
  by (simp add: run_steps_append)

lemma run_steps_invariant:
  "run_steps step s xs = Inr s' \<Longrightarrow> P s \<Longrightarrow>
   (\<And>s x s'. P s \<Longrightarrow> x \<in> set xs \<Longrightarrow> step s x = Inr s' \<Longrightarrow> P s') \<Longrightarrow> P s'"
proof (induction xs arbitrary: s)
  case Nil
  then show ?case by simp
next
  case (Cons x xs)
  obtain t where t: "step s x = Inr t" "run_steps step t xs = Inr s'"
    using Cons.prems(1) by (auto simp: andThen_eq_Inr)
  have "P t" using Cons.prems(3)[OF Cons.prems(2) _ t(1)] by simp
  then show ?case by (rule Cons.IH[OF t(2)]) (rule Cons.prems(3), auto)
qed

text \<open>What every step establishes and later steps keep holds of all elements at the end.\<close>

lemma run_steps_collect:
  assumes "run_steps step s xs = Inr s'"
    and "\<And>s x s'. x \<in> set xs \<Longrightarrow> step s x = Inr s' \<Longrightarrow> R s s' \<and> P x s'"
    and "\<And>s. R s s" and "\<And>s t u. R s t \<Longrightarrow> R t u \<Longrightarrow> R s u" and "\<And>x s t. P x s \<Longrightarrow> R s t \<Longrightarrow> P x t"
  shows "R s s' \<and> (\<forall>x\<in>set xs. P x s')"
  using assms(1,2)
proof (induction xs arbitrary: s)
  case Nil
  then show ?case by (simp add: assms(3))
next
  case (Cons x xs)
  obtain t where t: "step s x = Inr t" "run_steps step t xs = Inr s'"
    using Cons.prems(1) by (auto simp: andThen_eq_Inr)
  have "R t s' \<and> (\<forall>x\<in>set xs. P x s')" by (rule Cons.IH[OF t(2)]) (rule Cons.prems(2), auto)
  moreover have "R s t \<and> P x t" by (rule Cons.prems(2)[OF _ t(1)]) simp
  ultimately show ?case using assms(4,5) by auto
qed

subsection \<open>Streams through a state\<close>

text \<open>A state machine that turns each batch of a stream into an output, and one that may fail.\<close>

fun thread :: "('s \<Rightarrow> 'a \<Rightarrow> 's \<times> 'b) \<Rightarrow> 's \<Rightarrow> 'a list \<Rightarrow> 's \<times> 'b list" where
  "thread f s [] = (s, [])"
| "thread f s (x # xs) =
     (let (s1, y) = f s x; (s2, ys) = thread f s1 xs in (s2, y # ys))"

fun thread_result ::
  "('s \<Rightarrow> 'a \<Rightarrow> ('e, 's \<times> 'b) result) \<Rightarrow> 's \<Rightarrow> 'a list \<Rightarrow> ('e, 's \<times> 'b list) result" where
  "thread_result f s [] = Inr (s, [])"
| "thread_result f s (x # xs) =
     andThen (f s x) (\<lambda>(s1, y). andThen (thread_result f s1 xs) (\<lambda>(s2, ys). Inr (s2, y # ys)))"

lemma thread_append:
  "thread f s (xs @ ys) =
     (let (s1, us) = thread f s xs; (s2, vs) = thread f s1 ys in (s2, us @ vs))"
  by (induction xs arbitrary: s) (auto simp: Let_def split: prod.splits)

lemma length_thread: "length (snd (thread f s xs)) = length xs"
proof (induction xs arbitrary: s)
  case (Cons x xs)
  then show ?case using Cons.IH[of "fst (f s x)"] by (simp add: Let_def case_prod_unfold)
qed simp

subsection \<open>Decimal rendering\<close>

text \<open>\<open>String(n)\<close> for an integer.\<close>

fun show_nat :: "nat \<Rightarrow> string" where
  "show_nat n = (if n < 10 then [char_of (48 + n)] else show_nat (n div 10) @ [char_of (48 + n mod 10)])"

declare show_nat.simps [simp del]

definition show_int :: "int \<Rightarrow> string" where
  "show_int i = (if i < 0 then CHR ''-'' # show_nat (nat (- i)) else show_nat (nat i))"

subsection \<open>Safe integers and joined strings\<close>

text \<open>\<open>Number.isSafeInteger\<close> of an integer and \<open>Array.prototype.join\<close>.\<close>

definition isSafeInteger :: "int \<Rightarrow> bool" where
  "isSafeInteger n = (\<bar>n\<bar> \<le> 9007199254740991)"

fun join :: "string \<Rightarrow> string list \<Rightarrow> string" where
  "join sep [] = []"
| "join sep [x] = x"
| "join sep (x # y # ys) = x @ sep @ join sep (y # ys)"

subsection \<open>Mapping a fallible function\<close>

text \<open>A loop that builds an array and stops at the first throw.\<close>

fun traverse :: "('a \<Rightarrow> ('e, 'b) result) \<Rightarrow> 'a list \<Rightarrow> ('e, 'b list) result" where
  "traverse f [] = Inr []"
| "traverse f (x # xs) = andThen (f x) (\<lambda>y. andThen (traverse f xs) (\<lambda>ys. Inr (y # ys)))"

lemma traverse_cong [fundef_cong]:
  "xs = ys \<Longrightarrow> (\<And>x. x \<in> set ys \<Longrightarrow> f x = g x) \<Longrightarrow> traverse f xs = traverse g ys"
  by (induction ys arbitrary: xs) auto

lemma traverse_eq_Inr: "traverse f xs = Inr ys \<longleftrightarrow> list_all2 (\<lambda>x y. f x = Inr y) xs ys"
  by (induction xs arbitrary: ys) (auto simp: andThen_eq_Inr list_all2_Cons1)

lemma traverse_rel: "list_all2 (\<lambda>x y. f x = g y) xs ys \<Longrightarrow> traverse f xs = traverse g ys"
  by (induction rule: list_all2_induct) auto

lemma list_all2_rightD: "list_all2 R xs ys \<Longrightarrow> y \<in> set ys \<Longrightarrow> \<exists>x\<in>set xs. R x y"
  by (induction rule: list_all2_induct) auto

lemma list_all2_leftD: "list_all2 R xs ys \<Longrightarrow> x \<in> set xs \<Longrightarrow> \<exists>y\<in>set ys. R x y"
  by (induction rule: list_all2_induct) auto

subsection \<open>Association lists\<close>

lemma map_of_update [simp]: "map_of (AList.update k v kvs) = (map_of kvs)(k \<mapsto> v)"
  by (simp add: AList.update_conv')

lemma map_of_delete [simp]: "map_of (AList.delete k kvs) = (map_of kvs)(k := None)"
  by (simp add: AList.delete_conv')

lemma alist_update_update [simp]: "AList.update k v (AList.update k w kvs) = AList.update k v kvs"
  by (induction kvs) auto

lemma alist_update_same: "map_of kvs k = Some v \<Longrightarrow> AList.update k v kvs = kvs"
  by (induction kvs) (auto split: if_splits)

lemma alist_update_swap_known:
  "k \<noteq> l \<Longrightarrow> map_of kvs k = Some u \<Longrightarrow>
   AList.update k v (AList.update l w kvs) = AList.update l w (AList.update k v kvs)"
  by (induction kvs) (auto split: if_splits)

lemma alist_update_delete_swap:
  "k \<noteq> l \<Longrightarrow> AList.update k v (AList.delete l kvs) = AList.delete l (AList.update k v kvs)"
  by (induction kvs) auto

lemma set_update_subset: "(a, b) \<in> set (AList.update k v kvs) \<Longrightarrow> (a, b) \<in> set kvs \<or> (a = k \<and> b = v)"
  by (induction kvs) (auto split: if_splits)

lemma in_set_deleteD: "x \<in> set (AList.delete k kvs) \<Longrightarrow> x \<in> set kvs"
  by (auto simp: AList.delete_eq)

subsection \<open>List segments\<close>

definition slice :: "'a list \<Rightarrow> nat \<Rightarrow> nat \<Rightarrow> 'a list" where
  "slice xs i j = take (j - i) (drop i xs)"

lemma length_slice: "length (slice xs i j) = min (j - i) (length xs - i)"
  by (simp add: slice_def min.commute)

subsection \<open>Binary search\<close>

text \<open>
  The loop of the binary searches of the program: \<open>prior\<close> tells whether the element at an index
  comes before the one sought. The index computed is the first one that does not, when the
  elements that come before it are a prefix (\<open>bisect_first\<close>).
\<close>

function bisect :: "(nat \<Rightarrow> bool) \<Rightarrow> nat \<Rightarrow> nat \<Rightarrow> nat" where
  "bisect prior low high =
     (if low < high
      then let middle = (low + high) div 2 in
           if prior middle then bisect prior (middle + 1) high else bisect prior low middle
      else low)"
  by pat_completeness auto
termination by (relation "measure (\<lambda>(b, low, high). high - low)") auto

declare bisect.simps [simp del]

lemma bisect_up:
  "low < high \<Longrightarrow> prior ((low + high) div 2) \<Longrightarrow>
   bisect prior low high = bisect prior ((low + high) div 2 + 1) high"
  by (subst bisect.simps) (simp add: Let_def)

lemma bisect_down:
  "low < high \<Longrightarrow> \<not> prior ((low + high) div 2) \<Longrightarrow>
   bisect prior low high = bisect prior low ((low + high) div 2)"
  by (subst bisect.simps) (simp add: Let_def)

lemma bisect_done: "\<not> low < high \<Longrightarrow> bisect prior low high = low"
  by (subst bisect.simps) simp

lemma bisect_bounds: "low \<le> high \<Longrightarrow> low \<le> bisect prior low high \<and> bisect prior low high \<le> high"
proof (induction prior low high rule: bisect.induct)
  case (1 prior low high)
  let ?m = "(low + high) div 2"
  show ?case
  proof (cases "low < high")
    case True
    then have m: "low \<le> ?m" "?m < high" by auto
    show ?thesis
    proof (cases "prior ?m")
      case bm: True
      have "?m + 1 \<le> bisect prior (?m + 1) high \<and> bisect prior (?m + 1) high \<le> high"
        using 1(1)[OF True refl bm] m by simp
      then show ?thesis using bisect_up[of low high prior, OF True bm] m by linarith
    next
      case False
      have "low \<le> bisect prior low ?m \<and> bisect prior low ?m \<le> ?m" using 1(2)[OF True refl False] m by simp
      then show ?thesis using bisect_down[of low high prior, OF True False] m by linarith
    qed
  qed (use 1 in \<open>simp add: bisect_done\<close>)
qed

text \<open>The element just below the result comes before the one sought, in any case.\<close>

lemma bisect_below: "low < bisect prior low high \<Longrightarrow> prior (bisect prior low high - 1)"
proof (induction prior low high rule: bisect.induct)
  case (1 prior low high)
  let ?m = "(low + high) div 2"
  show ?case
  proof (cases "low < high")
    case True
    show ?thesis
    proof (cases "prior ?m")
      case bm: True
      have r: "bisect prior low high = bisect prior (?m + 1) high" by (rule bisect_up[of low high prior, OF True bm])
      have "?m + 1 \<le> bisect prior (?m + 1) high" using True bisect_bounds[of "?m + 1" high prior] by simp
      then show ?thesis using 1(1)[OF True refl bm] bm r by (cases "?m + 1 = bisect prior (?m + 1) high") auto
    next
      case False
      then show ?thesis using 1(2)[OF True refl False] 1(3) bisect_down[of low high prior, OF True False] by simp
    qed
  next
    case False
    then show ?thesis using 1(3) by (simp add: bisect_done)
  qed
qed

lemma bisect_first:
  assumes "low \<le> i" and "\<And>i j. i \<le> j \<Longrightarrow> j < high \<Longrightarrow> prior j \<Longrightarrow> prior i"
    and "i < high" and "bisect prior low high \<le> i"
  shows "\<not> prior i"
  using assms
proof (induction prior low high rule: bisect.induct)
  case (1 prior low high)
  let ?m = "(low + high) div 2"
  have lt: "low < high" using 1 by simp
  show ?case
  proof (cases "prior ?m")
    case bm: True
    have r: "bisect prior low high = bisect prior (?m + 1) high" by (rule bisect_up[of low high prior, OF lt bm])
    have "?m + 1 \<le> high" using lt by simp
    then have "?m + 1 \<le> i" using bisect_bounds[of "?m + 1" high prior] 1(6) r by linarith
    then show ?thesis using 1(1)[OF lt refl bm _ 1(4)] 1(5,6) r by simp
  next
    case bm: False
    have r: "bisect prior low high = bisect prior low ?m" by (rule bisect_down[of low high prior, OF lt bm])
    show ?thesis
    proof (cases "i < ?m")
      case True
      have mono: "prior i'" if "i' \<le> j" "j < ?m" "prior j" for i' j
        using 1(4)[of i' j] that lt by simp
      show ?thesis using 1(2)[OF lt refl bm 1(3) mono True] 1(6) r by simp
    next
      case False
      then show ?thesis using 1(4)[of ?m i] 1(5) bm by auto
    qed
  qed
qed

end
