(* ===== verification/Json.thy ===== *)
theory Json
  imports Prelude
begin

text \<open>
  JSON values (\<open>packages/chord/src/json.ts\<close>, \<open>packages/chord/src/delta/index.ts\<close>). An object is
  the association list of its own properties in insertion order, with distinct keys
  (\<open>wf_json\<close>); a number is an integer, since the code modelled here only compares and copies
  numbers; a string is a list of code units. Arrays and objects are values: the model is about
  what a revision contains, and where the code depends on the identity of a container
  (\<open>Delta_Diff\<close>) the identity is modelled separately.
\<close>

datatype json =
    JNull
  | JBool bool
  | JNum int
  | JStr string
  | JArr "json list"
  | JObj "(string \<times> json) list"

text \<open>\<open>isObj\<close>: a container, which \<open>typeof\<close> calls an object; \<open>Array.isArray\<close>.\<close>

fun isObj :: "json \<Rightarrow> bool" where
  "isObj (JArr _) = True"
| "isObj (JObj _) = True"
| "isObj _ = False"

fun isArray :: "json \<Rightarrow> bool" where
  "isArray (JArr _) = True"
| "isArray _ = False"

lemma isArray_isObj [simp]: "isArray v \<Longrightarrow> isObj v"
  by (cases v) auto

lemma isArray_iff: "isArray v \<longleftrightarrow> (\<exists>xs. v = JArr xs)"
  by (cases v) auto

lemma isObj_cases:
  assumes "isObj v"
  obtains (arr) xs where "v = JArr xs" | (obj) kvs where "v = JObj kvs"
  using assms by (cases v) auto

fun wf_json :: "json \<Rightarrow> bool" where
  "wf_json (JArr xs) = (\<forall>x\<in>set xs. wf_json x)"
| "wf_json (JObj kvs) = (distinct (map fst kvs) \<and> (\<forall>kv\<in>set kvs. wf_json (snd kv)))"
| "wf_json _ = True"

subsection \<open>Structural equality\<close>

text \<open>
  \<open>equalJson\<close> of \<open>diff.ts\<close>: equality that ignores the order of object keys. Its shortcut for
  identical operands agrees with the comparison of their contents (\<open>equalJson_refl\<close>).
\<close>

fun equalJson :: "json \<Rightarrow> json \<Rightarrow> bool" where
  "equalJson (JArr xs) (JArr ys) = (length xs = length ys \<and> list_all2 equalJson xs ys)"
| "equalJson (JObj a) (JObj b) =
     (length a = length b \<and>
      (\<forall>kv\<in>set a. case map_of b (fst kv) of None \<Rightarrow> False | Some w \<Rightarrow> equalJson (snd kv) w))"
| "equalJson left right = (left = right)"

lemma equalJson_prim: "\<not> isObj l \<or> \<not> isObj r \<Longrightarrow> equalJson l r \<longleftrightarrow> l = r"
  by (cases l; cases r) auto

text \<open>On objects with distinct keys it is the pointwise relation of the two property maps.\<close>

lemma subset_keys_eq:
  assumes "distinct (map fst a)" and "distinct (map fst b)" and "length a = length b"
    and "fst ` set a \<subseteq> fst ` set b"
  shows "fst ` set a = fst ` set b"
proof (rule card_subset_eq[OF _ assms(4)])
  have "card (set (map fst a)) = card (set (map fst b))"
    using assms(1-3) by (simp only: distinct_card length_map)
  then show "card (fst ` set a) = card (fst ` set b)" by simp
qed simp

lemma equalJson_objI:
  assumes "distinct (map fst a)" and "distinct (map fst b)"
    and rel: "\<And>k. rel_option equalJson (map_of a k) (map_of b k)"
  shows "equalJson (JObj a) (JObj b)"
proof -
  have "map_of a k = None \<longleftrightarrow> map_of b k = None" for k
    using rel[of k] by (cases "map_of a k"; cases "map_of b k") auto
  then have "dom (map_of a) = dom (map_of b)" by (auto simp: dom_def)
  then have "fst ` set a = fst ` set b" by (simp add: dom_map_of_conv_image_fst)
  then have "length a = length b"
    using assms(1,2) by (metis distinct_card length_map set_map)
  moreover have "case map_of b (fst kv) of None \<Rightarrow> False | Some w \<Rightarrow> equalJson (snd kv) w"
    if "kv \<in> set a" for kv
    using rel[of "fst kv"] map_of_is_SomeI[OF assms(1), of "fst kv" "snd kv"] that
    by (auto simp: rel_option_iff split: option.splits)
  ultimately show ?thesis by simp
qed

lemma equalJson_objD:
  assumes "distinct (map fst a)" and "distinct (map fst b)" and eq: "equalJson (JObj a) (JObj b)"
  shows "rel_option equalJson (map_of a k) (map_of b k)"
proof -
  have in_b: "\<exists>w. map_of b k = Some w \<and> equalJson v w" if "(k, v) \<in> set a" for k v
    using eq that by (fastforce split: option.splits)
  then have "fst ` set a \<subseteq> fst ` set b" by (force dest: map_of_SomeD)
  then have keys: "fst ` set a = fst ` set b"
    using subset_keys_eq[OF assms(1,2)] eq by simp
  show ?thesis
  proof (cases "map_of a k")
    case None
    then have "map_of b k = None" by (simp only: keys map_of_eq_None_iff not_False_eq_True)
    then show ?thesis using None by simp
  next
    case (Some v)
    then show ?thesis using in_b[of k v] map_of_SomeD[OF Some] by auto
  qed
qed

lemma equalJson_obj_iff:
  "distinct (map fst a) \<Longrightarrow> distinct (map fst b) \<Longrightarrow>
   equalJson (JObj a) (JObj b) \<longleftrightarrow> (\<forall>k. rel_option equalJson (map_of a k) (map_of b k))"
  by (blast intro: equalJson_objI equalJson_objD)

lemma wf_json_map_of: "wf_json (JObj kvs) \<Longrightarrow> map_of kvs k = Some v \<Longrightarrow> wf_json v"
  by (force dest: map_of_SomeD)

lemma equalJson_refl [simp]: "wf_json v \<Longrightarrow> equalJson v v"
proof (induction v)
  case (JArr xs)
  then show ?case by (auto simp: list.rel_refl_strong)
next
  case (JObj kvs)
  have "rel_option equalJson (map_of kvs k) (map_of kvs k)" for k
    using JObj by (cases "map_of kvs k") (force dest: map_of_SomeD)+
  then show ?case using JObj.prems by (intro equalJson_objI) auto
qed auto

lemma equalJson_sym: "equalJson v w \<Longrightarrow> wf_json v \<Longrightarrow> wf_json w \<Longrightarrow> equalJson w v"
proof (induction v arbitrary: w)
  case (JArr xs)
  then obtain ys where "w = JArr ys" by (cases w) auto
  then show ?case using JArr by (auto simp: list_all2_conv_all_nth)
next
  case (JObj a)
  then obtain b where w: "w = JObj b" by (cases w) auto
  have "rel_option equalJson (map_of b k) (map_of a k)" for k
  proof -
    have "rel_option equalJson (map_of a k) (map_of b k)"
      using JObj.prems w by (intro equalJson_objD) auto
    then show ?thesis
    proof (cases "map_of a k"; cases "map_of b k"; simp)
      fix va vb assume m: "map_of a k = Some va" "map_of b k = Some vb" "equalJson va vb"
      show "equalJson vb va"
        using JObj.IH[of "(k, va)" va vb] m JObj.prems w
          wf_json_map_of[of a k va] wf_json_map_of[of b k vb] map_of_SomeD[OF m(1)] by simp
    qed
  qed
  then show ?case using JObj.prems w by (auto intro!: equalJson_objI simp del: equalJson.simps)
qed (cases w; auto)+

lemma equalJson_trans:
  "equalJson u v \<Longrightarrow> equalJson v w \<Longrightarrow> wf_json u \<Longrightarrow> wf_json v \<Longrightarrow> wf_json w \<Longrightarrow> equalJson u w"
proof (induction u arbitrary: v w)
  case (JArr xs)
  then obtain ys where v: "v = JArr ys" by (cases v) auto
  then obtain zs where w: "w = JArr zs" using JArr.prems by (cases w) auto
  have "equalJson (xs ! i) (zs ! i)" if "i < length xs" for i
    using JArr.IH[of "xs ! i" "ys ! i" "zs ! i"] JArr.prems v w that
    by (auto simp: list_all2_conv_all_nth)
  then show ?case using JArr.prems v w by (auto simp: list_all2_conv_all_nth)
next
  case (JObj a)
  then obtain b where v: "v = JObj b" by (cases v) auto
  then obtain c where w: "w = JObj c" using JObj.prems by (cases w) auto
  have "rel_option equalJson (map_of a k) (map_of c k)" for k
  proof -
    have "rel_option equalJson (map_of a k) (map_of b k)" "rel_option equalJson (map_of b k) (map_of c k)"
      using JObj.prems v w by (auto intro!: equalJson_objD simp del: equalJson.simps)
    then show ?thesis
    proof (cases "map_of a k"; cases "map_of b k"; cases "map_of c k"; simp)
      fix va vb vc
      assume m: "map_of a k = Some va" "map_of b k = Some vb" "map_of c k = Some vc"
        "equalJson va vb" "equalJson vb vc"
      show "equalJson va vc"
        using JObj.IH[of "(k, va)" va vb vc] m JObj.prems v w wf_json_map_of[of a k va]
          wf_json_map_of[of b k vb] wf_json_map_of[of c k vc] map_of_SomeD[OF m(1)] by simp
    qed
  qed
  then show ?case using JObj.prems v w by (auto intro!: equalJson_objI simp del: equalJson.simps)
qed (cases v; auto)+

end
