(* ===== verification/Delta_Ops.thy ===== *)
theory Delta_Ops
  imports Json
begin

text \<open>
  Chord deltas (\<open>packages/chord/src/delta/index.ts\<close>): the operations on a JSON document, the
  validators of operations that arrive from outside, and the applier.
\<close>

subsection \<open>Segments, paths and operations\<close>

text \<open>A path segment is an object key or an array index; indexes are numbers, so may be negative.\<close>

datatype seg = Key string | Idx int

type_synonym path = "seg list"

datatype op =
    OpR json                             \<comment> \<open>replace the root\<close>
  | OpS path json                        \<comment> \<open>set\<close>
  | OpD path                             \<comment> \<open>delete\<close>
  | OpA path string                      \<comment> \<open>append text\<close>
  | OpT path int                         \<comment> \<open>drop a prefix of a text\<close>
  | OpP path int int "json list"         \<comment> \<open>splice an array\<close>
  | OpM path "int list"                  \<comment> \<open>permute an array\<close>

datatype delta_error =
    TypeError string
  | UnsafePathError json
  | PathError path
  | PathIdError int

text \<open>Operations are tuples in memory, on the wire and on disk.\<close>

fun seg_json :: "seg \<Rightarrow> json" where
  "seg_json (Key k) = JStr k"
| "seg_json (Idx n) = JNum n"

definition path_json :: "path \<Rightarrow> json" where
  "path_json p = JArr (map seg_json p)"

fun op_json :: "op \<Rightarrow> json" where
  "op_json (OpR v) = JArr [JStr ''r'', v]"
| "op_json (OpS p v) = JArr [JStr ''s'', path_json p, v]"
| "op_json (OpD p) = JArr [JStr ''d'', path_json p]"
| "op_json (OpA p t) = JArr [JStr ''a'', path_json p, JStr t]"
| "op_json (OpT p n) = JArr [JStr ''t'', path_json p, JNum n]"
| "op_json (OpP p i r items) = JArr [JStr ''p'', path_json p, JNum i, JNum r, JArr items]"
| "op_json (OpM p perm) = JArr [JStr ''m'', path_json p, JArr (map JNum perm)]"

text \<open>The path an operation addresses.\<close>

fun op_path :: "op \<Rightarrow> path" where
  "op_path (OpR _) = []"
| "op_path (OpS p _) = p"
| "op_path (OpD p) = p"
| "op_path (OpA p _) = p"
| "op_path (OpT p _) = p"
| "op_path (OpP p _ _ _) = p"
| "op_path (OpM p _) = p"

fun is_replace :: "op \<Rightarrow> bool" where
  "is_replace (OpR _) = True"
| "is_replace _ = False"

definition is_base :: "op list \<Rightarrow> bool" where
  "is_base ops = (ops \<noteq> [] \<and> is_replace (hd ops))"

subsection \<open>Validation\<close>

definition RESERVED_SEGMENTS :: "string list" where
  "RESERVED_SEGMENTS = [''__proto__'', ''constructor'', ''prototype'']"

text \<open>\<open>assertSafePath\<close>, on a value that is only known to be an array.\<close>

fun assertSafePath :: "json list \<Rightarrow> (delta_error, unit) result" where
  "assertSafePath [] = Inr ()"
| "assertSafePath (JStr s # segs) =
     (if s \<in> set RESERVED_SEGMENTS then Inl (UnsafePathError (JStr s)) else assertSafePath segs)"
| "assertSafePath (JNum n # segs) =
     (if n < 0 then Inl (UnsafePathError (JNum n)) else assertSafePath segs)"
| "assertSafePath (v # segs) = Inl (UnsafePathError v)"

fun assertPathArg :: "json \<Rightarrow> bool \<Rightarrow> (delta_error, unit) result" where
  "assertPathArg (JArr p) nonEmpty =
     (if nonEmpty \<and> p = [] then Inl (TypeError ''path is empty'') else assertSafePath p)"
| "assertPathArg _ nonEmpty = Inl (TypeError ''path is not an array'')"

fun is_natural :: "json \<Rightarrow> bool" where
  "is_natural (JNum n) = (0 \<le> n)"
| "is_natural _ = False"

fun is_string :: "json \<Rightarrow> bool" where
  "is_string (JStr _) = True"
| "is_string _ = False"

text \<open>The loop of \<open>assertPermutation\<close>: \<open>seen\<close> marks the indexes met so far.\<close>

fun permutation_loop :: "nat \<Rightarrow> nat set \<Rightarrow> json list \<Rightarrow> (delta_error, unit) result" where
  "permutation_loop len seen [] = Inr ()"
| "permutation_loop len seen (JNum i # rest) =
     (if i < 0 \<or> int len \<le> i \<or> nat i \<in> seen then Inl (TypeError ''m permutation is not a bijection'')
      else permutation_loop len (insert (nat i) seen) rest)"
| "permutation_loop len seen (v # rest) = Inl (TypeError ''m permutation is not a bijection'')"

fun assertPermutation :: "json \<Rightarrow> (delta_error, unit) result" where
  "assertPermutation (JArr xs) = permutation_loop (length xs) {} xs"
| "assertPermutation _ = Inl (TypeError ''m permutation is not an array'')"

text \<open>\<open>assertValidOp\<close>: verb, arity and payload shape of a decoded operation.\<close>

definition assertValidOp :: "json \<Rightarrow> (delta_error, unit) result" where
  "assertValidOp v = (case v of
     JArr (verb # args) \<Rightarrow>
       (if verb = JStr ''r'' then ensure (length args = 1) (TypeError ''r arity'')
        else if verb = JStr ''s'' then
          (case args of [p, _] \<Rightarrow> assertPathArg p True | _ \<Rightarrow> Inl (TypeError ''s arity''))
        else if verb = JStr ''d'' then
          (case args of [p] \<Rightarrow> assertPathArg p True | _ \<Rightarrow> Inl (TypeError ''d arity''))
        else if verb = JStr ''a'' then
          (case args of [p, JStr _] \<Rightarrow> assertPathArg p True | _ \<Rightarrow> Inl (TypeError ''a shape''))
        else if verb = JStr ''t'' then
          (case args of
             [p, n] \<Rightarrow> if is_natural n then assertPathArg p True else Inl (TypeError ''t shape'')
           | _ \<Rightarrow> Inl (TypeError ''t shape''))
        else if verb = JStr ''p'' then
          (case args of
             [p, i, r, items] \<Rightarrow> andThen (assertPathArg p False) (\<lambda>_.
               andThen (ensure (is_natural i) (TypeError ''p index'')) (\<lambda>_.
               andThen (ensure (is_natural r) (TypeError ''p remove'')) (\<lambda>_.
               ensure (isArray items) (TypeError ''p items''))))
           | _ \<Rightarrow> Inl (TypeError ''p arity''))
        else if verb = JStr ''m'' then
          (case args of
             [p, perm] \<Rightarrow> andThen (assertPathArg p False) (\<lambda>_. assertPermutation perm)
           | _ \<Rightarrow> Inl (TypeError ''m arity''))
        else Inl (TypeError ''unknown op verb''))
   | _ \<Rightarrow> Inl (TypeError ''op is not a tuple''))"

subsection \<open>Own properties of a container\<close>

fun is_index :: "seg \<Rightarrow> bool" where
  "is_index (Idx _) = True"
| "is_index (Key _) = False"

text \<open>A number used as a property key of an object is its decimal rendering.\<close>

fun property_key :: "seg \<Rightarrow> string" where
  "property_key (Key k) = k"
| "property_key (Idx n) = show_int n"

text \<open>Reading an own property; the code never reads an array through a string segment.\<close>

fun child :: "json \<Rightarrow> seg \<Rightarrow> json option" where
  "child (JArr xs) (Idx n) = (if 0 \<le> n \<and> nat n < length xs then Some (xs ! nat n) else None)"
| "child (JObj kvs) s = map_of kvs (property_key s)"
| "child _ _ = None"

text \<open>
  \<open>Object.defineProperty\<close> with a data property. On an array the index is at most the length
  (\<open>assertIndexInRange\<close>), so it overwrites an element or appends one.
\<close>

fun set_child :: "json \<Rightarrow> seg \<Rightarrow> json \<Rightarrow> json" where
  "set_child (JArr xs) (Idx n) v = JArr (if nat n < length xs then xs[nat n := v] else xs @ [v])"
| "set_child (JObj kvs) s v = JObj (AList.update (property_key s) v kvs)"
| "set_child node _ _ = node"

subsection \<open>Resolving a path\<close>

text \<open>\<open>resolveValue\<close>; \<open>full\<close> is the whole path, which a \<open>PathError\<close> carries.\<close>

fun resolveValue :: "path \<Rightarrow> json \<Rightarrow> path \<Rightarrow> (delta_error, json) result" where
  "resolveValue full node [] = Inr node"
| "resolveValue full node (s # ss) =
     (if \<not> isObj node then Inl (PathError full)
      else if isArray node \<and> \<not> is_index s then Inl (UnsafePathError (seg_json s))
      else (case child node s of
              None \<Rightarrow> Inl (PathError full)
            | Some c \<Rightarrow> resolveValue full c ss))"

definition resolve :: "json \<Rightarrow> path \<Rightarrow> (delta_error, json) result" where
  "resolve root p = andThen (resolveValue p root p)
     (\<lambda>node. if isObj node then Inr node else Inl (PathError p))"

text \<open>
  The code mutates the container that \<open>resolve\<close> returns. Seen from the root this replaces the
  value at the path.
\<close>

fun replaceAt :: "json \<Rightarrow> path \<Rightarrow> json \<Rightarrow> json" where
  "replaceAt root [] v = v"
| "replaceAt root (s # ss) v =
     (case child root s of
        None \<Rightarrow> root
      | Some c \<Rightarrow> set_child root s (replaceAt c ss v))"

subsection \<open>Array edits\<close>

text \<open>\<open>Array.prototype.splice\<close> with a start and a count that are not negative.\<close>

definition js_splice :: "'a list \<Rightarrow> nat \<Rightarrow> nat \<Rightarrow> 'a list \<Rightarrow> 'a list" where
  "js_splice xs i r items = take i xs @ items @ drop (i + r) xs"

definition SPLICE_CHUNK :: nat where
  "SPLICE_CHUNK = 10000"

text \<open>The insertion loop of \<open>applyOps\<close>, in chunks that stay within the argument limit.\<close>

function insert_chunks :: "'a list \<Rightarrow> nat \<Rightarrow> nat \<Rightarrow> 'a list \<Rightarrow> 'a list" where
  "insert_chunks target i offset items =
     (if offset < length items
      then insert_chunks (js_splice target (i + offset) 0 (slice items offset (offset + SPLICE_CHUNK)))
             i (offset + SPLICE_CHUNK) items
      else target)"
  by pat_completeness auto
termination
  by (relation "measure (\<lambda>(t, i, offset, items). length items - offset)")
     (auto simp: SPLICE_CHUNK_def)

declare insert_chunks.simps [simp del]

definition splice_array :: "'a list \<Rightarrow> nat \<Rightarrow> nat \<Rightarrow> 'a list \<Rightarrow> 'a list" where
  "splice_array xs i r items = insert_chunks (js_splice xs i r []) i 0 items"

definition permute_array :: "'a list \<Rightarrow> int list \<Rightarrow> 'a list" where
  "permute_array previous perm = map (\<lambda>i. previous ! nat i) perm"

subsection \<open>The applier\<close>

text \<open>The checks on the last segment of a path, against the container it addresses.\<close>

fun check_key :: "json \<Rightarrow> seg \<Rightarrow> (delta_error, unit) result" where
  "check_key (JArr xs) (Key k) = Inl (UnsafePathError (JStr k))"
| "check_key (JArr xs) (Idx n) =
     (if int (length xs) < n then Inl (UnsafePathError (JNum n)) else Inr ())"
| "check_key _ _ = Inr ()"

definition at_parent ::
  "json \<Rightarrow> path \<Rightarrow> (json \<Rightarrow> seg \<Rightarrow> (delta_error, json) result) \<Rightarrow> (delta_error, json) result" where
  "at_parent root p f =
     andThen (resolve root (butlast p)) (\<lambda>parent.
     andThen (check_key parent (last p)) (\<lambda>_.
     andThen (f parent (last p)) (\<lambda>parent'.
     Inr (replaceAt root (butlast p) parent'))))"

definition at_array ::
  "json \<Rightarrow> path \<Rightarrow> (json list \<Rightarrow> (delta_error, json list) result) \<Rightarrow> (delta_error, json) result" where
  "at_array root p f =
     andThen (if p = [] then Inr root else resolve root p) (\<lambda>target.
     (case target of
        JArr xs \<Rightarrow> andThen (f xs) (\<lambda>ys. Inr (replaceAt root p (JArr ys)))
      | _ \<Rightarrow> Inl (PathError p)))"

fun delete_child :: "path \<Rightarrow> json \<Rightarrow> seg \<Rightarrow> (delta_error, json) result" where
  "delete_child p (JArr xs) (Idx n) =
     (if int (length xs) \<le> n then Inl (PathError p) else Inr (JArr (js_splice xs (nat n) 1 [])))"
| "delete_child p (JArr xs) (Key k) = Inl (PathError p)"
| "delete_child p (JObj kvs) s = Inr (JObj (AList.delete (property_key s) kvs))"
| "delete_child p node s = Inr node"

definition edit_text :: "path \<Rightarrow> (string \<Rightarrow> string) \<Rightarrow> json \<Rightarrow> seg \<Rightarrow> (delta_error, json) result" where
  "edit_text p f parent key =
     (case child parent key of
        Some (JStr current) \<Rightarrow> Inr (set_child parent key (JStr (f current)))
      | _ \<Rightarrow> Inl (PathError p))"

text \<open>One iteration of the loop of \<open>applyOps\<close>.\<close>

definition apply_op :: "json \<Rightarrow> op \<Rightarrow> (delta_error, json) result" where
  "apply_op root op = andThen (assertValidOp (op_json op)) (\<lambda>_.
     (case op of
        OpR v \<Rightarrow> Inr v
      | OpP p i r items \<Rightarrow> at_array root p (\<lambda>xs. Inr (splice_array xs (nat i) (nat r) items))
      | OpM p perm \<Rightarrow> at_array root p (\<lambda>xs.
          if length xs \<noteq> length perm then Inl (PathError p) else Inr (permute_array xs perm))
      | OpS p v \<Rightarrow> at_parent root p (\<lambda>parent key. Inr (set_child parent key v))
      | OpD p \<Rightarrow> at_parent root p (delete_child p)
      | OpA p t \<Rightarrow> at_parent root p (edit_text p (\<lambda>current. current @ t))
      | OpT p n \<Rightarrow> at_parent root p (edit_text p (drop (nat n)))))"

definition apply_ops :: "json \<Rightarrow> op list \<Rightarrow> (delta_error, json) result" where
  "apply_ops root ops = run_steps apply_op root ops"

lemma apply_ops_simps [simp]:
  "apply_ops root [] = Inr root"
  "apply_ops root (op # ops) = andThen (apply_op root op) (\<lambda>v. apply_ops v ops)"
  by (simp_all add: apply_ops_def)

lemma apply_ops_append:
  "apply_ops root (xs @ ys) = andThen (apply_ops root xs) (\<lambda>v. apply_ops v ys)"
  by (simp add: apply_ops_def run_steps_append)

end
