(* ===== verification/Delta_Laws.thy ===== *)
theory Delta_Laws
  imports Delta_Ops
begin

text \<open>
  Laws of the delta applier: what the validators accept, how an operation below a segment acts on
  the child at that segment (\<open>apply_op_below\<close>, the lemma the diff and queue proofs rest on), that
  every operation keeps a document well-formed, and how writes at different slots commute.
\<close>

named_theorems delta_simps \<open>unfolding rules of the applier\<close>

subsection \<open>What the validators accept\<close>

fun safe_seg :: "seg \<Rightarrow> bool" where
  "safe_seg (Key k) = (k \<notin> set RESERVED_SEGMENTS)"
| "safe_seg (Idx n) = (0 \<le> n)"

fun valid_op :: "op \<Rightarrow> bool" where
  "valid_op (OpR v) = True"
| "valid_op (OpS p v) = (p \<noteq> [] \<and> list_all safe_seg p)"
| "valid_op (OpD p) = (p \<noteq> [] \<and> list_all safe_seg p)"
| "valid_op (OpA p t) = (p \<noteq> [] \<and> list_all safe_seg p)"
| "valid_op (OpT p n) = (0 \<le> n \<and> p \<noteq> [] \<and> list_all safe_seg p)"
| "valid_op (OpP p i r items) = (list_all safe_seg p \<and> 0 \<le> i \<and> 0 \<le> r)"
| "valid_op (OpM p perm) =
     (list_all safe_seg p \<and> distinct perm \<and> (\<forall>i\<in>set perm. 0 \<le> i \<and> nat i < length perm))"

lemma unit_result_iff: "r = Inr u \<longleftrightarrow> r = Inr ()" for u :: unit
  by simp

lemma assertSafePath_seg [simp]:
  "assertSafePath (map seg_json p) = Inr u \<longleftrightarrow> list_all safe_seg p"
proof (induction p)
  case (Cons s p)
  then show ?case by (cases s) auto
qed simp

lemma permutation_loop_iff:
  "permutation_loop n seen (map JNum perm) = Inr u \<longleftrightarrow>
   distinct perm \<and> (\<forall>i\<in>set perm. 0 \<le> i \<and> nat i < n \<and> nat i \<notin> seen)"
proof (induction perm arbitrary: seen)
  case (Cons i perm)
  have "nat i = nat j \<longleftrightarrow> i = j" if "0 \<le> i" "0 \<le> j" for j using that by auto
  then show ?case using Cons by (auto simp: not_le nat_less_iff) (force simp: nat_less_iff)+
qed simp

lemma assertPathArg_path [simp]:
  "assertPathArg (path_json p) b = Inr u \<longleftrightarrow> (b \<longrightarrow> p \<noteq> []) \<and> list_all safe_seg p"
  by (simp add: path_json_def)

lemma assertValidOp_iff: "assertValidOp (op_json op) = Inr u \<longleftrightarrow> valid_op op"
  by (cases op) (auto simp: assertValidOp_def andThen_eq_Inr ensure_eq_Inr permutation_loop_iff)

lemma apply_op_valid: "apply_op root op = Inr v \<Longrightarrow> valid_op op"
  unfolding apply_op_def andThen_eq_Inr assertValidOp_iff by blast

subsection \<open>Slots of a container\<close>

text \<open>A segment fits a container when an array is addressed by an index.\<close>

definition seg_fits :: "json \<Rightarrow> seg \<Rightarrow> bool" where
  "seg_fits node s \<longleftrightarrow> isObj node \<and> (isArray node \<longrightarrow> is_index s)"

text \<open>Two segments address the same slot of a container.\<close>

fun same_slot :: "json \<Rightarrow> seg \<Rightarrow> seg \<Rightarrow> bool" where
  "same_slot (JObj kvs) s t = (property_key s = property_key t)"
| "same_slot node s t = (s = t)"

lemma child_isObj: "child node s = Some c \<Longrightarrow> isObj node"
  by (cases node) auto

lemma child_seg_fits: "child node s = Some c \<Longrightarrow> seg_fits node s"
  by (cases node; cases s) (auto simp: seg_fits_def)

lemma isObj_set_child [simp]: "isObj (set_child node s v) = isObj node"
  by (cases node; cases s) auto

lemma isArray_set_child [simp]: "isArray (set_child node s v) = isArray node"
  by (cases node; cases s) auto

lemma seg_fits_set_child [simp]: "seg_fits (set_child node s v) t = seg_fits node t"
  by (simp add: seg_fits_def)

lemma child_set_child [simp]: "child node s = Some c \<Longrightarrow> child (set_child node s v) s = Some v"
  by (cases node; cases s) (auto split: if_splits)

lemma set_child_set_child [simp]:
  "child node s = Some c \<Longrightarrow> set_child (set_child node s v) s w = set_child node s w"
  by (cases node; cases s) (auto split: if_splits)

lemma set_child_same: "child node s = Some c \<Longrightarrow> set_child node s c = node"
  by (cases node; cases s) (auto simp: alist_update_same split: if_splits)

lemma same_slot_set_child [simp]: "same_slot (set_child node s v) t u = same_slot node t u"
  by (cases node; cases s) auto

lemma child_set_other:
  "child node s = Some c \<Longrightarrow> \<not> same_slot node s t \<Longrightarrow> child (set_child node s v) t = child node t"
  by (cases node; cases s; cases t) (auto split: if_splits simp: nth_list_update)

lemma child_same_slot: "same_slot node s t \<Longrightarrow> seg_fits node s \<Longrightarrow> child node s = child node t"
  by (cases node) (auto simp: seg_fits_def)

lemma set_child_swap:
  "child node s = Some c \<Longrightarrow> \<not> same_slot node s t \<Longrightarrow> seg_fits node t \<Longrightarrow> safe_seg t \<Longrightarrow>
   set_child (set_child node t w) s v = set_child (set_child node s v) t w"
proof (cases node)
  case (JArr xs)
  assume a: "child node s = Some c" "\<not> same_slot node s t" "seg_fits node t" "safe_seg t"
  then obtain m n where st: "s = Idx m" "t = Idx n" using JArr by (cases s; cases t) (auto simp: seg_fits_def)
  have "nat m \<noteq> nat n" using a JArr st by (auto split: if_splits)
  then show ?thesis using a JArr st
    by (auto split: if_splits simp: list_update_append list_update_swap)
next
  case (JObj kvs)
  assume "child node s = Some c" "\<not> same_slot node s t"
  then show ?thesis using JObj by (auto intro: alist_update_swap_known)
qed auto

lemma wf_json_child: "wf_json node \<Longrightarrow> child node s = Some c \<Longrightarrow> wf_json c"
proof (cases node)
  case (JArr xs)
  assume "wf_json node" "child node s = Some c"
  then show ?thesis using JArr by (cases s) (auto split: if_splits)
next
  case (JObj kvs)
  assume "wf_json node" "child node s = Some c"
  then show ?thesis using JObj wf_json_map_of by simp
qed auto

lemma wf_json_set_child: "wf_json node \<Longrightarrow> wf_json v \<Longrightarrow> wf_json (set_child node s v)"
proof (cases node)
  case (JArr xs)
  assume "wf_json node" "wf_json v"
  then show ?thesis using JArr by (cases s) (auto dest: set_update_subset_insert[THEN subsetD])
next
  case (JObj kvs)
  assume "wf_json node" "wf_json v"
  then show ?thesis using JObj
    by (auto simp: distinct_update dest!: set_update_subset)
qed auto

subsection \<open>Operations below a segment\<close>

fun below :: "seg \<Rightarrow> op \<Rightarrow> op" where
  "below s (OpR v) = OpS [s] v"
| "below s (OpS p v) = OpS (s # p) v"
| "below s (OpD p) = OpD (s # p)"
| "below s (OpA p t) = OpA (s # p) t"
| "below s (OpT p n) = OpT (s # p) n"
| "below s (OpP p i r items) = OpP (s # p) i r items"
| "below s (OpM p perm) = OpM (s # p) perm"

lemma valid_op_below: "valid_op op \<Longrightarrow> valid_op (below s op) \<longleftrightarrow> safe_seg s"
  by (cases op) auto

lemma resolveValue_full: "resolveValue f node p = Inr x \<longleftrightarrow> resolveValue g node p = Inr x"
  by (induction p arbitrary: node) (auto split: option.splits)

lemma resolve_iff: "resolve root p = Inr x \<longleftrightarrow> resolveValue [] root p = Inr x \<and> isObj x"
  by (auto simp: resolve_def andThen_eq_Inr resolveValue_full[of p _ _ _ "[]"])

lemma resolve_below:
  "child root s = Some c \<Longrightarrow> resolve root (s # p) = Inr x \<longleftrightarrow> resolve c p = Inr x"
  using child_seg_fits[of root s c]
  by (auto simp: resolve_iff seg_fits_def intro: resolveValue_full[THEN iffD1])

lemma resolve_below_ex: "resolve root (s # p) = Inr x \<Longrightarrow> \<exists>c. child root s = Some c \<and> resolve c p = Inr x"
  by (auto simp: resolve_iff split: if_splits option.splits intro: resolveValue_full[THEN iffD1])

lemma at_parent_below:
  assumes c: "child root s = Some c" and p: "p \<noteq> []"
    and fg: "\<And>parent key y. f parent key = Inr y \<longleftrightarrow> g parent key = Inr y"
  shows "at_parent root (s # p) f = Inr v \<longleftrightarrow> (\<exists>c'. at_parent c p g = Inr c' \<and> v = set_child root s c')"
  using c p by (auto simp: at_parent_def andThen_eq_Inr resolve_below fg)

lemma at_array_iff:
  "at_array root p f = Inr v \<longleftrightarrow> (\<exists>xs ys. (if p = [] then Inr root else resolve root p) = Inr (JArr xs) \<and>
     f xs = Inr ys \<and> v = replaceAt root p (JArr ys))"
proof (cases "if p = [] then Inr root else resolve root p")
  case (Inr t)
  then show ?thesis by (cases t) (auto simp: at_array_def andThen_eq_Inr)
qed (auto simp: at_array_def)

lemma at_array_below:
  assumes c: "child root s = Some c" and fg: "\<And>xs ys. f xs = Inr ys \<longleftrightarrow> g xs = Inr ys"
  shows "at_array root (s # p) f = Inr v \<longleftrightarrow> (\<exists>c'. at_array c p g = Inr c' \<and> v = set_child root s c')"
proof -
  have r: "resolve root (s # p) = Inr (JArr xs) \<longleftrightarrow> (if p = [] then Inr c else resolve c p) = Inr (JArr xs)" for xs
    by (simp only: resolve_below[OF c]) (auto simp: resolve_iff)
  show ?thesis using c by (auto simp: at_array_iff r fg)
qed

lemma delete_child_path: "delete_child p parent key = Inr y \<longleftrightarrow> delete_child q parent key = Inr y"
  by (cases "(p, parent, key)" rule: delete_child.cases) auto

lemma edit_text_path: "edit_text p f parent key = Inr y \<longleftrightarrow> edit_text q f parent key = Inr y"
  by (auto simp: edit_text_def split: option.splits json.splits)

text \<open>An operation prefixed with a segment acts on the child at that segment and nowhere else.\<close>

lemma apply_op_below:
  assumes "valid_op op" and "child root s = Some c" and "safe_seg s"
  shows "apply_op root (below s op) = Inr v \<longleftrightarrow>
    (\<exists>c'. apply_op c op = Inr c' \<and> v = set_child root s c')"
proof -
  have valid: "assertValidOp (op_json (below s op)) = Inr ()" "assertValidOp (op_json op) = Inr ()"
    using assms by (simp_all add: assertValidOp_iff valid_op_below)
  show ?thesis
  proof (cases op)
    case (OpR w)
    have "check_key root s = Inr ()" using assms(2) by (cases root; cases s) (auto split: if_splits)
    then show ?thesis using valid OpR child_isObj[OF assms(2)]
      by (auto simp: apply_op_def at_parent_def resolve_def)
  next
    case (OpS p w)
    then show ?thesis using valid assms at_parent_below[OF assms(2)] by (auto simp: apply_op_def)
  next
    case (OpD p)
    then show ?thesis using valid assms at_parent_below[OF assms(2) _ delete_child_path]
      by (auto simp: apply_op_def)
  next
    case (OpA p t)
    then show ?thesis using valid assms at_parent_below[OF assms(2) _ edit_text_path]
      by (auto simp: apply_op_def)
  next
    case (OpT p n)
    then show ?thesis using valid assms at_parent_below[OF assms(2) _ edit_text_path]
      by (auto simp: apply_op_def)
  next
    case (OpP p i r items)
    then show ?thesis using valid at_array_below[OF assms(2)] by (auto simp: apply_op_def)
  next
    case (OpM p perm)
    have "at_array root (s # p) (\<lambda>xs. if length xs \<noteq> length perm then Inl (PathError (s # p)) else Inr (permute_array xs perm)) = Inr v
      \<longleftrightarrow> (\<exists>c'. at_array c p (\<lambda>xs. if length xs \<noteq> length perm then Inl (PathError p) else Inr (permute_array xs perm)) = Inr c' \<and> v = set_child root s c')"
      by (rule at_array_below[OF assms(2)]) auto
    then show ?thesis using valid OpM by (simp add: apply_op_def)
  qed
qed

lemma apply_ops_below:
  assumes "\<forall>op\<in>set ops. valid_op op" and "child root s = Some c" and "safe_seg s"
    and "apply_ops c ops = Inr c'"
  shows "apply_ops root (map (below s) ops) = Inr (set_child root s c')"
  using assms
proof (induction ops arbitrary: root c)
  case Nil
  then show ?case by (simp add: set_child_same)
next
  case (Cons op ops)
  obtain d where d: "apply_op c op = Inr d" "apply_ops d ops = Inr c'"
    using Cons.prems(4) by (auto simp: andThen_eq_Inr)
  have "apply_op root (below s op) = Inr (set_child root s d)"
    using Cons.prems d(1) by (subst apply_op_below) auto
  then show ?case
    using Cons.IH[of "set_child root s d" d] Cons.prems d(2) by simp
qed

subsection \<open>Array edits\<close>

lemma insert_chunks_append:
  "length pre = i \<or> post = [] \<and> length pre \<le> i \<Longrightarrow>
   insert_chunks (pre @ take off items @ post) i off items = pre @ items @ post"
proof (induction "pre @ take off items @ post" i off items rule: insert_chunks.induct)
  case (1 i offset items)
  let ?chunk = "slice items offset (offset + SPLICE_CHUNK)"
  show ?case
  proof (cases "offset < length items")
    case True
    have "js_splice (pre @ take offset items @ post) (i + offset) 0 ?chunk = pre @ take offset items @ ?chunk @ post"
      using 1(2) True by (auto simp: js_splice_def)
    moreover have "take offset items @ ?chunk = take (offset + SPLICE_CHUNK) items"
      by (simp add: slice_def take_add)
    ultimately have "js_splice (pre @ take offset items @ post) (i + offset) 0 ?chunk
        = pre @ take (offset + SPLICE_CHUNK) items @ post" by (metis append_assoc)
    then show ?thesis using 1(1)[OF True] 1(2) True
      by (subst insert_chunks.simps) simp
  qed (subst insert_chunks.simps, simp)
qed

text \<open>Inserting in chunks is one splice, for any start, also past the end.\<close>

lemma splice_array_eq: "splice_array xs i r items = js_splice xs i r items"
  using insert_chunks_append[of "take i xs" i "drop (i + r) xs" 0 items]
  by (cases "i \<le> length xs") (auto simp: splice_array_def js_splice_def)

lemma length_permute_array [simp]: "length (permute_array xs perm) = length perm"
  by (simp add: permute_array_def)

subsection \<open>Documents stay well-formed\<close>

fun wf_op :: "op \<Rightarrow> bool" where
  "wf_op (OpR v) = wf_json v"
| "wf_op (OpS p v) = wf_json v"
| "wf_op (OpP p i r items) = (\<forall>v\<in>set items. wf_json v)"
| "wf_op _ = True"

lemma wf_json_replaceAt: "wf_json root \<Longrightarrow> wf_json v \<Longrightarrow> wf_json (replaceAt root p v)"
  by (induction p arbitrary: root) (auto intro: wf_json_set_child wf_json_child split: option.splits)

lemma wf_json_resolve: "resolveValue f root p = Inr v \<Longrightarrow> wf_json root \<Longrightarrow> wf_json v"
  by (induction p arbitrary: root) (auto intro: wf_json_child split: option.splits if_splits)



lemma wf_json_apply_op:
  assumes "apply_op root op = Inr v" and "wf_json root" and "wf_op op"
  shows "wf_json v"
proof -
  have set_js: "set (js_splice xs i r items) \<subseteq> set xs \<union> set items" for xs items :: "json list" and i r
    by (auto simp: js_splice_def dest: in_set_takeD in_set_dropD)
  have arr: "wf_json v" if at: "at_array root p f = Inr v"
    and elems: "\<And>xs ys. f xs = Inr ys \<Longrightarrow> \<forall>x\<in>set xs. wf_json x \<Longrightarrow> \<forall>y\<in>set ys. wf_json y" for p f
  proof -
    obtain xs ys where t: "(if p = [] then Inr root else resolve root p) = Inr (JArr xs)"
      "f xs = Inr ys" "v = replaceAt root p (JArr ys)" using at unfolding at_array_iff by blast
    have "wf_json (JArr xs)" using t(1) assms(2)
      by (auto simp: resolve_iff simp del: wf_json.simps dest: wf_json_resolve split: if_splits)
    then show ?thesis using t elems[OF t(2)] assms(2) by (auto intro: wf_json_replaceAt)
  qed
  have par: "wf_json v" if "at_parent root p f = Inr v"
    and "\<And>parent key y. f parent key = Inr y \<Longrightarrow> wf_json parent \<Longrightarrow> wf_json y" for p f
    using that assms(2)
    by (auto simp: at_parent_def andThen_eq_Inr resolve_iff dest: wf_json_resolve intro!: wf_json_replaceAt)
  have del: "wf_json y" if "delete_child p parent key = Inr y" "wf_json parent" for p parent key y
  proof (cases "(p, parent, key)" rule: delete_child.cases)
    case (1 p xs n)
    then show ?thesis using that set_js[of xs "nat n" 1 "[]"] by (auto split: if_splits) blast
  next
    case (3 p kvs s)
    then show ?thesis using that
      by (auto simp: distinct_delete) (metis in_set_deleteD snd_conv)
  qed (use that in auto)
  have edit: "wf_json y" if "edit_text p f parent key = Inr y" "wf_json parent" for p f parent key y
    using that by (auto simp: edit_text_def intro: wf_json_set_child split: option.splits json.splits)
  show ?thesis
  proof (cases op)
    case (OpR w)
    then show ?thesis using assms by (auto simp: apply_op_def andThen_eq_Inr)
  next
    case (OpS p w)
    then show ?thesis using assms by (auto simp: apply_op_def andThen_eq_Inr intro!: par wf_json_set_child)
  next
    case (OpD p)
    then show ?thesis using assms by (auto simp: apply_op_def andThen_eq_Inr intro: par del)
  next
    case (OpA p t)
    then show ?thesis using assms by (auto simp: apply_op_def andThen_eq_Inr intro: par edit)
  next
    case (OpT p n)
    then show ?thesis using assms by (auto simp: apply_op_def andThen_eq_Inr intro: par edit)
  next
    case (OpP p i r items)
    then have "at_array root p (\<lambda>xs. Inr (splice_array xs (nat i) (nat r) items)) = Inr v"
      using assms by (auto simp: apply_op_def andThen_eq_Inr)
    then show ?thesis by (rule arr) (use OpP assms set_js in \<open>fastforce simp: splice_array_eq\<close>)
  next
    case (OpM p perm)
    then have valid: "valid_op (OpM p perm)" using assms(1) apply_op_valid by blast
    have "at_array root p (\<lambda>xs. if length xs \<noteq> length perm then Inl (PathError p)
        else Inr (permute_array xs perm)) = Inr v"
      using OpM assms by (auto simp: apply_op_def andThen_eq_Inr)
    then show ?thesis by (rule arr) (use valid in \<open>auto simp: permute_array_def split: if_splits\<close>)
  qed
qed

lemma wf_json_apply_ops:
  "apply_ops root ops = Inr v \<Longrightarrow> wf_json root \<Longrightarrow> \<forall>op\<in>set ops. wf_op op \<Longrightarrow> wf_json v"
  by (induction ops arbitrary: root) (auto simp: andThen_eq_Inr intro: wf_json_apply_op)

text \<open>What a validated operation does.\<close>

lemma apply_op_eq:
  assumes "valid_op op"
  shows "apply_op root op = (case op of
        OpR v \<Rightarrow> Inr v
      | OpP p i r items \<Rightarrow> at_array root p (\<lambda>xs. Inr (splice_array xs (nat i) (nat r) items))
      | OpM p perm \<Rightarrow> at_array root p (\<lambda>xs.
          if length xs \<noteq> length perm then Inl (PathError p) else Inr (permute_array xs perm))
      | OpS p v \<Rightarrow> at_parent root p (\<lambda>parent key. Inr (set_child parent key v))
      | OpD p \<Rightarrow> at_parent root p (delete_child p)
      | OpA p t \<Rightarrow> at_parent root p (edit_text p (\<lambda>current. current @ t))
      | OpT p n \<Rightarrow> at_parent root p (edit_text p (drop (nat n))))"
proof -
  have "assertValidOp (op_json op) = Inr ()" using assms by (simp only: assertValidOp_iff)
  then show ?thesis by (simp only: apply_op_def andThen_simps)
qed

subsection \<open>Locations\<close>

text \<open>The value at a path, and an operation moved under a path.\<close>

fun get :: "json \<Rightarrow> path \<Rightarrow> json option" where
  "get u [] = Some u"
| "get u (s # p) = (case child u s of None \<Rightarrow> None | Some c \<Rightarrow> get c p)"

definition under :: "path \<Rightarrow> op \<Rightarrow> op" where
  "under p op = foldr below p op"

lemma under_simps:
  "under p (OpR v) = (if p = [] then OpR v else OpS p v)"
  "under p (OpS q v) = OpS (p @ q) v"
  "under p (OpD q) = OpD (p @ q)"
  "under p (OpA q t) = OpA (p @ q) t"
  "under p (OpT q n) = OpT (p @ q) n"
  "under p (OpP q i r items) = OpP (p @ q) i r items"
  "under p (OpM q perm) = OpM (p @ q) perm"
  by (induction p) (auto simp: under_def)

lemma get_append: "get root (p @ q) = Option.bind (get root p) (\<lambda>v. get v q)"
  by (induction p arbitrary: root) (auto split: option.splits)

lemma replaceAt_append:
  "get root p = Some v \<Longrightarrow> replaceAt root (p @ q) w = replaceAt root p (replaceAt v q w)"
  by (induction p arbitrary: root) (auto split: option.splits)

lemma get_replaceAt: "get root p = Some v \<Longrightarrow> get (replaceAt root p w) p = Some w"
  by (induction p arbitrary: root) (auto split: option.splits)

lemma replaceAt_replaceAt:
  "get root p = Some v \<Longrightarrow> replaceAt (replaceAt root p x) p y = replaceAt root p y"
  by (induction p arbitrary: root) (auto split: option.splits)

lemma replaceAt_get: "get root p = Some v \<Longrightarrow> replaceAt root p v = root"
  by (induction p arbitrary: root) (auto simp: set_child_same split: option.splits)

lemma wf_json_get: "get root p = Some v \<Longrightarrow> wf_json root \<Longrightarrow> wf_json v"
  by (induction p arbitrary: root) (auto intro: wf_json_child split: option.splits)

lemma valid_op_under: "valid_op op \<Longrightarrow> list_all safe_seg p \<Longrightarrow> valid_op (under p op)"
  by (induction p) (auto simp: under_def valid_op_below)

text \<open>An operation moved under a path acts on the value there and nowhere else.\<close>

lemma apply_op_under:
  "get root p = Some c \<Longrightarrow> list_all safe_seg p \<Longrightarrow> valid_op op \<Longrightarrow> apply_op c op = Inr c' \<Longrightarrow>
   apply_op root (under p op) = Inr (replaceAt root p c')"
proof (induction p arbitrary: root)
  case Nil
  then show ?case by (simp add: under_def)
next
  case (Cons s p)
  then obtain d where d: "child root s = Some d" "get d p = Some c" by (auto split: option.splits)
  then have "apply_op d (under p op) = Inr (replaceAt d p c')" using Cons by simp
  moreover have "under (s # p) op = below s (under p op)" by (simp add: under_def)
  ultimately show ?case
    using apply_op_below[of "under p op" root s d] valid_op_under[of op p] Cons.prems d by simp
qed

end
