(* ===== verification/Delta_Codec.thy ===== *)
theory Delta_Codec
  imports Delta_Laws
begin

text \<open>
  The wire codec of \<open>packages/chord/src/delta/index.ts\<close>: path interning and arity omission
  between the tracker and a boundary. A wire operation is a tuple, modelled as the JSON array it
  is; the decoder reads arbitrary JSON. The state of an encoder or decoder is explicit, and a
  stream is a sequence of batches through one pair of states.
\<close>

subsection \<open>Interface\<close>

text \<open>
  What a stateful codec promises to the links that use it: while the two states agree, decoding
  the batch that was just encoded returns the operations and keeps the states in agreement.
\<close>

locale stream_codec =
  fixes enc :: "'e \<Rightarrow> 'o list \<Rightarrow> 'e \<times> 'w list"
    and dec :: "'d \<Rightarrow> 'w list \<Rightarrow> ('err, 'd \<times> 'o list) result"
    and sync :: "'e \<Rightarrow> 'd \<Rightarrow> bool"
    and valid :: "'o \<Rightarrow> bool"
  assumes batch_roundtrip:
    "sync e d \<Longrightarrow> \<forall>x\<in>set xs. valid x \<Longrightarrow> enc e xs = (e', ws) \<Longrightarrow>
     \<exists>d'. dec d ws = Inr (d', xs) \<and> sync e' d'"
begin

lemma stream_roundtrip:
  "sync e d \<Longrightarrow> \<forall>b\<in>set bs. \<forall>x\<in>set b. valid x \<Longrightarrow> thread enc e bs = (e', ws) \<Longrightarrow>
   \<exists>d'. thread_result dec d ws = Inr (d', bs) \<and> sync e' d'"
proof (induction bs arbitrary: e d ws)
  case Nil
  then show ?case by auto
next
  case (Cons b bs)
  obtain e1 w where w: "enc e b = (e1, w)" by fastforce
  obtain ws' where ws': "thread enc e1 bs = (e', ws')" "ws = w # ws'"
    using Cons.prems(3) w by (auto simp: Let_def split: prod.splits)
  obtain d1 where d1: "dec d w = Inr (d1, b)" "sync e1 d1"
    using batch_roundtrip[OF Cons.prems(1) _ w] Cons.prems(2) by auto
  obtain d2 where "thread_result dec d1 ws' = Inr (d2, bs)" "sync e' d2"
    using Cons.IH[OF d1(2) _ ws'(1)] Cons.prems(2) by auto
  then show ?case using d1 ws'(2) by simp
qed

end

subsection \<open>Wire validation\<close>

fun okRef :: "json \<Rightarrow> (delta_error, unit) result" where
  "okRef (JNum n) = (if n < 0 then Inl (TypeError ''bad path id'') else Inr ())"
| "okRef (JArr p) = assertSafePath p"
| "okRef _ = Inl (TypeError ''path is not an array'')"

definition assertValidWireOp :: "json \<Rightarrow> (delta_error, unit) result" where
  "assertValidWireOp v = (case v of
     JArr (verb # args) \<Rightarrow>
       (if verb = JStr ''r'' then ensure (length args = 1) (TypeError ''r arity'')
        else if verb = JStr ''s'' then
          (case args of [r, _] \<Rightarrow> okRef r | [_] \<Rightarrow> Inr () | _ \<Rightarrow> Inl (TypeError ''s arity''))
        else if verb = JStr ''d'' then
          (case args of [r] \<Rightarrow> okRef r | [] \<Rightarrow> Inr () | _ \<Rightarrow> Inl (TypeError ''d arity''))
        else if verb = JStr ''a'' then
          (case args of
             [r, t] \<Rightarrow> andThen (okRef r) (\<lambda>_. ensure (is_string t) (TypeError ''a value''))
           | [t] \<Rightarrow> ensure (is_string t) (TypeError ''a value'')
           | _ \<Rightarrow> Inl (TypeError ''a arity''))
        else if verb = JStr ''t'' then
          (case args of
             [r, n] \<Rightarrow> andThen (okRef r) (\<lambda>_. ensure (is_natural n) (TypeError ''t count''))
           | [n] \<Rightarrow> ensure (is_natural n) (TypeError ''t count'')
           | _ \<Rightarrow> Inl (TypeError ''t arity''))
        else if verb = JStr ''p'' then
          (case (case args of
                   [ref, i, r, items] \<Rightarrow> Some (Some ref, i, r, items)
                 | [i, r, items] \<Rightarrow> Some (None, i, r, items)
                 | _ \<Rightarrow> None) of
             None \<Rightarrow> Inl (TypeError ''p arity'')
           | Some (ref, i, r, items) \<Rightarrow>
               andThen (case ref of Some x \<Rightarrow> okRef x | None \<Rightarrow> Inr ()) (\<lambda>_.
               andThen (ensure (is_natural i) (TypeError ''p index'')) (\<lambda>_.
               andThen (ensure (is_natural r) (TypeError ''p remove'')) (\<lambda>_.
               ensure (isArray items) (TypeError ''p items'')))))
        else if verb = JStr ''m'' then
          (case args of
             [r, perm] \<Rightarrow> andThen (okRef r) (\<lambda>_. assertPermutation perm)
           | [perm] \<Rightarrow> assertPermutation perm
           | _ \<Rightarrow> Inl (TypeError ''m arity''))
        else if verb = JStr ''#'' then
          (case args of
             [n, JArr p] \<Rightarrow> if is_natural n then assertSafePath p else Inl (TypeError ''# shape'')
           | _ \<Rightarrow> Inl (TypeError ''# shape''))
        else Inl (TypeError ''unknown op verb''))
   | _ \<Rightarrow> Inl (TypeError ''op is not a tuple''))"

subsection \<open>Encoder\<close>

text \<open>
  The key of a path in the encoder's tables is \<open>JSON.stringify\<close> of it, which is injective on
  arrays of strings and integers: two paths have the same key exactly when they are equal.
\<close>

definition pathKey :: "path \<Rightarrow> path" where
  "pathKey p = p"

record encoder =
  enc_seen :: "path set"
  enc_ids :: "path \<rightharpoonup> nat"
  enc_next :: nat

definition new_encoder :: encoder where
  "new_encoder = \<lparr>enc_seen = {}, enc_ids = Map.empty, enc_next = 0\<rparr>"

fun op_verb :: "op \<Rightarrow> string" where
  "op_verb (OpR _) = ''r''"
| "op_verb (OpS _ _) = ''s''"
| "op_verb (OpD _) = ''d''"
| "op_verb (OpA _ _) = ''a''"
| "op_verb (OpT _ _) = ''t''"
| "op_verb (OpP _ _ _ _) = ''p''"
| "op_verb (OpM _ _) = ''m''"

text \<open>The part of the tuple after the path.\<close>

fun op_args :: "op \<Rightarrow> json list" where
  "op_args (OpR v) = [v]"
| "op_args (OpS _ v) = [v]"
| "op_args (OpD _) = []"
| "op_args (OpA _ t) = [JStr t]"
| "op_args (OpT _ n) = [JNum n]"
| "op_args (OpP _ i r items) = [JNum i, JNum r, JArr items]"
| "op_args (OpM _ perm) = [JArr (map JNum perm)]"

definition wire_short :: "op \<Rightarrow> json" where
  "wire_short op = JArr (JStr (op_verb op) # op_args op)"

definition wire_ref :: "json \<Rightarrow> op \<Rightarrow> json" where
  "wire_ref ref op = JArr (JStr (op_verb op) # ref # op_args op)"

definition wire_define :: "nat \<Rightarrow> path \<Rightarrow> json" where
  "wire_define i p = JArr [JStr ''#'', JNum (int i), path_json p]"

text \<open>One iteration of the loop of \<open>encode\<close>; the option is \<open>previous\<close>, the last path of this batch.\<close>

definition encode_op :: "encoder \<Rightarrow> path option \<Rightarrow> op \<Rightarrow> encoder \<times> path option \<times> json list" where
  "encode_op e previous op =
     (if is_replace op then (new_encoder, None, [op_json op])
      else
        let p = op_path op; key = pathKey p in
        if previous = Some key then (e, previous, [wire_short op])
        else
          (case enc_ids e key of
             Some i \<Rightarrow> (e, Some key, [wire_ref (JNum (int i)) op])
           | None \<Rightarrow>
               if key \<in> enc_seen e then
                 let i = enc_next e in
                 (e\<lparr>enc_ids := (enc_ids e)(key \<mapsto> i), enc_next := i + 1\<rparr>, Some key,
                  [wire_define i p, wire_ref (JNum (int i)) op])
               else
                 (e\<lparr>enc_seen := insert key (enc_seen e)\<rparr>, Some key, [wire_ref (path_json p) op])))"

fun encode_loop :: "encoder \<Rightarrow> path option \<Rightarrow> op list \<Rightarrow> encoder \<times> json list" where
  "encode_loop e previous [] = (e, [])"
| "encode_loop e previous (op # ops) =
     (let (e1, previous1, out) = encode_op e previous op; (e2, outs) = encode_loop e1 previous1 ops
      in (e2, out @ outs))"

definition encode :: "encoder \<Rightarrow> op list \<Rightarrow> encoder \<times> json list" where
  "encode e ops = encode_loop e None ops"

subsection \<open>Decoder\<close>

text \<open>The state of a decoder: the paths defined so far, by id.\<close>

type_synonym decoder = "int \<rightharpoonup> path"

definition new_decoder :: decoder where
  "new_decoder = Map.empty"

text \<open>Reading the parts of a validated tuple.\<close>

fun seg_of :: "json \<Rightarrow> seg" where
  "seg_of (JStr k) = Key k"
| "seg_of (JNum n) = Idx n"
| "seg_of _ = Idx 0"

fun path_of :: "json \<Rightarrow> path" where
  "path_of (JArr p) = map seg_of p"
| "path_of _ = []"

fun num_of :: "json \<Rightarrow> int" where
  "num_of (JNum n) = n"
| "num_of _ = 0"

fun text_of :: "json \<Rightarrow> string" where
  "text_of (JStr t) = t"
| "text_of _ = []"

fun items_of :: "json \<Rightarrow> json list" where
  "items_of (JArr xs) = xs"
| "items_of _ = []"

text \<open>Arity tells whether a reference is present: the short forms omit it.\<close>

definition is_short :: "string \<Rightarrow> json list \<Rightarrow> bool" where
  "is_short verb args =
     ((verb = ''d'' \<and> length args = 0) \<or>
      (verb \<noteq> ''d'' \<and> verb \<noteq> ''p'' \<and> length args = 1) \<or>
      (verb = ''p'' \<and> length args = 3))"

text \<open>The path of a non-replacing wire operation: the previous one, an interned one or an inline one.\<close>

definition wire_path ::
  "decoder \<Rightarrow> path option \<Rightarrow> string \<Rightarrow> json list \<Rightarrow> (delta_error, path) result" where
  "wire_path d previous verb args =
     (if is_short verb args then (case previous of None \<Rightarrow> Inl (PathError []) | Some p \<Rightarrow> Inr p)
      else (case hd args of
              JNum i \<Rightarrow> (case d i of None \<Rightarrow> Inl (PathIdError i) | Some p \<Rightarrow> Inr p)
            | ref \<Rightarrow> Inr (path_of ref)))"

text \<open>The decoded operation, from the arguments after the reference.\<close>

definition decoded_op :: "string \<Rightarrow> path \<Rightarrow> json list \<Rightarrow> op" where
  "decoded_op verb p args =
     (if verb = ''s'' then OpS p (args ! 0)
      else if verb = ''d'' then OpD p
      else if verb = ''a'' then OpA p (text_of (args ! 0))
      else if verb = ''t'' then OpT p (num_of (args ! 0))
      else if verb = ''p'' then OpP p (num_of (args ! 0)) (num_of (args ! 1)) (items_of (args ! 2))
      else OpM p (map num_of (items_of (args ! 0))))"

text \<open>One iteration of the loop of \<open>decode\<close>: the new state and the operations it pushes.\<close>

definition decode_op ::
  "decoder \<Rightarrow> path option \<Rightarrow> json \<Rightarrow> (delta_error, decoder \<times> path option \<times> op list) result" where
  "decode_op d previous w = andThen (assertValidWireOp w) (\<lambda>_.
     (case w of
        JArr (JStr verb # args) \<Rightarrow>
          if verb = ''#'' then Inr (d(num_of (args ! 0) \<mapsto> path_of (args ! 1)), previous, [])
          else if verb = ''r'' then Inr (new_decoder, None, [OpR (args ! 0)])
          else andThen (wire_path d previous verb args) (\<lambda>p.
            if verb \<noteq> ''p'' \<and> verb \<noteq> ''m'' \<and> p = [] then Inl (PathError p)
            else Inr (d, Some p, [decoded_op verb p (if is_short verb args then args else tl args)]))
      | _ \<Rightarrow> Inl (TypeError ''op is not a tuple'')))"

fun decode_loop ::
  "decoder \<Rightarrow> path option \<Rightarrow> json list \<Rightarrow> (delta_error, decoder \<times> op list) result" where
  "decode_loop d previous [] = Inr (d, [])"
| "decode_loop d previous (w # ws) =
     andThen (decode_op d previous w) (\<lambda>(d1, previous1, out).
     andThen (decode_loop d1 previous1 ws) (\<lambda>(d2, outs). Inr (d2, out @ outs)))"

definition decode :: "decoder \<Rightarrow> json list \<Rightarrow> (delta_error, decoder \<times> op list) result" where
  "decode d ws = decode_loop d None ws"

subsection \<open>Agreement of an encoder and its decoder\<close>

definition codec_sync :: "encoder \<Rightarrow> decoder \<Rightarrow> bool" where
  "codec_sync e d \<longleftrightarrow>
     (\<forall>p i. enc_ids e p = Some i \<longrightarrow> i < enc_next e \<and> d (int i) = Some p)"

text \<open>Within a batch the decoder's previous path is the encoder's, where the encoder has one.\<close>

definition previous_sync :: "path option \<Rightarrow> path option \<Rightarrow> bool" where
  "previous_sync pe pd \<longleftrightarrow> pe = None \<or> pd = pe"

lemma codec_sync_new [simp]: "codec_sync new_encoder d"
  by (simp add: codec_sync_def new_encoder_def)

lemma seg_of_seg_json [simp]: "seg_of (seg_json s) = s"
  by (cases s) auto

lemma path_of_path_json [simp]: "path_of (path_json p) = p"
  by (simp add: path_json_def comp_def)

lemma okRef_path [simp]: "okRef (path_json p) = Inr u \<longleftrightarrow> list_all safe_seg p"
  by (simp add: path_json_def)

lemma map_num_of_JNum [simp]: "map (num_of \<circ> JNum) xs = xs"
  by (simp add: comp_def)

lemma assertPermutation_iff:
  "assertPermutation (JArr (map JNum perm)) = Inr u \<longleftrightarrow>
   distinct perm \<and> (\<forall>i\<in>set perm. 0 \<le> i \<and> nat i < length perm)"
  by (simp add: permutation_loop_iff)

lemma assertValidWireOp_short:
  "valid_op op \<Longrightarrow> \<not> is_replace op \<Longrightarrow> assertValidWireOp (wire_short op) = Inr ()"
  by (cases op) (auto simp: assertValidWireOp_def wire_short_def assertPermutation_iff[where u = "()"]
      simp del: assertPermutation.simps)

lemma assertValidWireOp_ref:
  "valid_op op \<Longrightarrow> \<not> is_replace op \<Longrightarrow> okRef ref = Inr () \<Longrightarrow> assertValidWireOp (wire_ref ref op) = Inr ()"
  by (cases op) (auto simp: assertValidWireOp_def wire_ref_def assertPermutation_iff[where u = "()"]
      simp del: assertPermutation.simps)

lemma assertValidWireOp_define:
  "list_all safe_seg p \<Longrightarrow> assertValidWireOp (wire_define i p) = Inr ()"
  by (simp add: assertValidWireOp_def wire_define_def path_json_def)

lemma decode_short:
  assumes "valid_op op" and "\<not> is_replace op"
  shows "decode_op d (Some (op_path op)) (wire_short op) = Inr (d, Some (op_path op), [op])"
  using assms assertValidWireOp_short[OF assms]
  by (cases op) (auto simp: decode_op_def wire_short_def wire_path_def is_short_def decoded_op_def)

lemma decode_ref:
  assumes "valid_op op" and "\<not> is_replace op" and "okRef ref = Inr ()"
    and "case ref of JNum i \<Rightarrow> d i = Some (op_path op) | _ \<Rightarrow> path_of ref = op_path op"
  shows "decode_op d previous (wire_ref ref op) = Inr (d, Some (op_path op), [op])"
  using assms assertValidWireOp_ref[OF assms(1-3)]
  by (cases op) (auto simp: decode_op_def wire_ref_def wire_path_def is_short_def decoded_op_def split: json.splits)

lemma decode_define:
  "list_all safe_seg p \<Longrightarrow>
   decode_op d previous (wire_define i p) = Inr (d(int i \<mapsto> p), previous, [])"
  using assertValidWireOp_define[of p i]
  by (simp add: decode_op_def wire_define_def)

subsection \<open>Round trip\<close>

text \<open>
  Decoding what one operation encodes to gives the operation back, whatever the decoder still
  holds from earlier, as long as the states agree.
\<close>

lemma decode_encode_op:
  assumes sync: "codec_sync e d" "previous_sync pe pd" and v: "valid_op op"
    and enc: "encode_op e pe op = (e', pe', out)"
  shows "\<exists>d' pd'. codec_sync e' d' \<and> previous_sync pe' pd' \<and>
    (\<forall>rest. decode_loop d pd (out @ rest) =
       andThen (decode_loop d' pd' rest) (\<lambda>(d2, outs). Inr (d2, op # outs)))"
proof -
  have safe: "\<not> is_replace op \<Longrightarrow> list_all safe_seg (op_path op)" using v by (cases op) auto
  show ?thesis
  proof (cases "is_replace op")
    case True
    then obtain w where "op = OpR w" by (cases op) auto
    then show ?thesis using enc
      by (auto simp: encode_op_def decode_op_def assertValidWireOp_def previous_sync_def
          intro!: exI[of _ new_decoder] exI[of _ None] split: sum.splits)
  next
    case nr: False
    consider (short) "pe = Some (op_path op)"
      | (known) i where "pe \<noteq> Some (op_path op)" "enc_ids e (op_path op) = Some i"
      | (second) "pe \<noteq> Some (op_path op)" "enc_ids e (op_path op) = None" "op_path op \<in> enc_seen e"
      | (first) "pe \<noteq> Some (op_path op)" "enc_ids e (op_path op) = None" "op_path op \<notin> enc_seen e"
      by (cases "enc_ids e (op_path op)") auto
    then show ?thesis
    proof cases
      case short
      then have "out = [wire_short op]" "e' = e" "pe' = pe" "pd = pe"
        using enc nr sync(2) by (auto simp: encode_op_def pathKey_def Let_def previous_sync_def)
      then show ?thesis using decode_short[OF v nr] short sync by (auto intro!: exI[of _ d])
    next
      case (known i)
      then have out: "out = [wire_ref (JNum (int i)) op]" "e' = e" "pe' = Some (op_path op)"
        using enc nr by (auto simp: encode_op_def pathKey_def Let_def)
      have "d (int i) = Some (op_path op)" using sync(1) known(2) by (auto simp: codec_sync_def)
      then show ?thesis using decode_ref[OF v nr, of "JNum (int i)" d] out sync
        by (auto simp: previous_sync_def intro!: exI[of _ d])
    next
      case second
      let ?i = "enc_next e" and ?p = "op_path op"
      have out: "out = [wire_define ?i ?p, wire_ref (JNum (int ?i)) op]" "pe' = Some ?p"
        "e' = e\<lparr>enc_ids := (enc_ids e)(?p \<mapsto> ?i), enc_next := ?i + 1\<rparr>"
        using enc nr second by (auto simp: encode_op_def pathKey_def Let_def)
      have "codec_sync e' (d(int ?i \<mapsto> ?p))"
        using sync(1) by (auto simp: out(3) codec_sync_def less_Suc_eq)
      then show ?thesis
        using decode_ref[OF v nr, of "JNum (int ?i)" "d(int ?i \<mapsto> ?p)"] decode_define[OF safe[OF nr]] out
        by (auto simp: previous_sync_def intro!: exI[of _ "d(int ?i \<mapsto> ?p)"])
    next
      case first
      then have out: "out = [wire_ref (path_json (op_path op)) op]" "pe' = Some (op_path op)"
        "e' = e\<lparr>enc_seen := insert (op_path op) (enc_seen e)\<rparr>"
        using enc nr by (auto simp: encode_op_def pathKey_def Let_def)
      have "codec_sync e' d" using sync(1) by (simp add: out(3) codec_sync_def)
      then show ?thesis using decode_ref[OF v nr, of "path_json (op_path op)" d] safe[OF nr] out
        by (auto simp: previous_sync_def path_json_def comp_def intro!: exI[of _ d])
    qed
  qed
qed

lemma decode_encode_loop:
  "codec_sync e d \<Longrightarrow> previous_sync pe pd \<Longrightarrow> \<forall>op\<in>set ops. valid_op op \<Longrightarrow>
   encode_loop e pe ops = (e', ws) \<Longrightarrow>
   \<exists>d' pd'. codec_sync e' d' \<and>
     (\<forall>rest. decode_loop d pd (ws @ rest) =
       andThen (decode_loop d' pd' rest) (\<lambda>(d2, outs). Inr (d2, ops @ outs)))"
proof (induction ops arbitrary: e pe d pd ws)
  case Nil
  then show ?case by (auto intro!: exI[of _ d] exI[of _ pd] split: sum.splits simp: andThen_def)
next
  case (Cons op ops)
  obtain e1 pe1 out where op: "encode_op e pe op = (e1, pe1, out)" by (metis prod_cases3)
  obtain ws' where ws': "encode_loop e1 pe1 ops = (e', ws')" "ws = out @ ws'"
    using Cons.prems(4) op by (auto simp: Let_def split: prod.splits)
  obtain d1 pd1 where d1: "codec_sync e1 d1" "previous_sync pe1 pd1"
    "\<And>rest. decode_loop d pd (out @ rest) =
       andThen (decode_loop d1 pd1 rest) (\<lambda>(d2, outs). Inr (d2, op # outs))"
    using decode_encode_op[OF Cons.prems(1,2) _ op] Cons.prems(3) by auto
  obtain d2 pd2 where d2: "codec_sync e' d2"
    "\<And>rest. decode_loop d1 pd1 (ws' @ rest) =
       andThen (decode_loop d2 pd2 rest) (\<lambda>(d2, outs). Inr (d2, ops @ outs))"
    using Cons.IH[OF d1(1,2) _ ws'(1)] Cons.prems(3) by auto
  have "decode_loop d pd (ws @ rest) =
      andThen (decode_loop d2 pd2 rest) (\<lambda>(d2, outs). Inr (d2, (op # ops) @ outs))" for rest
    by (simp add: ws'(2) d1(3) d2(2) andThen_assoc case_prod_unfold)
  then show ?case using d2(1) by blast
qed

lemma decode_encode:
  assumes "codec_sync e d" and "\<forall>op\<in>set ops. valid_op op" and "encode e ops = (e', ws)"
  shows "\<exists>d'. decode d ws = Inr (d', ops) \<and> codec_sync e' d'"
proof -
  have "previous_sync None None" by (simp add: previous_sync_def)
  from decode_encode_loop[OF assms(1) this assms(2) assms(3)[unfolded encode_def]]
  obtain d' pd' where d': "codec_sync e' d'" and
    "\<forall>rest. decode_loop d None (ws @ rest) =
       andThen (decode_loop d' pd' rest) (\<lambda>(d2, outs). Inr (d2, ops @ outs))" by blast
  then have "decode_loop d None (ws @ []) = Inr (d', ops)" by (simp del: append_Nil2)
  then show ?thesis using d' by (auto simp: decode_def)
qed

interpretation delta_codec: stream_codec encode decode codec_sync valid_op
  by unfold_locales (rule decode_encode)

subsection \<open>Streams of batches\<close>

definition encode_stream :: "op list list \<Rightarrow> json list list" where
  "encode_stream batches = snd (thread encode new_encoder batches)"

definition decode_stream :: "json list list \<Rightarrow> (delta_error, op list list) result" where
  "decode_stream wires = andThen (thread_result decode new_decoder wires) (\<lambda>(d, batches). Inr batches)"

text \<open>
  C1. The codec round trip: a decoder that sees every batch of its encoder, from the start of the
  stream, returns exactly the operations encoded, batch by batch, for any valid operations,
  through interning, arity omission and the resets at replacements.
\<close>

theorem codec_stream_roundtrip:
  assumes "\<forall>b\<in>set batches. \<forall>op\<in>set b. valid_op op"
  shows "decode_stream (encode_stream batches) = Inr batches"
proof -
  obtain e' ws where "thread encode new_encoder batches = (e', ws)" by fastforce
  then show ?thesis
    using delta_codec.stream_roundtrip[OF _ assms, of new_encoder new_decoder]
    by (fastforce simp: encode_stream_def decode_stream_def)
qed

text \<open>A batch that starts with a replacement encodes the same from every state.\<close>

lemma encode_base: "is_base b \<Longrightarrow> encode e b = encode new_encoder b"
  by (cases b) (auto simp: is_base_def encode_def encode_op_def Let_def)

text \<open>
  C8. A base batch is a recovery point: a reader that starts with a fresh decoder at the wire form
  of a batch that begins with a replacement decodes that batch and everything after it.
\<close>

theorem codec_recovers_from_base:
  assumes "\<forall>b\<in>set (earlier @ base # later). \<forall>op\<in>set b. valid_op op" and "is_base base"
  shows "decode_stream (drop (length earlier) (encode_stream (earlier @ base # later)))
    = Inr (base # later)"
proof -
  obtain e1 us where u: "thread encode new_encoder earlier = (e1, us)" by fastforce
  obtain e2 vs where v: "thread encode e1 (base # later) = (e2, vs)" by fastforce
  have "length us = length earlier" using length_thread[of encode new_encoder earlier] u by simp
  then have wires: "drop (length earlier) (encode_stream (earlier @ base # later)) = vs"
    using u v by (simp add: encode_stream_def thread_append)
  have "thread encode new_encoder (base # later) = (e2, vs)"
    using v encode_base[OF assms(2), of e1] by simp
  then have "decode_stream vs = Inr (base # later)"
    using delta_codec.stream_roundtrip[of new_encoder new_decoder "base # later" e2 vs] assms(1)
    by (fastforce simp: decode_stream_def)
  then show ?thesis by (simp add: wires)
qed

lemma decode_concat:
  "codec_sync e d \<Longrightarrow> \<forall>b\<in>set bs. \<forall>op\<in>set b. valid_op op \<Longrightarrow> thread encode e bs = (e', ws) \<Longrightarrow>
   \<exists>d'. decode_loop d pd (concat ws) = Inr (d', concat bs)"
proof (induction bs arbitrary: e d pd ws)
  case Nil
  then show ?case by auto
next
  case (Cons b bs)
  obtain e1 w where b: "encode e b = (e1, w)" by fastforce
  obtain ws' where ws': "thread encode e1 bs = (e', ws')" "ws = w # ws'"
    using Cons.prems(3) b by (auto simp: Let_def split: prod.splits)
  have w: "encode_loop e None b = (e1, w)" using b by (simp add: encode_def)
  have "previous_sync None pd" by (simp add: previous_sync_def)
  from decode_encode_loop[OF Cons.prems(1) this _ w] Cons.prems(2)
  obtain d1 pd1 where d1: "codec_sync e1 d1" and
    "\<forall>rest. decode_loop d pd (w @ rest) =
       andThen (decode_loop d1 pd1 rest) (\<lambda>(d2, outs). Inr (d2, b @ outs))" by auto
  then show ?case using Cons.IH[OF d1 _ ws'(1), of pd1] Cons.prems(2) ws'(2) by auto
qed

text \<open>
  C31. Consecutive batches may be concatenated into one, as links do with waiting state: decoding the
  joined wire batch gives the joined operations, since every batch starts with an explicit path.
\<close>

theorem codec_batches_concatenate:
  assumes "\<forall>b\<in>set batches. \<forall>op\<in>set b. valid_op op"
  shows "decode_stream [concat (encode_stream batches)] = Inr [concat batches]"
proof -
  obtain e' ws where ws: "thread encode new_encoder batches = (e', ws)" by fastforce
  then show ?thesis
    using decode_concat[OF _ assms ws, of new_decoder None]
    by (auto simp: encode_stream_def decode_stream_def decode_def)
qed

definition codec_sample :: "op list list" where
  "codec_sample =
     [[OpS [Key ''a''] JNull, OpA [Key ''b''] ''x''],
      [OpS [Key ''a''] (JNum 1), OpS [Key ''a''] (JNum 2)],
      [OpR JNull, OpM [] [1, 0]],
      [OpP [Key ''a'', Idx 0] 1 0 [JBool True]]]"

lemma codec_stream_roundtrip_witness:
  "decode_stream (encode_stream codec_sample) = Inr codec_sample"
  by (rule codec_stream_roundtrip) (simp add: codec_sample_def RESERVED_SEGMENTS_def)

lemma codec_recovers_from_base_witness:
  "decode_stream (drop 2 (encode_stream codec_sample)) = Inr (drop 2 codec_sample)"
  using codec_recovers_from_base[of "take 2 codec_sample" "codec_sample ! 2" "drop 3 codec_sample"]
  by (simp add: codec_sample_def RESERVED_SEGMENTS_def is_base_def numeral_2_eq_2)

lemma codec_batches_concatenate_witness:
  "decode_stream [concat (encode_stream codec_sample)] = Inr [concat codec_sample]"
  by (rule codec_batches_concatenate) (simp add: codec_sample_def RESERVED_SEGMENTS_def)

end
