(* ===== verification/Delta_Pending.thy ===== *)
theory Delta_Pending
  imports Delta_Laws
begin

text \<open>
  The pending queue of a slow consumer (\<open>packages/chord/src/delta/pending.ts\<close>): operations of
  several commits folded while they wait, so that writes to one leaf merge. The main result is that
  the consumer that takes the folded operations reaches the value that applying every operation
  in order gives (\<open>pending_take_equivalent\<close>).
\<close>

subsection \<open>The queue\<close>

text \<open>What \<open>take()\<close> hands over.\<close>

datatype pending_take = TakeOps "op list" | TakeReplace

definition MAX_PENDING_OPS :: nat where
  "MAX_PENDING_OPS = 10000"

text \<open>
  The pending operations after folding, and for each path the position of its last pending leaf
  operation (the leaf index; its key is \<open>JSON.stringify\<close> of the path, which is injective).
\<close>

record folding =
  fold_ops :: "op list"
  fold_leaves :: "path \<rightharpoonup> nat"

datatype pending =
    PEmpty
  | PBatch "op list"
  | PFolding folding
  | PReplace

definition isPrimitive :: "json \<Rightarrow> bool" where
  "isPrimitive v = (\<not> isObj v)"

text \<open>\<open>merge\<close>: the next leaf operation folded into the previous one on the same path.\<close>

fun merge :: "op \<Rightarrow> op \<Rightarrow> op option" where
  "merge previous (OpS p v) = Some (OpS p v)"
| "merge (OpA p t) (OpA q u) = Some (OpA p (t @ u))"
| "merge (OpS p (JStr t)) (OpA q u) = Some (OpS p (JStr (t @ u)))"
| "merge previous next = None"

text \<open>\<open>mergeLeaf\<close>: merged, or the leaf index moved to the position the operation is pushed to.\<close>

definition mergeLeaf :: "path \<Rightarrow> op \<Rightarrow> folding \<Rightarrow> bool \<times> folding" where
  "mergeLeaf p op f =
     (let indexed = (False, f\<lparr>fold_leaves := (fold_leaves f)(p \<mapsto> length (fold_ops f))\<rparr>) in
      case fold_leaves f p of
        None \<Rightarrow> indexed
      | Some i \<Rightarrow>
          (case merge (fold_ops f ! i) op of
             Some merged \<Rightarrow> (True, f\<lparr>fold_ops := (fold_ops f)[i := merged]\<rparr>)
           | None \<Rightarrow> indexed))"

definition clear_leaves :: "folding \<Rightarrow> folding" where
  "clear_leaves f = f\<lparr>fold_leaves := Map.empty\<rparr>"

text \<open>What an operation does to the queue before it is pushed; \<open>True\<close> when it was merged instead.\<close>

fun fold_prepare :: "op \<Rightarrow> folding \<Rightarrow> bool \<times> folding" where
  "fold_prepare (OpR v) f = (False, f\<lparr>fold_ops := [], fold_leaves := Map.empty\<rparr>)"
| "fold_prepare (OpA p t) f = mergeLeaf p (OpA p t) f"
| "fold_prepare (OpS p v) f =
     (if isPrimitive v then mergeLeaf p (OpS p v) f else (False, clear_leaves f))"
| "fold_prepare op f = (False, clear_leaves f)"

text \<open>\<open>#fold\<close>; \<open>None\<close> once the queue overflowed.\<close>

fun fold_into :: "op list \<Rightarrow> folding \<Rightarrow> folding option" where
  "fold_into [] f = Some f"
| "fold_into (op # ops) f =
     (let (merged, f1) = fold_prepare op f in
      if merged then fold_into ops f1
      else
        let f2 = f1\<lparr>fold_ops := fold_ops f1 @ [op]\<rparr> in
        if length (fold_ops f2) > MAX_PENDING_OPS then None else fold_into ops f2)"

definition empty_folding :: folding where
  "empty_folding = \<lparr>fold_ops = [], fold_leaves = Map.empty\<rparr>"

definition folded :: "folding option \<Rightarrow> pending" where
  "folded r = (case r of None \<Rightarrow> PReplace | Some f \<Rightarrow> PFolding f)"

fun push :: "pending \<Rightarrow> op list \<Rightarrow> pending" where
  "push state [] = state"
| "push state (op # ops) =
     (if is_replace op then PBatch (op # ops)
      else (case state of
              PEmpty \<Rightarrow> PBatch (op # ops)
            | PBatch earlier \<Rightarrow>
                folded (Option.bind (fold_into earlier empty_folding) (fold_into (op # ops)))
            | PFolding f \<Rightarrow> folded (fold_into (op # ops) f)
            | PReplace \<Rightarrow> PReplace))"

fun pending_size :: "pending \<Rightarrow> nat" where
  "pending_size PEmpty = 0"
| "pending_size (PBatch ops) = length ops"
| "pending_size (PFolding f) = length (fold_ops f)"
| "pending_size PReplace = 1"

fun take_pending :: "pending \<Rightarrow> pending_take \<times> pending" where
  "take_pending PEmpty = (TakeOps [], PEmpty)"
| "take_pending (PBatch ops) = (TakeOps ops, PEmpty)"
| "take_pending (PFolding f) = (TakeOps (fold_ops f), PEmpty)"
| "take_pending PReplace = (TakeReplace, PEmpty)"

definition push_all :: "pending \<Rightarrow> op list list \<Rightarrow> pending" where
  "push_all state batches = foldl push state batches"

subsection \<open>Leaf writes\<close>

text \<open>A leaf operation as a recursive write: a primitive put, or text appended to a text.\<close>

datatype leaf_edit = Put json | Append string

fun leaf_value :: "leaf_edit \<Rightarrow> json option \<Rightarrow> json option" where
  "leaf_value (Put v) old = Some v"
| "leaf_value (Append t) (Some (JStr s)) = Some (JStr (s @ t))"
| "leaf_value (Append t) _ = None"

definition writable :: "json \<Rightarrow> seg \<Rightarrow> bool" where
  "writable u s \<longleftrightarrow> safe_seg s \<and> seg_fits u s \<and> check_key u s = Inr ()"

fun leaf_write :: "json \<Rightarrow> path \<Rightarrow> leaf_edit \<Rightarrow> json option" where
  "leaf_write u [] e = None"
| "leaf_write u [s] e = (if writable u s then map_option (set_child u s) (leaf_value e (child u s)) else None)"
| "leaf_write u (s # q) e = (if safe_seg s
     then (case child u s of None \<Rightarrow> None | Some c \<Rightarrow> map_option (set_child u s) (leaf_write c q e))
     else None)"

fun canon :: "json \<Rightarrow> path \<Rightarrow> bool" where
  "canon u [] = True"
| "canon u (s # p) =
     ((isObj u \<longrightarrow> isArray u = is_index s) \<and> (case child u s of None \<Rightarrow> True | Some c \<Rightarrow> canon c p))"

text \<open>The walk along a path meets a primitive before its end.\<close>

fun blocked :: "json \<Rightarrow> path \<Rightarrow> bool" where
  "blocked u [] = False"
| "blocked u (s # p) = (\<not> isObj u \<or> (case child u s of None \<Rightarrow> False | Some c \<Rightarrow> blocked c p))"

fun prim_edit :: "leaf_edit \<Rightarrow> bool" where
  "prim_edit (Put v) = (\<not> isObj v)"
| "prim_edit (Append t) = True"

lemma canon_slots: "canon u (s # p) \<Longrightarrow> canon u (t # q) \<Longrightarrow> isObj u \<Longrightarrow> s \<noteq> t \<Longrightarrow> \<not> same_slot u s t"
  by (cases u; cases s; cases t) auto

lemma prim_leaf_value: "prim_edit e \<Longrightarrow> leaf_value e old = Some c \<Longrightarrow> \<not> isObj c"
  by (cases "(e, old)" rule: leaf_value.cases) auto

lemma child_set_slot: "writable u s \<Longrightarrow> child (set_child u s v) s = Some v"
  by (cases u; cases s) (auto simp: writable_def seg_fits_def nth_append less_Suc_eq split: if_splits)

lemma child_set_other_slot:
  "writable u t \<Longrightarrow> \<not> same_slot u s t \<Longrightarrow> child (set_child u t v) s = child u s"
  by (cases u; cases s; cases t)
     (auto simp: writable_def seg_fits_def nth_append nth_list_update split: if_splits)

lemma leaf_write_cons:
  "q \<noteq> [] \<Longrightarrow> leaf_write u (s # q) e =
     (if safe_seg s then
        (case child u s of None \<Rightarrow> None | Some c \<Rightarrow> map_option (set_child u s) (leaf_write c q e))
      else None)"
  by (cases q) auto

lemma child_writable: "child u s = Some c \<Longrightarrow> safe_seg s \<Longrightarrow> writable u s"
  by (cases u; cases s) (auto simp: writable_def seg_fits_def split: if_splits)

lemma leaf_write_head:
  assumes "leaf_write u (t # q) e = Some u'"
  shows "\<exists>c. u' = set_child u t c \<and> writable u t"
  using assms by (cases q) (auto split: if_splits option.splits intro: child_writable)

lemma leaf_write_prim: "\<not> isObj u \<Longrightarrow> leaf_write u q e = None"
proof (cases q)
  case (Cons t q')
  assume "\<not> isObj u"
  then show ?thesis using leaf_write_head[of u t q' e] Cons
    by (cases "leaf_write u q e") (auto simp: writable_def seg_fits_def)
qed simp

lemma leaf_write_cases:
  assumes "leaf_write u q e = Some u'"
  obtains (leaf) t c where "q = [t]" "writable u t" "leaf_value e (child u t) = Some c" "u' = set_child u t c"
  | (deep) t r c d where "q = t # r" "r \<noteq> []" "writable u t" "child u t = Some c"
      "leaf_write c r e = Some d" "u' = set_child u t d"
proof (cases q)
  case (Cons t r)
  then show ?thesis using assms that
    by (cases "r = []") (auto simp: leaf_write_cons split: if_splits option.splits intro: child_writable)
qed (use assms in auto)

text \<open>What one write does to the child at the first segment of another path.\<close>

lemma leaf_write_child:
  assumes w: "leaf_write u q e = Some u'" and p: "canon u (s # p)" "canon u q" and e: "prim_edit e"
  obtains (same) "child u' s = child u s"
  | (prim) c where "child u' s = Some c" "\<not> isObj c" "q = [s]"
  | (deep) r c d where "q = s # r" "child u s = Some c" "leaf_write c r e = Some d" "child u' s = Some d"
  using w
proof (cases rule: leaf_write_cases)
  case (leaf t c)
  then have "isObj u" by (simp add: writable_def seg_fits_def)
  then show ?thesis
    using that leaf p child_set_slot child_set_other_slot[of u t s c] canon_slots[of u s p t "[]"]
      prim_leaf_value[OF e] by (cases "s = t") auto
next
  case (deep t r c d)
  then have "isObj u" by (simp add: writable_def seg_fits_def)
  then show ?thesis
    using that deep p child_set_slot child_set_other_slot[of u t s d] canon_slots[of u s p t r]
    by (cases "s = t") auto
qed

lemma leaf_write_isObj:
  "leaf_write u q e = Some u' \<Longrightarrow> isObj u \<and> isObj u' \<and> isArray u' = isArray u"
  by (erule leaf_write_cases) (auto simp: writable_def seg_fits_def)

lemma canon_tail: "canon u (s # p) \<Longrightarrow> child u s = Some c \<Longrightarrow> canon c p"
  by simp

lemma canon_prim: "\<not> isObj c \<Longrightarrow> canon c p"
  by (cases p; cases c) auto

text \<open>Leaf writes keep canonical paths canonical, and a blocked path blocked.\<close>

lemma canon_leaf_write:
  "canon u p \<Longrightarrow> canon u q \<Longrightarrow> prim_edit e \<Longrightarrow> leaf_write u q e = Some u' \<Longrightarrow> canon u' p"
proof (induction p arbitrary: u q u')
  case (Cons s p)
  have kind: "isObj u' \<longrightarrow> isArray u' = is_index s"
    using leaf_write_isObj[OF Cons.prems(4)] Cons.prems(1) by auto
  from Cons.prems(4,1,2,3) show ?case
  proof (cases rule: leaf_write_child)
    case same
    then show ?thesis using kind Cons.prems(1) by simp
  next
    case (prim c)
    then show ?thesis using kind by (simp add: canon_prim)
  next
    case (deep r c d)
    then show ?thesis using kind Cons.IH[OF _ _ Cons.prems(3) deep(3)] Cons.prems(1,2) by simp
  qed
qed simp

lemma blocked_leaf_write:
  "blocked u p \<Longrightarrow> canon u p \<Longrightarrow> canon u q \<Longrightarrow> prim_edit e \<Longrightarrow> leaf_write u q e = Some u' \<Longrightarrow> blocked u' p"
proof (induction p arbitrary: u q u')
  case (Cons s p)
  obtain b where b: "child u s = Some b" "blocked b p"
    using Cons.prems(1) leaf_write_isObj[OF Cons.prems(5)] by (auto split: option.splits)
  then have "p \<noteq> []" by auto
  from Cons.prems(5,2,3,4) show ?case
  proof (cases rule: leaf_write_child)
    case same
    then show ?thesis using b by simp
  next
    case (prim c)
    then show ?thesis using \<open>p \<noteq> []\<close> by (cases p) auto
  next
    case (deep r c d)
    then show ?thesis using Cons.IH[OF _ _ _ Cons.prems(4) deep(3)] Cons.prems(2,3) b by simp
  qed
qed simp

lemma blocked_fails: "blocked u p \<Longrightarrow> leaf_write u p e = None"
proof (induction p arbitrary: u)
  case (Cons s p)
  show ?case
  proof (cases "isObj u")
    case True
    then obtain c where "child u s = Some c" "blocked c p" using Cons.prems by (auto split: option.splits)
    then show ?thesis using Cons.IH by (cases p) (auto simp: leaf_write_cons)
  qed (rule leaf_write_prim)
qed simp


lemma writable_set_child: "child u s = Some b \<Longrightarrow> writable (set_child u s v) t = writable u t"
  by (cases u; cases s; cases t) (auto simp: writable_def seg_fits_def split: if_splits)

text \<open>
  Writes at different leaves commute: a write at \<open>q\<close> after a primitive was put at \<open>p\<close> leaves that
  primitive alone, whichever it is, or blocks \<open>p\<close> by putting a primitive above it.
\<close>

lemma leaf_writes_commute:
  "get u p = Some c0 \<Longrightarrow> \<not> isObj c0 \<Longrightarrow> p \<noteq> q \<Longrightarrow> canon u p \<Longrightarrow> canon u q \<Longrightarrow> prim_edit e \<Longrightarrow>
   leaf_write u q e = Some u' \<Longrightarrow>
   blocked u' p \<or> (get u' p = Some c0 \<and>
     (\<forall>c. \<not> isObj c \<longrightarrow> leaf_write (replaceAt u p c) q e = Some (replaceAt u' p c)))"
proof (induction p arbitrary: u q u')
  case Nil
  then show ?case by (simp add: leaf_write_prim)
next
  case (Cons s p)
  obtain b where b: "child u s = Some b" "get b p = Some c0"
    using Cons.prems(1) by (auto split: option.splits)
  have "isObj u" using b(1) by (rule child_isObj)
  from Cons.prems(7) show ?case
  proof (cases rule: leaf_write_cases)
    case (leaf t c)
    show ?thesis
    proof (cases "s = t")
      case True
      then have "p \<noteq> []" using Cons.prems(3) leaf(1) by auto
      then have "blocked c p" using prim_leaf_value[OF Cons.prems(6) leaf(3)] by (cases p) auto
      then show ?thesis using True leaf by (simp add: child_set_slot)
    next
      case False
      then have ns: "\<not> same_slot u s t"
        using canon_slots[of u s p t "[]"] Cons.prems(4,5) leaf(1) \<open>isObj u\<close> by simp
      have "leaf_write (set_child u s b') [t] e = Some (set_child u' s b')" for b'
      proof -
        have "seg_fits u t" "safe_seg t" using leaf(2) by (auto simp: writable_def)
        then show ?thesis using leaf(2,3,4) b(1) ns set_child_swap[OF b(1) ns]
          by (simp add: writable_set_child child_set_other)
      qed
      then show ?thesis using leaf b ns by (simp add: child_set_other_slot)
    qed
  next
    case (deep t r c d)
    show ?thesis
    proof (cases "s = t")
      case True
      then have bc: "b = c" using b deep by simp
      have "p \<noteq> []" using deep(5) b(2) bc Cons.prems(2) leaf_write_prim by fastforce
      have "blocked d p \<or> (get d p = Some c0 \<and>
          (\<forall>c'. \<not> isObj c' \<longrightarrow> leaf_write (replaceAt c p c') r e = Some (replaceAt d p c')))"
        using Cons.IH[OF _ Cons.prems(2) _ _ _ Cons.prems(6) deep(5)] b bc deep True Cons.prems(3-5)
        by simp
      then show ?thesis using True deep b bc
        by (auto simp: child_set_slot leaf_write_cons writable_def)
    next
      case False
      then have ns: "\<not> same_slot u s t"
        using canon_slots[of u s p t r] Cons.prems(4,5) deep(1) \<open>isObj u\<close> by simp
      have "leaf_write (set_child u s b') (t # r) e = Some (set_child u' s b')" for b'
        using deep b(1) ns set_child_swap[OF b(1) ns]
        by (simp add: leaf_write_cons child_set_other writable_def)
      then show ?thesis using deep b ns by (simp add: child_set_other_slot)
    qed
  qed
qed

subsection \<open>Leaf operations are leaf writes\<close>

fun leaf_op :: "path \<Rightarrow> leaf_edit \<Rightarrow> op" where
  "leaf_op p (Put v) = OpS p v"
| "leaf_op p (Append t) = OpA p t"

lemma valid_leaf_op: "valid_op (leaf_op p e) \<longleftrightarrow> p \<noteq> [] \<and> list_all safe_seg p"
  by (cases e) auto

lemma apply_leaf_op_iff:
  "apply_op u (leaf_op p e) = Inr u' \<longleftrightarrow> p \<noteq> [] \<and> list_all safe_seg p \<and>
     (\<exists>parent c. resolve u (butlast p) = Inr parent \<and> check_key parent (last p) = Inr () \<and>
        leaf_value e (child parent (last p)) = Some c \<and>
        u' = replaceAt u (butlast p) (set_child parent (last p) c))"
proof -
  have valid: "assertValidOp (op_json (leaf_op p e)) = Inr () \<longleftrightarrow> p \<noteq> [] \<and> list_all safe_seg p"
    by (simp add: assertValidOp_iff valid_leaf_op)
  show ?thesis
  proof (cases e)
    case (Append t)
    have edit: "edit_text p (\<lambda>current. current @ t) parent key = Inr y \<longleftrightarrow>
        (\<exists>c. leaf_value e (child parent key) = Some c \<and> y = set_child parent key c)" for parent key y
      using Append by (cases "(e, child parent key)" rule: leaf_value.cases)
        (auto simp: edit_text_def split: json.splits)
    show ?thesis using valid Append
      by (simp add: apply_op_def at_parent_def andThen_eq_Inr edit) blast
  qed (use valid in \<open>auto simp: apply_op_def at_parent_def andThen_eq_Inr\<close>)
qed

lemma apply_leaf_one: "apply_op u (leaf_op [s] e) = Inr u' \<longleftrightarrow> leaf_write u [s] e = Some u'"
proof -
  have "isObj u \<and> check_key u s = Inr () \<longleftrightarrow> seg_fits u s \<and> check_key u s = Inr ()"
    by (cases u; cases s) (auto simp: seg_fits_def)
  then show ?thesis by (auto simp: apply_leaf_op_iff writable_def resolve_iff)
qed

lemma below_leaf_op [simp]: "below s (leaf_op p e) = leaf_op (s # p) e"
  by (cases e) auto

lemma apply_leaf_op: "apply_op u (leaf_op p e) = Inr u' \<longleftrightarrow> leaf_write u p e = Some u'"
proof (induction p arbitrary: u u')
  case Nil
  then show ?case using apply_op_valid[of u "leaf_op [] e" u'] by (auto simp: valid_leaf_op)
next
  case (Cons s p)
  show ?case
  proof (cases "p = []")
    case True
    then show ?thesis by (simp add: apply_leaf_one)
  next
    case False
    show ?thesis
    proof (cases "safe_seg s \<and> child u s \<noteq> None \<and> list_all safe_seg p")
      case True
      then obtain c where c: "child u s = Some c" by auto
      have "valid_op (leaf_op p e)" using True False by (simp add: valid_leaf_op)
      from apply_op_below[OF this c] show ?thesis
        using Cons.IH True False c by (auto simp: leaf_write_cons)
    next
      case bad: False
      have "apply_op u (leaf_op (s # p) e) \<noteq> Inr u'"
        using bad False by (auto simp: apply_leaf_op_iff dest!: resolve_below_ex)
      moreover have "leaf_write u (s # p) e \<noteq> Some u'"
        using bad False Cons.IH apply_op_valid[of _ "leaf_op p e"]
        by (auto simp: leaf_write_cons valid_leaf_op split: option.splits)
      ultimately show ?thesis by blast
    qed
  qed
qed

subsection \<open>Merging\<close>

lemma leaf_write_get:
  "leaf_write u p e1 = Some u1 \<Longrightarrow>
   \<exists>old a. leaf_value e1 old = Some a \<and> get u1 p = Some a \<and>
     (\<forall>e b. leaf_value e old = Some b \<longrightarrow> leaf_write u p e = Some (replaceAt u1 p b))"
proof (induction p arbitrary: u u1)
  case (Cons s p)
  from Cons.prems show ?case
  proof (cases rule: leaf_write_cases)
    case (leaf t c)
    have "set_child (set_child u s c) s b = set_child u s b" for b
      using leaf(2) leaf(1) by (cases u; cases s)
        (auto simp: writable_def seg_fits_def nth_append less_Suc_eq split: if_splits)
    then show ?thesis using leaf by (auto simp: child_set_slot intro!: exI[of _ "child u s"])
  next
    case (deep t r c d)
    have "p = r" using deep(1) by simp
    with Cons.IH[of c d] deep(5) obtain old a where IH: "leaf_value e1 old = Some a" "get d r = Some a"
      "\<forall>e b. leaf_value e old = Some b \<longrightarrow> leaf_write c r e = Some (replaceAt d r b)" by auto
    have "leaf_write u (t # r) e = Some (replaceAt u1 (t # r) b)" if "leaf_value e old = Some b" for e b
      using IH(3) that deep by (simp add: child_set_slot leaf_write_cons writable_def)
    then show ?thesis using IH(1,2) deep by (auto simp: child_set_slot intro!: exI[of _ old])
  qed
qed simp

lemma leaf_write_known:
  "leaf_write u p e = Some w \<Longrightarrow> get u p = Some a \<Longrightarrow>
   \<exists>b. leaf_value e (Some a) = Some b \<and> w = replaceAt u p b"
proof (induction p arbitrary: u w)
  case (Cons s p)
  from Cons.prems(1) show ?case
  proof (cases rule: leaf_write_cases)
    case (leaf t c)
    then show ?thesis using Cons.prems(2) by (auto split: option.splits)
  next
    case (deep t r c d)
    then show ?thesis using Cons.IH[of c d] Cons.prems(2) by auto
  qed
qed simp

lemma leaf_write_put:
  "get u p = Some a \<Longrightarrow> p \<noteq> [] \<Longrightarrow> list_all safe_seg p \<Longrightarrow> leaf_write u p (Put c) = Some (replaceAt u p c)"
proof (induction p arbitrary: u)
  case (Cons s p)
  then show ?case
    by (cases "p = []") (auto simp: leaf_write_cons child_writable split: option.splits)
qed simp

lemma leaf_write_safe: "leaf_write u p e = Some w \<Longrightarrow> p \<noteq> [] \<and> list_all safe_seg p"
  using apply_leaf_op[of u p e w] apply_op_valid[of u "leaf_op p e" w] by (simp add: valid_leaf_op)

text \<open>The canonical form the producers keep: an index addresses arrays only, at every step.\<close>

fun canon_run :: "json \<Rightarrow> op list \<Rightarrow> bool" where
  "canon_run v [] = True"
| "canon_run v (op # ops) =
     (canon v (op_path op) \<and> (case apply_op v op of Inl e \<Rightarrow> True | Inr v' \<Rightarrow> canon_run v' ops))"

definition is_leaf :: "path \<Rightarrow> op \<Rightarrow> bool" where
  "is_leaf p op \<longleftrightarrow> (\<exists>e. prim_edit e \<and> op = leaf_op p e)"

lemma op_path_leaf_op [simp]: "op_path (leaf_op p e) = p"
  by (cases e) auto

lemma canon_run_append:
  "apply_ops v xs = Inr u \<Longrightarrow> canon_run v (xs @ ys) \<longleftrightarrow> canon_run v xs \<and> canon_run u ys"
  by (induction xs arbitrary: v) (auto simp: andThen_eq_Inr)

lemma leaf_run_cons:
  assumes "apply_ops u1 (leaf_op q e # ys) = Inr u2" and "canon_run u1 (leaf_op q e # ys)"
  obtains u where "leaf_write u1 q e = Some u" "apply_ops u ys = Inr u2" "canon u1 q" "canon_run u ys"
proof -
  obtain u where u: "apply_op u1 (leaf_op q e) = Inr u" "apply_ops u ys = Inr u2"
    using assms(1) by (auto simp: andThen_eq_Inr)
  then have "leaf_write u1 q e = Some u" by (simp add: apply_leaf_op)
  then show thesis using that[OF _ u(2)] assms(2) u(1) by simp
qed

definition other_leaves :: "path \<Rightarrow> op list \<Rightarrow> bool" where
  "other_leaves p ys \<longleftrightarrow> (\<forall>y\<in>set ys. \<exists>q. q \<noteq> p \<and> is_leaf q y)"

lemma other_leaves_Cons:
  "other_leaves p (y # ys) \<longleftrightarrow> (\<exists>q e. q \<noteq> p \<and> prim_edit e \<and> y = leaf_op q e) \<and> other_leaves p ys"
  by (auto simp: other_leaves_def is_leaf_def)

lemma leaf_run_blocked:
  "other_leaves p ys \<Longrightarrow> apply_ops u1 ys = Inr u2 \<Longrightarrow> canon_run u1 ys \<Longrightarrow> canon u1 p \<Longrightarrow>
   blocked u1 p \<Longrightarrow> blocked u2 p"
proof (induction ys arbitrary: u1)
  case (Cons y ys)
  obtain q e where q: "prim_edit e" "y = leaf_op q e" "other_leaves p ys"
    using Cons.prems(1) by (auto simp: other_leaves_Cons)
  obtain u where u: "leaf_write u1 q e = Some u" "apply_ops u ys = Inr u2" "canon u1 q" "canon_run u ys"
    using Cons.prems(2,3) q(2) leaf_run_cons by blast
  show ?case
    using Cons.IH[OF q(3) u(2,4)] canon_leaf_write[OF Cons.prems(4) u(3) q(1) u(1)]
      blocked_leaf_write[OF Cons.prems(5,4) u(3) q(1) u(1)] by blast
qed simp

text \<open>A run of leaf operations on other paths, as seen from a primitive at \<open>p\<close>.\<close>

lemma leaf_run_commutes:
  "other_leaves p ys \<Longrightarrow> apply_ops u1 ys = Inr u2 \<Longrightarrow> canon_run u1 ys \<Longrightarrow> canon u1 p \<Longrightarrow>
   get u1 p = Some a \<Longrightarrow> \<not> isObj a \<Longrightarrow> \<not> isObj c \<Longrightarrow> list_all safe_seg p \<Longrightarrow> p \<noteq> [] \<Longrightarrow>
   blocked u2 p \<or> (get u2 p = Some a \<and>
     apply_ops (replaceAt u1 p c) ys = Inr (replaceAt u2 p c) \<and> canon_run (replaceAt u1 p c) ys)"
proof (induction ys arbitrary: u1)
  case (Cons y ys)
  obtain q e where q: "q \<noteq> p" "prim_edit e" "y = leaf_op q e" "other_leaves p ys"
    using Cons.prems(1) by (auto simp: other_leaves_Cons)
  obtain u where u: "leaf_write u1 q e = Some u" "apply_ops u ys = Inr u2" "canon u1 q" "canon_run u ys"
    using Cons.prems(2,3) q(3) leaf_run_cons by blast
  have cp: "canon u p" using canon_leaf_write[OF Cons.prems(4) u(3) q(2) u(1)] .
  have "leaf_write u1 p (Put c) = Some (replaceAt u1 p c)"
    using leaf_write_put Cons.prems(5,8,9) by blast
  from canon_leaf_write[OF u(3) Cons.prems(4) _ this]
  have cq: "canon (replaceAt u1 p c) q" using Cons.prems(7) by simp
  from leaf_writes_commute[OF Cons.prems(5,6) q(1)[symmetric] Cons.prems(4) u(3) q(2) u(1)]
  show ?case
  proof
    assume "blocked u p"
    then show ?thesis using leaf_run_blocked[OF q(4) u(2,4) cp] by blast
  next
    assume g: "get u p = Some a \<and> (\<forall>c. \<not> isObj c \<longrightarrow>
        leaf_write (replaceAt u1 p c) q e = Some (replaceAt u p c))"
    then have w: "apply_op (replaceAt u1 p c) y = Inr (replaceAt u p c)"
      using Cons.prems(7) q(3) by (simp add: apply_leaf_op)
    show ?thesis
      using Cons.IH[OF q(4) u(2,4) cp _ Cons.prems(6-9)] g w cq q(3) by auto
  qed
qed auto

lemma merge_leaf_op:
  assumes "prim_edit e1" and "prim_edit e2" and "merge (leaf_op p e1) (leaf_op p e2) = Some m"
  obtains e where "m = leaf_op p e" "prim_edit e"
    "\<And>old a b. leaf_value e1 old = Some a \<Longrightarrow> leaf_value e2 (Some a) = Some b \<Longrightarrow> leaf_value e old = Some b"
  using assms
proof (cases e1; cases e2)
  fix v t assume e: "e1 = Put v" "e2 = Append t"
  then obtain s where "v = JStr s" "m = OpS p (JStr (s @ t))" using assms(3) by (cases v) auto
  moreover from this have "leaf_value (Put (JStr (s @ t))) old = Some b"
    if "leaf_value e1 old = Some a" "leaf_value e2 (Some a) = Some b" for old a b
    using that e by auto
  ultimately show ?thesis using that[of "Put (JStr (s @ t))"] by auto
next
  fix s t assume e: "e1 = Append s" "e2 = Append t"
  have "leaf_value (Append (s @ t)) old = Some b"
    if "leaf_value e1 old = Some a" "leaf_value e2 (Some a) = Some b" for old a b
    using that e by (cases "(e1, old)" rule: leaf_value.cases) auto
  then show ?thesis using that[of "Append (s @ t)"] e assms(3) by auto
qed (use that[of e2] in auto)

text \<open>Merging a leaf operation into the last pending one on its path, past operations on others.\<close>

lemma merge_past:
  assumes run: "apply_ops v (xs @ leaf_op p e1 # ys @ [leaf_op p e2]) = Inr w"
    and canon: "canon_run v (xs @ leaf_op p e1 # ys @ [leaf_op p e2])"
    and ys: "other_leaves p ys" and e: "prim_edit e1" "prim_edit e2"
    and m: "merge (leaf_op p e1) (leaf_op p e2) = Some m"
  shows "apply_ops v (xs @ m # ys) = Inr w \<and> canon_run v (xs @ m # ys)"
proof -
  obtain u where u: "apply_ops v xs = Inr u" "apply_ops u (leaf_op p e1 # ys @ [leaf_op p e2]) = Inr w"
    using run by (auto simp: apply_ops_append andThen_eq_Inr)
  note cu = canon[unfolded canon_run_append[OF u(1)]]
  obtain u1 where u1: "leaf_write u p e1 = Some u1" "apply_ops u1 (ys @ [leaf_op p e2]) = Inr w"
    "canon u p" "canon_run u1 (ys @ [leaf_op p e2])"
    using leaf_run_cons u(2) cu by blast
  obtain u2 where u2: "apply_ops u1 ys = Inr u2" "leaf_write u2 p e2 = Some w" "canon_run u1 ys"
    using u1(2,4) by (auto simp: apply_ops_append andThen_eq_Inr apply_leaf_op canon_run_append)
  obtain old a where a: "leaf_value e1 old = Some a" "get u1 p = Some a"
    "\<And>e b. leaf_value e old = Some b \<Longrightarrow> leaf_write u p e = Some (replaceAt u1 p b)"
    using leaf_write_get[OF u1(1)] by blast
  have pa: "\<not> isObj a" using prim_leaf_value[OF e(1) a(1)] .
  have cp: "canon u1 p" using canon_leaf_write[OF u1(3) u1(3) e(1) u1(1)] .
  note safe = leaf_write_safe[OF u2(2)]
  have comm: "get u2 p = Some a \<and> apply_ops (replaceAt u1 p c) ys = Inr (replaceAt u2 p c) \<and>
      canon_run (replaceAt u1 p c) ys" if "\<not> isObj c" for c
    using leaf_run_commutes[OF ys u2(1,3) cp a(2) pa that] safe blocked_fails[of u2 p e2] u2(2) by auto
  obtain b where b: "leaf_value e2 (Some a) = Some b" "w = replaceAt u2 p b"
    using leaf_write_known[OF u2(2)] comm[OF pa] by blast
  obtain e where m': "m = leaf_op p e" "leaf_value e old = Some b"
    using merge_leaf_op[OF e m] a(1) b(1) by metis
  have "apply_op u m = Inr (replaceAt u1 p b)" using a(3)[OF m'(2)] by (simp add: m'(1) apply_leaf_op)
  then show ?thesis
    using comm[OF prim_leaf_value[OF e(2) b(1)]] b(2) u(1) cu u1(3) m'(1)
    by (simp add: apply_ops_append canon_run_append)
qed

subsection \<open>The queue keeps what it was given\<close>

text \<open>
  The leaf index points at the last pending operation on its path, a leaf operation; everything
  after it is a leaf operation on another path.
\<close>

definition leaf_at :: "op list \<Rightarrow> path \<Rightarrow> nat \<Rightarrow> bool" where
  "leaf_at ops p i \<longleftrightarrow> i < length ops \<and> is_leaf p (ops ! i) \<and>
     (\<forall>j. i < j \<and> j < length ops \<longrightarrow> (\<exists>q. q \<noteq> p \<and> is_leaf q (ops ! j)))"

definition leaves_ok :: "folding \<Rightarrow> bool" where
  "leaves_ok f \<longleftrightarrow> (\<forall>p i. fold_leaves f p = Some i \<longrightarrow> leaf_at (fold_ops f) p i)"

lemma leaf_atD:
  assumes "leaf_at ops p i"
  obtains xs e ys where "ops = xs @ leaf_op p e # ys" "length xs = i" "prim_edit e" "other_leaves p ys"
proof -
  obtain e where e: "prim_edit e" "ops ! i = leaf_op p e" using assms by (auto simp: leaf_at_def is_leaf_def)
  have "other_leaves p (drop (Suc i) ops)"
    unfolding other_leaves_def
  proof
    fix y assume "y \<in> set (drop (Suc i) ops)"
    then obtain k where "k < length ops - Suc i" "y = ops ! (Suc i + k)"
      by (auto simp: in_set_conv_nth)
    then show "\<exists>q. q \<noteq> p \<and> is_leaf q y" using assms by (auto simp: leaf_at_def)
  qed
  then show thesis
    using that[of "take i ops" e "drop (Suc i) ops"] e assms id_take_nth_drop[of i ops]
    by (auto simp: leaf_at_def)
qed

lemma leaf_at_new: "is_leaf p op \<Longrightarrow> leaf_at (ops @ [op]) p (length ops)"
  by (auto simp: leaf_at_def less_Suc_eq)

lemma leaf_at_snoc: "leaf_at ops q i \<Longrightarrow> is_leaf p op \<Longrightarrow> p \<noteq> q \<Longrightarrow> leaf_at (ops @ [op]) q i"
  by (auto simp: leaf_at_def nth_append less_Suc_eq)

lemma is_leaf_path: "is_leaf p op \<Longrightarrow> is_leaf q op \<Longrightarrow> p = q"
  by (auto simp: is_leaf_def) (metis op_path_leaf_op)

lemma leaf_at_update: "leaf_at ops q j \<Longrightarrow> leaf_at ops p i \<Longrightarrow> is_leaf p m \<Longrightarrow> leaf_at (ops[i := m]) q j"
  by (auto simp: leaf_at_def nth_list_update dest: is_leaf_path) (metis is_leaf_path)+

text \<open>From \<open>v\<close>, the folded operations reach what the pushed ones do.\<close>

definition keeps :: "json \<Rightarrow> op list \<Rightarrow> op list \<Rightarrow> bool" where
  "keeps v pushed ops \<longleftrightarrow> (\<forall>w. apply_ops v pushed = Inr w \<and> canon_run v pushed \<longrightarrow>
     apply_ops v ops = Inr w \<and> canon_run v ops)"

lemma keeps_refl [simp]: "keeps v ops ops"
  by (simp add: keeps_def)

lemma keepsI:
  "(\<And>w. apply_ops v pushed = Inr w \<Longrightarrow> canon_run v pushed \<Longrightarrow>
      apply_ops v ops = Inr w \<and> canon_run v ops) \<Longrightarrow> keeps v pushed ops"
  by (simp add: keeps_def)

lemma keeps_append: "keeps v pushed ops \<Longrightarrow> keeps v (pushed @ later) (ops @ later)"
  by (auto simp: keeps_def apply_ops_append andThen_eq_Inr canon_run_append split: sum.splits)

lemma keeps_snoc: "keeps v pushed ops \<Longrightarrow> keeps v (pushed @ [op]) (ops @ [op])"
  by (rule keeps_append)

lemma keeps_replace: "keeps v (pushed @ OpR x # ops) (OpR x # ops)"
  by (rule keepsI) (auto simp: apply_ops_append andThen_eq_Inr canon_run_append apply_op_def)

definition fold_step :: "op \<Rightarrow> folding \<Rightarrow> folding" where
  "fold_step op f = (let (merged, f1) = fold_prepare op f in
     if merged then f1 else f1\<lparr>fold_ops := fold_ops f1 @ [op]\<rparr>)"

lemma fold_into_Cons:
  "fold_into (op # ops) f = Some f' \<Longrightarrow> fold_into ops (fold_step op f) = Some f'"
  by (auto simp: fold_step_def Let_def split: prod.splits if_splits)

lemma leaves_ok_clear [simp]: "fold_leaves f = Map.empty \<Longrightarrow> leaves_ok f"
  by (simp add: leaves_ok_def)

lemma leaves_ok_push:
  "leaves_ok f \<Longrightarrow> is_leaf p op \<Longrightarrow>
   leaves_ok \<lparr>fold_ops = fold_ops f @ [op], fold_leaves = (fold_leaves f)(p \<mapsto> length (fold_ops f))\<rparr>"
  by (auto simp: leaves_ok_def leaf_at_new leaf_at_snoc)

lemma leaves_ok_update:
  "leaves_ok f \<Longrightarrow> fold_leaves f p = Some i \<Longrightarrow> is_leaf p m \<Longrightarrow>
   leaves_ok (f\<lparr>fold_ops := (fold_ops f)[i := m]\<rparr>)"
  by (auto simp: leaves_ok_def intro: leaf_at_update)

lemma fold_step_leaf:
  assumes ok: "leaves_ok f" and k: "keeps v pushed (fold_ops f)" and op: "op = leaf_op p e" "prim_edit e"
  shows "leaves_ok (fold_step op f) \<and> keeps v (pushed @ [op]) (fold_ops (fold_step op f))"
proof -
  have prep: "fold_prepare op f = mergeLeaf p op f" using op by (cases e) (auto simp: isPrimitive_def)
  have unmerged: ?thesis if "mergeLeaf p op f = (False, f\<lparr>fold_leaves := (fold_leaves f)(p \<mapsto> length (fold_ops f))\<rparr>)"
  proof -
    have "fold_step op f = \<lparr>fold_ops = fold_ops f @ [op], fold_leaves = (fold_leaves f)(p \<mapsto> length (fold_ops f))\<rparr>"
      by (simp add: fold_step_def prep that)
    then show ?thesis using leaves_ok_push[OF ok, of p op] keeps_snoc[OF k] op by (auto simp: is_leaf_def)
  qed
  show ?thesis
  proof (cases "fold_leaves f p")
    case None
    then show ?thesis using unmerged by (simp add: mergeLeaf_def)
  next
    case (Some i)
    then obtain xs e1 ys where f: "fold_ops f = xs @ leaf_op p e1 # ys" "length xs = i" "prim_edit e1" "other_leaves p ys"
      using ok leaf_atD unfolding leaves_ok_def by metis
    show ?thesis
    proof (cases "merge (leaf_op p e1) op")
      case None
      then show ?thesis using unmerged Some f by (simp add: mergeLeaf_def nth_append)
    next
      case m: (Some m)
      then have step: "fold_step op f = f\<lparr>fold_ops := (fold_ops f)[i := m]\<rparr>"
        "(fold_ops f)[i := m] = xs @ m # ys"
        using Some f by (auto simp: fold_step_def prep mergeLeaf_def nth_append list_update_append)
      have "keeps v (pushed @ [op]) (xs @ m # ys)"
      proof (rule keepsI)
        fix w assume "apply_ops v (pushed @ [op]) = Inr w" "canon_run v (pushed @ [op])"
        then show "apply_ops v (xs @ m # ys) = Inr w \<and> canon_run v (xs @ m # ys)"
          using keeps_snoc[OF k, of op] merge_past[OF _ _ f(4,3) op(2)] f(1) m op(1)
          by (auto simp: keeps_def)
      qed
      moreover obtain e' where "m = leaf_op p e'" "prim_edit e'"
        using merge_leaf_op[OF f(3) op(2)] m op(1) by blast
      ultimately show ?thesis using leaves_ok_update[OF ok Some, of m] step by (auto simp: is_leaf_def)
    qed
  qed
qed


lemma fold_step_keeps:
  assumes "leaves_ok f" and "keeps v pushed (fold_ops f)"
  shows "leaves_ok (fold_step op f) \<and> keeps v (pushed @ [op]) (fold_ops (fold_step op f))"
proof (cases op)
  case (OpR x)
  then show ?thesis using keeps_replace[of v pushed x "[]"] by (simp add: fold_step_def)
next
  case (OpS p x)
  then show ?thesis
    using fold_step_leaf[OF assms, of op p "Put x"] keeps_snoc[OF assms(2)]
    by (cases "isObj x") (auto simp: fold_step_def isPrimitive_def clear_leaves_def)
next
  case (OpA p t)
  then show ?thesis using fold_step_leaf[OF assms, of op p "Append t"] by simp
qed (use keeps_snoc[OF assms(2)] in \<open>auto simp: fold_step_def clear_leaves_def\<close>)

lemma fold_into_keeps:
  "fold_into ops f = Some f' \<Longrightarrow> leaves_ok f \<Longrightarrow> keeps v pushed (fold_ops f) \<Longrightarrow>
   leaves_ok f' \<and> keeps v (pushed @ ops) (fold_ops f')"
proof (induction ops arbitrary: f pushed)
  case (Cons op ops)
  from fold_step_keeps[OF Cons.prems(2,3), of op]
  show ?case using Cons.IH[OF fold_into_Cons[OF Cons.prems(1)], of "pushed @ [op]"] by simp
qed simp

fun pending_ok :: "json \<Rightarrow> op list \<Rightarrow> pending \<Rightarrow> bool" where
  "pending_ok v pushed PEmpty = keeps v pushed []"
| "pending_ok v pushed (PBatch ops) = keeps v pushed ops"
| "pending_ok v pushed (PFolding f) = (leaves_ok f \<and> keeps v pushed (fold_ops f))"
| "pending_ok v pushed PReplace = True"

lemma push_ok: "pending_ok v pushed state \<Longrightarrow> pending_ok v (pushed @ ops) (push state ops)"
proof (cases ops)
  case (Cons op rest)
  assume ok: "pending_ok v pushed state"
  show ?thesis
  proof (cases "is_replace op")
    case True
    then obtain x where "op = OpR x" by (cases op) auto
    then show ?thesis using Cons keeps_replace by simp
  next
    case False
    have empty: "leaves_ok empty_folding" "keeps v pushed ops \<Longrightarrow> True" for ops
      by (simp_all add: empty_folding_def)
    have batch: "leaves_ok f \<and> keeps v pushed (fold_ops f)"
      if "fold_into earlier empty_folding = Some f" "keeps v pushed earlier" for earlier f
      using fold_into_keeps[OF that(1) empty(1), of v "[]"] that(2)
      by (auto simp: keeps_def empty_folding_def)
    show ?thesis
    proof (cases state)
      case PEmpty
      then show ?thesis using ok Cons False keeps_append[of v pushed "[]" ops] by simp
    next
      case (PBatch earlier)
      show ?thesis
      proof (cases "fold_into earlier empty_folding")
        case None
        then show ?thesis using PBatch Cons False by (simp add: folded_def del: fold_into.simps)
      next
        case (Some f)
        have "leaves_ok f \<and> keeps v pushed (fold_ops f)" using batch[OF Some] ok PBatch by simp
        then show ?thesis using PBatch Cons False Some fold_into_keeps[of ops f _ v pushed]
          by (cases "fold_into ops f") (auto simp: folded_def simp del: fold_into.simps)
      qed
    next
      case (PFolding f)
      then show ?thesis using ok Cons False fold_into_keeps[of ops f _ v pushed]
        by (cases "fold_into ops f") (auto simp: folded_def simp del: fold_into.simps)
    qed (use ok Cons False in auto)
  qed
qed simp

lemma push_all_ok: "pending_ok v pushed state \<Longrightarrow> pending_ok v (pushed @ concat batches) (push_all state batches)"
proof (induction batches arbitrary: pushed state)
  case (Cons b batches)
  then show ?case using Cons.IH[OF push_ok[OF Cons.prems], of b] by (simp add: push_all_def)
qed (simp add: push_all_def)

text \<open>
  C33. A slow consumer misses nothing: whatever batches were pushed, the operations it takes from the
  queue lead from its value to the value that every pushed operation, applied in order, leads to.
  The operations are those of the producers, whose indexes address arrays only.
\<close>

theorem pending_take_equivalent:
  assumes "fst (take_pending (push_all PEmpty batches)) = TakeOps ops"
    and "apply_ops v (concat batches) = Inr w" and "canon_run v (concat batches)"
  shows "apply_ops v ops = Inr w"
proof -
  have "pending_ok v (concat batches) (push_all PEmpty batches)"
    using push_all_ok[of v "[]" PEmpty batches] by simp
  then show ?thesis using assms
    by (cases "push_all PEmpty batches") (auto simp: keeps_def)
qed

lemma pending_take_equivalent_witness:
  "apply_ops (JObj [(''log'', JStr ''a'')])
     [OpA [Key ''log''] ''bc'', OpS [Key ''n''] (JNum 1)]
   = Inr (JObj [(''log'', JStr ''abc''), (''n'', JNum 1)])"
  by (rule pending_take_equivalent
      [of "[[OpA [Key ''log''] ''b'', OpS [Key ''n''] (JNum 1)], [OpA [Key ''log''] ''c'']]"])
     (code_simp)+

end
