(* ===== verification/Delta_Diff.thy ===== *)
theory Delta_Diff
  imports Delta_Laws
begin

text \<open>
  The diff of two immutable revisions (\<open>packages/chord/src/delta/diff.ts\<close>, and \<open>overlap\<close> of
  \<open>index.ts\<close>). The code compares containers by identity before it compares contents, so a
  revision is modelled with the identity of every container; operations carry plain JSON. The
  batch under construction is explicit state: the operations emitted and whether the batch
  overflowed (\<open>overflowedBatches\<close>).
\<close>

subsection \<open>Revisions\<close>

datatype rjson =
    RNull
  | RBool bool
  | RNum int
  | RStr string
  | RArr nat "rjson list"               \<comment> \<open>identity and elements\<close>
  | RObj nat "(string \<times> rjson) list"    \<comment> \<open>identity and own properties\<close>

text \<open>The JSON value of a revision.\<close>

fun erase :: "rjson \<Rightarrow> json" where
  "erase RNull = JNull"
| "erase (RBool b) = JBool b"
| "erase (RNum n) = JNum n"
| "erase (RStr s) = JStr s"
| "erase (RArr r xs) = JArr (map erase xs)"
| "erase (RObj r kvs) = JObj (map (\<lambda>kv. (fst kv, erase (snd kv))) kvs)"

text \<open>\<open>===\<close>: primitives by value, containers by identity.\<close>

fun strict_eq :: "rjson \<Rightarrow> rjson \<Rightarrow> bool" where
  "strict_eq (RArr r xs) (RArr s ys) = (r = s)"
| "strict_eq (RObj r xs) (RObj s ys) = (r = s)"
| "strict_eq v w = (v = w)"

fun isContainer :: "rjson \<Rightarrow> bool" where
  "isContainer (RArr r xs) = True"
| "isContainer (RObj r kvs) = True"
| "isContainer v = False"

fun r_isArray :: "rjson \<Rightarrow> bool" where
  "r_isArray (RArr r xs) = True"
| "r_isArray v = False"

text \<open>\<open>equalJson\<close>, with its shortcut for identical operands.\<close>

fun r_equalJson :: "rjson \<Rightarrow> rjson \<Rightarrow> bool" where
  "r_equalJson (RArr r xs) (RArr s ys) =
     (r = s \<or> (length xs = length ys \<and> list_all2 r_equalJson xs ys))"
| "r_equalJson (RObj r a) (RObj s b) =
     (r = s \<or> (length a = length b \<and>
       (\<forall>kv\<in>set a. case map_of b (fst kv) of None \<Rightarrow> False | Some w \<Rightarrow> r_equalJson (snd kv) w)))"
| "r_equalJson left right = strict_eq left right"

definition sameValue :: "rjson \<Rightarrow> rjson \<Rightarrow> bool" where
  "sameValue left right = (strict_eq left right \<or> r_equalJson left right)"

subsection \<open>The batch under construction\<close>

definition MAX_DELTA_OPERATIONS :: nat where
  "MAX_DELTA_OPERATIONS = 4096"

type_synonym batch = "op list \<times> bool"

definition emitOperation :: "op \<Rightarrow> batch \<Rightarrow> batch" where
  "emitOperation op st =
     (let (operations, overflowed) = st in
      if overflowed then (operations, True)
      else if length operations \<ge> MAX_DELTA_OPERATIONS then (operations, True)
      else (operations @ [op], False))"

definition emitSet :: "path \<Rightarrow> rjson \<Rightarrow> batch \<Rightarrow> batch" where
  "emitSet p v st = emitOperation (if p = [] then OpR (erase v) else OpS p (erase v)) st"

subsection \<open>Strings\<close>

text \<open>\<open>text.indexOf(head, from)\<close> for a head that is not empty.\<close>

definition index_of :: "string \<Rightarrow> string \<Rightarrow> nat \<Rightarrow> nat option" where
  "index_of t head from = find (\<lambda>k. take (length head) (drop k t) = head) [from..<length t]"

text \<open>The candidates of one head: at most \<open>maxCandidates\<close> of them are tried.\<close>

function probe_head :: "string \<Rightarrow> string \<Rightarrow> string \<Rightarrow> nat \<Rightarrow> nat \<Rightarrow> nat \<Rightarrow> nat option" where
  "probe_head tail b head maxCandidates tried from =
     (case index_of tail head from of
        None \<Rightarrow> None
      | Some k \<Rightarrow>
          (if tried + 1 > maxCandidates then None
           else let n = length tail - k in
             if n \<le> length b \<and> drop k tail = take n b then Some n
             else probe_head tail b head maxCandidates (tried + 1) (k + 1)))"
  by pat_completeness auto
termination by (relation "measure (\<lambda>(t, b, h, mc, tried, from). mc - tried)") auto

declare probe_head.simps [simp del]

definition overlap :: "string \<Rightarrow> string \<Rightarrow> nat \<Rightarrow> nat \<Rightarrow> nat \<Rightarrow> nat" where
  "overlap a b scan probe maxCandidates =
     (if a = [] \<or> b = [] \<or> scan = 0 then 0
      else
        let tail = (if length a > scan then drop (length a - scan) a else a);
            h = min probe (length b) in
        (case probe_head tail b (take h b) maxCandidates 0 0 of
           Some n \<Rightarrow> n
         | None \<Rightarrow>
             if h = 1 then 0
             else (case probe_head tail b (take 1 b) maxCandidates 0 0 of Some n \<Rightarrow> n | None \<Rightarrow> 0)))"

definition DEFAULT_OVERLAP_SCAN :: nat where
  "DEFAULT_OVERLAP_SCAN = 65536"

definition emitString :: "string \<Rightarrow> string \<Rightarrow> path \<Rightarrow> batch \<Rightarrow> batch" where
  "emitString old new p st =
     (if old = new then st
      else if length new > length old \<and> take (length old) new = old
        then emitOperation (OpA p (drop (length old) new)) st
      else
        let shared = overlap old new DEFAULT_OVERLAP_SCAN 64 8 in
        if shared = 0 then emitOperation (OpS p (JStr new)) st
        else
          let st1 = emitOperation (OpT p (int (length old - shared))) st in
          if length new > shared then emitOperation (OpA p (drop shared new)) st1 else st1)"

subsection \<open>Permutations\<close>

text \<open>
  The second loop of \<open>permutation\<close>. Each value of \<open>after\<close> takes the first index of that value in
  \<open>before\<close> not taken yet, which is what the counter \<open>used\<close> of its entry selects.
\<close>

fun take_positions :: "rjson list \<Rightarrow> nat list \<Rightarrow> rjson list \<Rightarrow> nat list option" where
  "take_positions old used [] = Some []"
| "take_positions old used (v # vs) =
     (case find (\<lambda>i. i \<notin> set used \<and> strict_eq (old ! i) v) [0..<length old] of
        None \<Rightarrow> None
      | Some i \<Rightarrow> map_option ((#) i) (take_positions old (i # used) vs))"

definition permutation :: "rjson list \<Rightarrow> rjson list \<Rightarrow> nat list option" where
  "permutation old new =
     (if length old \<noteq> length new then None else take_positions old [] new)"

subsection \<open>Matches of two array segments\<close>

text \<open>
  A region of two arrays is given by its two segments; the positions of a match are relative to
  their starts.
\<close>

type_synonym array_match = "nat \<times> nat"

text \<open>The table of \<open>lcsMatches\<close>, row by row from the last, and the walk through it.\<close>

fun lcs_row :: "('a \<Rightarrow> 'a \<Rightarrow> bool) \<Rightarrow> 'a \<Rightarrow> 'a list \<Rightarrow> nat list \<Rightarrow> nat list" where
  "lcs_row eq b (a # as) (n # row) =
     (let rest = lcs_row eq b as row in (if eq b a then hd row + 1 else max n (hd rest)) # rest)"
| "lcs_row eq b as row = [0]"

fun lcs_table :: "('a \<Rightarrow> 'a \<Rightarrow> bool) \<Rightarrow> 'a list \<Rightarrow> 'a list \<Rightarrow> nat list list" where
  "lcs_table eq [] new = [replicate (length new + 1) 0]"
| "lcs_table eq (b # old) new =
     (let table = lcs_table eq old new in lcs_row eq b new (hd table) # table)"

function lcs_walk ::
  "('a \<Rightarrow> 'a \<Rightarrow> bool) \<Rightarrow> 'a list \<Rightarrow> 'a list \<Rightarrow> nat list list \<Rightarrow> nat \<Rightarrow> nat \<Rightarrow> array_match list" where
  "lcs_walk eq old new lengths left right =
     (if left < length old \<and> right < length new then
        if eq (old ! left) (new ! right) \<and>
           lengths ! left ! right = lengths ! (left + 1) ! (right + 1) + 1
        then (left, right) # lcs_walk eq old new lengths (left + 1) (right + 1)
        else if lengths ! (left + 1) ! right \<ge> lengths ! left ! (right + 1)
        then lcs_walk eq old new lengths (left + 1) right
        else lcs_walk eq old new lengths left (right + 1)
      else [])"
  by pat_completeness auto
termination
  by (relation "measure (\<lambda>(eq, bs, as, t, l, r). (length bs - l) + (length as - r))") auto

declare lcs_walk.simps [simp del]

definition lcsMatches ::
  "'a list \<Rightarrow> 'a list \<Rightarrow> ('a \<Rightarrow> 'a \<Rightarrow> bool) \<Rightarrow> nat \<Rightarrow> array_match list option" where
  "lcsMatches old new eq maxCells =
     (if old = [] \<or> new = [] then Some []
      else if length old * length new > maxCells then None
      else Some (lcs_walk eq old new (lcs_table eq old new) 0 0))"

text \<open>Containers that share an identical child container are taken as revisions of one another.\<close>

fun semanticallyAligned :: "rjson \<Rightarrow> rjson \<Rightarrow> bool" where
  "semanticallyAligned (RArr r xs) (RArr s ys) =
     (sameValue (RArr r xs) (RArr s ys) \<or>
      (length xs = length ys \<and>
       list_ex (\<lambda>i. isContainer (xs ! i) \<and> strict_eq (xs ! i) (ys ! i)) [0..<length xs]))"
| "semanticallyAligned (RObj r a) (RObj s b) =
     (sameValue (RObj r a) (RObj s b) \<or>
      list_ex (\<lambda>kv. isContainer (snd kv) \<and>
        (case map_of b (fst kv) of None \<Rightarrow> False | Some w \<Rightarrow> strict_eq (snd kv) w)) a)"
| "semanticallyAligned left right = sameValue left right"

definition lowerBound :: "nat list \<Rightarrow> nat \<Rightarrow> nat" where
  "lowerBound values v = bisect (\<lambda>middle. values ! middle < v) 0 (length values)"

text \<open>
  \<open>identitySubsequence\<close>: the shorter segment found inside the longer one, element by element from
  the left. \<open>embed\<close> gives the positions of the elements of the shorter one.
\<close>

fun embed :: "nat \<Rightarrow> rjson list \<Rightarrow> rjson list \<Rightarrow> nat list option" where
  "embed at haystack [] = Some []"
| "embed at [] (v # vs) = None"
| "embed at (h # hs) (v # vs) =
     (if strict_eq h v then map_option ((#) at) (embed (at + 1) hs vs)
      else embed (at + 1) hs (v # vs))"

definition identitySubsequence :: "rjson list \<Rightarrow> rjson list \<Rightarrow> array_match list option" where
  "identitySubsequence old new =
     (if length new < length old
      then map_option (\<lambda>ps. zip ps [0..<length new]) (embed 0 old new)
      else if length old < length new
      then map_option (\<lambda>ps. zip [0..<length old] ps) (embed 0 new old)
      else None)"

text \<open>The positions of a value in \<open>before\<close>, ascending.\<close>

definition positions :: "rjson list \<Rightarrow> rjson \<Rightarrow> nat list" where
  "positions old v = filter (\<lambda>i. strict_eq (old ! i) v) [0..<length old]"

text \<open>The loop of \<open>greedyIdentityAnchors\<close>; \<open>from\<close> is \<open>previous + 1\<close>.\<close>

fun greedy_loop :: "rjson list \<Rightarrow> nat \<Rightarrow> nat \<Rightarrow> rjson list \<Rightarrow> array_match list" where
  "greedy_loop old from afterIndex [] = []"
| "greedy_loop old from afterIndex (v # vs) =
     (let candidates = positions old v; i = lowerBound candidates from in
      if i < length candidates
      then (candidates ! i, afterIndex) # greedy_loop old (candidates ! i + 1) (afterIndex + 1) vs
      else greedy_loop old from (afterIndex + 1) vs)"

definition greedyIdentityAnchors :: "rjson list \<Rightarrow> rjson list \<Rightarrow> array_match list" where
  "greedyIdentityAnchors old new = greedy_loop old 0 0 new"

definition MAX_IDENTITY_CANDIDATES :: nat where
  "MAX_IDENTITY_CANDIDATES = 200000"

definition MAX_SEMANTIC_CELLS :: nat where
  "MAX_SEMANTIC_CELLS = 65536"

text \<open>
  The longest chain of identity matches that grows on both sides. A candidate holds the candidate
  before it in its chain, where the code holds its index in \<open>candidates\<close>; \<open>tails\<close> holds the last
  candidate of the best chain of every length.
\<close>

datatype match_candidate = Candidate nat nat "match_candidate option"

record anchors =
  anc_tails :: "match_candidate list"
  anc_values :: "nat list"

definition assign_at :: "'a list \<Rightarrow> nat \<Rightarrow> 'a \<Rightarrow> 'a list" where
  "assign_at xs i v = (if i < length xs then xs[i := v] else xs @ [v])"

definition add_candidate :: "nat \<Rightarrow> anchors \<Rightarrow> nat \<Rightarrow> anchors" where
  "add_candidate afterIndex st beforeIndex =
     (let i = lowerBound (anc_values st) beforeIndex;
          candidate = Candidate beforeIndex afterIndex
            (if i = 0 then None else Some (anc_tails st ! (i - 1))) in
      \<lparr>anc_tails = assign_at (anc_tails st) i candidate,
       anc_values = assign_at (anc_values st) i beforeIndex\<rparr>)"

fun add_candidates :: "rjson list \<Rightarrow> nat \<Rightarrow> rjson list \<Rightarrow> anchors \<Rightarrow> anchors" where
  "add_candidates old afterIndex [] st = st"
| "add_candidates old afterIndex (v # vs) st =
     add_candidates old (afterIndex + 1) vs
       (foldl (add_candidate afterIndex) st (rev (positions old v)))"

fun chain :: "match_candidate \<Rightarrow> array_match list" where
  "chain (Candidate b a previous) =
     (case previous of None \<Rightarrow> [] | Some c \<Rightarrow> chain c) @ [(b, a)]"

definition identityAnchors :: "rjson list \<Rightarrow> rjson list \<Rightarrow> array_match list" where
  "identityAnchors old new =
     (let candidateCount = sum_list (map (\<lambda>v. length (positions old v)) new) in
      if candidateCount > MAX_IDENTITY_CANDIDATES then greedyIdentityAnchors old new
      else if candidateCount = 0 then []
      else
        let tails = anc_tails (add_candidates old 0 new \<lparr>anc_tails = [], anc_values = []\<rparr>) in
        if tails = [] then [] else chain (last tails))"

text \<open>The matches by which \<open>diffArrayRegion\<close> splits a trimmed region; none when it has none.\<close>

definition positional_matches :: "rjson list \<Rightarrow> rjson list \<Rightarrow> array_match list" where
  "positional_matches old new =
     (if length old = length new
      then map (\<lambda>i. (i, i)) (filter (\<lambda>i. sameValue (old ! i) (new ! i)) [0..<length old])
      else [])"

definition region_matches :: "rjson list \<Rightarrow> rjson list \<Rightarrow> array_match list" where
  "region_matches old new =
     (let positional = positional_matches old new in
      if positional \<noteq> [] then positional
      else
        case identitySubsequence old new of
          Some (m # ms) \<Rightarrow> m # ms
        | _ \<Rightarrow>
            (let identity = identityAnchors old new in
             if identity \<noteq> [] then identity
             else
               case lcsMatches old new semanticallyAligned MAX_SEMANTIC_CELLS of
                 None \<Rightarrow> []
               | Some semantic \<Rightarrow> semantic))"

text \<open>The common prefix dropped from two segments.\<close>

fun drop_common :: "rjson list \<Rightarrow> rjson list \<Rightarrow> rjson list \<times> rjson list" where
  "drop_common (b # bs) (a # as) = (if sameValue b a then drop_common bs as else (b # bs, a # as))"
| "drop_common bs as = (bs, as)"

subsection \<open>Matches grow on both sides\<close>

definition increasing :: "nat \<Rightarrow> nat \<Rightarrow> array_match list \<Rightarrow> bool" where
  "increasing nb na ms \<longleftrightarrow> sorted_wrt (\<lambda>x y. fst x < fst y \<and> snd x < snd y) ms \<and>
     (\<forall>m\<in>set ms. fst m < nb \<and> snd m < na)"

text \<open>The same, as the invariant of the loop over the matches that has reached \<open>bAt\<close> and \<open>aAt\<close>.\<close>

fun matches_ok :: "nat \<Rightarrow> nat \<Rightarrow> nat \<Rightarrow> nat \<Rightarrow> array_match list \<Rightarrow> bool" where
  "matches_ok bAt aAt nb na [] = (bAt \<le> nb \<and> aAt \<le> na)"
| "matches_ok bAt aAt nb na ((b, a) # ms) =
     (bAt \<le> b \<and> aAt \<le> a \<and> b < nb \<and> a < na \<and> matches_ok (b + 1) (a + 1) nb na ms)"

lemma matches_ok_weaken:
  "matches_ok b a nb na ms \<Longrightarrow> b' \<le> b \<Longrightarrow> a' \<le> a \<Longrightarrow> matches_ok b' a' nb na ms"
  by (cases ms) auto

lemma increasing_matches_ok:
  "increasing nb na ms \<Longrightarrow> \<forall>m\<in>set ms. bAt \<le> fst m \<and> aAt \<le> snd m \<Longrightarrow> bAt \<le> nb \<Longrightarrow> aAt \<le> na \<Longrightarrow>
   matches_ok bAt aAt nb na ms"
proof (induction ms arbitrary: bAt aAt)
  case (Cons m ms)
  obtain b a where m: "m = (b, a)" by (cases m)
  have "matches_ok (b + 1) (a + 1) nb na ms"
    using Cons.prems m by (intro Cons.IH) (auto simp: increasing_def Suc_le_eq)
  then show ?case using Cons.prems m by (auto simp: increasing_def)
qed simp

lemma positional_increasing: "increasing (length bs) (length as) (positional_matches bs as)"
  by (auto simp: increasing_def positional_matches_def sorted_wrt_map intro: sorted_wrt_filter)

lemma embed_positions:
  "embed at hay vs = Some ps \<Longrightarrow> length ps = length vs \<and> sorted_wrt (<) ps \<and>
     (\<forall>i\<in>set ps. at \<le> i \<and> i < at + length hay)"
proof (induction at hay vs arbitrary: ps rule: embed.induct)
  case (3 at h hs v vs)
  show ?case
  proof (cases "strict_eq h v")
    case True
    then obtain qs where "embed (at + 1) hs vs = Some qs" "ps = at # qs" using 3(3) by auto
    then show ?thesis using 3(1)[OF True, of qs] by auto
  next
    case False
    then show ?thesis using 3(2)[OF False, of ps] 3(3) by auto
  qed
qed auto

lemma increasing_zip:
  "length ps = length qs \<Longrightarrow> sorted_wrt (<) ps \<Longrightarrow> sorted_wrt (<) qs \<Longrightarrow>
   \<forall>i\<in>set ps. i < nb \<Longrightarrow> \<forall>i\<in>set qs. i < na \<Longrightarrow> increasing nb na (zip ps qs)"
  by (auto simp: increasing_def sorted_wrt_iff_nth_less dest: set_zip_leftD set_zip_rightD)

lemma identitySubsequence_increasing:
  "identitySubsequence bs as = Some ms \<Longrightarrow> increasing (length bs) (length as) ms"
  by (auto simp: identitySubsequence_def dest!: embed_positions intro!: increasing_zip split: if_splits)

lemma lcs_walk_ok:
  "left \<le> length bs \<Longrightarrow> right \<le> length as \<Longrightarrow>
   matches_ok left right (length bs) (length as) (lcs_walk eq bs as lengths left right)"
proof (induction eq bs as lengths left right rule: lcs_walk.induct)
  case (1 eq bs as lengths left right)
  have step: "matches_ok left right (length bs) (length as) ms"
    if "matches_ok (left + 1) right (length bs) (length as) ms \<or>
        matches_ok left (right + 1) (length bs) (length as) ms" for ms
    using that matches_ok_weaken by auto
  show ?case using 1 by (subst lcs_walk.simps) (auto intro: step)
qed

lemma sorted_positions: "sorted_wrt (<) (positions bs v)"
  unfolding positions_def by (rule sorted_wrt_filter) simp

lemma positions_range: "i \<in> set (positions bs v) \<longleftrightarrow> i < length bs \<and> strict_eq (bs ! i) v"
  by (auto simp: positions_def)

lemma lowerBound_le: "lowerBound values v \<le> length values"
  using bisect_bounds[of 0 "length values"] by (simp add: lowerBound_def)

lemma lowerBound_below: "0 < lowerBound values v \<Longrightarrow> values ! (lowerBound values v - 1) < v"
  unfolding lowerBound_def by (rule bisect_below)

lemma lowerBound_reaches:
  assumes "sorted_wrt (<) values" and "lowerBound values v \<le> i" and "i < length values"
  shows "v \<le> values ! i"
proof -
  have "\<not> values ! i < v"
  proof (rule bisect_first[where prior = "\<lambda>m. values ! m < v"])
    show "values ! i' < v" if "i' \<le> j" "j < length values" "values ! j < v" for i' j
    proof (cases "i' = j")
      case False
      then have "values ! i' < values ! j"
        using that(1,2) by (intro sorted_wrt_nth_less[OF assms(1)]) auto
      then show ?thesis using that(3) by simp
    qed (use that in simp)
  qed (use assms(2,3) in \<open>auto simp: lowerBound_def\<close>)
  then show ?thesis by simp
qed

lemma greedy_ok:
  "from \<le> length bs \<Longrightarrow> matches_ok from at (length bs) (at + length as) (greedy_loop bs from at as)"
proof (induction as arbitrary: "from" at)
  case (Cons v vs)
  let ?i = "lowerBound (positions bs v) from"
  show ?case
  proof (cases "?i < length (positions bs v)")
    case True
    have "positions bs v ! ?i \<in> set (positions bs v)" using True by (rule nth_mem)
    then have p: "positions bs v ! ?i < length bs" by (simp add: positions_range)
    have "from \<le> positions bs v ! ?i" using True by (intro lowerBound_reaches sorted_positions) auto
    then show ?thesis using Cons.IH[of "positions bs v ! ?i + 1" "at + 1"] p True by (simp add: Let_def)
  next
    case False
    then show ?thesis using Cons.IH[of "from" "at + 1"] Cons.prems
      by (auto simp: Let_def intro: matches_ok_weaken)
  qed
qed simp

subsubsection \<open>The longest chain of identity matches\<close>

fun cand_before :: "match_candidate \<Rightarrow> nat" where
  "cand_before (Candidate b a previous) = b"

fun cand_after :: "match_candidate \<Rightarrow> nat" where
  "cand_after (Candidate b a previous) = a"

fun cand_ok :: "nat \<Rightarrow> nat \<Rightarrow> match_candidate \<Rightarrow> bool" where
  "cand_ok nb na (Candidate b a previous) =
     (b < nb \<and> a < na \<and>
      (case previous of None \<Rightarrow> True
       | Some c \<Rightarrow> cand_ok nb na c \<and> cand_before c < b \<and> cand_after c < a))"

lemma chain_increasing:
  "cand_ok nb na c \<Longrightarrow> increasing nb na (chain c) \<and>
     (\<forall>m\<in>set (chain c). fst m \<le> cand_before c \<and> snd m \<le> cand_after c)"
proof (induction c)
  case (Candidate b a previous)
  show ?case
  proof (cases previous)
    case None
    then show ?thesis using Candidate.prems by (auto simp: increasing_def)
  next
    case (Some d)
    then have IH: "increasing nb na (chain d)"
      "\<forall>m\<in>set (chain d). fst m \<le> cand_before d \<and> snd m \<le> cand_after d"
      using Candidate.IH[of d] Candidate.prems by auto
    then show ?thesis using Candidate.prems Some
      by (fastforce simp: increasing_def sorted_wrt_append)
  qed
qed

text \<open>
  Candidates are added with \<open>after\<close> ascending and, for one \<open>after\<close>, with \<open>before\<close> descending; the
  invariant holds when those with the current \<open>after\<close> have \<open>before\<close> at least \<open>bound\<close>.
\<close>

definition anchors_ok :: "nat \<Rightarrow> nat \<Rightarrow> nat \<Rightarrow> nat \<Rightarrow> anchors \<Rightarrow> bool" where
  "anchors_ok nb na at bound st \<longleftrightarrow>
     length (anc_tails st) = length (anc_values st) \<and>
     (\<forall>i<length (anc_tails st). let c = anc_tails st ! i in
        cand_ok nb na c \<and> cand_before c = anc_values st ! i \<and>
        (cand_after c < at \<or> cand_after c = at \<and> bound \<le> cand_before c))"

lemma nth_assign_at:
  "i \<le> length xs \<Longrightarrow> j < length (assign_at xs i v) \<Longrightarrow> assign_at xs i v ! j = (if j = i then v else xs ! j)"
  by (auto simp: assign_at_def nth_append)

lemma length_assign_at: "length (assign_at xs i v) = (if i < length xs then length xs else length xs + 1)"
  by (simp add: assign_at_def)

lemma add_candidate_ok:
  assumes ok: "anchors_ok nb na at bound st" and b: "b < bound" "b < nb" and a: "at < na"
  shows "anchors_ok nb na at b (add_candidate at st b)"
proof -
  define i where "i = lowerBound (anc_values st) b"
  define c where "c = Candidate b at (if i = 0 then None else Some (anc_tails st ! (i - 1)))"
  have len: "length (anc_tails st) = length (anc_values st)" using ok by (simp add: anchors_ok_def)
  have i: "i \<le> length (anc_tails st)" by (simp add: i_def len lowerBound_le)
  have c_ok: "cand_ok nb na c"
  proof (cases "i = 0")
    case False
    let ?d = "anc_tails st ! (i - 1)"
    have lt: "anc_values st ! (i - 1) < b" using False lowerBound_below[of "anc_values st" b] by (simp add: i_def)
    have "i - 1 < length (anc_tails st)" using i False by simp
    then have d: "cand_ok nb na ?d" "cand_before ?d = anc_values st ! (i - 1)"
      "cand_after ?d < at \<or> cand_after ?d = at \<and> bound \<le> cand_before ?d"
      using ok unfolding anchors_ok_def Let_def by blast+
    have "cand_after ?d < at" using d lt b by auto
    then show ?thesis using d lt False b a by (simp add: c_def)
  qed (use b a in \<open>simp add: c_def\<close>)
  have new: "add_candidate at st b =
      \<lparr>anc_tails = assign_at (anc_tails st) i c, anc_values = assign_at (anc_values st) i b\<rparr>"
    by (simp add: add_candidate_def Let_def i_def c_def)
  show ?thesis unfolding anchors_ok_def new anchors.simps
  proof (intro conjI allI impI)
    show "length (assign_at (anc_tails st) i c) = length (assign_at (anc_values st) i b)"
      by (simp add: length_assign_at len)
    fix j assume j: "j < length (assign_at (anc_tails st) i c)"
    have jv: "j < length (assign_at (anc_values st) i b)" using j by (simp add: length_assign_at len split: if_splits)
    have jt: "j < length (anc_tails st)" if "j \<noteq> i" using that i j by (auto simp: length_assign_at split: if_splits)
    show "let d = assign_at (anc_tails st) i c ! j in cand_ok nb na d \<and>
        cand_before d = assign_at (anc_values st) i b ! j \<and>
        (cand_after d < at \<or> cand_after d = at \<and> b \<le> cand_before d)"
    proof (cases "j = i")
      case True
      then show ?thesis using c_ok nth_assign_at[OF i j] nth_assign_at[OF _ jv] i len by (simp add: c_def)
    next
      case False
      then have "j < length (anc_tails st)" by (rule jt)
      then show ?thesis using ok False nth_assign_at[OF i j] nth_assign_at[OF _ jv] i len b
        by (auto simp: anchors_ok_def Let_def)
    qed
  qed
qed

lemma add_candidate_list_ok:
  "anchors_ok nb na at bound st \<Longrightarrow> sorted_wrt (>) bs \<Longrightarrow> \<forall>b\<in>set bs. b < bound \<and> b < nb \<Longrightarrow> at < na \<Longrightarrow>
   \<exists>bound'. anchors_ok nb na at bound' (foldl (add_candidate at) st bs)"
proof (induction bs arbitrary: st bound)
  case (Cons b bs)
  then show ?case using Cons.IH[OF add_candidate_ok[OF Cons.prems(1), of b]] by simp
qed auto

lemma anchors_ok_next: "anchors_ok nb na at bound st \<Longrightarrow> anchors_ok nb na (at + 1) bound' st"
  by (auto simp: anchors_ok_def Let_def)

lemma add_candidates_ok:
  "anchors_ok (length bs) na at (length bs) st \<Longrightarrow> at + length vs \<le> na \<Longrightarrow>
   \<exists>bound. anchors_ok (length bs) na (at + length vs) bound (add_candidates bs at vs st)"
proof (induction vs arbitrary: at st)
  case (Cons v vs)
  have "\<exists>bound. anchors_ok (length bs) na at bound (foldl (add_candidate at) st (rev (positions bs v)))"
    using Cons.prems by (intro add_candidate_list_ok[where bound = "length bs"])
      (auto simp: sorted_wrt_rev sorted_positions positions_range)
  then have "anchors_ok (length bs) na (at + 1) (length bs) (foldl (add_candidate at) st (rev (positions bs v)))"
    using anchors_ok_next by blast
  then show ?case using Cons.IH Cons.prems(2) by fastforce
qed auto

lemma greedyIdentityAnchors_ok:
  "matches_ok 0 0 (length bs) (length as) (greedyIdentityAnchors bs as)"
  using greedy_ok[of 0 bs 0 as] by (simp add: greedyIdentityAnchors_def)

lemma identityAnchors_ok: "matches_ok 0 0 (length bs) (length as) (identityAnchors bs as)"
proof -
  define st where "st = add_candidates bs 0 as \<lparr>anc_tails = [], anc_values = []\<rparr>"
  have "matches_ok 0 0 (length bs) (length as) (chain (last (anc_tails st)))" if ne: "anc_tails st \<noteq> []"
  proof -
    have "anchors_ok (length bs) (length as) 0 (length bs) \<lparr>anc_tails = [], anc_values = []\<rparr>"
      by (simp add: anchors_ok_def)
    then obtain bound where "anchors_ok (length bs) (length as) (length as) bound st"
      using add_candidates_ok[of bs "length as" 0 _ as] by (auto simp: st_def)
    moreover have "length (anc_tails st) - 1 < length (anc_tails st)" using ne by simp
    ultimately have "cand_ok (length bs) (length as) (last (anc_tails st))"
      using ne unfolding last_conv_nth[OF ne] anchors_ok_def Let_def by blast
    then have "increasing (length bs) (length as) (chain (last (anc_tails st)))"
      using chain_increasing by blast
    then show ?thesis by (rule increasing_matches_ok) auto
  qed
  then show ?thesis
    by (simp add: identityAnchors_def Let_def greedyIdentityAnchors_ok flip: st_def)
qed

lemma region_matches_ok: "matches_ok 0 0 (length bs) (length as) (region_matches bs as)"
proof -
  have inc: "matches_ok 0 0 (length bs) (length as) ms" if "increasing (length bs) (length as) ms" for ms
    using that by (rule increasing_matches_ok) auto
  have lcs: "matches_ok 0 0 (length bs) (length as) ms"
    if "lcsMatches bs as eq cells = Some ms" for ms eq cells
    using that lcs_walk_ok[of 0 bs 0 as] by (auto simp: lcsMatches_def split: if_splits)
  show ?thesis
    unfolding region_matches_def Let_def
    using identityAnchors_ok[of bs as]
    by (auto split: option.splits list.splits simp del: matches_ok.simps(2)
        intro: inc positional_increasing lcs dest: identitySubsequence_increasing)
qed

subsection \<open>The diff\<close>

text \<open>The guard of \<open>diffArray\<close>: a pure reordering becomes one permutation.\<close>

definition array_order :: "rjson list \<Rightarrow> rjson list \<Rightarrow> nat list option" where
  "array_order old new =
     (if length old = length new \<and> length old > 1 \<and>
         \<not> sameValue (hd old) (hd new) \<and> \<not> sameValue (last old) (last new)
      then permutation old new else None)"

text \<open>The second loop of \<open>diffObject\<close>.\<close>

fun delete_keys ::
  "(string \<times> rjson) list \<Rightarrow> (string \<times> rjson) list \<Rightarrow> path \<Rightarrow> batch \<Rightarrow> batch" where
  "delete_keys [] new p st = st"
| "delete_keys ((k, v) # old) new p st =
     (if snd st then st
      else delete_keys old new p
        (if map_of new k = None then emitOperation (OpD (p @ [Key k])) st else st))"

text \<open>A trimmed region: the common prefix and suffix of two segments dropped.\<close>

definition trimmed :: "rjson list \<Rightarrow> rjson list \<Rightarrow> rjson list \<times> rjson list" where
  "trimmed old new =
     (let (bs, as) = drop_common old new; (rb, ra) = drop_common (rev bs) (rev as)
      in (rev rb, rev ra))"

definition common_prefix :: "rjson list \<Rightarrow> rjson list \<Rightarrow> nat" where
  "common_prefix old new = length old - length (fst (drop_common old new))"

text \<open>What the recursion below decreases: the data of \<open>before\<close>, and the matches left.\<close>

lemma size_slice: "size_list f (slice xs i j) \<le> size_list f xs"
proof -
  have t: "size_list f (take n ys) \<le> size_list f ys" for n ys
    by (induction ys arbitrary: n) (auto simp: take_Cons split: nat.splits)
  have d: "size_list f (drop n ys) \<le> size_list f ys" for n ys
    by (induction ys arbitrary: n) (auto simp: drop_Cons le_SucI trans_le_add2 split: nat.splits)
  show ?thesis unfolding slice_def by (rule order_trans[OF t d])
qed

lemma size_list_append_slice: "size_list f (xs @ ys) = size_list f xs + size_list f ys"
  by (induction xs) auto

lemma size_slice_lt:
  assumes "m < i \<or> j \<le> m" and "m < length xs"
  shows "size_list f (slice xs i j) < size_list f xs"
proof -
  have xs: "size_list f xs = size_list f (take m xs) + Suc (f (xs ! m)) + size_list f (drop (Suc m) xs)"
    using id_take_nth_drop[OF assms(2)] size_list_append_slice[of f "take m xs" "xs ! m # drop (Suc m) xs"]
    by simp
  show ?thesis
  proof (cases "m < i")
    case True
    then have "slice xs i j = slice (drop (Suc m) xs) (i - Suc m) (j - Suc m)"
      by (simp add: slice_def)
    then show ?thesis using xs size_slice[of f "drop (Suc m) xs"] by (simp add: less_Suc_eq_le trans_le_add2)
  next
    case False
    then have "slice xs i j = slice (take m xs) i j"
      using assms(1) by (simp add: slice_def drop_take min_def)
    then show ?thesis using xs size_slice[of f "take m xs"] by (simp add: less_Suc_eq_le trans_le_add1)
  qed
qed

lemma size_drop_common: "size_list f (fst (drop_common bs as)) \<le> size_list f bs"
  by (induction bs as rule: drop_common.induct) (auto simp: le_SucI trans_le_add2)

lemma size_list_rev_eq: "size_list f (rev xs) = size_list f xs"
  by (induction xs) (auto simp: size_list_append_slice)

lemma size_trimmed: "(bs', as') = trimmed bs as \<Longrightarrow> size_list f bs' \<le> size_list f bs"
  using size_drop_common[of f "rev (fst (drop_common bs as))" "rev (snd (drop_common bs as))"]
    size_drop_common[of f bs as]
  by (auto simp: trimmed_def size_list_rev_eq split: prod.splits)

fun match_sizes :: "rjson list \<Rightarrow> array_match list \<Rightarrow> nat" where
  "match_sizes bs [] = 0"
| "match_sizes bs ((b, a) # ms) = size (bs ! b) + match_sizes bs ms"

definition matches_weight :: "rjson list \<Rightarrow> rjson list \<Rightarrow> nat \<Rightarrow> nat \<Rightarrow> array_match list \<Rightarrow> nat" where
  "matches_weight bs as bAt aAt ms =
     (if matches_ok bAt aAt (length bs) (length as) ms \<and> (0 < bAt \<or> ms \<noteq> [])
      then size_list size bs else size_list size bs + match_sizes bs ms + 1)"

lemma matches_weight_region:
  "region_matches bs as \<noteq> [] \<Longrightarrow> matches_weight bs as 0 0 (region_matches bs as) = size_list size bs"
  by (simp add: matches_weight_def region_matches_ok)

lemma matches_weight_end: "size_list size (slice bs bAt (length bs)) < matches_weight bs as bAt aAt []"
proof (cases "bAt \<le> length bs \<and> aAt \<le> length as \<and> 0 < bAt")
  case True
  then have "bAt - 1 < bAt" "bAt - 1 < length bs" by auto
  then show ?thesis using size_slice_lt[of "bAt - 1" bAt "length bs" bs size] True
    by (simp add: matches_weight_def)
next
  case False
  then show ?thesis using size_slice[of size bs bAt "length bs"] by (auto simp: matches_weight_def)
qed

lemma matches_weight_gap: "size_list size (slice bs bAt b) < matches_weight bs as bAt aAt ((b, a) # ms)"
proof (cases "matches_ok bAt aAt (length bs) (length as) ((b, a) # ms)")
  case True
  then show ?thesis using size_slice_lt[of b bAt b bs size] by (simp add: matches_weight_def)
next
  case False
  then show ?thesis using size_slice[of size bs bAt b]
    by (simp only: matches_weight_def simp_thms if_False)
qed

lemma size_nth_lt: "i < length xs \<Longrightarrow> f (xs ! i) < size_list f xs"
  by (induction xs arbitrary: i) (auto simp: nth_Cons less_SucI trans_less_add2 split: nat.splits)

lemma matches_weight_match: "size (bs ! b) < matches_weight bs as bAt aAt ((b, a) # ms)"
  using size_nth_lt[of b bs size]
  by (cases "matches_ok bAt aAt (length bs) (length as) ((b, a) # ms)") (simp_all add: matches_weight_def)

lemma matches_weight_next:
  "matches_weight bs as (Suc b) (Suc a) ms \<le> matches_weight bs as bAt aAt ((b, a) # ms)"
  by (simp add: matches_weight_def)

lemma matches_weight_trimmed:
  "(bs', as') = trimmed bs as \<Longrightarrow> region_matches bs' as' \<noteq> [] \<Longrightarrow>
   matches_weight bs' as' 0 0 (region_matches bs' as') < size_list size bs \<or>
   matches_weight bs' as' 0 0 (region_matches bs' as') = size_list size bs"
  using size_trimmed[of bs' as' bs as size] by (auto simp: matches_weight_region)

lemma size_trimmed_single:
  "length (fst (trimmed bs as)) = Suc 0 \<Longrightarrow> size (hd (fst (trimmed bs as))) < size_list size bs"
  using size_trimmed[OF prod.collapse, of size bs as]
  by (cases "fst (trimmed bs as)") auto

lemma size_map_of:
  "map_of kvs k = Some v \<Longrightarrow> size v < Suc (size_list (size_prod (\<lambda>_. 0) size) kvs)"
  by (induction kvs) (auto split: if_splits)

function diff_value :: "rjson \<Rightarrow> rjson \<Rightarrow> path \<Rightarrow> batch \<Rightarrow> batch"
  and diff_region :: "rjson list \<Rightarrow> rjson list \<Rightarrow> path \<Rightarrow> nat \<Rightarrow> batch \<Rightarrow> batch"
  and process_matches ::
    "rjson list \<Rightarrow> rjson list \<Rightarrow> path \<Rightarrow> nat \<Rightarrow> nat \<Rightarrow> nat \<Rightarrow> array_match list \<Rightarrow> batch \<Rightarrow> batch"
  and diff_keys ::
    "(string \<times> rjson) list \<Rightarrow> (string \<times> rjson) list \<Rightarrow> path \<Rightarrow> batch \<Rightarrow> batch" where
  "diff_value old new p st =
     (if strict_eq old new \<or> snd st then st
      else
        (case old of
          RStr s \<Rightarrow>
            (case new of
               RStr t \<Rightarrow> if p \<noteq> [] then emitString s t p st else emitSet p new st
             | _ \<Rightarrow> emitSet p new st)
        | RArr r xs \<Rightarrow>
            (case new of
               RArr s ys \<Rightarrow>
                 if r_equalJson old new then st
                 else (case array_order xs ys of
                     Some order \<Rightarrow> emitOperation (OpM p (map int order)) st
                   | None \<Rightarrow> diff_region xs ys p 0 st)
             | _ \<Rightarrow> emitSet p new st)
        | RObj r kvs \<Rightarrow>
            (case new of
               RObj s lws \<Rightarrow>
                 if list_ex (\<lambda>k. k \<in> set RESERVED_SEGMENTS) (map fst kvs @ map fst lws)
                 then (if r_equalJson old new then st else emitSet p new st)
                 else delete_keys kvs lws p (diff_keys kvs lws p st)
             | _ \<Rightarrow> emitSet p new st)
        | _ \<Rightarrow> emitSet p new st))"
| "diff_region old new p out st =
     (if snd st then st
      else
        let bs = fst (trimmed old new); as = snd (trimmed old new);
            at = out + common_prefix old new in
        if bs = [] \<and> as = [] then st
        else if bs = [] \<or> as = []
        then emitOperation (OpP p (int at) (int (length bs)) (map erase as)) st
        else
          let ms = region_matches bs as in
          if ms \<noteq> [] then process_matches bs as p 0 0 at ms st
          else if length bs = 1 \<and> length as = 1
          then diff_value (hd bs) (hd as) (p @ [Idx (int at)]) st
          else emitOperation (OpP p (int at) (int (length bs)) (map erase as)) st)"
| "process_matches old new p bAt aAt out [] st =
     (if snd st then st
      else diff_region (slice old bAt (length old)) (slice new aAt (length new)) p out st)"
| "process_matches old new p bAt aAt out ((b, a) # ms) st =
     (if snd st then st
      else
        let st1 = diff_region (slice old bAt b) (slice new aAt a) p out st;
            at = out + (a - aAt);
            st2 = (if sameValue (old ! b) (new ! a) then st1
                   else diff_value (old ! b) (new ! a) (p @ [Idx (int at)]) st1) in
        process_matches old new p (b + 1) (a + 1) (at + 1) ms st2)"
| "diff_keys old [] p st = st"
| "diff_keys old ((k, v) # new) p st =
     (if snd st then st
      else diff_keys old new p
        (case map_of old k of
           Some u \<Rightarrow> diff_value u v (p @ [Key k]) st
         | None \<Rightarrow> emitSet (p @ [Key k]) v st))"
  by pat_completeness auto

termination
  apply (relation "inv_image (less_than <*lex*> less_than <*lex*> less_than)
    (\<lambda>x. case x of
        Inl (Inl (old, new, p, st)) \<Rightarrow> (size old, 3, 0)
      | Inl (Inr (old, new, p, out, st)) \<Rightarrow> (size_list size old, 1, 0)
      | Inr (Inl (old, new, p, bAt, aAt, out, ms, st)) \<Rightarrow>
          (matches_weight old new bAt aAt ms, 0, length ms)
      | Inr (Inr (old, new, p, st)) \<Rightarrow>
          (size_list (size_prod (\<lambda>_. 0) size) old + 1, 0, length new))")
  by (simp_all add: matches_weight_end matches_weight_gap matches_weight_match size_map_of
      split del: if_split)
    (auto simp: matches_weight_trimmed size_trimmed_single le_imp_less_or_eq[OF matches_weight_next]
      split del: if_split)

declare diff_value.simps [simp del] diff_region.simps [simp del] process_matches.simps [simp del]
  diff_keys.simps [simp del]

subsection \<open>Costs\<close>

text \<open>The separators of a list of \<open>n\<close> items.\<close>

definition separators :: "nat \<Rightarrow> nat" where
  "separators n = n - 1"

fun jsonCost :: "json \<Rightarrow> nat" where
  "jsonCost JNull = 4"
| "jsonCost (JStr s) = length s + 2"
| "jsonCost (JNum n) = length (show_int n)"
| "jsonCost (JBool b) = (if b then 4 else 5)"
| "jsonCost (JArr xs) = 2 + sum_list (map jsonCost xs) + separators (length xs)"
| "jsonCost (JObj kvs) =
     2 + sum_list (map (\<lambda>kv. length (fst kv) + 3 + jsonCost (snd kv)) kvs) + separators (length kvs)"

fun segCost :: "seg \<Rightarrow> nat" where
  "segCost (Key k) = length k + 2"
| "segCost (Idx n) = length (show_int n)"

definition pathCost :: "path \<Rightarrow> nat" where
  "pathCost p = 2 + sum_list (map segCost p) + separators (length p)"

fun operationCost :: "op \<Rightarrow> nat" where
  "operationCost (OpR v) = 6 + jsonCost v"
| "operationCost (OpS p v) = 7 + pathCost p + jsonCost v"
| "operationCost (OpD p) = 6 + pathCost p"
| "operationCost (OpA p t) = 7 + pathCost p + length t + 2"
| "operationCost (OpT p n) = 7 + pathCost p + length (show_int n)"
| "operationCost (OpP p i r items) =
     10 + pathCost p + length (show_int i) + length (show_int r) + jsonCost (JArr items)"
| "operationCost (OpM p perm) = 7 + pathCost p + jsonCost (JArr (map JNum perm))"

definition diffRevisions :: "rjson \<Rightarrow> rjson \<Rightarrow> op list" where
  "diffRevisions old new =
     (let (operations, overflowed) = diff_value old new [] ([], False) in
      if overflowed then [OpR (erase new)]
      else if operations = [] \<or> is_replace (hd operations) then operations
      else
        let deltaCost = 2 + sum_list (map (\<lambda>op. operationCost op + 1) operations) in
        if deltaCost < 65536 then operations
        else
          let snapshotCost = jsonCost (erase new) + 6 in
          if deltaCost \<ge> snapshotCost then [OpR (erase new)] else operations)"

subsection \<open>Coherent revisions\<close>

text \<open>
  The hypothesis under which comparing identities is sound: both revisions live in one heap \<open>h\<close>,
  in which an identity names one immutable container. Object keys are distinct.
\<close>

fun stored :: "(nat \<Rightarrow> rjson) \<Rightarrow> rjson \<Rightarrow> bool" where
  "stored h (RArr r xs) = (h r = RArr r xs \<and> (\<forall>x\<in>set xs. stored h x))"
| "stored h (RObj r kvs) =
     (h r = RObj r kvs \<and> distinct (map fst kvs) \<and> (\<forall>kv\<in>set kvs. stored h (snd kv)))"
| "stored h v = True"

lemma strict_eq_stored: "strict_eq v w \<Longrightarrow> stored h v \<Longrightarrow> stored h w \<Longrightarrow> v = w"
  by (cases "(v, w)" rule: strict_eq.cases) auto

lemma strict_eq_refl [simp]: "strict_eq v v"
  by (cases v) auto

lemma strict_eq_sym: "strict_eq v w \<longleftrightarrow> strict_eq w v"
  by (cases "(v, w)" rule: strict_eq.cases) auto

lemma wf_json_erase: "stored h v \<Longrightarrow> wf_json (erase v)"
  by (induction v) (auto simp: comp_def)

lemma map_of_erase: "map_of (map (\<lambda>kv. (fst kv, erase (snd kv))) kvs) k = map_option erase (map_of kvs k)"
  by (induction kvs) auto

lemma stored_map_of: "\<forall>kv\<in>set kvs. stored h (snd kv) \<Longrightarrow> map_of kvs k = Some v \<Longrightarrow> stored h v"
  by (force dest: map_of_SomeD)

lemma r_equalJson_sound:
  "r_equalJson v w \<Longrightarrow> stored h v \<Longrightarrow> stored h w \<Longrightarrow> equalJson (erase v) (erase w)"
proof (induction v w rule: r_equalJson.induct)
  case (1 r xs s ys)
  show ?case
  proof (cases "r = s")
    case True
    then have "RArr r xs = RArr s ys" using 1 by (auto intro: strict_eq_stored)
    then show ?thesis using wf_json_erase[OF 1(3)] by (simp del: erase.simps)
  next
    case False
    then show ?thesis using 1 by (auto simp: list_all2_conv_all_nth)
  qed
next
  case (2 r a s b)
  show ?case
  proof (cases "r = s")
    case True
    then have "RObj r a = RObj s b" using 2 by (auto intro: strict_eq_stored)
    then show ?thesis using wf_json_erase[OF 2(3)] by (simp del: erase.simps)
  next
    case False
    have "\<exists>w. map_of b (fst kv) = Some w \<and> equalJson (erase (snd kv)) (erase w)" if kv: "kv \<in> set a" for kv
    proof -
      obtain w where w: "map_of b (fst kv) = Some w" "r_equalJson (snd kv) w"
        using 2(2) False kv by (fastforce split: option.splits)
      have "equalJson (erase (snd kv)) (erase w)"
        using 2(1)[OF kv w] 2(3,4) kv stored_map_of[OF _ w(1), of h] by simp
      then show ?thesis using w by blast
    qed
    then show ?thesis using 2(2) False by (fastforce simp: map_of_erase split: option.splits)
  qed
qed (auto dest!: strict_eq_stored simp: equalJson_prim)

end
