(* ===== verification/Delta_Diff_Correct.thy ===== *)
theory Delta_Diff_Correct
  imports Delta_Diff
begin

text \<open>
  Correctness of the diff: on coherent revisions the batch \<open>diffRevisions\<close> computes leads from
  the old revision to the new one. Each procedure is specified by what the operations it appends
  do to any document that equals the old value at their path; the specifications compose along
  array segments and along object keys.
\<close>

subsection \<open>What a procedure appends\<close>

definition appends :: "batch \<Rightarrow> batch \<Rightarrow> (op list \<Rightarrow> bool) \<Rightarrow> bool" where
  "appends st st' P \<longleftrightarrow> (\<not> snd st' \<longrightarrow> \<not> snd st \<and> (\<exists>new. st' = (fst st @ new, False) \<and> P new))"

lemma appends_same: "P [] \<Longrightarrow> appends st st P"
  by (cases st) (auto simp: appends_def)

lemma appends_overflowed: "snd st \<Longrightarrow> appends st st P"
  by (simp add: appends_def)

lemma appends_mono: "appends st st' P \<Longrightarrow> (\<And>new. P new \<Longrightarrow> Q new) \<Longrightarrow> appends st st' Q"
  unfolding appends_def by blast

lemma appends_trans:
  assumes "appends st st1 P" and "appends st1 st2 Q"
    and "\<And>xs ys. P xs \<Longrightarrow> Q ys \<Longrightarrow> R (xs @ ys)"
  shows "appends st st2 R"
  unfolding appends_def
proof (intro impI)
  assume "\<not> snd st2"
  then obtain ys where ys: "\<not> snd st1" "st2 = (fst st1 @ ys, False)" "Q ys"
    using assms(2) unfolding appends_def by blast
  then obtain xs where xs: "\<not> snd st" "st1 = (fst st @ xs, False)" "P xs"
    using assms(1) unfolding appends_def by blast
  have "st2 = (fst st @ (xs @ ys), False)" using xs ys by simp
  then show "\<not> snd st \<and> (\<exists>new. st2 = (fst st @ new, False) \<and> R new)"
    using xs ys assms(3) by blast
qed

lemma appends_emit: "P [op] \<Longrightarrow> appends st (emitOperation op st) P"
  by (cases st) (auto simp: appends_def emitOperation_def)

subsection \<open>Specifications\<close>

text \<open>The operations turn any document that is \<open>b\<close> at the path into one that is \<open>a\<close> there.\<close>

definition turns :: "path \<Rightarrow> op list \<Rightarrow> json \<Rightarrow> json \<Rightarrow> bool" where
  "turns p new b a \<longleftrightarrow>
     (\<forall>root v. wf_json root \<and> get root p = Some v \<and> equalJson v b \<longrightarrow>
       (\<exists>w. apply_ops root new = Inr (replaceAt root p w) \<and> wf_json w \<and> equalJson w a))"

definition turns_region :: "path \<Rightarrow> op list \<Rightarrow> nat \<Rightarrow> json list \<Rightarrow> json list \<Rightarrow> bool" where
  "turns_region p new out bs as \<longleftrightarrow>
     (\<forall>root pre mid post. wf_json root \<and> get root p = Some (JArr (pre @ mid @ post)) \<and>
        length pre = out \<and> list_all2 equalJson mid bs \<longrightarrow>
       (\<exists>mid'. apply_ops root new = Inr (replaceAt root p (JArr (pre @ mid' @ post))) \<and>
          (\<forall>x\<in>set mid'. wf_json x) \<and> list_all2 equalJson mid' as))"

lemma turnsI:
  "(\<And>root v. wf_json root \<Longrightarrow> wf_json v \<Longrightarrow> get root p = Some v \<Longrightarrow> equalJson v b \<Longrightarrow>
      \<exists>w. apply_ops root new = Inr (replaceAt root p w) \<and> wf_json w \<and> equalJson w a) \<Longrightarrow>
   turns p new b a"
  unfolding turns_def using wf_json_get by blast

lemma turns_same:
  assumes "equalJson b a" and "wf_json b" and "wf_json a"
  shows "turns p [] b a"
proof (rule turnsI)
  fix root v assume r: "wf_json root" "wf_json v" "get root p = Some v" "equalJson v b"
  then have "equalJson v a" using assms equalJson_trans by blast
  then show "\<exists>w. apply_ops root [] = Inr (replaceAt root p w) \<and> wf_json w \<and> equalJson w a"
    using r replaceAt_get[OF r(3)] by (intro exI[of _ v]) simp
qed

lemma turns_set:
  assumes "wf_json a" and "list_all safe_seg p"
  shows "turns p [if p = [] then OpR a else OpS p a] b a"
proof (rule turnsI)
  fix root v assume r: "get root p = Some v"
  have "apply_op v (OpR a) = Inr a" by (simp add: apply_op_eq)
  then have "apply_op root (under p (OpR a)) = Inr (replaceAt root p a)"
    using apply_op_under[OF r assms(2)] by simp
  then show "\<exists>w. apply_ops root [if p = [] then OpR a else OpS p a] = Inr (replaceAt root p w) \<and>
      wf_json w \<and> equalJson w a"
    using assms(1) by (auto simp: under_simps)
qed

lemma turns_region_nil:
  assumes "list_all2 equalJson bs as" and "\<forall>b\<in>set bs. wf_json b" and "\<forall>a\<in>set as. wf_json a"
  shows "turns_region p [] out bs as"
  unfolding turns_region_def
proof (intro allI impI)
  fix root pre mid post
  assume r: "wf_json root \<and> get root p = Some (JArr (pre @ mid @ post)) \<and>
    length pre = out \<and> list_all2 equalJson mid bs"
  then have wf: "\<forall>x\<in>set mid. wf_json x" using wf_json_get by fastforce
  have "list_all2 equalJson mid as"
    using r assms wf equalJson_trans by (simp add: list_all2_conv_all_nth) (metis nth_mem)
  then show "\<exists>mid'. apply_ops root [] = Inr (replaceAt root p (JArr (pre @ mid' @ post))) \<and>
      (\<forall>x\<in>set mid'. wf_json x) \<and> list_all2 equalJson mid' as"
    using r wf replaceAt_get[of root p "JArr (pre @ mid @ post)"] by (intro exI[of _ mid]) simp
qed

lemma turns_region_append:
  assumes r1: "turns_region p n1 out bs1 as1"
    and r2: "turns_region p n2 (out + length as1) bs2 as2"
  shows "turns_region p (n1 @ n2) out (bs1 @ bs2) (as1 @ as2)"
  unfolding turns_region_def
proof (intro allI impI)
  fix root pre mid post
  assume r: "wf_json root \<and> get root p = Some (JArr (pre @ mid @ post)) \<and>
    length pre = out \<and> list_all2 equalJson mid (bs1 @ bs2)"
  then obtain m1 m2 where m: "mid = m1 @ m2" "list_all2 equalJson m1 bs1" "list_all2 equalJson m2 bs2"
    by (auto simp: list_all2_append2)
  obtain w1 where w1: "apply_ops root n1 = Inr (replaceAt root p (JArr (pre @ w1 @ m2 @ post)))"
    "\<forall>x\<in>set w1. wf_json x" "list_all2 equalJson w1 as1"
    using r1[unfolded turns_region_def, rule_format, of root pre m1 "m2 @ post"] r m by auto
  let ?root1 = "replaceAt root p (JArr (pre @ w1 @ m2 @ post))"
  have wf: "wf_json (JArr (pre @ mid @ post))" using r wf_json_get by blast
  have "wf_json ?root1" using wf r w1(2) m(1) by (intro wf_json_replaceAt) auto
  moreover have "get ?root1 p = Some (JArr ((pre @ w1) @ m2 @ post))" using r get_replaceAt by simp
  moreover have "length (pre @ w1) = out + length as1" using r list_all2_lengthD[OF w1(3)] by simp
  ultimately obtain w2 where w2: "apply_ops ?root1 n2 = Inr (replaceAt ?root1 p (JArr ((pre @ w1) @ w2 @ post)))"
    "\<forall>x\<in>set w2. wf_json x" "list_all2 equalJson w2 as2"
    using r2[unfolded turns_region_def, rule_format, of ?root1 "pre @ w1" m2 post] m(3) by blast
  have "replaceAt ?root1 p (JArr ((pre @ w1) @ w2 @ post)) = replaceAt root p (JArr (pre @ (w1 @ w2) @ post))"
    using r replaceAt_replaceAt by simp
  then show "\<exists>mid'. apply_ops root (n1 @ n2) = Inr (replaceAt root p (JArr (pre @ mid' @ post))) \<and>
      (\<forall>x\<in>set mid'. wf_json x) \<and> list_all2 equalJson mid' (as1 @ as2)"
    using w1 w2 by (intro exI[of _ "w1 @ w2"]) (auto simp: apply_ops_append list_all2_appendI)
qed

lemma appends_region_trans:
  "appends st st1 (\<lambda>new. turns_region p new out bs1 as1) \<Longrightarrow>
   appends st1 st2 (\<lambda>new. turns_region p new (out + length as1) bs2 as2) \<Longrightarrow>
   appends st st2 (\<lambda>new. turns_region p new out (bs1 @ bs2) (as1 @ as2))"
  by (rule appends_trans, assumption, assumption) (rule turns_region_append)

lemma turns_region_single:
  assumes "turns (p @ [Idx (int out)]) new b a"
  shows "turns_region p new out [b] [a]"
  unfolding turns_region_def
proof (intro allI impI)
  fix root pre mid post
  assume r: "wf_json root \<and> get root p = Some (JArr (pre @ mid @ post)) \<and>
    length pre = out \<and> list_all2 equalJson mid [b]"
  then obtain v where v: "mid = [v]" "equalJson v b" by (auto simp: list_all2_Cons2)
  have at: "get root p = Some (JArr (pre @ v # post))" using r v by simp
  have "get root (p @ [Idx (int out)]) = Some v" using r v by (auto simp: get_append nth_append)
  then obtain w where w: "apply_ops root new = Inr (replaceAt root (p @ [Idx (int out)]) w)"
    "wf_json w" "equalJson w a" using assms r v unfolding turns_def by blast
  have "replaceAt root (p @ [Idx (int out)]) w = replaceAt root p (JArr (pre @ [w] @ post))"
    using r at by (auto simp: replaceAt_append nth_append list_update_append)
  then show "\<exists>mid'. apply_ops root new = Inr (replaceAt root p (JArr (pre @ mid' @ post))) \<and>
      (\<forall>x\<in>set mid'. wf_json x) \<and> list_all2 equalJson mid' [a]"
    using w by (intro exI[of _ "[w]"]) simp
qed

lemma turns_region_splice:
  assumes "list_all safe_seg p" and "\<forall>a\<in>set as. wf_json a"
  shows "turns_region p [OpP p (int out) (int (length bs)) as] out bs as"
  unfolding turns_region_def
proof (intro allI impI)
  fix root pre mid post
  assume r: "wf_json root \<and> get root p = Some (JArr (pre @ mid @ post)) \<and>
    length pre = out \<and> list_all2 equalJson mid bs"
  have "length mid = length bs" using r list_all2_lengthD by blast
  then have "apply_op (JArr (pre @ mid @ post)) (OpP [] (int out) (int (length bs)) as) = Inr (JArr (pre @ as @ post))"
    using r by (simp add: apply_op_eq at_array_def splice_array_eq js_splice_def)
  then have "apply_op root (under p (OpP [] (int out) (int (length bs)) as)) = Inr (replaceAt root p (JArr (pre @ as @ post)))"
    using apply_op_under[of root p "JArr (pre @ mid @ post)"] r assms(1) by simp
  then show "\<exists>mid'. apply_ops root [OpP p (int out) (int (length bs)) as] = Inr (replaceAt root p (JArr (pre @ mid' @ post))) \<and>
      (\<forall>x\<in>set mid'. wf_json x) \<and> list_all2 equalJson mid' as"
    using assms(2) by (intro exI[of _ as]) (simp add: under_simps list.rel_refl_strong)
qed

text \<open>A region that is the whole array.\<close>

lemma turns_array:
  assumes "turns_region p new 0 bs as"
  shows "turns p new (JArr bs) (JArr as)"
proof (rule turnsI)
  fix root v assume r: "wf_json root" "get root p = Some v" "equalJson v (JArr bs)"
  then obtain mid where v: "v = JArr mid" "list_all2 equalJson mid bs" by (cases v) auto
  then obtain mid' where "apply_ops root new = Inr (replaceAt root p (JArr mid'))"
    "\<forall>x\<in>set mid'. wf_json x" "list_all2 equalJson mid' as"
    using assms[unfolded turns_region_def, rule_format, of root "[]" mid "[]"] r by auto
  then show "\<exists>w. apply_ops root new = Inr (replaceAt root p w) \<and> wf_json w \<and> equalJson w (JArr as)"
    by (intro exI[of _ "JArr mid'"]) (simp add: list_all2_lengthD)
qed

subsection \<open>Strings\<close>

lemma index_of_Some: "index_of t head from = Some k \<Longrightarrow> k < length t"
  by (auto simp: index_of_def find_Some_iff)

lemma probe_head_correct:
  "probe_head tail b head mc tried from = Some n \<Longrightarrow>
   0 < n \<and> n \<le> length tail \<and> n \<le> length b \<and> drop (length tail - n) tail = take n b"
proof (induction tail b head mc tried "from" rule: probe_head.induct)
  case (1 tail b head mc tried "from")
  then obtain k where k: "index_of tail head from = Some k"
    by (subst (asm) (2) probe_head.simps) (auto split: option.splits)
  have lt: "k < length tail" using index_of_Some[OF k] .
  have mc: "\<not> tried + 1 > mc"
    using 1(2) k by (subst (asm) probe_head.simps) (auto split: if_splits)
  show ?case
  proof (cases "length tail - k \<le> length b \<and> drop k tail = take (length tail - k) b")
    case True
    then have "n = length tail - k"
      using 1(2) k mc by (subst (asm) probe_head.simps) (simp add: Let_def)
    then show ?thesis using True lt by simp
  next
    case False
    then have "probe_head tail b head mc (tried + 1) (k + 1) = Some n"
      using 1(2) k mc by (subst (asm) probe_head.simps) (auto simp: Let_def split: if_splits)
    then show ?thesis using 1(1)[OF k mc refl False] by simp
  qed
qed

text \<open>
  The overlap that is returned is one: that many characters at the end of the old text are the
  start of the new text, whatever the bounds on the search. Giving up returns none.
\<close>

theorem overlap_correct:
  "overlap a b scan probe maxCandidates \<le> length a \<and> overlap a b scan probe maxCandidates \<le> length b \<and>
   drop (length a - overlap a b scan probe maxCandidates) a = take (overlap a b scan probe maxCandidates) b"
proof -
  define tail where "tail = (if length a > scan then drop (length a - scan) a else a)"
  have tail: "\<exists>pre. a = pre @ tail"
    by (auto simp: tail_def intro: exI[of _ "take (length a - scan) a"])
  have ok: "n \<le> length a \<and> n \<le> length b \<and> drop (length a - n) a = take n b"
    if "probe_head tail b head maxCandidates 0 0 = Some n" for head n
  proof -
    obtain pre where a: "a = pre @ tail" using tail by blast
    note n = probe_head_correct[OF that]
    then have "length a - n = length pre + (length tail - n)" using a by simp
    then have "drop (length a - n) a = drop (length tail - n) tail" by (simp only:) (simp add: a)
    then show ?thesis using n a by simp
  qed
  show ?thesis
    unfolding overlap_def Let_def tail_def[symmetric]
    by (auto split: option.splits dest: ok)
qed

lemma apply_text:
  assumes g: "get root p = Some (JStr s)" and p: "p \<noteq> []" "list_all safe_seg p"
  shows "apply_op root (OpA p t) = Inr (replaceAt root p (JStr (s @ t)))"
    and "apply_op root (OpT p (int n)) = Inr (replaceAt root p (JStr (drop n s)))"
proof -
  obtain q sg where q: "p = q @ [sg]" using p(1) by (cases p rule: rev_cases) auto
  obtain c where c: "get root q = Some c" "child c sg = Some (JStr s)"
    using g q by (auto simp: get_append bind_eq_Some_conv split: option.splits)
  have sg: "safe_seg sg" "list_all safe_seg q" using p q by auto
  have at: "check_key c sg = Inr ()" "resolve c [] = Inr c"
    using c(2) child_isObj[OF c(2)] by (cases c; cases sg; auto simp: resolve_def split: if_splits)+
  have "apply_op c (OpA [sg] t) = Inr (set_child c sg (JStr (s @ t)))"
    "apply_op c (OpT [sg] (int n)) = Inr (set_child c sg (JStr (drop n s)))"
    using c(2) at sg by (simp_all add: apply_op_eq at_parent_def edit_text_def)
  then have "apply_op root (under q (OpA [sg] t)) = Inr (replaceAt root q (set_child c sg (JStr (s @ t))))"
    "apply_op root (under q (OpT [sg] (int n))) = Inr (replaceAt root q (set_child c sg (JStr (drop n s))))"
    using apply_op_under[OF c(1) sg(2)] sg(1) by simp_all
  then show "apply_op root (OpA p t) = Inr (replaceAt root p (JStr (s @ t)))"
    "apply_op root (OpT p (int n)) = Inr (replaceAt root p (JStr (drop n s)))"
    using c q by (simp_all add: under_simps replaceAt_append)
qed

lemma turns_text:
  assumes p: "p \<noteq> []" "list_all safe_seg p"
  shows "turns p [OpA p t] (JStr s) (JStr (s @ t))" and "turns p [OpT p (int n)] (JStr s) (JStr (drop n s))"
  using apply_text[OF _ p] by (auto intro!: turnsI simp: equalJson_prim)

lemma turns_trans:
  assumes "turns p n1 u v" and "turns p n2 v w"
  shows "turns p (n1 @ n2) u w"
proof (rule turnsI)
  fix root x assume r: "wf_json root" "get root p = Some x" "equalJson x u"
  then obtain y where y: "apply_ops root n1 = Inr (replaceAt root p y)" "wf_json y" "equalJson y v"
    using assms(1) unfolding turns_def by blast
  then obtain z where "apply_ops (replaceAt root p y) n2 = Inr (replaceAt (replaceAt root p y) p z)"
    "wf_json z" "equalJson z w"
    using assms(2) r unfolding turns_def by (meson get_replaceAt wf_json_replaceAt)
  then show "\<exists>w'. apply_ops root (n1 @ n2) = Inr (replaceAt root p w') \<and> wf_json w' \<and> equalJson w' w"
    using y r replaceAt_replaceAt[OF r(2)] by (auto simp: apply_ops_append)
qed

lemma emitString_turns:
  assumes p: "p \<noteq> []" "list_all safe_seg p"
  shows "appends st (emitString s t p st) (\<lambda>new. turns p new (JStr s) (JStr t))"
proof -
  define n where "n = overlap s t DEFAULT_OVERLAP_SCAN 64 8"
  have n: "n \<le> length s" "n \<le> length t" "drop (length s - n) s = take n t"
    using overlap_correct[of s t DEFAULT_OVERLAP_SCAN 64 8] by (simp_all add: n_def)
  let ?P = "\<lambda>new. turns p new (JStr s) (JStr t)"
  have drp: "turns p [OpT p (int (length s - n))] (JStr s) (JStr (take n t))"
    using turns_text(2)[OF p, of "length s - n" s] n(3) by simp
  have app: "turns p [OpA p (drop n t)] (JStr (take n t)) (JStr t)"
    using turns_text(1)[OF p, of "drop n t" "take n t"] by simp
  have tail: "?P [OpA p (drop (length s) t)]" if "take (length s) t = s"
    using turns_text(1)[OF p, of "drop (length s) t" s] that append_take_drop_id[of "length s" t] by simp
  let ?st1 = "emitOperation (OpT p (int (length s - n))) st"
  have one: "appends st ?st1 (\<lambda>new. turns p new (JStr s) (JStr (take n t)))"
    using drp by (rule appends_emit)
  have two: "appends st (emitOperation (OpA p (drop n t)) ?st1) ?P"
    by (rule appends_trans[OF one appends_emit[where P = "\<lambda>new. turns p new (JStr (take n t)) (JStr t)", OF app]])
       (rule turns_trans)
  consider "s = t" | "s \<noteq> t" "length t > length s \<and> take (length s) t = s"
    | "s \<noteq> t" "\<not> (length t > length s \<and> take (length s) t = s)" "n = 0"
    | "s \<noteq> t" "\<not> (length t > length s \<and> take (length s) t = s)" "n \<noteq> 0" by blast
  then show ?thesis
  proof cases
    case 1
    then show ?thesis by (simp add: emitString_def appends_same turns_same)
  next
    case 2
    have "?P [OpA p (drop (length s) t)]" using tail 2 by simp
    then show ?thesis using 2 appends_emit[where P = ?P] by (simp add: emitString_def)
  next
    case 3
    have "?P [OpS p (JStr t)]" using turns_set[of "JStr t" p "JStr s"] p by simp
    then show ?thesis unfolding emitString_def Let_def n_def[symmetric]
      using 3 appends_emit[where P = ?P] by auto
  next
    case 4
    show ?thesis
    proof (cases "length t > n")
      case True
      then show ?thesis unfolding emitString_def Let_def n_def[symmetric] using 4 two by auto
    next
      case False
      then have "take n t = t" by simp
      then show ?thesis unfolding emitString_def Let_def n_def[symmetric] using 4 one False by auto
    qed
  qed
qed

subsection \<open>Permutations\<close>

lemma take_positions_correct:
  "take_positions bs used vs = Some order \<Longrightarrow>
   length order = length vs \<and> distinct order \<and> set order \<inter> set used = {} \<and>
   (\<forall>i<length vs. order ! i < length bs \<and> strict_eq (bs ! (order ! i)) (vs ! i))"
proof (induction bs used vs arbitrary: order rule: take_positions.induct)
  case (2 bs used v vs)
  then obtain i rest where i: "find (\<lambda>i. i \<notin> set used \<and> strict_eq (bs ! i) v) [0..<length bs] = Some i"
    "take_positions bs (i # used) vs = Some rest" "order = i # rest"
    by (auto split: option.splits)
  have "i < length bs" "i \<notin> set used" "strict_eq (bs ! i) v" using i(1) by (auto simp: find_Some_iff)
  then show ?case using 2(1)[OF i(1,2)] i(3) by (auto simp: less_Suc_eq_0_disj)
qed simp

lemma permutation_turns:
  assumes "permutation xs ys = Some order" and p: "list_all safe_seg p"
    and st: "\<forall>x\<in>set xs. stored h x" "\<forall>y\<in>set ys. stored h y"
  shows "turns p [OpM p (map int order)] (JArr (map erase xs)) (JArr (map erase ys))"
proof (rule turnsI)
  have len: "length xs = length ys" and perm: "length order = length ys" "distinct order"
    and at: "\<And>i. i < length ys \<Longrightarrow> order ! i < length xs \<and> strict_eq (xs ! (order ! i)) (ys ! i)"
    using assms(1) take_positions_correct[of xs "[]" ys order]
    by (auto simp: permutation_def split: if_splits)
  have eq: "xs ! (order ! i) = ys ! i" if "i < length ys" for i
    using at[OF that] st that by (intro strict_eq_stored) (auto simp: len)
  fix root v
  assume r: "wf_json root" "wf_json v" "get root p = Some v" "equalJson v (JArr (map erase xs))"
  then obtain zs where v: "v = JArr zs" "list_all2 equalJson zs (map erase xs)" by (cases v) auto
  have lz: "length zs = length xs" using list_all2_lengthD[OF v(2)] by simp
  let ?w = "permute_array zs (map int order)"
  have "\<forall>i\<in>set order. i < length order" using at perm len by (auto simp: in_set_conv_nth)
  then have "valid_op (OpM [] (map int order))" using perm(2) by (auto simp: distinct_map)
  then have "apply_op root (under p (OpM [] (map int order))) = Inr (replaceAt root p (JArr ?w))"
    using apply_op_under[OF r(3) p] v lz len perm by (simp add: apply_op_eq at_array_def)
  moreover have "list_all2 equalJson ?w (map erase ys)"
  proof (rule list_all2_all_nthI)
    fix i assume "i < length ?w"
    then have i: "i < length ys" using perm by simp
    then have o: "order ! i < length zs" using at lz by simp
    have "equalJson (zs ! (order ! i)) (map erase xs ! (order ! i))"
      using list_all2_nthD[OF v(2) o] .
    then show "equalJson (?w ! i) (map erase ys ! i)"
      using i o lz eq[OF i] perm by (simp add: permute_array_def)
  qed (use perm in simp)
  moreover have "\<forall>x\<in>set ?w. wf_json x"
  proof -
    have "wf_json (zs ! i)" if "i \<in> set order" for i
    proof -
      have "i < length zs" using that at perm lz len by (auto simp: in_set_conv_nth)
      then show ?thesis using r(2) v(1) by simp
    qed
    then show ?thesis by (auto simp: permute_array_def)
  qed
  ultimately show "\<exists>w. apply_ops root [OpM p (map int order)] = Inr (replaceAt root p w) \<and>
      wf_json w \<and> equalJson w (JArr (map erase ys))"
    using perm by (intro exI[of _ "JArr ?w"]) (simp add: under_simps)
qed

subsection \<open>Objects\<close>

text \<open>Values at the keys of an object, up to \<open>equalJson\<close>.\<close>

definition agrees :: "(string \<times> json) list \<Rightarrow> string \<Rightarrow> rjson option \<Rightarrow> bool" where
  "agrees kvs k v \<longleftrightarrow> rel_option equalJson (map_of kvs k) (map_option erase v)"

definition turns_keys ::
  "path \<Rightarrow> op list \<Rightarrow> (string \<Rightarrow> rjson option) \<Rightarrow> (string \<Rightarrow> rjson option) \<Rightarrow> bool" where
  "turns_keys p new b a \<longleftrightarrow>
     (\<forall>root kvs. wf_json root \<and> get root p = Some (JObj kvs) \<and> (\<forall>k. agrees kvs k (b k)) \<longrightarrow>
       (\<exists>kvs'. apply_ops root new = Inr (replaceAt root p (JObj kvs')) \<and> wf_json (JObj kvs') \<and>
          (\<forall>k. agrees kvs' k (a k))))"

lemma turns_keysI:
  "(\<And>root kvs. wf_json root \<Longrightarrow> wf_json (JObj kvs) \<Longrightarrow> get root p = Some (JObj kvs) \<Longrightarrow>
      (\<And>k. agrees kvs k (b k)) \<Longrightarrow>
      \<exists>kvs'. apply_ops root new = Inr (replaceAt root p (JObj kvs')) \<and> wf_json (JObj kvs') \<and>
        (\<forall>k. agrees kvs' k (a k))) \<Longrightarrow>
   turns_keys p new b a"
  unfolding turns_keys_def using wf_json_get by blast

lemma turns_keys_nil: "turns_keys p [] b b"
proof (rule turns_keysI)
  fix root kvs assume "wf_json (JObj kvs)" "get root p = Some (JObj kvs)" "\<And>k. agrees kvs k (b k)"
  then show "\<exists>kvs'. apply_ops root [] = Inr (replaceAt root p (JObj kvs')) \<and> wf_json (JObj kvs') \<and>
      (\<forall>k. agrees kvs' k (b k))"
    using replaceAt_get[of root p "JObj kvs"] by (intro exI[of _ kvs]) simp
qed

lemma turns_keys_trans:
  assumes "turns_keys p n1 u v" and "turns_keys p n2 v w"
  shows "turns_keys p (n1 @ n2) u w"
proof (rule turns_keysI)
  fix root x assume r: "wf_json root" "get root p = Some (JObj x)" "\<And>k. agrees x k (u k)"
  then obtain y where y: "apply_ops root n1 = Inr (replaceAt root p (JObj y))" "wf_json (JObj y)"
    "\<forall>k. agrees y k (v k)" using assms(1) unfolding turns_keys_def by blast
  then obtain z where "apply_ops (replaceAt root p (JObj y)) n2 = Inr (replaceAt (replaceAt root p (JObj y)) p (JObj z))"
    "wf_json (JObj z)" "\<forall>k. agrees z k (w k)"
    using assms(2) r unfolding turns_keys_def by (meson get_replaceAt wf_json_replaceAt)
  then show "\<exists>z. apply_ops root (n1 @ n2) = Inr (replaceAt root p (JObj z)) \<and> wf_json (JObj z) \<and>
      (\<forall>k. agrees z k (w k))"
    using y r replaceAt_replaceAt[OF r(2)] by (auto simp: apply_ops_append)
qed

lemma appends_keys_trans:
  "appends st st1 (\<lambda>new. turns_keys p new u v) \<Longrightarrow> appends st1 st2 (\<lambda>new. turns_keys p new v w) \<Longrightarrow>
   appends st st2 (\<lambda>new. turns_keys p new u w)"
  by (rule appends_trans, assumption, assumption) (rule turns_keys_trans)

lemma wf_update: "wf_json (JObj kvs) \<Longrightarrow> wf_json w \<Longrightarrow> wf_json (JObj (AList.update k w kvs))"
  using wf_json_set_child[of "JObj kvs" w "Key k"] by simp

text \<open>A key both revisions have.\<close>

lemma turns_keys_diff:
  assumes "turns (p @ [Key k]) new (erase u) (erase v)" and "b k = Some u"
  shows "turns_keys p new b (b(k \<mapsto> v))"
proof (rule turns_keysI)
  fix root kvs assume r: "wf_json root" "wf_json (JObj kvs)" "get root p = Some (JObj kvs)"
    "\<And>k. agrees kvs k (b k)"
  obtain x where x: "map_of kvs k = Some x" "equalJson x (erase u)"
    using r(4)[of k] assms(2) by (auto simp: agrees_def option_rel_Some2)
  have "get root (p @ [Key k]) = Some x" using r(3) x(1) by (simp add: get_append)
  then obtain w where w: "apply_ops root new = Inr (replaceAt root (p @ [Key k]) w)" "wf_json w"
    "equalJson w (erase v)" using assms(1) r(1) x(2) unfolding turns_def by blast
  have "replaceAt root (p @ [Key k]) w = replaceAt root p (JObj (AList.update k w kvs))"
    using r(3) x(1) by (simp add: replaceAt_append)
  moreover have "agrees (AList.update k w kvs) l ((b(k \<mapsto> v)) l)" for l
    using r(4)[of l] w(3) by (simp add: agrees_def)
  ultimately show "\<exists>kvs'. apply_ops root new = Inr (replaceAt root p (JObj kvs')) \<and> wf_json (JObj kvs') \<and>
      (\<forall>l. agrees kvs' l ((b(k \<mapsto> v)) l))"
    using w wf_update[OF r(2) w(2)] by metis
qed

text \<open>A key only the new revision has.\<close>

lemma turns_keys_set:
  assumes "wf_json (erase v)" and p: "list_all safe_seg (p @ [Key k])"
  shows "turns_keys p [OpS (p @ [Key k]) (erase v)] b (b(k \<mapsto> v))"
proof (rule turns_keysI)
  fix root kvs assume r: "wf_json root" "wf_json (JObj kvs)" "get root p = Some (JObj kvs)"
    "\<And>k. agrees kvs k (b k)"
  have "apply_op (JObj kvs) (OpS [Key k] (erase v)) = Inr (JObj (AList.update k (erase v) kvs))"
    using p by (simp add: apply_op_eq at_parent_def resolve_def)
  then have "apply_op root (under p (OpS [Key k] (erase v))) = Inr (replaceAt root p (JObj (AList.update k (erase v) kvs)))"
    using apply_op_under[OF r(3)] p by simp
  moreover have "agrees (AList.update k (erase v) kvs) l ((b(k \<mapsto> v)) l)" for l
    using r(4)[of l] assms(1) by (simp add: agrees_def)
  ultimately show "\<exists>kvs'. apply_ops root [OpS (p @ [Key k]) (erase v)] = Inr (replaceAt root p (JObj kvs')) \<and>
      wf_json (JObj kvs') \<and> (\<forall>l. agrees kvs' l ((b(k \<mapsto> v)) l))"
    using wf_update[OF r(2) assms(1), of k]
    by (intro exI[of _ "AList.update k (erase v) kvs"]) (simp add: under_simps)
qed

text \<open>A key only the old revision has.\<close>

lemma turns_keys_delete:
  assumes p: "list_all safe_seg (p @ [Key k])"
  shows "turns_keys p [OpD (p @ [Key k])] b (b(k := None))"
proof (rule turns_keysI)
  fix root kvs assume r: "wf_json root" "wf_json (JObj kvs)" "get root p = Some (JObj kvs)"
    "\<And>k. agrees kvs k (b k)"
  have "apply_op (JObj kvs) (OpD [Key k]) = Inr (JObj (AList.delete k kvs))"
    using p by (simp add: apply_op_eq at_parent_def resolve_def)
  then have "apply_op root (under p (OpD [Key k])) = Inr (replaceAt root p (JObj (AList.delete k kvs)))"
    using apply_op_under[OF r(3)] p by simp
  moreover have "agrees (AList.delete k kvs) l ((b(k := None)) l)" for l
    using r(4)[of l] by (simp add: agrees_def)
  moreover have "wf_json (JObj (AList.delete k kvs))"
    using r(2) by (auto simp: distinct_delete dest: in_set_deleteD)
  ultimately show "\<exists>kvs'. apply_ops root [OpD (p @ [Key k])] = Inr (replaceAt root p (JObj kvs')) \<and>
      wf_json (JObj kvs') \<and> (\<forall>l. agrees kvs' l ((b(k := None)) l))"
    by (intro exI[of _ "AList.delete k kvs"]) (simp add: under_simps)
qed

lemma turns_object:
  assumes keys: "turns_keys p new (map_of kvs) (map_of lws)"
    and d: "distinct (map fst kvs)" "distinct (map fst lws)"
  shows "turns p new (erase (RObj r kvs)) (erase (RObj s lws))"
proof (rule turnsI)
  fix root v assume r: "wf_json root" "wf_json v" "get root p = Some v" "equalJson v (erase (RObj r kvs))"
  then obtain xs where v: "v = JObj xs" by (cases v) auto
  have "agrees xs k (map_of kvs k)" for k
    using equalJson_objD[of xs "map (\<lambda>kv. (fst kv, erase (snd kv))) kvs" k] r(2,4) v d(1)
    by (simp add: agrees_def map_of_erase comp_def)
  then obtain ys where ys: "apply_ops root new = Inr (replaceAt root p (JObj ys))" "wf_json (JObj ys)"
    "\<forall>k. agrees ys k (map_of lws k)"
    using keys r v unfolding turns_keys_def by blast
  have "equalJson (JObj ys) (erase (RObj s lws))"
    unfolding erase.simps
    using ys(2,3) d(2) by (intro equalJson_objI) (auto simp: agrees_def map_of_erase comp_def)
  then show "\<exists>w. apply_ops root new = Inr (replaceAt root p w) \<and> wf_json w \<and> equalJson w (erase (RObj s lws))"
    using ys by blast
qed

lemma delete_keys_turns:
  assumes "list_all safe_seg p" and "\<forall>kv\<in>set bs. fst kv \<notin> set RESERVED_SEGMENTS"
  shows "appends st (delete_keys bs as p st)
    (\<lambda>new. turns_keys p new b (\<lambda>k. if k \<in> fst ` set bs \<and> map_of as k = None then None else b k))"
  using assms(2)
proof (induction bs arbitrary: st b)
  case Nil
  then show ?case by (simp add: appends_same turns_keys_nil)
next
  case (Cons kv bs)
  obtain k v where kv: "kv = (k, v)" by (cases kv)
  show ?case
  proof (cases "snd st")
    case False
    let ?P = "\<lambda>new. turns_keys p new b (if map_of as k = None then b(k := None) else b)"
    let ?st1 = "if map_of as k = None then emitOperation (OpD (p @ [Key k])) st else st"
    have one: "appends st ?st1 ?P"
      using turns_keys_delete[of p k b] assms(1) Cons.prems kv
      by (auto intro!: appends_emit appends_same turns_keys_nil)
    have eq: "(\<lambda>l. if l \<in> fst ` set bs \<and> map_of as l = None then None
        else (if map_of as k = None then b(k := None) else b) l)
      = (\<lambda>l. if l \<in> fst ` set (kv # bs) \<and> map_of as l = None then None else b l)"
      using kv by (auto simp: fun_eq_iff)
    have two: "appends ?st1 (delete_keys bs as p ?st1) (\<lambda>new. turns_keys p new
        (if map_of as k = None then b(k := None) else b)
        (\<lambda>l. if l \<in> fst ` set (kv # bs) \<and> map_of as l = None then None else b l))"
      unfolding eq[symmetric] using Cons.prems by (intro Cons.IH) simp
    show ?thesis
      using appends_keys_trans[OF one two] False kv by simp
  qed (use kv in \<open>simp add: appends_overflowed\<close>)
qed

subsection \<open>Trimming\<close>

lemma sameValue_sound:
  assumes "sameValue v w" and "stored h v" and "stored h w"
  shows "equalJson (erase v) (erase w)"
proof (cases "strict_eq v w")
  case True
  then have "v = w" using assms(2,3) by (rule strict_eq_stored)
  then show ?thesis using wf_json_erase[OF assms(2)] by simp
next
  case False
  then show ?thesis using assms by (auto simp: sameValue_def intro: r_equalJson_sound)
qed

lemma drop_common_split:
  "drop_common bs as = (bs', as') \<Longrightarrow> \<exists>x y. bs = x @ bs' \<and> as = y @ as' \<and> list_all2 sameValue x y"
proof (induction bs as rule: drop_common.induct)
  case (1 b bs a as)
  show ?case
  proof (cases "sameValue b a")
    case True
    then obtain x y where "bs = x @ bs'" "as = y @ as'" "list_all2 sameValue x y" using 1 by auto
    then show ?thesis using True by (intro exI[of _ "b # x"] exI[of _ "a # y"]) simp
  qed (use 1 in auto)
qed auto

lemma trimmed_split:
  assumes "trimmed bs as = (bs', as')"
  obtains x y z w where "bs = x @ bs' @ z" "as = y @ as' @ w" "list_all2 sameValue x y"
    "list_all2 sameValue z w" "common_prefix bs as = length x"
proof -
  obtain b1 a1 where one: "drop_common bs as = (b1, a1)" by fastforce
  obtain b2 a2 where two: "drop_common (rev b1) (rev a1) = (b2, a2)" by fastforce
  have r: "bs' = rev b2" "as' = rev a2" using assms one two by (simp_all add: trimmed_def)
  obtain x y where x: "bs = x @ b1" "as = y @ a1" "list_all2 sameValue x y"
    using drop_common_split[OF one] by blast
  obtain z w where z: "rev b1 = z @ b2" "rev a1 = w @ a2" "list_all2 sameValue z w"
    using drop_common_split[OF two] by blast
  have "b1 = bs' @ rev z" "a1 = as' @ rev w"
    using z(1,2) r by (metis rev_append rev_rev_ident)+
  moreover have "list_all2 sameValue (rev z) (rev w)" using z(3) by (simp add: list_all2_rev)
  moreover have "common_prefix bs as = length x" using one x(1) by (simp add: common_prefix_def)
  ultimately show thesis using that[of x "rev z" y "rev w"] x by simp
qed

lemma sameValues_sound:
  assumes "list_all2 sameValue xs ys" and "\<forall>x\<in>set xs. stored h x" and "\<forall>y\<in>set ys. stored h y"
  shows "turns_region p [] out (map erase xs) (map erase ys)"
proof (rule turns_region_nil)
  show "list_all2 equalJson (map erase xs) (map erase ys)"
    using assms by (auto simp: list_all2_conv_all_nth intro!: sameValue_sound[where h = h])
qed (use assms wf_json_erase in auto)

text \<open>The operations of a trimmed region are those of the region.\<close>

lemma turns_trimmed:
  assumes t: "trimmed bs as = (bs', as')"
    and st: "\<forall>b\<in>set bs. stored h b" "\<forall>a\<in>set as. stored h a"
    and r: "turns_region p new (out + common_prefix bs as) (map erase bs') (map erase as')"
  shows "turns_region p new out (map erase bs) (map erase as)"
proof -
  obtain x y z w where s: "bs = x @ bs' @ z" "as = y @ as' @ w" "list_all2 sameValue x y"
    "list_all2 sameValue z w" "common_prefix bs as = length x" by (rule trimmed_split[OF t])
  have one: "turns_region p [] out (map erase x) (map erase y)"
    and three: "turns_region p [] (out + length (map erase y) + length (map erase as')) (map erase z) (map erase w)"
    using s st by (auto intro: sameValues_sound)
  have "length x = length y" using s(3) by (rule list_all2_lengthD)
  then have two: "turns_region p new (out + length (map erase y)) (map erase bs') (map erase as')"
    using r s(5) by simp
  show ?thesis
    using turns_region_append[OF one turns_region_append[OF two three]] s(1,2) by simp
qed

lemma stored_slices:
  "trimmed bs as = (bs', as') \<Longrightarrow> \<forall>b\<in>set bs. P b \<Longrightarrow> \<forall>a\<in>set as. P a \<Longrightarrow>
   (\<forall>b\<in>set bs'. P b) \<and> (\<forall>a\<in>set as'. P a)"
  by (erule trimmed_split) auto

lemma set_slice: "set (slice xs i j) \<subseteq> set xs"
  by (auto simp: slice_def dest: in_set_takeD in_set_dropD)

lemma slice_split: "i \<le> j \<Longrightarrow> j < length xs \<Longrightarrow> drop i xs = slice xs i j @ xs ! j # drop (j + 1) xs"
  by (simp add: slice_def Cons_nth_drop_Suc) (metis append_take_drop_id drop_drop le_add_diff_inverse2)

lemma slice_rest: "slice xs i (length xs) = drop i xs"
  by (simp add: slice_def)

subsection \<open>The procedures\<close>

lemma appends_emitSet:
  "stored h v \<Longrightarrow> list_all safe_seg p \<Longrightarrow> appends st (emitSet p v st) (\<lambda>new. turns p new b (erase v))"
  using turns_set[of "erase v" p b] wf_json_erase[of h v] by (simp add: emitSet_def appends_emit)

text \<open>What each of the four procedures guarantees of a call.\<close>

definition value_ok :: "(nat \<Rightarrow> rjson) \<Rightarrow> rjson \<Rightarrow> rjson \<Rightarrow> path \<Rightarrow> batch \<Rightarrow> bool" where
  "value_ok h b a p st \<longleftrightarrow> (stored h b \<and> stored h a \<and> list_all safe_seg p \<longrightarrow>
     appends st (diff_value b a p st) (\<lambda>new. turns p new (erase b) (erase a)))"

definition region_ok :: "(nat \<Rightarrow> rjson) \<Rightarrow> rjson list \<Rightarrow> rjson list \<Rightarrow> path \<Rightarrow> nat \<Rightarrow> batch \<Rightarrow> bool" where
  "region_ok h bs as p out st \<longleftrightarrow>
     ((\<forall>b\<in>set bs. stored h b) \<and> (\<forall>a\<in>set as. stored h a) \<and> list_all safe_seg p \<longrightarrow>
      appends st (diff_region bs as p out st) (\<lambda>new. turns_region p new out (map erase bs) (map erase as)))"

definition matches_run_ok ::
  "(nat \<Rightarrow> rjson) \<Rightarrow> rjson list \<Rightarrow> rjson list \<Rightarrow> path \<Rightarrow> nat \<Rightarrow> nat \<Rightarrow> nat \<Rightarrow> array_match list \<Rightarrow> batch \<Rightarrow> bool" where
  "matches_run_ok h bs as p bAt aAt out ms st \<longleftrightarrow>
     ((\<forall>b\<in>set bs. stored h b) \<and> (\<forall>a\<in>set as. stored h a) \<and> list_all safe_seg p \<and>
      matches_ok bAt aAt (length bs) (length as) ms \<longrightarrow>
      appends st (process_matches bs as p bAt aAt out ms st)
        (\<lambda>new. turns_region p new out (map erase (drop bAt bs)) (map erase (drop aAt as))))"

definition keys_ok ::
  "(nat \<Rightarrow> rjson) \<Rightarrow> (string \<times> rjson) list \<Rightarrow> (string \<times> rjson) list \<Rightarrow> path \<Rightarrow> batch \<Rightarrow> bool" where
  "keys_ok h bs as p st \<longleftrightarrow>
     (\<forall>kv\<in>set bs. stored h (snd kv)) \<and> (\<forall>kv\<in>set as. stored h (snd kv)) \<and> list_all safe_seg p \<and>
     distinct (map fst as) \<and> (\<forall>kv\<in>set as. fst kv \<notin> set RESERVED_SEGMENTS) \<longrightarrow>
     (\<forall>b. (\<forall>k\<in>fst ` set as. b k = map_of bs k) \<longrightarrow>
       appends st (diff_keys bs as p st) (\<lambda>new. turns_keys p new b (b ++ map_of as)))"

lemma value_ok_array:
  assumes "\<not> r_equalJson (RArr r xs) (RArr s ys) \<Longrightarrow> array_order xs ys = None \<Longrightarrow> region_ok h xs ys p 0 st"
    and st: "stored h (RArr r xs)" "stored h (RArr s ys)" "list_all safe_seg p"
  shows "appends st
    (if r_equalJson (RArr r xs) (RArr s ys) then st
     else (case array_order xs ys of
         Some order \<Rightarrow> emitOperation (OpM p (map int order)) st
       | None \<Rightarrow> diff_region xs ys p 0 st))
    (\<lambda>new. turns p new (erase (RArr r xs)) (erase (RArr s ys)))"
proof (cases "r_equalJson (RArr r xs) (RArr s ys)")
  case True
  then show ?thesis using st r_equalJson_sound[OF True] wf_json_erase[OF st(1)] wf_json_erase[OF st(2)]
    by (simp only: if_True) (rule appends_same, rule turns_same)
next
  case neq: False
  show ?thesis
  proof (cases "array_order xs ys")
    case None
    have "appends st (diff_region xs ys p 0 st) (\<lambda>new. turns_region p new 0 (map erase xs) (map erase ys))"
      using assms(1)[OF neq None] st by (simp add: region_ok_def)
    then have "appends st (diff_region xs ys p 0 st) (\<lambda>new. turns p new (erase (RArr r xs)) (erase (RArr s ys)))"
      by (rule appends_mono) (simp add: turns_array)
    then show ?thesis using neq None by (simp del: r_equalJson.simps erase.simps)
  next
    case (Some order)
    then have "permutation xs ys = Some order" by (auto simp: array_order_def split: if_splits)
    then have "turns p [OpM p (map int order)] (erase (RArr r xs)) (erase (RArr s ys))"
      using permutation_turns[of xs ys order p h] st by simp
    then show ?thesis using neq Some appends_emit[where P = "\<lambda>new. turns p new (erase (RArr r xs)) (erase (RArr s ys))"]
      by (simp del: r_equalJson.simps erase.simps)
  qed
qed

lemma value_ok_object:
  assumes keys: "\<not> list_ex (\<lambda>k. k \<in> set RESERVED_SEGMENTS) (map fst kvs @ map fst lws) \<Longrightarrow> keys_ok h kvs lws p st"
    and st: "stored h (RObj r kvs)" "stored h (RObj s lws)" and p: "list_all safe_seg p"
  shows "appends st
    (if list_ex (\<lambda>k. k \<in> set RESERVED_SEGMENTS) (map fst kvs @ map fst lws)
     then (if r_equalJson (RObj r kvs) (RObj s lws) then st else emitSet p (RObj s lws) st)
     else delete_keys kvs lws p (diff_keys kvs lws p st))
    (\<lambda>new. turns p new (erase (RObj r kvs)) (erase (RObj s lws)))"
proof (cases "list_ex (\<lambda>k. k \<in> set RESERVED_SEGMENTS) (map fst kvs @ map fst lws)")
  case True
  have "appends st st (\<lambda>new. turns p new (erase (RObj r kvs)) (erase (RObj s lws)))"
    if "r_equalJson (RObj r kvs) (RObj s lws)"
    using r_equalJson_sound[OF that st] wf_json_erase[OF st(1)] wf_json_erase[OF st(2)]
    by (intro appends_same turns_same)
  then show ?thesis using True appends_emitSet[OF st(2) p] by simp
next
  case False
  then have res: "\<forall>kv\<in>set kvs. fst kv \<notin> set RESERVED_SEGMENTS" "\<forall>kv\<in>set lws. fst kv \<notin> set RESERVED_SEGMENTS"
    by (auto simp: list_ex_iff)
  have one: "appends st (diff_keys kvs lws p st) (\<lambda>new. turns_keys p new (map_of kvs) (map_of kvs ++ map_of lws))"
    using keys[OF False] st p res by (auto simp: keys_ok_def)
  have "(\<lambda>k. if k \<in> fst ` set kvs \<and> map_of lws k = None then None else (map_of kvs ++ map_of lws) k) = map_of lws"
  proof
    fix k
    show "(if k \<in> fst ` set kvs \<and> map_of lws k = None then None else (map_of kvs ++ map_of lws) k) = map_of lws k"
    proof (cases "map_of lws k")
      case None
      then show ?thesis by (cases "map_of kvs k") (force simp: map_add_def dest: map_of_SomeD)+
    qed (simp add: map_add_def)
  qed
  then have "appends st (delete_keys kvs lws p (diff_keys kvs lws p st))
      (\<lambda>new. turns_keys p new (map_of kvs) (map_of lws))"
    using appends_keys_trans[OF one delete_keys_turns[OF p res(1), of _ lws "map_of kvs ++ map_of lws"]] by simp
  then have "appends st (delete_keys kvs lws p (diff_keys kvs lws p st))
      (\<lambda>new. turns p new (erase (RObj r kvs)) (erase (RObj s lws)))"
    by (rule appends_mono) (rule turns_object, use st in auto)
  then show ?thesis using False by simp
qed

lemma appends_through:
  "snd st \<or> appends st st' P \<Longrightarrow> appends st (if snd st then st else st') P"
  by (auto simp: appends_overflowed)

lemma procedures_ok:
  "value_ok h b a p st"
  "region_ok h bs as p out st"
  "matches_run_ok h bs as p bAt aAt out ms st"
  "keys_ok h kvs lws p st"
proof (induction b a p st and bs as p out st and bs as p bAt aAt out ms st and kvs lws p st
    rule: diff_value_diff_region_process_matches_diff_keys.induct)
  case (1 b a p st)
  note IH = 1
  show ?case unfolding value_ok_def
  proof (intro impI, elim conjE)
    assume st: "stored h b" "stored h a" and p: "list_all safe_seg p"
    let ?goal = "\<lambda>st'. appends st st' (\<lambda>new. turns p new (erase b) (erase a))"
    show "?goal (diff_value b a p st)"
    proof (cases "strict_eq b a \<or> snd st")
      case True
      have "?goal st"
      proof (cases "snd st")
        case False
        then have "b = a" using True st by (auto intro: strict_eq_stored)
        then show ?thesis using wf_json_erase[OF st(1)] by (intro appends_same turns_same) simp_all
      qed (simp add: appends_overflowed)
      then show ?thesis using True by (subst diff_value.simps) simp
    next
      case go: False
      have set: "?goal (emitSet p a st)" by (rule appends_emitSet[OF st(2) p])
      consider s t where "b = RStr s" "a = RStr t" | r xs s ys where "b = RArr r xs" "a = RArr s ys"
        | r kvs s lws where "b = RObj r kvs" "a = RObj s lws"
        | "diff_value b a p st = emitSet p a st"
        using go by (cases b; cases a; simp add: diff_value.simps)
      then show ?thesis
      proof cases
        case (1 s t)
        show ?thesis
        proof (cases "p = []")
          case False
          then show ?thesis using emitString_turns[OF False p, of st s t] 1 go
            by (subst diff_value.simps) simp
        qed (use 1 go set in \<open>subst diff_value.simps, simp\<close>)
      next
        case (2 r xs s ys)
        have "\<not> r_equalJson (RArr r xs) (RArr s ys) \<Longrightarrow> array_order xs ys = None \<Longrightarrow> region_ok h xs ys p 0 st"
          using IH(1)[OF go] 2 by blast
        from value_ok_array[OF this] st p go 2 show ?thesis
          by (subst diff_value.simps) (simp del: r_equalJson.simps erase.simps stored.simps strict_eq.simps)
      next
        case (3 r kvs s lws)
        have "\<not> list_ex (\<lambda>k. k \<in> set RESERVED_SEGMENTS) (map fst kvs @ map fst lws) \<Longrightarrow> keys_ok h kvs lws p st"
          using IH(2)[OF go] 3 by blast
        from value_ok_object[OF this] st p go show ?thesis unfolding 3
          by (subst diff_value.simps)
            (simp del: r_equalJson.simps erase.simps stored.simps strict_eq.simps list_ex_append
              split del: if_split)
      next
        case 4
        then show ?thesis using set by simp
      qed
    qed
  qed
next
  case (2 bs as p out st)
  show ?case unfolding region_ok_def
  proof (intro impI, elim conjE)
    assume st: "\<forall>b\<in>set bs. stored h b" "\<forall>a\<in>set as. stored h a" and p: "list_all safe_seg p"
    let ?goal = "\<lambda>st'. appends st st' (\<lambda>new. turns_region p new out (map erase bs) (map erase as))"
    obtain bs' as' where t: "trimmed bs as = (bs', as')" by fastforce
    have parts: "bs' = fst (trimmed bs as)" "as' = snd (trimmed bs as)" by (simp_all add: t)
    define at where "at = out + common_prefix bs as"
    have st': "\<forall>b\<in>set bs'. stored h b" "\<forall>a\<in>set as'. stored h a"
      using stored_slices[OF t, of "stored h"] st by blast+
    have lift: "?goal st'" if "appends st st' (\<lambda>new. turns_region p new at (map erase bs') (map erase as'))" for st'
      using that by (rule appends_mono) (rule turns_trimmed[OF t st], simp add: at_def)
    have splice: "appends st (emitOperation (OpP p (int at) (int (length bs')) (map erase as')) st)
        (\<lambda>new. turns_region p new at (map erase bs') (map erase as'))"
      using turns_region_splice[OF p, of "map erase as'" at "map erase bs'"] st' wf_json_erase
      by (intro appends_emit) auto
    show "?goal (diff_region bs as p out st)"
    proof (cases "snd st")
      case True
      then show ?thesis by (subst diff_region.simps) (simp add: appends_overflowed)
    next
      case go: False
      show ?thesis
      proof (cases "bs' = [] \<or> as' = []")
        case True
        have "appends st st (\<lambda>new. turns_region p new at (map erase []) (map erase []))"
          by (intro appends_same turns_region_nil) simp_all
        then show ?thesis
          using True go lift splice t by (subst diff_region.simps) (auto simp: at_def Let_def)
      next
        case ne: False
        show ?thesis
        proof (cases "region_matches bs' as' = []")
          case False
          have "matches_run_ok h bs' as' p 0 0 at (region_matches bs' as') st"
            using 2(1)[OF go parts at_def _ _ refl False] ne by simp
          then have "appends st (process_matches bs' as' p 0 0 at (region_matches bs' as') st)
              (\<lambda>new. turns_region p new at (map erase bs') (map erase as'))"
            using st' p region_matches_ok by (simp add: matches_run_ok_def)
          then show ?thesis using go t ne False lift
            by (subst diff_region.simps) (simp add: at_def Let_def)
        next
          case no: True
          show ?thesis
          proof (cases "length bs' = 1 \<and> length as' = 1")
            case True
            then obtain b a where ba: "bs' = [b]" "as' = [a]" by (auto simp: length_Suc_conv)
            have "value_ok h (hd bs') (hd as') (p @ [Idx (int at)]) st"
              using 2(2)[OF go parts at_def _ _ refl _ True] ne no by simp
            then have "value_ok h b a (p @ [Idx (int at)]) st" using ba by simp
            then have "appends st (diff_value b a (p @ [Idx (int at)]) st)
                (\<lambda>new. turns_region p new at (map erase bs') (map erase as'))"
              using st' p ba by (auto simp: value_ok_def intro: turns_region_single elim!: appends_mono)
            then show ?thesis using go t ne no ba lift
              by (subst diff_region.simps) (simp add: at_def Let_def)
          next
            case False
            then have "diff_region bs as p out st = emitOperation (OpP p (int at) (int (length bs')) (map erase as')) st"
              using go t ne no by (subst diff_region.simps) (auto simp: at_def Let_def split: list.splits)
            then show ?thesis using lift[OF splice] by simp
          qed
        qed
      qed
    qed
  qed
next
  case (3 bs as p bAt aAt out st)
  show ?case unfolding matches_run_ok_def
  proof (intro impI, elim conjE)
    assume st: "\<forall>b\<in>set bs. stored h b" "\<forall>a\<in>set as. stored h a" and p: "list_all safe_seg p"
    show "appends st (process_matches bs as p bAt aAt out [] st)
        (\<lambda>new. turns_region p new out (map erase (drop bAt bs)) (map erase (drop aAt as)))"
      using 3 st p by (auto simp: process_matches.simps region_ok_def slice_rest
          dest: in_set_dropD intro: appends_overflowed)
  qed
next
  case (4 bs as p bAt aAt out b a ms st)
  show ?case unfolding matches_run_ok_def
  proof (intro impI, elim conjE)
    assume st: "\<forall>b\<in>set bs. stored h b" "\<forall>a\<in>set as. stored h a" and p: "list_all safe_seg p"
      and ok: "matches_ok bAt aAt (length bs) (length as) ((b, a) # ms)"
    show "appends st (process_matches bs as p bAt aAt out ((b, a) # ms) st)
        (\<lambda>new. turns_region p new out (map erase (drop bAt bs)) (map erase (drop aAt as)))"
    proof (cases "snd st")
      case True
      then show ?thesis by (simp add: process_matches.simps appends_overflowed)
    next
      case go: False
      define st1 where "st1 = diff_region (slice bs bAt b) (slice as aAt a) p out st"
      define at where "at = out + (a - aAt)"
      define st2 where "st2 = (if sameValue (bs ! b) (as ! a) then st1
        else diff_value (bs ! b) (as ! a) (p @ [Idx (int at)]) st1)"
      have len: "length (slice as aAt a) = a - aAt" using ok by (auto simp: length_slice)
      have nth: "stored h (bs ! b)" "stored h (as ! a)" using st ok by simp_all
      have one: "appends st st1 (\<lambda>new. turns_region p new out (map erase (slice bs bAt b)) (map erase (slice as aAt a)))"
        using 4(1)[OF go] st p set_slice[of bs bAt b] set_slice[of as aAt a]
        by (auto simp: region_ok_def st1_def)
      have two: "appends st1 st2 (\<lambda>new. turns_region p new at [erase (bs ! b)] [erase (as ! a)])"
      proof (cases "sameValue (bs ! b) (as ! a)")
        case True
        then show ?thesis using sameValue_sound[OF True nth] nth wf_json_erase
          by (auto simp: st2_def intro!: appends_same turns_region_nil)
      next
        case False
        have "value_ok h (bs ! b) (as ! a) (p @ [Idx (int at)]) st1"
          using 4(2)[OF go st1_def at_def False] .
        then show ?thesis using nth p False
          by (auto simp: value_ok_def st2_def intro: turns_region_single elim!: appends_mono)
      qed
      have three: "appends st2 (process_matches bs as p (b + 1) (a + 1) (at + 1) ms st2)
          (\<lambda>new. turns_region p new (at + 1) (map erase (drop (b + 1) bs)) (map erase (drop (a + 1) as)))"
        using 4(3)[OF go st1_def at_def st2_def] st p ok by (simp add: matches_run_ok_def)
      have "appends st1 (process_matches bs as p (b + 1) (a + 1) (at + 1) ms st2)
          (\<lambda>new. turns_region p new (out + length (map erase (slice as aAt a)))
            ([erase (bs ! b)] @ map erase (drop (b + 1) bs)) ([erase (as ! a)] @ map erase (drop (a + 1) as)))"
        using appends_region_trans[OF two, of "process_matches bs as p (b + 1) (a + 1) (at + 1) ms st2"] three len
        by (simp add: at_def)
      from appends_region_trans[OF one this]
      have "appends st (process_matches bs as p (b + 1) (a + 1) (at + 1) ms st2)
          (\<lambda>new. turns_region p new out (map erase (drop bAt bs)) (map erase (drop aAt as)))"
        using slice_split[of bAt b bs] slice_split[of aAt a as] ok by simp
      moreover have "process_matches bs as p bAt aAt out ((b, a) # ms) st
          = process_matches bs as p (b + 1) (a + 1) (at + 1) ms st2"
        using go by (subst process_matches.simps) (simp add: Let_def st1_def st2_def at_def)
      ultimately show ?thesis by simp
    qed
  qed
next
  case (5 bs p st)
  show ?case by (simp add: keys_ok_def diff_keys.simps appends_same turns_keys_nil)
next
  case (6 bs k v as p st)
  show ?case unfolding keys_ok_def
  proof (intro impI allI, elim conjE)
    fix b
    assume st: "\<forall>kv\<in>set bs. stored h (snd kv)" "\<forall>kv\<in>set ((k, v) # as). stored h (snd kv)"
      and p: "list_all safe_seg p" and d: "distinct (map fst ((k, v) # as))"
      and res: "\<forall>kv\<in>set ((k, v) # as). fst kv \<notin> set RESERVED_SEGMENTS"
      and b: "\<forall>l\<in>fst ` set ((k, v) # as). b l = map_of bs l"
    show "appends st (diff_keys bs ((k, v) # as) p st) (\<lambda>new. turns_keys p new b (b ++ map_of ((k, v) # as)))"
    proof (cases "snd st")
      case True
      then show ?thesis by (simp add: diff_keys.simps appends_overflowed)
    next
      case go: False
      define st1 where "st1 = (case map_of bs k of
          Some u \<Rightarrow> diff_value u v (p @ [Key k]) st | None \<Rightarrow> emitSet (p @ [Key k]) v st)"
      have pk: "list_all safe_seg (p @ [Key k])" using p res by simp
      have one: "appends st st1 (\<lambda>new. turns_keys p new b (b(k \<mapsto> v)))"
      proof (cases "map_of bs k")
        case None
        then show ?thesis using turns_keys_set[OF _ pk, of v b] wf_json_erase[of h v] st(2)
          by (simp add: st1_def emitSet_def appends_emit)
      next
        case (Some u)
        then have "value_ok h u v (p @ [Key k]) st" by (rule 6(1)[OF go])
        then have "appends st st1 (\<lambda>new. turns (p @ [Key k]) new (erase u) (erase v))"
          using Some st stored_map_of[OF st(1) Some] pk by (simp add: value_ok_def st1_def)
        then show ?thesis by (rule appends_mono) (rule turns_keys_diff, use b Some in auto)
      qed
      have "keys_ok h bs as p st1" unfolding st1_def by (rule 6(2)[OF go])
      then have two: "appends st1 (diff_keys bs as p st1)
          (\<lambda>new. turns_keys p new (b(k \<mapsto> v)) (b(k \<mapsto> v) ++ map_of as))"
      proof -
        have "\<forall>l\<in>fst ` set as. (b(k \<mapsto> v)) l = map_of bs l" using d b by auto
        then show ?thesis using \<open>keys_ok h bs as p st1\<close> st p d res by (simp add: keys_ok_def)
      qed
      have "b(k \<mapsto> v) ++ map_of as = b ++ map_of ((k, v) # as)"
        using d by (auto simp: fun_eq_iff map_add_def map_of_eq_None_iff[THEN iffD2] split: option.splits)
      then show ?thesis using appends_keys_trans[OF one two] go
        by (simp add: diff_keys.simps st1_def)
    qed
  qed
qed

subsection \<open>The result\<close>

text \<open>
  C26. The delta between two revisions leads from the old one to the new one: applied to the old
  value it succeeds and gives a well-formed document equal to the new value, whichever of string
  edits, array regions, permutations, object keys or the snapshot the diff chose.
\<close>

theorem diffRevisions_correct:
  assumes "stored h before" and "stored h after"
  shows "\<exists>w. apply_ops (erase before) (diffRevisions before after) = Inr w \<and> wf_json w \<and>
    equalJson w (erase after)"
proof -
  obtain ops overflowed where d: "diff_value before after [] ([], False) = (ops, overflowed)" by fastforce
  have wf: "wf_json (erase before)" "wf_json (erase after)" using assms wf_json_erase by blast+
  have snapshot: "\<exists>w. apply_ops (erase before) [OpR (erase after)] = Inr w \<and> wf_json w \<and> equalJson w (erase after)"
    using wf by (simp add: apply_op_eq)
  have delta: "\<exists>w. apply_ops (erase before) ops = Inr w \<and> wf_json w \<and> equalJson w (erase after)"
    if "\<not> overflowed"
  proof -
    have "turns [] ops (erase before) (erase after)"
      using procedures_ok(1)[of h before after "[]" "([], False)"] assms d that
      by (simp add: value_ok_def appends_def)
    then show ?thesis using wf by (fastforce simp: turns_def)
  qed
  show ?thesis using snapshot delta d by (simp add: diffRevisions_def Let_def)
qed

subsection \<open>Equal revisions\<close>

lemma map_of_same_keys:
  assumes "equalJson (erase (RObj r kvs)) (erase (RObj s lws))"
    and d: "distinct (map fst kvs)" "distinct (map fst lws)"
  shows "rel_option (\<lambda>u v. equalJson (erase u) (erase v)) (map_of kvs k) (map_of lws k)"
  using equalJson_objD[OF _ _ assms(1)[unfolded erase.simps], of k] d
  by (simp add: map_of_erase comp_def option.rel_map)

lemma erase_prim:
  "erase v = JNull \<longleftrightarrow> v = RNull" "erase v = JBool b \<longleftrightarrow> v = RBool b"
  "erase v = JNum n \<longleftrightarrow> v = RNum n" "erase v = JStr s \<longleftrightarrow> v = RStr s"
  "JNull = erase v \<longleftrightarrow> v = RNull" "JBool b = erase v \<longleftrightarrow> v = RBool b"
  "JNum n = erase v \<longleftrightarrow> v = RNum n" "JStr s = erase v \<longleftrightarrow> v = RStr s"
  by (cases v; auto)+

lemma r_equalJson_complete:
  "equalJson (erase v) (erase w) \<Longrightarrow> r_equalJson v w"
proof (induction v w rule: r_equalJson.induct)
  case (1 r xs s ys)
  then show ?case by (auto simp: list_all2_conv_all_nth)
next
  case (2 r a s b)
  have "case map_of b (fst kv) of None \<Rightarrow> False | Some w \<Rightarrow> r_equalJson (snd kv) w" if kv: "kv \<in> set a" for kv
  proof -
    obtain w where "map_of b (fst kv) = Some w" "equalJson (erase (snd kv)) (erase w)"
      using 2(2) kv by (fastforce simp: map_of_erase split: option.splits)
    then show ?thesis using 2(1)[OF kv] by simp
  qed
  then show ?case using 2(2) by auto
qed (auto simp: equalJson_prim erase_prim)

lemma delete_keys_none: "(\<And>k. k \<in> fst ` set bs \<Longrightarrow> map_of as k \<noteq> None) \<Longrightarrow> delete_keys bs as p st = st"
  by (induction bs) force+

lemma diff_keys_none:
  "(\<And>k v. (k, v) \<in> set as \<Longrightarrow> \<exists>u. map_of bs k = Some u \<and> (\<forall>p st. diff_value u v p st = st)) \<Longrightarrow>
   diff_keys bs as p st = st"
proof (induction as arbitrary: st)
  case (Cons kv as)
  obtain k v where kv: "kv = (k, v)" by (cases kv)
  obtain u where u: "map_of bs k = Some u" "\<forall>p st. diff_value u v p st = st" using Cons.prems[of k v] kv by auto
  have "diff_keys bs as p st = st" using Cons.prems by (intro Cons.IH) auto
  moreover have "diff_value u v (p @ [Key k]) st = st" using u by blast
  ultimately show ?case using u(1) kv by (simp add: diff_keys.simps)
qed (simp add: diff_keys.simps)

lemma diff_value_equal:
  "stored h b \<Longrightarrow> stored h a \<Longrightarrow> equalJson (erase b) (erase a) \<Longrightarrow> diff_value b a p st = st"
proof (induction b arbitrary: a p st)
  case (RArr r xs)
  then obtain s ys where a: "a = RArr s ys" by (cases a) auto
  then show ?case using r_equalJson_complete[OF RArr.prems(3)]
    by (simp add: diff_value.simps del: r_equalJson.simps)
next
  case (RObj r kvs)
  then obtain s lws where a: "a = RObj s lws" by (cases a) auto
  have d: "distinct (map fst kvs)" "distinct (map fst lws)" using RObj.prems a by auto
  have eq: "equalJson (erase (RObj r kvs)) (erase (RObj s lws))" using RObj.prems(3) a by (simp only:)
  note rel = map_of_same_keys[OF eq d]
  have keys: "map_of lws k \<noteq> None" if "k \<in> fst ` set kvs" for k
    using rel[of k] that d(1) by (auto simp: option_rel_Some1)
  have "\<exists>u. map_of kvs k = Some u \<and> (\<forall>p st. diff_value u v p st = st)" if kv: "(k, v) \<in> set lws" for k v
  proof -
    obtain u where u: "map_of kvs k = Some u" "equalJson (erase u) (erase v)"
      using rel[of k] kv d(2) by (auto simp: option_rel_Some2)
    have "(k, u) \<in> set kvs" using u(1) by (rule map_of_SomeD)
    moreover have "stored h u" "stored h v"
      using stored_map_of[OF _ u(1), of h] RObj.prems(1,2) kv a by auto
    ultimately have "diff_value u v p st = st" for p st
      using RObj.IH[of "(k, u)" u v p st] u(2) by simp
    then show ?thesis using u(1) by blast
  qed
  then have "diff_keys kvs lws p st = st" by (rule diff_keys_none)
  moreover have "delete_keys kvs lws p st = st" using keys by (rule delete_keys_none)
  ultimately show ?case using r_equalJson_complete[OF eq] a
    by (simp add: diff_value.simps del: r_equalJson.simps)
qed (case_tac a; simp add: diff_value.simps emitString_def)+

text \<open>
  C35. The diff is silent exactly when nothing changed: it returns no operation if and only if the two
  revisions are equal as JSON, whatever their identities and the order of their keys.
\<close>

theorem diffRevisions_empty_iff:
  assumes "stored h before" and "stored h after"
  shows "diffRevisions before after = [] \<longleftrightarrow> equalJson (erase before) (erase after)"
proof
  assume "equalJson (erase before) (erase after)"
  then show "diffRevisions before after = []"
    using diff_value_equal[OF assms, of "[]" "([], False)"] by (simp add: diffRevisions_def)
next
  assume "diffRevisions before after = []"
  moreover obtain ops overflowed where d: "diff_value before after [] ([], False) = (ops, overflowed)" by fastforce
  ultimately have "ops = []" "\<not> overflowed"
    by (auto simp: diffRevisions_def Let_def split: if_splits)
  then have "turns [] [] (erase before) (erase after)"
    using procedures_ok(1)[of h before after "[]" "([], False)"] assms d
    by (simp add: value_ok_def appends_def)
  then show "equalJson (erase before) (erase after)"
    using wf_json_erase[OF assms(1)] by (fastforce simp: turns_def)
qed

subsection \<open>The shape of a batch\<close>

text \<open>
  A property of batches that every emission of a non-replacing operation keeps is kept by the
  procedures, except where \<open>diff_value\<close> replaces the root.
\<close>

definition shape :: "batch \<Rightarrow> bool" where
  "shape st \<longleftrightarrow> length (fst st) \<le> MAX_DELTA_OPERATIONS \<and> list_all (\<lambda>op. \<not> is_replace op) (fst st)"

lemma shape_emit: "shape st \<Longrightarrow> \<not> is_replace op \<Longrightarrow> shape (emitOperation op st)"
  by (cases st) (auto simp: shape_def emitOperation_def)

lemma shape_emitSet: "shape st \<Longrightarrow> p \<noteq> [] \<Longrightarrow> shape (emitSet p v st)"
  by (simp add: emitSet_def shape_emit)

lemma shape_emitString: "shape st \<Longrightarrow> shape (emitString s t p st)"
  by (simp add: emitString_def Let_def shape_emit)

lemma shape_delete_keys: "shape st \<Longrightarrow> shape (delete_keys bs as p st)"
proof (induction bs arbitrary: st)
  case (Cons kv bs)
  obtain k v where kv: "kv = (k, v)" by (cases kv)
  have "shape (if map_of as k = None then emitOperation (OpD (p @ [Key k])) st else st)"
    using Cons.prems by (simp add: shape_emit)
  then show ?case using Cons.IH Cons.prems kv by simp
qed simp

lemma shape_procedures:
  "shape st \<Longrightarrow> shape (diff_value b a p st) \<or> p = [] \<and> diff_value b a p st = emitSet [] a st"
  "shape st \<Longrightarrow> shape (diff_region bs as p out st)"
  "shape st \<Longrightarrow> shape (process_matches bs as p bAt aAt out ms st)"
  "shape st \<Longrightarrow> shape (diff_keys kvs lws p st)"
proof (induction b a p st and bs as p out st and bs as p bAt aAt out ms st and kvs lws p st
    rule: diff_value_diff_region_process_matches_diff_keys.induct)
  case (1 b a p st)
  note IH = 1
  show ?case
  proof (cases "strict_eq b a \<or> snd st")
    case True
    then show ?thesis using 1(3) by (subst diff_value.simps) simp
  next
    case go: False
    consider s t where "b = RStr s" "a = RStr t" | r xs s ys where "b = RArr r xs" "a = RArr s ys"
      | r kvs s lws where "b = RObj r kvs" "a = RObj s lws"
      | "diff_value b a p st = emitSet p a st"
      using go by (cases b; cases a; simp add: diff_value.simps)
    then show ?thesis
    proof cases
      case (1 s t)
      then show ?thesis using go IH(3) shape_emitString[of st s t p]
        by (cases "p = []") (simp_all add: diff_value.simps)
    next
      case (2 r xs s ys)
      then show ?thesis using IH(1)[OF go, of r xs s ys] go IH(3)
        by (simp add: diff_value.simps shape_emit del: r_equalJson.simps strict_eq.simps split: option.splits)
    next
      case (3 r kvs s lws)
      have "shape (delete_keys kvs lws p (diff_keys kvs lws p st))"
        if "\<not> list_ex (\<lambda>k. k \<in> set RESERVED_SEGMENTS) (map fst kvs @ map fst lws)"
        using IH(2)[OF go, of r kvs s lws] 3 that IH(3) by (intro shape_delete_keys) blast
      then show ?thesis using go IH(3) shape_emitSet[OF IH(3), of p "RObj s lws"] 3
        by (simp add: diff_value.simps del: r_equalJson.simps strict_eq.simps list_ex_append) blast
    next
      case 4
      then show ?thesis using shape_emitSet[OF IH(3), of p a] by (cases "p = []") simp_all
    qed
  qed
next
  case (2 bs as p out st)
  obtain bs' as' where t: "trimmed bs as = (bs', as')" by fastforce
  have parts: "bs' = fst (trimmed bs as)" "as' = snd (trimmed bs as)" by (simp_all add: t)
  define at where "at = out + common_prefix bs as"
  consider "diff_region bs as p out st = st"
    | "diff_region bs as p out st = emitOperation (OpP p (int at) (int (length bs')) (map erase as')) st"
    | "\<not> snd st" "bs' \<noteq> []" "as' \<noteq> []" "region_matches bs' as' \<noteq> []"
      "diff_region bs as p out st = process_matches bs' as' p 0 0 at (region_matches bs' as') st"
    | "\<not> snd st" "bs' \<noteq> []" "as' \<noteq> []" "region_matches bs' as' = []" "length bs' = 1 \<and> length as' = 1"
      "diff_region bs as p out st = diff_value (hd bs') (hd as') (p @ [Idx (int at)]) st"
    using t diff_region.simps[of bs as p out st]
    by (auto simp: Let_def at_def split: if_splits list.splits)
  then show ?case
  proof cases
    case 3
    then show ?thesis using 2(1)[OF 3(1) parts at_def _ _ refl 3(4)] 2(3) by simp
  next
    case 4
    then show ?thesis using 2(2)[OF 4(1) parts at_def _ _ refl _ 4(5)] 2(3) by simp
  qed (use 2(3) in \<open>simp_all add: shape_emit\<close>)
next
  case (3 bs as p bAt aAt out st)
  then show ?case by (simp add: process_matches.simps)
next
  case (4 bs as p bAt aAt out b a ms st)
  show ?case
  proof (cases "snd st")
    case False
    define st1 where "st1 = diff_region (slice bs bAt b) (slice as aAt a) p out st"
    define st2 where "st2 = (if sameValue (bs ! b) (as ! a) then st1
      else diff_value (bs ! b) (as ! a) (p @ [Idx (int (out + (a - aAt)))]) st1)"
    have "shape st1" using 4(1)[OF False] 4(4) by (simp add: st1_def)
    then have "shape st2" using 4(2)[OF False st1_def refl] by (auto simp: st2_def)
    then have "shape (process_matches bs as p (b + 1) (a + 1) (out + (a - aAt) + 1) ms st2)"
      by (rule 4(3)[OF False st1_def refl st2_def])
    moreover have "process_matches bs as p bAt aAt out ((b, a) # ms) st
        = process_matches bs as p (b + 1) (a + 1) (out + (a - aAt) + 1) ms st2"
      using False by (subst process_matches.simps) (simp add: Let_def st1_def st2_def)
    ultimately show ?thesis by simp
  qed (use 4(4) in \<open>simp add: process_matches.simps\<close>)
next
  case (5 bs p st)
  then show ?case by (simp add: diff_keys.simps)
next
  case (6 bs k v as p st)
  show ?case
  proof (cases "snd st")
    case False
    have "shape (case map_of bs k of Some u \<Rightarrow> diff_value u v (p @ [Key k]) st
        | None \<Rightarrow> emitSet (p @ [Key k]) v st)"
      using 6(1)[OF False] 6(3) by (auto simp: shape_emitSet split: option.splits)
    then show ?thesis using 6(2)[OF False] False by (simp add: diff_keys.simps)
  qed (use 6(3) in \<open>simp add: diff_keys.simps\<close>)
qed

text \<open>
  A delta is bounded and a base is recognised by its first operation: it holds at most 4,096
  operations, and a replacement can only be the first of them.
\<close>

theorem diffRevisions_shape:
  "length (diffRevisions before after) \<le> MAX_DELTA_OPERATIONS \<and>
   list_all (\<lambda>op. \<not> is_replace op) (tl (diffRevisions before after))"
proof -
  obtain ops overflowed where d: "diff_value before after [] ([], False) = (ops, overflowed)" by fastforce
  have "shape ([], False)" by (simp add: shape_def)
  from shape_procedures(1)[OF this, of before after "[]"]
  have "length ops \<le> MAX_DELTA_OPERATIONS \<and> list_all (\<lambda>op. \<not> is_replace op) (tl ops)"
  proof (elim disjE conjE)
    assume "shape (diff_value before after [] ([], False))"
    then show ?thesis using d by (cases ops) (auto simp: shape_def)
  qed (use d in \<open>auto simp: emitSet_def emitOperation_def MAX_DELTA_OPERATIONS_def\<close>)
  moreover have "(1::nat) \<le> MAX_DELTA_OPERATIONS" by (simp add: MAX_DELTA_OPERATIONS_def)
  ultimately show ?thesis by (simp add: diffRevisions_def Let_def d)
qed

subsection \<open>An instance\<close>

definition sample_item :: "nat \<Rightarrow> rjson" where
  "sample_item i = RObj i [(''id'', RNum (int i))]"

definition sample_before :: rjson where
  "sample_before = RObj 10
     [(''log'', RStr ''ab''), (''items'', RArr 11 [sample_item 1, sample_item 2, sample_item 3]), (''old'', RNull)]"

definition sample_after :: rjson where
  "sample_after = RObj 20
     [(''log'', RStr ''abc''), (''items'', RArr 21 [sample_item 3, sample_item 1]), (''new'', RBool True)]"

definition sample_heap :: "nat \<Rightarrow> rjson" where
  "sample_heap r =
     (if r = 10 then sample_before else if r = 20 then sample_after
      else if r = 11 then RArr 11 [sample_item 1, sample_item 2, sample_item 3]
      else if r = 21 then RArr 21 [sample_item 3, sample_item 1]
      else sample_item r)"

lemma sample_stored: "stored sample_heap sample_before" "stored sample_heap sample_after"
  by (simp_all add: sample_before_def sample_after_def sample_heap_def sample_item_def)

lemma diffRevisions_correct_witness:
  "\<exists>w. apply_ops (erase sample_before) (diffRevisions sample_before sample_after) = Inr w \<and> wf_json w \<and>
     equalJson w (erase sample_after)"
  by (rule diffRevisions_correct[OF sample_stored])

lemma diffRevisions_empty_iff_witness:
  "diffRevisions sample_before sample_after \<noteq> []"
  using diffRevisions_empty_iff[OF sample_stored]
  by (simp add: sample_before_def sample_after_def sample_item_def)

end
