(* ===== verification/Delta_Trusted.thy ===== *)
theory Delta_Trusted
  imports Delta_Laws
begin

text \<open>
  The fast replay of operations the process produced itself
  (\<open>packages/chord/src/delta/apply-immutable-trusted.ts\<close>): no validation, arrays spliced with
  \<open>copyWithin\<close>. On operations the validating applier accepts it gives the same value. A property
  read that finds no own property is an absent value here: what the prototypes of plain objects
  and arrays hold is neither a container nor a string.
\<close>

subsection \<open>Arrays\<close>

text \<open>\<open>Array.prototype.copyWithin\<close> for arguments that are not negative.\<close>

definition copyWithin :: "'a list \<Rightarrow> nat \<Rightarrow> nat \<Rightarrow> nat \<Rightarrow> 'a list" where
  "copyWithin xs target from final =
     (let n = length xs; to = min target n; start = min from n;
          count = min (min final n - start) (n - to) in
      take to xs @ take count (drop start xs) @ drop (to + count) xs)"

text \<open>Assigning \<open>length\<close>: new places are holes.\<close>

definition set_length :: "'a \<Rightarrow> 'a list \<Rightarrow> nat \<Rightarrow> 'a list" where
  "set_length hole xs n = take n xs @ replicate (n - length xs) hole"

fun define_items :: "'a list \<Rightarrow> nat \<Rightarrow> 'a list \<Rightarrow> 'a list" where
  "define_items xs at [] = xs"
| "define_items xs at (v # vs) = define_items (xs[at := v]) (at + 1) vs"

definition spliceTrusted :: "'a \<Rightarrow> 'a list \<Rightarrow> nat \<Rightarrow> nat \<Rightarrow> 'a list \<Rightarrow> 'a list" where
  "spliceTrusted hole xs start remove items =
     (let oldLength = length xs; n = length items;
          moved =
            (if n > remove
             then copyWithin (set_length hole xs (oldLength + (n - remove))) (start + n) (start + remove) oldLength
             else if n < remove
             then set_length hole (copyWithin xs (start + n) (start + remove) oldLength) (oldLength - (remove - n))
             else xs) in
      define_items moved start items)"

definition permuteTrusted :: "json list \<Rightarrow> int list \<Rightarrow> (delta_error, json list) result" where
  "permuteTrusted xs perm =
     (if length xs \<noteq> length perm then Inl (TypeError ''Trusted permutation length mismatch'')
      else Inr (permute_array xs perm))"

lemma define_items_eq:
  "length mid = length vs \<Longrightarrow> define_items (pre @ mid @ post) (length pre) vs = pre @ vs @ post"
proof (induction vs arbitrary: pre mid)
  case (Cons v vs)
  then obtain m ms where m: "mid = m # ms" "length ms = length vs" by (cases mid) auto
  have "define_items ((pre @ [v]) @ ms @ post) (length (pre @ [v])) vs = (pre @ [v]) @ vs @ post"
    using m(2) by (rule Cons.IH)
  then show ?case using m by simp
qed simp

text \<open>In range, it is \<open>splice\<close>; the holes are all overwritten.\<close>

lemma spliceTrusted_eq:
  assumes "start + remove \<le> length xs"
  shows "spliceTrusted hole xs start remove items = js_splice xs start remove items"
proof -
  define pre mid post where "pre = take start xs" and "mid = take remove (drop start xs)"
    and "post = drop (start + remove) xs"
  have xs: "xs = pre @ mid @ post"
    by (simp add: pre_def mid_def post_def) (metis add.commute append_take_drop_id drop_drop)
  have len: "length pre = start" "length mid = remove" using assms by (simp_all add: pre_def mid_def)
  have splice: "js_splice xs start remove items = pre @ items @ post"
    by (simp add: js_splice_def pre_def post_def)
  have filled: "define_items (pre @ m @ post) start items = pre @ items @ post" if "length m = length items" for m
    using define_items_eq[OF that, of pre post] len by simp
  let ?n = "length items"
  show ?thesis
  proof (rule linorder_cases[of ?n remove])
    assume eq: "?n = remove"
    then have "spliceTrusted hole xs start remove items = define_items xs start items"
      by (simp add: spliceTrusted_def)
    then show ?thesis using filled[of mid] len eq splice xs by metis
  next
    assume lt: "?n < remove"
    have "copyWithin xs (start + ?n) (start + remove) (length xs)
        = pre @ take ?n mid @ post @ drop (start + ?n + length post) xs"
      using lt len by (simp add: copyWithin_def Let_def xs)
    then have "set_length hole (copyWithin xs (start + ?n) (start + remove) (length xs))
        (length xs - (remove - ?n)) = pre @ take ?n mid @ post"
      using lt len by (simp add: set_length_def xs)
    moreover have "length (take ?n mid) = ?n" using lt len by simp
    ultimately show ?thesis using lt filled splice by (simp add: spliceTrusted_def)
  next
    assume gt: "remove < ?n"
    define holes where "holes = replicate (?n - remove) hole"
    have grown: "set_length hole xs (length xs + (?n - remove)) = pre @ mid @ post @ holes"
      using gt by (simp add: set_length_def xs holes_def)
    let ?m = "take ?n (mid @ post @ holes)"
    have lm: "length ?m = ?n" using gt len by (simp add: holes_def)
    have "copyWithin (pre @ mid @ post @ holes) (start + ?n) (start + remove) (length xs) = pre @ ?m @ post"
      using gt len by (simp add: copyWithin_def Let_def xs holes_def)
    then show ?thesis using gt filled[OF lm] splice grown by (simp add: spliceTrusted_def)
  qed
qed

subsection \<open>The replay\<close>

text \<open>\<open>copyPath\<close>: the container the path leads to.\<close>

fun copyPath :: "json \<Rightarrow> path \<Rightarrow> (delta_error, json) result" where
  "copyPath node [] =
     (if isObj node then Inr node else Inl (TypeError ''Trusted operation root is not a container''))"
| "copyPath node (s # ss) =
     (if \<not> isObj node then Inl (TypeError ''Trusted operation root is not a container'')
      else (case child node s of
          Some c \<Rightarrow>
            if isObj c then copyPath c ss
            else Inl (TypeError ''Trusted operation path is not a container'')
        | None \<Rightarrow> Inl (TypeError ''Trusted operation path is not a container'')))"

definition trusted_text :: "(string \<Rightarrow> string) \<Rightarrow> string \<Rightarrow> json \<Rightarrow> seg \<Rightarrow> (delta_error, json) result" where
  "trusted_text f message target key =
     (case child target key of
        Some (JStr current) \<Rightarrow> Inr (set_child target key (JStr (f current)))
      | _ \<Rightarrow> Inl (TypeError message))"

fun trusted_delete :: "json \<Rightarrow> seg \<Rightarrow> (delta_error, json) result" where
  "trusted_delete (JArr xs) (Idx n) = Inr (JArr (spliceTrusted JNull xs (nat n) 1 []))"
| "trusted_delete (JArr xs) (Key k) = Inl (TypeError ''Trusted array deletion key is not numeric'')"
| "trusted_delete (JObj kvs) s = Inr (JObj (AList.delete (property_key s) kvs))"
| "trusted_delete node s = Inr node"

definition trusted_array ::
  "json \<Rightarrow> path \<Rightarrow> (json list \<Rightarrow> (delta_error, json list) result) \<Rightarrow> (delta_error, json) result" where
  "trusted_array root p f = andThen (copyPath root p) (\<lambda>target.
     (case target of
        JArr xs \<Rightarrow> andThen (f xs) (\<lambda>ys. Inr (replaceAt root p (JArr ys)))
      | _ \<Rightarrow> Inl (TypeError ''Trusted array operation target is not an array'')))"

definition trusted_parent ::
  "json \<Rightarrow> path \<Rightarrow> (json \<Rightarrow> seg \<Rightarrow> (delta_error, json) result) \<Rightarrow> (delta_error, json) result" where
  "trusted_parent root p f = andThen (copyPath root (butlast p)) (\<lambda>target.
     andThen (f target (last p)) (\<lambda>t. Inr (replaceAt root (butlast p) t)))"

definition apply_trusted_op :: "json \<Rightarrow> op \<Rightarrow> (delta_error, json) result" where
  "apply_trusted_op root op =
     (case op of
        OpR v \<Rightarrow> Inr v
      | OpP p i r items \<Rightarrow>
          trusted_array root p (\<lambda>xs. Inr (spliceTrusted JNull xs (nat i) (nat r) items))
      | OpM p perm \<Rightarrow> trusted_array root p (\<lambda>xs. permuteTrusted xs perm)
      | OpS p v \<Rightarrow> trusted_parent root p (\<lambda>target key. Inr (set_child target key v))
      | OpD p \<Rightarrow> trusted_parent root p trusted_delete
      | OpA p t \<Rightarrow> trusted_parent root p
          (trusted_text (\<lambda>current. current @ t) ''Trusted append target is not a string'')
      | OpT p n \<Rightarrow> trusted_parent root p
          (trusted_text (drop (nat n)) ''Trusted truncate target is not a string''))"

definition applyImmutableTrusted :: "json \<Rightarrow> op list \<Rightarrow> (delta_error, json) result" where
  "applyImmutableTrusted root ops = run_steps apply_trusted_op root ops"

subsection \<open>Agreement with the applier\<close>

text \<open>What the tracker guarantees of its splices: they remove elements that exist.\<close>

fun splice_in_range :: "json \<Rightarrow> op \<Rightarrow> bool" where
  "splice_in_range root (OpP p i r items) =
     (case get root p of Some (JArr xs) \<Rightarrow> nat i + nat r \<le> length xs | _ \<Rightarrow> False)"
| "splice_in_range root op = True"

fun in_range_run :: "json \<Rightarrow> op list \<Rightarrow> bool" where
  "in_range_run root [] = True"
| "in_range_run root (op # ops) =
     (splice_in_range root op \<and>
      (case apply_op root op of Inl e \<Rightarrow> True | Inr v \<Rightarrow> in_range_run v ops))"

lemma copyPath_resolve: "resolve root p = Inr x \<Longrightarrow> copyPath root p = Inr x"
proof (induction p arbitrary: root)
  case Nil
  then show ?case by (auto simp: resolve_def split: if_splits)
next
  case (Cons s p)
  then obtain c where c: "child root s = Some c" "resolve c p = Inr x" using resolve_below_ex by blast
  have "isObj c" using c(2) by (cases p) (auto simp: resolve_iff split: if_splits)
  then show ?case using Cons.IH[OF c(2)] c(1) child_isObj[OF c(1)] by simp
qed

lemma get_resolveD: "resolveValue f root p = Inr x \<Longrightarrow> get root p = Some x"
  by (induction p arbitrary: root) (auto split: if_splits option.splits)

lemma trusted_array_agrees:
  assumes at: "at_array root p f = Inr v"
    and fg: "\<And>xs ys. get root p = Some (JArr xs) \<Longrightarrow> f xs = Inr ys \<Longrightarrow> g xs = Inr ys"
  shows "trusted_array root p g = Inr v"
proof -
  obtain xs ys where x: "(if p = [] then Inr root else resolve root p) = Inr (JArr xs)" "f xs = Inr ys"
    "v = replaceAt root p (JArr ys)" using at unfolding at_array_iff by blast
  have r: "resolve root p = Inr (JArr xs)" using x(1) by (auto simp: resolve_def split: if_splits)
  have "get root p = Some (JArr xs)" using r get_resolveD by (auto simp: resolve_iff)
  then show ?thesis using fg x copyPath_resolve[OF r] by (simp add: trusted_array_def)
qed

lemma trusted_parent_agrees:
  assumes at: "at_parent root p f = Inr v"
    and p: "p \<noteq> []" "list_all safe_seg p"
    and fg: "\<And>t key w. safe_seg key \<Longrightarrow> f t key = Inr w \<Longrightarrow> g t key = Inr w"
  shows "trusted_parent root p g = Inr v"
proof -
  obtain t w where t: "resolve root (butlast p) = Inr t" "f t (last p) = Inr w" "v = replaceAt root (butlast p) w"
    using at by (auto simp: at_parent_def andThen_eq_Inr)
  have "safe_seg (last p)" using p by (simp add: list_all_iff)
  then show ?thesis using t fg copyPath_resolve[OF t(1)] by (simp add: trusted_parent_def)
qed

lemma apply_trusted_op_agrees:
  assumes v: "apply_op root op = Inr v" and range: "splice_in_range root op"
  shows "apply_trusted_op root op = Inr v"
proof -
  have valid: "valid_op op" using apply_op_valid[OF v] .
  have del: "trusted_delete t key = Inr w" if "delete_child p t key = Inr w" "safe_seg key" for p t key w
    using that by (cases "(t, key)" rule: trusted_delete.cases) (auto intro!: spliceTrusted_eq split: if_splits)
  have edit: "trusted_text f m t key = Inr w" if "edit_text p f t key = Inr w" for p f m t key w
    using that by (auto simp: edit_text_def trusted_text_def split: option.splits json.splits)
  show ?thesis
  proof (cases op)
    case (OpP p i r items)
    show ?thesis using v valid OpP range
      by (auto simp: apply_op_eq apply_trusted_op_def splice_array_eq spliceTrusted_eq
          elim!: trusted_array_agrees)
  next
    case (OpM p perm)
    show ?thesis using v valid OpM
      by (auto simp: apply_op_eq apply_trusted_op_def permuteTrusted_def
          elim!: trusted_array_agrees split: if_splits)
  qed (use v valid in \<open>auto simp: apply_op_eq apply_trusted_op_def intro: del edit
      elim!: trusted_parent_agrees\<close>)
qed

text \<open>
  C38. The trusted replay agrees with the validating applier: a batch the applier accepts, whose
  splices remove elements that exist, gives the same value.
\<close>

theorem applyImmutableTrusted_agrees:
  assumes "apply_ops root ops = Inr v" and "in_range_run root ops"
  shows "applyImmutableTrusted root ops = Inr v"
  using assms
proof (induction ops arbitrary: root)
  case Nil
  then show ?case by (simp add: applyImmutableTrusted_def)
next
  case (Cons op ops)
  obtain u where u: "apply_op root op = Inr u" "apply_ops u ops = Inr v"
    using Cons.prems(1) by (auto simp: andThen_eq_Inr)
  then have "apply_trusted_op root op = Inr u" using Cons.prems(2) apply_trusted_op_agrees by simp
  moreover have "applyImmutableTrusted u ops = Inr v" using Cons u by simp
  ultimately show ?case by (simp add: applyImmutableTrusted_def)
qed

lemma applyImmutableTrusted_agrees_witness:
  "applyImmutableTrusted (JObj [(''xs'', JArr [JNum 1, JNum 2, JNum 3])])
     [OpP [Key ''xs''] 1 1 [JNull, JBool True], OpD [Key ''xs'', Idx 0], OpM [Key ''xs''] [2, 0, 1]]
   = Inr (JObj [(''xs'', JArr [JNum 3, JNull, JBool True])])"
  by (rule applyImmutableTrusted_agrees) code_simp+

end
