(* ===== verification/Durable_Types.thy ===== *)
theory Durable_Types
  imports Delta_Ops
begin

text \<open>
  The durable records of \<open>packages/durable/src/types.ts\<close> that storage keeps and tasks change. IDs and
  commit sequences are integers (\<open>number\<close>); model messages, trace carriers and the payloads of
  applications are JSON values. An optional property is an option.
\<close>

type_synonym id = int
type_synonym seq = int

subsection \<open>Conversations and entries\<close>

record fork_parent =
  parent_conversation :: id
  parent_at :: id

record owner_edge =
  owner_conversation :: id
  owner_task :: id

record conversation =
  conv_id :: id
  conv_parent :: "fork_parent option"
  conv_owner :: "owner_edge option"

datatype edit_action = Omit | Replace "json list"

record context_edit =
  edit_target :: id
  edit_action :: edit_action

record entry =
  entry_id :: id
  entry_conversation :: id
  entry_kind :: string
  entry_model :: "json list option"
  entry_data :: "json option"
  entry_head :: "id option"
  entry_edits :: "context_edit list option"
  entry_byTask :: "id option"

subsection \<open>Submissions\<close>

datatype submission_status = Queued | Placed | Done | Unanswered

text \<open>The states of an input, of a passive write and of a continue.\<close>

datatype input_state =
    InputQueued
  | InputPlaced id
  | InputDone id id                               \<comment> \<open>entry, answer\<close>
  | InputUnanswered "id option" string "json option"

datatype write_state =
    WriteQueued
  | WriteDone id
  | WriteUnanswered string "json option"

datatype continue_state =
    ContinuePlaced
  | ContinueDone id
  | ContinueUnanswered string "json option"

datatype submission_body =
    InputBody input_state
  | WriteBody write_state
  | ContinueBody continue_state

record submission =
  sub_trace :: "json option"
  sub_id :: id
  sub_conversation :: id
  sub_requestId :: "string option"
  sub_body :: submission_body

fun body_status :: "submission_body \<Rightarrow> submission_status" where
  "body_status (InputBody InputQueued) = Queued"
| "body_status (InputBody (InputPlaced e)) = Placed"
| "body_status (InputBody (InputDone e a)) = Done"
| "body_status (InputBody (InputUnanswered e r d)) = Unanswered"
| "body_status (WriteBody WriteQueued) = Queued"
| "body_status (WriteBody (WriteDone e)) = Done"
| "body_status (WriteBody (WriteUnanswered r d)) = Unanswered"
| "body_status (ContinueBody ContinuePlaced) = Placed"
| "body_status (ContinueBody (ContinueDone a)) = Done"
| "body_status (ContinueBody (ContinueUnanswered r d)) = Unanswered"

definition sub_status :: "submission \<Rightarrow> submission_status" where
  "sub_status s = body_status (sub_body s)"

datatype settlement =
    SettleDone id
  | SettleUnanswered string "json option"

subsection \<open>Tasks\<close>

datatype join_policy = FailFast | AllSettled

record outcome_error =
  error_message :: string
  error_detail :: "json option"

datatype task_outcome =
    Completed json
  | Failed outcome_error "json option"
  | Aborted "string option" "json option"
  | Orphaned string
  | Faulted outcome_error

datatype task_state =
    Pending json
  | Running json
  | Waiting json "id list" join_policy
  | Sleeping json int
  | Completing task_outcome
  | Terminal task_outcome

datatype task_status = SPending | SRunning | SWaiting | SSleeping | SCompleting | STerminal

fun state_status :: "task_state \<Rightarrow> task_status" where
  "state_status (Pending c) = SPending"
| "state_status (Running c) = SRunning"
| "state_status (Waiting c on pol) = SWaiting"
| "state_status (Sleeping c til) = SSleeping"
| "state_status (Completing oc) = SCompleting"
| "state_status (Terminal oc) = STerminal"

record task =
  task_trace :: "json option"
  task_links :: "json list option"
  task_id :: id
  task_conversation :: id
  task_kind :: string
  task_version :: int
  task_input :: json
  task_owner :: "id option"
  task_background :: bool
  task_abortRequested :: bool
  task_abortRestart :: bool                       \<comment> \<open>\<open>abortReason\<close> is \<open>restart\<close>\<close>
  task_abandonOnRestart :: bool
  task_startedAt :: "int option"
  task_endedAt :: "int option"
  task_restarts :: "nat option"
  task_state :: task_state
  task_memos :: "(string \<times> json) list option"

definition task_status :: "task \<Rightarrow> task_status" where
  "task_status t = state_status (task_state t)"

subsection \<open>Documents\<close>

datatype doc_scope = SessionScope | ConversationScope id | TaskScope id

datatype doc_history = Latest | Rewindable

datatype doc_fork = ForkAsOf | ForkCurrent | ForkInitial

record document_create =
  doc_id :: id
  doc_kind :: string
  doc_key :: "string option"
  doc_scope :: doc_scope
  doc_history :: "doc_history option"
  doc_fork :: "doc_fork option"

record document = document_create +
  doc_createdAt :: seq
  doc_retiredAt :: "seq option"

datatype doc_point = AtCurrent | AtSeq seq

record doc_address =
  addr_kind :: string
  addr_scope :: doc_scope
  addr_key :: "string option"

datatype doc_content =
    Base int json                                 \<comment> \<open>version and value\<close>
  | Delta int "op list"                           \<comment> \<open>version and operations\<close>

fun content_version :: "doc_content \<Rightarrow> int" where
  "content_version (Base v value) = v"
| "content_version (Delta v ops) = v"

fun is_base_content :: "doc_content \<Rightarrow> bool" where
  "is_base_content (Base v value) = True"
| "is_base_content (Delta v ops) = False"

record stored_document =
  stored_record :: document
  stored_version :: int
  stored_value :: json
  stored_deltas :: nat

subsection \<open>Writes\<close>

datatype storage_write =
    WConversation conversation
  | WEntry entry
  | WTask task
  | WSubmission submission
  | WDocCreate document_create int json           \<comment> \<open>version and value of the base\<close>
  | WDocCopy document_create id doc_point         \<comment> \<open>source and point\<close>
  | WDocChange id doc_content
  | WDocRetire id

subsection \<open>Scans\<close>

datatype scan_order = Ascending | Descending

type_synonym cursor = "(string \<times> json) list"

record 'a page =
  page_items :: "'a list"
  page_next :: "cursor option"

record conversation_query =
  cq_ownerConversation :: "id option"
  cq_ownerTask :: "id option"
  cq_order :: "string option"

record entry_query =
  eq_conversation :: id
  eq_minEntry :: "id option"
  eq_maxEntry :: "id option"
  eq_order :: "string option"

record task_query =
  tq_conversation :: "id option"
  tq_kind :: "string option"
  tq_status :: "task_status option"
  tq_abortRequested :: "bool option"
  tq_background :: "bool option"
  tq_order :: "string option"

record submission_query =
  sq_conversation :: "id option"
  sq_status :: "submission_status option"
  sq_order :: "string option"

record document_query =
  dq_scope :: doc_scope
  dq_at :: doc_point
  dq_kind :: "string option"

end
