(* ===== verification/Sorted_Ids.thy ===== *)
theory Sorted_Ids
  imports Prelude
begin

text \<open>
  The sorted ID lists that index the tables of \<open>packages/durable/src/storage/memory.ts\<close>: binary
  searches, insertion, removal, and maps of such lists. What the storage relies on is a locale: a
  list that is ordered and holds exactly a given set of IDs stays so under its two operations.
\<close>

subsection \<open>Operations\<close>

definition lowerBound_ids :: "int list \<Rightarrow> int \<Rightarrow> nat" where
  "lowerBound_ids ids target = bisect (\<lambda>middle. ids ! middle < target) 0 (length ids)"

definition upperBound_ids :: "int list \<Rightarrow> int \<Rightarrow> nat" where
  "upperBound_ids ids target = bisect (\<lambda>middle. ids ! middle \<le> target) 0 (length ids)"

definition insertSorted :: "int list \<Rightarrow> int \<Rightarrow> int list" where
  "insertSorted ids i =
     (if ids = [] \<or> last ids < i then ids @ [i]
      else let at = lowerBound_ids ids i in take at ids @ [i] @ drop at ids)"

definition removeSorted :: "int list \<Rightarrow> int \<Rightarrow> int list" where
  "removeSorted ids i =
     (let at = lowerBound_ids ids i in
      if at < length ids \<and> ids ! at = i then take at ids @ drop (at + 1) ids else ids)"

text \<open>A map of ID lists, in which an absent list is empty.\<close>

definition bucket :: "('k \<rightharpoonup> int list) \<Rightarrow> 'k \<Rightarrow> int list" where
  "bucket index k = (case index k of None \<Rightarrow> [] | Some ids \<Rightarrow> ids)"

definition insertMapId :: "('k \<rightharpoonup> int list) \<Rightarrow> 'k \<Rightarrow> int \<Rightarrow> ('k \<rightharpoonup> int list)" where
  "insertMapId index k i = index(k \<mapsto> insertSorted (bucket index k) i)"

subsection \<open>Bounds\<close>

definition ordered :: "int list \<Rightarrow> int set \<Rightarrow> bool" where
  "ordered ids S \<longleftrightarrow> sorted_wrt (<) ids \<and> set ids = S"

lemma ordered_Nil [simp]: "ordered [] S \<longleftrightarrow> S = {}"
  by (auto simp: ordered_def)

lemma lowerBound_ids_le: "lowerBound_ids ids t \<le> length ids"
  using bisect_bounds[of 0 "length ids"] by (simp add: lowerBound_ids_def)

lemma upperBound_ids_le: "upperBound_ids ids t \<le> length ids"
  using bisect_bounds[of 0 "length ids"] by (simp add: upperBound_ids_def)

text \<open>A cut of a sorted list by a downward closed test: \<open>bisect\<close> finds where it ends.\<close>

lemma bisect_cut:
  fixes ids :: "int list"
  assumes "sorted_wrt (<) ids" and down: "\<And>x y. x \<le> y \<Longrightarrow> P y \<Longrightarrow> P x"
  defines "at \<equiv> bisect (\<lambda>m. P (ids ! m)) 0 (length ids)"
  shows "i < length ids \<Longrightarrow> P (ids ! i) \<longleftrightarrow> i < at"
proof -
  have mono: "ids ! i \<le> ids ! j" if "i \<le> j" "j < length ids" for i j
    using that sorted_wrt_nth_less[OF assms(1), of i j] by (cases "i = j") auto
  have at: "at \<le> length ids" using bisect_bounds[of 0 "length ids"] by (simp add: at_def)
  show "P (ids ! i) \<longleftrightarrow> i < at" if i: "i < length ids"
  proof
    assume "i < at"
    then have "P (ids ! (at - 1))"
      unfolding at_def using bisect_below[of 0 "\<lambda>m. P (ids ! m)" "length ids"] by simp
    then show "P (ids ! i)" using mono[of i "at - 1"] \<open>i < at\<close> at down by fastforce
  next
    assume p: "P (ids ! i)"
    have "\<not> P (ids ! i)" if "at \<le> i"
      by (rule bisect_first[where prior = "\<lambda>m. P (ids ! m)" and low = 0 and high = "length ids"])
        (use mono down i that in \<open>auto simp: at_def\<close>)
    then show "i < at" using p by fastforce
  qed
qed

lemma lowerBound_ids_iff:
  "sorted_wrt (<) ids \<Longrightarrow> i < length ids \<Longrightarrow> ids ! i < t \<longleftrightarrow> i < lowerBound_ids ids t"
  unfolding lowerBound_ids_def by (rule bisect_cut) auto

lemma upperBound_ids_iff:
  "sorted_wrt (<) ids \<Longrightarrow> i < length ids \<Longrightarrow> ids ! i \<le> t \<longleftrightarrow> i < upperBound_ids ids t"
  unfolding upperBound_ids_def by (rule bisect_cut) auto

text \<open>The parts of a sorted list on either side of a target are filters of it.\<close>

lemma take_drop_filter:
  "n \<le> length xs \<Longrightarrow> \<forall>i<length xs. P (xs ! i) \<longleftrightarrow> i < n \<Longrightarrow>
   take n xs = filter P xs \<and> drop n xs = filter (\<lambda>x. \<not> P x) xs"
proof (induction xs arbitrary: n)
  case (Cons x xs)
  show ?case
  proof (cases n)
    case 0
    then have "\<not> P ((x # xs) ! i)" if "i < length (x # xs)" for i using Cons.prems that by blast
    then have none: "\<forall>y\<in>set (x # xs). \<not> P y" by (metis in_set_conv_nth)
    then have "filter (\<lambda>y. \<not> P y) (x # xs) = x # xs" by (simp only: filter_id_conv)
    then show ?thesis using 0 none by simp
  next
    case (Suc m)
    have "P (xs ! i) \<longleftrightarrow> i < m" if "i < length xs" for i
      using Cons.prems(2)[rule_format, of "Suc i"] that Suc by simp
    then show ?thesis using Cons.IH[of m] Cons.prems Suc by fastforce
  qed
qed simp

lemma below_lowerBound:
  "sorted_wrt (<) ids \<Longrightarrow> take (lowerBound_ids ids t) ids = filter (\<lambda>i. i < t) ids \<and>
     drop (lowerBound_ids ids t) ids = filter (\<lambda>i. \<not> i < t) ids"
  using lowerBound_ids_iff lowerBound_ids_le by (intro take_drop_filter) auto

lemma below_upperBound:
  "sorted_wrt (<) ids \<Longrightarrow> take (upperBound_ids ids t) ids = filter (\<lambda>i. i \<le> t) ids \<and>
     drop (upperBound_ids ids t) ids = filter (\<lambda>i. \<not> i \<le> t) ids"
  using upperBound_ids_iff upperBound_ids_le by (intro take_drop_filter) auto

subsection \<open>Insertion and removal\<close>

lemma insertSorted_eq:
  assumes "sorted_wrt (<) ids"
  shows "insertSorted ids i = filter (\<lambda>j. j < i) ids @ [i] @ filter (\<lambda>j. \<not> j < i) ids"
proof (cases "ids = [] \<or> last ids < i")
  case True
  have all: "\<forall>j\<in>set ids. j < i"
  proof
    fix j assume j: "j \<in> set ids"
    then have "j \<le> last ids"
      using assms by (cases ids rule: rev_cases) (auto simp: sorted_wrt_append)
    then show "j < i" using True j by auto
  qed
  then have "filter (\<lambda>j. j < i) ids = ids" "filter (\<lambda>j. \<not> j < i) ids = []"
    by (simp_all add: filter_empty_conv)
  then show ?thesis using True by (simp add: insertSorted_def)
next
  case False
  then show ?thesis using below_lowerBound[OF assms, of i] by (simp add: insertSorted_def Let_def)
qed

lemma ordered_insertSorted: "ordered ids S \<Longrightarrow> i \<notin> S \<Longrightarrow> ordered (insertSorted ids i) (insert i S)"
proof -
  assume o: "ordered ids S" and i: "i \<notin> S"
  then have s: "sorted_wrt (<) ids" "set ids = S" by (auto simp: ordered_def)
  have gt: "i < j" if "j \<in> set ids" "\<not> j < i" for j using that i s(2) by (cases "j = i") auto
  show "ordered (insertSorted ids i) (insert i S)"
    using s gt by (auto simp: ordered_def insertSorted_eq sorted_wrt_append intro: sorted_wrt_filter)
qed

lemma ordered_removeSorted:
  assumes "ordered ids S"
  shows "ordered (removeSorted ids i) (S - {i})"
proof -
  define at where "at = lowerBound_ids ids i"
  have s: "sorted_wrt (<) ids" "set ids = S" using assms by (auto simp: ordered_def)
  show ?thesis
  proof (cases "at < length ids \<and> ids ! at = i")
    case True
    then have r: "removeSorted ids i = take at ids @ drop (at + 1) ids"
      by (simp add: removeSorted_def at_def Let_def)
    have split: "ids = take at ids @ i # drop (at + 1) ids" using True id_take_nth_drop by fastforce
    then have "sorted_wrt (<) (take at ids @ i # drop (at + 1) ids)" using s(1) by metis
    moreover have "set ids = set (take at ids) \<union> {i} \<union> set (drop (at + 1) ids)"
      by (subst split) auto
    ultimately show ?thesis using r s(2) by (fastforce simp: ordered_def sorted_wrt_append)
  next
    case False
    have "i \<notin> set ids"
    proof
      assume "i \<in> set ids"
      then obtain j where j: "j < length ids" "ids ! j = i" by (auto simp: in_set_conv_nth)
      have "\<not> j < at" using lowerBound_ids_iff[OF s(1) j(1), of i] j(2) by (simp add: at_def)
      then have "at < length ids" using j(1) by simp
      moreover have "\<not> ids ! at < i" using lowerBound_ids_iff[OF s(1), of at i] \<open>at < length ids\<close>
        by (simp add: at_def)
      ultimately have "at < j" using False j \<open>\<not> j < at\<close> by (cases "at = j") auto
      then show False using sorted_wrt_nth_less[OF s(1), of at j] j \<open>\<not> ids ! at < i\<close> by simp
    qed
    then show ?thesis using False assms by (auto simp: removeSorted_def Let_def at_def ordered_def)
  qed
qed

subsection \<open>The index interface\<close>

text \<open>
  What the tables of the storage rely on: an index is a list with an insertion and a removal that
  keep it in agreement with a set of IDs. The lemmas of the locale lift this to a family of
  indexes that groups the records of a table.
\<close>

locale id_index =
  fixes agrees :: "'l \<Rightarrow> int set \<Rightarrow> bool"
    and ins :: "'l \<Rightarrow> int \<Rightarrow> 'l"
    and rem :: "'l \<Rightarrow> int \<Rightarrow> 'l"
  assumes ins_agrees: "agrees l S \<Longrightarrow> i \<notin> S \<Longrightarrow> agrees (ins l i) (insert i S)"
    and rem_agrees: "agrees l S \<Longrightarrow> agrees (rem l i) (S - {i})"
begin

text \<open>The family \<open>f\<close> indexes the records \<open>r\<close> of a table under the keys \<open>k\<close> with \<open>P r k\<close>.\<close>

definition groups :: "('k \<Rightarrow> 'l) \<Rightarrow> (int \<rightharpoonup> 'r) \<Rightarrow> ('r \<Rightarrow> 'k \<Rightarrow> bool) \<Rightarrow> bool" where
  "groups f table P \<longleftrightarrow> (\<forall>k. agrees (f k) {i. \<exists>r. table i = Some r \<and> P r k})"

lemma groupsD: "groups f table P \<Longrightarrow> agrees (f k) {i. \<exists>r. table i = Some r \<and> P r k}"
  by (simp add: groups_def)

lemma groups_add:
  assumes g: "groups f table P" and new: "table i = None"
    and f': "\<And>k. f' k = (if P r k then ins (f k) i else f k)"
  shows "groups f' (table(i \<mapsto> r)) P"
  unfolding groups_def
proof
  fix k
  let ?S = "{j. \<exists>q. table j = Some q \<and> P q k}"
  have "i \<notin> ?S" using new by simp
  moreover have "{j. \<exists>q. (table(i \<mapsto> r)) j = Some q \<and> P q k} = (if P r k then insert i ?S else ?S)"
    using new by auto
  ultimately show "agrees (f' k) {j. \<exists>q. (table(i \<mapsto> r)) j = Some q \<and> P q k}"
    using ins_agrees[OF groupsD[OF g]] groupsD[OF g] f' by simp
qed

text \<open>A record replaced by one that belongs to other keys.\<close>

lemma groups_change:
  assumes g: "groups f table P" and old: "table i = Some q"
    and f': "\<And>k. f' k = (if P q k \<and> \<not> P r k then rem (f k) i
                          else if \<not> P q k \<and> P r k then ins (f k) i else f k)"
  shows "groups f' (table(i \<mapsto> r)) P"
  unfolding groups_def
proof
  fix k
  let ?S = "{j. \<exists>q. table j = Some q \<and> P q k}"
  have i: "i \<in> ?S \<longleftrightarrow> P q k" using old by auto
  have new: "{j. \<exists>q. (table(i \<mapsto> r)) j = Some q \<and> P q k} = (if P r k then insert i ?S else ?S - {i})"
    by auto
  consider "P q k" "\<not> P r k" | "\<not> P q k" "P r k" | "P q k \<longleftrightarrow> P r k" by blast
  then show "agrees (f' k) {j. \<exists>q. (table(i \<mapsto> r)) j = Some q \<and> P q k}"
  proof cases
    case 1
    then show ?thesis unfolding new using rem_agrees[OF groupsD[OF g]] f' by simp
  next
    case 2
    then show ?thesis unfolding new using ins_agrees[OF groupsD[OF g]] i f' by simp
  next
    case 3
    then have "(if P r k then insert i ?S else ?S - {i}) = ?S" using i by auto
    then show ?thesis unfolding new using groupsD[OF g] 3 f' by simp
  qed
qed

lemma groups_same:
  "groups f table P \<Longrightarrow> table i = Some q \<Longrightarrow> (\<And>k. P q k \<longleftrightarrow> P r k) \<Longrightarrow> groups f (table(i \<mapsto> r)) P"
  by (erule groups_change) auto

end

interpretation sorted_index: id_index ordered insertSorted removeSorted
  by unfold_locales (auto intro: ordered_insertSorted ordered_removeSorted)

lemma bucket_insertMapId:
  "bucket (insertMapId index k i) = (\<lambda>l. if l = k then insertSorted (bucket index l) i else bucket index l)"
  by (auto simp: bucket_def insertMapId_def)

lemma bucket_upd: "bucket (index(k \<mapsto> ids)) = (bucket index)(k := ids)"
  by (auto simp: bucket_def fun_eq_iff)

lemma bucket_empty [simp]: "bucket Map.empty k = []"
  by (simp add: bucket_def)

end
