(* ===== verification/Storage_Scan.thy ===== *)
theory Storage_Scan
  imports Durable_Types Sorted_Ids
begin

text \<open>
  Paged scans over sorted ID lists: \<open>packages/durable/src/storage/scan.ts\<close>, and \<open>page\<close>,
  \<open>scanIndexes\<close> and the scan loops of \<open>packages/durable/src/storage/memory.ts\<close>. Following the
  cursors of a scan visits every matching record once, in the order of the scan.
\<close>

datatype storage_error =
    ClosedError
  | RequestError string
  | CommitError string
  | CopyRejected id storage_error
  | DeltaFailed delta_error
  | Diverges                             \<comment> \<open>the code does not return within the fuel\<close>
  | RuntimeError string                  \<comment> \<open>an exception the code does not name\<close>

subsection \<open>Cursors\<close>

record scan_start =
  start_order :: scan_order
  start_after :: "id option"

fun order_name :: "scan_order \<Rightarrow> string" where
  "order_name Ascending = ''ascending''"
| "order_name Descending = ''descending''"

definition parse_order :: "string \<Rightarrow> storage_error \<Rightarrow> (storage_error, scan_order) result" where
  "parse_order s e =
     (if s = ''ascending'' then Inr Ascending
      else if s = ''descending'' then Inr Descending
      else Inl e)"

definition cursor_after :: "cursor \<Rightarrow> (storage_error, id) result" where
  "cursor_after c =
     (case map_of c ''after'' of
        Some (JNum n) \<Rightarrow>
          if isSafeInteger n then Inr n else Inl (RequestError ''Invalid storage cursor'')
      | _ \<Rightarrow> Inl (RequestError ''Invalid storage cursor''))"

definition scanStart ::
  "string option \<Rightarrow> cursor option \<Rightarrow> scan_order \<Rightarrow> (storage_error, scan_start) result" where
  "scanStart requested cursor fallback =
     andThen (case requested of
         None \<Rightarrow> Inr None
       | Some s \<Rightarrow> andThen (parse_order s (RequestError ''Invalid scan order'')) (\<lambda>dir. Inr (Some dir)))
     (\<lambda>req.
       (case cursor of
          None \<Rightarrow>
            Inr \<lparr>start_order = (case req of None \<Rightarrow> fallback | Some dir \<Rightarrow> dir), start_after = None\<rparr>
        | Some c \<Rightarrow>
            andThen (cursor_after c) (\<lambda>aft.
            andThen (case map_of c ''order'' of
                None \<Rightarrow> Inr fallback
              | Some (JStr s) \<Rightarrow> parse_order s (RequestError ''Invalid storage cursor'')
              | _ \<Rightarrow> Inl (RequestError ''Invalid storage cursor'')) (\<lambda>order.
            if req \<noteq> None \<and> req \<noteq> Some order
            then Inl (RequestError ''The cursor continues another scan'')
            else Inr \<lparr>start_order = order, start_after = Some aft\<rparr>))))"

definition nextCursor :: "id \<Rightarrow> scan_order \<Rightarrow> cursor" where
  "nextCursor i order = [(''after'', JNum i), (''order'', JStr (order_name order))]"

text \<open>\<open>cursorId\<close>, for scans without an order.\<close>

definition cursorId :: "cursor option \<Rightarrow> (storage_error, id option) result" where
  "cursorId cursor =
     (case cursor of
        None \<Rightarrow> Inr None
      | Some c \<Rightarrow> if map_of c ''after'' = None then Inr None
          else andThen (cursor_after c) (\<lambda>i. Inr (Some i)))"

subsection \<open>Pages\<close>

text \<open>A page of no items cannot name its last one.\<close>

definition page_of :: "('r \<Rightarrow> id) \<Rightarrow> 'r list \<Rightarrow> nat \<Rightarrow> scan_order \<Rightarrow> (storage_error, 'r page) result" where
  "page_of get_id values limit order =
     (let items = take limit values in
      if length values \<le> limit then Inr \<lparr>page_items = items, page_next = None\<rparr>
      else if items = [] then Inl (RuntimeError ''items.at(-1) is undefined'')
      else Inr \<lparr>page_items = items, page_next = Some (nextCursor (get_id (last items)) order)\<rparr>)"

definition scanIndexes :: "id list \<Rightarrow> scan_start \<Rightarrow> nat list" where
  "scanIndexes ids start =
     (case start_order start of
        Ascending \<Rightarrow>
          let first = (case start_after start of None \<Rightarrow> 0 | Some a \<Rightarrow> upperBound_ids ids a)
          in [first..<length ids]
      | Descending \<Rightarrow>
          let stop = (case start_after start of None \<Rightarrow> length ids | Some a \<Rightarrow> lowerBound_ids ids a)
          in rev [0..<stop])"

text \<open>
  The loop of a scan: it stops once it holds more than \<open>limit\<close> values; \<open>pick\<close> is \<open>None\<close> for a
  record that the query leaves out.
\<close>

fun collect :: "nat \<Rightarrow> ('i \<Rightarrow> 'r option) \<Rightarrow> 'i list \<Rightarrow> 'r list \<Rightarrow> 'r list" where
  "collect limit pick [] values = values"
| "collect limit pick (i # is) values =
     (if length values > limit then values
      else (case pick i of
          None \<Rightarrow> collect limit pick is values
        | Some v \<Rightarrow> collect limit pick is (values @ [v])))"

definition scan_ids ::
  "('r \<Rightarrow> id) \<Rightarrow> (id \<Rightarrow> 'r option) \<Rightarrow> id list \<Rightarrow> string option \<Rightarrow> scan_order \<Rightarrow> nat \<Rightarrow> cursor option \<Rightarrow>
   (storage_error, 'r page) result" where
  "scan_ids get_id pick ids requested fallback limit cursor =
     andThen (scanStart requested cursor fallback) (\<lambda>start.
       page_of get_id (collect limit (\<lambda>index. pick (ids ! index)) (scanIndexes ids start) []) limit
         (start_order start))"

subsection \<open>What a scan returns\<close>

lemma collect_eq:
  "length vals \<le> limit + 1 \<Longrightarrow>
   collect limit pick is vals = take (limit + 1) (vals @ List.map_filter pick is)"
proof (induction "is" arbitrary: vals)
  case (Cons i "is")
  then show ?case
    by (cases "length vals = limit + 1"; cases "pick i") (auto simp: List.map_filter_simps Suc_diff_le)
qed (simp add: List.map_filter_simps)

text \<open>The IDs a scan visits, in its order.\<close>

fun visited :: "id list \<Rightarrow> scan_order \<Rightarrow> id option \<Rightarrow> id list" where
  "visited ids Ascending None = ids"
| "visited ids Ascending (Some a) = filter (\<lambda>i. a < i) ids"
| "visited ids Descending None = rev ids"
| "visited ids Descending (Some a) = rev (filter (\<lambda>i. i < a) ids)"

lemma map_nth_upt: "n \<le> length xs \<Longrightarrow> map ((!) xs) [n..<length xs] = drop n xs"
  by (rule nth_equalityI) auto

lemma map_nth_upt_take: "n \<le> length xs \<Longrightarrow> map ((!) xs) [0..<n] = take n xs"
  by (rule nth_equalityI) auto

lemma scanIndexes_visited:
  assumes "sorted_wrt (<) ids"
  shows "map ((!) ids) (scanIndexes ids start) = visited ids (start_order start) (start_after start)"
proof -
  have up: "drop (upperBound_ids ids a) ids = filter (\<lambda>i. a < i) ids" for a
    using below_upperBound[OF assms, of a] by (simp add: not_le)
  have lo: "take (lowerBound_ids ids a) ids = filter (\<lambda>i. i < a) ids" for a
    using below_lowerBound[OF assms, of a] by simp
  show ?thesis
    by (cases "start_order start"; cases "start_after start")
      (simp_all add: scanIndexes_def map_nth_upt upperBound_ids_le up map_nth_upt_take lo
        lowerBound_ids_le map_nth flip: rev_map)
qed

lemma collect_ids:
  assumes "sorted_wrt (<) ids"
  shows "collect limit (\<lambda>index. pick (ids ! index)) (scanIndexes ids start) []
    = take (limit + 1) (List.map_filter pick (visited ids (start_order start) (start_after start)))"
proof -
  have "List.map_filter (\<lambda>index. pick (ids ! index)) is = List.map_filter pick (map ((!) ids) is)" for "is"
    by (induction "is") (auto simp: List.map_filter_simps split: option.splits)
  then show ?thesis using assms by (simp add: collect_eq scanIndexes_visited)
qed

subsection \<open>Following the cursors\<close>

text \<open>A client that follows the cursors of a scan over a state that does not change.\<close>

fun follow :: "nat \<Rightarrow> (cursor option \<Rightarrow> (storage_error, 'r page) result) \<Rightarrow> cursor option \<Rightarrow>
    (storage_error, 'r list) result" where
  "follow 0 scan cursor = Inl (RuntimeError ''more pages than expected'')"
| "follow (Suc n) scan cursor = andThen (scan cursor) (\<lambda>pg.
     (case page_next pg of
        None \<Rightarrow> Inr (page_items pg)
      | Some c \<Rightarrow> andThen (follow n scan (Some c)) (\<lambda>rest. Inr (page_items pg @ rest))))"

lemma map_filter_split:
  "n < length (List.map_filter pick xs) \<Longrightarrow>
   \<exists>pre x post. xs = pre @ x # post \<and> pick x = Some (List.map_filter pick xs ! n) \<and>
     List.map_filter pick post = drop (Suc n) (List.map_filter pick xs)"
proof (induction xs arbitrary: n)
  case (Cons x xs)
  show ?case
  proof (cases "pick x")
    case None
    then obtain pre y post where "xs = pre @ y # post" "pick y = Some (List.map_filter pick xs ! n)"
      "List.map_filter pick post = drop (Suc n) (List.map_filter pick xs)"
      using Cons.IH[of n] Cons.prems by (auto simp: List.map_filter_simps)
    then show ?thesis using None
      by (intro exI[of _ "x # pre"] exI[of _ y] exI[of _ post]) (simp add: List.map_filter_simps)
  next
    case (Some v)
    show ?thesis
    proof (cases n)
      case 0
      then show ?thesis using Some by (intro exI[of _ "[]"]) (simp add: List.map_filter_simps)
    next
      case (Suc m)
      then obtain pre y post where "xs = pre @ y # post" "pick y = Some (List.map_filter pick xs ! m)"
        "List.map_filter pick post = drop (Suc m) (List.map_filter pick xs)"
        using Cons.IH[of m] Cons.prems Some by (auto simp: List.map_filter_simps)
      then show ?thesis using Some Suc
        by (intro exI[of _ "x # pre"] exI[of _ y] exI[of _ post]) (simp add: List.map_filter_simps)
    qed
  qed
qed (simp add: List.map_filter_simps)

text \<open>The IDs after one of the visited IDs are those that follow it.\<close>

lemma visited_after:
  assumes "sorted_wrt (<) ids" and "visited ids order aft = pre @ x # post"
  shows "visited ids order (Some x) = post"
proof (cases order)
  case Ascending
  define rest where "rest = visited ids order aft"
  have sub: "\<exists>front. ids = front @ rest \<and> (\<forall>i\<in>set front. \<forall>j\<in>set rest. i < j)"
  proof (cases aft)
    case None
    then show ?thesis using Ascending by (auto simp: rest_def)
  next
    case (Some a)
    have "ids = filter (\<lambda>i. i \<le> a) ids @ filter (\<lambda>i. a < i) ids"
      using below_upperBound[OF assms(1), of a] append_take_drop_id[of "upperBound_ids ids a" ids]
      by (simp add: not_le)
    then show ?thesis using Ascending Some
      by (intro exI[of _ "filter (\<lambda>i. i \<le> a) ids"]) (auto simp: rest_def)
  qed
  then obtain front where f: "ids = front @ rest" "\<forall>i\<in>set front. \<forall>j\<in>set rest. i < j" by blast
  have r: "rest = pre @ x # post" using assms(2) by (simp add: rest_def)
  have s: "sorted_wrt (<) (front @ pre @ x # post)" using assms(1) f(1) r by simp
  have "filter (\<lambda>i. x < i) (front @ pre) = []" "filter (\<lambda>i. x < i) post = post"
    using s by (auto simp: filter_empty_conv sorted_wrt_append filter_id_conv)
  then show ?thesis using Ascending f(1) r by simp
next
  case Descending
  define rest where "rest = visited ids order aft"
  have sub: "\<exists>behind. ids = rev rest @ behind"
  proof (cases aft)
    case None
    then show ?thesis using Descending by (auto simp: rest_def)
  next
    case (Some a)
    have "ids = filter (\<lambda>i. i < a) ids @ filter (\<lambda>i. \<not> i < a) ids"
      using below_lowerBound[OF assms(1), of a] append_take_drop_id[of "lowerBound_ids ids a" ids] by simp
    then show ?thesis using Descending Some
      by (intro exI[of _ "filter (\<lambda>i. \<not> i < a) ids"]) (simp add: rest_def)
  qed
  then obtain behind where f: "ids = rev rest @ behind" by blast
  have r: "rest = pre @ x # post" using assms(2) by (simp add: rest_def)
  have s: "sorted_wrt (<) (rev post @ x # rev pre @ behind)" using assms(1) f r by simp
  then have cmp: "\<forall>i\<in>set (rev post). i < x" "\<forall>i\<in>set (rev pre @ behind). \<not> i < x"
    by (auto simp: sorted_wrt_append not_less intro: less_imp_le)
  have "filter (\<lambda>i. i < x) (rev pre @ behind) = []" "filter (\<lambda>i. i < x) (rev post) = rev post"
    using cmp by (simp_all only: filter_empty_conv filter_id_conv not_False_eq_True)
  then show ?thesis using Descending f r by simp
qed

text \<open>The state of a scan that a client may be in: at the start, or after a visited ID.\<close>

definition cursor_at :: "scan_order \<Rightarrow> id option \<Rightarrow> cursor option" where
  "cursor_at order aft = map_option (\<lambda>i. nextCursor i order) aft"

lemma scanStart_cursor_at:
  assumes "requested = Some (order_name order) \<or> requested = None \<and> (aft = None \<longrightarrow> fallback = order)"
    and "\<forall>i. aft = Some i \<longrightarrow> isSafeInteger i"
  shows "scanStart requested (cursor_at order aft) fallback = Inr \<lparr>start_order = order, start_after = aft\<rparr>"
  using assms
  by (cases order; cases aft)
    (auto simp: scanStart_def cursor_at_def nextCursor_def cursor_after_def parse_order_def)

lemma follow_pages:
  fixes pick :: "id \<Rightarrow> 'r option"
  assumes s: "sorted_wrt (<) ids" and l: "0 < limit"
    and key: "\<And>i v. pick i = Some v \<Longrightarrow> get_id v = i"
    and scan: "\<And>aft. \<forall>i. aft = Some i \<longrightarrow> i \<in> set ids \<Longrightarrow> scan (cursor_at order aft) =
      page_of get_id (take (limit + 1) (List.map_filter pick (visited ids order aft))) limit order"
  shows "length (visited ids order aft) < fuel \<Longrightarrow> \<forall>i. aft = Some i \<longrightarrow> i \<in> set ids \<Longrightarrow>
    follow fuel scan (cursor_at order aft) = Inr (List.map_filter pick (visited ids order aft))"
proof (induction fuel arbitrary: aft)
  case (Suc fuel)
  define vs where "vs = List.map_filter pick (visited ids order aft)"
  have page: "scan (cursor_at order aft) = page_of get_id (take (limit + 1) vs) limit order"
    using scan[OF Suc.prems(2)] by (simp add: vs_def)
  show ?case
  proof (cases "length vs \<le> limit")
    case True
    then show ?thesis using page by (simp add: page_of_def vs_def)
  next
    case False
    then have "limit - 1 < length vs" using l by simp
    from map_filter_split[OF this[unfolded vs_def]]
    obtain pre x post where x: "visited ids order aft = pre @ x # post"
      "pick x = Some (vs ! (limit - 1))" "List.map_filter pick post = drop limit vs"
      using l unfolding vs_def[symmetric] by auto
    have post: "visited ids order (Some x) = post" using visited_after[OF s x(1)] .
    have items: "take limit (take (limit + 1) vs) = take limit vs" by (simp add: min_def)
    have "last (take limit vs) = vs ! (limit - 1)" using False l by (subst last_conv_nth) auto
    then have "get_id (last (take limit vs)) = x" using key[OF x(2)] by simp
    then have "scan (cursor_at order aft) = Inr \<lparr>page_items = take limit vs, page_next = cursor_at order (Some x)\<rparr>"
      using page False l items by (auto simp: page_of_def Let_def cursor_at_def min_def)
    moreover have "x \<in> set ids"
      using x(1) by (cases "(ids, order, aft)" rule: visited.cases) (auto dest!: arg_cong[of _ _ set])
    then have "follow fuel scan (cursor_at order (Some x)) = Inr (List.map_filter pick (visited ids order (Some x)))"
      using Suc.prems(1) x(1) post by (intro Suc.IH) auto
    ultimately show ?thesis using post x(3) by (simp add: cursor_at_def vs_def)
  qed
qed simp

lemma follow_complete:
  fixes pick :: "id \<Rightarrow> 'r option"
  assumes s: "sorted_wrt (<) ids" and safe: "\<forall>i\<in>set ids. isSafeInteger i" and l: "0 < limit"
    and key: "\<And>i v. pick i = Some v \<Longrightarrow> get_id v = i"
    and req: "requested = Some (order_name order) \<or> requested = None \<and> fallback = order"
  shows "length ids < fuel \<Longrightarrow>
    follow fuel (scan_ids get_id pick ids requested fallback limit) None = Inr (List.map_filter pick (visited ids order None))"
proof -
  assume f: "length ids < fuel"
  have "scan_ids get_id pick ids requested fallback limit (cursor_at order aft) =
      page_of get_id (take (limit + 1) (List.map_filter pick (visited ids order aft))) limit order"
    if "\<forall>i. aft = Some i \<longrightarrow> i \<in> set ids" for aft
    using scanStart_cursor_at[of requested order aft fallback] req that safe s
    by (auto simp: scan_ids_def collect_ids)
  from follow_pages[OF s l key this, of None fuel] show ?thesis
    using f by (cases order) (simp_all add: cursor_at_def)
qed

end
