(* ===== verification/Delta_Immutable.thy ===== *)
theory Delta_Immutable
  imports Delta_Laws
begin

text \<open>
  Applying a batch without mutating the previous value (\<open>applyImmutable\<close>, \<open>appendCopy\<close> and
  \<open>copyContainers\<close> of \<open>packages/chord/src/delta/index.ts\<close>). The values are those of the copies;
  whether a container was already copied in this replay (\<open>owned.has\<close>) is an argument of the
  definitions, and the results do not depend on it.
\<close>

subsection \<open>Copying the containers on a path\<close>

text \<open>\<open>Object.hasOwn\<close>: the own keys of an array are its indexes, in decimal, and \<open>length\<close>.\<close>

fun hasOwn :: "json \<Rightarrow> seg \<Rightarrow> bool" where
  "hasOwn (JArr xs) (Idx n) = (0 \<le> n \<and> nat n < length xs)"
| "hasOwn (JArr xs) (Key k) = (k = ''length'' \<or> k \<in> set (map show_nat [0..<length xs]))"
| "hasOwn (JObj kvs) s = (map_of kvs (property_key s) \<noteq> None)"
| "hasOwn v s = False"

text \<open>The walk of \<open>copyContainers\<close>: which paths it refuses, and how.\<close>

fun copy_walk :: "path \<Rightarrow> json \<Rightarrow> path \<Rightarrow> (delta_error, unit) result" where
  "copy_walk full node [] = Inr ()"
| "copy_walk full node (s # ss) =
     (if \<not> hasOwn node s then Inl (PathError full)
      else if isArray node \<and> \<not> is_index s then Inl (UnsafePathError (seg_json s))
      else (case child node s of
          None \<Rightarrow> Inl (PathError full)
        | Some c \<Rightarrow> if isObj c then copy_walk full c ss else Inl (PathError full)))"

definition copyContainers :: "json \<Rightarrow> path \<Rightarrow> (delta_error, json) result" where
  "copyContainers root p =
     (if isObj root then andThen (copy_walk p root p) (\<lambda>_. Inr root) else Inl (PathError p))"

subsection \<open>Appending to an array\<close>

text \<open>The walk of \<open>appendCopy\<close>; \<open>None\<close> for a path it leaves to the general case.\<close>

fun append_walk :: "json \<Rightarrow> path \<Rightarrow> json option" where
  "append_walk node [] = Some node"
| "append_walk node (s # ss) =
     (let valid = (case s of
          Key k \<Rightarrow> k \<notin> set RESERVED_SEGMENTS \<and> isObj node \<and> \<not> isArray node
        | Idx n \<Rightarrow> 0 \<le> n \<and> isArray node) in
      if \<not> valid \<or> \<not> hasOwn node s then None
      else (case child node s of None \<Rightarrow> None | Some c \<Rightarrow> append_walk c ss))"

definition appendCopy ::
  "bool \<Rightarrow> json \<Rightarrow> path \<Rightarrow> int \<Rightarrow> int \<Rightarrow> json list \<Rightarrow> (delta_error, json option) result" where
  "appendCopy owned root p i r items =
     (if r \<noteq> 0 then Inr None
      else (case append_walk root p of
          Some (JArr xs) \<Rightarrow>
            if owned \<or> i \<noteq> int (length xs) then Inr None
            else
              let appended = JArr (xs @ items) in
              if p = [] then Inr (Some appended)
              else andThen (copyContainers root (butlast p)) (\<lambda>copied.
                andThen (resolve copied (butlast p)) (\<lambda>parent.
                Inr (Some (replaceAt copied (butlast p) (set_child parent (last p) appended)))))
        | _ \<Rightarrow> Inr None))"

subsection \<open>The replay\<close>

fun copied_path :: "op \<Rightarrow> path" where
  "copied_path (OpP p i r items) = p"
| "copied_path (OpM p perm) = p"
| "copied_path op = butlast (op_path op)"

definition apply_immutable_op :: "bool \<Rightarrow> json \<Rightarrow> op \<Rightarrow> (delta_error, json) result" where
  "apply_immutable_op owned root op = andThen (assertValidOp (op_json op)) (\<lambda>_.
     (case op of
        OpR v \<Rightarrow> Inr v
      | _ \<Rightarrow>
          andThen (case op of OpP p i r items \<Rightarrow> appendCopy owned root p i r items | _ \<Rightarrow> Inr None)
            (\<lambda>appended. case appended of
                Some v \<Rightarrow> Inr v
              | None \<Rightarrow> andThen (copyContainers root (copied_path op)) (\<lambda>copied. apply_op copied op))))"

text \<open>\<open>owned i\<close> tells whether the target of the \<open>i\<close>-th operation was copied earlier in this replay.\<close>

fun apply_immutable_ops :: "(nat \<Rightarrow> bool) \<Rightarrow> nat \<Rightarrow> json \<Rightarrow> op list \<Rightarrow> (delta_error, json) result" where
  "apply_immutable_ops owned i root [] = Inr root"
| "apply_immutable_ops owned i root (op # ops) =
     andThen (apply_immutable_op (owned i) root op) (\<lambda>v. apply_immutable_ops owned (i + 1) v ops)"

definition applyImmutableBatches :: "(nat \<Rightarrow> bool) \<Rightarrow> json \<Rightarrow> op list list \<Rightarrow> (delta_error, json) result" where
  "applyImmutableBatches owned root batches = apply_immutable_ops owned 0 root (concat batches)"

definition applyImmutable :: "(nat \<Rightarrow> bool) \<Rightarrow> json \<Rightarrow> op list \<Rightarrow> (delta_error, json) result" where
  "applyImmutable owned root ops = applyImmutableBatches owned root [ops]"

subsection \<open>Agreement with the applier\<close>

lemma hasOwn_child: "isArray node \<longrightarrow> is_index s \<Longrightarrow> hasOwn node s \<longleftrightarrow> child node s \<noteq> None"
  by (cases node; cases s) auto

lemma copy_walk_iff:
  "isObj node \<Longrightarrow> copy_walk f node p = Inr () \<longleftrightarrow> (\<exists>x. resolveValue f node p = Inr x \<and> isObj x)"
proof (induction p arbitrary: node)
  case (Cons s p)
  show ?case
  proof (cases "isArray node \<longrightarrow> is_index s")
    case True
    show ?thesis
    proof (cases "child node s")
      case None
      then show ?thesis using hasOwn_child[OF True] Cons.prems True by simp
    next
      case (Some c)
      have "isObj c" if "resolveValue f c p = Inr x" "isObj x" for x
        using that by (cases p) (auto split: if_splits)
      then show ?thesis using hasOwn_child[OF True] Cons Some True by auto
    qed
  qed (use Cons.prems in auto)
qed simp

lemma copyContainers_iff:
  "copyContainers root p = Inr v \<longleftrightarrow> v = root \<and> (\<exists>x. resolve root p = Inr x)"
proof (cases "isObj root")
  case True
  have "copy_walk p root p = Inr () \<longleftrightarrow> (\<exists>x. resolve root p = Inr x)"
    using copy_walk_iff[OF True] by (auto simp: resolve_def andThen_eq_Inr)
  then show ?thesis using True by (auto simp: copyContainers_def andThen_eq_Inr)
next
  case False
  have "resolve root p \<noteq> Inr x" for x using False by (cases p) (auto simp: resolve_iff)
  then show ?thesis using False by (simp add: copyContainers_def)
qed

text \<open>What the applier resolves, the replay can copy.\<close>

lemma apply_op_resolves:
  assumes "apply_op root op = Inr v" and "\<not> is_replace op"
  shows "\<exists>x. resolve root (copied_path op) = Inr x"
proof -
  have par: "\<exists>x. resolve root (butlast p) = Inr x" if "at_parent root p f = Inr v" for p f
    using that by (auto simp: at_parent_def andThen_eq_Inr)
  have arr: "\<exists>x. resolve root p = Inr x" if "at_array root p f = Inr v" for p f
    using that by (auto simp: at_array_iff resolve_iff split: if_splits)
  show ?thesis using assms par arr apply_op_valid[OF assms(1)]
    by (cases op) (simp_all add: apply_op_eq)
qed

lemma append_walk_get:
  "append_walk node p = Some v \<Longrightarrow> get node p = Some v \<and> list_all safe_seg p"
proof (induction p arbitrary: node)
  case (Cons s p)
  then obtain c where "child node s = Some c" "append_walk c p = Some v"
    by (auto simp: Let_def split: if_splits option.splits seg.splits)
  then show ?case using Cons by (auto simp: Let_def split: if_splits seg.splits)
qed simp

lemma get_resolve: "get root p = Some v \<Longrightarrow> isObj v \<Longrightarrow> resolve root p = Inr v"
proof (induction p arbitrary: root)
  case (Cons s p)
  then obtain c where "child root s = Some c" "get c p = Some v" by (auto split: option.splits)
  then show ?case using Cons resolve_below by blast
qed (simp add: resolve_def)

lemma appendCopy_correct:
  assumes "valid_op (OpP p i r items)" and "appendCopy owned root p i r items = Inr (Some v)"
  shows "apply_op root (OpP p i r items) = Inr v"
proof -
  obtain xs where xs: "r = 0" "append_walk root p = Some (JArr xs)" "i = int (length xs)"
    using assms(2) by (auto simp: appendCopy_def split: if_splits option.splits json.splits)
  have g: "get root p = Some (JArr xs)" "list_all safe_seg p" using append_walk_get[OF xs(2)] by auto
  have "apply_op (JArr xs) (OpP [] i r items) = Inr (JArr (xs @ items))"
    using xs by (simp add: apply_op_eq at_array_def splice_array_eq js_splice_def)
  moreover have "valid_op (OpP [] i r items)" using xs by simp
  ultimately have op: "apply_op root (OpP p i r items) = Inr (replaceAt root p (JArr (xs @ items)))"
    using apply_op_under[OF g] by (fastforce simp: under_simps)
  have "v = replaceAt root p (JArr (xs @ items))"
  proof (cases "p = []")
    case True
    then show ?thesis using assms(2) xs by (auto simp: appendCopy_def Let_def split: if_splits)
  next
    case False
    then obtain q s where p: "p = q @ [s]" by (cases p rule: rev_cases) auto
    obtain c where c: "get root q = Some c" "child c s = Some (JArr xs)"
      using g(1) p by (auto simp: get_append bind_eq_Some_conv split: option.splits)
    have res: "resolve root q = Inr c" using c child_isObj by (blast intro: get_resolve)
    have "copyContainers root q = Inr root" using res by (simp add: copyContainers_iff)
    then have "v = replaceAt root q (set_child c s (JArr (xs @ items)))"
      using assms(2) xs p res by (auto simp: appendCopy_def Let_def split: if_splits)
    then show ?thesis using c p by (simp add: replaceAt_append)
  qed
  then show ?thesis using op by simp
qed

text \<open>\<open>appendCopy\<close> never throws.\<close>

lemma appendCopy_total: "\<exists>v. appendCopy owned root p i r items = Inr v"
proof (cases "append_walk root p")
  case (Some t)
  show ?thesis
  proof (cases "\<exists>xs. t = JArr xs \<and> p \<noteq> []")
    case True
    then obtain xs where t: "t = JArr xs" "p \<noteq> []" by blast
    then obtain q s where p: "p = q @ [s]" by (cases p rule: rev_cases) auto
    obtain c where c: "get root q = Some c" "child c s = Some t"
      using append_walk_get[OF Some] p by (auto simp: get_append bind_eq_Some_conv split: option.splits)
    have res: "resolve root q = Inr c" using c child_isObj by (blast intro: get_resolve)
    have "copyContainers root q = Inr root" using res by (simp add: copyContainers_iff)
    then show ?thesis using Some t p res by (simp add: appendCopy_def Let_def)
  next
    case False
    then show ?thesis using Some by (cases t) (auto simp: appendCopy_def Let_def)
  qed
qed (simp add: appendCopy_def)

lemma apply_immutable_op_iff:
  "apply_immutable_op owned root op = Inr v \<longleftrightarrow> apply_op root op = Inr v"
proof (cases "valid_op op")
  case False
  then have "assertValidOp (op_json op) \<noteq> Inr ()" by (simp only: assertValidOp_iff not_False_eq_True)
  then show ?thesis by (cases "assertValidOp (op_json op)") (auto simp: apply_immutable_op_def apply_op_def)
next
  case True
  then have valid: "assertValidOp (op_json op) = Inr ()" by (simp only: assertValidOp_iff)
  have gen: "andThen (copyContainers root (copied_path op)) (\<lambda>copied. apply_op copied op) = Inr v
      \<longleftrightarrow> apply_op root op = Inr v" if "\<not> is_replace op"
    using apply_op_resolves[of root op v] that by (auto simp: andThen_eq_Inr copyContainers_iff)
  show ?thesis
  proof (cases op)
    case (OpR w)
    then show ?thesis using True valid by (simp add: apply_immutable_op_def apply_op_eq)
  next
    case (OpP p i r items)
    obtain a where a: "appendCopy owned root p i r items = Inr a" using appendCopy_total by blast
    show ?thesis
    proof (cases a)
      case None
      then show ?thesis using gen OpP valid a by (simp add: apply_immutable_op_def del: op_json.simps)
    next
      case (Some w)
      have "apply_op root op = Inr w" using appendCopy_correct[of p i r items owned root w] OpP True a Some by simp
      then show ?thesis using OpP valid a Some by (simp add: apply_immutable_op_def del: op_json.simps)
    qed
  qed (use gen valid in \<open>simp_all add: apply_immutable_op_def del: op_json.simps\<close>)
qed

lemma apply_immutable_ops_iff:
  "apply_immutable_ops owned i root ops = Inr v \<longleftrightarrow> apply_ops root ops = Inr v"
  by (induction ops arbitrary: i root) (auto simp: andThen_eq_Inr apply_immutable_op_iff)

text \<open>
  C37. Replaying batches with copies gives what applying their operations in place gives: it returns
  the same value, and fails exactly when the applier fails, whichever containers were copied before.
\<close>

theorem applyImmutableBatches_equivalent:
  "applyImmutableBatches owned root batches = Inr v \<longleftrightarrow> apply_ops root (concat batches) = Inr v"
  by (simp add: applyImmutableBatches_def apply_immutable_ops_iff)

end
