(* ===== verification/Storage_State.thy ===== *)
theory Storage_State
  imports Storage_Scan Delta_Immutable
begin

text \<open>
  The state of \<open>MemoryStorage\<close> and its commits (\<open>packages/durable/src/storage/memory.ts\<close>): tables,
  their indexes, document incarnations with their revisions, and the checks and the application
  of a batch of writes. Values are immutable here, so \<open>clone\<close> and \<open>freeze\<close> are identities. The
  keys \<open>scopeKey\<close> and \<open>addressKey\<close> are injective encodings of a scope and an address, which stand
  for themselves.
\<close>

subsection \<open>State\<close>

datatype table_name = TConversation | TEntry | TTask | TSubmission | TDocument

record revision =
  rev_content :: doc_content
  rev_seq :: seq

record stored_state =
  sd_record :: document
  sd_revisions :: "revision list"

record document_action =
  act_create :: "document_create option"
  act_content :: "doc_content option"
  act_retire :: bool

record address_index =
  ax_ids :: "id list"
  ax_current :: "id option"

record storage =
  st_recordTypes :: "id \<rightharpoonup> table_name"
  st_conversations :: "id \<rightharpoonup> conversation"
  st_conversationIds :: "id list"
  st_convByOwnerConversation :: "id \<rightharpoonup> id list"
  st_convByOwnerTask :: "id \<rightharpoonup> id list"
  st_entries :: "id \<rightharpoonup> entry"
  st_entryIds :: "id \<rightharpoonup> id list"
  st_headEntryIds :: "id \<rightharpoonup> id list"
  st_entryCommitSeqs :: "id \<rightharpoonup> seq"
  st_tasks :: "id \<rightharpoonup> task"
  st_taskIds :: "id list"
  st_taskIdsByStatus :: "task_status \<Rightarrow> id list"
  st_submissions :: "id \<rightharpoonup> submission"
  st_submissionIds :: "id list"
  st_submissionIdsByStatus :: "submission_status \<Rightarrow> id list"
  st_submissionIdsByRequest :: "id \<rightharpoonup> (string \<times> id) list"
  st_documents :: "id \<rightharpoonup> stored_state"
  st_documentAddresses :: "doc_address \<rightharpoonup> address_index"
  st_documentIdsByScope :: "doc_scope \<rightharpoonup> id list"
  st_nextId :: id
  st_nextSeq :: seq
  st_closed :: bool

definition new_storage :: storage where
  "new_storage =
     \<lparr>st_recordTypes = Map.empty, st_conversations = Map.empty, st_conversationIds = [],
      st_convByOwnerConversation = Map.empty, st_convByOwnerTask = Map.empty,
      st_entries = Map.empty, st_entryIds = Map.empty, st_headEntryIds = Map.empty,
      st_entryCommitSeqs = Map.empty, st_tasks = Map.empty, st_taskIds = [],
      st_taskIdsByStatus = (\<lambda>s. []), st_submissions = Map.empty, st_submissionIds = [],
      st_submissionIdsByStatus = (\<lambda>s. []), st_submissionIdsByRequest = Map.empty,
      st_documents = Map.empty, st_documentAddresses = Map.empty,
      st_documentIdsByScope = Map.empty, st_nextId = 2, st_nextSeq = 1, st_closed = False\<rparr>"

subsection \<open>Documents\<close>

text \<open>\<open>recordAddressKey\<close>, of a record or of the fields that create one.\<close>

definition record_address :: "'a document_create_scheme \<Rightarrow> doc_address" where
  "record_address r = \<lparr>addr_kind = doc_kind r, addr_scope = doc_scope r, addr_key = doc_key r\<rparr>"

fun isAliveAt :: "document \<Rightarrow> doc_point \<Rightarrow> bool" where
  "isAliveAt r AtCurrent = (doc_retiredAt r = None)"
| "isAliveAt r (AtSeq s) =
     (doc_createdAt r \<le> s \<and> (case doc_retiredAt r of None \<Rightarrow> True | Some t \<Rightarrow> s < t))"

fun is_conversation_scope :: "doc_scope \<Rightarrow> bool" where
  "is_conversation_scope (ConversationScope c) = True"
| "is_conversation_scope s = False"

definition isCurrentOnly :: "'a document_create_scheme \<Rightarrow> bool" where
  "isCurrentOnly r = (\<not> is_conversation_scope (doc_scope r) \<or> doc_history r = Some Latest)"

text \<open>The last base among revisions, with the revisions after it.\<close>

definition last_base :: "revision list \<Rightarrow> (revision \<times> revision list) option" where
  "last_base revs =
     (case dropWhile (\<lambda>r. \<not> is_base_content (rev_content r)) (rev revs) of
        [] \<Rightarrow> None
      | b # _ \<Rightarrow> Some (b, rev (takeWhile (\<lambda>r. \<not> is_base_content (rev_content r)) (rev revs))))"

text \<open>One step of the replay of \<open>documentDeltaBatches\<close>.\<close>

definition replay_delta :: "int \<Rightarrow> json \<Rightarrow> revision \<Rightarrow> (storage_error, json) result" where
  "replay_delta version v revision =
     (case rev_content revision of
        Delta w ops \<Rightarrow>
          if w \<noteq> version then Inl (CommitError ''crosses a stored version boundary without a base'')
          else (case applyImmutable (\<lambda>i. False) v ops of Inl e \<Rightarrow> Inl (DeltaFailed e) | Inr u \<Rightarrow> Inr u)
      | Base w u \<Rightarrow> Inl (CommitError ''crosses a stored version boundary without a base''))"

definition materializeDocument ::
  "storage \<Rightarrow> id \<Rightarrow> doc_point \<Rightarrow> (storage_error, stored_document option) result" where
  "materializeDocument st i at =
     (case st_documents st i of
        None \<Rightarrow> Inr None
      | Some stored \<Rightarrow>
          if at \<noteq> AtCurrent \<and> isCurrentOnly (sd_record stored)
          then Inl (RequestError ''Document does not retain historical content'')
          else if \<not> isAliveAt (sd_record stored) at then Inr None
          else
            let revs = (case at of
                AtCurrent \<Rightarrow> sd_revisions stored
              | AtSeq s \<Rightarrow> filter (\<lambda>r. rev_seq r \<le> s) (sd_revisions stored)) in
            (case last_base revs of
               None \<Rightarrow> Inl (CommitError ''Document is missing a required base'')
             | Some (b, deltas) \<Rightarrow>
                 (case rev_content b of
                    Delta version ops \<Rightarrow> Inl (CommitError ''Document is missing a required base'')
                  | Base version base \<Rightarrow>
                      andThen (run_steps (replay_delta version) base deltas) (\<lambda>v.
                      Inr (Some \<lparr>stored_record = sd_record stored, stored_version = version,
                                 stored_value = v, stored_deltas = length deltas\<rparr>)))))"

subsection \<open>Checking a batch\<close>

fun is_copy :: "storage_write \<Rightarrow> bool" where
  "is_copy (WDocCopy r s at) = True"
| "is_copy w = False"

fun changed_documents :: "storage_write list \<Rightarrow> id set" where
  "changed_documents [] = {}"
| "changed_documents (WDocCreate r v b # ws) = insert (doc_id r) (changed_documents ws)"
| "changed_documents (WDocCopy r s at # ws) = insert (doc_id r) (changed_documents ws)"
| "changed_documents (WDocChange i c # ws) = insert i (changed_documents ws)"
| "changed_documents (WDocRetire i # ws) = insert i (changed_documents ws)"
| "changed_documents (w # ws) = changed_documents ws"

text \<open>A copy resolved against the state before the batch.\<close>

definition resolve_copy ::
  "storage \<Rightarrow> id set \<Rightarrow> document_create \<Rightarrow> id \<Rightarrow> doc_point \<Rightarrow> (storage_error, storage_write) result" where
  "resolve_copy st changed record source at =
     (if source \<in> changed then Inl (CommitError ''Fork source document is changed in the copy batch'')
      else andThen (materializeDocument st source at) (\<lambda>found.
        (case found of
           None \<Rightarrow> Inl (CommitError ''Fork source document cannot be read'')
         | Some stored \<Rightarrow>
             let from = stored_record stored in
             if \<not> is_conversation_scope (doc_scope from) \<or> \<not> is_conversation_scope (doc_scope record) \<or>
                doc_kind from \<noteq> doc_kind record \<or> doc_key from \<noteq> doc_key record \<or>
                doc_history from \<noteq> doc_history record \<or> doc_fork from \<noteq> doc_fork record
             then Inl (CommitError ''Fork source document does not match the copied record'')
             else Inr (WDocCreate record (stored_version stored) (stored_value stored)))))"

fun resolve_copies ::
  "storage \<Rightarrow> id set \<Rightarrow> storage_write list \<Rightarrow> (storage_error, storage_write list) result" where
  "resolve_copies st changed [] = Inr []"
| "resolve_copies st changed (w # ws) =
     andThen (case w of
         WDocCopy record source at \<Rightarrow>
           (case resolve_copy st changed record source at of
              Inl e \<Rightarrow> Inl (CopyRejected (doc_id record) e)
            | Inr created \<Rightarrow> Inr created)
       | _ \<Rightarrow> Inr w) (\<lambda>resolved.
     andThen (resolve_copies st changed ws) (\<lambda>rest. Inr (resolved # rest)))"

definition resolveDocumentCopies ::
  "storage \<Rightarrow> storage_write list \<Rightarrow> (storage_error, storage_write list) result" where
  "resolveDocumentCopies st ws =
     (if \<not> list_ex is_copy ws then Inr ws else resolve_copies st (changed_documents ws) ws)"

text \<open>The table and the ID a write claims; changes and retirements of documents claim none.\<close>

fun claim :: "storage_write \<Rightarrow> (table_name \<times> id) option" where
  "claim (WConversation r) = Some (TConversation, conv_id r)"
| "claim (WEntry r) = Some (TEntry, entry_id r)"
| "claim (WTask r) = Some (TTask, task_id r)"
| "claim (WSubmission r) = Some (TSubmission, sub_id r)"
| "claim (WDocCreate r v b) = Some (TDocument, doc_id r)"
| "claim (WDocCopy r s at) = Some (TDocument, doc_id r)"
| "claim w = None"

definition rewritable :: "table_name \<Rightarrow> bool" where
  "rewritable t = (t = TTask \<or> t = TSubmission)"

definition check_claim ::
  "(id \<rightharpoonup> table_name) \<Rightarrow> (id \<rightharpoonup> table_name) \<Rightarrow> table_name \<Rightarrow> id \<Rightarrow> (storage_error, unit) result" where
  "check_claim types claimed table i =
     (if \<not> rewritable table
      then andThen (ensure (types i = None) (CommitError ''ID already belongs to another record'')) (\<lambda>_.
           ensure (claimed i = None) (CommitError ''ID is written more than once''))
      else andThen (ensure (types i = None \<or> types i = Some table)
             (CommitError ''ID already belongs to another record'')) (\<lambda>_.
           ensure (claimed i = None \<or> claimed i = Some table)
             (CommitError ''ID is written as two record types'')))"

fun check_ids ::
  "(id \<rightharpoonup> table_name) \<Rightarrow> (id \<rightharpoonup> table_name) \<Rightarrow> storage_write list \<Rightarrow> (storage_error, unit) result" where
  "check_ids types claimed [] = Inr ()"
| "check_ids types claimed (w # ws) =
     (case claim w of
        None \<Rightarrow> check_ids types claimed ws
      | Some (table, i) \<Rightarrow> andThen (check_claim types claimed table i)
          (\<lambda>_. check_ids types (claimed(i \<mapsto> table)) ws))"

definition checkGlobalIds :: "storage \<Rightarrow> storage_write list \<Rightarrow> (storage_error, unit) result" where
  "checkGlobalIds st ws = check_ids (st_recordTypes st) Map.empty ws"

subsection \<open>Document actions\<close>

text \<open>The actions of a batch, by document in the order of their first write.\<close>

type_synonym actions = "(id \<times> document_action) list"

definition action_of :: "actions \<Rightarrow> id \<Rightarrow> document_action" where
  "action_of acts i =
     (case map_of acts i of
        None \<Rightarrow> \<lparr>act_create = None, act_content = None, act_retire = False\<rparr>
      | Some a \<Rightarrow> a)"

definition prepare_action :: "actions \<Rightarrow> storage_write \<Rightarrow> (storage_error, actions) result" where
  "prepare_action acts w =
     (case w of
        WDocCreate r version base \<Rightarrow>
          let a = action_of acts (doc_id r) in
          if act_create a \<noteq> None \<or> act_content a \<noteq> None
          then Inl (CommitError ''Document has more than one content command'')
          else Inr (AList.update (doc_id r)
                 (a\<lparr>act_create := Some r, act_content := Some (Base version base)\<rparr>) acts)
      | WDocChange i c \<Rightarrow>
          let a = action_of acts i in
          if act_content a \<noteq> None then Inl (CommitError ''Document has more than one content command'')
          else Inr (AList.update i (a\<lparr>act_content := Some c\<rparr>) acts)
      | WDocRetire i \<Rightarrow>
          let a = action_of acts i in
          if act_retire a then Inl (CommitError ''Document is retired more than once'')
          else Inr (AList.update i (a\<lparr>act_retire := True\<rparr>) acts)
      | _ \<Rightarrow> Inr acts)"

definition prepareDocumentActions :: "storage_write list \<Rightarrow> (storage_error, actions) result" where
  "prepareDocumentActions ws = run_steps prepare_action [] ws"

definition current_at :: "storage \<Rightarrow> doc_address \<Rightarrow> id option" where
  "current_at st a = (case st_documentAddresses st a of None \<Rightarrow> None | Some ax \<Rightarrow> ax_current ax)"

type_synonym live_counts = "(doc_address \<times> int) list"

definition check_content ::
  "stored_state option \<Rightarrow> doc_content option \<Rightarrow> (storage_error, unit) result" where
  "check_content existing content =
     (case content of
        Some (Delta version ops) \<Rightarrow>
          (case existing of
             Some stored \<Rightarrow>
               if sd_revisions stored = [] then Inl (CommitError ''Document delta has no base'')
               else ensure (content_version (rev_content (last (sd_revisions stored))) = version)
                 (CommitError ''Document version transition requires a base'')
           | None \<Rightarrow> Inl (CommitError ''Document delta has no base''))
      | _ \<Rightarrow> Inr ())"

definition action_address :: "storage \<Rightarrow> id \<Rightarrow> document_action \<Rightarrow> doc_address option" where
  "action_address st i a =
     (case act_create a of
        Some r \<Rightarrow> Some (record_address r)
      | None \<Rightarrow> map_option (\<lambda>stored. record_address (sd_record stored)) (st_documents st i))"

text \<open>How an action changes the number of live incarnations at its address.\<close>

definition live_change :: "storage \<Rightarrow> doc_address \<Rightarrow> id \<Rightarrow> document_action \<Rightarrow> int" where
  "live_change st key i a =
     (if act_create a \<noteq> None \<and> \<not> act_retire a then 1 else 0) -
     (if act_retire a \<and> current_at st key = Some i then 1 else 0)"

definition check_action ::
  "storage \<Rightarrow> live_counts \<Rightarrow> id \<times> document_action \<Rightarrow> (storage_error, live_counts) result" where
  "check_action st live ia =
     (let (i, a) = ia; existing = st_documents st i in
      andThen (ensure (\<not> (act_create a = None \<and> existing = None)) (CommitError ''Unknown document'')) (\<lambda>_.
      andThen (ensure (\<not> (act_create a \<noteq> None \<and> existing \<noteq> None)) (CommitError ''Document already exists'')) (\<lambda>_.
      andThen (ensure (case existing of None \<Rightarrow> True | Some stored \<Rightarrow> doc_retiredAt (sd_record stored) = None)
        (CommitError ''Document is retired'')) (\<lambda>_.
      andThen (check_content existing (act_content a)) (\<lambda>_.
      (case action_address st i a of
         None \<Rightarrow> Inl (CommitError ''Unknown document'')
       | Some key \<Rightarrow>
           let count = (case map_of live key of
               Some n \<Rightarrow> n
             | None \<Rightarrow> if current_at st key = None then 0 else 1) in
           Inr (AList.update key (count + live_change st key i a) live)))))))"

definition checkDocumentActions :: "storage \<Rightarrow> actions \<Rightarrow> (storage_error, unit) result" where
  "checkDocumentActions st acts =
     andThen (run_steps (check_action st) [] acts) (\<lambda>live.
     ensure (list_all (\<lambda>kn. \<not> snd kn > 1) live)
       (CommitError ''Document address already has a current incarnation''))"

subsection \<open>Applying a batch\<close>

definition bump :: "id \<Rightarrow> storage \<Rightarrow> storage" where
  "bump i st = st\<lparr>st_nextId := max (st_nextId st) (i + 1)\<rparr>"

definition apply_conversation :: "conversation \<Rightarrow> storage \<Rightarrow> storage" where
  "apply_conversation r st =
     (let i = conv_id r;
          st1 = st\<lparr>st_recordTypes := (st_recordTypes st)(i \<mapsto> TConversation),
                   st_conversations := (st_conversations st)(i \<mapsto> r),
                   st_conversationIds := insertSorted (st_conversationIds st) i\<rparr>;
          st2 = (case conv_owner r of
              None \<Rightarrow> st1
            | Some owner \<Rightarrow> st1\<lparr>
                st_convByOwnerConversation :=
                  insertMapId (st_convByOwnerConversation st1) (owner_conversation owner) i,
                st_convByOwnerTask := insertMapId (st_convByOwnerTask st1) (owner_task owner) i\<rparr>) in
      bump i st2)"

definition apply_entry :: "seq \<Rightarrow> entry \<Rightarrow> storage \<Rightarrow> storage" where
  "apply_entry s r st =
     (let i = entry_id r;
          st1 = st\<lparr>st_recordTypes := (st_recordTypes st)(i \<mapsto> TEntry),
                   st_entries := (st_entries st)(i \<mapsto> r),
                   st_entryCommitSeqs := (st_entryCommitSeqs st)(i \<mapsto> s),
                   st_entryIds := insertMapId (st_entryIds st) (entry_conversation r) i\<rparr>;
          st2 = (if entry_head r = None then st1
                 else st1\<lparr>st_headEntryIds := insertMapId (st_headEntryIds st1) (entry_conversation r) i\<rparr>) in
      bump i st2)"

definition apply_task :: "task \<Rightarrow> storage \<Rightarrow> storage" where
  "apply_task r st =
     (let i = task_id r; s = task_status r; by = st_taskIdsByStatus st;
          st1 = st\<lparr>st_recordTypes := (st_recordTypes st)(i \<mapsto> TTask)\<rparr>;
          st2 = (case st_tasks st i of
              None \<Rightarrow> st1\<lparr>st_taskIds := insertSorted (st_taskIds st1) i,
                         st_taskIdsByStatus := by(s := insertSorted (by s) i)\<rparr>
            | Some previous \<Rightarrow>
                let q = task_status previous in
                if q = s then st1
                else st1\<lparr>st_taskIdsByStatus :=
                       (let by1 = by(q := removeSorted (by q) i) in by1(s := insertSorted (by1 s) i))\<rparr>) in
      bump i (st2\<lparr>st_tasks := (st_tasks st2)(i \<mapsto> r)\<rparr>))"

text \<open>The request index forgets the previous request ID of a submission and learns the new one.\<close>

definition forget_request :: "submission option \<Rightarrow> id \<Rightarrow> (id \<rightharpoonup> (string \<times> id) list) \<Rightarrow> (id \<rightharpoonup> (string \<times> id) list)" where
  "forget_request previous i index =
     (case previous of
        None \<Rightarrow> index
      | Some p \<Rightarrow>
          (case sub_requestId p of
             None \<Rightarrow> index
           | Some q \<Rightarrow>
               (case index (sub_conversation p) of
                  None \<Rightarrow> index
                | Some requests \<Rightarrow>
                    if map_of requests q = Some i
                    then let left = AList.delete q requests in
                      index(sub_conversation p := (if left = [] then None else Some left))
                    else index)))"

definition learn_request :: "submission \<Rightarrow> (id \<rightharpoonup> (string \<times> id) list) \<Rightarrow> (id \<rightharpoonup> (string \<times> id) list)" where
  "learn_request r index =
     (case sub_requestId r of
        None \<Rightarrow> index
      | Some q \<Rightarrow>
          let requests = (case index (sub_conversation r) of None \<Rightarrow> [] | Some rs \<Rightarrow> rs) in
          index(sub_conversation r \<mapsto> AList.update q (sub_id r) requests))"

definition apply_submission :: "submission \<Rightarrow> storage \<Rightarrow> storage" where
  "apply_submission r st =
     (let i = sub_id r; s = sub_status r; by = st_submissionIdsByStatus st;
          previous = st_submissions st i;
          st1 = st\<lparr>st_recordTypes := (st_recordTypes st)(i \<mapsto> TSubmission)\<rparr>;
          st2 = (case previous of
              None \<Rightarrow> st1\<lparr>st_submissionIds := insertSorted (st_submissionIds st1) i,
                         st_submissionIdsByStatus := by(s := insertSorted (by s) i)\<rparr>
            | Some p \<Rightarrow>
                let q = sub_status p in
                if q = s then st1
                else st1\<lparr>st_submissionIdsByStatus :=
                       (let by1 = by(q := removeSorted (by q) i) in by1(s := insertSorted (by1 s) i))\<rparr>) in
      bump i (st2\<lparr>st_submissions := (st_submissions st2)(i \<mapsto> r),
                  st_submissionIdsByRequest :=
                    learn_request r (forget_request previous i (st_submissionIdsByRequest st2))\<rparr>))"

text \<open>One iteration of the loop of \<open>applyPreparedCommit\<close>.\<close>

definition apply_write :: "seq \<Rightarrow> storage \<Rightarrow> storage_write \<Rightarrow> (storage_error, storage) result" where
  "apply_write s st w =
     (case w of
        WConversation r \<Rightarrow> Inr (apply_conversation r st)
      | WEntry r \<Rightarrow> Inr (apply_entry s r st)
      | WTask r \<Rightarrow> Inr (apply_task r st)
      | WSubmission r \<Rightarrow> Inr (apply_submission r st)
      | WDocCopy r source at \<Rightarrow> Inl (CommitError ''Prepared document copy was not resolved'')
      | _ \<Rightarrow> Inr st)"

text \<open>A created document, which its batch may retire at once.\<close>

definition create_document :: "seq \<Rightarrow> document_create \<Rightarrow> doc_content \<Rightarrow> bool \<Rightarrow> storage \<Rightarrow> storage" where
  "create_document s c content retire st =
     (let i = doc_id c;
          r = document_create.extend c (document.fields s (if retire then Some s else None));
          key = record_address r;
          ax = (case st_documentAddresses st key of
              None \<Rightarrow> \<lparr>ax_ids = [], ax_current = None\<rparr> | Some ax \<Rightarrow> ax) in
      bump i (st\<lparr>st_recordTypes := (st_recordTypes st)(i \<mapsto> TDocument),
         st_documents := (st_documents st)(i \<mapsto>
           \<lparr>sd_record = r, sd_revisions = [\<lparr>rev_content = content, rev_seq = s\<rparr>]\<rparr>),
         st_documentAddresses := (st_documentAddresses st)(key \<mapsto>
           ax\<lparr>ax_ids := insertSorted (ax_ids ax) i\<rparr>),
         st_documentIdsByScope := insertMapId (st_documentIdsByScope st) (doc_scope r) i\<rparr>))"

definition change_document :: "seq \<Rightarrow> id \<Rightarrow> doc_content \<Rightarrow> storage \<Rightarrow> storage" where
  "change_document s i content st =
     (case st_documents st i of
        None \<Rightarrow> st
      | Some stored \<Rightarrow>
          let revision = \<lparr>rev_content = content, rev_seq = s\<rparr> in
          st\<lparr>st_documents := (st_documents st)(i \<mapsto>
            stored\<lparr>sd_revisions :=
              (if is_base_content content \<and> isCurrentOnly (sd_record stored) then [revision]
               else sd_revisions stored @ [revision])\<rparr>)\<rparr>)"

text \<open>The retirement of the record, of its content, and of its address, in that order.\<close>

definition retire_document :: "seq \<Rightarrow> id \<Rightarrow> document_action \<Rightarrow> storage \<Rightarrow> storage" where
  "retire_document s i a st =
     (case st_documents st i of
        None \<Rightarrow> st
      | Some stored \<Rightarrow>
          let stored1 = (if act_retire a \<and> act_create a = None
                then stored\<lparr>sd_record := (sd_record stored)\<lparr>doc_retiredAt := Some s\<rparr>\<rparr> else stored);
              stored2 = (if act_retire a \<and> isCurrentOnly (sd_record stored1)
                then stored1\<lparr>sd_revisions := []\<rparr> else stored1) in
          st\<lparr>st_documents := (st_documents st)(i \<mapsto> stored2)\<rparr>)"

definition point_address :: "id \<Rightarrow> document_action \<Rightarrow> storage \<Rightarrow> storage" where
  "point_address i a st =
     (if act_create a \<noteq> None \<or> act_retire a
      then (case st_documents st i of
          None \<Rightarrow> st
        | Some stored \<Rightarrow>
            let key = record_address (sd_record stored) in
            (case st_documentAddresses st key of
               None \<Rightarrow> st
             | Some ax \<Rightarrow>
                 let ax1 = (if act_retire a \<and> ax_current ax = Some i then ax\<lparr>ax_current := None\<rparr> else ax);
                     ax2 = (if act_create a \<noteq> None \<and> \<not> act_retire a
                            then ax1\<lparr>ax_current := Some i\<rparr> else ax1) in
                 st\<lparr>st_documentAddresses := (st_documentAddresses st)(key \<mapsto> ax2)\<rparr>))
      else st)"

text \<open>One iteration of the loop of \<open>applyDocumentActions\<close>.\<close>

definition apply_action :: "seq \<Rightarrow> storage \<Rightarrow> id \<times> document_action \<Rightarrow> storage" where
  "apply_action s st ia =
     (let (i, a) = ia;
          st1 = (case act_create a of
              Some c \<Rightarrow>
                (case act_content a of
                   Some content \<Rightarrow> create_document s c content (act_retire a) st
                 | None \<Rightarrow> st)
            | None \<Rightarrow>
                (case act_content a of
                   Some content \<Rightarrow> change_document s i content st
                 | None \<Rightarrow> st)) in
      point_address i a (retire_document s i a st1))"

definition applyDocumentActions :: "seq \<Rightarrow> actions \<Rightarrow> storage \<Rightarrow> storage" where
  "applyDocumentActions s acts st = foldl (apply_action s) st acts"

record prepared =
  prep_seq :: seq
  prep_writes :: "storage_write list"
  prep_actions :: actions

definition applyPreparedCommit :: "storage \<Rightarrow> prepared \<Rightarrow> (storage_error, storage) result" where
  "applyPreparedCommit st p =
     andThen (run_steps (apply_write (prep_seq p)) st (prep_writes p)) (\<lambda>st1.
     Inr ((applyDocumentActions (prep_seq p) (prep_actions p) st1)\<lparr>st_nextSeq := prep_seq p + 1\<rparr>))"

definition prepareCommit :: "storage \<Rightarrow> storage_write list \<Rightarrow> seq \<Rightarrow> (storage_error, prepared) result" where
  "prepareCommit st ws s =
     andThen (ensure (\<not> st_closed st) ClosedError) (\<lambda>_.
     andThen (ensure (isSafeInteger s \<and> st_nextSeq st \<le> s)
       (CommitError ''Commit sequence does not strictly increase'')) (\<lambda>_.
     andThen (resolveDocumentCopies st ws) (\<lambda>detached.
     andThen (checkGlobalIds st detached) (\<lambda>_.
     andThen (prepareDocumentActions detached) (\<lambda>acts.
     andThen (checkDocumentActions st acts) (\<lambda>_.
     Inr \<lparr>prep_seq = s, prep_writes = detached, prep_actions = acts\<rparr>))))))"

text \<open>
  \<open>commit\<close>: the batches one by one, up to the first that is refused. The receipts are the
  sequences of the batches applied; \<open>out_thrown\<close> would be an exception of an application.
\<close>

record commit_outcome =
  out_state :: storage
  out_receipts :: "seq list"
  out_refused :: "storage_error option"
  out_thrown :: "storage_error option"

fun commit_loop :: "storage \<Rightarrow> seq list \<Rightarrow> storage_write list list \<Rightarrow> commit_outcome" where
  "commit_loop st receipts [] =
     \<lparr>out_state = st, out_receipts = receipts, out_refused = None, out_thrown = None\<rparr>"
| "commit_loop st receipts (ws # batches) =
     (case prepareCommit st ws (st_nextSeq st) of
        Inl e \<Rightarrow> \<lparr>out_state = st, out_receipts = receipts, out_refused = Some e, out_thrown = None\<rparr>
      | Inr p \<Rightarrow>
          (case applyPreparedCommit st p of
             Inl e \<Rightarrow> \<lparr>out_state = st, out_receipts = receipts, out_refused = None, out_thrown = Some e\<rparr>
           | Inr st1 \<Rightarrow> commit_loop st1 (receipts @ [prep_seq p]) batches))"

definition commit :: "storage \<Rightarrow> storage_write list list \<Rightarrow> (storage_error, commit_outcome) result" where
  "commit st batches = andThen (ensure (\<not> st_closed st) ClosedError) (\<lambda>_. Inr (commit_loop st [] batches))"

definition mintId :: "storage \<Rightarrow> (storage_error, id \<times> storage) result" where
  "mintId st =
     andThen (ensure (\<not> st_closed st) ClosedError) (\<lambda>_.
     andThen (ensure (isSafeInteger (st_nextId st)) (CommitError ''ID space is exhausted'')) (\<lambda>_.
     Inr (st_nextId st, st\<lparr>st_nextId := st_nextId st + 1\<rparr>)))"

definition close_storage :: "storage \<Rightarrow> storage" where
  "close_storage st = st\<lparr>st_closed := True\<rparr>"

end
