(* ===== verification/Storage_Tables.thy ===== *)
theory Storage_Tables
  imports Storage_State
begin

text \<open>
  The invariant of the record tables of the storage and that every write keeps it: records are
  stored under their own IDs, \<open>recordTypes\<close> says which table an ID belongs to, and every index
  lists exactly the records it is about, in order. The index proofs are those of the locale
  \<open>id_index\<close>, through its interpretation on the sorted lists of the code.
\<close>

subsection \<open>The invariant\<close>

abbreviation groups where "groups \<equiv> sorted_index.groups"

definition owner_conversation_is :: "conversation \<Rightarrow> id \<Rightarrow> bool" where
  "owner_conversation_is r k \<longleftrightarrow> (\<exists>ow. conv_owner r = Some ow \<and> owner_conversation ow = k)"

definition owner_task_is :: "conversation \<Rightarrow> id \<Rightarrow> bool" where
  "owner_task_is r k \<longleftrightarrow> (\<exists>ow. conv_owner r = Some ow \<and> owner_task ow = k)"

definition conversations_ok :: "storage \<Rightarrow> bool" where
  "conversations_ok st \<longleftrightarrow>
     (\<forall>i r. st_conversations st i = Some r \<longrightarrow> conv_id r = i) \<and>
     groups (\<lambda>u::unit. st_conversationIds st) (st_conversations st) (\<lambda>r u. True) \<and>
     groups (bucket (st_convByOwnerConversation st)) (st_conversations st) owner_conversation_is \<and>
     groups (bucket (st_convByOwnerTask st)) (st_conversations st) owner_task_is"

definition entries_ok :: "storage \<Rightarrow> bool" where
  "entries_ok st \<longleftrightarrow>
     (\<forall>i r. st_entries st i = Some r \<longrightarrow> entry_id r = i) \<and>
     groups (bucket (st_entryIds st)) (st_entries st) (\<lambda>r k. entry_conversation r = k) \<and>
     groups (bucket (st_headEntryIds st)) (st_entries st)
       (\<lambda>r k. entry_conversation r = k \<and> entry_head r \<noteq> None) \<and>
     dom (st_entryCommitSeqs st) = dom (st_entries st)"

definition tasks_ok :: "storage \<Rightarrow> bool" where
  "tasks_ok st \<longleftrightarrow>
     (\<forall>i r. st_tasks st i = Some r \<longrightarrow> task_id r = i) \<and>
     groups (\<lambda>u::unit. st_taskIds st) (st_tasks st) (\<lambda>r u. True) \<and>
     groups (st_taskIdsByStatus st) (st_tasks st) (\<lambda>r s. task_status r = s)"

definition submissions_ok :: "storage \<Rightarrow> bool" where
  "submissions_ok st \<longleftrightarrow>
     (\<forall>i r. st_submissions st i = Some r \<longrightarrow> sub_id r = i) \<and>
     groups (\<lambda>u::unit. st_submissionIds st) (st_submissions st) (\<lambda>r u. True) \<and>
     groups (st_submissionIdsByStatus st) (st_submissions st) (\<lambda>r s. sub_status r = s)"

definition request_at :: "(id \<rightharpoonup> (string \<times> id) list) \<Rightarrow> id \<Rightarrow> string \<Rightarrow> id option" where
  "request_at index c q = (case index c of None \<Rightarrow> None | Some rs \<Rightarrow> map_of rs q)"

definition requests_ok :: "storage \<Rightarrow> bool" where
  "requests_ok st \<longleftrightarrow>
     (\<forall>c q i. request_at (st_submissionIdsByRequest st) c q = Some i \<longrightarrow>
       (\<exists>r. st_submissions st i = Some r \<and> sub_conversation r = c \<and> sub_requestId r = Some q))"

text \<open>The IDs whose records a table holds.\<close>

fun held :: "storage \<Rightarrow> table_name \<Rightarrow> id set" where
  "held st TConversation = dom (st_conversations st)"
| "held st TEntry = dom (st_entries st)"
| "held st TTask = dom (st_tasks st)"
| "held st TSubmission = dom (st_submissions st)"
| "held st TDocument = dom (st_documents st)"

definition types_ok :: "storage \<Rightarrow> bool" where
  "types_ok st \<longleftrightarrow>
     (\<forall>i t. st_recordTypes st i = Some t \<longleftrightarrow> i \<in> held st t) \<and>
     (\<forall>i. st_recordTypes st i \<noteq> None \<longrightarrow> i < st_nextId st)"

definition tables_ok :: "storage \<Rightarrow> bool" where
  "tables_ok st \<longleftrightarrow> conversations_ok st \<and> entries_ok st \<and> tasks_ok st \<and> submissions_ok st \<and>
     requests_ok st \<and> types_ok st"

lemma held_type: "types_ok st \<Longrightarrow> i \<in> held st t \<longleftrightarrow> st_recordTypes st i = Some t"
  by (simp add: types_ok_def)

lemma types_below: "types_ok st \<Longrightarrow> st_recordTypes st i = Some t \<Longrightarrow> i < st_nextId st"
  unfolding types_ok_def by (metis option.distinct(1))

lemma table_none:
  assumes "types_ok st" and "st_recordTypes st i = None"
  shows "st_conversations st i = None" "st_entries st i = None" "st_tasks st i = None"
    "st_submissions st i = None" "st_documents st i = None"
  using assms held_type[OF assms(1), of i TConversation] held_type[OF assms(1), of i TEntry]
    held_type[OF assms(1), of i TTask] held_type[OF assms(1), of i TSubmission]
    held_type[OF assms(1), of i TDocument]
  by (auto simp: domIff)

lemma types_ok_set:
  assumes ok: "types_ok st" and i: "st_recordTypes st i = None \<or> st_recordTypes st i = Some t"
    and r: "st_recordTypes st' = (st_recordTypes st)(i \<mapsto> t)" and n: "st_nextId st' = max (st_nextId st) (i + 1)"
    and h: "\<And>u. held st' u = (if u = t then insert i (held st u) else held st u)"
  shows "types_ok st'"
  unfolding types_ok_def
proof (intro conjI allI impI)
  fix j u
  show "st_recordTypes st' j = Some u \<longleftrightarrow> j \<in> held st' u"
    using held_type[OF ok, of j u] i unfolding r h by auto
next
  fix j assume "st_recordTypes st' j \<noteq> None"
  then have "j = i \<or> st_recordTypes st j \<noteq> None" unfolding r by (auto split: if_splits)
  then show "j < st_nextId st'" using ok unfolding n types_ok_def by (auto simp: less_max_iff_disj)
qed

subsection \<open>Conversations\<close>

lemma apply_conversation_fields:
  "st_conversations (apply_conversation r st) = (st_conversations st)(conv_id r \<mapsto> r)"
  "st_conversationIds (apply_conversation r st) = insertSorted (st_conversationIds st) (conv_id r)"
  "bucket (st_convByOwnerConversation (apply_conversation r st)) k =
     (if owner_conversation_is r k then insertSorted (bucket (st_convByOwnerConversation st) k) (conv_id r)
      else bucket (st_convByOwnerConversation st) k)"
  "bucket (st_convByOwnerTask (apply_conversation r st)) k =
     (if owner_task_is r k then insertSorted (bucket (st_convByOwnerTask st) k) (conv_id r)
      else bucket (st_convByOwnerTask st) k)"
  "st_entries (apply_conversation r st) = st_entries st"
  "st_entryIds (apply_conversation r st) = st_entryIds st"
  "st_headEntryIds (apply_conversation r st) = st_headEntryIds st"
  "st_entryCommitSeqs (apply_conversation r st) = st_entryCommitSeqs st"
  "st_tasks (apply_conversation r st) = st_tasks st"
  "st_taskIds (apply_conversation r st) = st_taskIds st"
  "st_taskIdsByStatus (apply_conversation r st) = st_taskIdsByStatus st"
  "st_submissions (apply_conversation r st) = st_submissions st"
  "st_submissionIds (apply_conversation r st) = st_submissionIds st"
  "st_submissionIdsByStatus (apply_conversation r st) = st_submissionIdsByStatus st"
  "st_submissionIdsByRequest (apply_conversation r st) = st_submissionIdsByRequest st"
  "st_documents (apply_conversation r st) = st_documents st"
  "st_documentAddresses (apply_conversation r st) = st_documentAddresses st"
  "st_documentIdsByScope (apply_conversation r st) = st_documentIdsByScope st"
  "st_recordTypes (apply_conversation r st) = (st_recordTypes st)(conv_id r \<mapsto> TConversation)"
  "st_nextId (apply_conversation r st) = max (st_nextId st) (conv_id r + 1)"
  "st_nextSeq (apply_conversation r st) = st_nextSeq st"
  "st_closed (apply_conversation r st) = st_closed st"
  by (auto simp: apply_conversation_def Let_def bump_def bucket_insertMapId
      owner_conversation_is_def owner_task_is_def split: option.splits)

lemma held_conversation: "held (apply_conversation r st) u = (if u = TConversation then insert (conv_id r) (held st u) else held st u)"
  by (cases u) (simp_all add: apply_conversation_fields)

lemma conversation_ok:
  assumes ok: "tables_ok st" and new: "st_recordTypes st (conv_id r) = None"
  shows "tables_ok (apply_conversation r st)"
proof -
  have none: "st_conversations st (conv_id r) = None"
    using ok new table_none by (simp add: tables_ok_def)
  have c: "conversations_ok st" using ok by (simp add: tables_ok_def)
  have "conversations_ok (apply_conversation r st)"
  proof (unfold conversations_ok_def apply_conversation_fields(1,2), intro conjI)
    show "\<forall>i q. ((st_conversations st)(conv_id r \<mapsto> r)) i = Some q \<longrightarrow> conv_id q = i"
      using c by (auto simp: conversations_ok_def)
    show "groups (\<lambda>u::unit. insertSorted (st_conversationIds st) (conv_id r))
        ((st_conversations st)(conv_id r \<mapsto> r)) (\<lambda>r u. True)"
      using c none by (intro sorted_index.groups_add[where f = "\<lambda>u. st_conversationIds st"])
        (auto simp: conversations_ok_def)
    show "groups (bucket (st_convByOwnerConversation (apply_conversation r st)))
        ((st_conversations st)(conv_id r \<mapsto> r)) owner_conversation_is"
      using c none by (intro sorted_index.groups_add[where f = "bucket (st_convByOwnerConversation st)"])
        (auto simp: conversations_ok_def apply_conversation_fields)
    show "groups (bucket (st_convByOwnerTask (apply_conversation r st)))
        ((st_conversations st)(conv_id r \<mapsto> r)) owner_task_is"
      using c none by (intro sorted_index.groups_add[where f = "bucket (st_convByOwnerTask st)"])
        (auto simp: conversations_ok_def apply_conversation_fields)
  qed
  moreover have "types_ok (apply_conversation r st)"
    using ok new by (intro types_ok_set[OF _ _ _ _ held_conversation])
      (simp_all only: tables_ok_def simp_thms apply_conversation_fields)
  ultimately show ?thesis
    using ok by (simp add: tables_ok_def entries_ok_def tasks_ok_def submissions_ok_def requests_ok_def
        apply_conversation_fields)
qed

subsection \<open>Entries\<close>

lemma apply_entry_fields:
  "st_entries (apply_entry s r st) = (st_entries st)(entry_id r \<mapsto> r)"
  "bucket (st_entryIds (apply_entry s r st)) k =
     (if entry_conversation r = k then insertSorted (bucket (st_entryIds st) k) (entry_id r)
      else bucket (st_entryIds st) k)"
  "bucket (st_headEntryIds (apply_entry s r st)) k =
     (if entry_conversation r = k \<and> entry_head r \<noteq> None
      then insertSorted (bucket (st_headEntryIds st) k) (entry_id r)
      else bucket (st_headEntryIds st) k)"
  "st_entryCommitSeqs (apply_entry s r st) = (st_entryCommitSeqs st)(entry_id r \<mapsto> s)"
  "st_conversations (apply_entry s r st) = st_conversations st"
  "st_conversationIds (apply_entry s r st) = st_conversationIds st"
  "st_convByOwnerConversation (apply_entry s r st) = st_convByOwnerConversation st"
  "st_convByOwnerTask (apply_entry s r st) = st_convByOwnerTask st"
  "st_tasks (apply_entry s r st) = st_tasks st"
  "st_taskIds (apply_entry s r st) = st_taskIds st"
  "st_taskIdsByStatus (apply_entry s r st) = st_taskIdsByStatus st"
  "st_submissions (apply_entry s r st) = st_submissions st"
  "st_submissionIds (apply_entry s r st) = st_submissionIds st"
  "st_submissionIdsByStatus (apply_entry s r st) = st_submissionIdsByStatus st"
  "st_submissionIdsByRequest (apply_entry s r st) = st_submissionIdsByRequest st"
  "st_documents (apply_entry s r st) = st_documents st"
  "st_documentAddresses (apply_entry s r st) = st_documentAddresses st"
  "st_documentIdsByScope (apply_entry s r st) = st_documentIdsByScope st"
  "st_recordTypes (apply_entry s r st) = (st_recordTypes st)(entry_id r \<mapsto> TEntry)"
  "st_nextId (apply_entry s r st) = max (st_nextId st) (entry_id r + 1)"
  "st_nextSeq (apply_entry s r st) = st_nextSeq st"
  "st_closed (apply_entry s r st) = st_closed st"
  by (auto simp: apply_entry_def Let_def bump_def bucket_insertMapId split: option.splits)

lemma held_entry: "held (apply_entry s r st) u = (if u = TEntry then insert (entry_id r) (held st u) else held st u)"
  by (cases u) (simp_all add: apply_entry_fields)

lemma entry_ok:
  assumes ok: "tables_ok st" and new: "st_recordTypes st (entry_id r) = None"
  shows "tables_ok (apply_entry s r st)"
proof -
  have none: "st_entries st (entry_id r) = None" using ok new table_none by (simp add: tables_ok_def)
  have e: "entries_ok st" using ok by (simp add: tables_ok_def)
  have "entries_ok (apply_entry s r st)"
  proof (unfold entries_ok_def apply_entry_fields(1,4), intro conjI)
    show "\<forall>i q. ((st_entries st)(entry_id r \<mapsto> r)) i = Some q \<longrightarrow> entry_id q = i"
      using e by (auto simp: entries_ok_def)
    show "groups (bucket (st_entryIds (apply_entry s r st))) ((st_entries st)(entry_id r \<mapsto> r))
        (\<lambda>r k. entry_conversation r = k)"
      using e none by (intro sorted_index.groups_add[where f = "bucket (st_entryIds st)"])
        (auto simp: entries_ok_def apply_entry_fields)
    show "groups (bucket (st_headEntryIds (apply_entry s r st))) ((st_entries st)(entry_id r \<mapsto> r))
        (\<lambda>r k. entry_conversation r = k \<and> entry_head r \<noteq> None)"
      using e none by (intro sorted_index.groups_add[where f = "bucket (st_headEntryIds st)"])
        (auto simp: entries_ok_def apply_entry_fields)
    show "dom ((st_entryCommitSeqs st)(entry_id r \<mapsto> s)) = dom ((st_entries st)(entry_id r \<mapsto> r))"
      using e by (simp add: entries_ok_def)
  qed
  moreover have "types_ok (apply_entry s r st)"
    using ok new by (intro types_ok_set[OF _ _ _ _ held_entry])
      (simp_all only: tables_ok_def simp_thms apply_entry_fields)
  ultimately show ?thesis
    using ok by (simp add: tables_ok_def conversations_ok_def tasks_ok_def submissions_ok_def
        requests_ok_def apply_entry_fields)
qed

subsection \<open>Tasks\<close>

text \<open>The status index after a write, for tasks and submissions alike.\<close>

definition restatus :: "('s \<Rightarrow> id list) \<Rightarrow> 's option \<Rightarrow> 's \<Rightarrow> id \<Rightarrow> 's \<Rightarrow> id list" where
  "restatus index previous s i =
     (case previous of
        None \<Rightarrow> index(s := insertSorted (index s) i)
      | Some q \<Rightarrow>
          if q = s then index
          else (let index1 = index(q := removeSorted (index q) i) in index1(s := insertSorted (index1 s) i)))"

lemma restatus_groups:
  assumes g: "groups index table (\<lambda>r s. status r = s)"
  shows "groups (restatus index (map_option status (table i)) (status r) i) (table(i \<mapsto> r)) (\<lambda>r s. status r = s)"
proof (cases "table i")
  case None
  then show ?thesis using g
    by (intro sorted_index.groups_add[where f = index]) (auto simp: restatus_def)
next
  case (Some q)
  then show ?thesis using g
    by (intro sorted_index.groups_change[where f = index and q = q]) (auto simp: restatus_def Let_def)
qed

lemma all_groups:
  assumes g: "groups (\<lambda>u::unit. ids) table (\<lambda>r u. True)"
  shows "groups (\<lambda>u::unit. if table i = None then insertSorted ids i else ids) (table(i \<mapsto> r)) (\<lambda>r u. True)"
proof (cases "table i")
  case None
  then show ?thesis using g by (intro sorted_index.groups_add[where f = "\<lambda>u. ids"]) auto
next
  case (Some q)
  then show ?thesis using g by (intro sorted_index.groups_change[where f = "\<lambda>u. ids" and q = q]) auto
qed

lemma apply_task_fields:
  "st_tasks (apply_task r st) = (st_tasks st)(task_id r \<mapsto> r)"
  "st_taskIds (apply_task r st) =
     (if st_tasks st (task_id r) = None then insertSorted (st_taskIds st) (task_id r) else st_taskIds st)"
  "st_taskIdsByStatus (apply_task r st) =
     restatus (st_taskIdsByStatus st) (map_option task_status (st_tasks st (task_id r))) (task_status r) (task_id r)"
  "st_conversations (apply_task r st) = st_conversations st"
  "st_conversationIds (apply_task r st) = st_conversationIds st"
  "st_convByOwnerConversation (apply_task r st) = st_convByOwnerConversation st"
  "st_convByOwnerTask (apply_task r st) = st_convByOwnerTask st"
  "st_entries (apply_task r st) = st_entries st"
  "st_entryIds (apply_task r st) = st_entryIds st"
  "st_headEntryIds (apply_task r st) = st_headEntryIds st"
  "st_entryCommitSeqs (apply_task r st) = st_entryCommitSeqs st"
  "st_submissions (apply_task r st) = st_submissions st"
  "st_submissionIds (apply_task r st) = st_submissionIds st"
  "st_submissionIdsByStatus (apply_task r st) = st_submissionIdsByStatus st"
  "st_submissionIdsByRequest (apply_task r st) = st_submissionIdsByRequest st"
  "st_documents (apply_task r st) = st_documents st"
  "st_documentAddresses (apply_task r st) = st_documentAddresses st"
  "st_documentIdsByScope (apply_task r st) = st_documentIdsByScope st"
  "st_recordTypes (apply_task r st) = (st_recordTypes st)(task_id r \<mapsto> TTask)"
  "st_nextId (apply_task r st) = max (st_nextId st) (task_id r + 1)"
  "st_nextSeq (apply_task r st) = st_nextSeq st"
  "st_closed (apply_task r st) = st_closed st"
  by (auto simp: apply_task_def Let_def bump_def restatus_def split: option.splits)

lemma held_task: "held (apply_task r st) u = (if u = TTask then insert (task_id r) (held st u) else held st u)"
  by (cases u) (simp_all add: apply_task_fields)

lemma task_ok:
  assumes ok: "tables_ok st" and new: "st_recordTypes st (task_id r) = None \<or> st_recordTypes st (task_id r) = Some TTask"
  shows "tables_ok (apply_task r st)"
proof -
  have t: "tasks_ok st" using ok by (simp add: tables_ok_def)
  have "tasks_ok (apply_task r st)"
    using t restatus_groups[of "st_taskIdsByStatus st" "st_tasks st" task_status "task_id r" r]
      all_groups[of "st_taskIds st" "st_tasks st" "task_id r" r]
    unfolding tasks_ok_def apply_task_fields by simp
  moreover have "types_ok (apply_task r st)"
    using ok new by (intro types_ok_set[OF _ _ _ _ held_task])
      (simp_all only: tables_ok_def simp_thms apply_task_fields)
  ultimately show ?thesis
    using ok by (simp add: tables_ok_def conversations_ok_def entries_ok_def submissions_ok_def
        requests_ok_def apply_task_fields)
qed

subsection \<open>Submissions\<close>

lemma apply_submission_fields:
  "st_submissions (apply_submission r st) = (st_submissions st)(sub_id r \<mapsto> r)"
  "st_submissionIds (apply_submission r st) =
     (if st_submissions st (sub_id r) = None then insertSorted (st_submissionIds st) (sub_id r)
      else st_submissionIds st)"
  "st_submissionIdsByStatus (apply_submission r st) =
     restatus (st_submissionIdsByStatus st) (map_option sub_status (st_submissions st (sub_id r))) (sub_status r) (sub_id r)"
  "st_submissionIdsByRequest (apply_submission r st) =
     learn_request r (forget_request (st_submissions st (sub_id r)) (sub_id r) (st_submissionIdsByRequest st))"
  "st_conversations (apply_submission r st) = st_conversations st"
  "st_conversationIds (apply_submission r st) = st_conversationIds st"
  "st_convByOwnerConversation (apply_submission r st) = st_convByOwnerConversation st"
  "st_convByOwnerTask (apply_submission r st) = st_convByOwnerTask st"
  "st_entries (apply_submission r st) = st_entries st"
  "st_entryIds (apply_submission r st) = st_entryIds st"
  "st_headEntryIds (apply_submission r st) = st_headEntryIds st"
  "st_entryCommitSeqs (apply_submission r st) = st_entryCommitSeqs st"
  "st_tasks (apply_submission r st) = st_tasks st"
  "st_taskIds (apply_submission r st) = st_taskIds st"
  "st_taskIdsByStatus (apply_submission r st) = st_taskIdsByStatus st"
  "st_documents (apply_submission r st) = st_documents st"
  "st_documentAddresses (apply_submission r st) = st_documentAddresses st"
  "st_documentIdsByScope (apply_submission r st) = st_documentIdsByScope st"
  "st_recordTypes (apply_submission r st) = (st_recordTypes st)(sub_id r \<mapsto> TSubmission)"
  "st_nextId (apply_submission r st) = max (st_nextId st) (sub_id r + 1)"
  "st_nextSeq (apply_submission r st) = st_nextSeq st"
  "st_closed (apply_submission r st) = st_closed st"
  by (auto simp: apply_submission_def Let_def bump_def restatus_def split: option.splits)

lemma request_at_forget:
  assumes ok: "\<And>c q i. request_at index c q = Some i \<Longrightarrow>
    \<exists>r. table i = Some r \<and> sub_conversation r = c \<and> sub_requestId r = Some q"
  shows "request_at (forget_request (table i) i index) c q = (if request_at index c q = Some i then None else request_at index c q)"
proof (cases "table i")
  case None
  then have "request_at index c q \<noteq> Some i" using ok[of c q i] by auto
  then show ?thesis using None by (simp add: forget_request_def)
next
  case (Some p)
  have own: "sub_conversation p = c \<and> sub_requestId p = Some q" if "request_at index c q = Some i"
    using ok[OF that] Some by simp
  show ?thesis
  proof (cases "sub_requestId p")
    case None
    then have "request_at index c q \<noteq> Some i" using own by auto
    then show ?thesis using None Some by (simp add: forget_request_def)
  next
    case (Some pq)
    note req = this
    show ?thesis
    proof (cases "index (sub_conversation p)")
      case None
      then have "request_at index c q \<noteq> Some i" using own by (auto simp: request_at_def)
      then show ?thesis using None Some \<open>table i = Some p\<close> by (simp add: forget_request_def)
    next
      case (Some rs)
      show ?thesis
      proof (cases "map_of rs pq = Some i")
        case True
        have f: "forget_request (table i) i index
            = index(sub_conversation p := (if AList.delete pq rs = [] then None else Some (AList.delete pq rs)))"
          using True Some req \<open>table i = Some p\<close> by (simp add: forget_request_def Let_def)
        have "request_at (index(k := (if ls = [] then None else Some ls))) c q
            = (if c = k then map_of ls q else request_at index c q)" for k ls
          by (auto simp: request_at_def)
        then have "request_at (forget_request (table i) i index) c q
            = (if c = sub_conversation p then map_of (AList.delete pq rs) q else request_at index c q)"
          unfolding f .
        moreover have "request_at index c q = Some i \<longleftrightarrow> c = sub_conversation p \<and> q = pq"
          using own True Some req by (auto simp: request_at_def)
        moreover have "c = sub_conversation p \<Longrightarrow> request_at index c q = map_of rs q"
          using Some by (simp add: request_at_def)
        ultimately show ?thesis by auto
      next
        case False
        then have "request_at index c q \<noteq> Some i" using own Some req by (auto simp: request_at_def)
        then show ?thesis using False Some req \<open>table i = Some p\<close> by (simp add: forget_request_def Let_def)
      qed
    qed
  qed
qed

lemma request_at_learn:
  "request_at (learn_request r index) c q =
     (if sub_conversation r = c \<and> sub_requestId r = Some q then Some (sub_id r) else request_at index c q)"
  by (auto simp: request_at_def learn_request_def Let_def split: option.splits)

lemma held_submission: "held (apply_submission r st) u = (if u = TSubmission then insert (sub_id r) (held st u) else held st u)"
  by (cases u) (simp_all add: apply_submission_fields)

lemma submission_ok:
  assumes ok: "tables_ok st"
    and new: "st_recordTypes st (sub_id r) = None \<or> st_recordTypes st (sub_id r) = Some TSubmission"
  shows "tables_ok (apply_submission r st)"
proof -
  have s: "submissions_ok st" "requests_ok st" using ok by (simp_all add: tables_ok_def)
  have "submissions_ok (apply_submission r st)"
    using s(1) restatus_groups[of "st_submissionIdsByStatus st" "st_submissions st" sub_status "sub_id r" r]
      all_groups[of "st_submissionIds st" "st_submissions st" "sub_id r" r]
    unfolding submissions_ok_def apply_submission_fields by simp
  moreover have "requests_ok (apply_submission r st)"
  proof -
    have own: "\<And>c q i. request_at (st_submissionIdsByRequest st) c q = Some i \<Longrightarrow>
        \<exists>r. st_submissions st i = Some r \<and> sub_conversation r = c \<and> sub_requestId r = Some q"
      using s(2) by (simp add: requests_ok_def)
    have at: "request_at (forget_request (st_submissions st j) j (st_submissionIdsByRequest st)) c q
        = (if request_at (st_submissionIdsByRequest st) c q = Some j then None
           else request_at (st_submissionIdsByRequest st) c q)" for c q j
      by (rule request_at_forget) (rule own)
    show ?thesis
      unfolding requests_ok_def
    proof (intro allI impI)
      fix c q i
      assume a: "request_at (st_submissionIdsByRequest (apply_submission r st)) c q = Some i"
      show "\<exists>p. st_submissions (apply_submission r st) i = Some p \<and> sub_conversation p = c \<and> sub_requestId p = Some q"
        using a own[of c q i] unfolding apply_submission_fields request_at_learn at
        by (auto split: if_splits)
    qed
  qed
  moreover have "types_ok (apply_submission r st)"
    using ok new by (intro types_ok_set[OF _ _ _ _ held_submission])
      (simp_all only: tables_ok_def simp_thms apply_submission_fields)
  ultimately show ?thesis
    using ok by (simp add: tables_ok_def conversations_ok_def entries_ok_def tasks_ok_def apply_submission_fields)
qed

end
