(* ===== verification/Storage_Documents.thy ===== *)
theory Storage_Documents
  imports Storage_Tables
begin

text \<open>
  The document tables of the storage: the invariant of incarnations, revisions and addresses, and
  that the document actions of an accepted batch keep it. An address points to its one live
  incarnation; a rewindable document keeps all its revisions from its creation on; the first
  revision is a base and a delta has the version of the revision before it.
\<close>

subsection \<open>The invariant\<close>

text \<open>What one incarnation keeps, when sequences up to \<open>n\<close> (exclusive) have been committed.\<close>

definition follows :: "revision \<Rightarrow> revision \<Rightarrow> bool" where
  "follows r q \<longleftrightarrow> rev_seq r < rev_seq q \<and>
     (is_base_content (rev_content q) \<or> content_version (rev_content q) = content_version (rev_content r))"

definition revisions_ok :: "seq \<Rightarrow> seq \<Rightarrow> revision list \<Rightarrow> bool" where
  "revisions_ok c n revs \<longleftrightarrow> revs \<noteq> [] \<and> is_base_content (rev_content (hd revs)) \<and> c \<le> rev_seq (hd revs) \<and>
     rev_seq (last revs) < n \<and> successively follows revs"

definition doc_ok :: "seq \<Rightarrow> stored_state \<Rightarrow> bool" where
  "doc_ok n d \<longleftrightarrow>
     doc_createdAt (sd_record d) < n \<and>
     (\<forall>t. doc_retiredAt (sd_record d) = Some t \<longrightarrow> doc_createdAt (sd_record d) \<le> t \<and> t < n) \<and>
     (if isCurrentOnly (sd_record d) \<and> doc_retiredAt (sd_record d) \<noteq> None then sd_revisions d = []
      else revisions_ok (doc_createdAt (sd_record d)) n (sd_revisions d)) \<and>
     (\<not> isCurrentOnly (sd_record d) \<longrightarrow> rev_seq (hd (sd_revisions d)) = doc_createdAt (sd_record d))"

definition doc_addr :: "stored_state \<Rightarrow> doc_address" where
  "doc_addr d = record_address (sd_record d)"

definition live_at :: "storage \<Rightarrow> doc_address \<Rightarrow> id \<Rightarrow> bool" where
  "live_at st a i \<longleftrightarrow>
     (\<exists>d. st_documents st i = Some d \<and> doc_addr d = a \<and> doc_retiredAt (sd_record d) = None)"

definition address_ids :: "storage \<Rightarrow> doc_address \<Rightarrow> id list" where
  "address_ids st a = (case st_documentAddresses st a of None \<Rightarrow> [] | Some ax \<Rightarrow> ax_ids ax)"

definition incarnations_ok :: "seq \<Rightarrow> storage \<Rightarrow> bool" where
  "incarnations_ok n st \<longleftrightarrow>
     (\<forall>i d. st_documents st i = Some d \<longrightarrow> doc_id (sd_record d) = i \<and> doc_ok n d) \<and>
     groups (address_ids st) (st_documents st) (\<lambda>d a. doc_addr d = a) \<and>
     groups (bucket (st_documentIdsByScope st)) (st_documents st) (\<lambda>d s. doc_scope (sd_record d) = s)"

definition pointers_ok :: "storage \<Rightarrow> bool" where
  "pointers_ok st \<longleftrightarrow> (\<forall>a i. current_at st a = Some i \<longleftrightarrow> live_at st a i)"

definition storage_ok :: "storage \<Rightarrow> bool" where
  "storage_ok st \<longleftrightarrow> tables_ok st \<and> incarnations_ok (st_nextSeq st) st \<and> pointers_ok st \<and> 0 \<le> st_nextSeq st"

lemma held_new [simp]: "held new_storage t = {}"
  by (cases t) (simp_all add: new_storage_def)

lemma storage_ok_new: "storage_ok new_storage"
proof -
  have "types_ok new_storage" unfolding types_ok_def held_new by (simp add: new_storage_def)
  then show ?thesis
    by (simp add: storage_ok_def tables_ok_def conversations_ok_def entries_ok_def tasks_ok_def
        submissions_ok_def requests_ok_def request_at_def incarnations_ok_def pointers_ok_def
        live_at_def current_at_def address_ids_def sorted_index.groups_def new_storage_def)
qed

subsection \<open>One incarnation under an action\<close>

definition written_doc :: "seq \<Rightarrow> document_action \<Rightarrow> stored_state option \<Rightarrow> stored_state option" where
  "written_doc s a d =
     (case act_content a of
        None \<Rightarrow> d
      | Some content \<Rightarrow>
          (case act_create a of
             Some c \<Rightarrow> Some \<lparr>sd_record = document_create.extend c
                 (document.fields s (if act_retire a then Some s else None)),
               sd_revisions = [\<lparr>rev_content = content, rev_seq = s\<rparr>]\<rparr>
           | None \<Rightarrow> map_option (\<lambda>stored. stored\<lparr>sd_revisions :=
               (if is_base_content content \<and> isCurrentOnly (sd_record stored)
                then [\<lparr>rev_content = content, rev_seq = s\<rparr>]
                else sd_revisions stored @ [\<lparr>rev_content = content, rev_seq = s\<rparr>])\<rparr>) d))"

definition retired_doc :: "seq \<Rightarrow> document_action \<Rightarrow> stored_state \<Rightarrow> stored_state" where
  "retired_doc s a stored =
     (let stored1 = (if act_retire a \<and> act_create a = None
            then stored\<lparr>sd_record := (sd_record stored)\<lparr>doc_retiredAt := Some s\<rparr>\<rparr> else stored) in
      if act_retire a \<and> isCurrentOnly (sd_record stored1) then stored1\<lparr>sd_revisions := []\<rparr> else stored1)"

definition doc_after :: "seq \<Rightarrow> document_action \<Rightarrow> stored_state option \<Rightarrow> stored_state option" where
  "doc_after s a d = map_option (retired_doc s a) (written_doc s a d)"

text \<open>What an accepted batch guarantees of an action and of the incarnation it is about.\<close>

definition action_ok :: "stored_state option \<Rightarrow> id \<Rightarrow> document_action \<Rightarrow> bool" where
  "action_ok d i a \<longleftrightarrow>
     (case act_create a of
        Some c \<Rightarrow> d = None \<and> doc_id c = i \<and> (\<exists>v b. act_content a = Some (Base v b))
      | None \<Rightarrow> (\<exists>stored. d = Some stored \<and> doc_retiredAt (sd_record stored) = None \<and>
          (\<forall>v ops. act_content a = Some (Delta v ops) \<longrightarrow>
             sd_revisions stored \<noteq> [] \<and> content_version (rev_content (last (sd_revisions stored))) = v)))"

lemma document_extend_simps [simp]:
  "doc_id (document_create.extend c (document.fields s t)) = doc_id c"
  "doc_kind (document_create.extend c (document.fields s t)) = doc_kind c"
  "doc_key (document_create.extend c (document.fields s t)) = doc_key c"
  "doc_scope (document_create.extend c (document.fields s t)) = doc_scope c"
  "doc_history (document_create.extend c (document.fields s t)) = doc_history c"
  "doc_fork (document_create.extend c (document.fields s t)) = doc_fork c"
  "doc_createdAt (document_create.extend c (document.fields s t)) = s"
  "doc_retiredAt (document_create.extend c (document.fields s t)) = t"
  by (simp_all add: document_create.defs document.defs)

lemma isCurrentOnly_upd [simp]:
  "isCurrentOnly (r\<lparr>doc_retiredAt := t\<rparr>) = isCurrentOnly r" "record_address (r\<lparr>doc_retiredAt := t\<rparr>) = record_address r"
  by (simp_all add: isCurrentOnly_def record_address_def)

lemma record_address_extend [simp]:
  "record_address (document_create.extend c (document.fields s t)) = record_address c"
  "isCurrentOnly (document_create.extend c (document.fields s t)) = isCurrentOnly c"
  by (simp_all add: record_address_def isCurrentOnly_def)

lemma retired_doc_simps [simp]:
  "doc_id (sd_record (retired_doc s a d)) = doc_id (sd_record d)"
  "doc_scope (sd_record (retired_doc s a d)) = doc_scope (sd_record d)"
  "doc_createdAt (sd_record (retired_doc s a d)) = doc_createdAt (sd_record d)"
  "doc_retiredAt (sd_record (retired_doc s a d)) =
     (if act_retire a \<and> act_create a = None then Some s else doc_retiredAt (sd_record d))"
  "isCurrentOnly (sd_record (retired_doc s a d)) = isCurrentOnly (sd_record d)"
  "record_address (sd_record (retired_doc s a d)) = record_address (sd_record d)"
  "sd_revisions (retired_doc s a d) =
     (if act_retire a \<and> isCurrentOnly (sd_record d) then [] else sd_revisions d)"
  by (cases "act_create a"; simp add: retired_doc_def Let_def doc_addr_def)+

lemma revisions_ok_append:
  assumes "revisions_ok c s revs"
    and "is_base_content content \<or> content_version content = content_version (rev_content (last revs))"
  shows "revisions_ok c (s + 1) (revs @ [\<lparr>rev_content = content, rev_seq = s\<rparr>])"
  using assms by (auto simp: revisions_ok_def successively_append_iff follows_def)

lemma revisions_ok_single:
  "is_base_content content \<Longrightarrow> c \<le> s \<Longrightarrow> revisions_ok c (s + 1) [\<lparr>rev_content = content, rev_seq = s\<rparr>]"
  by (simp add: revisions_ok_def)

lemma doc_ok_mono: "doc_ok n d \<Longrightarrow> n \<le> m \<Longrightarrow> doc_ok m d"
  by (auto simp: doc_ok_def revisions_ok_def split: if_splits)

lemma doc_after_change:
  assumes ok: "doc_ok s d" and act: "action_ok (Some d) i a"
  obtains d' where "doc_after s a (Some d) = Some d'" "doc_ok (s + 1) d'" "doc_addr d' = doc_addr d"
    "doc_scope (sd_record d') = doc_scope (sd_record d)" "doc_id (sd_record d') = doc_id (sd_record d)"
    "doc_retiredAt (sd_record d') = (if act_retire a then Some s else None)"
proof -
  from act have c: "act_create a = None" and live: "doc_retiredAt (sd_record d) = None"
    and v: "\<forall>v ops. act_content a = Some (Delta v ops) \<longrightarrow> content_version (rev_content (last (sd_revisions d))) = v"
    by (auto simp: action_ok_def split: option.splits)
  obtain d1 where d1: "written_doc s a (Some d) = Some d1" and r: "sd_record d1 = sd_record d"
    using c by (cases "act_content a") (auto simp: written_doc_def)
  have revs: "revisions_ok (doc_createdAt (sd_record d)) s (sd_revisions d)"
    using ok live by (auto simp: doc_ok_def split: if_splits)
  have "revisions_ok (doc_createdAt (sd_record d)) (s + 1) (sd_revisions d1) \<and>
      (\<not> isCurrentOnly (sd_record d) \<longrightarrow> rev_seq (hd (sd_revisions d1)) = rev_seq (hd (sd_revisions d)))"
  proof (cases "act_content a")
    case None
    then have "d1 = d" using d1 by (simp add: written_doc_def)
    then show ?thesis using revs by (auto simp: revisions_ok_def)
  next
    case (Some content)
    have b: "is_base_content content \<or> content_version content = content_version (rev_content (last (sd_revisions d)))"
      using v Some by (cases content) auto
    have "doc_createdAt (sd_record d) \<le> s" using ok by (simp add: doc_ok_def)
    then show ?thesis
      using d1 Some c revisions_ok_append[OF revs b] revisions_ok_single[of content "doc_createdAt (sd_record d)" s] revs
      by (auto simp: written_doc_def revisions_ok_def[of _ s])
  qed
  then have "doc_ok (s + 1) (retired_doc s a d1)"
    using ok live r c by (auto simp: doc_ok_def)
  then show ?thesis
    using d1 r c live by (intro that[of "retired_doc s a d1"]) (simp_all add: doc_after_def doc_addr_def)
qed

lemma doc_after_create:
  assumes act: "action_ok None i a"
  obtains c d' where "act_create a = Some c" "doc_after s a None = Some d'" "doc_ok (s + 1) d'"
    "doc_addr d' = record_address c" "doc_scope (sd_record d') = doc_scope c" "doc_id (sd_record d') = i"
    "doc_retiredAt (sd_record d') = (if act_retire a then Some s else None)"
proof -
  from act obtain c v b where a: "act_create a = Some c" "doc_id c = i" "act_content a = Some (Base v b)"
    by (auto simp: action_ok_def split: option.splits)
  define d1 where "d1 = \<lparr>sd_record = document_create.extend c (document.fields s (if act_retire a then Some s else None)),
    sd_revisions = [\<lparr>rev_content = Base v b, rev_seq = s\<rparr>]\<rparr>"
  have "doc_ok (s + 1) (retired_doc s a d1)"
    using a revisions_ok_single[of "Base v b" s s] by (auto simp: doc_ok_def d1_def)
  moreover have "doc_after s a None = Some (retired_doc s a d1)"
    using a by (simp add: doc_after_def written_doc_def d1_def)
  ultimately show ?thesis
    using a by (intro that[of c "retired_doc s a d1"]) (simp_all add: doc_addr_def d1_def)
qed


subsection \<open>The fields of the storage under an action\<close>

lemma create_document_fields:
  "st_documents (create_document s c content rt st) = (st_documents st)(doc_id c \<mapsto>
     \<lparr>sd_record = document_create.extend c (document.fields s (if rt then Some s else None)),
      sd_revisions = [\<lparr>rev_content = content, rev_seq = s\<rparr>]\<rparr>)"
  "current_at (create_document s c content rt st) = current_at st"
  "address_ids (create_document s c content rt st) k =
     (if k = record_address c then insertSorted (address_ids st k) (doc_id c) else address_ids st k)"
  "st_documentAddresses (create_document s c content rt st) (record_address c) \<noteq> None"
  "bucket (st_documentIdsByScope (create_document s c content rt st)) l =
     (if l = doc_scope c then insertSorted (bucket (st_documentIdsByScope st) l) (doc_id c)
      else bucket (st_documentIdsByScope st) l)"
  "st_recordTypes (create_document s c content rt st) = (st_recordTypes st)(doc_id c \<mapsto> TDocument)"
  "st_nextId (create_document s c content rt st) = max (st_nextId st) (doc_id c + 1)"
  by (auto simp: create_document_def Let_def bump_def current_at_def address_ids_def bucket_insertMapId
      fun_eq_iff split: option.splits)

lemma change_document_fields:
  "address_ids (change_document s i content st) = address_ids st"
  "current_at (change_document s i content st) = current_at st"
  "st_documentIdsByScope (change_document s i content st) = st_documentIdsByScope st"
  "st_recordTypes (change_document s i content st) = st_recordTypes st"
  "st_nextId (change_document s i content st) = st_nextId st"
  by (auto simp: change_document_def Let_def address_ids_def current_at_def fun_eq_iff split: option.splits)

lemma retire_document_eq:
  "retire_document s i a st =
     (case st_documents st i of None \<Rightarrow> st
      | Some d \<Rightarrow> st\<lparr>st_documents := (st_documents st)(i \<mapsto> retired_doc s a d)\<rparr>)"
  by (simp add: retire_document_def retired_doc_def Let_def split: option.splits)

lemma retire_document_fields:
  "st_documentAddresses (retire_document s i a st) = st_documentAddresses st"
  "address_ids (retire_document s i a st) = address_ids st"
  "current_at (retire_document s i a st) = current_at st"
  "st_documentIdsByScope (retire_document s i a st) = st_documentIdsByScope st"
  "st_recordTypes (retire_document s i a st) = st_recordTypes st"
  "st_nextId (retire_document s i a st) = st_nextId st"
  "st_documents (retire_document s i a st) = (st_documents st)(i := map_option (retired_doc s a) (st_documents st i))"
  by (auto simp: retire_document_eq address_ids_def current_at_def fun_eq_iff split: option.splits)

definition pointer_after :: "id \<Rightarrow> document_action \<Rightarrow> id option \<Rightarrow> id option" where
  "pointer_after i a cur =
     (if act_create a \<noteq> None \<and> \<not> act_retire a then Some i
      else if act_retire a \<and> cur = Some i then None else cur)"

lemma point_address_fields:
  "st_documentIdsByScope (point_address i a st) = st_documentIdsByScope st"
  "st_recordTypes (point_address i a st) = st_recordTypes st"
  "st_nextId (point_address i a st) = st_nextId st"
  "st_documents (point_address i a st) = st_documents st"
  "address_ids (point_address i a st) = address_ids st"
  by (auto simp: point_address_def Let_def address_ids_def fun_eq_iff split: option.splits)

lemma current_at_point_address:
  assumes "st_documents st i = Some d" and "act_create a \<noteq> None \<Longrightarrow> st_documentAddresses st (doc_addr d) \<noteq> None"
  shows "current_at (point_address i a st) k =
    (if k = doc_addr d then pointer_after i a (current_at st k) else current_at st k)"
proof (cases "st_documentAddresses st (doc_addr d)")
  case None
  then have "act_create a = None" using assms(2) by blast
  then show ?thesis using None assms(1)
    by (simp add: point_address_def Let_def current_at_def pointer_after_def doc_addr_def)
next
  case (Some ax)
  then show ?thesis using assms(1)
    by (simp add: point_address_def Let_def current_at_def pointer_after_def doc_addr_def)
qed

lemma change_document_documents:
  "st_documents st i = Some d \<Longrightarrow> act_create a = None \<Longrightarrow> act_content a = Some content \<Longrightarrow>
   st_documents (change_document s i content st) = (st_documents st)(i := written_doc s a (Some d))"
  by (simp add: change_document_def written_doc_def Let_def)

text \<open>The state between the content of an action and its retirement.\<close>

definition content_written :: "seq \<Rightarrow> id \<Rightarrow> document_action \<Rightarrow> storage \<Rightarrow> storage" where
  "content_written s i a st =
     (case act_create a of
        Some c \<Rightarrow> (case act_content a of Some content \<Rightarrow> create_document s c content (act_retire a) st | None \<Rightarrow> st)
      | None \<Rightarrow> (case act_content a of Some content \<Rightarrow> change_document s i content st | None \<Rightarrow> st))"

lemma apply_action_eq:
  "apply_action s st (i, a) = point_address i a (retire_document s i a (content_written s i a st))"
  by (simp add: apply_action_def content_written_def)

lemma content_written_documents:
  assumes "action_ok (st_documents st i) i a"
  shows "st_documents (content_written s i a st) = (st_documents st)(i := written_doc s a (st_documents st i))"
proof (cases "act_create a")
  case None
  then obtain d where d: "st_documents st i = Some d" using assms by (auto simp: action_ok_def)
  show ?thesis
  proof (cases "act_content a")
    case Some
    then show ?thesis using None d by (simp add: content_written_def change_document_documents)
  qed (use None d in \<open>auto simp: content_written_def written_doc_def\<close>)
next
  case (Some c)
  then obtain v b where "act_content a = Some (Base v b)" "doc_id c = i" using assms by (auto simp: action_ok_def)
  then show ?thesis using Some
    by (simp add: content_written_def create_document_fields written_doc_def)
qed

definition created_at :: "document_action \<Rightarrow> doc_address \<Rightarrow> bool" where
  "created_at a k \<longleftrightarrow> (\<exists>c. act_create a = Some c \<and> record_address c = k)"

lemma apply_action_fields:
  assumes ok: "action_ok (st_documents st i) i a"
  shows "st_documents (apply_action s st (i, a)) = (st_documents st)(i := doc_after s a (st_documents st i))"
    and "address_ids (apply_action s st (i, a)) k =
      (if created_at a k then insertSorted (address_ids st k) i else address_ids st k)"
    and "bucket (st_documentIdsByScope (apply_action s st (i, a))) l =
      (if \<exists>c. act_create a = Some c \<and> doc_scope c = l then insertSorted (bucket (st_documentIdsByScope st) l) i
       else bucket (st_documentIdsByScope st) l)"
    and "st_recordTypes (apply_action s st (i, a)) =
      (if act_create a = None then st_recordTypes st else (st_recordTypes st)(i \<mapsto> TDocument))"
    and "st_nextId (apply_action s st (i, a)) =
      (if act_create a = None then st_nextId st else max (st_nextId st) (i + 1))"
proof -
  show "st_documents (apply_action s st (i, a)) = (st_documents st)(i := doc_after s a (st_documents st i))"
    by (simp add: apply_action_eq point_address_fields retire_document_fields
        content_written_documents[OF ok] doc_after_def)
  show "address_ids (apply_action s st (i, a)) k =
      (if created_at a k then insertSorted (address_ids st k) i else address_ids st k)"
    using ok by (auto simp: apply_action_eq point_address_fields retire_document_fields content_written_def
        change_document_fields create_document_fields created_at_def action_ok_def split: option.splits)
  show "bucket (st_documentIdsByScope (apply_action s st (i, a))) l =
      (if \<exists>c. act_create a = Some c \<and> doc_scope c = l then insertSorted (bucket (st_documentIdsByScope st) l) i
       else bucket (st_documentIdsByScope st) l)"
    using ok by (auto simp: apply_action_eq point_address_fields retire_document_fields content_written_def
        change_document_fields create_document_fields action_ok_def split: option.splits)
  show "st_recordTypes (apply_action s st (i, a)) =
      (if act_create a = None then st_recordTypes st else (st_recordTypes st)(i \<mapsto> TDocument))"
    "st_nextId (apply_action s st (i, a)) =
      (if act_create a = None then st_nextId st else max (st_nextId st) (i + 1))"
    using ok by (auto simp: apply_action_eq point_address_fields retire_document_fields content_written_def
        change_document_fields create_document_fields action_ok_def split: option.splits)
qed

lemma apply_action_current:
  assumes ok: "action_ok (st_documents st i) i a" and d: "doc_after s a (st_documents st i) = Some d"
  shows "current_at (apply_action s st (i, a)) k =
    (if k = doc_addr d then pointer_after i a (current_at st k) else current_at st k)"
proof -
  let ?w = "retire_document s i a (content_written s i a st)"
  have docs: "st_documents ?w i = Some d"
    using d by (simp add: retire_document_fields content_written_documents[OF ok] doc_after_def)
  have ind: "st_documentAddresses ?w (doc_addr d) \<noteq> None" if c: "act_create a \<noteq> None"
  proof -
    obtain c v b where a: "act_create a = Some c" "act_content a = Some (Base v b)"
      using ok c by (auto simp: action_ok_def)
    then have "doc_addr d = record_address c"
      using d by (auto simp: doc_after_def written_doc_def doc_addr_def)
    then show ?thesis using a by (simp add: retire_document_fields content_written_def create_document_fields)
  qed
  have "current_at ?w = current_at st"
    by (auto simp: retire_document_fields content_written_def change_document_fields
        create_document_fields split: option.splits)
  then show ?thesis unfolding apply_action_eq using current_at_point_address[OF docs ind] by simp
qed


subsection \<open>Tables and indexes under the actions of a batch\<close>

lemma apply_action_other:
  "st_conversations (apply_action s st ia) = st_conversations st"
  "st_conversationIds (apply_action s st ia) = st_conversationIds st"
  "st_convByOwnerConversation (apply_action s st ia) = st_convByOwnerConversation st"
  "st_convByOwnerTask (apply_action s st ia) = st_convByOwnerTask st"
  "st_entries (apply_action s st ia) = st_entries st"
  "st_entryIds (apply_action s st ia) = st_entryIds st"
  "st_headEntryIds (apply_action s st ia) = st_headEntryIds st"
  "st_entryCommitSeqs (apply_action s st ia) = st_entryCommitSeqs st"
  "st_tasks (apply_action s st ia) = st_tasks st"
  "st_taskIds (apply_action s st ia) = st_taskIds st"
  "st_taskIdsByStatus (apply_action s st ia) = st_taskIdsByStatus st"
  "st_submissions (apply_action s st ia) = st_submissions st"
  "st_submissionIds (apply_action s st ia) = st_submissionIds st"
  "st_submissionIdsByStatus (apply_action s st ia) = st_submissionIdsByStatus st"
  "st_submissionIdsByRequest (apply_action s st ia) = st_submissionIdsByRequest st"
  "st_nextSeq (apply_action s st ia) = st_nextSeq st"
  "st_closed (apply_action s st ia) = st_closed st"
  by (cases ia; simp add: apply_action_eq point_address_def retire_document_eq content_written_def Let_def
      create_document_def change_document_def bump_def split: option.splits)+

lemma action_ok_cases:
  assumes "action_ok d i a"
  obtains (Create) c v b where "d = None" "act_create a = Some c" "doc_id c = i" "act_content a = Some (Base v b)"
  | (Change) stored where "d = Some stored" "act_create a = None" "doc_retiredAt (sd_record stored) = None"
  using assms by (auto simp: action_ok_def split: option.splits)

lemma apply_action_tables:
  assumes ok: "tables_ok st" and act: "action_ok (st_documents st i) i a"
    and new: "act_create a \<noteq> None \<Longrightarrow> st_recordTypes st i = None"
    and d: "doc_after s a (st_documents st i) = Some d"
  shows "tables_ok (apply_action s st (i, a))"
proof -
  have types: "types_ok st" using ok by (simp add: tables_ok_def)
  have held: "held (apply_action s st (i, a)) u = (if u = TDocument then insert i (held st u) else held st u)" for u
    by (cases u) (simp_all add: apply_action_other apply_action_fields(1)[OF act] d)
  have "types_ok (apply_action s st (i, a))"
  proof (rule types_ok_set[OF types, of i TDocument])
    have r: "st_recordTypes st i = Some TDocument" "i + 1 \<le> st_nextId st" if "act_create a = None"
    proof -
      have "st_documents st i \<noteq> None" using act that by (cases rule: action_ok_cases) auto
      then show r: "st_recordTypes st i = Some TDocument"
        using held_type[OF types, of i TDocument] by (simp add: domIff)
      then have "i < st_nextId st" using types_below[OF types] by blast
      then show "i + 1 \<le> st_nextId st" by simp
    qed
    then show "st_recordTypes st i = None \<or> st_recordTypes st i = Some TDocument" using new by blast
    show "st_recordTypes (apply_action s st (i, a)) = (st_recordTypes st)(i \<mapsto> TDocument)"
      "st_nextId (apply_action s st (i, a)) = max (st_nextId st) (i + 1)"
      using r by (auto simp: apply_action_fields[OF act] fun_eq_iff)
  qed (rule held)
  then show ?thesis
    using ok by (simp add: tables_ok_def conversations_ok_def entries_ok_def tasks_ok_def submissions_ok_def
        requests_ok_def apply_action_other)
qed

lemma doc_after_exists:
  assumes "action_ok d i a"
  obtains d' where "doc_after s a d = Some d'" "doc_addr d' = (case act_create a of Some c \<Rightarrow> record_address c | None \<Rightarrow> doc_addr (the d))"
    "doc_scope (sd_record d') = (case act_create a of Some c \<Rightarrow> doc_scope c | None \<Rightarrow> doc_scope (sd_record (the d)))"
    "doc_retiredAt (sd_record d') = (if act_retire a then Some s else None)"
  using assms
proof (cases rule: action_ok_cases)
  case Create
  then show ?thesis using that doc_after_create[of i a s] assms by (metis option.simps(5))
next
  case (Change stored)
  then show ?thesis
    by (intro that[of "retired_doc s a (the (written_doc s a d))"]; cases "act_content a")
      (simp_all add: doc_after_def written_doc_def doc_addr_def)
qed

lemma apply_action_indexes:
  assumes act: "action_ok (st_documents st i) i a"
    and g: "groups (address_ids st) (st_documents st) (\<lambda>d a. doc_addr d = a)"
      "groups (bucket (st_documentIdsByScope st)) (st_documents st) (\<lambda>d s. doc_scope (sd_record d) = s)"
  shows "groups (address_ids (apply_action s st (i, a))) (st_documents (apply_action s st (i, a))) (\<lambda>d a. doc_addr d = a)"
    and "groups (bucket (st_documentIdsByScope (apply_action s st (i, a)))) (st_documents (apply_action s st (i, a)))
      (\<lambda>d s. doc_scope (sd_record d) = s)"
proof -
  obtain d where d: "doc_after s a (st_documents st i) = Some d"
    "doc_addr d = (case act_create a of Some c \<Rightarrow> record_address c | None \<Rightarrow> doc_addr (the (st_documents st i)))"
    "doc_scope (sd_record d) = (case act_create a of Some c \<Rightarrow> doc_scope c
       | None \<Rightarrow> doc_scope (sd_record (the (st_documents st i))))"
    using doc_after_exists[OF act] by metis
  let ?t = "apply_action s st (i, a)"
  have "groups (address_ids ?t) ((st_documents st)(i \<mapsto> d)) (\<lambda>d a. doc_addr d = a) \<and>
    groups (bucket (st_documentIdsByScope ?t)) ((st_documents st)(i \<mapsto> d)) (\<lambda>d s. doc_scope (sd_record d) = s)"
    using act
  proof (cases rule: action_ok_cases)
    case Create
    then show ?thesis
      using d sorted_index.groups_add[OF g(1), of i "address_ids ?t" d]
        sorted_index.groups_add[OF g(2), of i "bucket (st_documentIdsByScope ?t)" d]
      by (simp add: apply_action_fields[OF act] created_at_def)
  next
    case (Change stored)
    then show ?thesis
      using d sorted_index.groups_change[OF g(1), of i stored "address_ids ?t" d]
        sorted_index.groups_change[OF g(2), of i stored "bucket (st_documentIdsByScope ?t)" d]
      by (simp add: apply_action_fields[OF act] created_at_def)
  qed
  then show "groups (address_ids ?t) (st_documents ?t) (\<lambda>d a. doc_addr d = a)"
    "groups (bucket (st_documentIdsByScope ?t)) (st_documents ?t) (\<lambda>d s. doc_scope (sd_record d) = s)"
    using d by (simp_all add: apply_action_fields[OF act])
qed

text \<open>The actions of an accepted batch: every ID once, every action fit for its incarnation.\<close>

definition actions_ok :: "storage \<Rightarrow> actions \<Rightarrow> bool" where
  "actions_ok st acts \<longleftrightarrow> distinct (map fst acts) \<and>
     (\<forall>(i, a) \<in> set acts. action_ok (st_documents st i) i a \<and> (act_create a \<noteq> None \<longrightarrow> st_recordTypes st i = None))"

lemma actions_ok_Cons:
  assumes "actions_ok st ((i, a) # acts)"
  shows "action_ok (st_documents st i) i a" "act_create a \<noteq> None \<Longrightarrow> st_recordTypes st i = None"
    "i \<notin> fst ` set acts" "actions_ok (apply_action s st (i, a)) acts"
proof -
  show act: "action_ok (st_documents st i) i a" and new: "act_create a \<noteq> None \<Longrightarrow> st_recordTypes st i = None"
    and i: "i \<notin> fst ` set acts"
    using assms by (auto simp: actions_ok_def)
  show "actions_ok (apply_action s st (i, a)) acts"
    unfolding actions_ok_def
  proof (intro conjI ballI)
    show "distinct (map fst acts)" using assms by (simp add: actions_ok_def)
    fix ja assume ja: "ja \<in> set acts"
    then have "fst ja \<noteq> i" using i by auto
    then show "case ja of (j, b) \<Rightarrow> action_ok (st_documents (apply_action s st (i, a)) j) j b \<and>
        (act_create b \<noteq> None \<longrightarrow> st_recordTypes (apply_action s st (i, a)) j = None)"
      using ja assms by (auto simp: actions_ok_def apply_action_fields[OF act] split: prod.splits)
  qed
qed

lemma applied_documents:
  "actions_ok st acts \<Longrightarrow> st_documents (applyDocumentActions s acts st) j =
     (case map_of acts j of None \<Rightarrow> st_documents st j | Some a \<Rightarrow> doc_after s a (st_documents st j))"
proof (induction acts arbitrary: st)
  case (Cons ia acts)
  obtain i a where ia: "ia = (i, a)" by (cases ia)
  note f = actions_ok_Cons[OF Cons.prems[unfolded ia]]
  have "map_of acts i = None" using f(3) by (simp add: map_of_eq_None_iff)
  then show ?case
    using Cons.IH[OF f(4)[where s = s]] apply_action_fields(1)[OF f(1), of s]
    by (cases "j = i") (simp_all add: ia applyDocumentActions_def split: option.split)
qed (simp add: applyDocumentActions_def)

lemma applied_tables:
  "actions_ok st acts \<Longrightarrow> tables_ok st \<Longrightarrow> tables_ok (applyDocumentActions s acts st)"
proof (induction acts arbitrary: st)
  case (Cons ia acts)
  obtain i a where ia: "ia = (i, a)" by (cases ia)
  note f = actions_ok_Cons[OF Cons.prems(1)[unfolded ia]]
  obtain d where "doc_after s a (st_documents st i) = Some d" using doc_after_exists[OF f(1)] by metis
  from apply_action_tables[OF Cons.prems(2) f(1,2) this]
  show ?case using Cons.IH[OF f(4)[where s = s]] by (simp add: ia applyDocumentActions_def)
qed (simp add: applyDocumentActions_def)

lemma applied_indexes:
  "actions_ok st acts \<Longrightarrow> groups (address_ids st) (st_documents st) (\<lambda>d a. doc_addr d = a) \<Longrightarrow>
   groups (bucket (st_documentIdsByScope st)) (st_documents st) (\<lambda>d s. doc_scope (sd_record d) = s) \<Longrightarrow>
   st' = applyDocumentActions s acts st \<Longrightarrow>
   groups (address_ids st') (st_documents st') (\<lambda>d a. doc_addr d = a) \<and>
   groups (bucket (st_documentIdsByScope st')) (st_documents st') (\<lambda>d s. doc_scope (sd_record d) = s)"
proof (induction acts arbitrary: st)
  case (Cons ia acts)
  obtain i a where ia: "ia = (i, a)" by (cases ia)
  note f = actions_ok_Cons[OF Cons.prems(1)[unfolded ia]]
  show ?case
    using Cons.IH[OF f(4)[where s = s] apply_action_indexes[OF f(1) Cons.prems(2,3)]] Cons.prems(4)
    by (simp add: ia applyDocumentActions_def)
qed (simp add: applyDocumentActions_def)

lemma applied_seq:
  "st_nextSeq (applyDocumentActions s acts st) = st_nextSeq st" "st_closed (applyDocumentActions s acts st) = st_closed st"
  unfolding applyDocumentActions_def
  by (induction acts arbitrary: st) (simp_all add: apply_action_other)

end
