(* ===== verification/Storage_Commit.thy ===== *)
theory Storage_Commit
  imports Storage_Documents
begin

text \<open>
  Commits: the checks of a batch imply what its application needs, so that the application of an
  accepted batch cannot throw and keeps the invariant of the whole storage; an address has at
  most one live incarnation, which is the one it points to.
\<close>

subsection \<open>Addresses\<close>

definition pointer_step :: "storage \<Rightarrow> doc_address \<Rightarrow> id option \<Rightarrow> id \<times> document_action \<Rightarrow> id option" where
  "pointer_step st k cur ia =
     (if action_address st (fst ia) (snd ia) = Some k then pointer_after (fst ia) (snd ia) cur else cur)"

lemma action_address_doc:
  assumes "action_ok (st_documents st i) i a" and "doc_after s a (st_documents st i) = Some d"
  shows "action_address st i a = Some (doc_addr d)"
  using assms(1)
proof (cases rule: action_ok_cases)
  case (Create c v b)
  then show ?thesis using assms(2) by (auto simp: action_address_def doc_after_def written_doc_def doc_addr_def)
next
  case (Change stored)
  then show ?thesis using assms(2)
    by (auto simp: action_address_def doc_after_def written_doc_def doc_addr_def split: option.splits)
qed

lemma applied_current:
  "actions_ok st acts \<Longrightarrow>
   current_at (applyDocumentActions s acts st) k = foldl (pointer_step st k) (current_at st k) acts"
proof (induction acts arbitrary: st)
  case (Cons ia acts)
  obtain i a where ia: "ia = (i, a)" by (cases ia)
  note f = actions_ok_Cons[OF Cons.prems[unfolded ia]]
  obtain d where d: "doc_after s a (st_documents st i) = Some d" using doc_after_exists[OF f(1)] by metis
  let ?t = "apply_action s st (i, a)"
  have "current_at ?t k = pointer_step st k (current_at st k) (i, a)"
    using apply_action_current[OF f(1) d] action_address_doc[OF f(1) d] by (auto simp: pointer_step_def)
  moreover have "pointer_step ?t k c jb = pointer_step st k c jb" if "jb \<in> set acts" for c jb
  proof -
    have "fst jb \<noteq> i" using that f(3) by auto
    then have "st_documents ?t (fst jb) = st_documents st (fst jb)"
      by (simp add: apply_action_fields(1)[OF f(1)])
    then show ?thesis by (simp only: pointer_step_def action_address_def)
  qed
  then have "foldl (pointer_step ?t k) c acts = foldl (pointer_step st k) c acts" for c
    by (rule foldl_cong[OF refl refl]) auto
  ultimately show ?case using Cons.IH[OF f(4)[where s = s]] by (simp add: ia applyDocumentActions_def)
qed (simp add: applyDocumentActions_def)

text \<open>The incarnations a batch makes live at an address, and the live ones it retires.\<close>

definition fresh_at :: "storage \<Rightarrow> doc_address \<Rightarrow> actions \<Rightarrow> actions" where
  "fresh_at st k acts = filter (\<lambda>(i, a). action_address st i a = Some k \<and> act_create a \<noteq> None \<and> \<not> act_retire a) acts"

definition gone_at :: "storage \<Rightarrow> doc_address \<Rightarrow> actions \<Rightarrow> actions" where
  "gone_at st k acts = filter (\<lambda>(i, a). action_address st i a = Some k \<and> act_retire a \<and> current_at st k = Some i) acts"

lemma fresh_at_simps:
  "fresh_at st k [] = []"
  "fresh_at st k (acts @ [(i, a)]) = fresh_at st k acts @
     (if action_address st i a = Some k \<and> act_create a \<noteq> None \<and> \<not> act_retire a then [(i, a)] else [])"
  "j \<in> fst ` set (fresh_at st k acts) \<longleftrightarrow> (\<exists>a. (j, a) \<in> set acts \<and>
     action_address st j a = Some k \<and> act_create a \<noteq> None \<and> \<not> act_retire a)"
  by (auto simp: fresh_at_def image_iff)

lemma gone_at_simps:
  "gone_at st k [] = []"
  "gone_at st k (acts @ [(i, a)]) = gone_at st k acts @
     (if action_address st i a = Some k \<and> act_retire a \<and> current_at st k = Some i then [(i, a)] else [])"
  "j \<in> fst ` set (gone_at st k acts) \<longleftrightarrow> (\<exists>a. (j, a) \<in> set acts \<and>
     action_address st j a = Some k \<and> act_retire a \<and> current_at st k = Some j)"
  by (auto simp: gone_at_def image_iff)

lemma old_is_current:
  assumes "pointers_ok st" and "action_ok (st_documents st i) i a" and "action_address st i a = Some k"
  shows "current_at st k = Some i \<longleftrightarrow> act_create a = None"
  using assms(2)
proof (cases rule: action_ok_cases)
  case (Create c v b)
  then show ?thesis using assms(1) by (auto simp: pointers_ok_def live_at_def)
next
  case (Change stored)
  then show ?thesis using assms(1,3) by (auto simp: pointers_ok_def live_at_def action_address_def doc_addr_def)
qed

lemma pointer_folded:
  assumes "actions_ok st acts" and p: "pointers_ok st"
  shows "foldl (pointer_step st k) (current_at st k) acts =
    (if fresh_at st k acts = [] then (if gone_at st k acts = [] then current_at st k else None)
     else Some (fst (last (fresh_at st k acts))))"
  using assms(1)
proof (induction acts rule: rev_induct)
  case (snoc ia acts)
  obtain i a where ia: "ia = (i, a)" by (cases ia)
  have prems: "actions_ok st acts" "action_ok (st_documents st i) i a" "i \<notin> fst ` set acts"
    using snoc.prems by (auto simp: actions_ok_def ia)
  note IH = snoc.IH[OF prems(1)]
  show ?case
  proof (cases "action_address st i a = Some k")
    case False
    then show ?thesis using IH by (simp add: ia pointer_step_def fresh_at_simps gone_at_simps)
  next
    case True
    note cur = old_is_current[OF p prems(2) True]
    have other: "fst (last (fresh_at st k acts)) \<noteq> i" if "fresh_at st k acts \<noteq> []"
      using last_in_set[OF that] prems(3) by (auto simp: fresh_at_def)
    have none: "gone_at st k acts = []" if "current_at st k = Some i"
      using that prems(3) by (force simp: gone_at_def filter_empty_conv)
    consider "act_create a \<noteq> None" "\<not> act_retire a" | "act_create a \<noteq> None" "act_retire a"
      | "act_create a = None" "act_retire a" | "act_create a = None" "\<not> act_retire a" by blast
    then show ?thesis
    proof cases
      case 1
      then show ?thesis using True IH by (simp add: ia pointer_step_def pointer_after_def fresh_at_simps gone_at_simps)
    next
      case 2
      then have "current_at st k \<noteq> Some i" using cur by simp
      then show ?thesis using 2 True IH other
        by (simp add: ia pointer_step_def pointer_after_def fresh_at_simps gone_at_simps)
    next
      case 3
      then show ?thesis using True IH cur other none
        by (simp add: ia pointer_step_def pointer_after_def fresh_at_simps gone_at_simps)
    next
      case 4
      then show ?thesis using True IH
        by (simp add: ia pointer_step_def pointer_after_def fresh_at_simps gone_at_simps)
    qed
  qed
qed (simp add: fresh_at_simps gone_at_simps)

lemma live_after:
  assumes ok: "actions_ok st acts" and p: "pointers_ok st"
  shows "live_at (applyDocumentActions s acts st) k j \<longleftrightarrow>
    j \<in> fst ` set (fresh_at st k acts) \<or> current_at st k = Some j \<and> j \<notin> fst ` set (gone_at st k acts)"
proof (cases "map_of acts j")
  case None
  then have "j \<notin> fst ` set acts" by (simp add: map_of_eq_None_iff)
  then have "j \<notin> fst ` set (fresh_at st k acts)" "j \<notin> fst ` set (gone_at st k acts)"
    by (auto simp: fresh_at_def gone_at_def)
  then show ?thesis using p None applied_documents[OF ok, of s j] by (simp add: live_at_def pointers_ok_def)
next
  case (Some a)
  then have ja: "(j, a) \<in> set acts" by (rule map_of_SomeD)
  then have act: "action_ok (st_documents st j) j a" using ok by (auto simp: actions_ok_def)
  have only: "b = a" if "(j, b) \<in> set acts" for b
    using ok that ja by (metis actions_ok_def eq_key_imp_eq_value)
  obtain d where d: "doc_after s a (st_documents st j) = Some d"
    "doc_retiredAt (sd_record d) = (if act_retire a then Some s else None)"
    using doc_after_exists[OF act] by metis
  have addr: "action_address st j a = Some (doc_addr d)" by (rule action_address_doc[OF act d(1)])
  have "live_at (applyDocumentActions s acts st) k j \<longleftrightarrow> action_address st j a = Some k \<and> \<not> act_retire a"
    using applied_documents[OF ok, of s j] d Some addr by (auto simp: live_at_def)
  moreover have "j \<in> fst ` set (fresh_at st k acts) \<longleftrightarrow>
      action_address st j a = Some k \<and> act_create a \<noteq> None \<and> \<not> act_retire a"
    unfolding fresh_at_simps using ja only by blast
  moreover have "j \<in> fst ` set (gone_at st k acts) \<longleftrightarrow>
      action_address st j a = Some k \<and> act_retire a \<and> current_at st k = Some j"
    unfolding gone_at_simps using ja only by blast
  moreover have "action_address st j a = Some k" if c: "current_at st k = Some j"
  proof -
    have live: "live_at st k j" using p c by (simp add: pointers_ok_def)
    from act show ?thesis using live
      by (cases rule: action_ok_cases) (auto simp: live_at_def action_address_def doc_addr_def)
  qed
  ultimately show ?thesis using old_is_current[OF p act] by blast
qed

lemma pointers_kept:
  assumes ok: "actions_ok st acts" and p: "pointers_ok st"
    and count: "\<And>k. (if current_at st k = None then 0 else 1) + int (length (fresh_at st k acts))
        - int (length (gone_at st k acts)) \<le> 1"
  shows "pointers_ok (applyDocumentActions s acts st)"
  unfolding pointers_ok_def
proof (intro allI)
  fix k j
  let ?f = "fresh_at st k acts" and ?g = "gone_at st k acts"
  have g: "fst jb = the (current_at st k) \<and> current_at st k \<noteq> None" if "jb \<in> set ?g" for jb
    using that by (auto simp: gone_at_def)
  have dist: "distinct (map fst ?g)"
    using ok by (auto simp: gone_at_def actions_ok_def intro: distinct_map_filter)
  have len: "length ?g \<le> (if current_at st k = None then 0 else 1)"
  proof (cases ?g)
    case (Cons x xs)
    then have "xs = []" using g dist by (cases xs) auto
    then show ?thesis using Cons g[of x] by simp
  qed simp
  have hd: "fst ` set ?g = {the (current_at st k)}" if "?g \<noteq> []"
    using that g by (cases ?g) auto
  show "current_at (applyDocumentActions s acts st) k = Some j \<longleftrightarrow> live_at (applyDocumentActions s acts st) k j"
  proof (cases ?f)
    case Nil
    then show ?thesis
      using hd by (cases "?g = []") (auto simp: applied_current[OF ok] pointer_folded[OF ok p] live_after[OF ok p])
  next
    case (Cons x xs)
    have "length xs = 0 \<and> (current_at st k = None \<or> 0 < length ?g)"
    proof (cases "current_at st k = None")
      case True
      then show ?thesis using count[of k] len Cons by simp
    next
      case False
      then have "int (length xs) + 1 \<le> int (length ?g)" "length ?g \<le> 1"
        using count[of k] len Cons by (auto simp del: not_None_eq)
      then show ?thesis by linarith
    qed
    then have "xs = []" and c: "current_at st k = None \<or> ?g \<noteq> []" by auto
    then show ?thesis
      using Cons hd by (auto simp: applied_current[OF ok] pointer_folded[OF ok p] live_after[OF ok p])
  qed
qed


subsection \<open>What the checks of a batch establish\<close>

definition ids_after :: "(id \<rightharpoonup> table_name) \<Rightarrow> storage_write list \<Rightarrow> (id \<rightharpoonup> table_name)" where
  "ids_after claimed ws = foldl (\<lambda>m w. case claim w of None \<Rightarrow> m | Some (t, i) \<Rightarrow> m(i \<mapsto> t)) claimed ws"

lemma check_ids_Cons:
  assumes "check_ids types claimed (w # ws) = Inr ()"
  shows "check_ids types (case claim w of None \<Rightarrow> claimed | Some (t, i) \<Rightarrow> claimed(i \<mapsto> t)) ws = Inr ()"
    and "claim w = Some (t, i) \<Longrightarrow> types i = None \<or> rewritable t \<and> types i = Some t"
    and "claim w = Some (t, i) \<Longrightarrow> claimed i = None \<or> rewritable t \<and> claimed i = Some t"
  using assms by (auto simp: check_claim_def andThen_eq_Inr ensure_eq_Inr split: option.splits prod.splits if_splits)

text \<open>An ID claimed for a document stays claimed for it alone.\<close>

lemma document_claim_stays:
  "check_ids types claimed ws = Inr () \<Longrightarrow> claimed i = Some TDocument \<Longrightarrow>
   ids_after claimed ws i = Some TDocument"
proof (induction ws arbitrary: claimed)
  case (Cons w ws)
  have other: "snd ti \<noteq> i" if "claim w = Some ti" for ti
    using check_ids_Cons(3)[OF Cons.prems(1), of "fst ti" "snd ti"] that Cons.prems(2)
    by (auto simp: rewritable_def)
  have "ids_after (case claim w of None \<Rightarrow> claimed | Some (t, i) \<Rightarrow> claimed(i \<mapsto> t)) ws i = Some TDocument"
    using check_ids_Cons(1)[OF Cons.prems(1)] Cons.prems(2) other
    by (intro Cons.IH) (auto split: option.splits prod.splits)
  then show ?case by (simp add: ids_after_def)
qed (simp add: ids_after_def)

lemma document_claimed:
  "check_ids types claimed ws = Inr () \<Longrightarrow> w \<in> set ws \<Longrightarrow> claim w = Some (TDocument, i) \<Longrightarrow>
   types i = None \<and> ids_after claimed ws i = Some TDocument"
proof (induction ws arbitrary: claimed)
  case (Cons v ws)
  show ?case
  proof (cases "v = w")
    case True
    then show ?thesis
      using document_claim_stays[OF check_ids_Cons(1)[OF Cons.prems(1)], of i]
        check_ids_Cons(2)[OF Cons.prems(1), of TDocument i] Cons.prems(3)
      by (auto simp: ids_after_def rewritable_def)
  next
    case False
    then show ?thesis
      using Cons.IH[OF check_ids_Cons(1)[OF Cons.prems(1)]] Cons.prems(2,3) by (auto simp: ids_after_def)
  qed
qed simp

text \<open>
  The records of an accepted batch: every one can be applied, the tables stay well formed, and
  what the table of types then says of an ID was so before or is claimed by a record of the batch.
\<close>

definition wrote :: "seq \<Rightarrow> storage \<Rightarrow> storage_write \<Rightarrow> storage \<Rightarrow> bool" where
  "wrote s st w st' \<longleftrightarrow> apply_write s st w = Inr st' \<and> tables_ok st' \<and>
     st_documents st' = st_documents st \<and> st_documentAddresses st' = st_documentAddresses st \<and>
     st_documentIdsByScope st' = st_documentIdsByScope st \<and> st_nextSeq st' = st_nextSeq st \<and>
     st_closed st' = st_closed st \<and>
     (\<forall>j. st_recordTypes st' j = (case claim w of None \<Rightarrow> st_recordTypes st j
        | Some (t, i) \<Rightarrow> if t \<noteq> TDocument \<and> j = i then Some t else st_recordTypes st j))"

lemma apply_write_ok:
  assumes ok: "tables_ok st" and w: "\<not> is_copy w"
    and c: "\<And>t i. claim w = Some (t, i) \<Longrightarrow> t \<noteq> TDocument \<Longrightarrow>
      st_recordTypes st i = None \<or> rewritable t \<and> st_recordTypes st i = Some t"
  shows "\<exists>st'. wrote s st w st'"
proof (cases w)
  case (WConversation r)
  then have "tables_ok (apply_conversation r st)"
    using c[of TConversation "conv_id r"] by (intro conversation_ok ok) (auto simp: rewritable_def)
  then show ?thesis using WConversation 
    by (intro exI[of _ "apply_conversation r st"]) (simp add: wrote_def apply_write_def apply_conversation_fields)
next
  case (WEntry r)
  then have "tables_ok (apply_entry s r st)"
    using c[of TEntry "entry_id r"] by (intro entry_ok ok) (auto simp: rewritable_def)
  then show ?thesis using WEntry 
    by (intro exI[of _ "apply_entry s r st"]) (simp add: wrote_def apply_write_def apply_entry_fields)
next
  case (WTask r)
  then have "tables_ok (apply_task r st)"
    using c[of TTask "task_id r"] by (intro task_ok ok) auto
  then show ?thesis using WTask 
    by (intro exI[of _ "apply_task r st"]) (simp add: wrote_def apply_write_def apply_task_fields)
next
  case (WSubmission r)
  then have "tables_ok (apply_submission r st)"
    using c[of TSubmission "sub_id r"] by (intro submission_ok ok) auto
  then show ?thesis using WSubmission 
    by (intro exI[of _ "apply_submission r st"]) (simp add: wrote_def apply_write_def apply_submission_fields)
qed (use w ok in \<open>auto simp: apply_write_def wrote_def\<close>)

lemma apply_writes_ok:
  assumes "tables_ok st" and "list_all (\<lambda>w. \<not> is_copy w) ws" and "check_ids types claimed ws = Inr ()"
    and "\<And>j t. st_recordTypes st j = Some t \<Longrightarrow> types j = Some t \<or> claimed j = Some t \<and> t \<noteq> TDocument"
  shows "\<exists>st'. run_steps (apply_write s) st ws = Inr st' \<and> tables_ok st' \<and>
    st_documents st' = st_documents st \<and> st_documentAddresses st' = st_documentAddresses st \<and>
    st_documentIdsByScope st' = st_documentIdsByScope st \<and> st_nextSeq st' = st_nextSeq st \<and>
    st_closed st' = st_closed st \<and>
    (\<forall>j t. st_recordTypes st' j = Some t \<longrightarrow> types j = Some t \<or> ids_after claimed ws j = Some t \<and> t \<noteq> TDocument)"
  using assms
proof (induction ws arbitrary: st claimed)
  case (Cons w ws)
  have w: "\<not> is_copy w" using Cons.prems(2) by simp
  note chk = check_ids_Cons[OF Cons.prems(3)]
  have c: "st_recordTypes st i = None \<or> rewritable t \<and> st_recordTypes st i = Some t"
    if "claim w = Some (t, i)" "t \<noteq> TDocument" for t i
    using chk(2,3)[OF that(1)] Cons.prems(4)[of i] by (cases "st_recordTypes st i") auto
  obtain st1 where "wrote s st w st1" using apply_write_ok[OF Cons.prems(1) w c, where s = s] by blast
  note st1 = this[unfolded wrote_def]
  then have types1: "st_recordTypes st1 j = (case claim w of None \<Rightarrow> st_recordTypes st j
      | Some (t, i) \<Rightarrow> if t \<noteq> TDocument \<and> j = i then Some t else st_recordTypes st j)" for j
    by simp
  let ?c = "case claim w of None \<Rightarrow> claimed | Some (t, i) \<Rightarrow> claimed(i \<mapsto> t)"
  have types: "types j = Some t \<or> ?c j = Some t \<and> t \<noteq> TDocument" if "st_recordTypes st1 j = Some t" for j t
  proof (cases "claim w")
    case None
    then show ?thesis using that Cons.prems(4)[of j t] unfolding types1 by simp
  next
    case (Some ui)
    obtain u i where ui: "ui = (u, i)" by (cases ui)
    have i: "claimed i = None \<or> rewritable u \<and> claimed i = Some u" using chk(3) Some ui by simp
    show ?thesis
    proof (cases "j = i")
      case True
      then show ?thesis using that Cons.prems(4)[of j t] Some ui i unfolding types1
        by (cases "u = TDocument") (simp_all add: rewritable_def)
    next
      case False
      then show ?thesis using that Cons.prems(4)[of j t] Some ui unfolding types1 by simp
    qed
  qed
  have copies: "list_all (\<lambda>w. \<not> is_copy w) ws" using Cons.prems(2) by simp
  have "ids_after claimed (w # ws) = ids_after ?c ws" by (simp add: ids_after_def)
  moreover have st1': "apply_write s st w = Inr st1" "tables_ok st1"
    "st_documents st1 = st_documents st" "st_documentAddresses st1 = st_documentAddresses st"
    "st_documentIdsByScope st1 = st_documentIdsByScope st" "st_nextSeq st1 = st_nextSeq st"
    "st_closed st1 = st_closed st"
    using st1 by simp_all
  ultimately show ?case using Cons.IH[OF st1'(2) copies chk(1) types] by simp
qed (auto simp: ids_after_def)


text \<open>The document actions of an accepted batch.\<close>

definition actions_shape :: "storage_write list \<Rightarrow> actions \<Rightarrow> bool" where
  "actions_shape ws acts \<longleftrightarrow> distinct (map fst acts) \<and>
     (\<forall>(i, a) \<in> set acts. \<forall>c. act_create a = Some c \<longrightarrow>
        doc_id c = i \<and> (\<exists>v b. act_content a = Some (Base v b) \<and> WDocCreate c v b \<in> set ws))"

lemma actions_shapeD:
  "actions_shape ws acts \<Longrightarrow> (i, a) \<in> set acts \<Longrightarrow> act_create a = Some c \<Longrightarrow>
   doc_id c = i \<and> (\<exists>v b. act_content a = Some (Base v b) \<and> WDocCreate c v b \<in> set ws)"
  by (auto simp: actions_shape_def)

lemma actions_shape_update:
  assumes "actions_shape ws acts"
    and "\<And>c. act_create a = Some c \<Longrightarrow> doc_id c = i \<and> (\<exists>v b. act_content a = Some (Base v b) \<and> WDocCreate c v b \<in> set ws)"
  shows "actions_shape ws (AList.update i a acts)"
  using assms unfolding actions_shape_def by (auto simp: distinct_update dest!: set_update_subset)

lemma action_of_shape:
  "actions_shape ws acts \<Longrightarrow> act_create (action_of acts i) = Some c \<Longrightarrow>
   doc_id c = i \<and> (\<exists>v b. act_content (action_of acts i) = Some (Base v b) \<and> WDocCreate c v b \<in> set ws)"
  by (cases "map_of acts i") (force simp: action_of_def actions_shape_def dest: map_of_SomeD)+

lemma prepare_action_shape:
  assumes "actions_shape ws acts" and "w \<in> set ws" and "prepare_action acts w = Inr acts'"
  shows "actions_shape ws acts'"
proof -
  have "act_create (action_of acts i) = None" if "act_content (action_of acts i) = None" for i
    using action_of_shape[OF assms(1), of i] that by (cases "act_create (action_of acts i)") auto
  then show ?thesis
  using assms action_of_shape[OF assms(1)]
  by (cases w) (auto simp: prepare_action_def Let_def split: if_splits intro!: actions_shape_update)
qed

lemma prepared_shape: "prepareDocumentActions ws = Inr acts \<Longrightarrow> actions_shape ws acts"
  unfolding prepareDocumentActions_def
  by (erule run_steps_invariant[where P = "actions_shape ws"])
    (auto simp: actions_shape_def[of _ "[]"] intro: prepare_action_shape)

definition live_value :: "storage \<Rightarrow> live_counts \<Rightarrow> doc_address \<Rightarrow> int" where
  "live_value st live k = (case map_of live k of Some n \<Rightarrow> n | None \<Rightarrow> if current_at st k = None then 0 else 1)"

definition live_changes :: "storage \<Rightarrow> doc_address \<Rightarrow> actions \<Rightarrow> int" where
  "live_changes st k acts = int (length (fresh_at st k acts)) - int (length (gone_at st k acts))"

lemma live_changes_Cons:
  "live_changes st k ((i, a) # acts) =
     (if action_address st i a = Some k then live_change st k i a else 0) + live_changes st k acts"
  by (auto simp: live_changes_def live_change_def fresh_at_def gone_at_def)

lemma checked_live:
  "run_steps (check_action st) live acts = Inr live' \<Longrightarrow>
   live_value st live' k = live_value st live k + live_changes st k acts"
proof (induction acts arbitrary: live)
  case Nil
  then show ?case by (simp add: live_changes_def fresh_at_def gone_at_def)
next
  case (Cons ia acts)
  obtain i a where ia: "ia = (i, a)" by (cases ia)
  obtain live1 where l: "check_action st live (i, a) = Inr live1" "run_steps (check_action st) live1 acts = Inr live'"
    using Cons.prems by (auto simp: ia andThen_eq_Inr)
  have "live_value st live1 k = live_value st live k +
      (if action_address st i a = Some k then live_change st k i a else 0)"
    using l(1) by (auto simp: check_action_def andThen_eq_Inr live_value_def Let_def split: option.splits if_splits)
  then show ?case using Cons.IH[OF l(2)] by (simp add: ia live_changes_Cons)
qed

lemma checked_action:
  "run_steps (check_action st) live acts = Inr live' \<Longrightarrow> (i, a) \<in> set acts \<Longrightarrow>
   \<exists>l l'. check_action st l (i, a) = Inr l'"
  by (induction acts arbitrary: live) (auto simp: andThen_eq_Inr)

lemma checked_actions_ok:
  assumes ids: "checkGlobalIds st ws = Inr ()" and shape: "actions_shape ws acts"
    and chk: "checkDocumentActions st acts = Inr ()"
  shows "actions_ok st acts"
    and "(if current_at st k = None then 0 else 1) + live_changes st k acts \<le> 1"
proof -
  obtain live where live: "run_steps (check_action st) [] acts = Inr live" "list_all (\<lambda>kn. \<not> snd kn > 1) live"
    using chk by (auto simp: checkDocumentActions_def andThen_eq_Inr ensure_eq_Inr)
  have "live_value st live k \<le> 1"
    using live(2) by (auto simp: live_value_def list_all_iff split: option.splits dest!: map_of_SomeD)
  then show "(if current_at st k = None then 0 else 1) + live_changes st k acts \<le> 1"
    using checked_live[OF live(1), of k] by (simp add: live_value_def)
  show "actions_ok st acts"
    unfolding actions_ok_def
  proof (intro conjI ballI)
    show "distinct (map fst acts)" using shape by (simp add: actions_shape_def)
    fix ia assume ia: "ia \<in> set acts"
    obtain i a where [simp]: "ia = (i, a)" by (cases ia)
    obtain l l' where c: "check_action st l (i, a) = Inr l'" using checked_action[OF live(1)] ia by fastforce
    show "case ia of (i, a) \<Rightarrow> action_ok (st_documents st i) i a \<and> (act_create a \<noteq> None \<longrightarrow> st_recordTypes st i = None)"
    proof (cases "act_create a")
      case None
      then show ?thesis
        using c by (auto simp: check_action_def andThen_eq_Inr ensure_eq_Inr action_ok_def check_content_def Let_def
            split: option.splits if_splits)
    next
      case (Some d)
      then obtain v b where d: "doc_id d = i" "act_content a = Some (Base v b)" "WDocCreate d v b \<in> set ws"
        using actions_shapeD[OF shape, of i a d] ia by auto
      then have "st_recordTypes st i = None"
        using document_claimed[OF ids[unfolded checkGlobalIds_def] d(3), of i] by simp
      then show ?thesis using c Some d by (auto simp: check_action_def andThen_eq_Inr ensure_eq_Inr action_ok_def Let_def)
    qed
  qed
qed


subsection \<open>Commits\<close>

lemma resolve_copies_none: "resolve_copies st changed ws = Inr ws' \<Longrightarrow> list_all (\<lambda>w. \<not> is_copy w) ws'"
proof (induction ws arbitrary: ws')
  case (Cons w ws)
  then show ?case
    by (cases w) (auto simp: andThen_eq_Inr resolve_copy_def Let_def split: sum.splits option.splits if_splits)
qed simp

lemma resolved_no_copies: "resolveDocumentCopies st ws = Inr ws' \<Longrightarrow> list_all (\<lambda>w. \<not> is_copy w) ws'"
  by (auto simp: resolveDocumentCopies_def list_all_iff list_ex_iff resolve_copies_none[unfolded list_all_iff]
      split: if_splits)

lemma document_fields_only:
  assumes "st_documents st1 = st_documents st" and "st_documentAddresses st1 = st_documentAddresses st"
  shows "current_at st1 = current_at st" "pointers_ok st1 = pointers_ok st" "live_changes st1 = live_changes st"
    "address_ids st1 = address_ids st"
proof -
  show c: "current_at st1 = current_at st" and "address_ids st1 = address_ids st"
    using assms by (auto simp: current_at_def address_ids_def)
  have a: "action_address st1 = action_address st"
    unfolding action_address_def[abs_def] assms(1) ..
  show "pointers_ok st1 = pointers_ok st" using assms c by (simp add: pointers_ok_def live_at_def)
  show "live_changes st1 = live_changes st"
    using c a by (auto simp: live_changes_def fresh_at_def gone_at_def fun_eq_iff)
qed

text \<open>The new incarnations and the changed ones, after all actions.\<close>

lemma applied_incarnations:
  assumes ok: "actions_ok st acts" and inv: "incarnations_ok n st" and n: "n \<le> s"
  shows "incarnations_ok (s + 1) (applyDocumentActions s acts st)"
proof -
  have docs: "doc_id (sd_record d) = i \<and> doc_ok (s + 1) d"
    if d: "st_documents (applyDocumentActions s acts st) i = Some d" for i d
  proof (cases "map_of acts i")
    case None
    then have "st_documents st i = Some d" using d applied_documents[OF ok, of s i] by simp
    then show ?thesis using inv n doc_ok_mono[of n d "s + 1"] by (simp add: incarnations_ok_def)
  next
    case (Some a)
    then have after: "doc_after s a (st_documents st i) = Some d" using d applied_documents[OF ok, of s i] by simp
    have act: "action_ok (st_documents st i) i a" using ok Some by (auto simp: actions_ok_def dest: map_of_SomeD)
    show ?thesis
    proof (cases "st_documents st i")
      case None
      then show ?thesis using doc_after_create[of i a s] act after by (metis option.inject)
    next
      case d0: (Some d0)
      then have "doc_id (sd_record d0) = i" "doc_ok s d0" using inv n doc_ok_mono[of n d0 s] by (auto simp: incarnations_ok_def)
      then show ?thesis using doc_after_change[of s d0 i a] act after d0 by (metis option.inject)
    qed
  qed
  then show ?thesis
    using applied_indexes[OF ok _ _ refl, of s] inv by (simp add: incarnations_ok_def)
qed

text \<open>The documents after a batch, one by one.\<close>

definition documents_follow :: "seq \<Rightarrow> actions \<Rightarrow> storage \<Rightarrow> storage \<Rightarrow> bool" where
  "documents_follow s acts st st' \<longleftrightarrow> (\<forall>i.
     (case map_of acts i of
        None \<Rightarrow> st_documents st' i = st_documents st i
      | Some a \<Rightarrow> action_ok (st_documents st i) i a \<and> st_documents st' i = doc_after s a (st_documents st i)))"

lemma prepared_applies:
  assumes ok: "storage_ok st" and p: "prepareCommit st ws s = Inr p"
  shows "\<exists>st'. applyPreparedCommit st p = Inr st' \<and> storage_ok st' \<and> st_nextSeq st' = s + 1 \<and>
    st_closed st' = st_closed st \<and> prep_seq p = s \<and> (\<exists>acts. documents_follow s acts st st')"
proof -
  obtain detached acts where prep: "st_nextSeq st \<le> s" "resolveDocumentCopies st ws = Inr detached"
    "checkGlobalIds st detached = Inr ()" "prepareDocumentActions detached = Inr acts"
    "checkDocumentActions st acts = Inr ()" and p': "p = \<lparr>prep_seq = s, prep_writes = detached, prep_actions = acts\<rparr>"
    using p by (auto simp: prepareCommit_def andThen_eq_Inr ensure_eq_Inr)
  note shape = prepared_shape[OF prep(4)]
  note acts = checked_actions_ok[OF prep(3) shape prep(5)]
  have "\<exists>st1. run_steps (apply_write s) st detached = Inr st1 \<and> tables_ok st1 \<and>
    st_documents st1 = st_documents st \<and> st_documentAddresses st1 = st_documentAddresses st \<and>
    st_documentIdsByScope st1 = st_documentIdsByScope st \<and> st_nextSeq st1 = st_nextSeq st \<and>
    st_closed st1 = st_closed st \<and>
    (\<forall>j t. st_recordTypes st1 j = Some t \<longrightarrow>
       st_recordTypes st j = Some t \<or> ids_after Map.empty detached j = Some t \<and> t \<noteq> TDocument)"
    using ok prep(3) by (intro apply_writes_ok resolved_no_copies[OF prep(2)])
      (auto simp: storage_ok_def checkGlobalIds_def)
  then obtain st1 where st1: "run_steps (apply_write s) st detached = Inr st1" "tables_ok st1"
    "st_documents st1 = st_documents st" "st_documentAddresses st1 = st_documentAddresses st"
    "st_documentIdsByScope st1 = st_documentIdsByScope st" "st_closed st1 = st_closed st"
    and types: "\<And>j t. st_recordTypes st1 j = Some t \<Longrightarrow>
       st_recordTypes st j = Some t \<or> ids_after Map.empty detached j = Some t \<and> t \<noteq> TDocument"
    by blast
  note same = document_fields_only[OF st1(3,4)]
  have new: "st_recordTypes st1 i = None" if ia: "(i, a) \<in> set acts" and c: "act_create a \<noteq> None" for i a
  proof -
    obtain c where c: "act_create a = Some c" using c by auto
    then obtain v b where d: "WDocCreate c v b \<in> set detached" "doc_id c = i"
      using actions_shapeD[OF shape ia] by blast
    have "st_recordTypes st i = None \<and> ids_after Map.empty detached i = Some TDocument"
      using document_claimed[OF prep(3)[unfolded checkGlobalIds_def] d(1), of i] d(2) by simp
    then show ?thesis using types[of i] by (cases "st_recordTypes st1 i") auto
  qed
  have acts1: "actions_ok st1 acts"
    using acts(1) new unfolding actions_ok_def st1(3) by (auto split: prod.splits)
  have pointers: "pointers_ok st1" and inv: "incarnations_ok (st_nextSeq st) st1"
    using ok unfolding storage_ok_def incarnations_ok_def same st1(3,5) by auto
  have count: "(if current_at st1 k = None then 0 else 1) + int (length (fresh_at st1 k acts))
        - int (length (gone_at st1 k acts)) \<le> 1" for k
    using acts(2)[of k] by (simp add: same(1) same(3)[symmetric] live_changes_def)
  let ?st2 = "applyDocumentActions s acts st1"
  let ?st' = "?st2\<lparr>st_nextSeq := s + 1\<rparr>"
  have t: "tables_ok ?st2" by (rule applied_tables[OF acts1 st1(2)])
  have "held ?st' u = held ?st2 u" for u by (cases u) simp_all
  then have "types_ok ?st'" using t by (simp add: tables_ok_def types_ok_def)
  then have "tables_ok ?st'" using t by (simp add: tables_ok_def conversations_ok_def entries_ok_def tasks_ok_def
        submissions_ok_def requests_ok_def)
  moreover have "incarnations_ok (s + 1) ?st'"
    using applied_incarnations[OF acts1 inv prep(1)] document_fields_only(4)[of ?st' ?st2]
    by (simp add: incarnations_ok_def)
  moreover have "pointers_ok ?st'"
    using pointers_kept[OF acts1 pointers count, of s] by (simp add: pointers_ok_def current_at_def live_at_def)
  moreover have "0 \<le> s" using ok prep(1) by (simp add: storage_ok_def)
  moreover have "documents_follow s acts st ?st'"
    using applied_documents[OF acts1, of s] acts(1) st1(3)
    by (auto simp: documents_follow_def actions_ok_def split: option.split dest: map_of_SomeD)
  ultimately show ?thesis
    using st1(1,6) p' by (auto simp: applyPreparedCommit_def storage_ok_def applied_seq)
qed


lemma commit_loop_steps:
  "storage_ok st \<Longrightarrow> \<not> st_closed st \<Longrightarrow> n = st_nextSeq st - int (length receipts) \<Longrightarrow>
   receipts = map (\<lambda>k. n + int k) [0..<length receipts] \<Longrightarrow>
   out = commit_loop st receipts batches \<Longrightarrow>
   storage_ok (out_state out) \<and> \<not> st_closed (out_state out) \<and> out_thrown out = None \<and>
   out_receipts out = map (\<lambda>k. n + int k) [0..<length (out_receipts out)] \<and>
   st_nextSeq (out_state out) = n + int (length (out_receipts out))"
proof (induction batches arbitrary: st receipts)
  case (Cons ws batches)
  show ?case
  proof (cases "prepareCommit st ws (st_nextSeq st)")
    case (Inl e)
    then show ?thesis using Cons.prems by simp
  next
    case (Inr p)
    obtain st1 where st1: "applyPreparedCommit st p = Inr st1" "storage_ok st1"
      "st_nextSeq st1 = st_nextSeq st + 1" "st_closed st1 = st_closed st" "prep_seq p = st_nextSeq st"
      using prepared_applies[OF Cons.prems(1) Inr] by blast
    have r: "receipts @ [st_nextSeq st] = map (\<lambda>k. n + int k) [0..<length (receipts @ [st_nextSeq st])]"
      using Cons.prems(3,4) by simp
    show ?thesis
      using Cons.IH[OF st1(2), of "receipts @ [st_nextSeq st]"] Cons.prems r st1 Inr by simp
  qed
qed simp

lemma commit_loop_ok:
  assumes "storage_ok st" and "\<not> st_closed st"
  shows "storage_ok (out_state (commit_loop st [] batches))" "\<not> st_closed (out_state (commit_loop st [] batches))"
    "out_thrown (commit_loop st [] batches) = None"
  using commit_loop_steps[OF assms, of "st_nextSeq st" "[]" "commit_loop st [] batches" batches] by simp_all

lemma new_storage_open: "\<not> st_closed new_storage"
  by (simp add: new_storage_def)

text \<open>
  C2. A commit keeps the invariant of the storage (records under their own IDs, indexes that list
  exactly the records they are about, one live incarnation per address, revision chains that start
  with a base), whatever the batches are, and the application of a batch that passed its checks
  never throws.
\<close>

theorem commit_keeps_invariant:
  assumes "storage_ok st" and "commit st batches = Inr out"
  shows "storage_ok (out_state out) \<and> out_thrown out = None"
proof -
  have c: "\<not> st_closed st" "out = commit_loop st [] batches"
    using assms(2) by (auto simp: commit_def andThen_eq_Inr ensure_eq_Inr)
  then show ?thesis using commit_loop_steps[OF assms(1) c(1), of "st_nextSeq st" "[]" out batches] by simp
qed

definition sample_create :: document_create where
  "sample_create = \<lparr>doc_id = 2, doc_kind = ''k'', doc_key = None, doc_scope = SessionScope,
     doc_history = None, doc_fork = None\<rparr>"

definition sample_batches :: "storage_write list list" where
  "sample_batches = [[WDocCreate sample_create 1 (JNum 7)],
     [WDocRetire 2, WDocCreate (sample_create\<lparr>doc_id := 3\<rparr>) 1 (JNum 8)],
     [WDocCreate (sample_create\<lparr>doc_id := 4\<rparr>) 1 (JNum 9)]]"

lemma sample_commit: "commit new_storage sample_batches = Inr (commit_loop new_storage [] sample_batches)"
  by (simp add: commit_def new_storage_def)

theorem commit_keeps_invariant_witness:
  "storage_ok (out_state (commit_loop new_storage [] sample_batches)) \<and>
   out_thrown (commit_loop new_storage [] sample_batches) = None"
  by (rule commit_keeps_invariant[OF storage_ok_new sample_commit])

lemma commit_loop_prefix:
  "storage_ok st \<Longrightarrow> out = commit_loop st receipts batches \<Longrightarrow>
   \<exists>k \<le> length batches. out_receipts out = receipts @ drop (length receipts) (out_receipts out) \<and>
     length (out_receipts out) = length receipts + k \<and>
     commit_loop st receipts (take k batches) =
       \<lparr>out_state = out_state out, out_receipts = out_receipts out, out_refused = None, out_thrown = None\<rparr> \<and>
     (case out_refused out of
        None \<Rightarrow> k = length batches
      | Some e \<Rightarrow> k < length batches \<and>
          prepareCommit (out_state out) (batches ! k) (st_nextSeq (out_state out)) = Inl e)"
proof (induction batches arbitrary: st receipts)
  case (Cons ws batches)
  show ?case
  proof (cases "prepareCommit st ws (st_nextSeq st)")
    case (Inl e)
    then show ?thesis using Cons.prems by (intro exI[of _ 0]) simp
  next
    case (Inr p)
    obtain st1 where st1: "applyPreparedCommit st p = Inr st1" "storage_ok st1"
      using prepared_applies[OF Cons.prems(1) Inr] by blast
    have step: "commit_loop st receipts (ws # bs) = commit_loop st1 (receipts @ [prep_seq p]) bs" for bs
      using Inr st1 by simp
    obtain k where k: "k \<le> length batches"
      "out_receipts out = (receipts @ [prep_seq p]) @ drop (length (receipts @ [prep_seq p])) (out_receipts out)"
      "length (out_receipts out) = length (receipts @ [prep_seq p]) + k"
      "commit_loop st1 (receipts @ [prep_seq p]) (take k batches) =
         \<lparr>out_state = out_state out, out_receipts = out_receipts out, out_refused = None, out_thrown = None\<rparr>"
      "case out_refused out of None \<Rightarrow> k = length batches | Some e \<Rightarrow> k < length batches \<and>
         prepareCommit (out_state out) (batches ! k) (st_nextSeq (out_state out)) = Inl e"
      using Cons.IH[OF st1(2), of "receipts @ [prep_seq p]"] Cons.prems(2) step by auto
    have "take (length receipts) (out_receipts out) = receipts"
      by (subst k(2)) simp
    then have "out_receipts out = receipts @ drop (length receipts) (out_receipts out)"
      by (metis append_take_drop_id)
    then show ?thesis using k(1,3-5) step[of "take k batches"]
      by (intro exI[of _ "Suc k"]) (auto split: option.splits)
  qed
qed simp

text \<open>
  C3. A commit applies the batches one by one: the receipts are the consecutive sequences from
  the next one on, the state is the one that committing exactly the accepted batches gives, and
  the first refused batch, if any, leaves no trace and stops the commit.
\<close>

theorem commit_atomic:
  assumes "storage_ok st" and "commit st batches = Inr out"
  shows "out_receipts out = map (\<lambda>k. st_nextSeq st + int k) [0..<length (out_receipts out)] \<and>
    commit st (take (length (out_receipts out)) batches) =
      Inr \<lparr>out_state = out_state out, out_receipts = out_receipts out, out_refused = None, out_thrown = None\<rparr> \<and>
    (case out_refused out of
       None \<Rightarrow> length (out_receipts out) = length batches
     | Some e \<Rightarrow> length (out_receipts out) < length batches \<and>
         prepareCommit (out_state out) (batches ! length (out_receipts out)) (st_nextSeq (out_state out)) = Inl e)"
proof -
  have c: "\<not> st_closed st" "out = commit_loop st [] batches"
    using assms(2) by (auto simp: commit_def andThen_eq_Inr ensure_eq_Inr)
  have "out_receipts out = map (\<lambda>k. st_nextSeq st + int k) [0..<length (out_receipts out)]"
    using commit_loop_steps[OF assms(1) c(1), of "st_nextSeq st" "[]" out batches] c(2) by simp
  then show ?thesis
    using commit_loop_prefix[OF assms(1) c(2)] c(1) by (auto simp: commit_def)
qed


theorem commit_atomic_witness:
  "let out = commit_loop new_storage [] sample_batches in
   out_receipts out = map (\<lambda>k. st_nextSeq new_storage + int k) [0..<length (out_receipts out)] \<and>
   commit new_storage (take (length (out_receipts out)) sample_batches) =
     Inr \<lparr>out_state = out_state out, out_receipts = out_receipts out, out_refused = None, out_thrown = None\<rparr>"
  unfolding Let_def using commit_atomic[OF storage_ok_new sample_commit] by blast

end
