(* ===== verification/Storage_Reads.thy ===== *)
theory Storage_Reads
  imports Storage_Commit
begin

text \<open>
  The reads of \<open>MemoryStorage\<close>: records by ID, scans by page, the entries a conversation sees
  through its fork chain, and documents at a point. A \<open>!\<close> of the code asserts that an index names
  an existing record; the invariant of the storage guarantees it.
\<close>

definition open_read :: "storage \<Rightarrow> (storage_error, 'a) result \<Rightarrow> (storage_error, 'a) result" where
  "open_read st r = andThen (ensure (\<not> st_closed st) ClosedError) (\<lambda>_. r)"

subsection \<open>Records\<close>

definition read_conversation :: "storage \<Rightarrow> id \<Rightarrow> (storage_error, conversation option) result" where
  "read_conversation st i = open_read st (Inr (st_conversations st i))"

definition read_task :: "storage \<Rightarrow> id \<Rightarrow> (storage_error, task option) result" where
  "read_task st i = open_read st (Inr (st_tasks st i))"

definition read_submission :: "storage \<Rightarrow> id \<Rightarrow> (storage_error, submission option) result" where
  "read_submission st i = open_read st (Inr (st_submissions st i))"

definition submissionByRequest :: "storage \<Rightarrow> id \<Rightarrow> string \<Rightarrow> (storage_error, submission option) result" where
  "submissionByRequest st c q =
     open_read st (case st_submissionIdsByRequest st c of
       None \<Rightarrow> Inr None
     | Some requests \<Rightarrow> (case map_of requests q of None \<Rightarrow> Inr None | Some i \<Rightarrow> Inr (st_submissions st i)))"

definition conversation_filter :: "conversation_query \<Rightarrow> conversation \<Rightarrow> bool" where
  "conversation_filter q r =
     (case cq_ownerConversation q of
        None \<Rightarrow> True
      | Some c \<Rightarrow> map_option owner_conversation (conv_owner r) = Some c)"

definition pick_record :: "(id \<rightharpoonup> 'r) \<Rightarrow> ('r \<Rightarrow> bool) \<Rightarrow> id \<Rightarrow> 'r option" where
  "pick_record table P i = (case table i of Some r \<Rightarrow> if P r then Some r else None | None \<Rightarrow> None)"

definition conversation_candidates :: "storage \<Rightarrow> conversation_query \<Rightarrow> id list" where
  "conversation_candidates st q =
     (case cq_ownerTask q of
        Some t \<Rightarrow> bucket (st_convByOwnerTask st) t
      | None \<Rightarrow>
          (case cq_ownerConversation q of
             Some c \<Rightarrow> bucket (st_convByOwnerConversation st) c
           | None \<Rightarrow> st_conversationIds st))"

definition scanConversations ::
  "storage \<Rightarrow> conversation_query \<Rightarrow> nat \<Rightarrow> cursor option \<Rightarrow> (storage_error, conversation page) result" where
  "scanConversations st q limit cursor =
     open_read st (scan_ids conv_id (pick_record (st_conversations st) (conversation_filter q))
       (conversation_candidates st q) (cq_order q) Ascending limit cursor)"

definition task_filter :: "task_query \<Rightarrow> task \<Rightarrow> bool" where
  "task_filter q r =
     ((case tq_conversation q of None \<Rightarrow> True | Some c \<Rightarrow> task_conversation r = c) \<and>
      (case tq_kind q of None \<Rightarrow> True | Some k \<Rightarrow> task_kind r = k) \<and>
      (case tq_abortRequested q of None \<Rightarrow> True | Some b \<Rightarrow> task_abortRequested r = b) \<and>
      (case tq_background q of None \<Rightarrow> True | Some b \<Rightarrow> task_background r = b))"

definition scanTasks :: "storage \<Rightarrow> task_query \<Rightarrow> nat \<Rightarrow> cursor option \<Rightarrow> (storage_error, task page) result" where
  "scanTasks st q limit cursor =
     open_read st (scan_ids task_id (pick_record (st_tasks st) (task_filter q))
       (case tq_status q of None \<Rightarrow> st_taskIds st | Some s \<Rightarrow> st_taskIdsByStatus st s)
       (tq_order q) Ascending limit cursor)"

definition submission_filter :: "submission_query \<Rightarrow> submission \<Rightarrow> bool" where
  "submission_filter q r = (case sq_conversation q of None \<Rightarrow> True | Some c \<Rightarrow> sub_conversation r = c)"

definition scanSubmissions ::
  "storage \<Rightarrow> submission_query \<Rightarrow> nat \<Rightarrow> cursor option \<Rightarrow> (storage_error, submission page) result" where
  "scanSubmissions st q limit cursor =
     open_read st (scan_ids sub_id (pick_record (st_submissions st) (submission_filter q))
       (case sq_status q of None \<Rightarrow> st_submissionIds st | Some s \<Rightarrow> st_submissionIdsByStatus st s)
       (sq_order q) Ascending limit cursor)"

subsection \<open>Documents\<close>

definition first_alive :: "storage \<Rightarrow> doc_point \<Rightarrow> id list \<Rightarrow> document option" where
  "first_alive st at ids =
     (case List.map_filter (\<lambda>i. case st_documents st i of
         None \<Rightarrow> None | Some d \<Rightarrow> if isAliveAt (sd_record d) at then Some (sd_record d) else None) ids of
        [] \<Rightarrow> None
      | r # _ \<Rightarrow> Some r)"

definition findDocument :: "storage \<Rightarrow> doc_address \<Rightarrow> doc_point \<Rightarrow> (storage_error, document option) result" where
  "findDocument st a at =
     open_read st (case at of
       AtCurrent \<Rightarrow> (case current_at st a of
           None \<Rightarrow> Inr None
         | Some i \<Rightarrow> Inr (map_option sd_record (st_documents st i)))
     | AtSeq s \<Rightarrow> (case st_documentAddresses st a of
           None \<Rightarrow> Inr None
         | Some ax \<Rightarrow> Inr (first_alive st at (ax_ids ax))))"

definition read_document :: "storage \<Rightarrow> id \<Rightarrow> doc_point \<Rightarrow> (storage_error, stored_document option) result" where
  "read_document st i at = open_read st (materializeDocument st i at)"

definition document_filter :: "document_query \<Rightarrow> document \<Rightarrow> bool" where
  "document_filter q r = ((case dq_kind q of None \<Rightarrow> True | Some k \<Rightarrow> doc_kind r = k) \<and> isAliveAt r (dq_at q))"

definition scanDocuments ::
  "storage \<Rightarrow> document_query \<Rightarrow> nat \<Rightarrow> cursor option \<Rightarrow> (storage_error, document page) result" where
  "scanDocuments st q limit cursor =
     open_read st (andThen (cursorId cursor) (\<lambda>aft.
       let ids = bucket (st_documentIdsByScope st) (dq_scope q);
           start = (case aft of None \<Rightarrow> 0 | Some a \<Rightarrow> upperBound_ids ids a) in
       page_of doc_id (collect limit (\<lambda>index. pick_record (map_option sd_record \<circ> st_documents st)
         (document_filter q) (ids ! index)) [start..<length ids] []) limit Ascending))"

subsection \<open>Visible entries\<close>

text \<open>
  Bounds are \<open>None\<close> where the code has an infinity. A generator is the list of what it yields,
  with the error that ends it, if any. The walk up the fork chain has no bound in the code: it is
  given fuel, and running out of it is the error \<open>Diverges\<close>.
\<close>

fun at_most :: "int \<Rightarrow> int option \<Rightarrow> bool" where
  "at_most i None = True"
| "at_most i (Some u) = (i \<le> u)"

fun at_least :: "int \<Rightarrow> int option \<Rightarrow> bool" where
  "at_least i None = True"
| "at_least i (Some m) = (m \<le> i)"

fun narrow :: "int option \<Rightarrow> int \<Rightarrow> int" where
  "narrow None t = t"
| "narrow (Some u) t = min u t"

definition upper_index :: "int list \<Rightarrow> int option \<Rightarrow> nat" where
  "upper_index ids upper = bisect (\<lambda>middle. at_most (ids ! middle) upper) 0 (length ids)"

definition lower_index :: "int list \<Rightarrow> int option \<Rightarrow> nat" where
  "lower_index ids least = bisect (\<lambda>middle. \<not> at_least (ids ! middle) least) 0 (length ids)"

definition unknown_conversation :: storage_error where
  "unknown_conversation = RequestError ''Unknown conversation''"

fun visible_from ::
  "nat \<Rightarrow> storage \<Rightarrow> int option \<Rightarrow> id \<Rightarrow> int option \<Rightarrow> entry list \<times> storage_error option" where
  "visible_from 0 st least c upper = ([], Some Diverges)"
| "visible_from (Suc fuel) st least c upper =
     (let ids = bucket (st_entryIds st) c;
          own = List.map_filter (st_entries st)
            (takeWhile (\<lambda>i. at_least i least) (rev (take (upper_index ids upper) ids))) in
      (case st_conversations st c of
         None \<Rightarrow> (own, Some (RuntimeError ''conversation is undefined''))
       | Some conv \<Rightarrow>
           (case conv_parent conv of
              None \<Rightarrow> (own, None)
            | Some p \<Rightarrow>
                let upper1 = narrow upper (parent_at p) in
                if \<not> at_least upper1 least then (own, None)
                else (let rest = visible_from fuel st least (parent_conversation p) (Some upper1) in
                  (own @ fst rest, snd rest)))))"

definition visibleEntries ::
  "nat \<Rightarrow> storage \<Rightarrow> id \<Rightarrow> int option \<Rightarrow> int option \<Rightarrow> entry list \<times> storage_error option" where
  "visibleEntries fuel st c least upper =
     (if st_conversations st c = None then ([], Some unknown_conversation)
      else visible_from fuel st least c upper)"

fun fork_segments ::
  "nat \<Rightarrow> storage \<Rightarrow> int option \<Rightarrow> id \<Rightarrow> int option \<Rightarrow> (storage_error, (id \<times> int option) list) result" where
  "fork_segments 0 st least c upper = Inl Diverges"
| "fork_segments (Suc fuel) st least c upper =
     (case st_conversations st c of
        None \<Rightarrow> Inl (RuntimeError ''conversation is undefined'')
      | Some conv \<Rightarrow>
          (case conv_parent conv of
             None \<Rightarrow> Inr [(c, upper)]
           | Some p \<Rightarrow>
               let upper1 = narrow upper (parent_at p) in
               if \<not> at_least upper1 least then Inr [(c, upper)]
               else andThen (fork_segments fuel st least (parent_conversation p) (Some upper1))
                 (\<lambda>rest. Inr ((c, upper) # rest))))"

definition segment_entries :: "storage \<Rightarrow> int option \<Rightarrow> id \<times> int option \<Rightarrow> entry list" where
  "segment_entries st least seg =
     (let ids = bucket (st_entryIds st) (fst seg) in
      List.map_filter (st_entries st) (takeWhile (\<lambda>i. at_most i (snd seg)) (drop (lower_index ids least) ids)))"

definition visibleEntriesAscending ::
  "nat \<Rightarrow> storage \<Rightarrow> id \<Rightarrow> int option \<Rightarrow> int option \<Rightarrow> entry list \<times> storage_error option" where
  "visibleEntriesAscending fuel st c least upper =
     (if st_conversations st c = None then ([], Some unknown_conversation)
      else (case fork_segments fuel st least c upper of
          Inl e \<Rightarrow> ([], Some e)
        | Inr segments \<Rightarrow> (concat (map (segment_entries st least) (rev segments)), None)))"

text \<open>A consumer that stops after it has more than \<open>limit\<close> values does not see a later error.\<close>

definition consume :: "nat \<Rightarrow> 'a list \<times> storage_error option \<Rightarrow> (storage_error, 'a list) result" where
  "consume limit gen =
     (if length (fst gen) > limit then Inr (take (limit + 1) (fst gen))
      else (case snd gen of None \<Rightarrow> Inr (fst gen) | Some e \<Rightarrow> Inl e))"

definition stored_entry :: "storage \<Rightarrow> entry \<Rightarrow> entry \<times> seq option" where
  "stored_entry st e = (e, st_entryCommitSeqs st (entry_id e))"

definition entry_anywhere :: "storage \<Rightarrow> id \<Rightarrow> (storage_error, (entry \<times> seq option) option) result" where
  "entry_anywhere st i = open_read st (Inr (map_option (stored_entry st) (st_entries st i)))"

definition entry_visible ::
  "nat \<Rightarrow> storage \<Rightarrow> id \<Rightarrow> id \<Rightarrow> (storage_error, (entry \<times> seq option) option) result" where
  "entry_visible fuel st c i =
     open_read st (andThen (consume 0 (visibleEntries fuel st c (Some i) (Some i))) (\<lambda>es.
       (case es of [] \<Rightarrow> Inr None | e # _ \<Rightarrow> Inr (Some (stored_entry st e)))))"

definition scanEntries ::
  "nat \<Rightarrow> storage \<Rightarrow> entry_query \<Rightarrow> nat \<Rightarrow> cursor option \<Rightarrow> (storage_error, entry page) result" where
  "scanEntries fuel st q limit cursor =
     open_read st (andThen (scanStart (eq_order q) cursor Descending) (\<lambda>start.
       let upper = (case (start_after start, start_order start) of
             (Some a, Descending) \<Rightarrow> Some (narrow (eq_maxEntry q) (a - 1))
           | _ \<Rightarrow> eq_maxEntry q);
           least = (case (start_after start, start_order start) of
             (Some a, Ascending) \<Rightarrow> Some (case eq_minEntry q of None \<Rightarrow> a + 1 | Some m \<Rightarrow> max m (a + 1))
           | _ \<Rightarrow> eq_minEntry q);
           gen = (case start_order start of
             Descending \<Rightarrow> visibleEntries fuel st (eq_conversation q) least upper
           | Ascending \<Rightarrow> visibleEntriesAscending fuel st (eq_conversation q) least upper) in
       andThen (consume limit gen) (\<lambda>es. page_of entry_id es limit (start_order start))))"

fun head_marker ::
  "nat \<Rightarrow> storage \<Rightarrow> id \<Rightarrow> int option \<Rightarrow> (storage_error, entry option) result" where
  "head_marker 0 st c upper = Inl Diverges"
| "head_marker (Suc fuel) st c upper =
     (let ids = bucket (st_headEntryIds st) c; index = upper_index ids upper in
      if 0 < index then Inr (st_entries st (ids ! (index - 1)))
      else (case st_conversations st c of
          None \<Rightarrow> Inl (RuntimeError ''conversation is undefined'')
        | Some conv \<Rightarrow>
            (case conv_parent conv of
               None \<Rightarrow> Inr None
             | Some p \<Rightarrow> head_marker fuel st (parent_conversation p) (Some (narrow upper (parent_at p))))))"

definition findLatestHeadMarker ::
  "nat \<Rightarrow> storage \<Rightarrow> id \<Rightarrow> int option \<Rightarrow> (storage_error, entry option) result" where
  "findLatestHeadMarker fuel st c upper =
     open_read st (if st_conversations st c = None then Inl unknown_conversation else head_marker fuel st c upper)"

end
