(* ===== verification/Storage_Visible.thy ===== *)
theory Storage_Visible
  imports Storage_Reads
begin

text \<open>
  What a conversation sees: its own entries and those of its ancestors up to the fork points. The
  generators of the storage compute exactly that, newest or oldest first, and return.
\<close>

subsection \<open>The specification\<close>

inductive sees :: "storage \<Rightarrow> id \<Rightarrow> int option \<Rightarrow> entry \<Rightarrow> bool" for st where
  own: "st_entries st i = Some e \<Longrightarrow> entry_conversation e = c \<Longrightarrow> at_most i upper \<Longrightarrow> sees st c upper e"
| inherited: "st_conversations st c = Some conv \<Longrightarrow> conv_parent conv = Some p \<Longrightarrow>
    sees st (parent_conversation p) (Some (narrow upper (parent_at p))) e \<Longrightarrow> sees st c upper e"

inductive_cases sees_cases: "sees st c upper e"

text \<open>
  Forks as sessions create them: a conversation is younger than its parent, which exists, and its
  own entries are younger than the point of the fork.
\<close>

definition forks_ok :: "storage \<Rightarrow> bool" where
  "forks_ok st \<longleftrightarrow> (\<forall>c conv p. st_conversations st c = Some conv \<longrightarrow> conv_parent conv = Some p \<longrightarrow>
     0 \<le> parent_conversation p \<and> parent_conversation p < c \<and> st_conversations st (parent_conversation p) \<noteq> None \<and>
     (\<forall>i e. st_entries st i = Some e \<longrightarrow> entry_conversation e = c \<longrightarrow> parent_at p < i))"

definition newer :: "entry \<Rightarrow> entry \<Rightarrow> bool" where
  "newer e f \<longleftrightarrow> entry_id f < entry_id e"

subsection \<open>Cutting sorted lists\<close>

lemma take_upper_index:
  assumes "sorted_wrt (<) ids"
  shows "take (upper_index ids upper) ids = filter (\<lambda>i. at_most i upper) ids"
proof -
  have cut: "at_most (ids ! i) upper \<longleftrightarrow> i < upper_index ids upper" if "i < length ids" for i
    unfolding upper_index_def using assms that by (intro bisect_cut) (cases upper; auto)+
  have "upper_index ids upper \<le> length ids"
    using bisect_bounds[of 0 "length ids"] by (simp add: upper_index_def)
  then show ?thesis using take_drop_filter[of "upper_index ids upper" ids "\<lambda>i. at_most i upper"] cut by blast
qed

lemma drop_lower_index:
  assumes "sorted_wrt (<) ids"
  shows "drop (lower_index ids least) ids = filter (\<lambda>i. at_least i least) ids"
proof -
  have cut: "\<not> at_least (ids ! i) least \<longleftrightarrow> i < lower_index ids least" if "i < length ids" for i
    unfolding lower_index_def using assms that by (intro bisect_cut) (cases least; auto)+
  have "lower_index ids least \<le> length ids"
    using bisect_bounds[of 0 "length ids"] by (simp add: lower_index_def)
  then show ?thesis
    using take_drop_filter[of "lower_index ids least" ids "\<lambda>i. \<not> at_least i least"] cut by simp
qed

lemma takeWhile_sorted:
  assumes "sorted_wrt R xs" and "\<And>x y. R x y \<Longrightarrow> P y \<Longrightarrow> P x"
  shows "takeWhile P xs = filter P xs"
  using assms(1)
proof (induction xs)
  case (Cons x xs)
  have "filter P xs = []" if "\<not> P x"
    using Cons.prems assms(2) that by (auto simp: filter_empty_conv)
  then show ?case using Cons by auto
qed simp

text \<open>The part of a conversation's own list between the bounds.\<close>

definition own_ids :: "storage \<Rightarrow> int option \<Rightarrow> id \<Rightarrow> int option \<Rightarrow> id list" where
  "own_ids st least c upper = filter (\<lambda>i. at_most i upper \<and> at_least i least) (bucket (st_entryIds st) c)"

lemma entry_index:
  assumes "entries_ok st"
  shows "sorted_wrt (<) (bucket (st_entryIds st) c)"
    and "i \<in> set (bucket (st_entryIds st) c) \<longleftrightarrow> (\<exists>e. st_entries st i = Some e \<and> entry_conversation e = c)"
  using sorted_index.groupsD[of "bucket (st_entryIds st)" "st_entries st" "\<lambda>r k. entry_conversation r = k" c] assms
  by (auto simp: entries_ok_def ordered_def)

lemma own_descending:
  assumes "entries_ok st"
  shows "takeWhile (\<lambda>i. at_least i least) (rev (take (upper_index (bucket (st_entryIds st) c) upper) (bucket (st_entryIds st) c)))
    = rev (own_ids st least c upper)"
proof -
  let ?ids = "filter (\<lambda>i. at_most i upper) (bucket (st_entryIds st) c)"
  have "sorted_wrt (<) ?ids" using entry_index(1)[OF assms] by (rule sorted_wrt_filter)
  then have "sorted_wrt (\<lambda>i j. j < i) (rev ?ids)" by (simp add: sorted_wrt_rev)
  then have "takeWhile (\<lambda>i. at_least i least) (rev ?ids) = filter (\<lambda>i. at_least i least) (rev ?ids)"
    by (rule takeWhile_sorted) (cases least; auto)
  then show ?thesis
    by (simp add: take_upper_index[OF entry_index(1)[OF assms]] own_ids_def conj_commute rev_filter[symmetric])
qed

lemma own_ascending:
  assumes "entries_ok st"
  shows "takeWhile (\<lambda>i. at_most i upper) (drop (lower_index (bucket (st_entryIds st) c) least) (bucket (st_entryIds st) c))
    = own_ids st least c upper"
proof -
  let ?ids = "filter (\<lambda>i. at_least i least) (bucket (st_entryIds st) c)"
  have "sorted_wrt (<) ?ids" using entry_index(1)[OF assms] by (rule sorted_wrt_filter)
  then have "takeWhile (\<lambda>i. at_most i upper) ?ids = filter (\<lambda>i. at_most i upper) ?ids"
    by (rule takeWhile_sorted) (cases upper; auto)
  then show ?thesis by (simp add: drop_lower_index[OF entry_index(1)[OF assms]] own_ids_def conj_commute)
qed

definition own_entries :: "storage \<Rightarrow> int option \<Rightarrow> id \<Rightarrow> int option \<Rightarrow> entry list" where
  "own_entries st least c upper = List.map_filter (st_entries st) (rev (own_ids st least c upper))"

lemma map_filter_rev: "List.map_filter f (rev xs) = rev (List.map_filter f xs)"
  by (simp add: List.map_filter_def rev_map rev_filter)

lemma own_entries_set:
  assumes "entries_ok st"
  shows "set (own_entries st least c upper) =
    {e. \<exists>i. st_entries st i = Some e \<and> entry_conversation e = c \<and> at_most i upper \<and> at_least i least}"
  using entry_index(2)[OF assms] by (force simp: own_entries_def own_ids_def List.map_filter_def)

lemma own_entries_newer:
  assumes "entries_ok st"
  shows "sorted_wrt newer (own_entries st least c upper)"
proof -
  have key: "entry_id e = i" if "st_entries st i = Some e" for i e using assms that by (auto simp: entries_ok_def)
  have "sorted_wrt (<) xs \<Longrightarrow> sorted_wrt (\<lambda>e f. entry_id e < entry_id f) (List.map_filter (st_entries st) xs)" for xs
  proof (induction xs)
    case (Cons i xs)
    then show ?case using key
      by (auto simp: List.map_filter_def split: option.splits)
  qed (simp add: List.map_filter_def)
  moreover have "sorted_wrt (<) (own_ids st least c upper)"
    unfolding own_ids_def using entry_index(1)[OF assms] by (rule sorted_wrt_filter)
  ultimately show ?thesis by (simp add: own_entries_def map_filter_rev sorted_wrt_rev newer_def)
qed

lemma visible_from_Suc:
  "entries_ok st \<Longrightarrow> visible_from (Suc fuel) st least c upper =
     (case st_conversations st c of
        None \<Rightarrow> (own_entries st least c upper, Some (RuntimeError ''conversation is undefined''))
      | Some conv \<Rightarrow>
          (case conv_parent conv of
             None \<Rightarrow> (own_entries st least c upper, None)
           | Some p \<Rightarrow>
               if \<not> at_least (narrow upper (parent_at p)) least then (own_entries st least c upper, None)
               else (let rest = visible_from fuel st least (parent_conversation p) (Some (narrow upper (parent_at p))) in
                 (own_entries st least c upper @ fst rest, snd rest))))"
  by (simp add: own_descending own_entries_def Let_def split: option.splits)

declare visible_from.simps(2) [simp del]

subsection \<open>Newest first\<close>

lemma narrow_le: "narrow upper t \<le> t" "at_most i (Some (narrow upper t)) \<Longrightarrow> at_most i upper"
  by (cases upper; simp)+

lemma sees_bound: "entries_ok st \<Longrightarrow> sees st c upper e \<Longrightarrow> at_most (entry_id e) upper"
proof (rotate_tac, induction rule: sees.induct)
  case (own i e c upper)
  then show ?case by (auto simp: entries_ok_def)
next
  case (inherited c conv p upper e)
  then show ?case using narrow_le(2) by blast
qed

lemma visible_from_sees:
  assumes ok: "entries_ok st" and forks: "forks_ok st"
  shows "nat c < fuel \<Longrightarrow> st_conversations st c \<noteq> None \<Longrightarrow> 0 \<le> c \<Longrightarrow>
    snd (visible_from fuel st least c upper) = None \<and>
    set (fst (visible_from fuel st least c upper)) = {e. sees st c upper e \<and> at_least (entry_id e) least} \<and>
    sorted_wrt newer (fst (visible_from fuel st least c upper))"
proof (induction fuel arbitrary: c upper)
  case (Suc fuel)
  have key: "entry_id e = i" if "st_entries st i = Some e" for i e using ok that by (auto simp: entries_ok_def)
  obtain conv where conv: "st_conversations st c = Some conv" using Suc.prems(2) by auto
  note eq = visible_from_Suc[OF ok, of fuel least c upper]
  have own: "set (own_entries st least c upper) = {e. st_entries st (entry_id e) = Some e \<and> entry_conversation e = c \<and>
      at_most (entry_id e) upper \<and> at_least (entry_id e) least}"
    using own_entries_set[OF ok] key by auto
  show ?case
  proof (cases "conv_parent conv")
    case None
    have "sees st c upper e \<longleftrightarrow> st_entries st (entry_id e) = Some e \<and> entry_conversation e = c \<and> at_most (entry_id e) upper" for e
      using conv None key by (auto elim: sees_cases intro: sees.own)
    then show ?thesis using eq conv None own own_entries_newer[OF ok] by auto
  next
    case (Some p)
    define u where "u = narrow upper (parent_at p)"
    have f: "0 \<le> parent_conversation p" "parent_conversation p < c" "st_conversations st (parent_conversation p) \<noteq> None"
      "\<And>i e. st_entries st i = Some e \<Longrightarrow> entry_conversation e = c \<Longrightarrow> parent_at p < i"
      using forks conv Some by (auto simp: forks_ok_def)
    have sees: "sees st c upper e \<longleftrightarrow> (st_entries st (entry_id e) = Some e \<and> entry_conversation e = c \<and> at_most (entry_id e) upper)
        \<or> sees st (parent_conversation p) (Some u) e" for e
      using conv Some key by (auto simp: u_def elim!: sees_cases[of st c] intro: sees.own sees.inherited)
    have below: "entry_id e \<le> u" if "sees st (parent_conversation p) (Some u) e" for e
      using sees_bound[OF ok that] by simp
    show ?thesis
    proof (cases "at_least u least")
      case False
      then have "\<not> at_least (entry_id e) least" if "sees st (parent_conversation p) (Some u) e" for e
        using below[OF that] by (cases least) auto
      then show ?thesis using eq conv Some False own own_entries_newer[OF ok] sees by (auto simp: u_def[symmetric])
    next
      case True
      have IH: "snd (visible_from fuel st least (parent_conversation p) (Some u)) = None"
        "set (fst (visible_from fuel st least (parent_conversation p) (Some u))) =
          {e. sees st (parent_conversation p) (Some u) e \<and> at_least (entry_id e) least}"
        "sorted_wrt newer (fst (visible_from fuel st least (parent_conversation p) (Some u)))"
        using Suc.IH[of "parent_conversation p" "Some u"] Suc.prems(1,3) f by auto
      have "newer e g" if "e \<in> set (own_entries st least c upper)" "sees st (parent_conversation p) (Some u) g" for e g
      proof -
        have "parent_at p < entry_id e" using that(1) f(4) unfolding own by auto
        then show ?thesis using below[OF that(2)] narrow_le(1)[of upper "parent_at p"] by (simp add: newer_def u_def)
      qed
      then show ?thesis
        using eq conv Some True own own_entries_newer[OF ok] sees IH
        by (auto simp: u_def[symmetric] Let_def sorted_wrt_append)
    qed
  qed
qed simp


subsection \<open>Oldest first\<close>

definition segments_of :: "nat \<Rightarrow> storage \<Rightarrow> int option \<Rightarrow> id \<Rightarrow> int option \<Rightarrow> (storage_error, entry list) result" where
  "segments_of fuel st least c upper =
     andThen (fork_segments fuel st least c upper) (\<lambda>segs. Inr (concat (map (segment_entries st least) (rev segs))))"

lemma segment_entries_eq:
  "entries_ok st \<Longrightarrow> segment_entries st least (c, upper) = rev (own_entries st least c upper)"
  by (simp add: segment_entries_def Let_def own_ascending own_entries_def map_filter_rev)

text \<open>The two walks agree whenever the fork chain is intact.\<close>

lemma ascending_is_reverse:
  assumes "entries_ok st"
  shows "snd (visible_from fuel st least c upper) = None \<Longrightarrow>
    segments_of fuel st least c upper = Inr (rev (fst (visible_from fuel st least c upper)))"
proof (induction fuel arbitrary: c upper)
  case (Suc fuel)
  obtain conv where conv: "st_conversations st c = Some conv"
    using Suc.prems by (auto simp: visible_from_Suc[OF assms] split: option.splits)
  show ?case
  proof (cases "conv_parent conv")
    case None
    then show ?thesis
      using conv by (simp add: visible_from_Suc[OF assms] segments_of_def segment_entries_eq[OF assms])
  next
    case (Some p)
    let ?u = "narrow upper (parent_at p)"
    show ?thesis
    proof (cases "at_least ?u least")
      case False
      then show ?thesis
        using conv Some by (simp add: visible_from_Suc[OF assms] segments_of_def segment_entries_eq[OF assms] Let_def)
    next
      case True
      then have "snd (visible_from fuel st least (parent_conversation p) (Some ?u)) = None"
        using Suc.prems conv Some by (simp add: visible_from_Suc[OF assms] Let_def)
      from Suc.IH[OF this] obtain segs where
        "fork_segments fuel st least (parent_conversation p) (Some ?u) = Inr segs"
        "concat (map (segment_entries st least) (rev segs)) =
           rev (fst (visible_from fuel st least (parent_conversation p) (Some ?u)))"
        by (auto simp: segments_of_def andThen_eq_Inr)
      then show ?thesis
        using conv Some True by (simp add: visible_from_Suc[OF assms] segments_of_def segment_entries_eq[OF assms] Let_def)
    qed
  qed
qed simp

lemma storage_entries_ok: "storage_ok st \<Longrightarrow> entries_ok st"
  by (simp add: storage_ok_def tables_ok_def)

text \<open>
  C5. Over well formed forks the entries a conversation sees are exactly its own and those of its
  ancestors up to each fork point, within the bounds asked for, newest first and without
  repetition. The walk up the fork chain ends: as much fuel as the ID of the conversation plus
  one is enough.
\<close>

theorem visibleEntries_correct:
  assumes "storage_ok st" and "forks_ok st" and "st_conversations st c \<noteq> None" and "0 \<le> c" and "nat c < fuel"
  shows "\<exists>es. visibleEntries fuel st c least upper = (es, None) \<and>
    set es = {e. sees st c upper e \<and> at_least (entry_id e) least} \<and> sorted_wrt newer es"
  using visible_from_sees[OF storage_entries_ok[OF assms(1)] assms(2,5,3,4), of least upper] assms(3)
  by (intro exI[of _ "fst (visible_from fuel st least c upper)"]) (simp add: visibleEntries_def prod_eq_iff)

text \<open>
  C29. The ascending generator yields the same entries as the descending one, in the reverse
  order, although it first collects the segments of the fork chain and then reads each of them
  forward.
\<close>

theorem visibleEntriesAscending_reverse:
  assumes "storage_ok st" and "snd (visibleEntries fuel st c least upper) = None"
  shows "visibleEntriesAscending fuel st c least upper = (rev (fst (visibleEntries fuel st c least upper)), None)"
proof -
  have c: "st_conversations st c \<noteq> None" using assms(2) by (auto simp: visibleEntries_def split: if_splits)
  then have "snd (visible_from fuel st least c upper) = None" using assms(2) by (simp add: visibleEntries_def del: not_None_eq)
  from ascending_is_reverse[OF storage_entries_ok[OF assms(1)] this]
  obtain segs where "fork_segments fuel st least c upper = Inr segs"
    "concat (map (segment_entries st least) (rev segs)) = rev (fst (visible_from fuel st least c upper))"
    by (auto simp: segments_of_def andThen_eq_Inr)
  then show ?thesis using c by (simp add: visibleEntriesAscending_def visibleEntries_def del: not_None_eq)
qed


subsection \<open>Heads\<close>

text \<open>The head index lists the entries of a conversation that mark a head.\<close>

definition marks :: "storage \<Rightarrow> id \<Rightarrow> bool" where
  "marks st i = (case st_entries st i of None \<Rightarrow> False | Some e \<Rightarrow> entry_head e \<noteq> None)"

lemma head_ids:
  assumes "entries_ok st"
  shows "bucket (st_headEntryIds st) c = filter (marks st) (bucket (st_entryIds st) c)"
proof (rule strict_sorted_equal)
  have h: "ordered (bucket (st_headEntryIds st) c) {i. \<exists>r. st_entries st i = Some r \<and> entry_conversation r = c \<and> entry_head r \<noteq> None}"
    using sorted_index.groupsD[of "bucket (st_headEntryIds st)" "st_entries st" _ c] assms by (fastforce simp: entries_ok_def)
  then show "sorted_wrt (<) (bucket (st_headEntryIds st) c)" by (simp add: ordered_def)
  show "sorted_wrt (<) (filter (marks st) (bucket (st_entryIds st) c))"
    using entry_index(1)[OF assms] by (rule sorted_wrt_filter)
  show "set (bucket (st_headEntryIds st) c) = set (filter (marks st) (bucket (st_entryIds st) c))"
    using h entry_index(2)[OF assms, of _ c] by (auto simp: ordered_def marks_def)
qed

lemma find_map_filter_rev:
  "find P (List.map_filter f (rev xs)) =
     (let ys = filter (\<lambda>i. case f i of None \<Rightarrow> False | Some e \<Rightarrow> P e) xs in if ys = [] then None else f (last ys))"
proof (induction xs rule: rev_induct)
  case (snoc x xs)
  then show ?case by (cases "f x") (auto simp: List.map_filter_simps Let_def)
qed (simp add: List.map_filter_simps)

lemma find_append: "find P (xs @ ys) = (case find P xs of None \<Rightarrow> find P ys | Some x \<Rightarrow> Some x)"
  by (induction xs) auto

lemma own_head:
  fixes c :: id
  assumes ok: "entries_ok st"
  defines "ids \<equiv> bucket (st_headEntryIds st) c"
  shows "find (\<lambda>e. entry_head e \<noteq> None) (own_entries st None c upper) =
    (if 0 < upper_index ids upper then st_entries st (ids ! (upper_index ids upper - 1)) else None)"
proof -
  have s: "sorted_wrt (<) ids" unfolding ids_def head_ids[OF ok] using entry_index(1)[OF ok] by (rule sorted_wrt_filter)
  have u: "upper_index ids upper \<le> length ids"
    using bisect_bounds[of 0 "length ids"] by (simp add: upper_index_def)
  have "filter (\<lambda>i. case st_entries st i of None \<Rightarrow> False | Some e \<Rightarrow> entry_head e \<noteq> None) (own_ids st None c upper)
      = filter (\<lambda>i. at_most i upper) ids"
    by (auto simp: own_ids_def ids_def head_ids[OF ok] marks_def[abs_def] intro: filter_cong)
  also have "\<dots> = take (upper_index ids upper) ids" using take_upper_index[OF s] by simp
  finally have "find (\<lambda>e. entry_head e \<noteq> None) (own_entries st None c upper) =
      (if take (upper_index ids upper) ids = [] then None else st_entries st (last (take (upper_index ids upper) ids)))"
    by (simp only: own_entries_def find_map_filter_rev Let_def)
  moreover have "take (upper_index ids upper) ids = [] \<longleftrightarrow> \<not> 0 < upper_index ids upper" using u by auto
  moreover have "0 < upper_index ids upper \<Longrightarrow> last (take (upper_index ids upper) ids) = ids ! (upper_index ids upper - 1)"
    using u by (subst last_conv_nth) auto
  ultimately show ?thesis by simp
qed

lemma head_marker_find:
  assumes ok: "entries_ok st"
  shows "snd (visible_from fuel st None c upper) = None \<Longrightarrow>
    head_marker fuel st c upper = Inr (find (\<lambda>e. entry_head e \<noteq> None) (fst (visible_from fuel st None c upper)))"
proof (induction fuel arbitrary: c upper)
  case (Suc fuel)
  let ?ids = "bucket (st_headEntryIds st) c" and ?P = "\<lambda>e. entry_head e \<noteq> None"
  obtain conv where conv: "st_conversations st c = Some conv"
    using Suc.prems by (auto simp: visible_from_Suc[OF ok] split: option.splits)
  have present: "st_entries st (?ids ! (upper_index ?ids upper - 1)) \<noteq> None" if "0 < upper_index ?ids upper"
  proof -
    have "upper_index ?ids upper \<le> length ?ids"
      using bisect_bounds[of 0 "length ?ids"] by (simp add: upper_index_def)
    then have "?ids ! (upper_index ?ids upper - 1) \<in> set ?ids" using that by (intro nth_mem) simp
    then show ?thesis unfolding head_ids[OF ok] by (auto simp: marks_def split: option.splits)
  qed
  show ?case
  proof (cases "conv_parent conv")
    case None
    then show ?thesis using conv own_head[OF ok, of c upper]
      by (simp add: visible_from_Suc[OF ok] Let_def)
  next
    case (Some p)
    let ?u = "narrow upper (parent_at p)"
    have "snd (visible_from fuel st None (parent_conversation p) (Some ?u)) = None"
      using Suc.prems conv Some by (simp add: visible_from_Suc[OF ok] Let_def)
    from Suc.IH[OF this] show ?thesis
      using conv Some own_head[OF ok, of c upper] present
      by (auto simp: visible_from_Suc[OF ok] Let_def find_append)
  qed
qed simp

text \<open>
  C30. The latest head marker, which the storage finds through a separate index of head entries
  with one binary search per conversation of the fork chain, is the newest head entry among the
  entries the conversation sees.
\<close>

theorem findLatestHeadMarker_correct:
  assumes "storage_ok st" and "\<not> st_closed st" and "snd (visibleEntries fuel st c None upper) = None"
  shows "findLatestHeadMarker fuel st c upper =
    Inr (find (\<lambda>e. entry_head e \<noteq> None) (fst (visibleEntries fuel st c None upper)))"
proof -
  have c: "st_conversations st c \<noteq> None" using assms(3) by (auto simp: visibleEntries_def split: if_splits)
  then have "visibleEntries fuel st c None upper = visible_from fuel st None c upper"
    by (simp add: visibleEntries_def del: not_None_eq)
  then show ?thesis
    using c assms head_marker_find[OF storage_entries_ok[OF assms(1)], of fuel c upper]
    by (simp add: findLatestHeadMarker_def open_read_def del: not_None_eq)
qed

subsection \<open>Isolation of forks\<close>

lemma filter_insertSorted:
  assumes "sorted_wrt (<) ids" and "\<not> Q i"
  shows "filter Q (insertSorted ids i) = filter Q ids"
proof -
  have "filter (\<lambda>j. j < i) ids @ filter (\<lambda>j. \<not> j < i) ids = ids"
    using below_lowerBound[OF assms(1), of i] append_take_drop_id[of "lowerBound_ids ids i" ids] by simp
  then have "filter Q ids = filter Q (filter (\<lambda>j. j < i) ids @ filter (\<lambda>j. \<not> j < i) ids)" by simp
  then show ?thesis unfolding insertSorted_eq[OF assms(1)] using assms(2) by simp
qed

lemma own_ids_other:
  assumes ok: "entries_ok st" and u: "c = entry_conversation r \<Longrightarrow> \<not> at_most (entry_id r) upper"
    and new: "st_entries st (entry_id r) = None"
  shows "own_entries (apply_entry s r st) least c upper = own_entries st least c upper"
proof -
  have "own_ids (apply_entry s r st) least c upper = own_ids st least c upper"
    using u filter_insertSorted[OF entry_index(1)[OF ok], of "\<lambda>i. at_most i upper \<and> at_least i least"]
    by (auto simp: own_ids_def apply_entry_fields)
  moreover have "entry_id r \<notin> set (own_ids st least c upper)"
    using entry_index(2)[OF ok, of "entry_id r" c] new by (auto simp: own_ids_def)
  ultimately show ?thesis
    unfolding own_entries_def List.map_filter_def apply_entry_fields
    by (auto intro!: map_cong filter_cong simp: fun_upd_apply)
qed

lemma visible_below:
  assumes ok: "entries_ok st" "entries_ok (apply_entry s r st)" and new: "st_entries st (entry_id r) = None"
  shows "u < entry_id r \<Longrightarrow>
    visible_from fuel (apply_entry s r st) least c (Some u) = visible_from fuel st least c (Some u)"
proof (induction fuel arbitrary: c u)
  case (Suc fuel)
  have "own_entries (apply_entry s r st) least c (Some u) = own_entries st least c (Some u)"
    using Suc.prems by (intro own_ids_other ok new) simp
  moreover have "visible_from fuel (apply_entry s r st) least d (Some (min u t)) = visible_from fuel st least d (Some (min u t))" for d t
    using Suc.prems by (intro Suc.IH) simp
  ultimately show ?case
    by (simp add: visible_from_Suc[OF ok(1)] visible_from_Suc[OF ok(2)] apply_entry_fields split: option.split)
qed simp

text \<open>
  C7. A fork is isolated from what happens after it: an entry committed to another conversation,
  its parent included, with an ID past the fork point changes nothing the fork sees, whatever the
  bounds and the fuel.
\<close>

theorem fork_isolated:
  assumes ok: "storage_ok st" and conv: "st_conversations st c = Some conv" "conv_parent conv = Some p"
    and new: "st_recordTypes st (entry_id r) = None"
    and other: "entry_conversation r \<noteq> c" and late: "parent_at p < entry_id r"
  shows "visibleEntries fuel (apply_entry s r st) c least upper = visibleEntries fuel st c least upper"
proof -
  have t: "tables_ok st" using ok by (simp add: storage_ok_def)
  then have ok1: "entries_ok st" "entries_ok (apply_entry s r st)"
    using entry_ok[OF t new, of s] by (simp_all add: tables_ok_def)
  have none: "st_entries st (entry_id r) = None" using table_none(2)[OF _ new] t by (simp add: tables_ok_def)
  have "own_entries (apply_entry s r st) least c upper = own_entries st least c upper"
    using other by (intro own_ids_other ok1 none) simp
  moreover have "narrow upper (parent_at p) < entry_id r" using narrow_le(1)[of upper "parent_at p"] late by linarith
  from visible_below[OF ok1 none this]
  have "visible_from n (apply_entry s r st) least d (Some (narrow upper (parent_at p))) =
      visible_from n st least d (Some (narrow upper (parent_at p)))" for n d .
  ultimately have "visible_from fuel (apply_entry s r st) least c upper = visible_from fuel st least c upper"
    using conv by (cases fuel) (simp_all add: visible_from_Suc[OF ok1(1)] visible_from_Suc[OF ok1(2)] apply_entry_fields)
  then show ?thesis by (simp add: visibleEntries_def apply_entry_fields)
qed

subsection \<open>A sample store with a fork\<close>

definition sample_entry :: "id \<Rightarrow> id \<Rightarrow> id option \<Rightarrow> entry" where
  "sample_entry i c head = \<lparr>entry_id = i, entry_conversation = c, entry_kind = ''k'', entry_model = None,
     entry_data = None, entry_head = head, entry_edits = None, entry_byTask = None\<rparr>"

definition sample_root :: conversation where
  "sample_root = \<lparr>conv_id = 2, conv_parent = None, conv_owner = None\<rparr>"

definition sample_child :: conversation where
  "sample_child = \<lparr>conv_id = 5, conv_parent = Some \<lparr>parent_conversation = 2, parent_at = 3\<rparr>, conv_owner = None\<rparr>"

definition sample_forks :: storage where
  "sample_forks = out_state (commit_loop new_storage []
     [[WConversation sample_root, WEntry (sample_entry 3 2 (Some 3)), WEntry (sample_entry 4 2 None)],
      [WConversation sample_child, WEntry (sample_entry 6 5 None)]])"

lemmas commit_evaluation = prepareCommit_def applyPreparedCommit_def resolveDocumentCopies_def
  checkGlobalIds_def check_claim_def rewritable_def prepareDocumentActions_def prepare_action_def
  checkDocumentActions_def apply_write_def applyDocumentActions_def isSafeInteger_def new_storage_def

lemma sample_forks_ok: "storage_ok sample_forks"
  unfolding sample_forks_def
  by (rule commit_loop_ok(1)[OF storage_ok_new new_storage_open])

lemma sample_forks_fields:
  "st_conversations sample_forks = [2 \<mapsto> sample_root, 5 \<mapsto> sample_child]"
  "st_entries sample_forks = [3 \<mapsto> sample_entry 3 2 (Some 3), 4 \<mapsto> sample_entry 4 2 None, 6 \<mapsto> sample_entry 6 5 None]"
  "st_closed sample_forks = False"
  by (simp_all add: sample_forks_def commit_evaluation apply_conversation_fields apply_entry_fields
      sample_root_def sample_child_def sample_entry_def)

lemma sample_forks_wf: "forks_ok sample_forks"
  unfolding forks_ok_def sample_forks_fields
  by (auto simp: sample_root_def sample_child_def sample_entry_def split: if_splits)


lemma sample_forks_visible: "snd (visibleEntries 9 sample_forks 5 None None) = None"
proof -
  have "nat 5 < (9::nat)" by simp
  from visible_from_sees[OF storage_entries_ok[OF sample_forks_ok] sample_forks_wf this, of None None]
  show ?thesis by (simp add: visibleEntries_def sample_forks_fields)
qed

theorem visibleEntries_correct_witness:
  "\<exists>es. visibleEntries 9 sample_forks 5 None None = (es, None) \<and>
    set es = {e. sees sample_forks 5 None e \<and> at_least (entry_id e) None} \<and> sorted_wrt newer es"
  by (rule visibleEntries_correct[OF sample_forks_ok sample_forks_wf]) (simp_all add: sample_forks_fields)

theorem visibleEntriesAscending_reverse_witness:
  "visibleEntriesAscending 9 sample_forks 5 None None = (rev (fst (visibleEntries 9 sample_forks 5 None None)), None)"
  by (rule visibleEntriesAscending_reverse[OF sample_forks_ok sample_forks_visible])

theorem findLatestHeadMarker_correct_witness:
  "findLatestHeadMarker 9 sample_forks 5 None =
    Inr (find (\<lambda>e. entry_head e \<noteq> None) (fst (visibleEntries 9 sample_forks 5 None None)))"
  by (rule findLatestHeadMarker_correct[OF sample_forks_ok _ sample_forks_visible]) (simp add: sample_forks_fields)

lemma sample_forks_types: "st_recordTypes sample_forks 9 = None"
  by (simp add: sample_forks_def commit_evaluation apply_conversation_fields apply_entry_fields
      sample_root_def sample_child_def sample_entry_def)

theorem fork_isolated_witness:
  "visibleEntries 9 (apply_entry 3 (sample_entry 9 2 None) sample_forks) 5 None None
     = visibleEntries 9 sample_forks 5 None None"
  by (rule fork_isolated[OF sample_forks_ok, of 5 sample_child "\<lparr>parent_conversation = 2, parent_at = 3\<rparr>"])
    (simp_all add: sample_forks_fields sample_child_def sample_entry_def sample_forks_types)

end
