(* ===== verification/Storage_Paging.thy ===== *)
theory Storage_Paging
  imports Storage_Visible
begin

text \<open>
  What a client gets that follows the cursors of a scan over a storage that does not change: every
  record that matches, once, in the order of the scan.
\<close>

subsection \<open>Tables\<close>

definition safe_ids :: "storage \<Rightarrow> bool" where
  "safe_ids st \<longleftrightarrow> (\<forall>i. st_recordTypes st i \<noteq> None \<longrightarrow> isSafeInteger i)"

text \<open>The records of a list of IDs that pass a filter, in the order of a scan.\<close>

definition in_order :: "scan_order \<Rightarrow> 'a list \<Rightarrow> 'a list" where
  "in_order order xs = (case order of Ascending \<Rightarrow> xs | Descending \<Rightarrow> rev xs)"

definition lists_records :: "('r \<Rightarrow> id) \<Rightarrow> (id \<rightharpoonup> 'r) \<Rightarrow> ('r \<Rightarrow> bool) \<Rightarrow> 'r list \<Rightarrow> bool" where
  "lists_records get_id table P rs \<longleftrightarrow>
     set rs = {r. table (get_id r) = Some r \<and> P r} \<and> sorted_wrt (\<lambda>a b. get_id a < get_id b) rs"

lemma follow_table:
  assumes ids: "ordered ids {i. \<exists>r. table i = Some r \<and> Q r}" and key: "\<And>i r. table i = Some r \<Longrightarrow> get_id r = i"
    and safe: "\<And>i. table i \<noteq> None \<Longrightarrow> isSafeInteger i" and l: "0 < limit"
    and req: "requested = Some (order_name order) \<or> requested = None \<and> fallback = order"
    and fuel: "length ids < fuel"
  shows "\<exists>rs. follow fuel (scan_ids get_id (pick_record table P) ids requested fallback limit) None = Inr (in_order order rs) \<and>
    lists_records get_id table (\<lambda>r. Q r \<and> P r) rs"
proof -
  define rs where "rs = List.map_filter (pick_record table P) ids"
  have s: "sorted_wrt (<) ids" and S: "set ids = {i. \<exists>r. table i = Some r \<and> Q r}"
    using ids by (auto simp: ordered_def)
  have pick: "pick_record table P i = Some r \<longleftrightarrow> table i = Some r \<and> P r" for i r
    by (auto simp: pick_record_def split: option.splits if_splits)
  have sub: "sorted_wrt (<) xs \<Longrightarrow> sorted_wrt (\<lambda>a b. get_id a < get_id b) (List.map_filter (pick_record table P) xs)" for xs
  proof (induction xs)
    case (Cons x xs)
    have "get_id r = i" if "pick_record table P i = Some r" for i r using that pick key by blast
    moreover have "\<exists>j\<in>set xs. pick_record table P j = Some r" if "r \<in> set (List.map_filter (pick_record table P) xs)" for r
      using that by (auto simp: List.map_filter_def simp del: not_None_eq)
    ultimately show ?case using Cons
      by (cases "pick_record table P x") (fastforce simp: List.map_filter_simps)+
  qed (simp add: List.map_filter_def)
  have set: "set (List.map_filter f xs) = {r. \<exists>i\<in>set xs. f i = Some r}" for f :: "id \<Rightarrow> 'a option" and xs
    by (force simp: List.map_filter_def)
  have "lists_records get_id table (\<lambda>r. Q r \<and> P r) rs"
    unfolding lists_records_def rs_def set S pick using sub[OF s] key by auto
  moreover have "\<forall>i\<in>set ids. isSafeInteger i" using safe S by auto
  then have "follow fuel (scan_ids get_id (pick_record table P) ids requested fallback limit) None
      = Inr (List.map_filter (pick_record table P) (visited ids order None))"
    using key by (intro follow_complete s l req fuel) (auto simp: pick)
  then have "follow fuel (scan_ids get_id (pick_record table P) ids requested fallback limit) None = Inr (in_order order rs)"
    by (cases order) (simp_all add: in_order_def rs_def map_filter_rev)
  ultimately show ?thesis by blast
qed

lemma ordered_length: "ordered ids A \<Longrightarrow> ordered jds B \<Longrightarrow> A \<subseteq> B \<Longrightarrow> length ids \<le> length jds"
proof -
  assume a: "ordered ids A" "ordered jds B" "A \<subseteq> B"
  then have "card (set ids) \<le> card (set jds)" by (intro card_mono) (auto simp: ordered_def)
  then show ?thesis using a distinct_card[of ids] distinct_card[of jds] by (simp add: ordered_def strict_sorted_iff)
qed

lemma open_read_eq: "\<not> st_closed st \<Longrightarrow> open_read st r = r"
  by (simp add: open_read_def)

lemma table_safe:
  assumes "storage_ok st" and "safe_ids st"
  shows "st_tasks st i \<noteq> None \<Longrightarrow> isSafeInteger i" "st_submissions st i \<noteq> None \<Longrightarrow> isSafeInteger i"
    "st_conversations st i \<noteq> None \<Longrightarrow> isSafeInteger i" "st_entries st i \<noteq> None \<Longrightarrow> isSafeInteger i"
proof -
  have t: "types_ok st" using assms(1) by (simp add: storage_ok_def tables_ok_def)
  show "st_tasks st i \<noteq> None \<Longrightarrow> isSafeInteger i" "st_submissions st i \<noteq> None \<Longrightarrow> isSafeInteger i"
    "st_conversations st i \<noteq> None \<Longrightarrow> isSafeInteger i" "st_entries st i \<noteq> None \<Longrightarrow> isSafeInteger i"
    using table_none[OF t, of i] assms(2) by (auto simp: safe_ids_def simp del: not_None_eq)
qed

text \<open>
  C28. Following the cursors of a task scan from its start yields every task that matches the
  query exactly once, in the order asked for, whatever the page size: the status index, the
  binary searches of the resumption and the filter of the loop lose and repeat nothing.
\<close>

theorem scanTasks_complete:
  assumes ok: "storage_ok st" and safe: "safe_ids st" and op: "\<not> st_closed st" and l: "0 < limit"
    and order: "tq_order q = Some (order_name order)" and fuel: "length (st_taskIds st) < fuel"
  shows "\<exists>rs. follow fuel (scanTasks st q limit) None = Inr (in_order order rs) \<and>
    lists_records task_id (st_tasks st)
      (\<lambda>r. (tq_status q = None \<or> tq_status q = Some (task_status r)) \<and> task_filter q r) rs"
proof -
  let ?Q = "\<lambda>r. tq_status q = None \<or> tq_status q = Some (task_status r)"
  let ?ids = "case tq_status q of None \<Rightarrow> st_taskIds st | Some s \<Rightarrow> st_taskIdsByStatus st s"
  have t: "tasks_ok st" using ok by (simp add: storage_ok_def tables_ok_def)
  have all: "ordered (st_taskIds st) {i. \<exists>r. st_tasks st i = Some r}"
    using sorted_index.groupsD[of "\<lambda>u::unit. st_taskIds st" "st_tasks st" _ "()"] t by (fastforce simp: tasks_ok_def)
  have by_status: "ordered (st_taskIdsByStatus st s) {i. \<exists>r. st_tasks st i = Some r \<and> task_status r = s}" for s
    using sorted_index.groupsD[of "st_taskIdsByStatus st" "st_tasks st" _ s] t by (fastforce simp: tasks_ok_def)
  have ids: "ordered ?ids {i. \<exists>r. st_tasks st i = Some r \<and> ?Q r}"
    using all by_status by (cases "tq_status q") (auto simp: eq_commute)
  then have "length ?ids \<le> length (st_taskIds st)" using all by (rule ordered_length) auto
  then have "length ?ids < fuel" using fuel by simp
  from follow_table[OF ids _ table_safe(1)[OF ok safe] l _ this, of task_id "tq_order q" order Ascending "task_filter q"]
  show ?thesis using t order unfolding scanTasks_def[abs_def] open_read_eq[OF op] by (simp add: tasks_ok_def)
qed


text \<open>
  Following the cursors of a submission scan, or of a conversation scan by owning task or
  conversation, yields every matching record exactly once, in the order asked for.
\<close>

theorem scanSubmissions_complete:
  assumes ok: "storage_ok st" and safe: "safe_ids st" and op: "\<not> st_closed st" and l: "0 < limit"
    and order: "sq_order q = Some (order_name order)" "cq_order p = Some (order_name order)"
    and fuel: "length (st_submissionIds st) < fuel" "length (st_conversationIds st) < fuel"
  shows "(\<exists>rs. follow fuel (scanSubmissions st q limit) None = Inr (in_order order rs) \<and>
      lists_records sub_id (st_submissions st)
        (\<lambda>r. (sq_status q = None \<or> sq_status q = Some (sub_status r)) \<and> submission_filter q r) rs) \<and>
    (\<exists>rs. follow fuel (scanConversations st p limit) None = Inr (in_order order rs) \<and>
      lists_records conv_id (st_conversations st)
        (\<lambda>r. (cq_ownerTask p = None \<or> cq_ownerTask p = map_option owner_task (conv_owner r)) \<and>
          (cq_ownerConversation p = None \<or> cq_ownerConversation p = map_option owner_conversation (conv_owner r))) rs)"
proof
  let ?Q = "\<lambda>r. sq_status q = None \<or> sq_status q = Some (sub_status r)"
  let ?ids = "case sq_status q of None \<Rightarrow> st_submissionIds st | Some s \<Rightarrow> st_submissionIdsByStatus st s"
  have t: "submissions_ok st" using ok by (simp add: storage_ok_def tables_ok_def)
  have all: "ordered (st_submissionIds st) {i. \<exists>r. st_submissions st i = Some r}"
    using sorted_index.groupsD[of "\<lambda>u::unit. st_submissionIds st" "st_submissions st" _ "()"] t
    by (fastforce simp: submissions_ok_def)
  have by_status: "ordered (st_submissionIdsByStatus st s) {i. \<exists>r. st_submissions st i = Some r \<and> sub_status r = s}" for s
    using sorted_index.groupsD[of "st_submissionIdsByStatus st" "st_submissions st" _ s] t
    by (fastforce simp: submissions_ok_def)
  have ids: "ordered ?ids {i. \<exists>r. st_submissions st i = Some r \<and> ?Q r}"
    using all by_status by (cases "sq_status q") (auto simp: eq_commute)
  then have "length ?ids \<le> length (st_submissionIds st)" using all by (rule ordered_length) auto
  then have "length ?ids < fuel" using fuel by simp
  from follow_table[OF ids _ table_safe(2)[OF ok safe] l _ this, of sub_id "sq_order q" order Ascending "submission_filter q"]
  show "\<exists>rs. follow fuel (scanSubmissions st q limit) None = Inr (in_order order rs) \<and>
      lists_records sub_id (st_submissions st)
        (\<lambda>r. (sq_status q = None \<or> sq_status q = Some (sub_status r)) \<and> submission_filter q r) rs"
    using t order unfolding scanSubmissions_def[abs_def] open_read_eq[OF op] by (simp add: submissions_ok_def)
next
  let ?T = "\<lambda>r. cq_ownerTask p = None \<or> cq_ownerTask p = map_option owner_task (conv_owner r)"
  let ?C = "\<lambda>r. cq_ownerConversation p = None \<or> cq_ownerConversation p = map_option owner_conversation (conv_owner r)"
  let ?Q = "\<lambda>r. ?T r \<and> (cq_ownerTask p = None \<longrightarrow> ?C r)"
  let ?ids = "conversation_candidates st p"
  have t: "conversations_ok st" using ok by (simp add: storage_ok_def tables_ok_def)
  have all: "ordered (st_conversationIds st) {i. \<exists>r. st_conversations st i = Some r}"
    using sorted_index.groupsD[of "\<lambda>u::unit. st_conversationIds st" "st_conversations st" _ "()"] t
    by (fastforce simp: conversations_ok_def)
  have by_task: "ordered (bucket (st_convByOwnerTask st) s) {i. \<exists>r. st_conversations st i = Some r \<and> map_option owner_task (conv_owner r) = Some s}" for s
    using sorted_index.groupsD[of "bucket (st_convByOwnerTask st)" "st_conversations st" _ s] t
    by (fastforce simp: conversations_ok_def owner_task_is_def)
  have by_conv: "ordered (bucket (st_convByOwnerConversation st) s) {i. \<exists>r. st_conversations st i = Some r \<and> map_option owner_conversation (conv_owner r) = Some s}" for s
    using sorted_index.groupsD[of "bucket (st_convByOwnerConversation st)" "st_conversations st" _ s] t
    by (fastforce simp: conversations_ok_def owner_conversation_is_def)
  have ids: "ordered ?ids {i. \<exists>r. st_conversations st i = Some r \<and> ?Q r}"
    using all by_task by_conv
    by (cases "cq_ownerTask p"; cases "cq_ownerConversation p")
      (auto simp: conversation_candidates_def eq_commute[of "Some _"])
  then have "length ?ids \<le> length (st_conversationIds st)" using all by (rule ordered_length) auto
  then have f: "length ?ids < fuel" using fuel by simp
  have "(\<lambda>r. ?Q r \<and> conversation_filter p r) = (\<lambda>r. ?T r \<and> ?C r)"
    by (cases "cq_ownerConversation p") (auto simp: conversation_filter_def fun_eq_iff dest!: sym[of "Some _"])
  then show "\<exists>rs. follow fuel (scanConversations st p limit) None = Inr (in_order order rs) \<and>
      lists_records conv_id (st_conversations st) (\<lambda>r. ?T r \<and> ?C r) rs"
    using t order follow_table[OF ids _ table_safe(3)[OF ok safe] l _ f, of conv_id "cq_order p" order Ascending "conversation_filter p"]
    unfolding scanConversations_def[abs_def] open_read_eq[OF op] by (simp add: conversations_ok_def)
qed

subsection \<open>Visible entries\<close>

lemma sees_mono: "sees st c upper e \<Longrightarrow> (\<And>i. at_most i upper \<Longrightarrow> at_most i wider) \<Longrightarrow> sees st c wider e"
proof (induction arbitrary: wider rule: sees.induct)
  case (own i e c upper)
  then show ?case by (auto intro: sees.own)
next
  case (inherited c conv p upper e)
  have "at_most i (Some (narrow wider (parent_at p)))" if "at_most i (Some (narrow upper (parent_at p)))" for i
    using that inherited.prems[of i] narrow_le(2)[of i upper "parent_at p"] by (cases upper; cases wider; simp)
  then show ?case using inherited by (blast intro: sees.inherited)
qed

lemma sees_narrow:
  assumes "entries_ok st"
  shows "sees st c (Some (narrow upper t)) e \<longleftrightarrow> sees st c upper e \<and> entry_id e \<le> t"
proof
  assume a: "sees st c (Some (narrow upper t)) e"
  then show "sees st c upper e \<and> entry_id e \<le> t"
    using sees_mono[OF a narrow_le(2)] sees_bound[OF assms a] narrow_le(1)[of upper t] by force
next
  have "sees st c upper e \<Longrightarrow> entry_id e \<le> t \<Longrightarrow> sees st c (Some (narrow upper t)) e"
  proof (induction rule: sees.induct)
    case (own i e c upper)
    have "entry_id e = i" using assms own(1) by (simp add: entries_ok_def)
    then show ?case using own by (intro sees.own[of st i]) (cases upper; simp)+
  next
    case (inherited c conv p upper e)
    have "narrow (Some (narrow upper (parent_at p))) t = narrow (Some (narrow upper t)) (parent_at p)"
      by (cases upper) (simp_all add: min.commute min.left_commute)
    then show ?case using inherited by (intro sees.inherited[of st c conv p]) simp_all
  qed
  then show "sees st c upper e \<and> entry_id e \<le> t \<Longrightarrow> sees st c (Some (narrow upper t)) e" by blast
qed

lemma sorted_newer_unique:
  "sorted_wrt newer xs \<Longrightarrow> sorted_wrt newer ys \<Longrightarrow> set xs = set ys \<Longrightarrow> xs = ys"
proof (induction xs arbitrary: ys)
  case (Cons x xs)
  then obtain y ys' where ys: "ys = y # ys'" by (cases ys) auto
  have irr: "\<not> newer z z" for z by (simp add: newer_def)
  have "x = y"
  proof (rule ccontr)
    assume "x \<noteq> y"
    then have "newer x y" "newer y x" using Cons.prems ys by auto
    then show False by (simp add: newer_def)
  qed
  moreover have "x \<notin> set xs" "y \<notin> set ys'" using Cons.prems ys irr by auto
  ultimately show ?case using Cons ys by (metis insert_ident list.simps(15) sorted_wrt.simps(2))
qed simp

lemma sees_stored:
  assumes "entries_ok st" and "sees st c upper e"
  shows "st_entries st (entry_id e) = Some e"
  using assms(2)
proof (induction rule: sees.induct)
  case (own i e c upper)
  have "entry_id e = i" using assms(1) own(1) by (simp add: entries_ok_def)
  then show ?case using own(1) by simp
qed

text \<open>The entries a conversation sees, and how a bound selects among them.\<close>

lemma visible_selected:
  fixes least upper :: "int option" and a :: int
  assumes ok: "storage_ok st" and forks: "forks_ok st" and c: "st_conversations st c \<noteq> None" "0 \<le> c" "nat c < fuel"
  defines "es \<equiv> fst (visible_from fuel st least c upper)"
  shows "visible_from fuel st least c (Some (narrow upper (a - 1))) = (filter (\<lambda>e. entry_id e < a) es, None)"
    and "visible_from fuel st (Some (case least of None \<Rightarrow> a + 1 | Some m \<Rightarrow> max m (a + 1))) c upper
      = (filter (\<lambda>e. a < entry_id e) es, None)"
    and "visible_from fuel st least c upper = (es, None)"
    and "sorted_wrt newer es" and "\<And>e. e \<in> set es \<Longrightarrow> st_entries st (entry_id e) = Some e"
proof -
  note eo = storage_entries_ok[OF ok]
  note vis = visible_from_sees[OF eo forks c(3,1,2)]
  let ?u = "Some (narrow upper (a - 1))" and ?m = "Some (case least of None \<Rightarrow> a + 1 | Some m \<Rightarrow> max m (a + 1))"
  have es: "set es = {e. sees st c upper e \<and> at_least (entry_id e) least}" "sorted_wrt newer es"
    using vis[of least upper] by (simp_all add: es_def)
  then show "sorted_wrt newer es" by simp
  show "visible_from fuel st least c upper = (es, None)" using vis[of least upper] by (simp add: es_def prod_eq_iff)
  show "\<And>e. e \<in> set es \<Longrightarrow> st_entries st (entry_id e) = Some e" using es(1) sees_stored[OF eo] by auto
  have "fst (visible_from fuel st least c ?u) = filter (\<lambda>e. entry_id e < a) es"
    using vis[of least ?u] es sees_narrow[OF eo, of c upper "a - 1"]
    by (intro sorted_newer_unique sorted_wrt_filter) auto
  then show "visible_from fuel st least c ?u = (filter (\<lambda>e. entry_id e < a) es, None)"
    using vis[of least ?u] by (simp add: prod_eq_iff)
  have "at_least i ?m \<longleftrightarrow> at_least i least \<and> a < i" for i by (cases least) auto
  then have "fst (visible_from fuel st ?m c upper) = filter (\<lambda>e. a < entry_id e) es"
    using vis[of ?m upper] es by (intro sorted_newer_unique sorted_wrt_filter) auto
  then show "visible_from fuel st ?m c upper = (filter (\<lambda>e. a < entry_id e) es, None)"
    using vis[of ?m upper] by (simp add: prod_eq_iff)
qed

lemma consume_ok: "consume limit (es, None) = Inr (take (limit + 1) es)"
  by (simp add: consume_def)

text \<open>
  C6. Following the cursors of an entry scan, in either order and with any page size, yields
  exactly the entries the conversation sees within the bounds of the query, each once and in the
  order asked for: the narrowing of the bound at each page neither skips nor repeats an entry,
  across the segments of the fork chain too.
\<close>

theorem scanEntries_complete:
  assumes ok: "storage_ok st" and forks: "forks_ok st" and safe: "safe_ids st" and op: "\<not> st_closed st"
    and c: "st_conversations st (eq_conversation q) \<noteq> None" "0 \<le> eq_conversation q" "nat (eq_conversation q) < fuel"
    and l: "0 < limit" and order: "eq_order q = Some (order_name order)"
    and es: "es = fst (visibleEntries fuel st (eq_conversation q) (eq_minEntry q) (eq_maxEntry q))"
    and steps: "length es < steps"
  shows "follow steps (scanEntries fuel st q limit) None = Inr (case order of Descending \<Rightarrow> es | Ascending \<Rightarrow> rev es)"
proof -
  let ?c = "eq_conversation q" and ?min = "eq_minEntry q" and ?max = "eq_maxEntry q"
  have es': "es = fst (visible_from fuel st ?min ?c ?max)" using es c(1) by (simp add: visibleEntries_def del: not_None_eq)
  note sel = visible_selected[OF ok forks c, where least = "?min" and upper = "?max", folded es']
  have vis: "visibleEntries fuel st ?c m u = visible_from fuel st m ?c u" for m u
    using c(1) by (simp add: visibleEntries_def del: not_None_eq)
  have asc: "visibleEntriesAscending fuel st ?c m u = (rev xs, None)" if "visible_from fuel st m ?c u = (xs, None)" for m u xs
  proof -
    from ascending_is_reverse[OF storage_entries_ok[OF ok], of fuel m ?c u] that
    obtain segs where "fork_segments fuel st m ?c u = Inr segs" "concat (map (segment_entries st m) (rev segs)) = rev xs"
      by (auto simp: segments_of_def andThen_eq_Inr)
    then show ?thesis using c(1) by (simp add: visibleEntriesAscending_def del: not_None_eq)
  qed
  define ids where "ids = map entry_id (rev es)"
  have sorted: "sorted_wrt (<) ids"
    using sel(4) by (simp add: ids_def sorted_wrt_map sorted_wrt_rev newer_def[abs_def])
  have found: "set xs \<subseteq> set es \<Longrightarrow> List.map_filter (st_entries st) (map entry_id xs) = xs" for xs
    using sel(5) by (induction xs) (auto simp: List.map_filter_simps)
  have visited: "List.map_filter (st_entries st) (visited ids order aft) =
      (case order of
         Descending \<Rightarrow> (case aft of None \<Rightarrow> es | Some a \<Rightarrow> filter (\<lambda>e. entry_id e < a) es)
       | Ascending \<Rightarrow> rev (case aft of None \<Rightarrow> es | Some a \<Rightarrow> filter (\<lambda>e. a < entry_id e) es))" for aft
  proof -
    have m: "filter P ids = map entry_id (rev (filter (\<lambda>e. P (entry_id e)) es))" for P
      by (simp add: ids_def filter_map o_def rev_filter)
    show ?thesis
      using found by (cases order; cases aft) (simp_all only: visited.simps m scan_order.case option.case,
        auto simp: ids_def map_filter_rev simp del: rev_filter)
  qed
  have pages: "scanEntries fuel st q limit (cursor_at order aft) =
      page_of entry_id (take (limit + 1) (List.map_filter (st_entries st) (visited ids order aft))) limit order"
    if aft: "\<forall>i. aft = Some i \<longrightarrow> i \<in> set ids" for aft
  proof -
    have "isSafeInteger i" if "i \<in> set ids" for i
      using that sel(5) table_safe(4)[OF ok safe, of i] by (auto simp: ids_def)
    then have start: "scanStart (eq_order q) (cursor_at order aft) Descending = Inr \<lparr>start_order = order, start_after = aft\<rparr>"
      using aft order by (intro scanStart_cursor_at) auto
    show ?thesis
      unfolding visited scanEntries_def open_read_eq[OF op] start
      using sel(1,2,3) asc[OF sel(2)] asc[OF sel(3)]
      by (cases order; cases aft) (simp_all add: Let_def vis consume_ok)
  qed
  have "length (visited ids order None) < steps" using steps by (cases order) (simp_all add: ids_def)
  from follow_pages[OF sorted l _ pages this]
  have "follow steps (scanEntries fuel st q limit) (cursor_at order None) =
      Inr (List.map_filter (st_entries st) (visited ids order None))"
    using storage_entries_ok[OF ok] by (simp add: entries_ok_def)
  then show ?thesis unfolding visited by (cases order) (simp_all add: cursor_at_def)
qed


subsection \<open>Samples\<close>

lemma sample_forks_safe: "safe_ids sample_forks"
proof -
  have "st_recordTypes sample_forks = [2 \<mapsto> TConversation, 3 \<mapsto> TEntry, 4 \<mapsto> TEntry, 5 \<mapsto> TConversation, 6 \<mapsto> TEntry]"
    by (simp add: sample_forks_def commit_evaluation apply_conversation_fields apply_entry_fields
        sample_root_def sample_child_def sample_entry_def)
  then show ?thesis by (auto simp: safe_ids_def isSafeInteger_def split: if_splits)
qed

lemma sample_forks_lists:
  "st_taskIds sample_forks = []" "st_submissionIds sample_forks = []" "st_conversationIds sample_forks = [2, 5]"
  by (simp_all add: sample_forks_def commit_evaluation apply_conversation_fields apply_entry_fields
      sample_root_def sample_child_def sample_entry_def insertSorted_def)

definition sample_entry_query :: entry_query where
  "sample_entry_query = \<lparr>eq_conversation = 5, eq_minEntry = None, eq_maxEntry = Some 4, eq_order = Some ''ascending''\<rparr>"

theorem scanEntries_complete_witness:
  "follow (Suc (length (fst (visibleEntries 9 sample_forks 5 None (Some 4))))) (scanEntries 9 sample_forks sample_entry_query 1) None
     = Inr (rev (fst (visibleEntries 9 sample_forks 5 None (Some 4))))"
  using scanEntries_complete[OF sample_forks_ok sample_forks_wf sample_forks_safe, of sample_entry_query 9 1 Ascending
      "fst (visibleEntries 9 sample_forks 5 None (Some 4))"
      "Suc (length (fst (visibleEntries 9 sample_forks 5 None (Some 4))))"]
  by (simp add: sample_forks_fields sample_entry_query_def del: follow.simps)

definition sample_task :: "id \<Rightarrow> task_state \<Rightarrow> task" where
  "sample_task i s = \<lparr>task_trace = None, task_links = None, task_id = i, task_conversation = 2, task_kind = ''k'',
     task_version = 1, task_input = JNull, task_owner = None, task_background = False, task_abortRequested = False,
     task_abortRestart = False, task_abandonOnRestart = False, task_startedAt = None, task_endedAt = None,
     task_restarts = None, task_state = s, task_memos = None\<rparr>"

definition sample_tasks :: storage where
  "sample_tasks = out_state (commit_loop new_storage []
     [[WTask (sample_task 2 (Pending JNull)), WTask (sample_task 3 (Running JNull))],
      [WTask (sample_task 2 (Running JNull))]])"

lemma sample_tasks_ok: "storage_ok sample_tasks"
  unfolding sample_tasks_def by (rule commit_loop_ok(1)[OF storage_ok_new new_storage_open])

lemma sample_tasks_fields:
  "st_taskIds sample_tasks = [2, 3]" "st_closed sample_tasks = False"
  "st_recordTypes sample_tasks = [2 \<mapsto> TTask, 3 \<mapsto> TTask]"
  by (simp_all add: sample_tasks_def commit_evaluation apply_task_fields sample_task_def insertSorted_def fun_upd_twist)

lemma sample_tasks_safe: "safe_ids sample_tasks"
  by (auto simp: safe_ids_def sample_tasks_fields isSafeInteger_def split: if_splits)

definition sample_task_query :: task_query where
  "sample_task_query = \<lparr>tq_conversation = None, tq_kind = None, tq_status = Some SRunning, tq_abortRequested = None,
     tq_background = None, tq_order = Some ''descending''\<rparr>"

theorem scanTasks_complete_witness:
  "\<exists>rs. follow 3 (scanTasks sample_tasks sample_task_query 1) None = Inr (in_order Descending rs) \<and>
    lists_records task_id (st_tasks sample_tasks)
      (\<lambda>r. (tq_status sample_task_query = None \<or> tq_status sample_task_query = Some (task_status r)) \<and>
        task_filter sample_task_query r) rs"
  by (rule scanTasks_complete[OF sample_tasks_ok sample_tasks_safe])
    (simp_all add: sample_tasks_fields sample_task_query_def)

definition sample_submission_query :: submission_query where
  "sample_submission_query = \<lparr>sq_conversation = None, sq_status = Some Queued, sq_order = Some ''ascending''\<rparr>"

definition sample_conversation_query :: conversation_query where
  "sample_conversation_query = \<lparr>cq_ownerConversation = None, cq_ownerTask = None, cq_order = Some ''ascending''\<rparr>"

theorem scanSubmissions_complete_witness:
  "\<exists>rs. follow 3 (scanConversations sample_forks sample_conversation_query 1) None = Inr (in_order Ascending rs) \<and>
      lists_records conv_id (st_conversations sample_forks)
        (\<lambda>r. (cq_ownerTask sample_conversation_query = None \<or>
              cq_ownerTask sample_conversation_query = map_option owner_task (conv_owner r)) \<and>
          (cq_ownerConversation sample_conversation_query = None \<or>
              cq_ownerConversation sample_conversation_query = map_option owner_conversation (conv_owner r))) rs"
  by (rule scanSubmissions_complete[OF sample_forks_ok sample_forks_safe, THEN conjunct2, of 1 sample_submission_query])
    (simp_all add: sample_forks_fields sample_forks_lists sample_submission_query_def sample_conversation_query_def)

end
