(* ===== verification/Storage_History.thy ===== *)
theory Storage_History
  imports Storage_Paging
begin

text \<open>
  Documents over time: every revision chain of a well formed storage can be replayed, a commit
  does not change what a point before it shows, an address finds its one live incarnation, and
  minted IDs are fresh.
\<close>

subsection \<open>Replaying revisions\<close>

text \<open>The revisions up to a point, and their last base.\<close>

definition revisions_at :: "stored_state \<Rightarrow> doc_point \<Rightarrow> revision list" where
  "revisions_at d at = (case at of AtCurrent \<Rightarrow> sd_revisions d | AtSeq s \<Rightarrow> filter (\<lambda>r. rev_seq r \<le> s) (sd_revisions d))"

lemma successively_prefix: "successively P (xs @ ys) \<Longrightarrow> successively P xs"
  by (simp add: successively_append_iff)

lemma successively_suffix: "successively P (xs @ ys) \<Longrightarrow> successively P ys"
  by (simp add: successively_append_iff)

lemma follows_sorted: "successively follows revs \<Longrightarrow> sorted_wrt (\<lambda>r q. rev_seq r < rev_seq q) revs"
proof -
  assume "successively follows revs"
  then have "successively (\<lambda>r q. rev_seq r < rev_seq q) revs"
    by (rule successively_mono) (auto simp: follows_def)
  then show ?thesis by (subst (asm) successively_conv_sorted_wrt) (auto simp: transp_def)
qed

lemma filter_prefix:
  assumes "successively follows revs"
  shows "\<exists>late. revs = filter (\<lambda>r. rev_seq r \<le> s) revs @ late"
  using follows_sorted[OF assms]
proof (induction revs)
  case (Cons r revs)
  then show ?case
  proof (cases "rev_seq r \<le> s")
    case False
    then have "filter (\<lambda>r. rev_seq r \<le> s) revs = []" using Cons.prems by (auto simp: filter_empty_conv)
    then show ?thesis using False by simp
  qed simp
qed simp

lemma revisions_at_ok:
  assumes "doc_ok n d" and "isAliveAt (sd_record d) at" and "at = AtCurrent \<or> \<not> isCurrentOnly (sd_record d)"
  shows "revisions_at d at \<noteq> []" "is_base_content (rev_content (hd (revisions_at d at)))"
    "successively follows (revisions_at d at)"
proof -
  have "\<not> (isCurrentOnly (sd_record d) \<and> doc_retiredAt (sd_record d) \<noteq> None)"
    using assms(2,3) by (cases at) auto
  then have revs: "revisions_ok (doc_createdAt (sd_record d)) n (sd_revisions d)"
    using assms(1) by (auto simp: doc_ok_def split: if_splits)
  have "revisions_at d at \<noteq> [] \<and> is_base_content (rev_content (hd (revisions_at d at))) \<and> successively follows (revisions_at d at)"
  proof (cases at)
    case AtCurrent
    then show ?thesis using revs by (simp add: revisions_at_def revisions_ok_def)
  next
    case (AtSeq s)
    then have "rev_seq (hd (sd_revisions d)) \<le> s"
      using assms by (simp add: doc_ok_def)
    then have ne: "filter (\<lambda>r. rev_seq r \<le> s) (sd_revisions d) \<noteq> []" "hd (filter (\<lambda>r. rev_seq r \<le> s) (sd_revisions d)) = hd (sd_revisions d)"
      using revs by (cases "sd_revisions d"; simp add: revisions_ok_def)+
    obtain late where "sd_revisions d = filter (\<lambda>r. rev_seq r \<le> s) (sd_revisions d) @ late"
      using filter_prefix[of "sd_revisions d" s] revs by (auto simp: revisions_ok_def)
    then have "successively follows (filter (\<lambda>r. rev_seq r \<le> s) (sd_revisions d))"
      using revs successively_prefix unfolding revisions_ok_def by metis
    then show ?thesis using ne revs AtSeq by (simp add: revisions_at_def revisions_ok_def)
  qed
  then show "revisions_at d at \<noteq> []" "is_base_content (rev_content (hd (revisions_at d at)))"
    "successively follows (revisions_at d at)" by auto
qed

lemma last_base_exists:
  assumes "revs \<noteq> []" and "is_base_content (rev_content (hd revs))" and "successively follows revs"
  obtains b deltas older where "last_base revs = Some (b, deltas)" "revs = older @ b # deltas"
    "is_base_content (rev_content b)" "successively follows (b # deltas)"
    "\<And>r. r \<in> set deltas \<Longrightarrow> \<not> is_base_content (rev_content r)"
proof -
  let ?P = "\<lambda>r. \<not> is_base_content (rev_content r)"
  have "dropWhile ?P (rev revs) \<noteq> []" using assms(1,2) by (auto intro: hd_in_set)
  then obtain b rest where d: "dropWhile ?P (rev revs) = b # rest" by (cases "dropWhile ?P (rev revs)") auto
  have "rev revs = takeWhile ?P (rev revs) @ b # rest" using d by (metis takeWhile_dropWhile_id)
  then have r: "revs = rev rest @ b # rev (takeWhile ?P (rev revs))"
    by (metis append_Cons append_Nil append_assoc rev_append rev_rev_ident rev.simps(2))
  have "is_base_content (rev_content b)" using d hd_dropWhile[of ?P "rev revs"] by auto
  moreover have "successively follows (b # rev (takeWhile ?P (rev revs)))"
    using assms(3) r successively_suffix by metis
  ultimately show ?thesis
    using that[of b "rev (takeWhile ?P (rev revs))" "rev rest"] d r by (auto simp: last_base_def dest: set_takeWhileD)
qed

text \<open>Along deltas that follow a base, the version never changes.\<close>

lemma delta_versions:
  assumes "successively follows (b # deltas)" and "\<And>r. r \<in> set deltas \<Longrightarrow> \<not> is_base_content (rev_content r)"
  shows "r \<in> set deltas \<Longrightarrow> \<exists>ops. rev_content r = Delta (content_version (rev_content b)) ops"
  using assms
proof (induction deltas arbitrary: b)
  case (Cons q deltas)
  have nq: "\<not> is_base_content (rev_content q)" using Cons.prems(3) by simp
  then obtain v ops where q: "rev_content q = Delta v ops" by (cases "rev_content q") auto
  have v: "v = content_version (rev_content b)" using Cons.prems(2) nq q by (simp add: follows_def)
  show ?case
  proof (cases "r = q")
    case False
    then have "\<exists>ops. rev_content r = Delta (content_version (rev_content q)) ops"
      using Cons.prems by (intro Cons.IH) auto
    then show ?thesis using q v by simp
  qed (use q v in auto)
qed simp

lemma replay_errors:
  "\<forall>r\<in>set deltas. \<exists>ops. rev_content r = Delta v ops \<Longrightarrow>
   run_steps (replay_delta v) value deltas = Inl e \<Longrightarrow> \<exists>d. e = DeltaFailed d"
proof (induction deltas arbitrary: "value")
  case (Cons r deltas)
  obtain ops where r: "rev_content r = Delta v ops" using Cons.prems(1) by auto
  show ?case
    using Cons r by (cases "applyImmutable (\<lambda>i. False) value ops") (auto simp: replay_delta_def)
qed simp

lemma materialize_eq:
  "materializeDocument st i at =
     (case st_documents st i of
        None \<Rightarrow> Inr None
      | Some d \<Rightarrow>
          if at \<noteq> AtCurrent \<and> isCurrentOnly (sd_record d)
          then Inl (RequestError ''Document does not retain historical content'')
          else if \<not> isAliveAt (sd_record d) at then Inr None
          else (case last_base (revisions_at d at) of
               None \<Rightarrow> Inl (CommitError ''Document is missing a required base'')
             | Some (b, deltas) \<Rightarrow>
                 (case rev_content b of
                    Delta version ops \<Rightarrow> Inl (CommitError ''Document is missing a required base'')
                  | Base version base \<Rightarrow>
                      andThen (run_steps (replay_delta version) base deltas) (\<lambda>v.
                      Inr (Some \<lparr>stored_record = sd_record d, stored_version = version,
                                 stored_value = v, stored_deltas = length deltas\<rparr>)))))"
  unfolding materializeDocument_def revisions_at_def Let_def ..

text \<open>
  C27. In a well formed storage, reading a document never fails for a missing base or for a delta
  stored across a version boundary: a read fails only when it asks a document without history for
  the past, or when a stored delta cannot be applied to the value it was stored for.
\<close>

theorem materialize_sound:
  assumes "storage_ok st" and "materializeDocument st i at = Inl e"
  shows "(\<exists>d. e = DeltaFailed d) \<or>
    e = RequestError ''Document does not retain historical content'' \<and> at \<noteq> AtCurrent \<and>
      (\<exists>d. st_documents st i = Some d \<and> isCurrentOnly (sd_record d))"
proof -
  obtain d where d: "st_documents st i = Some d"
    using assms(2) by (cases "st_documents st i") (auto simp: materialize_eq)
  have ok: "doc_ok (st_nextSeq st) d" using assms(1) d by (simp add: storage_ok_def incarnations_ok_def)
  show ?thesis
  proof (cases "at \<noteq> AtCurrent \<and> isCurrentOnly (sd_record d)")
    case True
    then show ?thesis using assms(2) d by (simp add: materialize_eq)
  next
    case False
    then have alive: "isAliveAt (sd_record d) at" using assms(2) d by (auto simp: materialize_eq split: if_splits)
    have p: "at = AtCurrent \<or> \<not> isCurrentOnly (sd_record d)" using False by blast
    obtain b deltas older where b: "last_base (revisions_at d at) = Some (b, deltas)"
      "is_base_content (rev_content b)" "successively follows (b # deltas)"
      "\<And>r. r \<in> set deltas \<Longrightarrow> \<not> is_base_content (rev_content r)"
      using last_base_exists[OF revisions_at_ok[OF ok alive p]] by metis
    obtain v base where c: "rev_content b = Base v base" using b(2) by (cases "rev_content b") auto
    have "run_steps (replay_delta v) base deltas = Inl e"
      using assms(2) d False alive b(1) c by (auto simp: materialize_eq andThen_def split: sum.splits if_splits)
    moreover have "\<forall>r\<in>set deltas. \<exists>ops. rev_content r = Delta v ops" using delta_versions[OF b(3,4)] c by auto
    ultimately show ?thesis using replay_errors by blast
  qed
qed

subsection \<open>The past does not change\<close>

definition snapshot :: "storage \<Rightarrow> id \<Rightarrow> seq \<Rightarrow> (storage_error, (int \<times> json \<times> nat) option) result" where
  "snapshot st i s = andThen (materializeDocument st i (AtSeq s))
     (\<lambda>found. Inr (map_option (\<lambda>d. (stored_version d, stored_value d, stored_deltas d)) found))"

definition replayed :: "bool \<Rightarrow> revision list \<Rightarrow> (storage_error, (int \<times> json \<times> nat) option) result" where
  "replayed alive revs =
     (if \<not> alive then Inr None
      else (case last_base revs of
          None \<Rightarrow> Inl (CommitError ''Document is missing a required base'')
        | Some (b, deltas) \<Rightarrow>
            (case rev_content b of
               Delta version ops \<Rightarrow> Inl (CommitError ''Document is missing a required base'')
             | Base version base \<Rightarrow>
                 andThen (run_steps (replay_delta version) base deltas) (\<lambda>v. Inr (Some (version, v, length deltas))))))"

lemma snapshot_replayed:
  "st_documents st i = Some d \<Longrightarrow> \<not> isCurrentOnly (sd_record d) \<Longrightarrow>
   snapshot st i s = replayed (isAliveAt (sd_record d) (AtSeq s)) (revisions_at d (AtSeq s))"
  by (simp add: snapshot_def materialize_eq replayed_def andThen_assoc del: isAliveAt.simps
      split: option.split doc_content.split)

lemma snapshot_eq:
  assumes "st_documents st i = Some d" and "st_documents st' i = Some d'"
    and "isCurrentOnly (sd_record d') = isCurrentOnly (sd_record d)"
    and "\<not> isCurrentOnly (sd_record d) \<Longrightarrow> isAliveAt (sd_record d') (AtSeq s) = isAliveAt (sd_record d) (AtSeq s)"
    and "\<not> isCurrentOnly (sd_record d) \<Longrightarrow> revisions_at d' (AtSeq s) = revisions_at d (AtSeq s)"
  shows "snapshot st' i s = snapshot st i s"
proof (cases "isCurrentOnly (sd_record d)")
  case True
  then show ?thesis using assms by (simp add: snapshot_def materialize_eq)
next
  case False
  then show ?thesis using assms by (simp add: snapshot_replayed del: isAliveAt.simps)
qed

lemma doc_after_past:
  assumes act: "action_ok (Some d) i a" and d': "doc_after q a (Some d) = Some d'"
    and s: "s < q"
  shows "isCurrentOnly (sd_record d') = isCurrentOnly (sd_record d) \<and>
    (\<not> isCurrentOnly (sd_record d) \<longrightarrow> isAliveAt (sd_record d') (AtSeq s) = isAliveAt (sd_record d) (AtSeq s) \<and>
       revisions_at d' (AtSeq s) = revisions_at d (AtSeq s))"
  using act
proof (cases rule: action_ok_cases)
  case (Change stored)
  then show ?thesis
    using d' s by (cases "act_content a") (auto simp: doc_after_def written_doc_def revisions_at_def)
qed simp

lemma snapshot_follow:
  assumes f: "documents_follow q acts st st'" and i: "st_documents st i \<noteq> None" and s: "s < q"
  shows "st_documents st' i \<noteq> None \<and> snapshot st' i s = snapshot st i s"
proof -
  obtain d where d: "st_documents st i = Some d" using i by auto
  show ?thesis
  proof (cases "map_of acts i")
    case None
    then have "st_documents st' i = Some d" using f d by (auto simp: documents_follow_def dest: spec[of _ i])
    then show ?thesis using snapshot_eq[OF d, of st' d] by simp
  next
    case (Some a)
    then have act: "action_ok (Some d) i a" and st': "st_documents st' i = doc_after q a (Some d)"
      using f d by (auto simp: documents_follow_def split: option.splits dest: spec[of _ i])
    obtain d' where d': "doc_after q a (Some d) = Some d'" using doc_after_exists[OF act] by metis
    show ?thesis using snapshot_eq[OF d] doc_after_past[OF act d' s] st' d' by simp
  qed
qed

lemma loop_past:
  "storage_ok st \<Longrightarrow> st_documents st i \<noteq> None \<Longrightarrow> s < st_nextSeq st \<Longrightarrow>
   st_documents (out_state (commit_loop st receipts batches)) i \<noteq> None \<and>
   snapshot (out_state (commit_loop st receipts batches)) i s = snapshot st i s"
proof (induction batches arbitrary: st receipts)
  case (Cons ws batches)
  show ?case
  proof (cases "prepareCommit st ws (st_nextSeq st)")
    case (Inr p)
    obtain st1 acts where st1: "applyPreparedCommit st p = Inr st1" "storage_ok st1"
      "st_nextSeq st1 = st_nextSeq st + 1" "documents_follow (st_nextSeq st) acts st st1"
      using prepared_applies[OF Cons.prems(1) Inr] by blast
    have "st_documents st1 i \<noteq> None \<and> snapshot st1 i s = snapshot st i s"
      by (rule snapshot_follow[OF st1(4) Cons.prems(2,3)])
    then show ?thesis using Cons.IH[OF st1(2), of "receipts @ [prep_seq p]"] st1(1,3) Inr Cons.prems(3) by simp
  qed (use Cons.prems in simp)
qed simp

text \<open>
  C4. A commit does not change the past: what a document shows at an earlier sequence (whether it
  is alive, its version, its value and its distance from a base) is the same after any later
  commit, accepted or refused, whatever it writes to that document.
\<close>

theorem commit_keeps_past:
  assumes "storage_ok st" and "commit st batches = Inr out" and "st_documents st i \<noteq> None" and "s < st_nextSeq st"
  shows "snapshot (out_state out) i s = snapshot st i s"
proof -
  have "out = commit_loop st [] batches" using assms(2) by (auto simp: commit_def andThen_eq_Inr ensure_eq_Inr)
  then show ?thesis using loop_past[OF assms(1,3,4)] by simp
qed

subsection \<open>Addresses\<close>

text \<open>
  At the current point an address resolves to a record exactly when that record is the live
  incarnation of some document at it; so there is at most one, and none is missed.
\<close>

theorem findDocument_live:
  assumes "storage_ok st" and "\<not> st_closed st"
  shows "findDocument st a AtCurrent = Inr (Some r) \<longleftrightarrow>
    (\<exists>i d. st_documents st i = Some d \<and> sd_record d = r \<and> record_address r = a \<and> doc_retiredAt r = None)"
proof -
  have p: "current_at st a = Some i \<longleftrightarrow> live_at st a i" for i
    using assms(1) by (simp add: storage_ok_def pointers_ok_def)
  show ?thesis
  proof (cases "current_at st a")
    case None
    then have "\<not> live_at st a i" for i using p[of i] by simp
    then show ?thesis using None assms(2)
      by (auto simp: findDocument_def open_read_eq live_at_def doc_addr_def)
  next
    case (Some j)
    then obtain d where d: "st_documents st j = Some d" "doc_addr d = a" "doc_retiredAt (sd_record d) = None"
      using p[of j] by (auto simp: live_at_def)
    have "i = j" if "live_at st a i" for i using p[of i] that Some by simp
    then have "(\<exists>i d. st_documents st i = Some d \<and> sd_record d = r \<and> record_address r = a \<and> doc_retiredAt r = None)
        \<longleftrightarrow> r = sd_record d"
      using d unfolding live_at_def doc_addr_def by (metis option.inject)
    then show ?thesis using Some d assms(2) by (auto simp: findDocument_def open_read_eq)
  qed
qed

subsection \<open>Minted IDs\<close>

text \<open>
  C39. A minted ID belongs to no record, minting keeps the storage well formed, and the next ID
  minted is a different, larger one.
\<close>

theorem mintId_fresh:
  assumes "storage_ok st" and "mintId st = Inr (i, st')"
  shows "st_recordTypes st i = None \<and> isSafeInteger i \<and> storage_ok st' \<and> st_nextId st' = i + 1"
proof -
  have m: "i = st_nextId st" "st' = st\<lparr>st_nextId := st_nextId st + 1\<rparr>" "isSafeInteger i"
    using assms(2) by (auto simp: mintId_def andThen_eq_Inr ensure_eq_Inr)
  have t: "types_ok st" using assms(1) by (simp add: storage_ok_def tables_ok_def)
  have none: "st_recordTypes st i = None" using t m(1) types_below[OF t, of i] by (cases "st_recordTypes st i") auto
  have "held st' u = held st u" for u using m(2) by (cases u) simp_all
  then have "types_ok st'" using t m(2) unfolding types_ok_def by (auto simp del: not_None_eq)
  then show ?thesis
    using assms(1) none m document_fields_only[of st' st]
    by (simp add: storage_ok_def tables_ok_def conversations_ok_def entries_ok_def tasks_ok_def
        submissions_ok_def requests_ok_def incarnations_ok_def)
qed


subsection \<open>Samples\<close>

definition sample_doc :: document_create where
  "sample_doc = \<lparr>doc_id = 3, doc_kind = ''k'', doc_key = None, doc_scope = ConversationScope 2,
     doc_history = None, doc_fork = None\<rparr>"

definition sample_docs :: storage where
  "sample_docs = out_state (commit_loop new_storage []
     [[WConversation sample_root, WDocCreate sample_doc 1 (JObj [(''n'', JNum 7)])],
      [WDocChange 3 (Base 1 (JObj [(''n'', JNum 8)]))]])"

definition sample_change :: "storage_write list list" where
  "sample_change = [[WDocRetire 3]]"

lemma sample_docs_ok: "storage_ok sample_docs"
  unfolding sample_docs_def by (rule commit_loop_ok(1)[OF storage_ok_new new_storage_open])

lemma sample_docs_open: "\<not> st_closed sample_docs"
  unfolding sample_docs_def by (rule commit_loop_ok(2)[OF storage_ok_new new_storage_open])

lemma sample_docs_commit: "commit sample_docs sample_change = Inr (commit_loop sample_docs [] sample_change)"
  using sample_docs_open by (simp add: commit_def)

lemma sample_docs_fields: "st_documents sample_docs 3 \<noteq> None" "st_nextSeq sample_docs = 3" "st_nextId sample_docs = 4"
  by (simp_all add: sample_docs_def commit_evaluation apply_conversation_fields sample_root_def sample_doc_def Let_def
      check_action_def check_content_def action_address_def live_change_def current_at_def action_of_def
      apply_action_def create_document_def change_document_def retire_document_def point_address_def bump_def record_address_def
      document_create.defs document.defs isCurrentOnly_def)

theorem commit_keeps_past_witness:
  "snapshot (out_state (commit_loop sample_docs [] sample_change)) 3 1 = snapshot sample_docs 3 1"
  by (rule commit_keeps_past[OF sample_docs_ok sample_docs_commit]) (simp_all add: sample_docs_fields)

theorem findDocument_live_witness:
  "findDocument sample_docs (record_address sample_doc) AtCurrent = Inr (Some (sd_record (the (st_documents sample_docs 3)))) \<longleftrightarrow>
    (\<exists>i d. st_documents sample_docs i = Some d \<and> sd_record d = sd_record (the (st_documents sample_docs 3)) \<and>
      record_address (sd_record (the (st_documents sample_docs 3))) = record_address sample_doc \<and>
      doc_retiredAt (sd_record (the (st_documents sample_docs 3))) = None)"
  by (rule findDocument_live[OF sample_docs_ok sample_docs_open])

definition sample_session :: storage where
  "sample_session = out_state (commit_loop new_storage [] [[WDocCreate sample_create 1 (JNum 7)]])"

lemma sample_session_ok: "storage_ok sample_session"
  unfolding sample_session_def by (rule commit_loop_ok(1)[OF storage_ok_new new_storage_open])

lemma sample_session_past:
  "materializeDocument sample_session 2 (AtSeq 1) = Inl (RequestError ''Document does not retain historical content'')"
  by (simp add: materialize_eq sample_session_def commit_evaluation sample_create_def Let_def
      check_action_def check_content_def action_address_def live_change_def current_at_def action_of_def
      apply_action_def create_document_def retire_document_def point_address_def bump_def record_address_def
      document_create.defs document.defs isCurrentOnly_def)

theorem materialize_sound_witness:
  "(\<exists>d. RequestError ''Document does not retain historical content'' = DeltaFailed d) \<or>
    RequestError ''Document does not retain historical content'' = RequestError ''Document does not retain historical content'' \<and>
      AtSeq 1 \<noteq> AtCurrent \<and> (\<exists>d. st_documents sample_session 2 = Some d \<and> isCurrentOnly (sd_record d))"
  by (rule materialize_sound[OF sample_session_ok sample_session_past])

theorem mintId_fresh_witness:
  "st_recordTypes sample_docs 4 = None \<and> isSafeInteger 4 \<and>
   storage_ok (sample_docs\<lparr>st_nextId := 5\<rparr>) \<and> st_nextId (sample_docs\<lparr>st_nextId := 5\<rparr>) = 4 + 1"
  by (rule mintId_fresh[OF sample_docs_ok]) (simp add: mintId_def sample_docs_open sample_docs_fields isSafeInteger_def)

end
