(* ===== verification/Chord_Schema.thy ===== *)
theory Chord_Schema
  imports Json "HOL-Library.Char_ord" "HOL-Library.List_Lexorder" "HOL-Library.Word"
begin

unbundle bit_operations_syntax

text \<open>
  Schema snapshots and fingerprints of Chord contracts (\<open>packages/chord/src/contracts\<close>:
  \<open>snapshot.ts\<close>, \<open>fingerprint.ts\<close>, \<open>params.ts\<close>, \<open>host-kind.ts\<close>, \<open>names.ts\<close>, and \<open>isJsonValue\<close> of
  \<open>json.ts\<close>). \<open>jsval\<close> is what an application hands to a declaration: JSON, \<open>undefined\<close>, functions
  and the instances of the declaration classes. Values are trees of data properties with numbers
  that are integers, so the refusals of cycles, accessors and symbol keys do not occur in the
  model; keys keep their order, also integer-like ones.
\<close>

datatype jsval =
    VUndef
  | VNull
  | VBool bool
  | VNum int
  | VStr string
  | VFun
  | VArr "jsval list"
  | VObj "(string \<times> jsval) list"
  | VOptional jsval
  | VMethod jsval jsval
  | VKeyed jsval

fun wf_val :: "jsval \<Rightarrow> bool" where
  "wf_val (VArr xs) = (\<forall>x\<in>set xs. wf_val x)"
| "wf_val (VObj kvs) = (distinct (map fst kvs) \<and> (\<forall>kv\<in>set kvs. wf_val (snd kv)))"
| "wf_val (VOptional s) = wf_val s"
| "wf_val (VKeyed s) = wf_val s"
| "wf_val (VMethod a r) = (wf_val a \<and> wf_val r)"
| "wf_val _ = True"

text \<open>Errors carry the path that the message names; the message for an unsupported type also has the JSON text of the value.\<close>

datatype declaration_error =
    ExpectedSchema string
  | UnsupportedKeyword string string
  | ExpectedSchemaMap string
  | UnsupportedType string jsval
  | ExpectedStrings string
  | ExpectedArray string
  | ExpectedSchemas string
  | ExpectedJsonData string
  | OpenArguments string
  | BytesBounds string
  | NotAParam string
  | BadName string
  | ReservedClientKind
  | ExpectedObject string
  | UnknownKey string string
  | NoVariants string
  | ExpectedHostAddress string
  | MethodInState string
  | KeyedInRemote string
  | ExpectedMethod string
  | BadVersion string
  | ReservedMember string
  | KindChanged string
  | SignatureDiffers string
  | UnknownVariant string
  | NoSuchMember string
  | AlreadyDeclared string
  | NoMethod string
  | OtherEditor string
  | NotOlderVersion string
  | UnnecessaryMapping string
  | MissingMapping string
  | ExpectedFunction string
  | ExpectedRefusal string
  | ExpectedCall string

subsection \<open>JSON.stringify\<close>

definition hex_digit :: "nat \<Rightarrow> char" where
  "hex_digit n = (if n < 10 then char_of (48 + n) else char_of (87 + n))"

definition quoted_char :: "char \<Rightarrow> string" where
  "quoted_char c =
     (let n = of_char c :: nat in
      if c = CHR 0x22 \<or> c = CHR 0x5C then [CHR 0x5C, c]
      else if n = 8 then [CHR 0x5C, CHR ''b'']
      else if n = 9 then [CHR 0x5C, CHR ''t'']
      else if n = 10 then [CHR 0x5C, CHR ''n'']
      else if n = 12 then [CHR 0x5C, CHR ''f'']
      else if n = 13 then [CHR 0x5C, CHR ''r'']
      else if n < 32 then [CHR 0x5C, CHR ''u'', CHR ''0'', CHR ''0'', hex_digit (n div 16), hex_digit (n mod 16)]
      else [c])"

definition quoted :: "string \<Rightarrow> string" where
  "quoted s = CHR 0x22 # concat (map quoted_char s) @ [CHR 0x22]"

fun stringify :: "json \<Rightarrow> string" where
  "stringify JNull = ''null''"
| "stringify (JBool b) = (if b then ''true'' else ''false'')"
| "stringify (JNum n) = show_int n"
| "stringify (JStr s) = quoted s"
| "stringify (JArr xs) = ''['' @ join '','' (map stringify xs) @ '']''"
| "stringify (JObj kvs) =
     ''{'' @ join '','' (map (\<lambda>kv. quoted (fst kv) @ '':'' @ stringify (snd kv)) kvs) @ ''}''"

subsection \<open>JSON data\<close>

text \<open>\<open>isJsonValue\<close>, with the value it admits; \<open>sortedCopy\<close> sorts the keys at every level.\<close>

fun isJsonValue :: "jsval \<Rightarrow> bool" where
  "isJsonValue (VArr xs) = (\<forall>x\<in>set xs. isJsonValue x)"
| "isJsonValue (VObj kvs) = (\<forall>kv\<in>set kvs. isJsonValue (snd kv))"
| "isJsonValue v = (v = VNull \<or> (\<exists>b\<in>{True, False}. v = VBool b) \<or>
     (case v of VNum _ \<Rightarrow> True | VStr _ \<Rightarrow> True | _ \<Rightarrow> False))"

fun sortedCopy :: "jsval \<Rightarrow> json" where
  "sortedCopy (VArr xs) = JArr (map sortedCopy xs)"
| "sortedCopy (VObj kvs) = JObj (sort_key fst (map (\<lambda>kv. (fst kv, sortedCopy (snd kv))) kvs))"
| "sortedCopy (VBool b) = JBool b"
| "sortedCopy (VNum n) = JNum n"
| "sortedCopy (VStr s) = JStr s"
| "sortedCopy _ = JNull"

subsection \<open>Schema snapshots\<close>

record snapshot =
  sn_schema :: json
  sn_normal :: json
  sn_bytes :: bool

datatype objects = OpenObjects | ClosedObjects

datatype keyword =
  KSchema | KSchemas | KItems | KSchemaMap | KType | KRequired | KEnum | KData | KAnnotation

definition KEYWORD_GROUPS :: "(keyword \<times> string list) list" where
  "KEYWORD_GROUPS =
    [(KSchema, [''additionalProperties'', ''additionalItems'']),
     (KSchemas, [''anyOf'', ''allOf'', ''prefixItems'']),
     (KItems, [''items'']),
     (KSchemaMap, [''properties'', ''patternProperties'', ''$defs'']),
     (KType, [''type'']),
     (KRequired, [''required'']),
     (KEnum, [''enum'']),
     (KData, [''const'', ''default'', ''$ref'', ''$id'', ''pattern'', ''format'', ''minLength'', ''maxLength'',
              ''minimum'', ''maximum'', ''exclusiveMinimum'', ''exclusiveMaximum'', ''multipleOf'', ''minItems'',
              ''maxItems'', ''uniqueItems'', ''minProperties'', ''maxProperties'', ''readOnly'', ''writeOnly'']),
     (KAnnotation, [''title'', ''description'', ''examples'', ''$comment'', ''deprecated''])]"

definition KEYWORDS :: "(string \<times> keyword) list" where
  "KEYWORDS = concat (map (\<lambda>(keyword, names). map (\<lambda>name. (name, keyword)) names) KEYWORD_GROUPS)"

definition TYPES :: "string list" where
  "TYPES = [''null'', ''boolean'', ''number'', ''integer'', ''string'', ''array'', ''object'', ''bytes'']"

definition BYTES_KEYWORDS :: "string list" where
  "BYTES_KEYWORDS = [''type'', ''minLength'', ''maxLength'']"

definition ownEntries :: "(string \<times> jsval) list \<Rightarrow> (string \<times> jsval) list" where
  "ownEntries kvs = sort_key fst kvs"

definition isOpenObject :: "(string \<times> json) list \<Rightarrow> bool" where
  "isOpenObject node =
     (let isRecord = map_of node ''patternProperties'' \<noteq> None \<and> map_of node ''properties'' = None;
          isObject = map_of node ''type'' = Some (JStr ''object'') \<or> map_of node ''properties'' \<noteq> None
      in isObject \<and> \<not> isRecord \<and> map_of node ''additionalProperties'' \<noteq> Some (JBool False))"

definition bytes_bound_ok :: "json option \<Rightarrow> bool" where
  "bytes_bound_ok bound =
     (case bound of None \<Rightarrow> True | Some (JNum n) \<Rightarrow> isSafeInteger n \<and> 0 \<le> n | Some _ \<Rightarrow> False)"

definition checkBytesBounds :: "(string \<times> json) list \<Rightarrow> string \<Rightarrow> (declaration_error, unit) result" where
  "checkBytesBounds node path =
     ensure (bytes_bound_ok (map_of node ''minLength'') \<and> bytes_bound_ok (map_of node ''maxLength''))
       (BytesBounds path)"

text \<open>\<open>data\<close>: the same copy is schema and normal form.\<close>

definition data_copy :: "jsval \<Rightarrow> string \<Rightarrow> (declaration_error, snapshot) result" where
  "data_copy v path =
     (if isJsonValue v
      then Inr \<lparr>sn_schema = sortedCopy v, sn_normal = sortedCopy v, sn_bytes = False\<rparr>
      else Inl (ExpectedJsonData path))"

definition dot :: "string \<Rightarrow> string \<Rightarrow> string" where
  "dot path key = path @ ''.'' @ key"

definition at_index :: "string \<Rightarrow> nat \<Rightarrow> string" where
  "at_index path i = path @ ''['' @ show_nat i @ '']''"

text \<open>The check of a keyword: its group, unless the schema is a bytes leaf and it may not be there.\<close>

definition keyword_of :: "bool \<Rightarrow> string \<Rightarrow> string \<Rightarrow> (declaration_error, keyword) result" where
  "keyword_of isBytes key path =
     (case map_of KEYWORDS key of
        None \<Rightarrow> Inl (UnsupportedKeyword path key)
      | Some keyword \<Rightarrow>
          (if isBytes \<and> keyword \<noteq> KAnnotation \<and> key \<notin> set BYTES_KEYWORDS
           then Inl (UnsupportedKeyword path key) else Inr keyword))"

text \<open>The end of \<open>walk\<close>: the copies of the entries, in key order, make the snapshot.\<close>

definition walk_node ::
  "string \<Rightarrow> objects \<Rightarrow> bool \<Rightarrow> (string \<times> keyword \<times> snapshot) list \<Rightarrow> (declaration_error, snapshot) result" where
  "walk_node path objects isBytes copies =
     (let node = map (\<lambda>(key, _, copy). (key, sn_schema copy)) copies;
          normal = map (\<lambda>(key, _, copy). (key, sn_normal copy))
                     (filter (\<lambda>(_, keyword, _). keyword \<noteq> KAnnotation) copies);
          bytes = (isBytes \<or> (\<exists>(_, _, copy)\<in>set copies. sn_bytes copy))
      in if objects = ClosedObjects \<and> isOpenObject node then Inl (OpenArguments path)
         else andThen (if isBytes then checkBytesBounds node path else Inr ())
           (\<lambda>_. Inr \<lparr>sn_schema = JObj node, sn_normal = JObj normal, sn_bytes = bytes\<rparr>))"

definition list_copy :: "snapshot list \<Rightarrow> snapshot" where
  "list_copy items =
     \<lparr>sn_schema = JArr (map sn_schema items), sn_normal = JArr (map sn_normal items),
      sn_bytes = (\<exists>item\<in>set items. sn_bytes item)\<rparr>"

definition map_copy :: "(string \<times> snapshot) list \<Rightarrow> snapshot" where
  "map_copy entries =
     \<lparr>sn_schema = JObj (map (\<lambda>(key, item). (key, sn_schema item)) entries),
      sn_normal = JObj (map (\<lambda>(key, item). (key, sn_normal item)) entries),
      sn_bytes = (\<exists>(_, item)\<in>set entries. sn_bytes item)\<rparr>"

definition type_copy :: "jsval \<Rightarrow> string \<Rightarrow> (declaration_error, snapshot) result" where
  "type_copy v path =
     (case v of
        VStr name \<Rightarrow>
          (if name \<in> set TYPES
           then Inr \<lparr>sn_schema = JStr name, sn_normal = JStr name, sn_bytes = False\<rparr>
           else Inl (UnsupportedType path v))
      | _ \<Rightarrow> Inl (UnsupportedType path v))"

fun strings_of :: "jsval list \<Rightarrow> string list option" where
  "strings_of [] = Some []"
| "strings_of (VStr s # vs) = map_option ((#) s) (strings_of vs)"
| "strings_of (_ # vs) = None"

definition required_copy :: "jsval \<Rightarrow> string \<Rightarrow> (declaration_error, snapshot) result" where
  "required_copy v path =
     (case (case v of VArr vs \<Rightarrow> strings_of vs | _ \<Rightarrow> None) of
        None \<Rightarrow> Inl (ExpectedStrings path)
      | Some names \<Rightarrow>
          (let names = JArr (map JStr (sort names))
           in Inr \<lparr>sn_schema = names, sn_normal = names, sn_bytes = False\<rparr>))"

definition enum_copy :: "jsval \<Rightarrow> string \<Rightarrow> (declaration_error, snapshot) result" where
  "enum_copy v path =
     andThen (data_copy v path) (\<lambda>copy.
       case sn_normal copy of
         JArr values \<Rightarrow>
           (let sorted = JArr (sort_key stringify values)
            in Inr \<lparr>sn_schema = sorted, sn_normal = sorted, sn_bytes = False\<rparr>)
       | _ \<Rightarrow> Inl (ExpectedArray path))"

lemma size_ownEntries: "(k, v) \<in> set (ownEntries kvs) \<Longrightarrow> size v < size_list (size_prod (\<lambda>_. 0) size) kvs"
  using size_list_estimation'[of "(k, v)" kvs "Suc (size v)" "size_prod (\<lambda>_. 0) size"]
  by (simp add: ownEntries_def)

lemma size_enumerate: "(i, x) \<in> set (enumerate n xs) \<Longrightarrow> size x < Suc (size_list size xs)"
  using size_list_estimation'[of x xs "size x" size]
  by (auto simp: in_set_enumerate_eq)

function (sequential) walk :: "jsval \<Rightarrow> string \<Rightarrow> objects \<Rightarrow> (declaration_error, snapshot) result"
  and walkKeyword :: "keyword \<Rightarrow> jsval \<Rightarrow> string \<Rightarrow> objects \<Rightarrow> (declaration_error, snapshot) result"
  and walkList :: "jsval \<Rightarrow> string \<Rightarrow> objects \<Rightarrow> (declaration_error, snapshot) result" where
  "walk (VBool b) path objects = Inr \<lparr>sn_schema = JBool b, sn_normal = JBool b, sn_bytes = False\<rparr>"
| "walk (VObj source) path objects =
     (let isBytes = (map_of source ''type'' = Some (VStr ''bytes''))
      in andThen
           (traverse (\<lambda>(key, v).
              andThen (keyword_of isBytes key path) (\<lambda>keyword.
              andThen (walkKeyword keyword v (dot path key) objects) (\<lambda>copy. Inr (key, keyword, copy))))
            (ownEntries source))
           (walk_node path objects isBytes))"
| "walk _ path objects = Inl (ExpectedSchema path)"
| "walkKeyword KSchema v path objects = walk v path objects"
| "walkKeyword KSchemas v path objects = walkList v path objects"
| "walkKeyword KItems v path objects =
     (case v of VArr _ \<Rightarrow> walkList v path objects | _ \<Rightarrow> walk v path objects)"
| "walkKeyword KSchemaMap (VObj source) path objects =
     andThen
       (traverse (\<lambda>(key, item).
          andThen (walk item (dot path key) objects) (\<lambda>copy. Inr (key, copy))) (ownEntries source))
       (\<lambda>entries. Inr (map_copy entries))"
| "walkKeyword KSchemaMap _ path objects = Inl (ExpectedSchemaMap path)"
| "walkKeyword KType v path objects = type_copy v path"
| "walkKeyword KRequired v path objects = required_copy v path"
| "walkKeyword KEnum v path objects = enum_copy v path"
| "walkKeyword KData v path objects = data_copy v path"
| "walkKeyword KAnnotation v path objects = data_copy v path"
| "walkList (VArr items) path objects =
     andThen
       (traverse (\<lambda>(index, item). walk item (at_index path index) objects) (enumerate 0 items))
       (\<lambda>copies. Inr (list_copy copies))"
| "walkList _ path objects = Inl (ExpectedSchemas path)"
  by pat_completeness auto
termination
  by (relation "measure (\<lambda>a. case a of
        Inl (v, _, _) \<Rightarrow> 3 * size v
      | Inr (Inl (_, v, _, _)) \<Rightarrow> 3 * size v + 2
      | Inr (Inr (v, _, _)) \<Rightarrow> 3 * size v + 1)")
     (auto dest!: size_ownEntries size_enumerate)

definition snapshotSchema :: "jsval \<Rightarrow> string \<Rightarrow> (declaration_error, snapshot) result" where
  "snapshotSchema source path = walk source path OpenObjects"

definition snapshotArguments :: "jsval \<Rightarrow> string \<Rightarrow> (declaration_error, snapshot) result" where
  "snapshotArguments source path = walk source path ClosedObjects"

subsection \<open>Fingerprints\<close>

text \<open>
  \<open>TextEncoder.encode\<close> of a string whose code units are below 256, and the two FNV-1a lanes:
  \<open>Math.imul\<close> is the product of 32-bit words.
\<close>

definition utf8_char :: "char \<Rightarrow> nat list" where
  "utf8_char c = (let n = of_char c in if n < 128 then [n] else [192 + n div 64, 128 + n mod 64])"

definition utf8 :: "string \<Rightarrow> nat list" where
  "utf8 s = concat (map utf8_char s)"

definition lane_step :: "32 word \<Rightarrow> 32 word \<Rightarrow> nat \<Rightarrow> 32 word" where
  "lane_step prime lane byte = (lane XOR of_nat byte) * prime"

fun show_hex :: "nat \<Rightarrow> string" where
  "show_hex n = (if n < 16 then [hex_digit n] else show_hex (n div 16) @ [hex_digit (n mod 16)])"

declare show_hex.simps [simp del]

definition padStart :: "nat \<Rightarrow> char \<Rightarrow> string \<Rightarrow> string" where
  "padStart n c s = replicate (n - length s) c @ s"

definition hex :: "32 word \<Rightarrow> string" where
  "hex lane = padStart 8 (CHR ''0'') (show_hex (unat lane))"

definition hash64 :: "string \<Rightarrow> string" where
  "hash64 text =
     (let low = foldl (lane_step 0x01000193) 0x811c9dc5 (utf8 text);
          high = foldl (lane_step 0x01000197) 0xcbf29ce4 (utf8 text)
      in hex high @ hex low)"

definition NORMAL_FORM_VERSION :: int where
  "NORMAL_FORM_VERSION = 2"

definition fingerprintOf :: "json \<Rightarrow> string" where
  "fingerprintOf normal =
     hash64 (stringify (JObj [(''normalFormVersion'', JNum NORMAL_FORM_VERSION), (''value'', normal)]))"

definition sortedDict :: "(string \<times> json) list \<Rightarrow> json" where
  "sortedDict entries = JObj (sort_key fst entries)"

subsection \<open>Params, names and keys\<close>

record params_data =
  p_fields :: "string list"
  p_schema :: json
  p_normal :: json

text \<open>\<open>node.anyOf\<close> and the other reads of a keyword: \<open>None\<close> is \<open>undefined\<close>.\<close>

fun json_field :: "json \<Rightarrow> string \<Rightarrow> json option" where
  "json_field (JObj kvs) key = map_of kvs key"
| "json_field _ key = None"

fun json_keys :: "json \<Rightarrow> string list" where
  "json_keys (JObj kvs) = map fst kvs"
| "json_keys _ = []"

definition isStringLiteral :: "json \<Rightarrow> bool" where
  "isStringLiteral node =
     (json_field node ''type'' = Some (JStr ''string'') \<and>
      (case json_field node ''const'' of Some (JStr _) \<Rightarrow> True | _ \<Rightarrow> False) \<and>
      length (json_keys node) = 2)"

definition PARAM_KEYWORDS :: "(string \<times> string list) list" where
  "PARAM_KEYWORDS =
    [(''string'', [''type'', ''minLength'', ''maxLength'', ''pattern'', ''format'']),
     (''integer'', [''type'', ''minimum'', ''maximum'', ''exclusiveMinimum'', ''exclusiveMaximum'', ''multipleOf'']),
     (''boolean'', [''type''])]"

definition isParamSchema :: "json \<Rightarrow> bool" where
  "isParamSchema node =
     (case json_field node ''anyOf'' of
        Some anyOf \<Rightarrow>
          length (json_keys node) = 1 \<and> (case anyOf of JArr bs \<Rightarrow> list_all isStringLiteral bs | _ \<Rightarrow> False)
      | None \<Rightarrow>
          (case (case json_field node ''type'' of Some (JStr t) \<Rightarrow> map_of PARAM_KEYWORDS t | _ \<Rightarrow> None) of
             None \<Rightarrow> False
           | Some allowed \<Rightarrow> list_all (\<lambda>key. key \<in> set allowed) (json_keys node)))"

definition isOptional :: "jsval \<Rightarrow> bool" where
  "isOptional v = (case v of VOptional _ \<Rightarrow> True | _ \<Rightarrow> False)"

definition read_param :: "string \<Rightarrow> string \<times> jsval \<Rightarrow> (declaration_error, string \<times> snapshot) result" where
  "read_param path = (\<lambda>(field, schema).
     (let fieldPath = dot path field
      in if isOptional schema then Inl (NotAParam fieldPath)
         else andThen (snapshotSchema schema fieldPath) (\<lambda>snapshot.
           if isParamSchema (sn_normal snapshot) then Inr (field, snapshot) else Inl (NotAParam fieldPath))))"

definition readParams :: "(string \<times> jsval) list \<Rightarrow> string \<Rightarrow> (declaration_error, params_data) result" where
  "readParams declared path =
     andThen (traverse (read_param path) declared) (\<lambda>fields.
       Inr \<lparr>p_fields = map fst fields,
            p_schema = JObj
              [(''type'', JStr ''object''),
               (''properties'', JObj (map (\<lambda>(field, snapshot). (field, sn_schema snapshot)) fields)),
               (''required'', JArr (map (\<lambda>(field, _). JStr field) fields)),
               (''additionalProperties'', JBool False)],
            p_normal = JArr (map (\<lambda>(field, snapshot). JArr [JStr field, sn_normal snapshot]) fields)\<rparr>)"

definition replaceAll :: "char \<Rightarrow> string \<Rightarrow> string \<Rightarrow> string" where
  "replaceAll c r s = concat (map (\<lambda>d. if d = c then r else [d]) s)"

definition escape_part :: "string \<Rightarrow> string" where
  "escape_part part =
     replaceAll (CHR ''|'') [CHR 0x5C, CHR ''|''] (replaceAll (CHR 0x5C) [CHR 0x5C, CHR 0x5C] part)"

definition joinKey :: "string list \<Rightarrow> string" where
  "joinKey parts = join ''|'' (map escape_part parts)"

text \<open>A checked param value and its \<open>String(value)\<close>; a field that is absent reads \<open>undefined\<close>.\<close>

datatype param_value = PStr string | PInt int | PBool bool

definition show_param :: "param_value option \<Rightarrow> string" where
  "show_param v =
     (case v of
        None \<Rightarrow> ''undefined''
      | Some (PStr s) \<Rightarrow> s
      | Some (PInt n) \<Rightarrow> show_int n
      | Some (PBool b) \<Rightarrow> (if b then ''true'' else ''false''))"

definition addressKey :: "string \<Rightarrow> params_data \<Rightarrow> (string \<rightharpoonup> param_value) \<Rightarrow> string" where
  "addressKey kind params values = joinKey (kind # map (\<lambda>field. show_param (values field)) (p_fields params))"

definition name_char :: "char \<Rightarrow> bool" where
  "name_char c =
     ((CHR ''a'' \<le> c \<and> c \<le> CHR ''z'') \<or> (CHR ''0'' \<le> c \<and> c \<le> CHR ''9'') \<or> c \<in> set ''@/._~-'')"

definition checkName :: "string \<Rightarrow> (declaration_error, unit) result" where
  "checkName name = ensure (name \<noteq> [] \<and> list_all name_char name) (BadName name)"

definition hostKind :: "string \<Rightarrow> (string \<times> jsval) list \<Rightarrow> (declaration_error, params_data) result" where
  "hostKind name params =
     andThen (checkName name) (\<lambda>_.
     andThen (ensure (name \<noteq> ''client'') ReservedClientKind) (\<lambda>_.
       readParams params (name @ ''.params'')))"

end
