(* ===== verification/Chord_Schema_Laws.thy ===== *)
theory Chord_Schema_Laws
  imports Chord_Schema "HOL-Library.Multiset"
begin

text \<open>
  What the snapshots, fingerprints and joined keys of \<open>Chord_Schema\<close> promise: a snapshot does not
  depend on the order of the keys of its source, Chord's own copy of a schema has the same
  snapshot, and joining is injective.
\<close>

subsection \<open>Joined keys\<close>

lemma escape_Nil [simp]: "escape_part [] = []"
  by (simp add: escape_part_def replaceAll_def)

lemma escape_Cons:
  "escape_part (c # cs) =
     (if c = CHR 0x5C \<or> c = CHR ''|'' then CHR 0x5C # c # escape_part cs else c # escape_part cs)"
  by (auto simp: escape_part_def replaceAll_def)

text \<open>An escaped part ends where the text ends or an unescaped bar begins.\<close>

definition part_end :: "string \<Rightarrow> bool" where
  "part_end r \<longleftrightarrow> r = [] \<or> hd r = CHR ''|''"

lemma part_end_simps [simp]: "part_end []" "part_end (c # r) \<longleftrightarrow> c = CHR ''|''"
  by (auto simp: part_end_def)

lemma escape_split:
  "escape_part a @ r = escape_part b @ s \<Longrightarrow> part_end r \<Longrightarrow> part_end s \<Longrightarrow> a = b \<and> r = s"
proof (induction a arbitrary: b)
  case Nil
  then show ?case by (cases b) (auto simp: escape_Cons split: if_splits)
next
  case (Cons c cs)
  show ?case
  proof (cases b)
    case Nil
    then show ?thesis using Cons.prems by (auto simp: escape_Cons split: if_splits)
  next
    case (Cons d ds)
    then show ?thesis using Cons.prems Cons.IH[of ds] by (auto simp: escape_Cons split: if_splits)
  qed
qed

lemma join_Cons: "join sep (x # xs) = x @ (if xs = [] then [] else sep @ join sep xs)"
  by (cases xs) auto

lemma joinKey_inj_parts: "joinKey (p # ps) = joinKey (q # qs) \<Longrightarrow> p # ps = q # qs"
proof (induction ps arbitrary: p q qs)
  case Nil
  then show ?case
    using escape_split[of p "[]" q "if qs = [] then [] else CHR ''|'' # join ''|'' (map escape_part qs)"]
    by (auto simp: joinKey_def join_Cons split: if_splits)
next
  case (Cons p' ps)
  have "p = q \<and> CHR ''|'' # join ''|'' (map escape_part (p' # ps)) =
      (if qs = [] then [] else CHR ''|'' # join ''|'' (map escape_part qs))"
    by (rule escape_split) (use Cons.prems in \<open>auto simp: joinKey_def join_Cons\<close>)
  then show ?case using Cons.IH[of p' "hd qs" "tl qs"] by (cases qs) (auto simp: joinKey_def)
qed

text \<open>
  The key of an address determines the host: two addresses with the same key are of the same
  kind and agree in the rendered value of every param, whatever characters the values have.
\<close>

theorem addressKey_injective:
  assumes "addressKey kind params values = addressKey kind' params' values'"
  shows "kind = kind' \<and>
    map (\<lambda>field. show_param (values field)) (p_fields params) =
    map (\<lambda>field. show_param (values' field)) (p_fields params')"
  using joinKey_inj_parts[OF assms[unfolded addressKey_def]] by simp

theorem addressKey_injective_witness:
  "''session'' = ''session'' \<and>
    map (\<lambda>field. show_param ([''id'' \<mapsto> PStr ''1'', ''of'' \<mapsto> PStr ''a|b''] field)) [''id'', ''of''] =
    map (\<lambda>field. show_param ([''id'' \<mapsto> PInt 1, ''of'' \<mapsto> PStr ''a|b''] field)) [''id'', ''of'']"
  using addressKey_injective[of "''session''" "\<lparr>p_fields = [''id'', ''of''], p_schema = JNull, p_normal = JNull\<rparr>"
      "[''id'' \<mapsto> PStr ''1'', ''of'' \<mapsto> PStr ''a|b'']" "''session''"
      "\<lparr>p_fields = [''id'', ''of''], p_schema = JNull, p_normal = JNull\<rparr>" "[''id'' \<mapsto> PInt 1, ''of'' \<mapsto> PStr ''a|b'']"]
  unfolding params_data.select_convs
  by (elim meta_mp) code_simp

subsection \<open>The order of keys\<close>

text \<open>Two values that differ in the order of the keys of their objects, at any level.\<close>

inductive reordered :: "jsval \<Rightarrow> jsval \<Rightarrow> bool" where
  same: "reordered v v"
| arr: "list_all2 reordered xs ys \<Longrightarrow> reordered (VArr xs) (VArr ys)"
| obj: "list_all2 (\<lambda>a b. fst a = fst b \<and> reordered (snd a) (snd b)) kvs kws \<Longrightarrow> mset kws = mset kxs \<Longrightarrow>
    reordered (VObj kvs) (VObj kxs)"

lemma sort_key_rel:
  fixes kvs :: "('a :: linorder \<times> 'b) list"
  assumes "list_all2 (\<lambda>a b. fst a = fst b \<and> R (snd a) (snd b)) kvs kws"
  shows "list_all2 (\<lambda>a b. fst a = fst b \<and> R (snd a) (snd b)) (sort_key fst kvs) (sort_key fst kws)"
proof -
  have ins: "list_all2 (\<lambda>a b. fst a = fst b \<and> R (snd a) (snd b)) (insort_key fst a kvs) (insort_key fst b kws)"
    if "list_all2 (\<lambda>a b. fst a = fst b \<and> R (snd a) (snd b)) kvs kws" "fst a = fst b" "R (snd a) (snd b)"
    for kvs :: "('a \<times> 'b) list" and kws a b
    using that by (induction rule: list_all2_induct) auto
  show ?thesis using assms by (induction rule: list_all2_induct) (auto intro: ins)
qed

lemma sort_key_perm:
  assumes "mset kws = mset kxs" and "distinct (map fst kws)"
  shows "sort_key fst kws = sort_key fst kxs"
proof (rule sort_key_inj_key_eq)
  show "inj_on fst (set kws)" using assms(2) by (simp add: distinct_map)
qed (simp_all add: assms(1))

lemma all2_keys: "list_all2 (\<lambda>a b. fst a = fst b \<and> R a b) kvs kws \<Longrightarrow> map fst kvs = map fst kws"
  by (induction rule: list_all2_induct) auto

text \<open>Reordered objects have the same entries in key order, and the same fields.\<close>

lemma reordered_objD:
  assumes "reordered (VObj kvs) w" and "distinct (map fst kvs)"
  obtains kxs where "w = VObj kxs"
    and "list_all2 (\<lambda>a b. fst a = fst b \<and> reordered (snd a) (snd b)) (ownEntries kvs) (ownEntries kxs)"
    and "rel_option reordered (map_of kvs k) (map_of kxs k)"
  using assms(1)
proof (cases rule: reordered.cases)
  case same
  have "rel_option reordered (map_of kvs k) (map_of kvs k)" by (simp add: option.rel_refl reordered.same)
  then show ?thesis using same by (intro that[of kvs]) (auto intro: list.rel_refl reordered.same)
next
  case (obj kws kxs)
  have d: "distinct (map fst kws)" using all2_keys[OF obj(2)] assms(2) by simp
  have "ownEntries kws = ownEntries kxs" unfolding ownEntries_def by (rule sort_key_perm[OF obj(3) d])
  moreover have "map_of kws k = map_of kxs k"
  proof -
    have "distinct (map fst kxs)" using d mset_eq_imp_distinct_iff[of "map fst kws" "map fst kxs"] obj(3) by simp
    then show ?thesis using map_of_inject_set[OF d] obj(3) by (metis set_mset_mset)
  qed
  moreover have "rel_option reordered (map_of kvs k) (map_of kws k)"
    using obj(2) by (induction rule: list_all2_induct) auto
  ultimately show ?thesis using obj(1) sort_key_rel[OF obj(2)] by (intro that[of kxs]) (auto simp: ownEntries_def)
qed

lemma reordered_arr_iff: "reordered (VArr xs) w \<longleftrightarrow> (\<exists>ys. w = VArr ys \<and> list_all2 reordered xs ys)"
  by (auto elim: reordered.cases intro: reordered.intros list.rel_refl)

lemma reordered_leaf:
  "reordered v w \<Longrightarrow> (\<forall>xs. v \<noteq> VArr xs) \<Longrightarrow> (\<forall>kvs. v \<noteq> VObj kvs) \<Longrightarrow> w = v"
  by (erule reordered.cases) auto

lemma wf_val_ownEntries: "wf_val (VObj kvs) \<Longrightarrow> (k, v) \<in> set (ownEntries kvs) \<Longrightarrow> wf_val v"
  by (force simp: ownEntries_def)

lemma wf_val_map_of: "wf_val (VObj kvs) \<Longrightarrow> map_of kvs k = Some v \<Longrightarrow> wf_val v"
  by (force dest: map_of_SomeD)

lemma reordered_copy:
  "reordered v w \<Longrightarrow> wf_val v \<Longrightarrow> isJsonValue w = isJsonValue v \<and> sortedCopy w = sortedCopy v"
proof (induction v arbitrary: w)
  case (VArr xs)
  obtain ys where ys: "w = VArr ys" "list_all2 reordered xs ys" using VArr.prems(1) by (auto simp: reordered_arr_iff)
  have "list_all2 (\<lambda>x y. isJsonValue y = isJsonValue x \<and> sortedCopy y = sortedCopy x) xs ys"
    using ys(2) VArr.IH VArr.prems(2) by (auto simp: list_all2_conv_all_nth)
  then have "(\<forall>y\<in>set ys. isJsonValue y) = (\<forall>x\<in>set xs. isJsonValue x) \<and> map sortedCopy ys = map sortedCopy xs"
    by (induction rule: list_all2_induct) auto
  then show ?case using ys(1) by simp
next
  case (VObj kvs)
  have d: "distinct (map fst kvs)" using VObj.prems(2) by simp
  obtain kxs where kxs: "w = VObj kxs"
    "list_all2 (\<lambda>a b. fst a = fst b \<and> reordered (snd a) (snd b)) (ownEntries kvs) (ownEntries kxs)"
    using reordered_objD[OF VObj.prems(1) d] by blast
  let ?f = "\<lambda>kv. (fst kv, sortedCopy (snd kv))"
  have "list_all2 (\<lambda>a b. isJsonValue (snd b) = isJsonValue (snd a) \<and> ?f b = ?f a) (ownEntries kvs) (ownEntries kxs)"
  proof (rule list.rel_mono_strong[OF kxs(2)])
    fix a b
    assume a: "a \<in> set (ownEntries kvs)" and r: "fst a = fst b \<and> reordered (snd a) (snd b)"
    obtain k x y where xy: "a = (k, x)" "b = (k, y)" "reordered x y" using r by (cases a; cases b) auto
    have "(k, x) \<in> set kvs" using a xy(1) by (simp add: ownEntries_def)
    then show "isJsonValue (snd b) = isJsonValue (snd a) \<and> ?f b = ?f a"
      using VObj.IH[of "(k, x)" x y] xy VObj.prems(2) by (auto simp: snds.simps)
  qed
  then have "(\<forall>b\<in>set (ownEntries kxs). isJsonValue (snd b)) = (\<forall>a\<in>set (ownEntries kvs). isJsonValue (snd a)) \<and>
      map ?f (ownEntries kxs) = map ?f (ownEntries kvs)"
    by (induction rule: list_all2_induct) auto
  moreover have "sort_key fst (map ?f es) = map ?f (ownEntries es)" for es :: "(string \<times> jsval) list"
  proof -
    have ins: "map ?f (insort_key fst e es) = insort_key fst (?f e) (map ?f es)" for e es by (induction es) auto
    show ?thesis
    proof (induction es)
      case (Cons e es)
      then show ?case by (simp add: ins ownEntries_def)
    qed (simp add: ownEntries_def)
  qed
  ultimately show ?case using kxs(1) by (simp add: ownEntries_def)
qed (auto dest!: reordered_leaf)

lemma reordered_type:
  "reordered (VObj kvs) (VObj kxs) \<Longrightarrow> distinct (map fst kvs) \<Longrightarrow>
   (map_of kxs k = Some (VStr s)) = (map_of kvs k = Some (VStr s))"
proof -
  assume r: "reordered (VObj kvs) (VObj kxs)" "distinct (map fst kvs)"
  have "rel_option reordered (map_of kvs k) (map_of kxs k)"
    using reordered_objD[OF r] by (metis jsval.inject(5))
  then show ?thesis
    by (cases "map_of kvs k"; cases "map_of kxs k") (auto elim: reordered.cases intro: reordered.same)
qed

lemma strings_of_reordered: "list_all2 reordered vs ws \<Longrightarrow> strings_of ws = strings_of vs"
proof (induction rule: list_all2_induct)
  case (Cons v vs w ws)
  show ?case
  proof (cases v)
    case (VArr xs)
    then show ?thesis using Cons(1) by (auto simp: reordered_arr_iff)
  next
    case (VObj kvs)
    then show ?thesis using Cons(1) by (auto elim: reordered.cases)
  qed (use Cons(1,3) in \<open>auto dest: reordered_leaf\<close>)
qed simp

text \<open>A result without the one text of a message that depends on the order of keys.\<close>

definition textless :: "(declaration_error, 'a) result \<Rightarrow> (declaration_error, 'a) result" where
  "textless r = (case r of Inl (UnsupportedType path v) \<Rightarrow> Inl (UnsupportedType path VNull) | _ \<Rightarrow> r)"

lemma textless_Inr [simp]: "textless (Inr x) = Inr x"
  by (simp add: textless_def)

lemma textless_andThen: "textless (andThen r f) = andThen (textless r) (\<lambda>x. textless (f x))"
  by (cases r) (auto simp: textless_def split: declaration_error.split)

lemma textless_traverse: "textless (traverse f xs) = traverse (\<lambda>x. textless (f x)) xs"
  by (induction xs) (simp_all add: textless_andThen)

lemma reordered_leaf_copies:
  assumes "reordered v w" and "wf_val v"
  shows "data_copy w p = data_copy v p" and "textless (type_copy w p) = textless (type_copy v p)"
    and "required_copy w p = required_copy v p" and "enum_copy w p = enum_copy v p"
proof -
  show d: "data_copy w p = data_copy v p" using reordered_copy[OF assms] by (simp add: data_copy_def)
  then show "enum_copy w p = enum_copy v p" by (simp add: enum_copy_def)
  show "textless (type_copy w p) = textless (type_copy v p)"
    using assms(1) by (cases rule: reordered.cases) (auto simp: type_copy_def textless_def)
  show "required_copy w p = required_copy v p"
    using assms(1) by (cases rule: reordered.cases) (auto simp: required_copy_def strings_of_reordered)
qed

lemma walk_VObj_I:
  assumes "reordered (VObj kvs) w" and "wf_val (VObj kvs)"
    and "\<And>k v v'. (k, v) \<in> set (ownEntries kvs) \<Longrightarrow> reordered v v' \<Longrightarrow> f (k, v') = g (k, v)"
  obtains kxs where "w = VObj kxs" and "traverse f (ownEntries kxs) = traverse g (ownEntries kvs)"
proof -
  have d: "distinct (map fst kvs)" using assms(2) by simp
  obtain kxs where kxs: "w = VObj kxs"
    "list_all2 (\<lambda>a b. fst a = fst b \<and> reordered (snd a) (snd b)) (ownEntries kvs) (ownEntries kxs)"
    using reordered_objD[OF assms(1) d] by blast
  have "list_all2 (\<lambda>a b. g a = f b) (ownEntries kvs) (ownEntries kxs)"
  proof (rule list.rel_mono_strong[OF kxs(2)])
    fix a b
    assume "a \<in> set (ownEntries kvs)" "fst a = fst b \<and> reordered (snd a) (snd b)"
    then show "g a = f b" using assms(3)[of "fst a" "snd a" "snd b"] by (cases a; cases b) auto
  qed
  then have "traverse f (ownEntries kxs) = traverse g (ownEntries kvs)" by (simp add: traverse_rel)
  then show ?thesis using that kxs(1) by blast
qed

lemma enumerate_rel: "list_all2 R xs ys \<Longrightarrow>
  list_all2 (\<lambda>a b. fst a = fst b \<and> R (snd a) (snd b)) (enumerate n xs) (enumerate n ys)"
  by (induction arbitrary: n rule: list_all2_induct) auto

lemma walk_reordered:
  "wf_val v \<Longrightarrow> reordered v w \<Longrightarrow> textless (walk w path objects) = textless (walk v path objects)"
  "wf_val v \<Longrightarrow> reordered v w \<Longrightarrow> textless (walkKeyword kw v path objects) = textless (walkKeyword kw w path objects)"
  "wf_val v \<Longrightarrow> reordered v w \<Longrightarrow> textless (walkList w path objects) = textless (walkList v path objects)"
proof (induction v path objects and kw v path objects and v path objects arbitrary: w and w and w
    rule: walk_walkKeyword_walkList.induct)
  case (2 source path objects)
  let ?b = "map_of source ''type'' = Some (VStr ''bytes'')"
  let ?f = "\<lambda>(key, v). andThen (keyword_of ?b key path) (\<lambda>keyword.
      andThen (walkKeyword keyword v (dot path key) objects) (\<lambda>copy. Inr (key, keyword, copy)))"
  let ?g = "\<lambda>kv. textless (?f kv)"
  have eq: "?g (k, v') = ?g (k, v)" if "(k, v) \<in> set (ownEntries source)" "reordered v v'" for k v v'
  proof (cases "keyword_of ?b k path")
    case (Inr kw)
    have "textless (walkKeyword kw v (dot path k) objects) = textless (walkKeyword kw v' (dot path k) objects)"
      using 2(1)[OF refl that(1) refl Inr wf_val_ownEntries[OF 2(2) that(1)] that(2)] .
    then show ?thesis using Inr by (simp add: textless_andThen)
  qed simp
  obtain kxs where kxs: "w = VObj kxs" "traverse ?g (ownEntries kxs) = traverse ?g (ownEntries source)"
    using walk_VObj_I[where f = ?g and g = ?g, OF 2(3,2) eq] by blast
  have "(map_of kxs ''type'' = Some (VStr ''bytes'')) = ?b"
    using reordered_type[of source kxs] 2(2,3) kxs(1) by simp
  then show ?case using kxs by (simp add: Let_def textless_andThen textless_traverse)
next
  case (7 source path objects)
  let ?f = "\<lambda>(key, item). andThen (walk item (dot path key) objects) (\<lambda>copy. Inr (key, copy))"
  let ?g = "\<lambda>kv. textless (?f kv)"
  have eq: "?g (k, v') = ?g (k, v)" if "(k, v) \<in> set (ownEntries source)" "reordered v v'" for k v v'
    using 7(1)[OF that(1) refl wf_val_ownEntries[OF 7(2) that(1)] that(2)] by (simp add: textless_andThen)
  obtain kxs where "w = VObj kxs" "traverse ?g (ownEntries kxs) = traverse ?g (ownEntries source)"
    using walk_VObj_I[where f = ?g and g = ?g, OF 7(3,2) eq] by blast
  then show ?case by (simp add: textless_andThen textless_traverse)
next
  case (14 items path objects)
  obtain ys where ys: "w = VArr ys" "list_all2 reordered items ys" using 14(3) by (auto simp: reordered_arr_iff)
  let ?g = "\<lambda>(i, x). textless (walk x (at_index path i) objects)"
  have "list_all2 (\<lambda>a b. ?g a = ?g b) (enumerate 0 items) (enumerate 0 ys)"
  proof (rule list.rel_mono_strong[OF enumerate_rel[OF ys(2)]])
    fix a b
    assume a: "a \<in> set (enumerate 0 items)" and r: "fst a = fst b \<and> reordered (snd a) (snd b)"
    obtain i x y where xy: "a = (i, x)" "b = (i, y)" "reordered x y" using r by (cases a; cases b) auto
    have "wf_val x" using a 14(2) xy(1) by (auto simp: in_set_enumerate_eq)
    then have "textless (walk y (at_index path i) objects) = textless (walk x (at_index path i) objects)"
      using 14(1)[of "(i, x)" i x y] a xy by simp
    then show "?g a = ?g b" using xy by simp
  qed
  then have "traverse ?g (enumerate 0 items) = traverse ?g (enumerate 0 ys)" by (simp add: traverse_rel)
  then show ?case using ys(1) by (simp add: textless_andThen textless_traverse case_prod_unfold)
next
  case (6 v path objects)
  show ?case
  proof (cases "\<exists>xs. v = VArr xs")
    case True
    then obtain xs where v: "v = VArr xs" by blast
    then obtain ys where w: "w = VArr ys" using "6.prems"(2) by (auto simp: reordered_arr_iff)
    have "textless (walkList w path objects) = textless (walkList v path objects)"
      using "6.IH" "6.prems" v by (simp del: walkList.simps)
    then show ?thesis using v w by (simp del: walkList.simps)
  next
    case False
    then have "\<nexists>xs. w = VArr xs" using "6.prems"(2) by (auto elim: reordered.cases)
    moreover have "textless (walk w path objects) = textless (walk v path objects)"
      using False "6.IH" "6.prems" by (cases v) simp_all
    ultimately show ?thesis using False by (cases v; cases w) simp_all
  qed
qed (auto simp: reordered_leaf_copies reordered_arr_iff dest: reordered_leaf elim: reordered.cases)

text \<open>
  C40. A snapshot, and so the fingerprint of a contract, does not depend on the order in which an
  app writes the keys of a schema, at any depth: reordered sources give the same snapshot, or an error of the same
  kind at the same path. Only the message of an unsupported type, which has the JSON text of the value, can differ.
\<close>

theorem snapshot_ignores_key_order:
  assumes "reordered source source'" and "wf_val source"
  shows "textless (snapshotSchema source' path) = textless (snapshotSchema source path) \<and>
    textless (snapshotArguments source' path) = textless (snapshotArguments source path)"
  using walk_reordered(1)[OF assms(2,1)] by (simp add: snapshotSchema_def snapshotArguments_def)

theorem snapshot_ignores_key_order_witness:
  "textless (snapshotSchema (VObj [(''type'', VStr ''string''), (''maxLength'', VNum 5)]) ''p'') =
     textless (snapshotSchema (VObj [(''maxLength'', VNum 5), (''type'', VStr ''string'')]) ''p'') \<and>
   textless (snapshotArguments (VObj [(''type'', VStr ''string''), (''maxLength'', VNum 5)]) ''p'') =
     textless (snapshotArguments (VObj [(''maxLength'', VNum 5), (''type'', VStr ''string'')]) ''p'')"
proof (rule snapshot_ignores_key_order)
  show "reordered (VObj [(''maxLength'', VNum 5), (''type'', VStr ''string'')])
      (VObj [(''type'', VStr ''string''), (''maxLength'', VNum 5)])"
    by (rule reordered.obj[where kws = "[(''maxLength'', VNum 5), (''type'', VStr ''string'')]"])
      (auto intro: reordered.same)
qed simp

subsection \<open>Snapshots of Chord's own copies\<close>

text \<open>A JSON value as what an application could hand in.\<close>

fun value_of :: "json \<Rightarrow> jsval" where
  "value_of JNull = VNull"
| "value_of (JBool b) = VBool b"
| "value_of (JNum n) = VNum n"
| "value_of (JStr s) = VStr s"
| "value_of (JArr xs) = VArr (map value_of xs)"
| "value_of (JObj kvs) = VObj (map (\<lambda>kv. (fst kv, value_of (snd kv))) kvs)"

lemma isJsonValue_value_of [simp]: "isJsonValue (value_of j)"
  by (induction j) auto

lemma sorted_sort_key: "sorted (map f xs) \<Longrightarrow> sort_key f xs = xs"
  by (induction xs) (auto simp: insort_is_Cons)

text \<open>Every value that a copy holds is its own copy.\<close>

fun sorted_json :: "json \<Rightarrow> bool" where
  "sorted_json (JArr xs) = (\<forall>x\<in>set xs. sorted_json x)"
| "sorted_json (JObj kvs) = (sorted (map fst kvs) \<and> (\<forall>kv\<in>set kvs. sorted_json (snd kv)))"
| "sorted_json _ = True"

lemma sorted_json_sortedCopy: "sorted_json (sortedCopy v)"
  by (induction v) (auto simp: sorted_sort_key)

lemma sortedCopy_value_of: "sorted_json j \<Longrightarrow> sortedCopy (value_of j) = j"
proof (induction j)
  case (JObj kvs)
  have "map (\<lambda>kv. (fst kv, sortedCopy (value_of (snd kv)))) kvs = kvs"
    using JObj by (intro map_idI) (auto simp: prod_eq_iff)
  then show ?case using JObj.prems by (simp add: comp_def sorted_sort_key)
qed (auto intro: map_idI)

lemma data_copy_fixed: "data_copy v p = Inr s \<Longrightarrow> data_copy (value_of (sn_schema s)) q = Inr s"
  by (auto simp: data_copy_def sortedCopy_value_of sorted_json_sortedCopy split: if_splits)

lemma type_copy_fixed: "type_copy v p = Inr s \<Longrightarrow> type_copy (value_of (sn_schema s)) q = Inr s"
  by (auto simp: type_copy_def split: jsval.splits if_splits)

lemma strings_of_map [simp]: "strings_of (map VStr ss) = Some ss"
  by (induction ss) auto

lemma required_copy_fixed: "required_copy v p = Inr s \<Longrightarrow> required_copy (value_of (sn_schema s)) q = Inr s"
  by (auto simp: required_copy_def Let_def comp_def sorted_sort_id split: option.splits)

lemma enum_copy_fixed: "enum_copy v p = Inr s \<Longrightarrow> enum_copy (value_of (sn_schema s)) q = Inr s"
proof -
  assume s: "enum_copy v p = Inr s"
  then obtain vs where v: "sortedCopy v = JArr vs"
    and s': "s = \<lparr>sn_schema = JArr (sort_key stringify vs), sn_normal = JArr (sort_key stringify vs),
      sn_bytes = False\<rparr>"
    by (auto simp: enum_copy_def data_copy_def Let_def split: if_splits json.splits)
  have "sorted_json (JArr vs)" using sorted_json_sortedCopy[of v] v by simp
  then have "sortedCopy (value_of (JArr (sort_key stringify vs))) = JArr (sort_key stringify vs)"
    by (intro sortedCopy_value_of) simp
  moreover have "isJsonValue (value_of (JArr (sort_key stringify vs)))" by (rule isJsonValue_value_of)
  ultimately show ?thesis
    by (simp add: enum_copy_def data_copy_def s' sorted_sort_key Let_def)
qed

lemma keyword_of_path: "keyword_of b k p = Inr kw \<Longrightarrow> keyword_of b k q = Inr kw"
  by (auto simp: keyword_of_def split: option.splits if_splits)

lemma keyword_of_type: "keyword_of b ''type'' p = Inr KType"
  by (simp add: keyword_of_def KEYWORDS_def KEYWORD_GROUPS_def BYTES_KEYWORDS_def)

lemma walk_node_path: "walk_node p objects b copies = Inr s \<Longrightarrow> walk_node q objects b copies = Inr s"
  by (auto simp: walk_node_def checkBytesBounds_def Let_def andThen_eq_Inr ensure_eq_Inr split: if_splits)

lemma walk_node_schema:
  "walk_node p objects b copies = Inr s \<Longrightarrow> sn_schema s = JObj (map (\<lambda>(key, _, copy). (key, sn_schema copy)) copies)"
  by (auto simp: walk_node_def Let_def andThen_eq_Inr split: if_splits)

lemma type_copy_schema: "type_copy v p = Inr s \<Longrightarrow> value_of (sn_schema s) = v"
  by (auto simp: type_copy_def split: jsval.splits if_splits)

lemma map_of_ownEntries: "distinct (map fst kvs) \<Longrightarrow> map_of (ownEntries kvs) = map_of kvs"
  unfolding ownEntries_def
  by (rule map_of_inject_set[THEN iffD2]) (simp_all add: distinct_map)

text \<open>A source made of the copies of sorted entries is its own list of sorted entries.\<close>

lemma ownEntries_copies:
  "map fst es = map fst (ownEntries kvs) \<Longrightarrow> ownEntries es = es"
  unfolding ownEntries_def by (rule sorted_sort_key) simp

lemma walk_fixed:
  "walk v path objects = Inr s \<Longrightarrow> wf_val v \<Longrightarrow> walk (value_of (sn_schema s)) q objects = Inr s"
  "walkKeyword kw v path objects = Inr s \<Longrightarrow> wf_val v \<Longrightarrow>
   walkKeyword kw (value_of (sn_schema s)) q objects = Inr s"
  "walkList v path objects = Inr s \<Longrightarrow> wf_val v \<Longrightarrow> walkList (value_of (sn_schema s)) q objects = Inr s"
proof (induction v path objects and kw v path objects and v path objects arbitrary: s q and s q and s q
    rule: walk_walkKeyword_walkList.induct)
  case (2 source path objects)
  define b where "b = (map_of source ''type'' = Some (VStr ''bytes''))"
  define R where "R = (\<lambda>(k, v) (k', kw, c). k' = (k :: string) \<and> keyword_of b k path = Inr kw \<and>
      walkKeyword kw v (dot path k) objects = Inr c)"
  obtain copies where cs: "list_all2 R (ownEntries source) copies" and node: "walk_node path objects b copies = Inr s"
  proof -
    have eq: "(\<lambda>x y. (case x of (key, v) \<Rightarrow> andThen (keyword_of b key path) (\<lambda>keyword.
        andThen (walkKeyword keyword v (dot path key) objects) (\<lambda>copy. Inr (key, keyword, copy)))) = Inr y) = R"
      by (auto simp: R_def fun_eq_iff andThen_eq_Inr)
    show ?thesis using 2(2) that unfolding walk.simps Let_def andThen_eq_Inr traverse_eq_Inr b_def[symmetric] eq by blast
  qed
  define src where "src = map (\<lambda>(k, _, c). (k, value_of (sn_schema c))) copies"
  have val: "value_of (sn_schema s) = VObj src"
    by (simp add: walk_node_schema[OF node] src_def comp_def case_prod_unfold)
  have "list_all2 (\<lambda>e c. fst c = fst e) (ownEntries source) copies"
    using cs by (rule list_all2_mono) (auto simp: R_def)
  then have "map fst copies = map fst (ownEntries source)" by (induction rule: list_all2_induct) auto
  then have keys: "map fst src = map fst (ownEntries source)" by (simp add: src_def comp_def case_prod_unfold)
  have again: "walkKeyword kw (value_of (sn_schema c)) (dot q k) objects = Inr c"
    if "R (k', v) (k, kw, c)" "(k', v) \<in> set (ownEntries source)" for k' v k kw c
  proof -
    have r: "k' = k" "keyword_of b k path = Inr kw" "walkKeyword kw v (dot path k) objects = Inr c"
      using that(1) by (auto simp: R_def)
    show ?thesis
      using 2(1)[OF b_def that(2)[unfolded r(1)] refl r(2) r(3) wf_val_ownEntries[OF 2(3) that(2)]] .
  qed
  have "list_all2 (\<lambda>e c. (fst e = ''type'' \<longrightarrow> value_of (sn_schema (snd (snd c))) = snd e) \<and> fst c = fst e)
      (ownEntries source) copies"
    using cs by (rule list_all2_mono) (auto simp: R_def keyword_of_type dest: type_copy_schema)
  then have "map_of src ''type'' = map_of (ownEntries source) ''type''"
    unfolding src_def by (induction rule: list_all2_induct) auto
  then have b: "(map_of src ''type'' = Some (VStr ''bytes'')) = b"
    using 2(3) by (simp add: b_def map_of_ownEntries)
  let ?f = "\<lambda>(key, v). andThen (keyword_of b key q) (\<lambda>keyword.
        andThen (walkKeyword keyword v (dot q key) objects) (\<lambda>copy. Inr (key, keyword, copy)))"
  have "?f (case c of (k, _, c) \<Rightarrow> (k, value_of (sn_schema c))) = Inr c" if mem: "c \<in> set copies" for c
  proof -
    obtain k kw c' where c: "c = (k, kw, c')" by (cases c)
    obtain k' v where e: "(k', v) \<in> set (ownEntries source)" "R (k', v) c"
      using list_all2_rightD[OF cs mem] by auto
    have "keyword_of b k q = Inr kw" using e(2) by (auto simp: R_def c intro: keyword_of_path)
    then show ?thesis using again[OF e(2)[unfolded c] e(1)] by (simp add: c)
  qed
  then have "traverse ?f src = Inr copies"
    unfolding traverse_eq_Inr src_def list_all2_map1 by (auto intro: list.rel_refl_strong)
  then show ?case
    using walk_node_path[OF node] by (simp add: val ownEntries_copies[OF keys] b Let_def)
next
  case (7 source path objects)
  define R where "R = (\<lambda>(k, v) (k', c). k' = (k :: string) \<and> walk v (dot path k) objects = Inr c)"
  obtain es where cs: "list_all2 R (ownEntries source) es" and s: "s = map_copy es"
  proof -
    have eq: "(\<lambda>x y. (case x of (key, item) \<Rightarrow>
        andThen (walk item (dot path key) objects) (\<lambda>copy. Inr (key, copy))) = Inr y) = R"
      by (auto simp: R_def fun_eq_iff andThen_eq_Inr)
    show ?thesis using 7(2) that unfolding walkKeyword.simps andThen_eq_Inr traverse_eq_Inr eq by blast
  qed
  define src where "src = map (\<lambda>(k, c). (k, value_of (sn_schema c))) es"
  have val: "value_of (sn_schema s) = VObj src"
    by (simp add: s map_copy_def src_def comp_def case_prod_unfold)
  have "list_all2 (\<lambda>e c. fst c = fst e) (ownEntries source) es"
    using cs by (rule list_all2_mono) (auto simp: R_def)
  then have "map fst es = map fst (ownEntries source)" by (induction rule: list_all2_induct) auto
  then have keys: "map fst src = map fst (ownEntries source)" by (simp add: src_def comp_def case_prod_unfold)
  let ?f = "\<lambda>(key, item). andThen (walk item (dot q key) objects) (\<lambda>copy. Inr (key, copy))"
  have "?f (case c of (k, c) \<Rightarrow> (k, value_of (sn_schema c))) = Inr c" if mem: "c \<in> set es" for c
  proof -
    obtain k c' where c: "c = (k, c')" by (cases c)
    obtain k' v where e: "(k', v) \<in> set (ownEntries source)" "R (k', v) c"
      using list_all2_rightD[OF cs mem] by auto
    have "k' = k" "walk v (dot path k) objects = Inr c'" using e(2) by (auto simp: R_def c)
    then show ?thesis using 7(1)[OF e(1) refl _ wf_val_ownEntries[OF 7(3) e(1)]] by (simp add: c)
  qed
  then have "traverse ?f src = Inr es"
    unfolding traverse_eq_Inr src_def list_all2_map1 by (auto intro: list.rel_refl_strong)
  then show ?case by (simp add: val[unfolded s] ownEntries_copies[OF keys] s)
next
  case (14 items path objects)
  obtain cs where cs: "list_all2 (\<lambda>a c. (case a of (i, x) \<Rightarrow> walk x (at_index path i) objects) = Inr c) (enumerate 0 items) cs"
    and s: "s = list_copy cs"
    using 14(2) by (auto simp: andThen_eq_Inr traverse_eq_Inr)
  have "walk (value_of (sn_schema c)) r objects = Inr c" if mem: "c \<in> set cs" for c r
  proof -
    obtain i x where e: "(i, x) \<in> set (enumerate 0 items)" "walk x (at_index path i) objects = Inr c"
      using list_all2_rightD[OF cs mem] by auto
    have "wf_val x" using e(1) 14(3) by (auto simp: in_set_enumerate_eq)
    then show ?thesis using 14(1)[OF e(1) refl e(2)] by blast
  qed
  then have "list_all2 (\<lambda>a c. (case a of (i, x) \<Rightarrow> walk x (at_index q i) objects) = Inr c)
      (enumerate 0 (map (\<lambda>c. value_of (sn_schema c)) cs)) cs"
    by (auto simp: list_all2_conv_all_nth nth_enumerate_eq)
  then show ?case by (simp add: s list_copy_def comp_def traverse_eq_Inr[THEN iffD2])
next
  case (1 b path objects)
  then show ?case by auto
next
  case (6 v path objects)
  show ?case
  proof (cases "\<exists>xs. v = VArr xs")
    case True
    then obtain xs where v: "v = VArr xs" by blast
    have w: "walkList v path objects = Inr s" using "6.prems"(1) v by (simp del: walkList.simps)
    obtain js where "sn_schema s = JArr js" using w v by (auto simp: andThen_eq_Inr list_copy_def)
    then show ?thesis using "6.IH"(7)[OF v w "6.prems"(2), of q] v by (simp del: walkList.simps)
  next
    case False
    then have w: "walk v path objects = Inr s"
      using "6.prems"(1) by (cases v) (simp_all del: walk.simps walkList.simps)
    have "walk (value_of (sn_schema s)) q objects = Inr s"
      using False "6.IH" w "6.prems"(2) by (cases v) (simp_all del: walk.simps walkList.simps)
    moreover have "\<nexists>xs. value_of (sn_schema s) = VArr xs" using calculation by auto
    ultimately show ?thesis
      by (cases "value_of (sn_schema s)") (simp_all del: walk.simps walkList.simps)
  qed
qed (simp_all add: data_copy_fixed type_copy_fixed required_copy_fixed enum_copy_fixed)

text \<open>
  Chord's copy of a schema stands for the schema: handing the copy of a snapshot back to a
  declaration gives the same snapshot, for state and for arguments, so a contract rebuilt from its
  stored schemas keeps its fingerprint.
\<close>

theorem snapshot_of_own_copy:
  assumes "wf_val source"
  shows "(snapshotSchema source path = Inr s \<longrightarrow> snapshotSchema (value_of (sn_schema s)) path' = Inr s) \<and>
    (snapshotArguments source path = Inr s \<longrightarrow> snapshotArguments (value_of (sn_schema s)) path' = Inr s)"
  using walk_fixed(1)[OF _ assms] by (simp add: snapshotSchema_def snapshotArguments_def)

definition sample_schema :: jsval where
  "sample_schema = VObj [(''type'', VStr ''object''), (''title'', VStr ''n''),
     (''properties'', VObj [(''b'', VObj [(''enum'', VArr [VNum 2, VNum 1])]), (''a'', VBool True)]),
     (''required'', VArr [VStr ''b'', VStr ''a'']), (''additionalProperties'', VBool False)]"

definition sample_snapshot :: snapshot where
  "sample_snapshot =
     (let fields = [(''additionalProperties'', JBool False),
        (''properties'', JObj [(''a'', JBool True), (''b'', JObj [(''enum'', JArr [JNum 1, JNum 2])])]),
        (''required'', JArr [JStr ''a'', JStr ''b''])]
      in \<lparr>sn_schema = JObj (fields @ [(''title'', JStr ''n''), (''type'', JStr ''object'')]),
          sn_normal = JObj (fields @ [(''type'', JStr ''object'')]), sn_bytes = False\<rparr>)"

lemma sample_schema_snapshot:
  "snapshotSchema sample_schema ''p'' = Inr sample_snapshot"
  "snapshotArguments sample_schema ''p'' = Inr sample_snapshot"
  by code_simp+

theorem snapshot_of_own_copy_witness:
  "snapshotSchema (value_of (sn_schema sample_snapshot)) ''q'' = Inr sample_snapshot \<and>
   snapshotArguments (value_of (sn_schema sample_snapshot)) ''q'' = Inr sample_snapshot"
proof -
  have wf: "wf_val sample_schema" by (simp add: sample_schema_def)
  show ?thesis
    using snapshot_of_own_copy[OF wf, of "''p''" sample_snapshot "''q''"] sample_schema_snapshot by blast
qed

subsection \<open>Fingerprints\<close>

lemma length_show_hex: "n < 16 ^ k \<Longrightarrow> 0 < k \<Longrightarrow> length (show_hex n) \<le> k"
proof (induction n arbitrary: k rule: show_hex.induct)
  case (1 n)
  show ?case
  proof (cases "n < 16")
    case True
    then show ?thesis using 1 by (simp add: show_hex.simps[of n])
  next
    case False
    then obtain m where m: "k = Suc m" "0 < m" using "1.prems" by (cases k; cases "k - 1") auto
    then have "n div 16 < 16 ^ m" using "1.prems"(1) by (simp add: less_mult_imp_div_less mult.commute)
    then show ?thesis using 1 False m by (simp add: show_hex.simps[of n])
  qed
qed

lemma length_hex: "length (hex w) = 8"
proof -
  have "unat w < 16 ^ 8" using unsigned_less[of w] by simp
  then have "length (show_hex (unat w)) \<le> 8" by (rule length_show_hex) simp
  then show ?thesis by (simp add: hex_def padStart_def)
qed

text \<open>C1. A fingerprint has 16 characters whatever the contract.\<close>

theorem fingerprintOf_length: "length (fingerprintOf normal) = 16"
  by (simp add: fingerprintOf_def hash64_def Let_def length_hex)

end
