(* ===== verification/Chord_Contract.thy ===== *)
theory Chord_Contract
  imports Chord_Schema_Laws
begin

text \<open>
  Contracts (\<open>packages/chord/src/contracts\<close>: \<open>contract.ts\<close>, \<open>history.ts\<close>, \<open>declare.ts\<close> and
  \<open>materialize\<close> of \<open>fingerprint.ts\<close>): the data behind a handle and the declarations \<open>remote\<close> and
  \<open>local\<close>. A \<open>Map\<close> is the association list of its entries in insertion order. A handle is its
  data; the brand that refuses hand-built copies (a \<open>WeakMap\<close>) is not modelled.
\<close>

datatype kind = Remote | Local

definition LOCAL :: string where
  "LOCAL = ''members''"

datatype member_kind = MState | MMethod | MKeyed

datatype side = SideState | SideArgs | SideResult | SideKeyed

type_synonym change = "string \<times> string \<times> side"

record method_data =
  md_args :: snapshot
  md_result :: snapshot

record variant_data =
  vd_state :: "(string \<times> snapshot) list"
  vd_methods :: "(string \<times> method_data) list"
  vd_keyed :: "(string \<times> snapshot) list"

type_synonym variants = "(string \<times> variant_data) list"

record version_data =
  ver_version :: int
  ver_fingerprint :: string
  ver_variants :: variants
  ver_changes :: "change list"

record contract_data =
  ct_kind :: kind
  ct_name :: string
  ct_params :: params_data
  ct_hostAddress :: "jsval option"
  ct_versions :: "version_data list"
  ct_kinds :: "(string \<times> member_kind) list"

text \<open>What a handle shows, and the readers of \<open>contract.ts\<close>.\<close>

definition createContract :: "contract_data \<Rightarrow> kind \<times> string \<times> int \<times> string" where
  "createContract data =
     (let current = last (ct_versions data)
      in (ct_kind data, ct_name data, ver_version current, ver_fingerprint current))"

definition currentVariants :: "contract_data \<Rightarrow> variants" where
  "currentVariants data = ver_variants (last (ct_versions data))"

definition variantsAt :: "contract_data \<Rightarrow> int \<Rightarrow> variants option" where
  "variantsAt data version = map_option ver_variants (find (\<lambda>v. ver_version v = version) (ct_versions data))"

definition variantOrder :: "contract_data \<Rightarrow> string list" where
  "variantOrder data = sort (map fst (currentVariants data))"

definition variantNames :: "variant_data \<Rightarrow> string list \<times> string list" where
  "variantNames variant = (sort (map fst (vd_state variant)), sort (map fst (vd_methods variant)))"

definition takesNoArgs :: "method_data \<Rightarrow> bool" where
  "takesNoArgs m =
     (let normal = sn_normal (md_args m)
      in json_field normal ''type'' = Some (JStr ''null'') \<and> length (json_keys normal) = 1)"

subsection \<open>Fingerprint of a version\<close>

definition variantNormal :: "variant_data \<Rightarrow> json" where
  "variantNormal variant =
     sortedDict
       (map (\<lambda>(member, schema). (member, JObj [(''state'', sn_normal schema)])) (vd_state variant) @
        map (\<lambda>(member, schema). (member, JObj [(''keyed'', sn_normal schema)])) (vd_keyed variant) @
        map (\<lambda>(member, m). (member, JObj [(''args'', sn_normal (md_args m)), (''result'', sn_normal (md_result m))]))
          (vd_methods variant))"

definition materialize ::
  "kind \<Rightarrow> params_data \<Rightarrow> int \<Rightarrow> variants \<Rightarrow> change list \<Rightarrow> version_data" where
  "materialize kind params version variants changes =
     (let normal = (case kind of
          Local \<Rightarrow> JObj [(''kind'', JStr ''local''), (''params'', p_normal params),
                     (''members'', variantNormal (the (map_of variants LOCAL)))]
        | Remote \<Rightarrow> JObj [(''kind'', JStr ''remote''), (''params'', p_normal params),
                     (''variants'', sortedDict (map (\<lambda>(name, v). (name, variantNormal v)) variants))])
      in \<lparr>ver_version = version, ver_fingerprint = fingerprintOf normal,
          ver_variants = variants, ver_changes = changes\<rparr>)"

subsection \<open>Reading untyped input\<close>

text \<open>\<open>Object.entries\<close> of an object, also of an instance of a declaration class.\<close>

definition entriesOf :: "jsval \<Rightarrow> string \<Rightarrow> (declaration_error, (string \<times> jsval) list) result" where
  "entriesOf source path =
     (case source of
        VObj kvs \<Rightarrow> Inr kvs
      | VOptional s \<Rightarrow> Inr [(''schema'', s)]
      | VKeyed s \<Rightarrow> Inr [(''schema'', s)]
      | VMethod a r \<Rightarrow> Inr [(''args'', a), (''result'', r)]
      | _ \<Rightarrow> Inl (ExpectedObject path))"

definition checkKeys :: "jsval \<Rightarrow> string list \<Rightarrow> string \<Rightarrow> (declaration_error, unit) result" where
  "checkKeys source allowed path =
     andThen (entriesOf source path) (\<lambda>entries.
       case find (\<lambda>(key, _). key \<notin> set allowed) entries of
         None \<Rightarrow> Inr ()
       | Some (key, _) \<Rightarrow> Inl (UnknownKey path key))"

text \<open>A property of an object that passed \<open>checkKeys\<close>; absent reads \<open>undefined\<close>.\<close>

definition field :: "jsval \<Rightarrow> string \<Rightarrow> jsval" where
  "field source key =
     (case entriesOf source [] of
        Inl _ \<Rightarrow> VUndef
      | Inr entries \<Rightarrow> (case map_of entries key of None \<Rightarrow> VUndef | Some v \<Rightarrow> v))"

definition or_empty :: "jsval \<Rightarrow> jsval" where
  "or_empty v = (if v = VUndef then VObj [] else v)"

definition memberPath :: "string \<Rightarrow> kind \<Rightarrow> string \<Rightarrow> string \<Rightarrow> member_kind \<Rightarrow> string" where
  "memberPath base kind variant member memberKind =
     (if kind = Local then dot (dot base LOCAL) member
      else dot (dot (dot base variant) (if memberKind = MState then ''state'' else ''methods'')) member)"

subsection \<open>The checks of every declared version\<close>

definition RESERVED_MEMBERS :: "string list" where
  "RESERVED_MEMBERS = [''then'', ''release'', ''variant'', ''state'', ''retry'']"

type_synonym kinds = "(string \<times> member_kind) list"

definition recordKind :: "string \<Rightarrow> member_kind \<Rightarrow> string \<Rightarrow> kinds \<Rightarrow> (declaration_error, kinds) result" where
  "recordKind member kind path kinds =
     (if member \<in> set RESERVED_MEMBERS then Inl (ReservedMember path)
      else case map_of kinds member of
        Some known \<Rightarrow> if known \<noteq> kind then Inl (KindChanged path) else Inr (AList.update member kind kinds)
      | None \<Rightarrow> Inr (AList.update member kind kinds))"

definition signature :: "method_data \<Rightarrow> string" where
  "signature m = stringify (JArr [sn_normal (md_args m), sn_normal (md_result m)])"

type_synonym member_path = "string \<Rightarrow> string \<Rightarrow> member_kind \<Rightarrow> string"

type_synonym signatures = "(string \<times> string) list"

definition check_method ::
  "member_path \<Rightarrow> string \<Rightarrow> kinds \<times> signatures \<Rightarrow> string \<times> method_data \<Rightarrow> (declaration_error, kinds \<times> signatures) result" where
  "check_method path variant = (\<lambda>(kinds, signatures) (member, m).
     andThen (recordKind member MMethod (path variant member MMethod) kinds) (\<lambda>kinds.
       if (case map_of signatures member of None \<Rightarrow> signature m | Some s \<Rightarrow> s) \<noteq> signature m
       then Inl (SignatureDiffers (path variant member MMethod))
       else Inr (kinds, AList.update member (signature m) signatures)))"

definition check_variant ::
  "member_path \<Rightarrow> kinds \<times> signatures \<Rightarrow> string \<times> variant_data \<Rightarrow> (declaration_error, kinds \<times> signatures) result" where
  "check_variant path = (\<lambda>(kinds, signatures) (variant, v).
     andThen (run_steps (\<lambda>kinds member. recordKind member MState (path variant member MState) kinds)
       kinds (map fst (vd_state v))) (\<lambda>kinds.
     andThen (run_steps (\<lambda>kinds member. recordKind member MKeyed (path variant member MKeyed) kinds)
       kinds (map fst (vd_keyed v))) (\<lambda>kinds.
       run_steps (check_method path variant) (kinds, signatures) (vd_methods v))))"

definition checkMembers :: "variants \<Rightarrow> kinds \<Rightarrow> member_path \<Rightarrow> (declaration_error, kinds) result" where
  "checkMembers variants kinds path =
     andThen (run_steps (check_variant path) (kinds, []) variants) (\<lambda>(kinds, _). Inr kinds)"

subsection \<open>Declarations\<close>

definition readMethod :: "jsval \<Rightarrow> jsval \<Rightarrow> string \<Rightarrow> (declaration_error, method_data) result" where
  "readMethod args result path =
     andThen (snapshotArguments args (path @ ''.args'')) (\<lambda>a.
     andThen (snapshotSchema result (path @ ''.result'')) (\<lambda>r.
       Inr \<lparr>md_args = a, md_result = r\<rparr>))"

definition read_state_entry :: "string \<Rightarrow> string \<times> jsval \<Rightarrow> (declaration_error, string \<times> snapshot) result" where
  "read_state_entry path = (\<lambda>(member, schema).
     (let at = path @ ''.state.'' @ member
      in case schema of
           VMethod _ _ \<Rightarrow> Inl (MethodInState at)
         | VKeyed _ \<Rightarrow> Inl (KeyedInRemote at)
         | _ \<Rightarrow> andThen (snapshotSchema schema at) (\<lambda>s. Inr (member, s))))"

definition read_method_entry :: "string \<Rightarrow> string \<times> jsval \<Rightarrow> (declaration_error, string \<times> method_data) result" where
  "read_method_entry path = (\<lambda>(member, m).
     (let at = path @ ''.methods.'' @ member
      in case m of
           VMethod args result \<Rightarrow> andThen (readMethod args result at) (\<lambda>d. Inr (member, d))
         | _ \<Rightarrow> Inl (ExpectedMethod at)))"

definition readVariant :: "jsval \<Rightarrow> string \<Rightarrow> (declaration_error, variant_data) result" where
  "readVariant source path =
     andThen (checkKeys source [''state'', ''methods''] path) (\<lambda>_.
     andThen (entriesOf (or_empty (field source ''state'')) (path @ ''.state'')) (\<lambda>state.
     andThen (traverse (read_state_entry path) state) (\<lambda>stateEntries.
     andThen (entriesOf (or_empty (field source ''methods'')) (path @ ''.methods'')) (\<lambda>methods.
     andThen (traverse (read_method_entry path) methods) (\<lambda>methodEntries.
       Inr \<lparr>vd_state = stateEntries, vd_methods = methodEntries, vd_keyed = []\<rparr>)))))"

definition declare_contract ::
  "kind \<Rightarrow> string \<Rightarrow> jsval \<Rightarrow> variants \<Rightarrow> jsval option \<Rightarrow> (declaration_error, contract_data) result" where
  "declare_contract kind name declaration variants hostAddress =
     (case field declaration ''version'' of
        VNum version \<Rightarrow>
          andThen (ensure (isSafeInteger version \<and> 1 \<le> version) (BadVersion name)) (\<lambda>_.
          andThen (checkMembers variants [] (memberPath name kind)) (\<lambda>kinds.
          andThen (entriesOf (field declaration ''params'') (name @ ''.params'')) (\<lambda>entries.
          andThen (readParams entries (name @ ''.params'')) (\<lambda>params.
            Inr \<lparr>ct_kind = kind, ct_name = name, ct_params = params, ct_hostAddress = hostAddress,
                 ct_versions = [materialize kind params version variants []], ct_kinds = kinds\<rparr>))))
      | _ \<Rightarrow> Inl (BadVersion name))"

definition remote :: "string \<Rightarrow> jsval \<Rightarrow> (declaration_error, contract_data) result" where
  "remote name declaration =
     andThen (checkName name) (\<lambda>_.
     andThen (checkKeys declaration [''version'', ''params'', ''hostAddress'', ''variants''] name) (\<lambda>_.
     andThen (entriesOf (field declaration ''variants'') (name @ ''.variants'')) (\<lambda>variants.
     andThen (ensure (variants \<noteq> []) (NoVariants name)) (\<lambda>_.
     andThen (ensure (field declaration ''hostAddress'' = VFun) (ExpectedHostAddress name)) (\<lambda>_.
     andThen (traverse (\<lambda>(variant, members).
         andThen (readVariant members (dot name variant)) (\<lambda>v. Inr (variant, v))) variants) (\<lambda>read.
       declare_contract Remote name declaration read (Some (field declaration ''hostAddress''))))))))"

text \<open>The loop of \<open>local\<close> over the members of the one flat map.\<close>

definition read_local_member ::
  "string \<Rightarrow> variant_data \<Rightarrow> string \<times> jsval \<Rightarrow> (declaration_error, variant_data) result" where
  "read_local_member name v = (\<lambda>(member, value).
     (let path = dot (dot name LOCAL) member
      in case value of
           VMethod args result \<Rightarrow>
             andThen (readMethod args result path) (\<lambda>m. Inr (v\<lparr>vd_methods := AList.update member m (vd_methods v)\<rparr>))
         | VKeyed schema \<Rightarrow>
             andThen (snapshotSchema schema path) (\<lambda>s. Inr (v\<lparr>vd_keyed := AList.update member s (vd_keyed v)\<rparr>))
         | _ \<Rightarrow>
             andThen (snapshotSchema value path) (\<lambda>s. Inr (v\<lparr>vd_state := AList.update member s (vd_state v)\<rparr>))))"

definition local_contract :: "string \<Rightarrow> jsval \<Rightarrow> (declaration_error, contract_data) result" where
  "local_contract name declaration =
     andThen (checkName name) (\<lambda>_.
     andThen (checkKeys declaration [''version'', ''params'', ''members''] name) (\<lambda>_.
     andThen (entriesOf (field declaration ''members'') (dot name LOCAL)) (\<lambda>members.
     andThen (run_steps (read_local_member name) \<lparr>vd_state = [], vd_methods = [], vd_keyed = []\<rparr> members) (\<lambda>v.
       declare_contract Local name declaration [(LOCAL, v)] None))))"

end
