(* ===== verification/Chord_Evolve.thy ===== *)
theory Chord_Evolve
  imports Chord_Contract
begin

text \<open>
  Evolution of a contract (\<open>packages/chord/src/contracts/evolve.ts\<close>): a draft of the next version,
  the edits of its editors, and \<open>evolve\<close>, which runs the edits that the callback makes and
  appends the version. An edit that throws ends the callback: the model has no callback that
  catches the error of an edit and goes on with the draft.
\<close>

record draft =
  dr_kind :: kind
  dr_path :: string
  dr_data :: contract_data
  dr_version :: int
  dr_variants :: variants
  dr_kinds :: kinds
  dr_changes :: "change list"

definition new_draft :: "contract_data \<Rightarrow> draft" where
  "new_draft data =
     (let current = last (ct_versions data); version = ver_version current + 1
      in \<lparr>dr_kind = ct_kind data, dr_path = ct_name data @ '' v'' @ show_int version, dr_data = data,
          dr_version = version, dr_variants = ver_variants current, dr_kinds = ct_kinds data, dr_changes = []\<rparr>)"

definition draft_path :: "draft \<Rightarrow> string \<Rightarrow> string \<Rightarrow> member_kind \<Rightarrow> string" where
  "draft_path d variant member kind = memberPath (dr_path d) (dr_kind d) variant member kind"

definition draft_variant :: "draft \<Rightarrow> string \<Rightarrow> (declaration_error, variant_data) result" where
  "draft_variant d variant =
     (case map_of (dr_variants d) variant of
        None \<Rightarrow> Inl (UnknownVariant (dot (dr_path d) variant))
      | Some found \<Rightarrow> Inr found)"

definition set_variant :: "string \<Rightarrow> variant_data \<Rightarrow> draft \<Rightarrow> draft" where
  "set_variant variant v d = d\<lparr>dr_variants := AList.update variant v (dr_variants d)\<rparr>"

definition log_changes :: "change list \<Rightarrow> draft \<Rightarrow> draft" where
  "log_changes cs d = d\<lparr>dr_changes := dr_changes d @ cs\<rparr>"

definition variantsWith :: "draft \<Rightarrow> string \<Rightarrow> (declaration_error, string list) result" where
  "variantsWith d member =
     (let variants = map fst (filter (\<lambda>(_, v). map_of (vd_methods v) member \<noteq> None) (dr_variants d))
      in if variants = [] then Inl (NoMethod (dr_path d)) else Inr variants)"

definition refuseDeclared :: "draft \<Rightarrow> string \<Rightarrow> string \<Rightarrow> member_kind \<Rightarrow> (declaration_error, unit) result" where
  "refuseDeclared d variant member kind =
     andThen (draft_variant d variant) (\<lambda>v.
       ensure (\<not> (map_of (vd_state v) member \<noteq> None \<or> map_of (vd_methods v) member \<noteq> None \<or>
                  map_of (vd_keyed v) member \<noteq> None))
         (AlreadyDeclared (draft_path d variant member kind)))"

definition checked :: "draft \<Rightarrow> (declaration_error, draft) result" where
  "checked d =
     andThen (checkMembers (dr_variants d) (dr_kinds d) (draft_path d)) (\<lambda>kinds.
       Inr (d\<lparr>dr_kinds := kinds\<rparr>))"

definition putState :: "draft \<Rightarrow> string \<Rightarrow> string \<Rightarrow> jsval \<Rightarrow> (declaration_error, draft) result" where
  "putState d variant member schema =
     andThen (draft_variant d variant) (\<lambda>v.
     andThen (snapshotSchema schema (draft_path d variant member MState)) (\<lambda>s.
       checked (log_changes [(variant, member, SideState)]
         (set_variant variant (v\<lparr>vd_state := AList.update member s (vd_state v)\<rparr>) d))))"

definition putKeyed :: "draft \<Rightarrow> string \<Rightarrow> string \<Rightarrow> jsval \<Rightarrow> (declaration_error, draft) result" where
  "putKeyed d variant member schema =
     andThen (draft_variant d variant) (\<lambda>v.
     andThen (snapshotSchema schema (draft_path d variant member MKeyed)) (\<lambda>s.
       checked (log_changes [(variant, member, SideKeyed)]
         (set_variant variant (v\<lparr>vd_keyed := AList.update member s (vd_keyed v)\<rparr>) d))))"

text \<open>An optional side: \<open>undefined\<close> keeps the old one.\<close>

definition snapshot_side ::
  "(jsval \<Rightarrow> string \<Rightarrow> (declaration_error, snapshot) result) \<Rightarrow> jsval option \<Rightarrow> string \<Rightarrow>
   (declaration_error, snapshot option) result" where
  "snapshot_side snap side path =
     (case side of None \<Rightarrow> Inr None | Some schema \<Rightarrow> andThen (snap schema path) (\<lambda>s. Inr (Some s)))"

definition or_old :: "snapshot option \<Rightarrow> snapshot \<Rightarrow> snapshot" where
  "or_old new old = (case new of None \<Rightarrow> old | Some s \<Rightarrow> s)"

definition change_one :: "string \<Rightarrow> snapshot option \<Rightarrow> snapshot option \<Rightarrow> draft \<Rightarrow> string \<Rightarrow> (declaration_error, draft) result" where
  "change_one member newArgs newResult d variant =
     andThen (draft_variant d variant) (\<lambda>v.
       let old = the (map_of (vd_methods v) member);
           m = \<lparr>md_args = or_old newArgs (md_args old), md_result = or_old newResult (md_result old)\<rparr>
       in Inr (log_changes
            ((if newArgs \<noteq> None then [(variant, member, SideArgs)] else []) @
             (if newResult \<noteq> None then [(variant, member, SideResult)] else []))
            (set_variant variant (v\<lparr>vd_methods := AList.update member m (vd_methods v)\<rparr>) d)))"

definition changeMethod :: "draft \<Rightarrow> string \<Rightarrow> jsval option \<Rightarrow> jsval option \<Rightarrow> (declaration_error, draft) result" where
  "changeMethod d member args result =
     andThen (variantsWith d member) (\<lambda>variants.
       let path = draft_path d (hd variants) member MMethod
       in andThen (snapshot_side snapshotArguments args (path @ ''.args'')) (\<lambda>newArgs.
          andThen (snapshot_side snapshotSchema result (path @ ''.result'')) (\<lambda>newResult.
          andThen (run_steps (change_one member newArgs newResult) d variants) checked)))"

definition remove_one :: "string \<Rightarrow> draft \<Rightarrow> string \<Rightarrow> (declaration_error, draft) result" where
  "remove_one member d variant =
     andThen (draft_variant d variant) (\<lambda>v.
       Inr (set_variant variant (v\<lparr>vd_methods := AList.delete member (vd_methods v)\<rparr>) d))"

subsection \<open>Edits\<close>

text \<open>A call of the draft as editor.\<close>

datatype edit =
    EditState string string jsval
  | AddState string string jsval
  | RemoveState string string
  | EditArgs string jsval
  | EditResult string jsval
  | EditMethod string jsval jsval
  | AddMethod string string jsval jsval
  | EditKeyed string string jsval
  | AddKeyed string string jsval
  | RemoveKeyed string string
  | RemoveMethod string

fun apply_edit :: "draft \<Rightarrow> edit \<Rightarrow> (declaration_error, draft) result" where
  "apply_edit d (EditState variant member schema) =
     andThen (draft_variant d variant) (\<lambda>v.
     andThen (ensure (map_of (vd_state v) member \<noteq> None) (NoSuchMember (draft_path d variant member MState))) (\<lambda>_.
       putState d variant member schema))"
| "apply_edit d (AddState variant member schema) =
     andThen (refuseDeclared d variant member MState) (\<lambda>_. putState d variant member schema)"
| "apply_edit d (RemoveState variant member) =
     andThen (draft_variant d variant) (\<lambda>v.
     andThen (ensure (map_of (vd_state v) member \<noteq> None) (NoSuchMember (draft_path d variant member MState))) (\<lambda>_.
       Inr (set_variant variant (v\<lparr>vd_state := AList.delete member (vd_state v)\<rparr>) d)))"
| "apply_edit d (EditArgs member args) = changeMethod d member (Some args) None"
| "apply_edit d (EditResult member result) = changeMethod d member None (Some result)"
| "apply_edit d (EditMethod member args result) = changeMethod d member (Some args) (Some result)"
| "apply_edit d (AddMethod variant member args result) =
     andThen (refuseDeclared d variant member MMethod) (\<lambda>_.
     andThen (draft_variant d variant) (\<lambda>v.
     andThen (readMethod args result (draft_path d variant member MMethod)) (\<lambda>m.
       checked (log_changes [(variant, member, SideArgs), (variant, member, SideResult)]
         (set_variant variant (v\<lparr>vd_methods := AList.update member m (vd_methods v)\<rparr>) d)))))"
| "apply_edit d (EditKeyed variant member schema) =
     andThen (draft_variant d variant) (\<lambda>v.
     andThen (ensure (map_of (vd_keyed v) member \<noteq> None) (NoSuchMember (draft_path d variant member MKeyed))) (\<lambda>_.
       putKeyed d variant member schema))"
| "apply_edit d (AddKeyed variant member schema) =
     andThen (refuseDeclared d variant member MKeyed) (\<lambda>_. putKeyed d variant member schema)"
| "apply_edit d (RemoveKeyed variant member) =
     andThen (draft_variant d variant) (\<lambda>v.
     andThen (ensure (map_of (vd_keyed v) member \<noteq> None) (NoSuchMember (draft_path d variant member MKeyed))) (\<lambda>_.
       Inr (set_variant variant (v\<lparr>vd_keyed := AList.delete member (vd_keyed v)\<rparr>) d)))"
| "apply_edit d (RemoveMethod member) =
     andThen (variantsWith d member) (\<lambda>variants. run_steps (remove_one member) d variants)"

text \<open>The local editor fills in the variant.\<close>

datatype local_edit =
    LState string jsval
  | LAddState string jsval
  | LRemoveState string
  | LAddMethod string jsval jsval
  | LArgs string jsval
  | LResult string jsval
  | LMethod string jsval jsval
  | LRemoveMethod string
  | LKeyed string jsval
  | LAddKeyed string jsval
  | LRemoveKeyed string

fun localEditor :: "local_edit \<Rightarrow> edit" where
  "localEditor (LState member schema) = EditState LOCAL member schema"
| "localEditor (LAddState member schema) = AddState LOCAL member schema"
| "localEditor (LRemoveState member) = RemoveState LOCAL member"
| "localEditor (LAddMethod member args result) = AddMethod LOCAL member args result"
| "localEditor (LArgs member args) = EditArgs member args"
| "localEditor (LResult member result) = EditResult member result"
| "localEditor (LMethod member args result) = EditMethod member args result"
| "localEditor (LRemoveMethod member) = RemoveMethod member"
| "localEditor (LKeyed member schema) = EditKeyed LOCAL member schema"
| "localEditor (LAddKeyed member schema) = AddKeyed LOCAL member schema"
| "localEditor (LRemoveKeyed member) = RemoveKeyed LOCAL member"

text \<open>
  What a callback does: the calls it makes on the editor it was given, in order, and whether it
  returns that editor. The editor of a local contract is the local editor.
\<close>

datatype edits = RemoteEdits "edit list" | LocalEdits "local_edit list"

definition edit_calls :: "edits \<Rightarrow> edit list" where
  "edit_calls es = (case es of RemoteEdits es \<Rightarrow> es | LocalEdits es \<Rightarrow> map localEditor es)"

definition editor_fits :: "kind \<Rightarrow> edits \<Rightarrow> bool" where
  "editor_fits kind es = (case es of RemoteEdits _ \<Rightarrow> kind = Remote | LocalEdits _ \<Rightarrow> kind = Local)"

definition editWith :: "draft \<Rightarrow> edit list \<Rightarrow> bool \<Rightarrow> (declaration_error, draft) result" where
  "editWith d calls returns_editor =
     andThen (run_steps apply_edit d calls) (\<lambda>d.
     andThen (ensure returns_editor (OtherEditor (dr_path d))) (\<lambda>_. Inr d))"

definition next_data :: "draft \<Rightarrow> contract_data" where
  "next_data d =
     (let data = dr_data d;
          version = materialize (ct_kind data) (ct_params data) (dr_version d) (dr_variants d) (dr_changes d)
      in data\<lparr>ct_versions := ct_versions data @ [version], ct_kinds := dr_kinds d\<rparr>)"

definition evolve :: "contract_data \<Rightarrow> edits \<Rightarrow> bool \<Rightarrow> (declaration_error, contract_data) result" where
  "evolve previous es returns_editor =
     andThen (editWith (new_draft previous) (edit_calls es) returns_editor) (\<lambda>d. Inr (next_data d))"

end
