(* ===== verification/Chord_Accepts.thy ===== *)
theory Chord_Accepts
  imports Chord_Evolve
begin

text \<open>
  Accepted older versions (\<open>packages/chord/src/contracts/accepts.ts\<close>): what the edits after a
  version require (\<open>needs\<close>), and the check that an accepts table has exactly those mappings.
\<close>

datatype state_need = SChanged | SRemoved

datatype method_need = MRemoved | MChanged bool bool

record needs =
  nd_state :: "(string \<times> (string \<times> state_need) list) list"
  nd_methods :: "(string \<times> method_need) list"
  nd_keyed :: "(string \<times> state_need) list"

fun show_side :: "side \<Rightarrow> string" where
  "show_side SideState = ''state''"
| "show_side SideArgs = ''args''"
| "show_side SideResult = ''result''"
| "show_side SideKeyed = ''keyed''"

definition changeKey :: "change \<Rightarrow> string" where
  "changeKey = (\<lambda>(variant, member, side). stringify (JArr [JStr variant, JStr member, JStr (show_side side)]))"

definition changes_after :: "contract_data \<Rightarrow> nat \<Rightarrow> string set" where
  "changes_after data index =
     changeKey ` (\<Union>version\<in>set (drop (index + 1) (ct_versions data)). set (ver_changes version))"

text \<open>The needs of the state or keyed members of one variant: removed, or changed by a later edit.\<close>

definition member_needs ::
  "(change \<Rightarrow> bool) \<Rightarrow> string \<Rightarrow> side \<Rightarrow> (string \<times> snapshot) list \<Rightarrow> (string \<times> snapshot) list \<Rightarrow>
   (string \<times> state_need) list" where
  "member_needs changed variant side old now =
     concat (map (\<lambda>(member, _).
       if map_of now member = None then [(member, SRemoved)]
       else if changed (variant, member, side) then [(member, SChanged)] else []) old)"

text \<open>One method of one variant: removed, args and result so far.\<close>

definition method_step ::
  "(change \<Rightarrow> bool) \<Rightarrow> string \<Rightarrow> (string \<times> method_data) list \<Rightarrow>
   (string \<times> bool \<times> bool \<times> bool) list \<Rightarrow> string \<Rightarrow> (string \<times> bool \<times> bool \<times> bool) list" where
  "method_step changed variant now methods member =
     (let (removed, args, result) =
        (case map_of methods member of None \<Rightarrow> (False, False, False) | Some need \<Rightarrow> need)
      in AList.update member
           (removed \<or> map_of now member = None, args \<or> changed (variant, member, SideArgs),
            result \<or> changed (variant, member, SideResult)) methods)"

record need_state =
  ns_state :: "(string \<times> (string \<times> state_need) list) list"
  ns_methods :: "(string \<times> bool \<times> bool \<times> bool) list"
  ns_keyed :: "(string \<times> state_need) list"

text \<open>The loop over the old variants; the current version has the same ones.\<close>

definition variant_step :: "(change \<Rightarrow> bool) \<Rightarrow> variants \<Rightarrow> need_state \<Rightarrow> string \<times> variant_data \<Rightarrow> need_state" where
  "variant_step changed current acc = (\<lambda>(variant, old).
     (let now = the (map_of current variant);
          keyed = member_needs changed variant SideKeyed (vd_keyed old) (vd_keyed now);
          variantNeeds = member_needs changed variant SideState (vd_state old) (vd_state now)
      in acc\<lparr>ns_keyed := foldl (\<lambda>ks (member, need). AList.update member need ks) (ns_keyed acc) keyed,
             ns_state := (if variantNeeds = [] then ns_state acc else AList.update variant variantNeeds (ns_state acc)),
             ns_methods := foldl (method_step changed variant (vd_methods now)) (ns_methods acc)
               (map fst (vd_methods old))\<rparr>))"

definition method_needs :: "(string \<times> bool \<times> bool \<times> bool) list \<Rightarrow> (string \<times> method_need) list" where
  "method_needs methods =
     concat (map (\<lambda>(member, removed, args, result).
       if removed then [(member, MRemoved)]
       else if args \<or> result then [(member, MChanged args result)] else []) methods)"

definition needs_of :: "contract_data \<Rightarrow> nat \<Rightarrow> needs" where
  "needs_of data index =
     (let old = ct_versions data ! index;
          changed = (\<lambda>change. changeKey change \<in> changes_after data index);
          acc = foldl (variant_step changed (currentVariants data))
            \<lparr>ns_state = [], ns_methods = [], ns_keyed = []\<rparr> (ver_variants old)
      in \<lparr>nd_state = ns_state acc, nd_methods = method_needs (ns_methods acc), nd_keyed = ns_keyed acc\<rparr>)"

subsection \<open>Checking the mappings\<close>

definition is_refuse :: "jsval \<Rightarrow> bool" where
  "is_refuse v = (v = VStr ''refuse'')"

definition checkSection ::
  "(jsval \<Rightarrow> 'n \<Rightarrow> string \<Rightarrow> (declaration_error, unit) result) \<Rightarrow> jsval \<Rightarrow> (string \<times> 'n) list \<Rightarrow> string \<Rightarrow>
   (declaration_error, unit) result" where
  "checkSection check section needs path =
     andThen (if section = VUndef then Inr [] else entriesOf section path) (\<lambda>mappings.
     andThen (case find (\<lambda>(key, _). map_of needs key = None) mappings of
         None \<Rightarrow> Inr () | Some (key, _) \<Rightarrow> Inl (UnnecessaryMapping (dot path key))) (\<lambda>_.
       run_steps (\<lambda>_ (key, need).
         case map_of mappings key of
           None \<Rightarrow> Inl (MissingMapping (dot path key))
         | Some mapping \<Rightarrow> check mapping need (dot path key)) () needs))"

definition checkStateMapping :: "jsval \<Rightarrow> state_need \<Rightarrow> string \<Rightarrow> (declaration_error, unit) result" where
  "checkStateMapping mapping need path =
     ensure (mapping = VFun \<or> (need = SRemoved \<and> is_refuse mapping)) (ExpectedFunction path)"

definition checkKeyedMapping :: "jsval \<Rightarrow> state_need \<Rightarrow> string \<Rightarrow> (declaration_error, unit) result" where
  "checkKeyedMapping mapping need path =
     ensure (is_refuse mapping \<or> (need = SChanged \<and> mapping = VFun)) (ExpectedRefusal path)"

definition checkSide :: "jsval \<Rightarrow> bool \<Rightarrow> string \<Rightarrow> (declaration_error, unit) result" where
  "checkSide mapping needed path =
     (if \<not> needed \<and> mapping \<noteq> VUndef then Inl (UnnecessaryMapping path)
      else if needed \<and> mapping = VUndef then Inl (MissingMapping path)
      else if needed \<and> mapping \<noteq> VFun then Inl (ExpectedFunction path)
      else Inr ())"

definition checkMethodMapping :: "jsval \<Rightarrow> method_need \<Rightarrow> string \<Rightarrow> (declaration_error, unit) result" where
  "checkMethodMapping mapping need path =
     (if is_refuse mapping then Inr ()
      else andThen (checkKeys mapping [''args'', ''result'', ''call''] path) (\<lambda>_.
        let args = field mapping ''args''; result = field mapping ''result''; call = field mapping ''call''
        in case need of
             MRemoved \<Rightarrow> ensure (call = VFun \<and> args = VUndef \<and> result = VUndef) (ExpectedCall path)
           | MChanged needArgs needResult \<Rightarrow>
               if call \<noteq> VUndef
               then ensure (call = VFun \<and> args = VUndef \<and> result = VUndef) (ExpectedCall path)
               else andThen (checkSide args needArgs (path @ ''.args'')) (\<lambda>_.
                 checkSide result needResult (path @ ''.result''))))"

definition checkMappings :: "jsval \<Rightarrow> needs \<Rightarrow> kind \<Rightarrow> string \<Rightarrow> (declaration_error, unit) result" where
  "checkMappings mappings needs kind path =
     andThen (checkKeys mappings [''state'', ''methods'', ''keyed''] path) (\<lambda>_.
       let state = field mappings ''state''; methods = field mappings ''methods''; keyed = field mappings ''keyed'';
           checkVariant = (\<lambda>m n at. checkSection checkStateMapping m n at)
       in andThen (if kind = Local
            then checkVariant state (case map_of (nd_state needs) LOCAL of None \<Rightarrow> [] | Some n \<Rightarrow> n) (path @ ''.state'')
            else checkSection checkVariant state (nd_state needs) (path @ ''.state'')) (\<lambda>_.
          andThen (checkSection checkMethodMapping methods (nd_methods needs) (path @ ''.methods'')) (\<lambda>_.
            checkSection checkKeyedMapping keyed (nd_keyed needs) (path @ ''.keyed''))))"

definition version_index :: "contract_data \<Rightarrow> string \<Rightarrow> nat option" where
  "version_index data key =
     find (\<lambda>i. show_int (ver_version (ct_versions data ! i)) = key) [0..<length (ct_versions data)]"

definition accept_version ::
  "contract_data \<Rightarrow> string \<times> jsval \<Rightarrow> (declaration_error, int \<times> string) result" where
  "accept_version data = (\<lambda>(key, mappings).
     (let path = ct_name data @ '' accepts['' @ key @ '']''
      in case version_index data key of
           None \<Rightarrow> Inl (NotOlderVersion path)
         | Some index \<Rightarrow>
             andThen (ensure (index \<noteq> length (ct_versions data) - 1) (NotOlderVersion path)) (\<lambda>_.
             andThen (checkMappings mappings (needs_of data index) (ct_kind data) path) (\<lambda>_.
               let v = ct_versions data ! index in Inr (ver_version v, ver_fingerprint v)))))"

definition checkAccepts :: "contract_data \<Rightarrow> jsval \<Rightarrow> (declaration_error, (int \<times> string) list) result" where
  "checkAccepts data accepts =
     andThen (entriesOf accepts (ct_name data @ '' accepts'')) (\<lambda>entries.
       traverse (accept_version data) entries)"

end
