(* ===== verification/Chord_Evolve_Laws.thy ===== *)
theory Chord_Evolve_Laws
  imports Chord_Evolve
begin

text \<open>
  The invariant of a contract (\<open>contract_ok\<close>): every version of its history has the same variants,
  a member name has one kind in all of them, a method one signature across the variants of a
  version, and the log of a version names every member that is not as it was in the version
  before. Declarations establish it and \<open>evolve\<close> keeps it.
\<close>

subsection \<open>Kinds and signatures\<close>

definition variant_kinds :: "kinds \<Rightarrow> variant_data \<Rightarrow> bool" where
  "variant_kinds ks v \<longleftrightarrow>
     (\<forall>m\<in>set (map fst (vd_state v)). map_of ks m = Some MState) \<and>
     (\<forall>m\<in>set (map fst (vd_keyed v)). map_of ks m = Some MKeyed) \<and>
     (\<forall>m\<in>set (map fst (vd_methods v)). map_of ks m = Some MMethod)"

definition kinds_cover :: "kinds \<Rightarrow> variants \<Rightarrow> bool" where
  "kinds_cover ks vs \<longleftrightarrow> (\<forall>(_, v)\<in>set vs. variant_kinds ks v)"

definition signatures_agree :: "variants \<Rightarrow> bool" where
  "signatures_agree vs \<longleftrightarrow>
     (\<forall>x v y w m a b. (x, v) \<in> set vs \<longrightarrow> (y, w) \<in> set vs \<longrightarrow>
        (m, a) \<in> set (vd_methods v) \<longrightarrow> (m, b) \<in> set (vd_methods w) \<longrightarrow> signature a = signature b)"

definition reserved_free :: "kinds \<Rightarrow> bool" where
  "reserved_free ks \<longleftrightarrow> (\<forall>m\<in>set RESERVED_MEMBERS. map_of ks m = None)"

definition extends :: "('a \<times> 'b) list \<Rightarrow> ('a \<times> 'b) list \<Rightarrow> bool" where
  "extends ks ks' \<longleftrightarrow> map_of ks \<subseteq>\<^sub>m map_of ks'"

lemma extends_refl [simp]: "extends ks ks"
  by (simp add: extends_def)

lemma extends_trans: "extends a b \<Longrightarrow> extends b c \<Longrightarrow> extends a c"
  unfolding extends_def by (rule map_le_trans)

lemma extendsD: "extends ks ks' \<Longrightarrow> map_of ks m = Some k \<Longrightarrow> map_of ks' m = Some k"
  by (auto simp: extends_def map_le_def dom_def)

lemma variant_kinds_extends: "variant_kinds ks v \<Longrightarrow> extends ks ks' \<Longrightarrow> variant_kinds ks' v"
  by (auto simp: variant_kinds_def dest: extendsD)

lemma kinds_cover_extends: "kinds_cover ks vs \<Longrightarrow> extends ks ks' \<Longrightarrow> kinds_cover ks' vs"
  by (auto simp: kinds_cover_def intro: variant_kinds_extends)

text \<open>What recording a kind leaves: an extension that knows the member and no reserved name.\<close>

definition kinds_step :: "kinds \<Rightarrow> kinds \<Rightarrow> bool" where
  "kinds_step ks ks' \<longleftrightarrow> extends ks ks' \<and> (reserved_free ks \<longrightarrow> reserved_free ks')"

lemma kinds_step_refl [simp]: "kinds_step ks ks"
  by (simp add: kinds_step_def)

lemma kinds_step_trans: "kinds_step a b \<Longrightarrow> kinds_step b c \<Longrightarrow> kinds_step a c"
  by (auto simp: kinds_step_def intro: extends_trans)

lemma kinds_stepD: "kinds_step ks ks' \<Longrightarrow> map_of ks m = Some k \<Longrightarrow> map_of ks' m = Some k"
  by (auto simp: kinds_step_def dest: extendsD)

lemma recordKind_step:
  "recordKind m k p ks = Inr ks' \<Longrightarrow> kinds_step ks ks' \<and> map_of ks' m = Some k"
  by (auto simp: recordKind_def kinds_step_def extends_def reserved_free_def map_le_def
      split: if_splits option.splits)

lemma record_kinds:
  "run_steps (\<lambda>ks m. recordKind m k (p m) ks) ks ms = Inr ks' \<Longrightarrow>
   kinds_step ks ks' \<and> (\<forall>m\<in>set ms. map_of ks' m = Some k)"
  by (erule run_steps_collect)
    (auto dest: recordKind_step intro: kinds_step_trans kinds_stepD)

definition check_rel :: "kinds \<times> signatures \<Rightarrow> kinds \<times> signatures \<Rightarrow> bool" where
  "check_rel = (\<lambda>(ks, ss) (ks', ss'). kinds_step ks ks' \<and> extends ss ss')"

lemma check_rel_refl: "check_rel a a"
  by (auto simp: check_rel_def)

lemma check_rel_trans: "check_rel a b \<Longrightarrow> check_rel b c \<Longrightarrow> check_rel a c"
  by (auto simp: check_rel_def intro: kinds_step_trans extends_trans)

definition method_checked :: "string \<times> method_data \<Rightarrow> kinds \<times> signatures \<Rightarrow> bool" where
  "method_checked = (\<lambda>(m, d) (ks, ss). map_of ks m = Some MMethod \<and> map_of ss m = Some (signature d))"

lemma method_checked_keep: "method_checked e s \<Longrightarrow> check_rel s t \<Longrightarrow> method_checked e t"
  by (auto simp: method_checked_def check_rel_def dest: kinds_stepD extendsD)

lemma check_method_step:
  "check_method path x s e = Inr s' \<Longrightarrow> check_rel s s' \<and> method_checked e s'"
  by (cases s; cases e)
    (auto simp: check_method_def andThen_eq_Inr check_rel_def method_checked_def extends_def map_le_def
      dest!: recordKind_step split: if_splits option.splits)

definition variant_checked :: "string \<times> variant_data \<Rightarrow> kinds \<times> signatures \<Rightarrow> bool" where
  "variant_checked = (\<lambda>(_, v) (ks, ss). variant_kinds ks v \<and>
     (\<forall>(m, d)\<in>set (vd_methods v). map_of ss m = Some (signature d)))"

lemma variant_checked_keep: "variant_checked e s \<Longrightarrow> check_rel s t \<Longrightarrow> variant_checked e t"
  by (fastforce simp: variant_checked_def check_rel_def kinds_step_def intro: variant_kinds_extends dest: extendsD)

lemma check_variant_step:
  assumes "check_variant path s e = Inr s'"
  shows "check_rel s s' \<and> variant_checked e s'"
proof -
  obtain ks ss x v where se: "s = (ks, ss)" "e = (x, v)" by (cases s; cases e) auto
  obtain k1 k2 where
    k1: "run_steps (\<lambda>ks m. recordKind m MState (path x m MState) ks) ks (map fst (vd_state v)) = Inr k1" and
    k2: "run_steps (\<lambda>ks m. recordKind m MKeyed (path x m MKeyed) ks) k1 (map fst (vd_keyed v)) = Inr k2" and
    k3: "run_steps (check_method path x) (k2, ss) (vd_methods v) = Inr s'"
    using assms by (auto simp: check_variant_def se andThen_eq_Inr)
  have 1: "kinds_step ks k1" "\<forall>m\<in>set (map fst (vd_state v)). map_of k1 m = Some MState"
    using record_kinds[where p = "\<lambda>m. path x m MState", OF k1] by auto
  have 2: "kinds_step k1 k2" "\<forall>m\<in>set (map fst (vd_keyed v)). map_of k2 m = Some MKeyed"
    using record_kinds[where p = "\<lambda>m. path x m MKeyed", OF k2] by auto
  have 3: "check_rel (k2, ss) s' \<and> (\<forall>e\<in>set (vd_methods v). method_checked e s')"
    by (rule run_steps_collect[OF k3])
      (auto dest: check_method_step intro: check_rel_refl check_rel_trans method_checked_keep)
  obtain ks' ss' where s': "s' = (ks', ss')" by (cases s')
  have step: "kinds_step k1 ks'" "kinds_step k2 ks'" using 2(1) 3 by (auto simp: check_rel_def s' intro: kinds_step_trans)
  have "variant_kinds ks' v"
    unfolding variant_kinds_def using 1(2) 2(2) 3 step by (auto simp: s' method_checked_def dest: kinds_stepD)
  then show ?thesis
    using 1(1) 3 step(1) by (auto simp: se s' check_rel_def variant_checked_def method_checked_def intro: kinds_step_trans)
qed

text \<open>The check of every declared version.\<close>

lemma checkMembers_ok:
  assumes "checkMembers vs ks path = Inr ks'"
  shows "kinds_step ks ks' \<and> kinds_cover ks' vs \<and> signatures_agree vs"
proof -
  obtain ss where run: "run_steps (check_variant path) (ks, []) vs = Inr (ks', ss)"
    using assms by (auto simp: checkMembers_def andThen_eq_Inr)
  have all: "check_rel (ks, []) (ks', ss) \<and> (\<forall>e\<in>set vs. variant_checked e (ks', ss))"
    by (rule run_steps_collect[OF run])
      (auto dest: check_variant_step intro: check_rel_refl check_rel_trans variant_checked_keep)
  have sig: "map_of ss m = Some (signature d)" if "(x, v) \<in> set vs" "(m, d) \<in> set (vd_methods v)" for x v m d
    using all that by (auto simp: variant_checked_def)
  have "signatures_agree vs" unfolding signatures_agree_def by (auto dest!: sig)
  then show ?thesis using all by (auto simp: check_rel_def kinds_cover_def variant_checked_def)
qed

subsection \<open>Drafts\<close>

definition variant_distinct :: "variant_data \<Rightarrow> bool" where
  "variant_distinct v \<longleftrightarrow>
     distinct (map fst (vd_state v)) \<and> distinct (map fst (vd_methods v)) \<and> distinct (map fst (vd_keyed v))"

text \<open>
  \<open>logged x v w cs\<close>: the changes \<open>cs\<close> name every member of variant \<open>x\<close> as it is in \<open>w\<close> that is not
  as it was in \<open>v\<close>, also one that \<open>v\<close> does not have.
\<close>

definition tracked :: "(string \<rightharpoonup> 'a) \<Rightarrow> (string \<rightharpoonup> 'a) \<Rightarrow> (string \<Rightarrow> bool) \<Rightarrow> bool" where
  "tracked old new edited \<longleftrightarrow> (\<forall>m a. new m = Some a \<longrightarrow> old m = Some a \<or> edited m)"

definition methods_args :: "variant_data \<Rightarrow> string \<rightharpoonup> snapshot" where
  "methods_args v m = map_option md_args (map_of (vd_methods v) m)"

definition methods_result :: "variant_data \<Rightarrow> string \<rightharpoonup> snapshot" where
  "methods_result v m = map_option md_result (map_of (vd_methods v) m)"

definition logged :: "string \<Rightarrow> variant_data \<Rightarrow> variant_data \<Rightarrow> change list \<Rightarrow> bool" where
  "logged x v w cs \<longleftrightarrow>
     tracked (map_of (vd_state v)) (map_of (vd_state w)) (\<lambda>m. (x, m, SideState) \<in> set cs) \<and>
     tracked (map_of (vd_keyed v)) (map_of (vd_keyed w)) (\<lambda>m. (x, m, SideKeyed) \<in> set cs) \<and>
     tracked (methods_args v) (methods_args w) (\<lambda>m. (x, m, SideArgs) \<in> set cs) \<and>
     tracked (methods_result v) (methods_result w) (\<lambda>m. (x, m, SideResult) \<in> set cs)"

lemma tracked_refl [simp]: "tracked f f edited"
  by (simp add: tracked_def)

lemma tracked_trans:
  "tracked f g p \<Longrightarrow> tracked g h q \<Longrightarrow> (\<And>m. p m \<or> q m \<Longrightarrow> r m) \<Longrightarrow> tracked f h r"
  unfolding tracked_def by metis

lemma logged_refl [simp]: "logged x v v cs"
  by (simp add: logged_def)

lemma logged_trans: "logged x u v cs \<Longrightarrow> logged x v w ds \<Longrightarrow> logged x u w (cs @ ds)"
  unfolding logged_def by (auto elim: tracked_trans)

definition logged_all :: "variants \<Rightarrow> variants \<Rightarrow> change list \<Rightarrow> bool" where
  "logged_all vs ws cs \<longleftrightarrow>
     (\<forall>x v w. map_of vs x = Some v \<longrightarrow> map_of ws x = Some w \<longrightarrow> logged x v w cs)"

text \<open>A draft keeps the variant names of the version it starts from, and logs its edits.\<close>

definition draft_shape :: "draft \<Rightarrow> bool" where
  "draft_shape d \<longleftrightarrow>
     (let current = last (ct_versions (dr_data d)) in
        dr_version d = ver_version current + 1 \<and>
        map fst (dr_variants d) = map fst (ver_variants current) \<and>
        distinct (map fst (dr_variants d)) \<and>
        (\<forall>(_, v)\<in>set (dr_variants d). variant_distinct v) \<and>
        logged_all (ver_variants current) (dr_variants d) (dr_changes d))"

definition draft_checked :: "draft \<Rightarrow> bool" where
  "draft_checked d \<longleftrightarrow>
     kinds_step (ct_kinds (dr_data d)) (dr_kinds d) \<and> kinds_cover (dr_kinds d) (dr_variants d) \<and>
     signatures_agree (dr_variants d)"

lemma draft_variantD: "draft_variant d x = Inr v \<Longrightarrow> map_of (dr_variants d) x = Some v"
  by (auto simp: draft_variant_def split: option.splits)

lemma map_fst_update_known: "map_of kvs k = Some u \<Longrightarrow> map fst (AList.update k v kvs) = map fst kvs"
  by (simp add: AList.update_keys) (metis map_of_SomeD fst_conv image_eqI)

lemma edit_variant:
  assumes d: "draft_shape d" and v: "map_of (dr_variants d) x = Some v"
    and w: "variant_distinct w" "logged x v w cs"
  shows "draft_shape (log_changes cs (set_variant x w d))"
proof -
  let ?vs = "ver_variants (last (ct_versions (dr_data d)))"
  have log: "logged_all ?vs (dr_variants d) (dr_changes d)" using d by (simp add: draft_shape_def Let_def)
  have "logged_all ?vs (AList.update x w (dr_variants d)) (dr_changes d @ cs)"
    unfolding logged_all_def
  proof (intro allI impI)
    fix y a b
    assume a: "map_of ?vs y = Some a" and b: "map_of (AList.update x w (dr_variants d)) y = Some b"
    show "logged y a b (dr_changes d @ cs)"
    proof (cases "y = x")
      case True
      then have "logged y a v (dr_changes d)" using log a v by (simp add: logged_all_def)
      then show ?thesis using logged_trans w(2) b True by auto
    next
      case False
      then have "logged y a b (dr_changes d)" using log a b by (simp add: logged_all_def)
      then show ?thesis using logged_trans[OF _ logged_refl] by blast
    qed
  qed
  moreover have "\<forall>(_, u)\<in>set (AList.update x w (dr_variants d)). variant_distinct u"
    using d w(1) by (auto simp: draft_shape_def Let_def dest!: set_update_subset)
  moreover have "distinct (map fst (AList.update x w (dr_variants d)))"
    using d unfolding draft_shape_def Let_def map_fst_update_known[OF v] by blast
  ultimately show ?thesis
    using d by (simp add: draft_shape_def Let_def log_changes_def set_variant_def map_fst_update_known[OF v])
qed

lemma edit_variant_silent:
  "draft_shape d \<Longrightarrow> map_of (dr_variants d) x = Some v \<Longrightarrow> variant_distinct w \<Longrightarrow> logged x v w [] \<Longrightarrow>
   draft_shape (set_variant x w d)"
  using edit_variant[of d x v w "[]"] by (simp add: log_changes_def)

lemma shape_distinct: "draft_shape d \<Longrightarrow> map_of (dr_variants d) x = Some v \<Longrightarrow> variant_distinct v"
  by (auto simp: draft_shape_def Let_def dest: map_of_SomeD)

text \<open>\<open>checked\<close> establishes the checks, whatever the draft was.\<close>

lemma checked_ok:
  assumes "checked d = Inr d'" and "draft_shape d" and "kinds_step (ct_kinds (dr_data d)) (dr_kinds d)"
  shows "draft_shape d' \<and> draft_checked d' \<and> dr_data d' = dr_data d"
proof -
  obtain ks where ks: "checkMembers (dr_variants d) (dr_kinds d) (draft_path d) = Inr ks" "d' = d\<lparr>dr_kinds := ks\<rparr>"
    using assms(1) by (auto simp: checked_def andThen_eq_Inr)
  then show ?thesis
    using checkMembers_ok[OF ks(1)] assms(2,3)
    by (auto simp: draft_shape_def draft_checked_def Let_def intro: kinds_step_trans)
qed

text \<open>The draft invariant, and what an edit keeps.\<close>

definition draft_ok :: "contract_data \<Rightarrow> draft \<Rightarrow> bool" where
  "draft_ok data d \<longleftrightarrow> draft_shape d \<and> draft_checked d \<and> dr_data d = data"

lemma put_ok:
  assumes "draft_ok data d" and "map_of (dr_variants d) x = Some v" and "variant_distinct w" and "logged x v w cs"
    and "checked (log_changes cs (set_variant x w d)) = Inr d'"
  shows "draft_ok data d'"
proof -
  let ?d = "log_changes cs (set_variant x w d)"
  have d: "draft_shape d" "draft_checked d" "dr_data d = data" using assms(1) by (simp_all add: draft_ok_def)
  have "kinds_step (ct_kinds (dr_data ?d)) (dr_kinds ?d)" and same: "dr_data ?d = data"
    using d(2,3) by (simp_all add: draft_checked_def log_changes_def set_variant_def)
  then show ?thesis
    using checked_ok[OF assms(5) edit_variant[OF d(1) assms(2-4)]] unfolding draft_ok_def by blast
qed

text \<open>A removal: the members of the variant are among those it had, and nothing is logged.\<close>

definition shrinks :: "variant_data \<Rightarrow> variant_data \<Rightarrow> bool" where
  "shrinks v w \<longleftrightarrow> set (vd_state w) \<subseteq> set (vd_state v) \<and> set (vd_methods w) \<subseteq> set (vd_methods v) \<and>
     set (vd_keyed w) \<subseteq> set (vd_keyed v)"

lemma signatures_agreeD:
  "signatures_agree vs \<Longrightarrow> (x, v) \<in> set vs \<Longrightarrow> (y, w) \<in> set vs \<Longrightarrow>
   (m, a) \<in> set (vd_methods v) \<Longrightarrow> (m, b) \<in> set (vd_methods w) \<Longrightarrow> signature a = signature b"
  unfolding signatures_agree_def by blast

lemma remove_ok:
  assumes ok: "draft_ok data d" and v: "map_of (dr_variants d) x = Some v" and w: "variant_distinct w" "shrinks v w"
  shows "draft_ok data (set_variant x w d)"
proof -
  have dv: "variant_distinct v" using shape_distinct[OF _ v] ok by (simp add: draft_ok_def)
  have "map_of (vd_state v) m = Some s" if "map_of (vd_state w) m = Some s" for m s
    using that w dv by (auto simp: shrinks_def variant_distinct_def dest!: map_of_SomeD)
  moreover have "map_of (vd_keyed v) m = Some s" if "map_of (vd_keyed w) m = Some s" for m s
    using that w dv by (auto simp: shrinks_def variant_distinct_def dest!: map_of_SomeD)
  moreover have "map_of (vd_methods v) m = Some s" if "map_of (vd_methods w) m = Some s" for m s
    using that w dv by (auto simp: shrinks_def variant_distinct_def dest!: map_of_SomeD)
  ultimately have "logged x v w []" by (auto simp: logged_def tracked_def methods_args_def methods_result_def)
  then have shape: "draft_shape (set_variant x w d)"
    using edit_variant_silent[OF _ v w(1)] ok by (simp add: draft_ok_def)
  have mem: "(x, v) \<in> set (dr_variants d)" using v by (rule map_of_SomeD)
  have sub: "\<exists>u. (y, u) \<in> set (dr_variants d) \<and> shrinks u b"
    if "(y, b) \<in> set (AList.update x w (dr_variants d))" for y b
    using set_update_subset[OF that] mem w(2) by (auto simp: shrinks_def)
  have "kinds_cover (dr_kinds d) (AList.update x w (dr_variants d))"
    unfolding kinds_cover_def
  proof clarify
    fix y b
    assume "(y, b) \<in> set (AList.update x w (dr_variants d))"
    then obtain u where u: "(y, u) \<in> set (dr_variants d)" "shrinks u b" using sub by blast
    then have "variant_kinds (dr_kinds d) u" using ok by (auto simp: draft_ok_def draft_checked_def kinds_cover_def)
    then show "variant_kinds (dr_kinds d) b" using u(2) by (auto simp: variant_kinds_def shrinks_def)
  qed
  moreover have "signatures_agree (AList.update x w (dr_variants d))"
    unfolding signatures_agree_def
  proof clarify
    fix y b z c m p q
    assume "(y, b) \<in> set (AList.update x w (dr_variants d))" "(z, c) \<in> set (AList.update x w (dr_variants d))"
      and mem: "(m, p) \<in> set (vd_methods b)" "(m, q) \<in> set (vd_methods c)"
    then obtain u u' where u: "(y, u) \<in> set (dr_variants d)" "shrinks u b" "(z, u') \<in> set (dr_variants d)" "shrinks u' c"
      using sub by meson
    then have "(m, p) \<in> set (vd_methods u)" "(m, q) \<in> set (vd_methods u')" using mem by (auto simp: shrinks_def)
    then show "signature p = signature q"
      using signatures_agreeD[OF _ u(1,3)] ok by (simp add: draft_ok_def draft_checked_def)
  qed
  ultimately show ?thesis using ok shape by (auto simp: draft_ok_def draft_checked_def set_variant_def)
qed

text \<open>Every edit keeps the draft invariant.\<close>

lemma variant_distinct_put:
  "variant_distinct v \<Longrightarrow> variant_distinct (v\<lparr>vd_state := AList.update m s (vd_state v)\<rparr>)"
  "variant_distinct v \<Longrightarrow> variant_distinct (v\<lparr>vd_keyed := AList.update m s (vd_keyed v)\<rparr>)"
  "variant_distinct v \<Longrightarrow> variant_distinct (v\<lparr>vd_methods := AList.update m d (vd_methods v)\<rparr>)"
  by (simp_all add: variant_distinct_def distinct_update)

lemma logged_put:
  "logged x v (v\<lparr>vd_state := AList.update m s (vd_state v)\<rparr>) [(x, m, SideState)]"
  "logged x v (v\<lparr>vd_keyed := AList.update m s (vd_keyed v)\<rparr>) [(x, m, SideKeyed)]"
  "logged x v (v\<lparr>vd_methods := AList.update m d (vd_methods v)\<rparr>) [(x, m, SideArgs), (x, m, SideResult)]"
  by (auto simp: logged_def tracked_def methods_args_def methods_result_def)

lemma draft_ok_variant: "draft_ok data d \<Longrightarrow> draft_variant d x = Inr v \<Longrightarrow>
    map_of (dr_variants d) x = Some v \<and> variant_distinct v"
  using shape_distinct[of d x v] draft_variantD[of d x v] by (auto simp: draft_ok_def)

lemma putState_ok:
  assumes ok: "draft_ok data d" and run: "putState d x m schema = Inr d'"
  shows "draft_ok data d'"
  using run draft_ok_variant[OF ok, of x]
  by (auto simp: putState_def andThen_eq_Inr intro: put_ok[OF ok] variant_distinct_put logged_put)

lemma putKeyed_ok:
  assumes ok: "draft_ok data d" and run: "putKeyed d x m schema = Inr d'"
  shows "draft_ok data d'"
  using run draft_ok_variant[OF ok, of x]
  by (auto simp: putKeyed_def andThen_eq_Inr intro: put_ok[OF ok] variant_distinct_put logged_put)

definition has_method :: "string \<Rightarrow> draft \<Rightarrow> string \<Rightarrow> bool" where
  "has_method m d x \<longleftrightarrow> (\<exists>v. map_of (dr_variants d) x = Some v \<and> map_of (vd_methods v) m \<noteq> None)"

lemma change_one_shape:
  assumes "change_one m a r d x = Inr d'" and "draft_shape d"
    and "has_method m d x"
  shows "draft_shape d' \<and> dr_data d' = dr_data d \<and> dr_kinds d' = dr_kinds d \<and>
    (\<forall>y. has_method m d y \<longrightarrow> has_method m d' y)"
proof -
  obtain v old where v: "map_of (dr_variants d) x = Some v" and old: "map_of (vd_methods v) m = Some old"
    using assms(3) by (auto simp: has_method_def)
  define new where "new = \<lparr>md_args = or_old a (md_args old), md_result = or_old r (md_result old)\<rparr>"
  define cs where "cs = (if a \<noteq> None then [(x, m, SideArgs)] else []) @ (if r \<noteq> None then [(x, m, SideResult)] else [])"
  let ?w = "v\<lparr>vd_methods := AList.update m new (vd_methods v)\<rparr>"
  have d': "d' = log_changes cs (set_variant x ?w d)"
    using assms(1) v old by (simp add: change_one_def draft_variant_def Let_def new_def cs_def)
  have "logged x v ?w cs"
    using old by (auto simp: logged_def tracked_def methods_args_def methods_result_def new_def or_old_def cs_def
        split: option.splits if_splits)
  then have "draft_shape d'"
    unfolding d' by (intro edit_variant[OF assms(2) v] variant_distinct_put shape_distinct[OF assms(2) v])
  then show ?thesis using old by (auto simp: d' log_changes_def set_variant_def has_method_def)
qed

lemma change_all_shape:
  "run_steps (change_one m a r) d xs = Inr d' \<Longrightarrow> draft_shape d \<Longrightarrow>
   (\<And>x. x \<in> set xs \<Longrightarrow> has_method m d x) \<Longrightarrow>
   draft_shape d' \<and> dr_data d' = dr_data d \<and> dr_kinds d' = dr_kinds d"
proof (induction xs arbitrary: d)
  case (Cons x xs)
  obtain e where e: "change_one m a r d x = Inr e" "run_steps (change_one m a r) e xs = Inr d'"
    using Cons.prems(1) by (auto simp: andThen_eq_Inr)
  note step = change_one_shape[OF e(1) Cons.prems(2) Cons.prems(3)[of x]]
  have "draft_shape d' \<and> dr_data d' = dr_data e \<and> dr_kinds d' = dr_kinds e"
    using step Cons.prems(3) by (intro Cons.IH[OF e(2)]) auto
  then show ?case using step by auto
qed simp

lemma variantsWithD:
  assumes "variantsWith d m = Inr xs" and "distinct (map fst (dr_variants d))" and "x \<in> set xs"
  shows "has_method m d x"
  using assms by (fastforce simp: has_method_def variantsWith_def Let_def split: if_splits)

lemma changeMethod_ok:
  assumes ok: "draft_ok data d" and run: "changeMethod d m a r = Inr d'"
  shows "draft_ok data d'"
proof -
  obtain xs na nr e where xs: "variantsWith d m = Inr xs" and e: "run_steps (change_one m na nr) d xs = Inr e"
    and c: "checked e = Inr d'"
    using run by (auto simp: changeMethod_def andThen_eq_Inr Let_def)
  have d: "draft_shape d" "draft_checked d" "dr_data d = data" using ok by (simp_all add: draft_ok_def)
  have "distinct (map fst (dr_variants d))" using d(1) unfolding draft_shape_def Let_def by blast
  then have e: "draft_shape e" "dr_data e = dr_data d" "dr_kinds e = dr_kinds d"
    using change_all_shape[OF e d(1) variantsWithD[OF xs]] by simp_all
  then have "kinds_step (ct_kinds (dr_data e)) (dr_kinds e)" using d by (simp add: draft_checked_def)
  then show ?thesis using checked_ok[OF c e(1)] e(2) d(3) unfolding draft_ok_def by auto
qed

lemma shrinks_delete:
  "shrinks v (v\<lparr>vd_state := AList.delete m (vd_state v)\<rparr>)"
  "shrinks v (v\<lparr>vd_keyed := AList.delete m (vd_keyed v)\<rparr>)"
  "shrinks v (v\<lparr>vd_methods := AList.delete m (vd_methods v)\<rparr>)"
  by (auto simp: shrinks_def dest: in_set_deleteD)

lemma variant_distinct_delete:
  "variant_distinct v \<Longrightarrow> variant_distinct (v\<lparr>vd_state := AList.delete m (vd_state v)\<rparr>)"
  "variant_distinct v \<Longrightarrow> variant_distinct (v\<lparr>vd_keyed := AList.delete m (vd_keyed v)\<rparr>)"
  "variant_distinct v \<Longrightarrow> variant_distinct (v\<lparr>vd_methods := AList.delete m (vd_methods v)\<rparr>)"
  by (simp_all add: variant_distinct_def distinct_delete)

lemma remove_one_ok:
  assumes "remove_one m d x = Inr d'" and ok: "draft_ok data d"
  shows "draft_ok data d'"
  using assms(1) draft_ok_variant[OF ok, of x]
  by (auto simp: remove_one_def andThen_eq_Inr intro: remove_ok[OF ok] shrinks_delete variant_distinct_delete)

lemma apply_edit_ok:
  assumes run: "apply_edit d e = Inr d'" and ok: "draft_ok data d"
  shows "draft_ok data d'"
proof (cases e)
  case (RemoveMethod m)
  then obtain xs where "run_steps (remove_one m) d xs = Inr d'" using run by (auto simp: andThen_eq_Inr)
  then show ?thesis by (rule run_steps_invariant) (use ok in \<open>auto intro: remove_one_ok\<close>)
next
  case (AddMethod x m a r)
  then show ?thesis using run draft_ok_variant[OF ok, of x]
    by (auto simp: andThen_eq_Inr intro: put_ok[OF ok] variant_distinct_put logged_put)
next
  case (RemoveState x m)
  then show ?thesis using run draft_ok_variant[OF ok, of x]
    by (auto simp: andThen_eq_Inr intro: remove_ok[OF ok] shrinks_delete variant_distinct_delete)
next
  case (RemoveKeyed x m)
  then show ?thesis using run draft_ok_variant[OF ok, of x]
    by (auto simp: andThen_eq_Inr intro: remove_ok[OF ok] shrinks_delete variant_distinct_delete)
qed (use run in \<open>auto simp: andThen_eq_Inr intro: putState_ok[OF ok] putKeyed_ok[OF ok] changeMethod_ok[OF ok]\<close>)

subsection \<open>Contracts\<close>

definition version_ok :: "contract_data \<Rightarrow> version_data \<Rightarrow> bool" where
  "version_ok data v \<longleftrightarrow>
     map fst (ver_variants v) = map fst (ver_variants (hd (ct_versions data))) \<and>
     distinct (map fst (ver_variants v)) \<and> (\<forall>(_, w)\<in>set (ver_variants v). variant_distinct w) \<and>
     kinds_cover (ct_kinds data) (ver_variants v) \<and> signatures_agree (ver_variants v) \<and>
     ver_fingerprint v =
       ver_fingerprint (materialize (ct_kind data) (ct_params data) (ver_version v) (ver_variants v) (ver_changes v))"

definition successive :: "version_data \<Rightarrow> version_data \<Rightarrow> bool" where
  "successive v w \<longleftrightarrow>
     ver_version w = ver_version v + 1 \<and> logged_all (ver_variants v) (ver_variants w) (ver_changes w)"

definition contract_ok :: "contract_data \<Rightarrow> bool" where
  "contract_ok data \<longleftrightarrow>
     ct_versions data \<noteq> [] \<and> reserved_free (ct_kinds data) \<and>
     (ct_kind data = Local \<longrightarrow> map fst (currentVariants data) = [LOCAL]) \<and>
     (\<forall>v\<in>set (ct_versions data). version_ok data v) \<and>
     (\<forall>i. Suc i < length (ct_versions data) \<longrightarrow> successive (ct_versions data ! i) (ct_versions data ! Suc i))"

lemma variants_eq_last: "contract_ok data \<Longrightarrow> v \<in> set (ct_versions data) \<Longrightarrow>
    map fst (ver_variants v) = map fst (currentVariants data)"
  unfolding contract_ok_def version_ok_def currentVariants_def by (metis last_in_set)

lemma materialize_sel [simp]:
  "ver_version (materialize k p n vs cs) = n" "ver_variants (materialize k p n vs cs) = vs"
  "ver_changes (materialize k p n vs cs) = cs"
  by (simp_all add: materialize_def Let_def)

lemma new_draft_ok: "contract_ok data \<Longrightarrow> draft_ok data (new_draft data)"
proof -
  assume ok: "contract_ok data"
  let ?c = "last (ct_versions data)"
  have c: "version_ok data ?c" using ok by (simp add: contract_ok_def)
  then have "logged_all (ver_variants ?c) (ver_variants ?c) []" by (auto simp: logged_all_def)
  then show ?thesis
    using c by (auto simp: draft_ok_def draft_shape_def draft_checked_def new_draft_def Let_def version_ok_def)
qed

lemma next_data_ok:
  assumes ok: "contract_ok data" and d: "draft_ok data d"
  shows "contract_ok (next_data d)"
proof -
  let ?c = "last (ct_versions data)"
  let ?v = "materialize (ct_kind data) (ct_params data) (dr_version d) (dr_variants d) (dr_changes d)"
  have ne: "ct_versions data \<noteq> []" using ok by (simp add: contract_ok_def)
  have dd: "dr_data d = data" and chk: "draft_checked d" and sh: "draft_shape d" using d by (simp_all add: draft_ok_def)
  have nd: "next_data d = data\<lparr>ct_versions := ct_versions data @ [?v], ct_kinds := dr_kinds d\<rparr>"
    by (simp add: next_data_def dd Let_def)
  have ext: "extends (ct_kinds data) (dr_kinds d)" and res: "reserved_free (ct_kinds data) \<longrightarrow> reserved_free (dr_kinds d)"
    using chk by (simp_all add: draft_checked_def kinds_step_def dd)
  have old: "version_ok (next_data d) v" if "v \<in> set (ct_versions data)" for v
  proof -
    have "version_ok data v" using ok that by (simp add: contract_ok_def)
    then show ?thesis using kinds_cover_extends[OF _ ext] ne by (auto simp: version_ok_def nd)
  qed
  have names: "map fst (dr_variants d) = map fst (ver_variants ?c)" and last: "dr_version d = ver_version ?c + 1"
    and log: "logged_all (ver_variants ?c) (dr_variants d) (dr_changes d)"
    and dist: "distinct (map fst (dr_variants d))" "\<forall>(_, w)\<in>set (dr_variants d). variant_distinct w"
    using sh unfolding draft_shape_def Let_def dd by blast+
  have new: "version_ok (next_data d) ?v"
  proof -
    have "map fst (ver_variants ?c) = map fst (ver_variants (hd (ct_versions data)))"
      using ok last_in_set[OF ne] unfolding contract_ok_def version_ok_def by blast
    then have "map fst (dr_variants d) = map fst (ver_variants (hd (ct_versions (next_data d))))"
      using ne names by (simp add: nd)
    moreover have "kinds_cover (dr_kinds d) (dr_variants d)" "signatures_agree (dr_variants d)"
      using chk by (simp_all add: draft_checked_def)
    ultimately show ?thesis using dist unfolding version_ok_def by (simp add: nd)
  qed
  have succ: "successive (ct_versions (next_data d) ! i) (ct_versions (next_data d) ! Suc i)"
    if "Suc i < length (ct_versions (next_data d))" for i
  proof (cases "Suc i < length (ct_versions data)")
    case True
    then show ?thesis using ok by (simp add: contract_ok_def nd nth_append)
  next
    case False
    then have i: "Suc i = length (ct_versions data)" using that by (simp add: nd)
    then have "ct_versions (next_data d) ! i = ?c" using ne by (simp add: nd nth_append last_conv_nth flip: i)
    then show ?thesis using i last log by (simp add: successive_def nd)
  qed
  have loc: "ct_kind data = Local \<longrightarrow> map fst (dr_variants d) = [LOCAL]"
    using ok names by (simp add: contract_ok_def currentVariants_def)
  show ?thesis
    unfolding contract_ok_def using old new succ ok res loc
    by (auto simp: nd contract_ok_def currentVariants_def)
qed

lemma evolve_ok:
  assumes "contract_ok data" and "evolve data es returns_editor = Inr data'"
  shows "contract_ok data' \<and> returns_editor \<and>
    (\<exists>v. ct_versions data' = ct_versions data @ [v] \<and> ver_version v = ver_version (last (ct_versions data)) + 1)"
proof -
  obtain d where run: "run_steps apply_edit (new_draft data) (edit_calls es) = Inr d"
    and r: "returns_editor" and d': "data' = next_data d"
    using assms(2) by (auto simp: evolve_def editWith_def andThen_eq_Inr ensure_eq_Inr)
  have d: "draft_ok data d"
    by (rule run_steps_invariant[where P = "draft_ok data", OF run new_draft_ok[OF assms(1)]]) (auto intro: apply_edit_ok)
  then have "dr_data d = data" "dr_version d = ver_version (last (ct_versions data)) + 1"
    unfolding draft_ok_def draft_shape_def Let_def by auto
  then show ?thesis using next_data_ok[OF assms(1) d] r by (simp add: d' next_data_def Let_def)
qed

text \<open>
  C34. \<open>evolve\<close> keeps the invariant of contracts and appends exactly one version, the next number,
  to an unchanged history; it refuses a callback that returns another editor.
\<close>

theorem evolve_keeps_contract:
  assumes "contract_ok data" and "evolve data es returns_editor = Inr data'"
  shows "contract_ok data' \<and> returns_editor \<and>
    (\<exists>v. ct_versions data' = ct_versions data @ [v] \<and> ver_version v = ver_version (last (ct_versions data)) + 1)"
  by (rule evolve_ok[OF assms])

subsection \<open>Declarations\<close>

lemma declare_ok:
  assumes "declare_contract kind name declaration vs address = Inr data" and "distinct (map fst vs)"
    and "\<forall>(_, v)\<in>set vs. variant_distinct v" and "kind = Local \<longrightarrow> map fst vs = [LOCAL]"
  shows "contract_ok data"
proof -
  obtain version kinds params where
    ks: "checkMembers vs [] (memberPath name kind) = Inr kinds" and
    data: "data = \<lparr>ct_kind = kind, ct_name = name, ct_params = params, ct_hostAddress = address,
      ct_versions = [materialize kind params version vs []], ct_kinds = kinds\<rparr>"
    using assms(1) by (auto simp: declare_contract_def andThen_eq_Inr split: jsval.splits)
  show ?thesis
    using checkMembers_ok[OF ks] assms(2-4)
    by (auto simp: contract_ok_def data version_ok_def kinds_step_def currentVariants_def reserved_free_def)
qed

lemma traverse_keys:
  assumes "traverse f xs = Inr ys" and "\<And>x y. f x = Inr y \<Longrightarrow> fst y = fst x"
  shows "map fst ys = map fst xs"
  using assms(1) unfolding traverse_eq_Inr by (induction rule: list_all2_induct) (auto simp: assms(2))

lemma entriesOf_wf:
  "entriesOf v p = Inr kvs \<Longrightarrow> wf_val v \<Longrightarrow> distinct (map fst kvs) \<and> (\<forall>kv\<in>set kvs. wf_val (snd kv))"
  by (auto simp: entriesOf_def split: jsval.splits)

lemma wf_field:
  assumes "wf_val v"
  shows "wf_val (field v key)"
proof (cases "entriesOf v []")
  case (Inr entries)
  then have "\<forall>kv\<in>set entries. wf_val (snd kv)" using entriesOf_wf[OF _ assms] by blast
  then show ?thesis using Inr by (auto simp: field_def split: option.splits dest!: map_of_SomeD)
qed (simp add: field_def)

lemma readVariant_distinct:
  assumes "readVariant source path = Inr v" and "wf_val source"
  shows "variant_distinct v"
proof -
  obtain ss ms es fs where
    s: "entriesOf (or_empty (field source ''state'')) (path @ ''.state'') = Inr ss" "traverse (read_state_entry path) ss = Inr es" and
    m: "entriesOf (or_empty (field source ''methods'')) (path @ ''.methods'') = Inr ms"
      "traverse (read_method_entry path) ms = Inr fs" and
    v: "v = \<lparr>vd_state = es, vd_methods = fs, vd_keyed = []\<rparr>"
    using assms(1) by (auto simp: readVariant_def andThen_eq_Inr)
  have wf: "wf_val (or_empty (field source key))" for key using wf_field[OF assms(2)] by (simp add: or_empty_def)
  have "map fst es = map fst ss"
    by (rule traverse_keys[OF s(2)])
      (auto simp: read_state_entry_def Let_def andThen_eq_Inr split: jsval.splits)
  moreover have "map fst fs = map fst ms"
    by (rule traverse_keys[OF m(2)])
      (auto simp: read_method_entry_def Let_def andThen_eq_Inr split: jsval.splits)
  ultimately show ?thesis
    using entriesOf_wf[OF s(1) wf] entriesOf_wf[OF m(1) wf] by (simp add: variant_distinct_def v)
qed

lemma read_local_member_distinct:
  "read_local_member name v e = Inr w \<Longrightarrow> variant_distinct v \<Longrightarrow> variant_distinct w"
  by (cases e)
    (auto simp: read_local_member_def Let_def andThen_eq_Inr variant_distinct_def distinct_update split: jsval.splits)

lemma remote_ok:
  assumes "wf_val declaration" and "remote name declaration = Inr data"
  shows "contract_ok data"
proof -
  obtain entries read where
    e: "entriesOf (field declaration ''variants'') (name @ ''.variants'') = Inr entries" and
    r: "traverse (\<lambda>(variant, members). andThen (readVariant members (dot name variant)) (\<lambda>v. Inr (variant, v))) entries = Inr read" and
    d: "declare_contract Remote name declaration read (Some (field declaration ''hostAddress'')) = Inr data"
    using assms(2) by (auto simp: remote_def andThen_eq_Inr)
  have wf: "distinct (map fst entries)" "\<forall>kv\<in>set entries. wf_val (snd kv)"
    using entriesOf_wf[OF e wf_field[OF assms(1)]] by auto
  have keys: "map fst read = map fst entries" by (rule traverse_keys[OF r]) (auto simp: andThen_eq_Inr)
  have "\<forall>(_, v)\<in>set read. variant_distinct v"
    using list_all2_rightD[OF r[unfolded traverse_eq_Inr]] wf(2)
    by (fastforce simp: andThen_eq_Inr dest: readVariant_distinct)
  then show ?thesis using declare_ok[OF d] wf(1) keys by simp
qed

lemma local_ok:
  assumes "local_contract name declaration = Inr data"
  shows "contract_ok data"
proof -
  obtain members v where
    r: "run_steps (read_local_member name) \<lparr>vd_state = [], vd_methods = [], vd_keyed = []\<rparr> members = Inr v" and
    d: "declare_contract Local name declaration [(LOCAL, v)] None = Inr data"
    using assms by (auto simp: local_contract_def andThen_eq_Inr)
  have "variant_distinct v"
    by (rule run_steps_invariant[where P = variant_distinct, OF r])
      (simp add: variant_distinct_def, rule read_local_member_distinct)
  then show ?thesis using declare_ok[OF d] by simp
qed

text \<open>C36. Whatever \<open>remote\<close> and \<open>local\<close> accept is a contract with the invariant.\<close>

theorem declarations_make_contracts:
  assumes "wf_val declaration" and "remote name declaration = Inr data \<or> local_contract name declaration = Inr data"
  shows "contract_ok data"
  using assms remote_ok local_ok by blast

text \<open>A sample contract and an evolution of it; schemas are \<open>true\<close> and \<open>false\<close>.\<close>

definition bool_snapshot :: "bool \<Rightarrow> snapshot" where
  "bool_snapshot b = \<lparr>sn_schema = JBool b, sn_normal = JBool b, sn_bytes = False\<rparr>"

lemma snapshot_bool [simp]:
  "snapshotSchema (VBool b) p = Inr (bool_snapshot b)" "snapshotArguments (VBool b) p = Inr (bool_snapshot b)"
  by (simp_all add: snapshotSchema_def snapshotArguments_def bool_snapshot_def)

definition sample_declaration :: jsval where
  "sample_declaration = VObj
     [(''version'', VNum 1), (''params'', VObj []),
      (''members'', VObj [(''title'', VBool True), (''docs'', VKeyed (VBool True)),
         (''rename'', VMethod (VBool True) (VBool False))])]"

definition sample_edits :: edits where
  "sample_edits = LocalEdits [LState ''title'' (VBool False), LRemoveMethod ''rename'', LAddState ''count'' (VBool True)]"

definition sample_params :: params_data where
  "sample_params = projr (readParams [] ''notes.params'')"

definition sample_variant :: variant_data where
  "sample_variant = \<lparr>vd_state = [(''title'', bool_snapshot True)],
     vd_methods = [(''rename'', \<lparr>md_args = bool_snapshot True, md_result = bool_snapshot False\<rparr>)],
     vd_keyed = [(''docs'', bool_snapshot True)]\<rparr>"

definition sample_contract :: contract_data where
  "sample_contract = \<lparr>ct_kind = Local, ct_name = ''notes'', ct_params = sample_params, ct_hostAddress = None,
     ct_versions = [materialize Local sample_params 1 [(LOCAL, sample_variant)] []],
     ct_kinds = [(''title'', MState), (''docs'', MKeyed), (''rename'', MMethod)]\<rparr>"

definition sample_evolved :: contract_data where
  "sample_evolved = sample_contract\<lparr>
     ct_versions := ct_versions sample_contract @
       [materialize Local sample_params 2
          [(LOCAL, \<lparr>vd_state = [(''title'', bool_snapshot False), (''count'', bool_snapshot True)], vd_methods = [],
             vd_keyed = [(''docs'', bool_snapshot True)]\<rparr>)]
          [(LOCAL, ''title'', SideState), (LOCAL, ''count'', SideState)]],
     ct_kinds := [(''title'', MState), (''docs'', MKeyed), (''rename'', MMethod), (''count'', MState)]\<rparr>"

lemmas check_defs = checkMembers_def check_variant_def check_method_def recordKind_def RESERVED_MEMBERS_def

lemma sample_declared: "local_contract ''notes'' sample_declaration = Inr sample_contract"
proof -
  have "checkName ''notes'' = Inr ()" by code_simp
  moreover have "readParams [] ''notes.params'' = Inr sample_params"
    by (simp add: sample_params_def readParams_def)
  ultimately show ?thesis
    by (simp add: local_contract_def sample_declaration_def checkKeys_def entriesOf_def field_def
        read_local_member_def readMethod_def declare_contract_def isSafeInteger_def check_defs
        sample_contract_def sample_variant_def signature_def)
qed

lemma sample_evolves: "evolve sample_contract sample_edits True = Inr sample_evolved"
  by (simp add: evolve_def sample_edits_def edit_calls_def editWith_def new_draft_def sample_contract_def Let_def
      draft_variant_def putState_def checked_def log_changes_def set_variant_def variantsWith_def remove_one_def
      refuseDeclared_def sample_variant_def check_defs signature_def next_data_def sample_evolved_def)

lemma sample_declaration_wf: "wf_val sample_declaration"
  by (simp add: sample_declaration_def)

theorem declarations_make_contracts_witness: "contract_ok sample_contract"
  by (rule declarations_make_contracts[OF sample_declaration_wf disjI2[OF sample_declared]])

lemma sample_contract_ok: "contract_ok sample_contract"
  by (rule local_ok[OF sample_declared])

theorem evolve_keeps_contract_witness:
  "contract_ok sample_evolved \<and> True \<and>
   (\<exists>v. ct_versions sample_evolved = ct_versions sample_contract @ [v] \<and>
      ver_version v = ver_version (last (ct_versions sample_contract)) + 1)"
  by (rule evolve_keeps_contract[OF sample_contract_ok sample_evolves])

end
