(* ===== verification/Chord_Accepts_Laws.thy ===== *)
theory Chord_Accepts_Laws
  imports Chord_Accepts Chord_Evolve_Laws
begin

text \<open>
  The needs of an accepted version are complete: whatever edits made the history, a member whose
  schema in the current version is not the one of the older version is needed, and a table that
  passes \<open>checkAccepts\<close> maps it, replaces it or refuses it.
\<close>

subsection \<open>The log of a history\<close>

definition log_after :: "contract_data \<Rightarrow> nat \<Rightarrow> change list" where
  "log_after data i = concat (map ver_changes (drop (i + 1) (ct_versions data)))"

lemma changes_after_log: "change \<in> set (log_after data i) \<Longrightarrow> changeKey change \<in> changes_after data i"
  by (auto simp: log_after_def changes_after_def)

lemma logged_slice:
  assumes ok: "contract_ok data" and "i \<le> j" and "j < length (ct_versions data)"
    and "map_of (ver_variants (ct_versions data ! i)) x = Some v"
    and "map_of (ver_variants (ct_versions data ! j)) x = Some w"
  shows "logged x v w (concat (map ver_changes (Prelude.slice (ct_versions data) (i + 1) (j + 1))))"
  using assms(2-5)
proof (induction j arbitrary: w rule: dec_induct)
  case base
  then show ?case by simp
next
  case (step j)
  let ?vs = "ct_versions data"
  have j: "j < length ?vs" using step.prems(1) by simp
  have "map fst (ver_variants (?vs ! Suc j)) = map fst (ver_variants (?vs ! j))"
    using variants_eq_last[OF ok] j step.prems(1) by (metis nth_mem)
  then have "map_of (ver_variants (?vs ! j)) x \<noteq> None"
    using step.prems(3) by (metis map_of_eq_None_iff option.distinct(1) list.set_map)
  then obtain u where u: "map_of (ver_variants (?vs ! j)) x = Some u" by auto
  have "logged x u w (ver_changes (?vs ! Suc j))"
    using ok step.prems(1,3) u by (auto simp: contract_ok_def successive_def logged_all_def)
  moreover have "Prelude.slice ?vs (i + 1) (Suc j + 1) = Prelude.slice ?vs (i + 1) (j + 1) @ [?vs ! Suc j]"
    using step.hyps(1) step.prems(1) by (simp add: Prelude.slice_def Suc_diff_le take_Suc_conv_app_nth)
  ultimately show ?case using logged_trans[OF step.IH[OF j step.prems(2) u]] by simp
qed

text \<open>Between any version and the current one, the log names every difference.\<close>

lemma history_logged:
  assumes ok: "contract_ok data" and i: "i < length (ct_versions data)"
    and v: "map_of (ver_variants (ct_versions data ! i)) x = Some v" and w: "map_of (currentVariants data) x = Some w"
  shows "logged x v w (log_after data i)"
proof -
  let ?vs = "ct_versions data"
  have "currentVariants data = ver_variants (?vs ! (length ?vs - 1))"
    using i by (cases "?vs = []") (simp_all add: currentVariants_def last_conv_nth)
  moreover have "Prelude.slice ?vs (i + 1) (length ?vs - 1 + 1) = drop (i + 1) ?vs" using i by (simp add: Prelude.slice_def)
  ultimately show ?thesis
    using logged_slice[OF ok, of i "length ?vs - 1"] i v w by (simp add: log_after_def)
qed

subsection \<open>What is needed\<close>

lemma member_needs_simps [simp]:
  "member_needs changed x side [] now = []"
  "member_needs changed x side (e # old) now =
     (if map_of now (fst e) = None then [(fst e, SRemoved)]
      else if changed (x, fst e, side) then [(fst e, SChanged)] else []) @ member_needs changed x side old now"
  by (auto simp: member_needs_def split: prod.splits)

lemma map_of_member_needs:
  "map_of (member_needs changed x side old now) m =
     (if map_of old m = None then None
      else if map_of now m = None then Some SRemoved
      else if changed (x, m, side) then Some SChanged else None)"
  by (induction old) (auto simp: map_add_def)

lemma ns_state_variant_step:
  "map_of (ns_state (variant_step changed cur acc (x, v))) y =
     (let n = member_needs changed x SideState (vd_state v) (vd_state (the (map_of cur x)))
      in if y = x \<and> n \<noteq> [] then Some n else map_of (ns_state acc) y)"
  by (auto simp: variant_step_def Let_def)

lemma ns_state_fold:
  "distinct (map fst vs) \<Longrightarrow>
   map_of (ns_state (foldl (variant_step changed cur) acc vs)) y =
     (case map_of vs y of
        None \<Rightarrow> map_of (ns_state acc) y
      | Some v \<Rightarrow>
          let n = member_needs changed y SideState (vd_state v) (vd_state (the (map_of cur y)))
          in if n \<noteq> [] then Some n else map_of (ns_state acc) y)"
proof (induction vs arbitrary: acc)
  case (Cons e vs)
  obtain x v where e: "e = (x, v)" by (cases e)
  have "y = x \<Longrightarrow> map_of vs y = None" using Cons.prems by (simp add: e map_of_eq_None_iff)
  then show ?case
    using Cons by (cases "y = x") (auto simp: e ns_state_variant_step Let_def split: option.splits)
qed simp

definition bits :: "(string \<times> bool \<times> bool \<times> bool) list \<Rightarrow> string \<Rightarrow> bool \<times> bool \<times> bool" where
  "bits acc m = (case map_of acc m of None \<Rightarrow> (False, False, False) | Some n \<Rightarrow> n)"

definition or3 :: "bool \<times> bool \<times> bool \<Rightarrow> bool \<times> bool \<times> bool \<Rightarrow> bool \<times> bool \<times> bool" where
  "or3 = (\<lambda>(a, b, c) (a', b', c'). (a \<or> a', b \<or> b', c \<or> c'))"

lemma or3_assoc: "or3 (or3 a b) c = or3 a (or3 b c)"
  by (auto simp: or3_def split: prod.splits)

lemma or3_idem: "or3 (or3 a b) b = or3 a b"
  by (auto simp: or3_def split: prod.splits)

lemma method_fold:
  "map_of (foldl (method_step changed x now) acc ms) m =
     (if m \<in> set ms
      then Some (or3 (bits acc m) (map_of now m = None, changed (x, m, SideArgs), changed (x, m, SideResult)))
      else map_of acc m)"
proof (induction ms arbitrary: acc)
  case (Cons k ms)
  have step: "map_of (method_step changed x now acc k) =
      (map_of acc)(k \<mapsto> or3 (bits acc k) (map_of now k = None, changed (x, k, SideArgs), changed (x, k, SideResult)))"
    by (auto simp: method_step_def Let_def or3_def bits_def split: option.splits)
  then show ?case using Cons by (auto simp: bits_def or3_idem)
qed simp

text \<open>An entry of the fold over the variants is what its old variants contribute.\<close>

definition contributes :: "(change \<Rightarrow> bool) \<Rightarrow> variants \<Rightarrow> string \<Rightarrow> string \<times> variant_data \<Rightarrow> bool \<times> bool \<times> bool \<Rightarrow> bool" where
  "contributes changed cur m e b \<longleftrightarrow>
     (case e of (x, v) \<Rightarrow> m \<in> set (map fst (vd_methods v)) \<and>
        b = (map_of (vd_methods (the (map_of cur x))) m = None, changed (x, m, SideArgs), changed (x, m, SideResult)))"

definition below :: "bool \<times> bool \<times> bool \<Rightarrow> bool \<times> bool \<times> bool \<Rightarrow> bool" where
  "below b c \<longleftrightarrow> or3 b c = c"

lemma below_simps [simp]: "below b b" "below (a1, a2, a3) (b1, b2, b3) \<longleftrightarrow> (a1 \<longrightarrow> b1) \<and> (a2 \<longrightarrow> b2) \<and> (a3 \<longrightarrow> b3)"
  by (cases b) (auto simp: below_def or3_def)

lemma below_or3: "below b (or3 b c)" "below c (or3 b c)"
  by (cases b; cases c; auto simp: or3_def)+

lemma below_trans: "below a b \<Longrightarrow> below b c \<Longrightarrow> below a c"
  by (cases a; cases b; cases c) auto

lemma ns_methods_step:
  "map_of (ns_methods (variant_step changed cur acc (x, v))) m =
     (if m \<in> set (map fst (vd_methods v))
      then Some (or3 (bits (ns_methods acc) m)
        (map_of (vd_methods (the (map_of cur x))) m = None, changed (x, m, SideArgs), changed (x, m, SideResult)))
      else map_of (ns_methods acc) m)"
  by (simp add: variant_step_def Let_def method_fold)

lemma ns_methods_keep:
  "map_of (ns_methods acc) m = Some b \<Longrightarrow>
   \<exists>c. map_of (ns_methods (foldl (variant_step changed cur) acc vs)) m = Some c \<and> below b c"
proof (induction vs arbitrary: acc b)
  case (Cons e vs)
  obtain x v where e: "e = (x, v)" by (cases e)
  have "\<exists>b'. map_of (ns_methods (variant_step changed cur acc e)) m = Some b' \<and> below b b'"
    by (cases "m \<in> set (map fst (vd_methods v))")
      (simp_all add: e ns_methods_step bits_def below_or3 Cons.prems del: split_paired_Ex)
  then obtain b' where b': "map_of (ns_methods (variant_step changed cur acc e)) m = Some b'" "below b b'" by blast
  obtain c where c: "map_of (ns_methods (foldl (variant_step changed cur) (variant_step changed cur acc e) vs)) m = Some c"
      "below b' c"
    using Cons.IH[OF b'(1)] by blast
  show ?case by (rule exI[of _ c]) (simp add: c(1) below_trans[OF b'(2) c(2)] del: below_simps)
qed simp

lemma ns_methods_fold:
  "e \<in> set vs \<Longrightarrow> contributes changed cur m e b \<Longrightarrow>
   \<exists>c. map_of (ns_methods (foldl (variant_step changed cur) acc vs)) m = Some c \<and> below b c"
proof (induction vs arbitrary: acc)
  case (Cons a vs)
  show ?case
  proof (cases "e = a")
    case True
    then obtain c where "map_of (ns_methods (variant_step changed cur acc a)) m = Some c" "below b c"
      using Cons.prems(2) by (cases a) (auto simp: contributes_def ns_methods_step below_or3)
    moreover from this obtain d where d: "below c d"
        "map_of (ns_methods (foldl (variant_step changed cur) (variant_step changed cur acc a) vs)) m = Some d"
      using ns_methods_keep by blast
    ultimately have "below b d" by (rule_tac below_trans)
    then show ?thesis by (intro exI[of _ d]) (simp add: d(2) del: below_simps)
  next
    case False
    then show ?thesis using Cons by simp
  qed
qed simp

lemma method_needs_simps [simp]:
  "method_needs [] = []"
  "method_needs ((m, b) # acc) =
     (case b of (removed, args, result) \<Rightarrow>
        if removed then [(m, MRemoved)] else if args \<or> result then [(m, MChanged args result)] else []) @
     method_needs acc"
  by (auto simp: method_needs_def split: prod.splits)

lemma method_needs_keys: "set (map fst (method_needs acc)) \<subseteq> set (map fst acc)"
  by (auto simp: method_needs_def split: if_splits intro: rev_image_eqI)

lemma map_of_method_needs:
  "distinct (map fst acc) \<Longrightarrow>
   map_of (method_needs acc) m =
     (case map_of acc m of
        None \<Rightarrow> None
      | Some (removed, args, result) \<Rightarrow>
          if removed then Some MRemoved else if args \<or> result then Some (MChanged args result) else None)"
proof (induction acc)
  case (Cons e acc)
  obtain k b where e: "e = (k, b)" by (cases e)
  have "k \<notin> set (map fst (method_needs acc))" using Cons.prems method_needs_keys[of acc] by (auto simp: e)
  then have "map_of (method_needs acc) k = None" by (simp add: map_of_eq_None_iff)
  then show ?case using Cons by (cases b) (auto simp: e map_add_def split: option.splits)
qed simp

lemma method_fold_distinct:
  "distinct (map fst acc) \<Longrightarrow> distinct (map fst (foldl (method_step changed x now) acc ms))"
  by (induction ms arbitrary: acc) (auto simp: method_step_def Let_def distinct_update split: prod.splits)

lemma ns_methods_distinct:
  "distinct (map fst (ns_methods acc)) \<Longrightarrow>
   distinct (map fst (ns_methods (foldl (variant_step changed cur) acc vs)))"
proof (induction vs arbitrary: acc)
  case (Cons e vs)
  have "distinct (map fst (ns_methods (variant_step changed cur acc e)))"
    using Cons.prems by (cases e) (simp add: variant_step_def Let_def method_fold_distinct)
  then show ?case using Cons.IH by simp
qed simp

lemma ns_keyed_fold:
  "map_of (foldl (\<lambda>ks (m, n). AList.update m n ks) acc ns) m =
     (case map_of (rev ns) m of None \<Rightarrow> map_of acc m | Some n \<Rightarrow> Some n)"
  by (induction ns arbitrary: acc) (auto simp: map_add_def split: option.splits)

lemma member_needs_distinct: "distinct (map fst old) \<Longrightarrow> distinct (map fst (member_needs changed x side old now))"
proof -
  have "set (map fst (member_needs changed x side old now)) \<subseteq> set (map fst old)" for old
    by (induction old) (auto split: if_splits)
  then show "distinct (map fst old) \<Longrightarrow> ?thesis" by (induction old) (auto split: if_splits)
qed

text \<open>
  The needs of an older version, member by member. \<open>log_after\<close> is the log of the later versions.
\<close>

definition edited_after :: "contract_data \<Rightarrow> nat \<Rightarrow> change \<Rightarrow> bool" where
  "edited_after data i change \<longleftrightarrow> changeKey change \<in> changes_after data i"

lemma edited_after_log: "change \<in> set (log_after data i) \<Longrightarrow> edited_after data i change"
  by (simp add: edited_after_def changes_after_log)

definition start_needs :: need_state where
  "start_needs = \<lparr>ns_state = [], ns_methods = [], ns_keyed = []\<rparr>"

lemma needs_of_eq:
  "needs_of data i =
     (let acc = foldl (variant_step (edited_after data i) (currentVariants data)) start_needs
        (ver_variants (ct_versions data ! i))
      in \<lparr>nd_state = ns_state acc, nd_methods = method_needs (ns_methods acc), nd_keyed = ns_keyed acc\<rparr>)"
  by (simp add: needs_of_def edited_after_def[abs_def] start_needs_def Let_def)

definition need_of_state :: "needs \<Rightarrow> string \<Rightarrow> string \<Rightarrow> state_need option" where
  "need_of_state n x m = (case map_of (nd_state n) x of None \<Rightarrow> None | Some ns \<Rightarrow> map_of ns m)"

lemma state_need_exact:
  assumes ok: "contract_ok data" and i: "i < length (ct_versions data)"
    and v: "map_of (ver_variants (ct_versions data ! i)) x = Some v" and w: "map_of (currentVariants data) x = Some w"
  shows "need_of_state (needs_of data i) x m =
    (if map_of (vd_state v) m = None then None
     else if map_of (vd_state w) m = None then Some SRemoved
     else if edited_after data i (x, m, SideState) then Some SChanged else None)"
proof -
  have "distinct (map fst (ver_variants (ct_versions data ! i)))"
    using ok i unfolding contract_ok_def version_ok_def by (meson nth_mem)
  then show ?thesis
    using map_of_member_needs[of "edited_after data i" x SideState "vd_state v" "vd_state w" m]
    by (auto simp: need_of_state_def needs_of_eq Let_def ns_state_fold v w start_needs_def)
qed

lemma method_need_exact:
  assumes ok: "contract_ok data" and i: "i < length (ct_versions data)"
    and v: "map_of (ver_variants (ct_versions data ! i)) x = Some v" and w: "map_of (currentVariants data) x = Some w"
    and m: "map_of (vd_methods v) m = Some d"
  shows "(map_of (vd_methods w) m = None \<longrightarrow> map_of (nd_methods (needs_of data i)) m = Some MRemoved) \<and>
    (edited_after data i (x, m, SideArgs) \<longrightarrow>
      (\<exists>n. map_of (nd_methods (needs_of data i)) m = Some n \<and> (n = MRemoved \<or> (\<exists>r. n = MChanged True r)))) \<and>
    (edited_after data i (x, m, SideResult) \<longrightarrow>
      (\<exists>n. map_of (nd_methods (needs_of data i)) m = Some n \<and> (n = MRemoved \<or> (\<exists>a. n = MChanged a True))))"
proof -
  let ?ch = "edited_after data i" and ?cur = "currentVariants data" and ?vs = "ver_variants (ct_versions data ! i)"
  let ?b = "(map_of (vd_methods w) m = None, ?ch (x, m, SideArgs), ?ch (x, m, SideResult))"
  have "contributes ?ch ?cur m (x, v) ?b" using m w by (auto simp: contributes_def dest: map_of_SomeD intro: rev_image_eqI)
  then obtain c where c: "map_of (ns_methods (foldl (variant_step ?ch ?cur) start_needs ?vs)) m = Some c" "below ?b c"
    using ns_methods_fold map_of_SomeD[OF v] by blast
  have "distinct (map fst (ns_methods (foldl (variant_step ?ch ?cur) start_needs ?vs)))"
    by (rule ns_methods_distinct) (simp add: start_needs_def)
  then have "map_of (nd_methods (needs_of data i)) m = (case c of (removed, args, result) \<Rightarrow>
      if removed then Some MRemoved else if args \<or> result then Some (MChanged args result) else None)"
    using c(1) by (simp add: needs_of_eq Let_def map_of_method_needs)
  then show ?thesis using c(2) by (cases c) auto
qed

lemma keyed_need_exact:
  assumes ok: "contract_ok data" and i: "i < length (ct_versions data)" and loc: "ct_kind data = Local"
    and v: "map_of (ver_variants (ct_versions data ! i)) x = Some v" and w: "map_of (currentVariants data) x = Some w"
  shows "map_of (nd_keyed (needs_of data i)) m =
    (if map_of (vd_keyed v) m = None then None
     else if map_of (vd_keyed w) m = None then Some SRemoved
     else if edited_after data i (x, m, SideKeyed) then Some SChanged else None)"
proof -
  let ?vs = "ver_variants (ct_versions data ! i)"
  have "map fst (currentVariants data) = [LOCAL]" using ok loc by (simp add: contract_ok_def)
  then have "map fst ?vs = [LOCAL]" using variants_eq_last[OF ok] i by simp
  then have vs: "?vs = [(x, v)]" using v by (cases ?vs) (auto split: if_splits)
  have "version_ok data (ct_versions data ! i)" using ok i by (simp add: contract_ok_def)
  then have "distinct (map fst (vd_keyed v))" by (simp add: version_ok_def vs variant_distinct_def)
  then have "distinct (map fst (member_needs (edited_after data i) x SideKeyed (vd_keyed v) (vd_keyed w)))"
    by (rule member_needs_distinct)
  then have "map_of (rev (member_needs (edited_after data i) x SideKeyed (vd_keyed v) (vd_keyed w))) =
      map_of (member_needs (edited_after data i) x SideKeyed (vd_keyed v) (vd_keyed w))"
    by (simp add: map_of_inject_set rev_map[symmetric])
  then show ?thesis
    by (auto simp: needs_of_eq Let_def vs variant_step_def w ns_keyed_fold start_needs_def map_of_member_needs)
qed

subsection \<open>Checked tables\<close>

lemma field_entries: "entriesOf s p = Inr es \<Longrightarrow> field s k = (case map_of es k of None \<Rightarrow> VUndef | Some v \<Rightarrow> v)"
  by (auto simp: field_def entriesOf_def split: jsval.splits)

lemma run_steps_unit: "run_steps (\<lambda>_. f) () es = Inr u \<Longrightarrow> e \<in> set es \<Longrightarrow> f e = Inr ()"
  by (induction es) (auto simp: andThen_eq_Inr)

text \<open>A section that passes has a mapping that passes for every need, and no other.\<close>

lemma checkSection_ok:
  assumes "checkSection check section needs path = Inr u"
  shows "map_of needs k = Some n \<Longrightarrow> check (field section k) n (dot path k) = Inr ()"
    and "field section k \<noteq> VUndef \<Longrightarrow> map_of needs k \<noteq> None"
proof -
  obtain es where es: "(if section = VUndef then Inr [] else entriesOf section path) = Inr es"
    and none: "find (\<lambda>(key, _). map_of needs key = None) es = None"
    and run: "run_steps (\<lambda>_ (key, need). case map_of es key of None \<Rightarrow> Inl (MissingMapping (dot path key))
      | Some mapping \<Rightarrow> check mapping need (dot path key)) () needs = Inr u"
    using assms by (auto simp: checkSection_def andThen_eq_Inr split: option.splits) (metis option.exhaust surj_pair)
  have field: "field section k = (case map_of es k of None \<Rightarrow> VUndef | Some v \<Rightarrow> v)"
  proof (cases "section = VUndef")
    case True
    then show ?thesis using es by (simp add: field_def entriesOf_def)
  next
    case False
    then show ?thesis using es field_entries by simp
  qed
  show "check (field section k) n (dot path k) = Inr ()" if "map_of needs k = Some n"
    using run_steps_unit[OF run map_of_SomeD[OF that]] by (simp add: field split: option.splits)
  show "map_of needs k \<noteq> None" if "field section k \<noteq> VUndef"
    using that none by (auto simp: field find_None_iff split: option.splits dest: map_of_SomeD)
qed

text \<open>The mapping of a state member, in the flat table of a local contract or under its variant.\<close>

definition state_mapping :: "kind \<Rightarrow> jsval \<Rightarrow> string \<Rightarrow> string \<Rightarrow> jsval" where
  "state_mapping kind mappings x m =
     field (if kind = Local then field mappings ''state'' else field (field mappings ''state'') x) m"

lemma checkMappings_ok:
  assumes "checkMappings mappings needs kind path = Inr u"
  shows "need_of_state needs x m = Some n \<Longrightarrow> (kind = Local \<longrightarrow> x = LOCAL) \<Longrightarrow>
      \<exists>at. checkStateMapping (state_mapping kind mappings x m) n at = Inr ()"
    and "map_of (nd_methods needs) m = Some k \<Longrightarrow>
      \<exists>at. checkMethodMapping (field (field mappings ''methods'') m) k at = Inr ()"
    and "map_of (nd_keyed needs) m = Some n \<Longrightarrow>
      \<exists>at. checkKeyedMapping (field (field mappings ''keyed'') m) n at = Inr ()"
proof -
  let ?state = "field mappings ''state''"
  have state: "if kind = Local
      then checkSection checkStateMapping ?state (case map_of (nd_state needs) LOCAL of None \<Rightarrow> [] | Some n \<Rightarrow> n) (path @ ''.state'') = Inr ()
      else checkSection (\<lambda>m n at. checkSection checkStateMapping m n at) ?state (nd_state needs) (path @ ''.state'') = Inr ()"
    and methods: "checkSection checkMethodMapping (field mappings ''methods'') (nd_methods needs) (path @ ''.methods'') = Inr ()"
    and keyed: "checkSection checkKeyedMapping (field mappings ''keyed'') (nd_keyed needs) (path @ ''.keyed'') = Inr ()"
    using assms by (auto simp: checkMappings_def andThen_eq_Inr Let_def split: if_splits)
  show "\<exists>at. checkStateMapping (state_mapping kind mappings x m) n at = Inr ()"
    if n: "need_of_state needs x m = Some n" and x: "kind = Local \<longrightarrow> x = LOCAL"
  proof (cases "kind = Local")
    case True
    then show ?thesis
      using state n x checkSection_ok(1)[of checkStateMapping ?state "case map_of (nd_state needs) LOCAL of None \<Rightarrow> [] | Some n \<Rightarrow> n"]
      by (fastforce simp: state_mapping_def need_of_state_def split: option.splits)
  next
    case False
    obtain ns where ns: "map_of (nd_state needs) x = Some ns" "map_of ns m = Some n"
      using n by (auto simp: need_of_state_def split: option.splits)
    have "checkSection checkStateMapping (field ?state x) ns (dot (path @ ''.state'') x) = Inr ()"
      using checkSection_ok(1)[OF _ ns(1)] state False by auto
    then show ?thesis using checkSection_ok(1)[OF _ ns(2)] False by (auto simp: state_mapping_def)
  qed
  show "\<exists>at. checkMethodMapping (field (field mappings ''methods'') m) k at = Inr ()"
    if "map_of (nd_methods needs) m = Some k"
    using checkSection_ok(1)[OF methods that] by blast
  show "\<exists>at. checkKeyedMapping (field (field mappings ''keyed'') m) n at = Inr ()"
    if "map_of (nd_keyed needs) m = Some n"
    using checkSection_ok(1)[OF keyed that] by blast
qed

text \<open>What it means that a table serves a member of an older version from the current one.\<close>

definition state_served :: "jsval \<Rightarrow> snapshot \<Rightarrow> snapshot option \<Rightarrow> bool" where
  "state_served mapping old now \<longleftrightarrow>
     (case now of None \<Rightarrow> mapping = VFun \<or> is_refuse mapping | Some s \<Rightarrow> s \<noteq> old \<longrightarrow> mapping = VFun)"

definition keyed_served :: "jsval \<Rightarrow> snapshot \<Rightarrow> snapshot option \<Rightarrow> bool" where
  "keyed_served mapping old now \<longleftrightarrow>
     (case now of None \<Rightarrow> is_refuse mapping | Some s \<Rightarrow> s \<noteq> old \<longrightarrow> mapping = VFun \<or> is_refuse mapping)"

definition replaced :: "jsval \<Rightarrow> bool" where
  "replaced mapping \<longleftrightarrow> is_refuse mapping \<or> field mapping ''call'' = VFun"

definition method_served :: "jsval \<Rightarrow> method_data \<Rightarrow> method_data option \<Rightarrow> bool" where
  "method_served mapping old now \<longleftrightarrow>
     (case now of
        None \<Rightarrow> replaced mapping
      | Some m \<Rightarrow>
          (md_args m \<noteq> md_args old \<longrightarrow> replaced mapping \<or> field mapping ''args'' = VFun) \<and>
          (md_result m \<noteq> md_result old \<longrightarrow> replaced mapping \<or> field mapping ''result'' = VFun))"

lemma checkMethodMapping_ok:
  "checkMethodMapping mapping MRemoved p = Inr () \<Longrightarrow> replaced mapping"
  "checkMethodMapping mapping (MChanged True r) p = Inr () \<Longrightarrow> replaced mapping \<or> field mapping ''args'' = VFun"
  "checkMethodMapping mapping (MChanged a True) p = Inr () \<Longrightarrow> replaced mapping \<or> field mapping ''result'' = VFun"
  by (auto simp: checkMethodMapping_def checkSide_def replaced_def andThen_eq_Inr ensure_eq_Inr Let_def split: if_splits)

definition variant_served :: "contract_data \<Rightarrow> jsval \<Rightarrow> string \<Rightarrow> variant_data \<Rightarrow> variant_data \<Rightarrow> bool" where
  "variant_served data mappings x old now \<longleftrightarrow>
     (\<forall>m s. map_of (vd_state old) m = Some s \<longrightarrow>
        state_served (state_mapping (ct_kind data) mappings x m) s (map_of (vd_state now) m)) \<and>
     (\<forall>m d. map_of (vd_methods old) m = Some d \<longrightarrow>
        method_served (field (field mappings ''methods'') m) d (map_of (vd_methods now) m)) \<and>
     (ct_kind data = Local \<longrightarrow> (\<forall>m s. map_of (vd_keyed old) m = Some s \<longrightarrow>
        keyed_served (field (field mappings ''keyed'') m) s (map_of (vd_keyed now) m)))"

lemma trackedD: "tracked old new edited \<Longrightarrow> new m = Some a \<Longrightarrow> old m = Some b \<Longrightarrow> a \<noteq> b \<Longrightarrow> edited m"
  unfolding tracked_def by (metis option.inject)

lemma variant_served_ok:
  assumes ok: "contract_ok data" and i: "i < length (ct_versions data)"
    and chk: "checkMappings mappings (needs_of data i) (ct_kind data) path = Inr u"
    and v: "map_of (ver_variants (ct_versions data ! i)) x = Some v" and w: "map_of (currentVariants data) x = Some w"
  shows "variant_served data mappings x v w"
proof -
  have log: "tracked (map_of (vd_state v)) (map_of (vd_state w)) (\<lambda>m. (x, m, SideState) \<in> set (log_after data i))"
    "tracked (map_of (vd_keyed v)) (map_of (vd_keyed w)) (\<lambda>m. (x, m, SideKeyed) \<in> set (log_after data i))"
    "tracked (methods_args v) (methods_args w) (\<lambda>m. (x, m, SideArgs) \<in> set (log_after data i))"
    "tracked (methods_result v) (methods_result w) (\<lambda>m. (x, m, SideResult) \<in> set (log_after data i))"
    using history_logged[OF ok i v w] by (simp_all add: logged_def)
  have loc: "ct_kind data = Local \<longrightarrow> x = LOCAL"
    using ok map_of_SomeD[OF w] unfolding contract_ok_def by (cases "currentVariants data") auto
  have "state_served (state_mapping (ct_kind data) mappings x m) s (map_of (vd_state w) m)"
    if s: "map_of (vd_state v) m = Some s" for m s
  proof (cases "map_of (vd_state w) m")
    case None
    then show ?thesis
      using checkMappings_ok(1)[OF chk _ loc, of m SRemoved] state_need_exact[OF ok i v w, of m] s
      by (auto simp: state_served_def checkStateMapping_def ensure_eq_Inr)
  next
    case (Some t)
    show ?thesis
    proof (cases "t = s")
      case False
      then have "(x, m, SideState) \<in> set (log_after data i)" using trackedD[OF log(1) Some s] by blast
      then show ?thesis
        using checkMappings_ok(1)[OF chk _ loc, of m SChanged] state_need_exact[OF ok i v w, of m] s Some edited_after_log
        by (auto simp: state_served_def checkStateMapping_def ensure_eq_Inr)
    qed (simp add: state_served_def Some)
  qed
  moreover have "method_served (field (field mappings ''methods'') m) d (map_of (vd_methods w) m)"
    if d: "map_of (vd_methods v) m = Some d" for m d
  proof (cases "map_of (vd_methods w) m")
    note need = method_need_exact[OF ok i v w d]
    note mapped = checkMappings_ok(2)[OF chk, of m]
    case None
    then show ?thesis using need mapped[of MRemoved] by (auto simp: method_served_def dest: checkMethodMapping_ok)
  next
    note need = method_need_exact[OF ok i v w d]
    note mapped = checkMappings_ok(2)[OF chk, of m]
    case (Some e)
    have "replaced (field (field mappings ''methods'') m) \<or> field (field (field mappings ''methods'') m) ''args'' = VFun"
      if "md_args e \<noteq> md_args d"
    proof -
      have "(x, m, SideArgs) \<in> set (log_after data i)"
        using trackedD[OF log(3)] d Some that by (simp add: methods_args_def)
      then show ?thesis using need mapped edited_after_log by (metis checkMethodMapping_ok(1,2))
    qed
    moreover have "replaced (field (field mappings ''methods'') m) \<or> field (field (field mappings ''methods'') m) ''result'' = VFun"
      if "md_result e \<noteq> md_result d"
    proof -
      have "(x, m, SideResult) \<in> set (log_after data i)"
        using trackedD[OF log(4)] d Some that by (simp add: methods_result_def)
      then show ?thesis using need mapped edited_after_log by (metis checkMethodMapping_ok(1,3))
    qed
    ultimately show ?thesis by (simp add: method_served_def Some)
  qed
  moreover have "keyed_served (field (field mappings ''keyed'') m) s (map_of (vd_keyed w) m)"
    if loc: "ct_kind data = Local" and s: "map_of (vd_keyed v) m = Some s" for m s
  proof (cases "map_of (vd_keyed w) m")
    note need = keyed_need_exact[OF ok i loc v w, of m]
    case None
    then show ?thesis
      using checkMappings_ok(3)[OF chk, of m SRemoved] need s
      by (auto simp: keyed_served_def checkKeyedMapping_def ensure_eq_Inr)
  next
    case (Some t)
    show ?thesis
    proof (cases "t = s")
      case False
      then have "(x, m, SideKeyed) \<in> set (log_after data i)" using trackedD[OF log(2) Some s] by blast
      then show ?thesis
        using checkMappings_ok(3)[OF chk, of m SChanged] keyed_need_exact[OF ok i loc v w, of m] s Some edited_after_log
        by (auto simp: keyed_served_def checkKeyedMapping_def ensure_eq_Inr)
    qed (simp add: keyed_served_def Some)
  qed
  ultimately show ?thesis unfolding variant_served_def by blast
qed

lemma version_index_ok:
  "version_index data key = Some i \<Longrightarrow>
   i < length (ct_versions data) \<and> show_int (ver_version (ct_versions data ! i)) = key"
  by (auto simp: version_index_def find_Some_iff)

text \<open>
  C32. An accepted version is served in full: when \<open>checkAccepts\<close> passes, every entry of the table
  names an older version of the history, every variant of that version still exists, and every
  member of it that the current version removed or has with another schema is mapped, replaced
  or refused the way its kind allows.
\<close>

theorem checkAccepts_serves_old_versions:
  assumes "contract_ok data" and "checkAccepts data (VObj entries) = Inr versions"
    and "(key, mappings) \<in> set entries"
  shows "\<exists>i. Suc i < length (ct_versions data) \<and> show_int (ver_version (ct_versions data ! i)) = key \<and>
    (ver_version (ct_versions data ! i), ver_fingerprint (ct_versions data ! i)) \<in> set versions \<and>
    (\<forall>x v. map_of (ver_variants (ct_versions data ! i)) x = Some v \<longrightarrow>
       (\<exists>w. map_of (currentVariants data) x = Some w \<and> variant_served data mappings x v w))"
proof -
  have "list_all2 (\<lambda>e r. accept_version data e = Inr r) entries versions"
    using assms(2) by (simp add: checkAccepts_def entriesOf_def traverse_eq_Inr)
  then obtain r where r: "r \<in> set versions" "accept_version data (key, mappings) = Inr r"
    using list_all2_leftD[OF _ assms(3)] by blast
  then obtain i u where i: "version_index data key = Some i" "i \<noteq> length (ct_versions data) - 1"
    and chk: "checkMappings mappings (needs_of data i) (ct_kind data) (ct_name data @ '' accepts['' @ key @ '']'') = Inr u"
    and res: "r = (ver_version (ct_versions data ! i), ver_fingerprint (ct_versions data ! i))"
    by (auto simp: accept_version_def Let_def andThen_eq_Inr ensure_eq_Inr split: option.splits)
  have len: "i < length (ct_versions data)" "show_int (ver_version (ct_versions data ! i)) = key"
    using version_index_ok[OF i(1)] by auto
  have "\<exists>w. map_of (currentVariants data) x = Some w \<and> variant_served data mappings x v w"
    if v: "map_of (ver_variants (ct_versions data ! i)) x = Some v" for x v
  proof -
    have "map fst (ver_variants (ct_versions data ! i)) = map fst (currentVariants data)"
      using variants_eq_last[OF assms(1)] len(1) by simp
    then have "map_of (currentVariants data) x \<noteq> None" using v by (metis map_of_eq_None_iff list.set_map option.distinct(1))
    then obtain w where "map_of (currentVariants data) x = Some w" by auto
    then show ?thesis using variant_served_ok[OF assms(1) len(1) chk v] by blast
  qed
  moreover have "Suc i < length (ct_versions data)" using len(1) i(2) by linarith
  ultimately show ?thesis using len(2) r(1) res by blast
qed

definition sample_mappings :: jsval where
  "sample_mappings = VObj
     [(''state'', VObj [(''title'', VFun)]), (''methods'', VObj [(''rename'', VStr ''refuse'')])]"

lemma sample_versions:
  "ct_versions sample_evolved =
    [materialize Local sample_params 1 [(LOCAL, sample_variant)] [],
     materialize Local sample_params 2
       [(LOCAL, \<lparr>vd_state = [(''title'', bool_snapshot False), (''count'', bool_snapshot True)], vd_methods = [],
          vd_keyed = [(''docs'', bool_snapshot True)]\<rparr>)]
       [(LOCAL, ''title'', SideState), (LOCAL, ''count'', SideState)]]"
  by (simp add: sample_evolved_def sample_contract_def)

lemma sample_changes: "changes_after sample_evolved 0 = changeKey ` {(LOCAL, ''title'', SideState), (LOCAL, ''count'', SideState)}"
  by (simp add: changes_after_def sample_versions)

lemma sample_not_changed: "changeKey (LOCAL, ''docs'', SideKeyed) \<notin> changes_after sample_evolved 0"
  "changeKey (LOCAL, ''rename'', SideArgs) \<notin> changes_after sample_evolved 0"
  "changeKey (LOCAL, ''rename'', SideResult) \<notin> changes_after sample_evolved 0"
  "changeKey (LOCAL, ''title'', SideState) \<in> changes_after sample_evolved 0"
  by (simp_all add: sample_changes) (code_simp+)

lemma sample_needs: "needs_of sample_evolved 0 =
    \<lparr>nd_state = [(LOCAL, [(''title'', SChanged)])], nd_methods = [(''rename'', MRemoved)], nd_keyed = []\<rparr>"
  using sample_not_changed
  by (simp add: needs_of_def sample_versions Let_def currentVariants_def variant_step_def sample_variant_def
      method_step_def)

lemma show_small: "show_int 1 = ''1''" "show_int 2 = ''2''"
  by code_simp+

lemma sample_accepts: "checkAccepts sample_evolved (VObj [(''1'', sample_mappings)]) =
    Inr [(1, ver_fingerprint (hd (ct_versions sample_contract)))]"
proof -
  have idx: "version_index sample_evolved ''1'' = Some 0"
    by (simp add: version_index_def sample_versions show_small upt_rec)
  have "ct_kind sample_evolved = Local" by (simp add: sample_evolved_def sample_contract_def)
  then show ?thesis
    by (simp add: checkAccepts_def entriesOf_def accept_version_def idx sample_needs sample_mappings_def
        checkMappings_def checkKeys_def field_def checkSection_def checkStateMapping_def checkMethodMapping_def
        is_refuse_def ensure_def sample_versions sample_contract_def)
qed

lemma sample_evolved_ok: "contract_ok sample_evolved"
  using evolve_ok[OF sample_contract_ok sample_evolves] by simp

theorem checkAccepts_serves_old_versions_witness:
  "\<exists>i. Suc i < length (ct_versions sample_evolved) \<and> show_int (ver_version (ct_versions sample_evolved ! i)) = ''1'' \<and>
    (ver_version (ct_versions sample_evolved ! i), ver_fingerprint (ct_versions sample_evolved ! i))
      \<in> set [(1, ver_fingerprint (hd (ct_versions sample_contract)))] \<and>
    (\<forall>x v. map_of (ver_variants (ct_versions sample_evolved ! i)) x = Some v \<longrightarrow>
       (\<exists>w. map_of (currentVariants sample_evolved) x = Some w \<and> variant_served sample_evolved sample_mappings x v w))"
  by (rule checkAccepts_serves_old_versions[OF sample_evolved_ok sample_accepts]) simp

end
