(* ===== verification/Store_Text.thy ===== *)
theory Store_Text
  imports Prelude "HOL-Library.List_Lexorder" "HOL-Library.Sublist"
begin

text \<open>
  Text in the store (\<open>packages/chord/src/store/text.ts\<close>). A JavaScript string is the list of its
  UTF-16 code units, so that surrogates are what the code sees; \<open>code_points\<close> is the spread of a
  string into code points. The comparison by code units with ranks is the order of code points
  (\<open>compareText_code_points\<close>), and a prefix is a range of that order (\<open>prefix_is_range\<close>).
\<close>

type_synonym units = "nat list"

definition high :: "nat \<Rightarrow> bool" where
  "high u = (0xD800 \<le> u \<and> u < 0xDC00)"

definition low :: "nat \<Rightarrow> bool" where
  "low u = (0xDC00 \<le> u \<and> u < 0xE000)"

definition unit16 :: "nat \<Rightarrow> bool" where
  [simp]: "unit16 u = (u < 0x10000)"

text \<open>The same tests on integers, whose numerals are binary when they are evaluated.\<close>

lemma unit_tests_code [code]:
  "high u = (let i = int u in 0xD800 \<le> i \<and> i < 0xDC00)"
  "low u = (let i = int u in 0xDC00 \<le> i \<and> i < 0xE000)"
  "unit16 u = (int u < 0x10000)"
  by (auto simp: high_def low_def Let_def)

text \<open>\<open>String.prototype.isWellFormed\<close> and \<open>toWellFormed\<close> on code units below 2 ^ 16.\<close>

fun isWellFormed :: "units \<Rightarrow> bool" where
  "isWellFormed [] = True"
| "isWellFormed (u # us) =
     (if high u then (case us of [] \<Rightarrow> False | v # vs \<Rightarrow> low v \<and> isWellFormed vs)
      else \<not> low u \<and> unit16 u \<and> isWellFormed us)"

fun toWellFormed :: "units \<Rightarrow> units" where
  "toWellFormed [] = []"
| "toWellFormed [u] = (if high u \<or> low u then [0xFFFD] else [u])"
| "toWellFormed (u # v # vs) =
     (if high u \<and> low v then u # v # toWellFormed vs
      else if high u \<or> low u then 0xFFFD # toWellFormed (v # vs)
      else u # toWellFormed (v # vs))"

text \<open>The code points of a string: a pair of surrogates is one.\<close>

definition pair_point :: "nat \<Rightarrow> nat \<Rightarrow> nat" where
  "pair_point u v = 0x10000 + (u - 0xD800) * 0x400 + (v - 0xDC00)"

fun code_points :: "units \<Rightarrow> nat list" where
  "code_points [] = []"
| "code_points [u] = [u]"
| "code_points (u # v # vs) =
     (if high u \<and> low v then pair_point u v # code_points vs else u # code_points (v # vs))"

definition fromCodePoint :: "nat \<Rightarrow> units" where
  "fromCodePoint p =
     (if p < 0x10000 then [p] else [0xD800 + (p - 0x10000) div 0x400, 0xDC00 + (p - 0x10000) mod 0x400])"

definition startsWith :: "units \<Rightarrow> units \<Rightarrow> bool" where
  "startsWith t p = (take (length p) t = p)"

subsection \<open>The operations of the store\<close>

datatype store_error =
    InvalidArgs string
  | ReadAfterBulk
  | Refused string                                   \<comment> \<open>a declaration or a migration that throws\<close>
  | IllTyped                                         \<comment> \<open>a value of another type than the compiler checked\<close>
  | Diverged                                         \<comment> \<open>a recorded count that a replica does not reproduce\<close>

definition codePointRank :: "nat \<Rightarrow> int" where
  "codePointRank u = (if u < 0xD800 then int u else if u < 0xE000 then int u + 0x2000 else int u - 0x800)"

lemma codePointRank_code [code]:
  "codePointRank u = (let i = int u in if i < 0xD800 then i else if i < 0xE000 then i + 0x2000 else i - 0x800)"
  by (simp add: codePointRank_def)

fun compareText :: "units \<Rightarrow> units \<Rightarrow> int" where
  "compareText (x # a) (y # b) = (if x \<noteq> y then codePointRank x - codePointRank y else compareText a b)"
| "compareText a b = int (length a) - int (length b)"

definition storedText :: "units \<Rightarrow> (store_error, units) result" where
  "storedText t =
     (if 0 \<in> set t then Inl (InvalidArgs ''text may not contain NUL'')
      else Inr (if isWellFormed t then t else toWellFormed t))"

text \<open>The loop of \<open>prefixUpperBound\<close>, on the code points with the last first.\<close>

fun upper_points :: "nat list \<Rightarrow> nat list option" where
  "upper_points [] = None"
| "upper_points (p # ps) =
     (if p = 0x10FFFF then upper_points ps
      else Some (rev ps @ [if p = 0xD7FF then 0xE000 else p + 1]))"

definition prefixUpperBound :: "units \<Rightarrow> units option" where
  "prefixUpperBound p = map_option (\<lambda>ps. concat (map fromCodePoint ps)) (upper_points (rev (code_points p)))"

subsection \<open>Well-formed text\<close>

definition scalar_value :: "nat \<Rightarrow> bool" where
  "scalar_value p = (p < 0xD800 \<or> (0xE000 \<le> p \<and> p < 0x110000))"

lemma scalar_bound: "scalar_value p \<Longrightarrow> p \<le> 0x10FFFF"
  by (auto simp: scalar_value_def)

lemma isWellFormed_toWellFormed: "\<forall>u\<in>set t. u < 0x10000 \<Longrightarrow> isWellFormed (toWellFormed t)"
  by (induction t rule: toWellFormed.induct) (auto simp: high_def low_def)

lemma toWellFormed_id: "isWellFormed t \<Longrightarrow> toWellFormed t = t"
  by (induction t rule: toWellFormed.induct) (auto split: if_splits)

lemma toWellFormed_nul: "0 \<notin> set t \<Longrightarrow> 0 \<notin> set (toWellFormed t)"
  by (induction t rule: toWellFormed.induct) auto

lemma isWellFormed_append: "isWellFormed a \<Longrightarrow> isWellFormed b \<Longrightarrow> isWellFormed (a @ b)"
  by (induction a rule: isWellFormed.induct) (auto split: list.splits)

text \<open>Induction over a well-formed string, a code point at a time.\<close>

lemma wf_induct [consumes 1, case_names Nil Unit Pair]:
  assumes "isWellFormed t" and "P []"
    and "\<And>u us. \<not> high u \<Longrightarrow> \<not> low u \<Longrightarrow> u < 0x10000 \<Longrightarrow> isWellFormed us \<Longrightarrow> P us \<Longrightarrow> P (u # us)"
    and "\<And>u v us. high u \<Longrightarrow> low v \<Longrightarrow> isWellFormed us \<Longrightarrow> P us \<Longrightarrow> P (u # v # us)"
  shows "P t"
  using assms(1)
proof (induction t rule: length_induct)
  case (1 t)
  show ?case
  proof (cases t)
    case Nil
    then show ?thesis by (simp add: assms(2))
  next
    case (Cons u us)
    show ?thesis
    proof (cases "high u")
      case True
      then obtain v vs where "us = v # vs" "low v" "isWellFormed vs" using 1(2) Cons by (auto split: list.splits)
      then show ?thesis using 1(1) assms(4)[OF True] Cons by simp
    next
      case False
      then show ?thesis using 1 assms(3)[OF False, of us] Cons by simp
    qed
  qed
qed

lemma code_points_unit: "\<not> high u \<Longrightarrow> code_points (u # us) = u # code_points us"
  by (cases us) auto

lemma code_points_pair: "high u \<Longrightarrow> low v \<Longrightarrow> code_points (u # v # us) = pair_point u v # code_points us"
  by simp

lemma pair_point_bounds: "high u \<Longrightarrow> low v \<Longrightarrow> 0x10000 \<le> pair_point u v \<and> pair_point u v < 0x110000"
proof -
  assume u: "high u" and v: "low v"
  have "u - 0xD800 \<le> 0x3FF" "v - 0xDC00 \<le> 0x3FF" using u v by (auto simp: high_def low_def)
  then have "(u - 0xD800) * 0x400 \<le> 0x3FF * 0x400" by (intro mult_le_mono1) simp
  then show ?thesis using \<open>v - 0xDC00 \<le> 0x3FF\<close> by (simp add: pair_point_def)
qed

lemma fromCodePoint_pair:
  assumes "high u" and "low v"
  shows "fromCodePoint (pair_point u v) = [u, v]"
proof -
  have b: "0xD800 \<le> u" "0xDC00 \<le> v" "v < 0xE000" using assms by (auto simp: high_def low_def)
  then obtain a c where ac: "u = 0xD800 + a" "v = 0xDC00 + c" by (metis le_Suc_ex)
  then have "c < 0x400" using b by simp
  then show ?thesis by (simp add: ac fromCodePoint_def pair_point_def)
qed

lemma scalar_values: "isWellFormed t \<Longrightarrow> \<forall>p\<in>set (code_points t). scalar_value p"
proof (induction t rule: wf_induct)
  case (Unit u us)
  then show ?case by (auto simp: code_points_unit scalar_value_def high_def low_def)
next
  case (Pair u v us)
  then show ?case using pair_point_bounds[of u v] by (auto simp: scalar_value_def)
qed simp

lemma points_of_text: "isWellFormed t \<Longrightarrow> concat (map fromCodePoint (code_points t)) = t"
proof (induction t rule: wf_induct)
  case (Unit u us)
  then show ?case by (simp add: code_points_unit fromCodePoint_def)
next
  case (Pair u v us)
  then show ?case by (simp add: fromCodePoint_pair)
qed simp

lemma fromCodePoint_wf:
  assumes "scalar_value p" and "isWellFormed t"
  shows "isWellFormed (fromCodePoint p @ t) \<and> code_points (fromCodePoint p @ t) = p # code_points t"
proof (cases "p < 0x10000")
  case True
  then have "\<not> high p" "\<not> low p" using assms(1) by (auto simp: scalar_value_def high_def low_def)
  then show ?thesis using True assms(2) by (simp add: fromCodePoint_def code_points_unit)
next
  case False
  let ?h = "0xD800 + (p - 0x10000) div 0x400" and ?l = "0xDC00 + (p - 0x10000) mod 0x400"
  have "p - 0x10000 < 0x400 * 0x400" using assms(1) False by (auto simp: scalar_value_def)
  then have "(p - 0x10000) div 0x400 < 0x400" by (simp add: less_mult_imp_div_less)
  then have h: "high ?h" by (simp add: high_def)
  have "(p - 0x10000) mod 0x400 < 0x400" by simp
  then have l: "low ?l" by (simp add: low_def)
  have "pair_point ?h ?l = p" using False by (simp add: pair_point_def)
  then show ?thesis using False h l assms(2) by (simp add: fromCodePoint_def del: One_nat_def)
qed

lemma text_of_points:
  "\<forall>p\<in>set ps. scalar_value p \<Longrightarrow>
   isWellFormed (concat (map fromCodePoint ps)) \<and> code_points (concat (map fromCodePoint ps)) = ps"
  by (induction ps) (auto dest: fromCodePoint_wf)

lemma code_points_inject: "isWellFormed a \<Longrightarrow> isWellFormed b \<Longrightarrow> code_points a = code_points b \<Longrightarrow> a = b"
  by (metis points_of_text)

subsection \<open>The order of texts\<close>

lemma wf_cases [consumes 1, case_names Nil Unit Pair]:
  assumes "isWellFormed t"
  obtains "t = []"
  | u us where "t = u # us" "\<not> high u" "\<not> low u" "u < 0x10000" "isWellFormed us"
  | u v us where "t = u # v # us" "high u" "low v" "isWellFormed us"
  using assms by (cases t) (auto split: if_splits list.splits)

text \<open>The first differing unit decides as the code points do.\<close>

lemma rank_unit:
  "\<not> high x \<Longrightarrow> \<not> low x \<Longrightarrow> \<not> high y \<Longrightarrow> \<not> low y \<Longrightarrow> codePointRank x < codePointRank y \<longleftrightarrow> x < y"
  by (auto simp: codePointRank_def high_def low_def)

lemma rank_unit_high:
  "\<not> high x \<Longrightarrow> \<not> low x \<Longrightarrow> x < 0x10000 \<Longrightarrow> high u \<Longrightarrow> codePointRank x < codePointRank u"
  by (auto simp: codePointRank_def high_def low_def)

lemma rank_high: "high u \<Longrightarrow> high v \<Longrightarrow> codePointRank u < codePointRank v \<longleftrightarrow> u < v"
  by (auto simp: codePointRank_def high_def low_def)

lemma rank_low: "low u \<Longrightarrow> low v \<Longrightarrow> codePointRank u < codePointRank v \<longleftrightarrow> u < v"
  by (auto simp: codePointRank_def high_def low_def)

lemma pair_point_less:
  assumes "high u" "low v" "high u'" "low v'"
  shows "pair_point u v < pair_point u' v' \<longleftrightarrow> u < u' \<or> (u = u' \<and> v < v')"
proof -
  have b: "0xD800 \<le> u" "u < 0xDC00" "0xD800 \<le> u'" "u' < 0xDC00" "0xDC00 \<le> v" "v < 0xE000" "0xDC00 \<le> v'" "v' < 0xE000"
    using assms by (auto simp: high_def low_def)
  then obtain a a' c c' where ac: "u = 0xD800 + a" "u' = 0xD800 + a'" "v = 0xDC00 + c" "v' = 0xDC00 + c'"
    by (metis le_Suc_ex)
  then have c: "c < 0x400" "c' < 0x400" using b by auto
  have "a * 0x400 + c < a' * 0x400 + c' \<longleftrightarrow> a < a' \<or> (a = a' \<and> c < c')" 
    using c by (cases a a' rule: linorder_cases) auto
  then show ?thesis by (simp add: ac pair_point_def)
qed

theorem compareText_code_points:
  assumes "isWellFormed a" and "isWellFormed b"
  shows "compareText a b < 0 \<longleftrightarrow> code_points a < code_points b"
  using assms
proof (induction a arbitrary: b rule: wf_induct)
  case Nil
  then show ?case by (cases b rule: wf_cases) (auto simp: code_points_unit)
next
  case (Unit x a)
  from Unit.prems show ?case
  proof (cases b rule: wf_cases)
    case Nil
    then show ?thesis using Unit.hyps by (simp add: code_points_unit)
  next
    case (Unit y b')
    then show ?thesis
      using Unit.hyps Unit.IH[of b'] rank_unit[of x y] by (auto simp: code_points_unit)
  next
    case (Pair u v b')
    then show ?thesis
      using Unit.hyps rank_unit_high[of x u] pair_point_bounds[of u v]
      by (auto simp: code_points_unit high_def low_def)
  qed
next
  case (Pair u v a)
  from Pair.prems show ?case
  proof (cases b rule: wf_cases)
    case Nil
    then show ?thesis using Pair.hyps by simp
  next
    case (Unit y b')
    then have "codePointRank y < codePointRank u" "u \<noteq> y"
      using Pair.hyps rank_unit_high[of y u] by auto
    then show ?thesis
      using Unit Pair.hyps pair_point_bounds[of u v] by (auto simp: code_points_unit)
  next
    case (Pair u' v' b')
    then show ?thesis
      using Pair.hyps Pair.IH[of b'] rank_high[of u u'] rank_low[of v v']
        pair_point_less[of u v u' v'] pair_point_less[of u' v' u v]
      by (cases "u = u'"; cases "v = v'") auto
  qed
qed

lemma compareText_self [simp]: "compareText a a = 0"
  by (induction a) auto

lemma rank_inject:
  "x < 0x10000 \<Longrightarrow> y < 0x10000 \<Longrightarrow> codePointRank x = codePointRank y \<Longrightarrow> x = y"
  by (auto simp: codePointRank_def split: if_splits)

lemma compareText_zero:
  "\<forall>u\<in>set a. u < 0x10000 \<Longrightarrow> \<forall>u\<in>set b. u < 0x10000 \<Longrightarrow> compareText a b = 0 \<Longrightarrow> a = b"
proof (induction a b rule: compareText.induct)
  case (1 x a y b)
  then show ?case using rank_inject[of x y] by (auto split: if_splits)
qed auto

lemma wf_units: "isWellFormed t \<Longrightarrow> \<forall>u\<in>set t. u < 0x10000"
  by (induction t rule: wf_induct) (auto simp: high_def low_def)

lemma compareText_swap: "compareText a b = - compareText b a"
  by (induction a b rule: compareText.induct) auto

subsection \<open>A prefix is a range\<close>

lemma successor_point:
  "scalar_value p \<Longrightarrow> scalar_value r \<Longrightarrow> p \<noteq> 0x10FFFF \<Longrightarrow>
   p \<le> r \<and> r < (if p = 0xD7FF then 0xE000 else p + 1) \<longleftrightarrow> p = r"
  by (auto simp: scalar_value_def split: if_splits)

lemma range_snoc:
  fixes q :: "nat list"
  assumes "p < s"
  shows "q @ [p] \<le> t \<and> t < q @ [s] \<longleftrightarrow> (\<exists>r rs. t = q @ r # rs \<and> p \<le> r \<and> r < s)"
  using assms
proof (induction q arbitrary: t)
  case Nil
  have "[] \<le> us" for us :: "nat list" by simp
  then show ?case using Nil by (cases t) (auto simp: order.order_iff_strict)
next
  case (Cons x q)
  then show ?case by (cases t) auto
qed

lemma snoc_le: "(q :: nat list) @ [p] \<le> t \<Longrightarrow> q \<le> t"
proof (induction q arbitrary: t)
  case (Cons x q)
  then show ?case by (cases t) auto
qed simp

lemma prefix_points_range:
  assumes "\<forall>p\<in>set q. scalar_value p" and "\<forall>p\<in>set t. scalar_value p"
  shows "prefix q t \<longleftrightarrow> q \<le> t \<and> (case upper_points (rev q) of None \<Rightarrow> True | Some u \<Rightarrow> t < u)"
  using assms(1)
proof (induction q rule: rev_induct)
  case Nil
  then show ?case by simp
next
  case (snoc p q)
  show ?case
  proof (cases "p = 0x10FFFF")
    case True
    have "prefix (q @ [p]) t \<longleftrightarrow> q @ [p] \<le> t \<and> prefix q t"
    proof
      assume "prefix (q @ [p]) t"
      then obtain rs where "t = (q @ [p]) @ rs" by (auto elim: prefixE)
      then show "q @ [p] \<le> t \<and> prefix q t" by (induction q arbitrary: t) auto
    next
      assume *: "q @ [p] \<le> t \<and> prefix q t"
      then obtain rs where t: "t = q @ rs" by (auto elim: prefixE)
      then have "[p] \<le> rs" using * by (induction q arbitrary: t) auto
      moreover have "\<forall>r\<in>set rs. r \<le> p" 
        using assms(2) t True scalar_bound by auto
      ultimately show "prefix (q @ [p]) t" using t by (cases rs) auto
    qed
    then show ?thesis using snoc True snoc_le[of q p t] by auto
  next
    case False
    let ?s = "if p = 0xD7FF then 0xE000 else p + 1"
    have "prefix (q @ [p]) t \<longleftrightarrow> (\<exists>r rs. t = q @ r # rs \<and> p \<le> r \<and> r < ?s)"
    proof
      assume "prefix (q @ [p]) t"
      then show "\<exists>r rs. t = q @ r # rs \<and> p \<le> r \<and> r < ?s" by (auto elim!: prefixE)
    next
      assume "\<exists>r rs. t = q @ r # rs \<and> p \<le> r \<and> r < ?s"
      then obtain r rs where r: "t = q @ r # rs" "p \<le> r \<and> r < ?s" by blast
      have "p = r" using successor_point[of p r] r assms(2) snoc.prems False by auto
      then show "prefix (q @ [p]) t" using r by simp
    qed
    then show ?thesis using False range_snoc[of p ?s q t] by simp
  qed
qed

lemma code_points_append:
  "isWellFormed a \<Longrightarrow> isWellFormed b \<Longrightarrow> code_points (a @ b) = code_points a @ code_points b"
  by (induction a rule: wf_induct) (auto simp: code_points_unit)

lemma wf_suffix: "isWellFormed a \<Longrightarrow> isWellFormed (a @ b) \<Longrightarrow> isWellFormed b"
  by (induction a rule: wf_induct) auto

lemma startsWith_prefix: "startsWith t p \<longleftrightarrow> prefix p t"
  by (auto simp: startsWith_def prefix_def) (metis append_take_drop_id)

lemma startsWith_points:
  assumes "isWellFormed t" and "isWellFormed p"
  shows "startsWith t p \<longleftrightarrow> prefix (code_points p) (code_points t)"
proof
  assume "startsWith t p"
  then obtain r where "t = p @ r" by (auto simp: startsWith_prefix elim: prefixE)
  then show "prefix (code_points p) (code_points t)"
    using assms wf_suffix[of p r] by (simp add: code_points_append)
next
  assume "prefix (code_points p) (code_points t)"
  then obtain r where r: "code_points t = code_points p @ r" by (auto elim: prefixE)
  have "t = concat (map fromCodePoint (code_points t))" using assms by (simp add: points_of_text)
  also have "\<dots> = p @ concat (map fromCodePoint r)" using assms by (simp add: r points_of_text)
  finally show "startsWith t p" by (metis startsWith_prefix prefixI)
qed

lemma upper_points_scalar:
  "\<forall>p\<in>set q. scalar_value p \<Longrightarrow> upper_points q = Some u \<Longrightarrow> \<forall>p\<in>set u. scalar_value p"
  by (induction q) (auto simp: scalar_value_def split: if_splits)

lemma prefixUpperBound_points:
  assumes "isWellFormed p" and "prefixUpperBound p = Some u"
  shows "isWellFormed u \<and> upper_points (rev (code_points p)) = Some (code_points u)"
proof -
  obtain ps where ps: "upper_points (rev (code_points p)) = Some ps" "u = concat (map fromCodePoint ps)"
    using assms(2) by (auto simp: prefixUpperBound_def)
  have "\<forall>q\<in>set ps. scalar_value q" by (rule upper_points_scalar[OF _ ps(1)]) (use assms(1) in \<open>simp add: scalar_values\<close>)
  then show ?thesis using text_of_points[of ps] ps by simp
qed

lemma prefix_is_range:
  assumes "isWellFormed t" and "isWellFormed p"
  shows "startsWith t p \<longleftrightarrow>
    compareText p t \<le> 0 \<and> (case prefixUpperBound p of None \<Rightarrow> True | Some u \<Rightarrow> compareText t u < 0)"
proof -
  have le: "compareText p t \<le> 0 \<longleftrightarrow> code_points p \<le> code_points t"
    using compareText_code_points[OF assms] compareText_code_points[OF assms(2,1)]
      compareText_swap[of p t] compareText_zero[OF wf_units[OF assms(2)] wf_units[OF assms(1)]] code_points_inject[OF assms(2,1)]
    by (auto simp: order.order_iff_strict)
  have s: "\<forall>q\<in>set (code_points p). scalar_value q" "\<forall>q\<in>set (code_points t). scalar_value q"
    using assms by (simp_all add: scalar_values)
  show ?thesis
  proof (cases "prefixUpperBound p")
    case None
    then show ?thesis
      using prefix_points_range[OF s] by (simp add: startsWith_points[OF assms] le prefixUpperBound_def)
  next
    case (Some u)
    then show ?thesis
      using prefix_points_range[OF s] prefixUpperBound_points[OF assms(2) Some] compareText_code_points[OF assms(1), of u]
      by (simp add: startsWith_points[OF assms] le)
  qed
qed

text \<open>What the store keeps is well-formed, free of NUL, and kept as it is when stored again.\<close>

lemma storedText_ok:
  assumes "storedText t = Inr s" and "\<forall>u\<in>set t. u < 0x10000"
  shows "isWellFormed s \<and> 0 \<notin> set s \<and> storedText s = Inr s"
  using assms isWellFormed_toWellFormed[of t] toWellFormed_nul[of t] by (auto simp: storedText_def split: if_splits)

lemma storedText_id: "isWellFormed t \<Longrightarrow> 0 \<notin> set t \<Longrightarrow> storedText t = Inr t"
  by (simp add: storedText_def)

subsection \<open>The property\<close>

text \<open>
  C16. Text is compared by code points: of two well-formed strings, the comparison by UTF-16 code units
  with surrogates ranked above the rest tells which list of code points comes first, and gives zero for
  equal strings only; and the first starts with the second exactly if it is not below it and, where the second has
  an upper bound, below that.
\<close>

theorem text_order:
  assumes "isWellFormed a" and "isWellFormed b"
  shows "(compareText a b < 0 \<longleftrightarrow> code_points a < code_points b) \<and> (compareText a b = 0 \<longleftrightarrow> a = b) \<and>
    (startsWith a b \<longleftrightarrow> compareText b a \<le> 0 \<and> (case prefixUpperBound b of None \<Rightarrow> True | Some u \<Rightarrow> compareText a u < 0))"
  using compareText_code_points[OF assms] compareText_zero[OF wf_units[OF assms(1)] wf_units[OF assms(2)]] prefix_is_range[OF assms] by auto

text \<open>A private-use unit is below a surrogate pair, although its code unit is larger.\<close>

theorem text_order_witness:
  "compareText [0xE000] [0xD83D, 0xDE00] < 0 \<and> [0xE000 :: nat] < [0x1F600] \<and> [0xE000 :: nat] \<noteq> [0xD83D, 0xDE00] \<and>
   compareText [97, 98] [98] < 0"
proof -
  have wf: "isWellFormed [0xE000]" "isWellFormed [0xD83D, 0xDE00]" "isWellFormed [97, 98]" "isWellFormed [97]"
    by (simp_all add: high_def low_def)
  have "code_points [0xE000] = [0xE000]" "code_points [0xD83D, 0xDE00] = [0x1F600]"
    by (simp_all add: high_def low_def pair_point_def)
  moreover have "startsWith [97, 98] [97]" by (simp add: startsWith_def)
  moreover have "prefixUpperBound [97] = Some [98]" by (simp add: prefixUpperBound_def fromCodePoint_def high_def low_def)
  ultimately show ?thesis using text_order[OF wf(1,2)] text_order[OF wf(3,4)] by simp
qed

end
