(* ===== verification/Store_Values.thy ===== *)
theory Store_Values
  imports Complex_Main Store_Text
begin

text \<open>
  The values of the table store: what plugins hand over (a trust boundary, \<open>pval\<close>), the scalar cells
  the store keeps, what SQLite binds, and the checks between them (\<open>packages/chord/src/store/rows.ts\<close>,
  \<open>columns.ts\<close>). A finite number is a rational; the only arithmetic of the store is over safe
  integers, where a double is exact up to the bound that is checked. The text \<open>JSON.stringify\<close> gives
  for a value is represented by the value that text holds (\<open>toJson\<close>). Names are strings; the own
  fields of an object are an association list in the order of \<open>Object.entries\<close>.
\<close>

subsection \<open>Plugin values\<close>

datatype operation = OAdd | OSub | OMax | OMin | OConcat | OCoalesce | OReplacePrefix | OWhen

datatype comparison = Ceq | Cne | Clt | Clte | Cgt | Cgte

datatype condition_op = CCompare comparison | CInArray | CIsNull | CPrefix | CAnd | COr | CNot

text \<open>
  \<open>PNonFinite\<close> is an infinity or \<open>NaN\<close>, \<open>PBig\<close> a value \<open>JSON.stringify\<close> throws on (a bigint),
  \<open>PFunction\<close> a function, \<open>PColumn\<close> a \<open>ColumnRef\<close>, \<open>PExpr\<close> another \<open>Expression\<close>, \<open>PCond\<close> a
  \<open>Condition\<close>.
\<close>

datatype pval =
    PUndef
  | PNull
  | PText units
  | PNum rat
  | PNonFinite
  | PBoolean bool
  | PBig
  | PFunction
  | PArr "pval list"
  | PObj "(string \<times> pval) list"
  | PColumn string
  | PExpr operation "pval list"
  | PCond condition_op "pval list"

text \<open>The text of a string of the code, and \<open>args[n]\<close>, which is \<open>undefined\<close> out of range.\<close>

definition units_of :: "string \<Rightarrow> units" where
  "units_of s = map of_char s"

definition arg :: "pval list \<Rightarrow> nat \<Rightarrow> pval" where
  "arg args n = (if n < length args then args ! n else PUndef)"

lemma size_arg [termination_simp]: "size (arg args n) \<le> size_list size args"
proof (cases "n < length args")
  case True
  then have "args ! n \<in> set args" by simp
  then show ?thesis using True size_list_estimation'[of "args ! n" args "size (args ! n)" size] by (simp add: arg_def)
qed (simp add: arg_def)

subsection \<open>Scalars, cells and bound values\<close>

datatype scalar = SText units | SNum rat | SBool bool

datatype cell = CScalar scalar | CJson pval

datatype sql_value = SqlNull | SqlText units | SqlNum rat | SqlJson pval

datatype scalar_type = TStr | TInt | TNum | TBool

type_synonym row = "(string \<times> cell) list"

definition toSqlite :: "scalar \<Rightarrow> sql_value" where
  "toSqlite s = (case s of
      SBool True \<Rightarrow> SqlNum 1
    | SBool False \<Rightarrow> SqlNum 0
    | SText t \<Rightarrow> SqlText t
    | SNum n \<Rightarrow> SqlNum n)"

text \<open>\<open>Number.isSafeInteger\<close> of a finite number.\<close>

definition safe_integer :: "rat \<Rightarrow> bool" where
  "safe_integer r = (of_int \<lfloor>r\<rfloor> = r \<and> \<bar>r\<bar> \<le> 9007199254740991)"

definition checkScalar :: "scalar_type \<Rightarrow> pval \<Rightarrow> (store_error, scalar) result" where
  "checkScalar ty v = (case (ty, v) of
      (TStr, PText t) \<Rightarrow> andThen (storedText t) (\<lambda>s. Inr (SText s))
    | (TInt, PNum r) \<Rightarrow> if safe_integer r then Inr (SNum r) else Inl (InvalidArgs ''not an int value'')
    | (TNum, PNum r) \<Rightarrow> Inr (SNum r)
    | (TBool, PBoolean b) \<Rightarrow> Inr (SBool b)
    | _ \<Rightarrow> Inl (InvalidArgs ''not a value of the column type''))"

subsection \<open>Serialized values\<close>

definition operation_name :: "operation \<Rightarrow> string" where
  "operation_name operation = (case operation of
      OAdd \<Rightarrow> ''add'' | OSub \<Rightarrow> ''sub'' | OMax \<Rightarrow> ''max'' | OMin \<Rightarrow> ''min'' | OConcat \<Rightarrow> ''concat''
    | OCoalesce \<Rightarrow> ''coalesce'' | OReplacePrefix \<Rightarrow> ''replacePrefix'' | OWhen \<Rightarrow> ''when'')"

definition comparison_name :: "comparison \<Rightarrow> string" where
  "comparison_name c = (case c of
      Ceq \<Rightarrow> ''eq'' | Cne \<Rightarrow> ''ne'' | Clt \<Rightarrow> ''lt'' | Clte \<Rightarrow> ''lte'' | Cgt \<Rightarrow> ''gt'' | Cgte \<Rightarrow> ''gte'')"

definition condition_name :: "condition_op \<Rightarrow> string" where
  "condition_name c = (case c of
      CCompare k \<Rightarrow> comparison_name k | CInArray \<Rightarrow> ''inArray'' | CIsNull \<Rightarrow> ''isNull'' | CPrefix \<Rightarrow> ''prefix''
    | CAnd \<Rightarrow> ''and'' | COr \<Rightarrow> ''or'' | CNot \<Rightarrow> ''not'')"

text \<open>The own fields of an object that is no array; the three classes have fields of their own.\<close>

definition own_fields :: "pval \<Rightarrow> (string \<times> pval) list option" where
  "own_fields v = (case v of
      PObj kvs \<Rightarrow> Some kvs
    | PColumn c \<Rightarrow> Some [(''op'', PText (units_of ''col'')), (''args'', PArr [PText (units_of c)]),
        (''column'', PText (units_of c))]
    | PExpr operation args \<Rightarrow> Some [(''op'', PText (units_of (operation_name operation))), (''args'', PArr args)]
    | PCond c args \<Rightarrow> Some [(''op'', PText (units_of (condition_name c))), (''args'', PArr args)]
    | _ \<Rightarrow> None)"

text \<open>
  \<open>JSON.parse(JSON.stringify(v))\<close>: \<open>None\<close> where \<open>JSON.stringify\<close> gives \<open>undefined\<close>; a lone surrogate
  is kept (it is escaped). A field whose value has no text is left out, an element becomes \<open>null\<close>.
\<close>

fun toJson :: "pval \<Rightarrow> (store_error, pval option) result" where
  "toJson PUndef = Inr None"
| "toJson PFunction = Inr None"
| "toJson PBig = Inl (InvalidArgs ''not JSON'')"
| "toJson PNonFinite = Inr (Some PNull)"
| "toJson (PArr xs) = andThen (traverse toJson xs)
     (\<lambda>ys. Inr (Some (PArr (map (\<lambda>y. case y of None \<Rightarrow> PNull | Some w \<Rightarrow> w) ys))))"
| "toJson (PObj kvs) = andThen (traverse (\<lambda>(k, v). andThen (toJson v) (\<lambda>y. Inr (k, y))) kvs)
     (\<lambda>ys. Inr (Some (PObj (List.map_filter (\<lambda>(k, y). map_option (Pair k) y) ys))))"
| "toJson (PColumn c) = Inr (Some (PObj [(''op'', PText (units_of ''col'')),
     (''args'', PArr [PText (units_of c)]), (''column'', PText (units_of c))]))"
| "toJson (PExpr operation args) = andThen (traverse toJson args)
     (\<lambda>ys. Inr (Some (PObj [(''op'', PText (units_of (operation_name operation))),
        (''args'', PArr (map (\<lambda>y. case y of None \<Rightarrow> PNull | Some w \<Rightarrow> w) ys))])))"
| "toJson (PCond c args) = andThen (traverse toJson args)
     (\<lambda>ys. Inr (Some (PObj [(''op'', PText (units_of (condition_name c))),
        (''args'', PArr (map (\<lambda>y. case y of None \<Rightarrow> PNull | Some w \<Rightarrow> w) ys))])))"
| "toJson v = Inr (Some v)"

text \<open>
  Reading \<open>fields[name]\<close> of an object: its own field, else what \<open>Object.prototype\<close> carries under that
  name, else \<open>undefined\<close>.
\<close>

definition object_members :: "string list" where
  "object_members = [''constructor'', ''hasOwnProperty'', ''isPrototypeOf'', ''propertyIsEnumerable'',
     ''toLocaleString'', ''toString'', ''valueOf'', ''__defineGetter__'', ''__defineSetter__'',
     ''__lookupGetter__'', ''__lookupSetter__'']"

definition field :: "(string \<times> pval) list \<Rightarrow> string \<Rightarrow> pval" where
  "field kvs name = (case map_of kvs name of
      Some v \<Rightarrow> v
    | None \<Rightarrow> if name \<in> set object_members then PFunction
              else if name = ''__proto__'' then PObj [] else PUndef)"

lemma field_own [simp]: "map_of kvs name = Some v \<Longrightarrow> field kvs name = v"
  by (simp add: field_def)

subsection \<open>Checked scalars\<close>

text \<open>A scalar as the store keeps it in a column of a type.\<close>

definition scalar_ok :: "scalar_type \<Rightarrow> scalar \<Rightarrow> bool" where
  "scalar_ok ty s = (case (ty, s) of
      (TStr, SText t) \<Rightarrow> isWellFormed t \<and> 0 \<notin> set t
    | (TInt, SNum r) \<Rightarrow> safe_integer r
    | (TNum, SNum r) \<Rightarrow> True
    | (TBool, SBool b) \<Rightarrow> True
    | _ \<Rightarrow> False)"

text \<open>Strings of the language have 16-bit units.\<close>

fun text_units :: "pval \<Rightarrow> bool" where
  "text_units (PText t) = (\<forall>u\<in>set t. unit16 u)"
| "text_units (PArr xs) = (\<forall>x\<in>set xs. text_units x)"
| "text_units (PObj kvs) = (\<forall>kv\<in>set kvs. text_units (snd kv))"
| "text_units (PExpr operation args) = (\<forall>x\<in>set args. text_units x)"
| "text_units (PCond c args) = (\<forall>x\<in>set args. text_units x)"
| "text_units v = True"

lemma text_units_arg [simp]: "\<forall>x\<in>set args. text_units x \<Longrightarrow> text_units (arg args n)"
  by (simp add: arg_def)

lemma checkScalar_ok: "checkScalar ty v = Inr s \<Longrightarrow> text_units v \<Longrightarrow> scalar_ok ty s"
  using storedText_ok
  by (cases ty; cases v) (auto simp: checkScalar_def scalar_ok_def andThen_eq_Inr split: if_splits)

text \<open>What is kept passes the check again, unchanged.\<close>

definition plain :: "scalar \<Rightarrow> pval" where
  "plain s = (case s of SText t \<Rightarrow> PText t | SNum n \<Rightarrow> PNum n | SBool b \<Rightarrow> PBoolean b)"

lemma checkScalar_plain: "scalar_ok ty s \<Longrightarrow> checkScalar ty (plain s) = Inr s"
  by (cases ty; cases s) (auto simp: checkScalar_def scalar_ok_def plain_def storedText_id)

lemma toSqlite_inject: "scalar_ok ty a \<Longrightarrow> scalar_ok ty b \<Longrightarrow> toSqlite a = toSqlite b \<Longrightarrow> a = b"
  by (cases ty; cases a; cases b) (auto simp: toSqlite_def scalar_ok_def split: bool.splits)

end
