(* ===== verification/Store_Table.thy ===== *)
theory Store_Table
  imports Store_Values Chord_Schema "HOL-Library.Char_ord"
begin

text \<open>
  Declared tables (\<open>packages/chord/src/store/columns.ts\<close>, \<open>table.ts\<close>, \<open>json-column.ts\<close>) and their
  row codec (\<open>rows.ts\<close>). A table definition is checked and materialized from column schemas, which
  are unknown data of the plugin; its codec checks and encodes rows and keys and decodes stored rows.
  A fingerprint is \<open>hash64\<close> of a JSON text; the text of a value being represented by the value, the
  digest of it is the parameter \<open>digest\<close>.
\<close>

subsection \<open>Columns\<close>

text \<open>
  A \<open>json(...)\<close> column's definition: its version and fingerprint, and whether the plugin gave a
  \<open>migrate\<close>. The plugin's code behind it is \<open>json_code\<close>: the result of \<open>migrate\<close> (\<open>None\<close> when it
  throws) and the check of the schema.
\<close>

record json_column =
  jc_version :: int
  jc_fingerprint :: string
  jc_migrates :: bool

record json_code =
  run_migrate :: "json_column \<Rightarrow> pval \<Rightarrow> int \<Rightarrow> pval option"
  check_schema :: "json_column \<Rightarrow> pval \<Rightarrow> bool"

datatype column_type = TScalar scalar_type | TJson

datatype column =
    Plain (col_name: string) (col_scalar: scalar_type) (col_optional: bool) (col_default: "scalar option")
  | Json (col_name: string) (col_optional: bool) (col_json: json_column)

definition col_type :: "column \<Rightarrow> column_type" where
  "col_type c = (case c of Plain n ty opt d \<Rightarrow> TScalar ty | Json n opt j \<Rightarrow> TJson)"

record column_record =
  cr_type :: column_type
  cr_optional :: bool
  cr_default :: "scalar option"
  cr_version :: "int option"
  cr_fingerprint :: "string option"

text \<open>A column schema as a caller passes it: under \<open>opt(...)\<close> or not, its \<open>JsonColumn\<close>, its other fields.\<close>

record column_schema =
  sch_optional :: bool
  sch_json :: "json_column option"
  sch_fields :: "(string \<times> pval) list"

type_synonym schemas = "(string \<times> column_schema) list"

definition name_start :: "char \<Rightarrow> bool" where
  "name_start c = (let n = of_char c :: nat in (65 \<le> n \<and> n \<le> 90) \<or> (97 \<le> n \<and> n \<le> 122) \<or> n = 95)"

definition name_part :: "char \<Rightarrow> bool" where
  "name_part c = (name_start c \<or> (let n = of_char c :: nat in 48 \<le> n \<and> n \<le> 57))"

definition checkColumnName :: "string \<Rightarrow> (store_error, unit) result" where
  "checkColumnName name = ensure (case name of [] \<Rightarrow> False | c # cs \<Rightarrow> name_start c \<and> list_all name_part cs)
     (Refused (''column '' @ name @ '': expected [A-Za-z_][A-Za-z0-9_]*''))"

text \<open>The ASCII letters lowercased, as \<open>toLowerCase\<close> does to a name that follows the rule.\<close>

definition lower_char :: "char \<Rightarrow> char" where
  "lower_char c = (let n = of_char c :: nat in if 65 \<le> n \<and> n \<le> 90 then char_of (n + 32) else c)"

definition foldAscii :: "string \<Rightarrow> string" where
  "foldAscii name = map lower_char name"

text \<open>\<open>SCALAR_TYPES[String(type)]\<close>: an array of one element converts as its element does.\<close>

fun type_text :: "pval \<Rightarrow> units option" where
  "type_text (PText t) = Some t"
| "type_text (PArr [x]) = type_text x"
| "type_text v = None"

definition scalar_type_of :: "pval \<Rightarrow> scalar_type option" where
  "scalar_type_of v = (case type_text v of
      None \<Rightarrow> None
    | Some t \<Rightarrow> if t = units_of ''string'' then Some TStr
               else if t = units_of ''integer'' then Some TInt
               else if t = units_of ''number'' then Some TNum
               else if t = units_of ''boolean'' then Some TBool else None)"

definition checkDefault :: "scalar_type \<Rightarrow> pval \<Rightarrow> (store_error, scalar) result" where
  "checkDefault ty v = (case (ty, v) of
      (TStr, PText t) \<Rightarrow> andThen (storedText t) (\<lambda>s. if s = t then Inr (SText t) else Inl (Refused ''default''))
    | (TInt, PNum r) \<Rightarrow> if safe_integer r then Inr (SNum r) else Inl (Refused ''default'')
    | (TNum, PNum r) \<Rightarrow> Inr (SNum r)
    | (TBool, PBoolean b) \<Rightarrow> Inr (SBool b)
    | _ \<Rightarrow> Inl (Refused ''default''))"

definition describeColumn :: "string \<Rightarrow> column_schema \<Rightarrow> (store_error, column) result" where
  "describeColumn name schema = (case sch_json schema of
      Some j \<Rightarrow> Inr (Json name (sch_optional schema) j)
    | None \<Rightarrow> (case scalar_type_of (field (sch_fields schema) ''type'') of
        None \<Rightarrow> Inl (Refused ''expected str(), int(), num(), bool(), opt(...) or json(...)'')
      | Some ty \<Rightarrow>
          andThen (ensure (\<forall>kv\<in>set (sch_fields schema). fst kv = ''type'' \<or> fst kv = ''default'')
            (Refused ''not supported in a table column'')) (\<lambda>_.
          (case field (sch_fields schema) ''default'' of
             PUndef \<Rightarrow> Inr (Plain name ty (sch_optional schema) None)
           | v \<Rightarrow> if sch_optional schema then Inl (Refused ''an opt(...) column has no default'')
                  else andThen (checkDefault ty v) (\<lambda>d. Inr (Plain name ty (sch_optional schema) (Some d)))))))"

fun describe_columns :: "string list \<Rightarrow> schemas \<Rightarrow> (store_error, column list) result" where
  "describe_columns seen [] = Inr []"
| "describe_columns seen ((name, schema) # rest) =
     andThen (checkColumnName name) (\<lambda>_.
     andThen (ensure (foldAscii name \<notin> set seen) (Refused ''differs from another only in case'')) (\<lambda>_.
     andThen (describeColumn name schema) (\<lambda>c.
     andThen (describe_columns (foldAscii name # seen) rest) (\<lambda>cs. Inr (c # cs)))))"

definition describeColumns :: "schemas \<Rightarrow> (store_error, column list) result" where
  "describeColumns columns = describe_columns [] columns"

definition columnRecord :: "column \<Rightarrow> column_record" where
  "columnRecord c = (case c of
      Plain n ty opt d \<Rightarrow> \<lparr>cr_type = TScalar ty, cr_optional = opt, cr_default = d, cr_version = None, cr_fingerprint = None\<rparr>
    | Json n opt j \<Rightarrow> \<lparr>cr_type = TJson, cr_optional = opt, cr_default = None, cr_version = Some (jc_version j),
        cr_fingerprint = Some (jc_fingerprint j)\<rparr>)"

subsection \<open>Table definitions\<close>

record table_def =
  td_name :: string
  td_version :: int
  td_schemas :: schemas
  td_columns :: "column list"
  td_key :: "string list"
  td_indexes :: "(string \<times> string list) list"
  td_fingerprint :: string
  td_record :: "(string \<times> column_record) list"

text \<open>The map \<open>byName\<close>, which a later column of the name would replace.\<close>

definition by_name :: "column list \<Rightarrow> string \<Rightarrow> column option" where
  "by_name cs = map_of (rev (map (\<lambda>c. (col_name c, c)) cs))"

definition order_column :: "column \<Rightarrow> bool" where
  "order_column c = (\<not> col_optional c \<and> (col_type c = TScalar TStr \<or> col_type c = TScalar TInt))"

definition orderColumns :: "(string \<Rightarrow> column option) \<Rightarrow> string list \<Rightarrow> (store_error, string list) result" where
  "orderColumns byName names =
     andThen (ensure (distinct names) (Refused ''a column occurs twice'')) (\<lambda>_.
     traverse (\<lambda>name. case byName name of
        None \<Rightarrow> Inl (Refused ''no such column'')
      | Some c \<Rightarrow> if order_column c then Inr name else Inl (Refused ''not a non-opt str() or int() column'')) names)"

definition index_char :: "char \<Rightarrow> bool" where
  "index_char c = (let n = of_char c :: nat in (97 \<le> n \<and> n \<le> 122) \<or> (48 \<le> n \<and> n \<le> 57) \<or> n = 95)"

definition index_name :: "string \<Rightarrow> bool" where
  "index_name name = (name \<noteq> [] \<and> list_all index_char name)"

text \<open>The value a table's fingerprint is the digest of; the entries are sorted by their names.\<close>

definition optional_field :: "string \<Rightarrow> ('a \<Rightarrow> pval) \<Rightarrow> 'a option \<Rightarrow> (string \<times> pval) list" where
  "optional_field name f v = (case v of None \<Rightarrow> [] | Some x \<Rightarrow> [(name, f x)])"

definition type_name :: "column_type \<Rightarrow> string" where
  "type_name ty = (case ty of TScalar TStr \<Rightarrow> ''str'' | TScalar TInt \<Rightarrow> ''int'' | TScalar TNum \<Rightarrow> ''num''
     | TScalar TBool \<Rightarrow> ''bool'' | TJson \<Rightarrow> ''json'')"

definition record_value :: "column_record \<Rightarrow> pval" where
  "record_value r = PObj ((''type'', PText (units_of (type_name (cr_type r)))) #
     (if cr_optional r then [(''optional'', PBoolean True)] else []) @
     optional_field ''version'' (\<lambda>n. PNum (of_int n)) (cr_version r) @
     optional_field ''fingerprint'' (\<lambda>s. PText (units_of s)) (cr_fingerprint r) @
     optional_field ''default'' plain (cr_default r))"

fun insert_entry :: "string \<times> 'a \<Rightarrow> (string \<times> 'a) list \<Rightarrow> (string \<times> 'a) list" where
  "insert_entry e [] = [e]"
| "insert_entry e (f # fs) = (if fst e < fst f then e # f # fs else f # insert_entry e fs)"

definition sorted_entries :: "(string \<times> 'a) list \<Rightarrow> (string \<times> 'a) list" where
  "sorted_entries es = fold insert_entry es []"

definition names_value :: "string list \<Rightarrow> pval" where
  "names_value names = PArr (map (\<lambda>n. PText (units_of n)) names)"

definition tableFingerprint ::
  "(pval \<Rightarrow> string) \<Rightarrow> (string \<times> column_record) list \<Rightarrow> string list \<Rightarrow> (string \<times> string list) list \<Rightarrow> string" where
  "tableFingerprint digest columns key indexes =
     digest (PObj [(''tableFormVersion'', PNum 1),
       (''value'', PObj [(''columns'', PObj (map (\<lambda>(n, r). (n, record_value r)) (sorted_entries columns))),
          (''key'', names_value key),
          (''indexes'', PObj (map (\<lambda>(n, cs). (n, names_value cs)) (sorted_entries indexes)))])])"

definition newTable ::
  "(pval \<Rightarrow> string) \<Rightarrow> string \<Rightarrow> int \<Rightarrow> schemas \<Rightarrow> string list \<Rightarrow> (string \<times> string list) list \<Rightarrow>
   (store_error, table_def) result" where
  "newTable digest name version columns key indexes =
     andThen (case checkName name of Inl e \<Rightarrow> Inl (Refused ''table name'') | Inr u \<Rightarrow> Inr u) (\<lambda>_.
     andThen (ensure (isSafeInteger version \<and> 1 \<le> version) (Refused ''version is not a positive integer'')) (\<lambda>_.
     andThen (describeColumns columns) (\<lambda>described.
     let byName = by_name described in
     andThen (orderColumns byName key) (\<lambda>k.
     andThen (ensure (k \<noteq> []) (Refused ''the key has no column'')) (\<lambda>_.
     andThen (traverse (\<lambda>(index, names).
        andThen (ensure (index_name index) (Refused ''index name'')) (\<lambda>_.
        andThen (orderColumns byName names) (\<lambda>ns. Inr (index, ns)))) indexes) (\<lambda>ix.
     let record = map (\<lambda>c. (col_name c, columnRecord c)) described in
     Inr \<lparr>td_name = name, td_version = version, td_schemas = columns, td_columns = described, td_key = k,
          td_indexes = ix, td_fingerprint = tableFingerprint digest record k ix, td_record = record\<rparr>))))))"

definition table_column :: "table_def \<Rightarrow> string \<Rightarrow> (store_error, column) result" where
  "table_column T name = (case by_name (td_columns T) name of
      None \<Rightarrow> Inl (Refused ''no such column'') | Some c \<Rightarrow> Inr c)"

end
