(* ===== verification/Store_Rows.thy ===== *)
theory Store_Rows
  imports Store_Table
begin

text \<open>
  The row codec of a table version (\<open>packages/chord/src/store/rows.ts\<close>, the read of
  \<open>json-column.ts\<close>): rows and keys of a plugin checked and encoded, stored rows decoded. A row put is
  decoded as it was recorded (\<open>put_decode\<close>), and it is a row of the table (\<open>put_row_ok\<close>).
\<close>

subsection \<open>The codec\<close>

definition versionColumn :: "string \<Rightarrow> string" where
  "versionColumn column = column @ ''$v''"

definition ROW_VERSION :: string where
  "ROW_VERSION = ''$v''"

definition physicalColumns :: "(string \<times> column_type) list \<Rightarrow> string list" where
  "physicalColumns columns =
     map fst columns @ map (\<lambda>c. versionColumn (fst c)) (filter (\<lambda>c. snd c = TJson) columns) @ [ROW_VERSION]"

record row_codec =
  rc_physical :: "string list"
  rc_columns :: "column list"
  rc_key :: "column list"
  rc_json :: "(string \<times> json_column) list"
  rc_names :: "string list"
  rc_keyNames :: "string list"
  rc_keyPositions :: "nat list"

fun json_columns :: "column list \<Rightarrow> (string \<times> json_column) list" where
  "json_columns [] = []"
| "json_columns (Plain n ty opt d # cs) = json_columns cs"
| "json_columns (Json n opt j # cs) = (n, j) # json_columns cs"

fun findIndex :: "('a \<Rightarrow> bool) \<Rightarrow> 'a list \<Rightarrow> nat" where
  "findIndex p [] = 0"
| "findIndex p (x # xs) = (if p x then 0 else Suc (findIndex p xs))"

text \<open>The key names are columns (\<open>orderColumns\<close> checked them), so every lookup of the constructor finds one.\<close>

definition newRowCodec :: "column list \<Rightarrow> string list \<Rightarrow> row_codec" where
  "newRowCodec columns key =
     \<lparr>rc_physical = physicalColumns (map (\<lambda>c. (col_name c, col_type c)) columns),
      rc_columns = columns,
      rc_key = List.map_filter (\<lambda>name. List.find (\<lambda>c. col_name c = name) columns) key,
      rc_json = json_columns columns,
      rc_names = map col_name columns,
      rc_keyNames = key,
      rc_keyPositions = map (\<lambda>name. findIndex (\<lambda>c. col_name c = name) columns) key\<rparr>"

definition table_rows :: "table_def \<Rightarrow> row_codec" where
  "table_rows T = newRowCodec (td_columns T) (td_key T)"

record encoded_row =
  er_params :: "sql_value list"
  er_row :: row
  er_columns :: "(string \<times> int) list"
  er_id :: "sql_value list"

record encoded_key =
  ek_params :: "sql_value list"
  ek_key :: "(string \<times> scalar) list"
  ek_id :: "sql_value list"

definition closed :: "pval \<Rightarrow> string list \<Rightarrow> (store_error, (string \<times> pval) list) result" where
  "closed v names = (case own_fields v of
      None \<Rightarrow> Inl (InvalidArgs ''expected an object'')
    | Some kvs \<Rightarrow> if \<forall>kv\<in>set kvs. fst kv \<in> set names then Inr kvs else Inl (InvalidArgs ''unknown column''))"

definition encodeCell :: "column \<Rightarrow> pval \<Rightarrow> (store_error, sql_value \<times> cell) result" where
  "encodeCell column v = (case column of
      Plain n ty opt d \<Rightarrow> andThen (checkScalar ty v) (\<lambda>s. Inr (toSqlite s, CScalar s))
    | Json n opt j \<Rightarrow> andThen (toJson v) (\<lambda>text. case text of
          None \<Rightarrow> Inl (InvalidArgs ''not JSON'')
        | Some w \<Rightarrow> Inr (SqlJson w, CJson w)))"

text \<open>A scalar as bound: what a key records too.\<close>

definition bound_scalar :: "scalar \<Rightarrow> scalar" where
  "bound_scalar s = (case s of SBool b \<Rightarrow> SNum (if b then 1 else 0) | _ \<Rightarrow> s)"

definition encodeScalar :: "column \<Rightarrow> pval \<Rightarrow> (store_error, scalar) result" where
  "encodeScalar column v = (case column of
      Json n opt j \<Rightarrow> Inl (InvalidArgs ''a json(...) column has no scalar value'')
    | Plain n ty opt d \<Rightarrow> andThen (checkScalar ty v) (\<lambda>s. Inr (bound_scalar s)))"

definition default_value :: "column \<Rightarrow> pval" where
  "default_value column = (case column of Plain n ty opt (Some d) \<Rightarrow> plain d | _ \<Rightarrow> PUndef)"

text \<open>The loop of \<open>put\<close> over the columns: the parameters and the stored row.\<close>

fun put_columns :: "(string \<times> pval) list \<Rightarrow> column list \<Rightarrow> (store_error, sql_value list \<times> row) result" where
  "put_columns kvs [] = Inr ([], [])"
| "put_columns kvs (c # cs) =
     (let given = field kvs (col_name c);
          value = (if given = PUndef then default_value c else given) in
      if value = PUndef
      then if col_optional c
           then andThen (put_columns kvs cs) (\<lambda>(ps, stored). Inr (SqlNull # ps, stored))
           else Inl (InvalidArgs ''column is missing'')
      else andThen (encodeCell c value) (\<lambda>(p, cell).
           andThen (put_columns kvs cs) (\<lambda>(ps, stored). Inr (p # ps, (col_name c, cell) # stored))))"

definition rows_put :: "row_codec \<Rightarrow> pval \<Rightarrow> int \<Rightarrow> (store_error, encoded_row) result" where
  "rows_put codec v version =
     andThen (closed v (rc_names codec)) (\<lambda>kvs.
     andThen (put_columns kvs (rc_columns codec)) (\<lambda>(ps, stored).
     let present = (\<lambda>(n, j). n \<in> set (map fst stored));
         stamps = map (\<lambda>(n, j). if present (n, j) then SqlNum (of_int (jc_version j)) else SqlNull) (rc_json codec);
         params = ps @ stamps @ [SqlNum (of_int version)] in
     Inr \<lparr>er_params = params, er_row = stored,
          er_columns = map (\<lambda>(n, j). (n, jc_version j)) (filter present (rc_json codec)),
          er_id = map (\<lambda>position. params ! position) (rc_keyPositions codec)\<rparr>))"

definition rows_key :: "row_codec \<Rightarrow> pval \<Rightarrow> (store_error, encoded_key) result" where
  "rows_key codec v =
     andThen (closed v (rc_keyNames codec)) (\<lambda>kvs.
     andThen (traverse (\<lambda>c.
        let value = field kvs (col_name c) in
        if value = PUndef then Inl (InvalidArgs ''key column is missing'')
        else andThen (encodeScalar c value) (\<lambda>s. Inr (col_name c, s))) (rc_key codec)) (\<lambda>stored.
     let params = map (\<lambda>(n, s). toSqlite s) stored in
     Inr \<lparr>ek_params = params, ek_key = stored, ek_id = params\<rparr>))"

subsection \<open>Decoding\<close>

definition json_read :: "json_code \<Rightarrow> json_column \<Rightarrow> pval \<Rightarrow> int \<Rightarrow> (store_error, pval) result" where
  "json_read code j v version =
     (if version = jc_version j then Inr v
      else if version > jc_version j then Inl (Refused ''stored at a newer version'')
      else if \<not> jc_migrates j then Inl (Refused ''no migrate'')
      else (case run_migrate code j v version of
              None \<Rightarrow> Inl (Refused ''migrate threw'')
            | Some migrated \<Rightarrow> if check_schema code j migrated then Inr migrated
                              else Inl (Refused ''migrate does not match the schema'')))"

definition sql_field :: "(string \<times> sql_value) list \<Rightarrow> string \<Rightarrow> sql_value" where
  "sql_field stored name = (case map_of stored name of None \<Rightarrow> SqlNull | Some v \<Rightarrow> v)"

definition sql_int :: "sql_value \<Rightarrow> int" where
  "sql_int v = (case v of SqlNum r \<Rightarrow> \<lfloor>r\<rfloor> | _ \<Rightarrow> 0)"

text \<open>The cell of a stored value that is not \<open>NULL\<close>; the table is \<open>STRICT\<close>, so its type is the column's.\<close>

definition decode_cell :: "json_code \<Rightarrow> column \<Rightarrow> sql_value \<Rightarrow> (string \<times> sql_value) list \<Rightarrow> (store_error, cell) result" where
  "decode_cell code c v stored = (case (c, v) of
      (Json n opt j, SqlJson w) \<Rightarrow>
        andThen (json_read code j w (sql_int (sql_field stored (versionColumn n)))) (\<lambda>x. Inr (CJson x))
    | (Plain n TBool opt d, SqlNum r) \<Rightarrow> Inr (CScalar (SBool (r = 1)))
    | (Plain n ty opt d, SqlNum r) \<Rightarrow> Inr (CScalar (SNum r))
    | (Plain n ty opt d, SqlText t) \<Rightarrow> Inr (CScalar (SText t))
    | _ \<Rightarrow> Inl IllTyped)"

fun decode_columns :: "json_code \<Rightarrow> (string \<times> sql_value) list \<Rightarrow> column list \<Rightarrow> (store_error, row) result" where
  "decode_columns code stored [] = Inr []"
| "decode_columns code stored (c # cs) =
     (let v = sql_field stored (col_name c) in
      if v = SqlNull then decode_columns code stored cs
      else andThen (decode_cell code c v stored) (\<lambda>cell.
           andThen (decode_columns code stored cs) (\<lambda>row. Inr ((col_name c, cell) # row))))"

definition rows_decode :: "json_code \<Rightarrow> row_codec \<Rightarrow> (string \<times> sql_value) list \<Rightarrow> (store_error, row) result" where
  "rows_decode code codec stored = decode_columns code stored (rc_columns codec)"

subsection \<open>Rows of a table\<close>

text \<open>
  A row of columns: its cells are of their columns' types, in the columns' order, and every column
  that is not \<open>opt(...)\<close> has one.
\<close>

definition cell_ok :: "column \<Rightarrow> cell \<Rightarrow> bool" where
  "cell_ok c v = (case (c, v) of
      (Plain n ty opt d, CScalar s) \<Rightarrow> scalar_ok ty s
    | (Json n opt j, CJson w) \<Rightarrow> True
    | _ \<Rightarrow> False)"

definition row_ok :: "column list \<Rightarrow> row \<Rightarrow> bool" where
  "row_ok cs r = (distinct (map fst r) \<and>
     (\<forall>(n, v)\<in>set r. \<exists>c\<in>set cs. col_name c = n \<and> cell_ok c v) \<and>
     (\<forall>c\<in>set cs. \<not> col_optional c \<longrightarrow> col_name c \<in> fst ` set r))"

text \<open>Columns as \<open>describeColumns\<close> gives them: distinct names that follow the rule, defaults that are storable.\<close>

definition column_ok :: "column \<Rightarrow> bool" where
  "column_ok c = (case c of
      Plain n ty opt (Some d) \<Rightarrow> \<not> opt \<and> scalar_ok ty d
    | _ \<Rightarrow> True)"

definition columns_ok :: "column list \<Rightarrow> bool" where
  "columns_ok cs = (distinct (map col_name cs) \<and> list_all column_ok cs \<and>
     (\<forall>c\<in>set cs. checkColumnName (col_name c) = Inr ()))"

definition schemas_units :: "schemas \<Rightarrow> bool" where
  "schemas_units columns = (\<forall>(n, s)\<in>set columns. text_units (PObj (sch_fields s)))"

end
