(* ===== verification/Store_Expression.thy ===== *)
theory Store_Expression
  imports Store_Rows
begin

text \<open>
  The table expression language (\<open>packages/chord/src/store/expression.ts\<close>): the vocabulary that
  conditions and sets compile to, and their compilation from what a plugin built (\<open>PColumn\<close>,
  \<open>PExpr\<close>, \<open>PCond\<close>), a trust boundary. A callback of column references is represented by its result.
\<close>

subsection \<open>The compiled vocabulary\<close>

datatype where_node =
    WCompare comparison string scalar
  | WIn string "scalar list"
  | WNull string
  | WPrefix string units
  | WAnd "where_node list"
  | WOr "where_node list"
  | WNot where_node

datatype arith = Add | Sub | Max | Min | Concat

datatype expr_node =
    ELit scalar
  | ENull
  | ECol string
  | EJson pval
  | EBin arith expr_node expr_node
  | ECoalesce expr_node expr_node
  | EReplace expr_node units units
  | EWhen where_node expr_node expr_node

type_synonym set_node = "(string \<times> expr_node) list"

subsection \<open>Builders\<close>

definition build_eq :: "pval \<Rightarrow> pval \<Rightarrow> pval" where "build_eq column v = PCond (CCompare Ceq) [column, v]"
definition build_ne :: "pval \<Rightarrow> pval \<Rightarrow> pval" where "build_ne column v = PCond (CCompare Cne) [column, v]"
definition build_lt :: "pval \<Rightarrow> pval \<Rightarrow> pval" where "build_lt column v = PCond (CCompare Clt) [column, v]"
definition build_lte :: "pval \<Rightarrow> pval \<Rightarrow> pval" where "build_lte column v = PCond (CCompare Clte) [column, v]"
definition build_gt :: "pval \<Rightarrow> pval \<Rightarrow> pval" where "build_gt column v = PCond (CCompare Cgt) [column, v]"
definition build_gte :: "pval \<Rightarrow> pval \<Rightarrow> pval" where "build_gte column v = PCond (CCompare Cgte) [column, v]"
definition build_inArray :: "pval \<Rightarrow> pval \<Rightarrow> pval" where "build_inArray column vs = PCond CInArray [column, vs]"
definition build_isNull :: "pval \<Rightarrow> pval" where "build_isNull column = PCond CIsNull [column]"
definition build_prefix :: "pval \<Rightarrow> pval \<Rightarrow> pval" where "build_prefix column p = PCond CPrefix [column, p]"
definition build_and :: "pval list \<Rightarrow> pval" where "build_and conditions = PCond CAnd conditions"
definition build_or :: "pval list \<Rightarrow> pval" where "build_or conditions = PCond COr conditions"
definition build_not :: "pval \<Rightarrow> pval" where "build_not condition = PCond CNot [condition]"
definition build_add :: "pval \<Rightarrow> pval \<Rightarrow> pval" where "build_add a b = PExpr OAdd [a, b]"
definition build_sub :: "pval \<Rightarrow> pval \<Rightarrow> pval" where "build_sub a b = PExpr OSub [a, b]"
definition build_max :: "pval \<Rightarrow> pval \<Rightarrow> pval" where "build_max a b = PExpr OMax [a, b]"
definition build_min :: "pval \<Rightarrow> pval \<Rightarrow> pval" where "build_min a b = PExpr OMin [a, b]"
definition build_concat :: "pval \<Rightarrow> pval \<Rightarrow> pval" where "build_concat a b = PExpr OConcat [a, b]"
definition build_coalesce :: "pval \<Rightarrow> pval \<Rightarrow> pval" where "build_coalesce a b = PExpr OCoalesce [a, b]"
definition build_replacePrefix :: "pval \<Rightarrow> pval \<Rightarrow> pval \<Rightarrow> pval" where
  "build_replacePrefix v old new = PExpr OReplacePrefix [v, old, new]"
definition build_when :: "pval \<Rightarrow> pval \<Rightarrow> pval \<Rightarrow> pval" where "build_when condition a b = PExpr OWhen [condition, a, b]"

definition columnRefs :: "column list \<Rightarrow> (string \<times> pval) list" where
  "columnRefs columns = map (\<lambda>c. (col_name c, PColumn (col_name c))) columns"

subsection \<open>Compilation\<close>

definition scalarColumn :: "table_def \<Rightarrow> pval \<Rightarrow> (store_error, column) result" where
  "scalarColumn T ref = (case ref of
      PColumn c \<Rightarrow> (case by_name (td_columns T) c of
          None \<Rightarrow> Inl (InvalidArgs ''no such column'')
        | Some column \<Rightarrow> if col_type column = TJson then Inl (InvalidArgs ''json(...) column is not queryable'') else Inr column)
    | _ \<Rightarrow> Inl (InvalidArgs ''expected a column reference''))"

text \<open>\<open>scalarColumn\<close> refused json columns, so an operand has a scalar type.\<close>

definition operand :: "column \<Rightarrow> pval \<Rightarrow> (store_error, scalar) result" where
  "operand column v =
     (if v = PUndef \<or> v = PNull then Inl (InvalidArgs ''ask with isNull'')
      else case column of Plain n ty opt d \<Rightarrow> checkScalar ty v | Json n opt j \<Rightarrow> Inl IllTyped)"

fun compileWhere :: "table_def \<Rightarrow> pval \<Rightarrow> (store_error, where_node) result" where
  "compileWhere T (PCond CAnd args) = andThen (traverse (compileWhere T) args) (\<lambda>nodes. Inr (WAnd nodes))"
| "compileWhere T (PCond COr args) = andThen (traverse (compileWhere T) args) (\<lambda>nodes. Inr (WOr nodes))"
| "compileWhere T (PCond CNot args) = andThen (compileWhere T (arg args 0)) (\<lambda>node. Inr (WNot node))"
| "compileWhere T (PCond CIsNull args) = andThen (scalarColumn T (arg args 0)) (\<lambda>c. Inr (WNull (col_name c)))"
| "compileWhere T (PCond CPrefix args) =
     andThen (scalarColumn T (arg args 0)) (\<lambda>c.
     andThen (ensure (col_type c = TScalar TStr) (InvalidArgs ''prefix needs a str() column'')) (\<lambda>_.
     andThen (operand c (arg args 1)) (\<lambda>s.
     case s of SText p \<Rightarrow> Inr (WPrefix (col_name c) p) | _ \<Rightarrow> Inl IllTyped)))"
| "compileWhere T (PCond CInArray args) =
     andThen (scalarColumn T (arg args 0)) (\<lambda>c.
     case arg args 1 of
       PArr vs \<Rightarrow> andThen (traverse (operand c) vs) (\<lambda>ss. Inr (WIn (col_name c) ss))
     | _ \<Rightarrow> Inl (InvalidArgs ''inArray needs an array''))"
| "compileWhere T (PCond (CCompare k) args) =
     andThen (scalarColumn T (arg args 0)) (\<lambda>c.
     andThen (operand c (arg args 1)) (\<lambda>s. Inr (WCompare k (col_name c) s)))"
| "compileWhere T v = Inl (InvalidArgs ''expected a condition'')"

definition binary :: "operation \<Rightarrow> (arith \<times> scalar_type list) option" where
  "binary operation = (case operation of
      OConcat \<Rightarrow> Some (Concat, [TStr])
    | OAdd \<Rightarrow> Some (Add, [TInt])
    | OSub \<Rightarrow> Some (Sub, [TInt])
    | OMax \<Rightarrow> Some (Max, [TInt, TNum])
    | OMin \<Rightarrow> Some (Min, [TInt, TNum])
    | _ \<Rightarrow> None)"

text \<open>A compiled expression and whether its result may be \<open>NULL\<close>.\<close>

fun compileExpr :: "table_def \<Rightarrow> scalar_type \<Rightarrow> pval \<Rightarrow> (store_error, expr_node \<times> bool) result" where
  "compileExpr T ty (PColumn c) = (case by_name (td_columns T) c of
      None \<Rightarrow> Inl (InvalidArgs ''no such column'')
    | Some column \<Rightarrow> if col_type column \<noteq> TScalar ty then Inl (InvalidArgs ''column of another type'')
                     else Inr (ECol (col_name column), col_optional column))"
| "compileExpr T ty (PExpr OCoalesce args) =
     andThen (compileExpr T ty (arg args 0)) (\<lambda>(a, na).
     andThen (compileExpr T ty (arg args 1)) (\<lambda>(b, nb). Inr (ECoalesce a b, na \<and> nb)))"
| "compileExpr T ty (PExpr OReplacePrefix args) =
     andThen (ensure (ty = TStr) (InvalidArgs ''replacePrefix gives str'')) (\<lambda>_.
     andThen (compileExpr T ty (arg args 0)) (\<lambda>(subject, ns).
     andThen (checkScalar TStr (arg args 1)) (\<lambda>old.
     andThen (checkScalar TStr (arg args 2)) (\<lambda>new.
     case (old, new) of (SText f, SText t) \<Rightarrow> Inr (EReplace subject f t, ns) | _ \<Rightarrow> Inl IllTyped))))"
| "compileExpr T ty (PExpr OWhen args) =
     andThen (compileWhere T (arg args 0)) (\<lambda>condition.
     andThen (compileExpr T ty (arg args 1)) (\<lambda>(a, na).
     andThen (compileExpr T ty (arg args 2)) (\<lambda>(b, nb). Inr (EWhen condition a b, na \<or> nb))))"
| "compileExpr T ty (PExpr operation args) = (case binary operation of
      None \<Rightarrow> Inl IllTyped
    | Some (k, types) \<Rightarrow>
        andThen (ensure (ty \<in> set types) (InvalidArgs ''the operation gives another type'')) (\<lambda>_.
        andThen (compileExpr T ty (arg args 0)) (\<lambda>(a, na).
        andThen (compileExpr T ty (arg args 1)) (\<lambda>(b, nb). Inr (EBin k a b, na \<or> nb)))))"
| "compileExpr T ty v =
     (if v = PUndef \<or> v = PNull then Inr (ENull, True)
      else andThen (checkScalar ty v) (\<lambda>s. Inr (ELit s, False)))"

definition is_expression :: "pval \<Rightarrow> bool" where
  "is_expression v = (case v of PColumn c \<Rightarrow> True | PExpr operation args \<Rightarrow> True | _ \<Rightarrow> False)"

text \<open>One entry of a set.\<close>

definition compile_entry :: "table_def \<Rightarrow> string \<times> pval \<Rightarrow> (store_error, string \<times> expr_node) result" where
  "compile_entry T = (\<lambda>(name, v). case by_name (td_columns T) name of
      None \<Rightarrow> Inl (InvalidArgs ''no such column'')
    | Some column \<Rightarrow>
        if name \<in> set (td_key T) then Inl (InvalidArgs ''key column cannot change'')
        else if v = PUndef then
          (if col_optional column then Inr (name, ENull) else Inl (InvalidArgs ''cannot be cleared''))
        else (case column of
            Json n opt j \<Rightarrow>
              if is_expression v then Inl (InvalidArgs ''json(...) columns take plain values'')
              else andThen (encodeCell column v) (\<lambda>(p, cell). case cell of
                  CJson w \<Rightarrow> Inr (name, EJson w) | CScalar s \<Rightarrow> Inl IllTyped)
          | Plain n ty opt d \<Rightarrow>
              if v = PNull then Inl (InvalidArgs ''null is no value (undefined clears)'')
              else if is_expression v then
                andThen (compileExpr T ty v) (\<lambda>(node, nullable).
                  if nullable \<and> \<not> opt then Inl (InvalidArgs ''the expression may be NULL'') else Inr (name, node))
              else andThen (checkScalar ty v) (\<lambda>s. Inr (name, ELit s))))"

definition compileSet :: "table_def \<Rightarrow> pval \<Rightarrow> (store_error, set_node) result" where
  "compileSet T v = (case own_fields v of
      None \<Rightarrow> Inl (InvalidArgs ''expected an object of column values'')
    | Some entries \<Rightarrow> if entries = [] then Inl (InvalidArgs ''the set is empty'') else traverse (compile_entry T) entries)"

end
