(* ===== verification/Store_Evaluate.thy ===== *)
theory Store_Evaluate
  imports Store_Expression
begin

text \<open>
  The evaluator of the compiled vocabulary (\<open>packages/chord/src/store/evaluate.ts\<close>): SQL's
  three-valued truth over a row (\<open>None\<close> is unknown), and the row after a set. A row is a plain object, so
  reading an absent column that is named like a member of \<open>Object.prototype\<close> finds that member
  (\<open>read_cell\<close>). A cast of the code (\<open>as Scalar\<close>, \<open>as string\<close>, \<open>as number\<close>) of a value that is none is the
  error \<open>IllTyped\<close>, whatever the code goes on to do with it (\<open>startsWith\<close> of a function throws, a comparison
  with one is a comparison with \<open>NaN\<close>); that casts do not fail on rows of tables whose columns are not named so
  is part of what \<open>Store_Evaluate_Laws\<close> shows.
\<close>

subsection \<open>Reading a column\<close>

text \<open>\<open>row[column]\<close>.\<close>

definition read_cell :: "row \<Rightarrow> string \<Rightarrow> cell option" where
  "read_cell row c = (case map_of row c of
      Some v \<Rightarrow> Some v
    | None \<Rightarrow> if c \<in> set object_members then Some (CJson PFunction)
              else if c = ''__proto__'' then Some (CJson (PObj [])) else None)"

subsection \<open>Truth\<close>

definition both :: "bool option \<Rightarrow> bool option \<Rightarrow> bool option" where
  "both a b = (if a = Some False \<or> b = Some False then Some False
     else if a = None \<or> b = None then None else Some True)"

definition either :: "bool option \<Rightarrow> bool option \<Rightarrow> bool option" where
  "either a b = (if a = Some True \<or> b = Some True then Some True
     else if a = None \<or> b = None then None else Some False)"

definition number_of :: "scalar \<Rightarrow> rat option" where
  "number_of s = (case s of SNum r \<Rightarrow> Some r | SBool b \<Rightarrow> Some (if b then 1 else 0) | SText t \<Rightarrow> None)"

definition compareScalar :: "scalar \<Rightarrow> scalar \<Rightarrow> (store_error, rat) result" where
  "compareScalar a b = (case (a, b) of
      (SText s, SText t) \<Rightarrow> Inr (of_int (compareText s t))
    | _ \<Rightarrow> (case (number_of a, number_of b) of (Some x, Some y) \<Rightarrow> Inr (x - y) | _ \<Rightarrow> Inl IllTyped))"

definition holds :: "comparison \<Rightarrow> rat \<Rightarrow> bool" where
  "holds c order = (case c of
      Ceq \<Rightarrow> order = 0 | Cne \<Rightarrow> order \<noteq> 0 | Clt \<Rightarrow> order < 0 | Clte \<Rightarrow> order \<le> 0 | Cgt \<Rightarrow> order > 0 | Cgte \<Rightarrow> order \<ge> 0)"

text \<open>\<open>row[column] as Scalar | undefined\<close>.\<close>

definition scalar_at :: "row \<Rightarrow> string \<Rightarrow> (store_error, scalar option) result" where
  "scalar_at row c = (case read_cell row c of
      None \<Rightarrow> Inr None | Some (CScalar s) \<Rightarrow> Inr (Some s) | Some (CJson w) \<Rightarrow> Inl IllTyped)"

fun some_equal :: "scalar \<Rightarrow> scalar list \<Rightarrow> (store_error, bool) result" where
  "some_equal v [] = Inr False"
| "some_equal v (s # ss) = andThen (compareScalar v s) (\<lambda>order. if order = 0 then Inr True else some_equal v ss)"

fun truth :: "row \<Rightarrow> where_node \<Rightarrow> (store_error, bool option) result" where
  "truth row (WAnd nodes) = run_steps (\<lambda>all each.
     if all = Some False then Inr (Some False) else andThen (truth row each) (\<lambda>t. Inr (both all t))) (Some True) nodes"
| "truth row (WOr nodes) = run_steps (\<lambda>any each.
     if any = Some True then Inr (Some True) else andThen (truth row each) (\<lambda>t. Inr (either any t))) (Some False) nodes"
| "truth row (WNot node) = andThen (truth row node) (\<lambda>t. Inr (map_option Not t))"
| "truth row (WNull c) = Inr (Some (read_cell row c = None))"
| "truth row (WIn c vs) =
     (if vs = [] then Inr (Some False)
      else andThen (scalar_at row c) (\<lambda>v. case v of
          None \<Rightarrow> Inr None
        | Some s \<Rightarrow> andThen (some_equal s vs) (\<lambda>b. Inr (Some b))))"
| "truth row (WPrefix c p) =
     andThen (scalar_at row c) (\<lambda>v. case v of
         None \<Rightarrow> Inr None
       | Some (SText t) \<Rightarrow> Inr (Some (startsWith t p))
       | Some s \<Rightarrow> Inl IllTyped)"
| "truth row (WCompare k c rhs) =
     andThen (scalar_at row c) (\<lambda>v. case v of
         None \<Rightarrow> Inr None
       | Some s \<Rightarrow> andThen (compareScalar s rhs) (\<lambda>order. Inr (Some (holds k order))))"

definition matches :: "where_node \<Rightarrow> row \<Rightarrow> (store_error, bool) result" where
  "matches node row = andThen (truth row node) (\<lambda>t. Inr (t = Some True))"

subsection \<open>Values\<close>

definition OUT_OF_RANGE :: store_error where
  "OUT_OF_RANGE = InvalidArgs ''outside +-(2^53 - 1)''"

text \<open>An operation over two scalar operands.\<close>

definition operate :: "arith \<Rightarrow> scalar \<Rightarrow> scalar \<Rightarrow> (store_error, scalar) result" where
  "operate k a b = (case k of
      Concat \<Rightarrow> (case (a, b) of (SText s, SText t) \<Rightarrow> Inr (SText (s @ t)) | _ \<Rightarrow> Inl IllTyped)
    | Max \<Rightarrow> andThen (compareScalar a b) (\<lambda>order. Inr (if order \<ge> 0 then a else b))
    | Min \<Rightarrow> andThen (compareScalar a b) (\<lambda>order. Inr (if order \<le> 0 then a else b))
    | _ \<Rightarrow> (case (a, b) of
        (SNum x, SNum y) \<Rightarrow>
          let result = (if k = Add then x + y else x - y) in
          if result > 9007199254740991 \<or> result < - 9007199254740991 then Inl OUT_OF_RANGE else Inr (SNum result)
      | _ \<Rightarrow> Inl IllTyped))"

definition as_scalar :: "cell option \<Rightarrow> (store_error, scalar option) result" where
  "as_scalar c = (case c of None \<Rightarrow> Inr None | Some (CScalar s) \<Rightarrow> Inr (Some s) | Some (CJson w) \<Rightarrow> Inl IllTyped)"

fun evaluate :: "row \<Rightarrow> expr_node \<Rightarrow> (store_error, cell option) result" where
  "evaluate row ENull = Inr None"
| "evaluate row (ELit s) = Inr (Some (CScalar s))"
| "evaluate row (ECol c) = Inr (read_cell row c)"
| "evaluate row (EJson w) = Inr (Some (CJson w))"
| "evaluate row (EWhen condition a b) =
     andThen (matches condition row) (\<lambda>m. if m then evaluate row a else evaluate row b)"
| "evaluate row (ECoalesce a b) =
     andThen (evaluate row a) (\<lambda>v. if v = None \<or> v = Some (CJson PNull) then evaluate row b else Inr v)"
| "evaluate row (EReplace subject old new) =
     andThen (evaluate row subject) (\<lambda>v. case v of
         None \<Rightarrow> Inr None
       | Some (CScalar (SText t)) \<Rightarrow>
           Inr (Some (CScalar (SText (if startsWith t old then new @ drop (length old) t else t))))
       | _ \<Rightarrow> Inl IllTyped)"
| "evaluate row (EBin k x y) =
     andThen (andThen (evaluate row x) as_scalar) (\<lambda>a.
     andThen (andThen (evaluate row y) as_scalar) (\<lambda>b.
     case (a, b) of
       (Some s, Some t) \<Rightarrow> andThen (operate k s t) (\<lambda>r. Inr (Some (CScalar r)))
     | _ \<Rightarrow> Inr None))"

definition applySet :: "set_node \<Rightarrow> row \<Rightarrow> (store_error, row) result" where
  "applySet node row = run_steps (\<lambda>after (c, e).
     andThen (evaluate row e) (\<lambda>v.
     Inr (case v of None \<Rightarrow> AList.delete c after | Some x \<Rightarrow> AList.update c x after))) row node"

end
