(* ===== verification/Store_Sql.thy ===== *)
theory Store_Sql
  imports Store_Evaluate
begin

text \<open>
  The SQL of declared tables (\<open>packages/chord/src/store/sql.ts\<close>). A statement's text is a list of
  tokens, whose concatenation is the text: pieces of the code's templates, quoted identifiers, the
  literal of a default, and \<open>?\<close> (\<open>Hole\<close>). Rendering threads the parameter list the code pushes on, as
  the first component of its result.
\<close>

datatype token = Raw string | Id string | LitText units | LitNum rat | Hole

record statement =
  st_sql :: "token list"
  st_params :: "sql_value list"

datatype direction = Asc | Desc

record order =
  ord_columns :: "string list"
  ord_direction :: direction

definition quote :: "string \<Rightarrow> token" where
  "quote name = Id name"

definition tableSqlName :: "string \<Rightarrow> string \<Rightarrow> string" where
  "tableSqlName owner table = owner @ '':'' @ table"

fun join_tokens :: "string \<Rightarrow> token list list \<Rightarrow> token list" where
  "join_tokens sep [] = []"
| "join_tokens sep [x] = x"
| "join_tokens sep (x # y # ys) = x @ Raw sep # join_tokens sep (y # ys)"

subsection \<open>Definitions of tables\<close>

fun replace_quote :: "units \<Rightarrow> units" where
  "replace_quote [] = []"
| "replace_quote (u # us) = (if u = 39 then [39, 39] else [u]) @ replace_quote us"

definition literal :: "scalar \<Rightarrow> token" where
  "literal v = (case v of
      SText t \<Rightarrow> LitText ([39] @ replace_quote t @ [39])
    | SBool b \<Rightarrow> Raw (if b then ''1'' else ''0'')
    | SNum n \<Rightarrow> LitNum n)"

definition columnSql :: "string \<Rightarrow> column_record \<Rightarrow> token list list" where
  "columnSql name column =
     (let nullability = (if cr_optional column then [] else [Raw '' NOT NULL'']);
          defaulted = (case cr_default column of None \<Rightarrow> [] | Some d \<Rightarrow> [Raw '' DEFAULT '', literal d]);
          id = quote name in
      case cr_type column of
        TScalar TStr \<Rightarrow> [[id, Raw '' TEXT''] @ nullability @ defaulted]
      | TScalar TInt \<Rightarrow> [[id, Raw '' INTEGER''] @ nullability @ defaulted @
          [Raw '' CHECK ('', id, Raw '' BETWEEN -9007199254740991 AND 9007199254740991)'']]
      | TScalar TNum \<Rightarrow> [[id, Raw '' REAL''] @ nullability @ defaulted]
      | TScalar TBool \<Rightarrow> [[id, Raw '' INTEGER''] @ nullability @ defaulted @ [Raw '' CHECK ('', id, Raw '' IN (0, 1))'']]
      | TJson \<Rightarrow> [[id, Raw '' TEXT''] @ nullability, [quote (versionColumn name), Raw '' INTEGER''] @ nullability])"

definition createTableSql :: "string \<Rightarrow> (string \<times> column_record) list \<Rightarrow> string list \<Rightarrow> token list" where
  "createTableSql table columns key =
     (let definitions = concat (map (\<lambda>(n, r). columnSql n r) columns) @ [[quote ROW_VERSION, Raw '' INTEGER NOT NULL'']] @
          [[Raw ''PRIMARY KEY (''] @ join_tokens '', '' (map (\<lambda>k. [quote k]) key) @ [Raw '')'']];
          rowid = (length key = 1 \<and> (case map_of columns (hd key) of None \<Rightarrow> False | Some r \<Rightarrow> cr_type r = TScalar TInt)) in
      [Raw ''CREATE TABLE '', quote table, Raw '' (''] @ join_tokens '', '' definitions @
      [Raw '') STRICT''] @ (if rowid then [] else [Raw '', WITHOUT ROWID'']))"

definition putSql :: "string \<Rightarrow> string list \<Rightarrow> token list" where
  "putSql table physical =
     [Raw ''INSERT OR REPLACE INTO '', quote table, Raw '' (''] @ join_tokens '', '' (map (\<lambda>c. [quote c]) physical) @
     [Raw '') VALUES (''] @ join_tokens '', '' (map (\<lambda>c. [Hole]) physical) @ [Raw '')'']"

definition recordedPut :: "string \<Rightarrow> (string \<times> column_record) list \<Rightarrow> string list \<times> token list" where
  "recordedPut table columns =
     (let physical = physicalColumns (map (\<lambda>(n, r). (n, cr_type r)) columns) in (physical, putSql table physical))"

definition createIndexSql :: "string \<Rightarrow> string \<Rightarrow> string list \<Rightarrow> string list \<Rightarrow> token list" where
  "createIndexSql table index columns key =
     (let all = columns @ filter (\<lambda>c. c \<notin> set columns) key in
      [Raw ''CREATE INDEX '', quote (table @ '':'' @ index), Raw '' ON '', quote table, Raw '' (''] @
      join_tokens '', '' (map (\<lambda>c. [quote c]) all) @ [Raw '')''])"

definition dropIndexSql :: "string \<Rightarrow> string \<Rightarrow> token list" where
  "dropIndexSql table index = [Raw ''DROP INDEX '', quote (table @ '':'' @ index)]"

subsection \<open>Conditions and values\<close>

lemma thread_cong [fundef_cong]:
  "xs = ys \<Longrightarrow> s = t \<Longrightarrow> (\<And>s x. x \<in> set ys \<Longrightarrow> f s x = g s x) \<Longrightarrow> thread f s xs = thread g t ys"
  by (induction ys arbitrary: xs s t) (auto simp: Let_def split: prod.splits)

definition comparison_sql :: "comparison \<Rightarrow> string" where
  "comparison_sql c = (case c of
      Ceq \<Rightarrow> ''='' | Cne \<Rightarrow> ''<>'' | Clt \<Rightarrow> ''<'' | Clte \<Rightarrow> ''<='' | Cgt \<Rightarrow> ''>'' | Cgte \<Rightarrow> ''>='')"

fun whereSql :: "where_node \<Rightarrow> sql_value list \<Rightarrow> sql_value list \<times> token list" where
  "whereSql (WAnd nodes) params =
     (if nodes = [] then (params, [Raw ''1''])
      else let (ps, texts) = thread (\<lambda>ps each. whereSql each ps) params nodes in
           (ps, [Raw ''(''] @ join_tokens '' AND '' texts @ [Raw '')'']))"
| "whereSql (WOr nodes) params =
     (if nodes = [] then (params, [Raw ''0''])
      else let (ps, texts) = thread (\<lambda>ps each. whereSql each ps) params nodes in
           (ps, [Raw ''(''] @ join_tokens '' OR '' texts @ [Raw '')'']))"
| "whereSql (WNot node) params = (let (ps, t) = whereSql node params in (ps, [Raw ''(NOT ''] @ t @ [Raw '')'']))"
| "whereSql (WNull c) params = (params, [quote c, Raw '' IS NULL''])"
| "whereSql (WIn c vs) params =
     (params @ [SqlJson (PArr (map (\<lambda>v. plain (bound_scalar v)) vs))],
      [quote c, Raw '' IN (SELECT value FROM json_each('', Hole, Raw ''))''])"
| "whereSql (WPrefix c p) params = (case prefixUpperBound p of
      None \<Rightarrow> (params @ [SqlText p], [quote c, Raw '' >= '', Hole])
    | Some upper \<Rightarrow> (params @ [SqlText p, SqlText upper],
        [Raw ''('', quote c, Raw '' >= '', Hole, Raw '' AND '', quote c, Raw '' < '', Hole, Raw '')'']))"
| "whereSql (WCompare k c v) params =
     (params @ [toSqlite v], [quote c, Raw '' '', Raw (comparison_sql k), Raw '' '', Hole])"

definition arith_sql :: "arith \<Rightarrow> token list \<Rightarrow> token list \<Rightarrow> token list" where
  "arith_sql k a b = (case k of
      Add \<Rightarrow> [Raw ''(''] @ a @ [Raw '' + ''] @ b @ [Raw '')'']
    | Sub \<Rightarrow> [Raw ''(''] @ a @ [Raw '' - ''] @ b @ [Raw '')'']
    | Max \<Rightarrow> [Raw ''max(''] @ a @ [Raw '', ''] @ b @ [Raw '')'']
    | Min \<Rightarrow> [Raw ''min(''] @ a @ [Raw '', ''] @ b @ [Raw '')'']
    | Concat \<Rightarrow> [Raw ''(''] @ a @ [Raw '' || ''] @ b @ [Raw '')''])"

fun exprSql :: "expr_node \<Rightarrow> sql_value list \<Rightarrow> sql_value list \<times> token list" where
  "exprSql ENull params = (params, [Raw ''NULL''])"
| "exprSql (ELit s) params = (params @ [toSqlite s], [Hole])"
| "exprSql (ECol c) params = (params, [quote c])"
| "exprSql (EJson w) params = (params @ [SqlJson w], [Hole])"
| "exprSql (EWhen condition a b) params =
     (let (p1, c) = whereSql condition params; (p2, x) = exprSql a p1; (p3, y) = exprSql b p2 in
      (p3, [Raw ''(CASE WHEN ''] @ c @ [Raw '' THEN ''] @ x @ [Raw '' ELSE ''] @ y @ [Raw '' END)'']))"
| "exprSql (EReplace subject old new) params =
     (let n = length (code_points old);
          (p1, value) = exprSql subject params;
          (p2, rest) = exprSql subject (p1 @ [SqlNum (of_nat n), SqlText old, SqlText new]);
          (p3, unchanged) = exprSql subject (p2 @ [SqlNum (of_nat n + 1)]) in
      (p3, [Raw ''(CASE WHEN substr(''] @ value @ [Raw '', 1, '', Hole, Raw '') = '', Hole, Raw '' THEN '', Hole,
         Raw '' || substr(''] @ rest @ [Raw '', '', Hole, Raw '') ELSE ''] @ unchanged @ [Raw '' END)'']))"
| "exprSql (ECoalesce a b) params =
     (let (p1, x) = exprSql a params; (p2, y) = exprSql b p1 in
      (p2, [Raw ''coalesce(''] @ x @ [Raw '', ''] @ y @ [Raw '')'']))"
| "exprSql (EBin k a b) params =
     (let (p1, x) = exprSql a params; (p2, y) = exprSql b p1 in (p2, arith_sql k x y))"

text \<open>One column of a set: its assignment, and the version of a \<open>json(...)\<close> column (\<open>NULL\<close> for a clear).\<close>

definition assignment_sql ::
  "(string \<times> int) list \<Rightarrow> sql_value list \<Rightarrow> string \<times> expr_node \<Rightarrow> sql_value list \<times> token list list" where
  "assignment_sql versions params = (\<lambda>(c, node).
     let (ps, t) = exprSql node params; assigned = [quote c, Raw '' = ''] @ t in
     case map_of versions c of
       None \<Rightarrow> (ps, [assigned])
     | Some v \<Rightarrow> (ps @ [if node = ENull then SqlNull else SqlNum (of_int v)],
         [assigned, [quote (versionColumn c), Raw '' = '', Hole]]))"

definition setSql :: "set_node \<Rightarrow> (string \<times> int) list \<Rightarrow> sql_value list \<Rightarrow> sql_value list \<times> token list" where
  "setSql es versions params =
     (let (ps, ts) = thread (assignment_sql versions) params es in (ps, join_tokens '', '' (concat ts)))"

subsection \<open>The statements of a table\<close>

record table_sql =
  ts_table :: string
  ts_select :: "token list"
  ts_byKey :: "token list"
  ts_put :: "token list"
  ts_get :: "token list"
  ts_delete :: "token list"

definition newTableSql :: "string \<Rightarrow> column list \<Rightarrow> string list \<Rightarrow> string list \<Rightarrow> table_sql" where
  "newTableSql table columns physical key =
     (let id = quote table;
          selected = join_tokens '', '' (map (\<lambda>c. [quote (col_name c)]) columns @
            map (\<lambda>(n, j). [quote (versionColumn n)]) (json_columns columns));
          byKey = join_tokens '' AND '' (map (\<lambda>c. [quote c, Raw '' = '', Hole]) key) in
      \<lparr>ts_table = table, ts_select = selected, ts_byKey = byKey, ts_put = putSql table physical,
       ts_get = [Raw ''SELECT ''] @ selected @ [Raw '' FROM '', id, Raw '' WHERE ''] @ byKey,
       ts_delete = [Raw ''DELETE FROM '', id, Raw '' WHERE ''] @ byKey\<rparr>)"

definition getColumns :: "table_sql \<Rightarrow> string list \<Rightarrow> token list" where
  "getColumns sql columns =
     [Raw ''SELECT ''] @ join_tokens '', '' (map (\<lambda>c. [quote c]) columns) @
     [Raw '' FROM '', quote (ts_table sql), Raw '' WHERE ''] @ ts_byKey sql"

definition sql_update :: "table_sql \<Rightarrow> set_node \<Rightarrow> sql_value list \<Rightarrow> (string \<times> int) list \<Rightarrow> statement" where
  "sql_update sql es key versions =
     (let (ps, assignments) = setSql es versions [] in
      \<lparr>st_sql = [Raw ''UPDATE '', quote (ts_table sql), Raw '' SET ''] @ assignments @ [Raw '' WHERE ''] @ ts_byKey sql,
       st_params = ps @ key\<rparr>)"

definition sql_updateWhere :: "table_sql \<Rightarrow> where_node \<Rightarrow> set_node \<Rightarrow> (string \<times> int) list \<Rightarrow> statement" where
  "sql_updateWhere sql condition es versions =
     (let (ps, assignments) = setSql es versions []; (qs, c) = whereSql condition ps in
      \<lparr>st_sql = [Raw ''UPDATE '', quote (ts_table sql), Raw '' SET ''] @ assignments @ [Raw '' WHERE ''] @ c,
       st_params = qs\<rparr>)"

definition sql_deleteWhere :: "table_sql \<Rightarrow> where_node \<Rightarrow> statement" where
  "sql_deleteWhere sql condition =
     (let (ps, c) = whereSql condition [] in
      \<lparr>st_sql = [Raw ''DELETE FROM '', quote (ts_table sql), Raw '' WHERE ''] @ c, st_params = ps\<rparr>)"

text \<open>
  A page: the conditions (the filter, and the row-value comparison that continues after the last row),
  the order and the bound limit.
\<close>

definition sql_select ::
  "table_sql \<Rightarrow> where_node option \<Rightarrow> order \<Rightarrow> sql_value list option \<Rightarrow> int \<Rightarrow> string list option \<Rightarrow> statement" where
  "sql_select sql condition ord continue limit columns =
     (let (p1, filters) = (case condition of None \<Rightarrow> ([], []) | Some w \<Rightarrow> (let (ps, c) = whereSql w [] in (ps, [c])));
          (p2, continued) = (case continue of
             None \<Rightarrow> (p1, [])
           | Some vs \<Rightarrow> (p1 @ vs,
               [[Raw ''(''] @ join_tokens '', '' (map (\<lambda>c. [quote c]) (ord_columns ord)) @ [Raw '') '',
                 Raw (if ord_direction ord = Asc then ''>'' else ''<''), Raw '' (''] @
                join_tokens '', '' (map (\<lambda>v. [Hole]) vs) @ [Raw '')'']]));
          conditions = filters @ continued;
          filter = (if conditions = [] then [] else [Raw '' WHERE ''] @ join_tokens '' AND '' conditions);
          direction = (if ord_direction ord = Asc then '' ASC'' else '' DESC'');
          sorting = join_tokens '', '' (map (\<lambda>c. [quote c, Raw direction]) (ord_columns ord));
          selected = (case columns of None \<Rightarrow> ts_select sql | Some cs \<Rightarrow> join_tokens '', '' (map (\<lambda>c. [quote c]) cs)) in
      \<lparr>st_sql = [Raw ''SELECT ''] @ selected @ [Raw '' FROM '', quote (ts_table sql)] @ filter @
         [Raw '' ORDER BY ''] @ sorting @ [Raw '' LIMIT '', Hole],
       st_params = p2 @ [SqlNum (of_int limit)]\<rparr>)"

definition sql_count :: "table_sql \<Rightarrow> where_node option \<Rightarrow> statement" where
  "sql_count sql condition =
     (let (ps, filter) = (case condition of None \<Rightarrow> ([], []) | Some w \<Rightarrow> (let (ps, c) = whereSql w [] in (ps, [Raw '' WHERE ''] @ c))) in
      \<lparr>st_sql = [Raw ''SELECT count(*) AS count FROM '', quote (ts_table sql)] @ filter, st_params = ps\<rparr>)"

end
