(* ===== verification/Store_Rows_Laws.thy ===== *)
theory Store_Rows_Laws
  imports Store_Rows
begin

text \<open>
  Laws of declarations and of the row codec: what \<open>defineTable\<close> checks (\<open>newTable_ok\<close>), that a row
  put is a row of the table (\<open>put_row_ok\<close>), that it is decoded as it was recorded (\<open>put_decode\<close>) and
  that its identity is the one its key gives (\<open>put_key_id\<close>).
\<close>

subsection \<open>Declarations\<close>

lemma toWellFormed_fix: "toWellFormed t = t \<Longrightarrow> \<forall>u\<in>set t. u < 0x10000 \<Longrightarrow> isWellFormed t"
  using isWellFormed_toWellFormed[of t] by simp

lemma checkDefault_ok: "checkDefault ty v = Inr d \<Longrightarrow> text_units v \<Longrightarrow> scalar_ok ty d"
  by (cases ty; cases v)
    (auto simp: checkDefault_def scalar_ok_def andThen_eq_Inr storedText_def intro: toWellFormed_fix split: if_splits)

lemma text_units_field: "\<forall>kv\<in>set kvs. text_units (snd kv) \<Longrightarrow> text_units (field kvs name)"
  by (fastforce simp: field_def split: option.splits dest: map_of_SomeD)

lemma describeColumn_ok:
  assumes "describeColumn name schema = Inr c" and "text_units (PObj (sch_fields schema))"
  shows "col_name c = name \<and> col_optional c = sch_optional schema \<and> column_ok c"
proof (cases "sch_json schema")
  case (Some j)
  then show ?thesis using assms(1) by (auto simp: describeColumn_def column_ok_def)
next
  case None
  let ?v = "field (sch_fields schema) ''default''"
  have u: "text_units ?v" using assms(2) by (simp add: text_units_field)
  obtain ty where ty: "scalar_type_of (field (sch_fields schema) ''type'') = Some ty"
    using assms(1) None by (cases "scalar_type_of (field (sch_fields schema) ''type'')") (auto simp: describeColumn_def)
  show ?thesis
  proof (cases "?v = PUndef")
    case True
    then show ?thesis using assms(1) None ty by (auto simp: describeColumn_def andThen_eq_Inr column_ok_def)
  next
    case False
    then have "\<not> sch_optional schema \<and>
        andThen (checkDefault ty ?v) (\<lambda>d. Inr (Plain name ty (sch_optional schema) (Some d))) = Inr c"
      using assms(1) None ty by (cases ?v) (auto simp: describeColumn_def andThen_eq_Inr split: if_splits)
    then show ?thesis using checkDefault_ok[OF _ u] by (auto simp: andThen_eq_Inr column_ok_def)
  qed
qed

lemma describe_columns_ok:
  assumes "describe_columns seen columns = Inr cs" and "schemas_units columns"
  shows "map col_name cs = map fst columns \<and> map col_optional cs = map (\<lambda>e. sch_optional (snd e)) columns \<and>
    list_all column_ok cs \<and> distinct (map (\<lambda>c. foldAscii (col_name c)) cs) \<and>
    (\<forall>c\<in>set cs. checkColumnName (col_name c) = Inr () \<and> foldAscii (col_name c) \<notin> set seen)"
  using assms
proof (induction seen columns arbitrary: cs rule: describe_columns.induct)
  case (2 seen name schema rest)
  then obtain c ds where d: "checkColumnName name = Inr ()" "foldAscii name \<notin> set seen"
    "describeColumn name schema = Inr c" "describe_columns (foldAscii name # seen) rest = Inr ds" "cs = c # ds"
    by (auto simp: andThen_eq_Inr ensure_eq_Inr)
  have u: "text_units (PObj (sch_fields schema))" "schemas_units rest" using 2 by (auto simp: schemas_units_def)
  have e: "ensure (foldAscii name \<notin> set seen) (Refused ''differs from another only in case'') = Inr ()"
    using d(2) by simp
  note IH = "2.IH"[of "()" "()" c, OF d(1) e d(3) d(4) u(2)]
  have fresh: "\<forall>c\<in>set ds. foldAscii (col_name c) \<notin> set (foldAscii name # seen)" using IH by blast
  have c: "col_name c = name" "col_optional c = sch_optional schema" "column_ok c"
    using describeColumn_ok[OF d(3) u(1)] by simp_all
  have "distinct (map (\<lambda>c. foldAscii (col_name c)) cs)" using fresh IH unfolding d(5) by (auto simp: c(1))
  moreover have "\<forall>c\<in>set cs. checkColumnName (col_name c) = Inr () \<and> foldAscii (col_name c) \<notin> set seen"
    using IH d(1,2) c(1) unfolding d(5) by simp
  ultimately show ?case using IH c d(5) by simp
qed simp

lemma describeColumns_ok: "describeColumns columns = Inr cs \<Longrightarrow> schemas_units columns \<Longrightarrow> columns_ok cs"
proof -
  assume "describeColumns columns = Inr cs" "schemas_units columns"
  then have d: "list_all column_ok cs" "distinct (map (\<lambda>c. foldAscii (col_name c)) cs)"
    "\<forall>c\<in>set cs. checkColumnName (col_name c) = Inr ()"
    using describe_columns_ok[of "[]" columns cs] by (simp_all add: describeColumns_def)
  have "distinct (map col_name cs)" using d(2) by (auto simp: distinct_map inj_on_def)
  then show ?thesis using d by (simp add: columns_ok_def)
qed

text \<open>A table definition, as \<open>newTable\<close> gives it.\<close>

definition table_ok :: "table_def \<Rightarrow> bool" where
  "table_ok T = (columns_ok (td_columns T) \<and> td_key T \<noteq> [] \<and> distinct (td_key T) \<and>
     (\<forall>k\<in>set (td_key T). \<exists>c\<in>set (td_columns T). col_name c = k \<and> order_column c))"

lemma by_name_Some: "by_name cs name = Some c \<Longrightarrow> c \<in> set cs \<and> col_name c = name"
  by (auto simp: by_name_def dest!: map_of_SomeD)

lemma by_name_mem: "distinct (map col_name cs) \<Longrightarrow> c \<in> set cs \<Longrightarrow> by_name cs (col_name c) = Some c"
  by (simp add: by_name_def map_of_eq_Some_iff rev_map[symmetric] comp_def)

lemma orderColumns_ok:
  assumes "orderColumns (by_name cs) names = Inr ks"
  shows "ks = names \<and> distinct names \<and> (\<forall>k\<in>set names. \<exists>c\<in>set cs. col_name c = k \<and> order_column c)"
proof -
  have d: "distinct names" and t: "list_all2 (\<lambda>name k. (case by_name cs name of None \<Rightarrow> Inl (Refused ''no such column'')
      | Some c \<Rightarrow> if order_column c then Inr name else Inl (Refused ''not a non-opt str() or int() column'')) = Inr k) names ks"
    using assms by (auto simp: orderColumns_def andThen_eq_Inr ensure_eq_Inr traverse_eq_Inr)
  have "ks = names \<and> (\<forall>k\<in>set names. \<exists>c\<in>set cs. col_name c = k \<and> order_column c)"
    using t by (induction rule: list_all2_induct) (auto split: option.splits if_splits dest!: by_name_Some)
  then show ?thesis using d by simp
qed

lemma newTable_fields:
  assumes "newTable digest name version columns key indexes = Inr T"
  shows "td_name T = name \<and> td_version T = version \<and> td_schemas T = columns \<and>
    describeColumns columns = Inr (td_columns T) \<and> td_key T = key \<and> td_indexes T = indexes \<and> key \<noteq> [] \<and>
    orderColumns (by_name (td_columns T)) key = Inr key \<and>
    (\<forall>(n, ns)\<in>set indexes. index_name n \<and> orderColumns (by_name (td_columns T)) ns = Inr ns) \<and>
    td_record T = map (\<lambda>c. (col_name c, columnRecord c)) (td_columns T) \<and>
    td_fingerprint T = tableFingerprint digest (td_record T) key indexes \<and> isSafeInteger version \<and> 1 \<le> version"
proof -
  obtain cs k ix where s: "describeColumns columns = Inr cs" "orderColumns (by_name cs) key = Inr k" "k \<noteq> []"
    "traverse (\<lambda>(index, names). andThen (ensure (index_name index) (Refused ''index name'')) (\<lambda>_.
        andThen (orderColumns (by_name cs) names) (\<lambda>ns. Inr (index, ns)))) indexes = Inr ix"
    "T = \<lparr>td_name = name, td_version = version, td_schemas = columns, td_columns = cs, td_key = k, td_indexes = ix,
        td_fingerprint = tableFingerprint digest (map (\<lambda>c. (col_name c, columnRecord c)) cs) k ix,
        td_record = map (\<lambda>c. (col_name c, columnRecord c)) cs\<rparr>"
    "isSafeInteger version \<and> 1 \<le> version"
    using assms by (auto simp: newTable_def andThen_eq_Inr ensure_eq_Inr Let_def)
  have k: "k = key" using orderColumns_ok[OF s(2)] by simp
  have "ix = indexes \<and> (\<forall>(n, ns)\<in>set indexes. index_name n \<and> orderColumns (by_name cs) ns = Inr ns)"
    using s(4) unfolding traverse_eq_Inr
    by (induction rule: list_all2_induct) (auto simp: andThen_eq_Inr ensure_eq_Inr dest: orderColumns_ok)
  then show ?thesis using s k by auto
qed

lemma newTable_ok: "newTable digest name version columns key indexes = Inr T \<Longrightarrow> schemas_units columns \<Longrightarrow> table_ok T"
  using newTable_fields[of digest name version columns key indexes T] describeColumns_ok[of columns "td_columns T"]
    orderColumns_ok[of "td_columns T" key key]
  by (auto simp: table_ok_def)

subsection \<open>A row put is a row of the table\<close>

lemma toSqlite_simps [simp]:
  "toSqlite (SText t) = SqlText t" "toSqlite (SNum n) = SqlNum n" "toSqlite (SBool b) = SqlNum (if b then 1 else 0)"
  by (simp_all add: toSqlite_def split: bool.splits)

lemma toSqlite_not_null [simp]: "toSqlite s \<noteq> SqlNull"
  by (cases s) auto

lemma encodeCell_Plain:
  "encodeCell (Plain n ty opt d) v = Inr (p, cell) \<longleftrightarrow> (\<exists>s. checkScalar ty v = Inr s \<and> p = toSqlite s \<and> cell = CScalar s)"
  by (auto simp: encodeCell_def andThen_eq_Inr)

lemma encodeCell_Json:
  "encodeCell (Json n opt j) v = Inr (p, cell) \<longleftrightarrow> (\<exists>w. toJson v = Inr (Some w) \<and> p = SqlJson w \<and> cell = CJson w)"
proof (cases "toJson v")
  case (Inr t)
  then show ?thesis by (cases t) (auto simp: encodeCell_def)
qed (simp add: encodeCell_def)

lemma encodeCell_ok:
  assumes "encodeCell c v = Inr (p, cell)" and "text_units v"
  shows "cell_ok c cell \<and> p \<noteq> SqlNull"
proof (cases c)
  case (Plain n ty opt d)
  then show ?thesis using assms checkScalar_ok[of ty v] by (auto simp: encodeCell_Plain cell_ok_def)
next
  case (Json n opt j)
  then show ?thesis using assms(1) by (auto simp: encodeCell_Json cell_ok_def)
qed

lemma text_units_default: "column_ok c \<Longrightarrow> text_units (default_value c)"
  by (auto simp: default_value_def column_ok_def plain_def scalar_ok_def
      split: column.splits option.splits scalar.splits scalar_type.splits dest: wf_units)

lemma put_columns_Cons:
  assumes "put_columns kvs (c # cs) = Inr (ps, row)"
  obtains (absent) ps' where "col_optional c" "ps = SqlNull # ps'" "put_columns kvs cs = Inr (ps', row)"
  | (given) v p cell ps' row' where "v = field kvs (col_name c) \<or> v = default_value c" "encodeCell c v = Inr (p, cell)"
      "ps = p # ps'" "row = (col_name c, cell) # row'" "put_columns kvs cs = Inr (ps', row')"
proof -
  define v where "v = (if field kvs (col_name c) = PUndef then default_value c else field kvs (col_name c))"
  have v: "v = field kvs (col_name c) \<or> v = default_value c" by (auto simp: v_def)
  have r: "(if v = PUndef
      then if col_optional c then andThen (put_columns kvs cs) (\<lambda>(ps, stored). Inr (SqlNull # ps, stored))
           else Inl (InvalidArgs ''column is missing'')
      else andThen (encodeCell c v) (\<lambda>(p, cell).
           andThen (put_columns kvs cs) (\<lambda>(ps, stored). Inr (p # ps, (col_name c, cell) # stored)))) = Inr (ps, row)"
    using assms by (simp add: v_def Let_def cong: if_cong)
  show ?thesis
  proof (cases "v = PUndef")
    case True
    then show ?thesis using r absent by (auto simp: andThen_eq_Inr split: if_splits)
  next
    case False
    then obtain p cell ps' row' where "encodeCell c v = Inr (p, cell)" "ps = p # ps'" "row = (col_name c, cell) # row'"
      "put_columns kvs cs = Inr (ps', row')"
      using r by (auto simp: andThen_eq_Inr)
    then show ?thesis by (rule given[OF v])
  qed
qed

declare put_columns.simps(2) [simp del]

lemma put_columns_row:
  assumes "put_columns kvs cs = Inr (ps, row)" and "\<forall>kv\<in>set kvs. text_units (snd kv)" and "list_all column_ok cs"
    and "distinct (map col_name cs)"
  shows "row_ok cs row"
  using assms
proof (induction cs arbitrary: ps row)
  case Nil
  then show ?case by (simp add: row_ok_def)
next
  case (Cons c cs)
  from Cons.prems(1) show ?case
  proof (cases rule: put_columns_Cons)
    case (absent ps')
    then show ?thesis using Cons.IH[OF absent(3)] Cons.prems by (fastforce simp: row_ok_def)
  next
    case (given v p cell ps' row')
    have "text_units v"
      using given(1) text_units_field[OF Cons.prems(2)] text_units_default Cons.prems(3) by auto
    then have c: "cell_ok c cell" using encodeCell_ok given(2) by blast
    have ok: "row_ok cs row'" using Cons.IH[OF given(5)] Cons.prems by simp
    have "col_name c \<notin> set (map fst row')"
    proof
      assume "col_name c \<in> set (map fst row')"
      then obtain x where x: "(col_name c, x) \<in> set row'" by auto
      then obtain d where "d \<in> set cs" "col_name d = col_name c" using ok by (fastforce simp: row_ok_def)
      then show False using Cons.prems(4) by (auto simp: image_iff)
    qed
    then show ?thesis using ok c given(4) by (auto simp: row_ok_def)
  qed
qed

lemma of_char_bound: "(of_char c :: nat) < 256"
  using nat_of_char_less_256 by blast

lemma units_of_char [simp]: "u \<in> set (units_of s) \<Longrightarrow> u < 0x10000"
proof -
  assume "u \<in> set (units_of s)"
  then obtain c :: char where c: "u = of_char c" by (auto simp: units_of_def)
  have "u < 256" unfolding c by (rule of_char_bound)
  then show ?thesis by simp
qed

lemma closed_units: "closed v names = Inr kvs \<Longrightarrow> text_units v \<Longrightarrow> \<forall>kv\<in>set kvs. text_units (snd kv)"
  by (cases v) (auto simp: closed_def own_fields_def split: if_splits)

lemma put_row_ok:
  assumes "rows_put (table_rows T) v version = Inr e" and "table_ok T" and "text_units v"
  shows "row_ok (td_columns T) (er_row e)"
proof -
  obtain kvs ps where p: "closed v (map col_name (td_columns T)) = Inr kvs"
    "put_columns kvs (td_columns T) = Inr (ps, er_row e)"
    using assms(1) by (auto simp: rows_put_def table_rows_def newRowCodec_def andThen_eq_Inr Let_def)
  show ?thesis
    using put_columns_row[OF p(2) closed_units[OF p(1) assms(3)]] assms(2) by (simp add: table_ok_def columns_ok_def)
qed

subsection \<open>A row put is decoded as it was recorded\<close>

lemma put_columns_length: "put_columns kvs cs = Inr (ps, row) \<Longrightarrow> length ps = length cs"
proof (induction cs arbitrary: ps row)
  case (Cons c cs)
  from Cons.prems show ?case by (cases rule: put_columns_Cons) (auto dest: Cons.IH)
qed simp

lemma decode_encoded:
  assumes "encodeCell c v = Inr (p, cell)"
    and "\<And>n opt j. c = Json n opt j \<Longrightarrow> sql_field S (versionColumn n) = SqlNum (of_int (jc_version j))"
  shows "decode_cell code c p S = Inr cell \<and> p \<noteq> SqlNull"
proof (cases c)
  case (Plain n ty opt d)
  then show ?thesis using assms(1)
    by (cases ty; cases v) (auto simp: encodeCell_Plain checkScalar_def decode_cell_def andThen_eq_Inr split: if_splits)
next
  case (Json n opt j)
  then show ?thesis using assms(1) assms(2)[OF Json]
    by (auto simp: encodeCell_Json decode_cell_def json_read_def sql_int_def)
qed

lemma put_columns_decode:
  assumes "put_columns kvs cs = Inr (ps, row)" and "list_all2 (\<lambda>c p. sql_field S (col_name c) = p) cs ps"
    and "\<forall>(n, j)\<in>set (json_columns cs). n \<in> fst ` set row \<longrightarrow>
      sql_field S (versionColumn n) = SqlNum (of_int (jc_version j))"
  shows "decode_columns code S cs = Inr row"
  using assms
proof (induction cs arbitrary: ps row)
  case (Cons c cs)
  from Cons.prems(1) show ?case
  proof (cases rule: put_columns_Cons)
    case (absent ps')
    have "decode_columns code S cs = Inr row"
      using Cons.IH[OF absent(3)] Cons.prems absent by (cases c) auto
    then show ?thesis using Cons.prems(2) absent by simp
  next
    case (given v p cell ps' row')
    have "decode_columns code S cs = Inr row'"
      using Cons.IH[OF given(5)] Cons.prems given by (cases c) auto
    moreover have "decode_cell code c p S = Inr cell \<and> p \<noteq> SqlNull"
      by (rule decode_encoded[OF given(2)]) (use Cons.prems(3) given(4) in auto)
    ultimately show ?thesis using Cons.prems(2) given by simp
  qed
qed simp

lemma physical_names:
  "physicalColumns (map (\<lambda>c. (col_name c, col_type c)) cs) =
   map col_name cs @ map (\<lambda>x. versionColumn (fst x)) (json_columns cs) @ [ROW_VERSION]"
  unfolding physicalColumns_def by (induction cs rule: json_columns.induct) (auto simp: col_type_def)

lemma version_no_column: "checkColumnName (versionColumn n) \<noteq> Inr u"
  by (cases n) (auto simp: checkColumnName_def versionColumn_def name_part_def name_start_def ensure_def split: if_splits)

lemma sql_field_zip:
  "distinct ks \<Longrightarrow> length ks = length vs \<Longrightarrow> i < length ks \<Longrightarrow> sql_field (zip (ks @ ks') (vs @ vs')) (ks ! i) = vs ! i"
  by (simp add: sql_field_def map_add_def map_of_zip_nth)

lemma sql_field_zip_skip:
  "k \<notin> set ks \<Longrightarrow> length ks = length vs \<Longrightarrow> sql_field (zip (ks @ ks') (vs @ vs')) k = sql_field (zip ks' vs') k"
proof -
  assume "k \<notin> set ks" "length ks = length vs"
  then have "map_of (zip ks vs) k = None" by simp
  then show ?thesis using \<open>length ks = length vs\<close> by (simp add: sql_field_def map_add_def del: map_of_zip_is_None)
qed

lemma json_columns_mem: "(n, j) \<in> set (json_columns cs) \<Longrightarrow> \<exists>opt. Json n opt j \<in> set cs"
  by (induction cs rule: json_columns.induct) auto

lemma json_columns_distinct: "distinct (map col_name cs) \<Longrightarrow> distinct (map fst (json_columns cs))"
proof (induction cs rule: json_columns.induct)
  case (3 n opt j cs)
  then show ?case by (force dest: json_columns_mem)
qed auto

lemma rows_put_parts:
  assumes "rows_put (table_rows T) v version = Inr e"
  obtains kvs ps where "closed v (map col_name (td_columns T)) = Inr kvs"
    "put_columns kvs (td_columns T) = Inr (ps, er_row e)"
    "er_params e = ps @ map (\<lambda>(n, j). if n \<in> fst ` set (er_row e) then SqlNum (of_int (jc_version j)) else SqlNull)
       (json_columns (td_columns T)) @ [SqlNum (of_int version)]"
    "er_id e = map (\<lambda>k. er_params e ! findIndex (\<lambda>c. col_name c = k) (td_columns T)) (td_key T)"
  using assms that by (auto simp: rows_put_def table_rows_def newRowCodec_def andThen_eq_Inr Let_def case_prod_unfold)

theorem put_decode:
  assumes "rows_put (table_rows T) v version = Inr e" and "table_ok T"
  shows "rows_decode code (table_rows T) (zip (rc_physical (table_rows T)) (er_params e)) = Inr (er_row e)"
  using assms(1)
proof (cases rule: rows_put_parts)
  case (1 kvs ps)
  let ?cs = "td_columns T" and ?row = "er_row e"
  let ?stamps = "map (\<lambda>(n, j). if n \<in> fst ` set ?row then SqlNum (of_int (jc_version j)) else SqlNull) (json_columns ?cs)"
  let ?vs = "map (\<lambda>x. versionColumn (fst x)) (json_columns ?cs)"
  let ?S = "zip (map col_name ?cs @ ?vs @ [ROW_VERSION]) (ps @ ?stamps @ [SqlNum (of_int version)])"
  have ok: "distinct (map col_name ?cs)" "\<forall>c\<in>set ?cs. checkColumnName (col_name c) = Inr ()"
    using assms(2) by (simp_all add: table_ok_def columns_ok_def)
  have len: "length ps = length ?cs" by (rule put_columns_length[OF 1(2)])
  have ps: "list_all2 (\<lambda>c p. sql_field ?S (col_name c) = p) ?cs ps"
    unfolding list_all2_conv_all_nth
  proof (intro conjI allI impI)
    fix i
    assume i: "i < length ?cs"
    show "sql_field ?S (col_name (?cs ! i)) = ps ! i"
      using sql_field_zip[OF ok(1), of ps i "?vs @ [ROW_VERSION]" "?stamps @ [SqlNum (of_int version)]"] len i
      by (simp del: zip_append)
  qed (simp add: len)
  have stamp: "sql_field ?S (versionColumn n) = SqlNum (of_int (jc_version j))"
    if nj: "(n, j) \<in> set (json_columns ?cs)" and "n \<in> fst ` set ?row" for n j
  proof -
    have no: "versionColumn n \<notin> set (map col_name ?cs)" using ok(2) version_no_column[of n] by force
    obtain i where i: "i < length (json_columns ?cs)" "json_columns ?cs ! i = (n, j)"
      using nj by (metis in_set_conv_nth)
    have d: "distinct ?vs"
      using json_columns_distinct[OF ok(1)] by (auto simp: distinct_map inj_on_def versionColumn_def)
    have "sql_field ?S (versionColumn n) = sql_field (zip (?vs @ [ROW_VERSION]) (?stamps @ [SqlNum (of_int version)])) (?vs ! i)"
      using sql_field_zip_skip[OF no, of ps "?vs @ [ROW_VERSION]" "?stamps @ [SqlNum (of_int version)]"] len i
      by (simp del: zip_append)
    also have "\<dots> = ?stamps ! i" by (rule sql_field_zip[OF d]) (use i in simp_all)
    finally show ?thesis using i that(2) by simp
  qed
  have "decode_columns code ?S ?cs = Inr ?row" by (rule put_columns_decode[OF 1(2) ps]) (use stamp in blast)
  then show ?thesis using 1(3) by (simp add: rows_decode_def table_rows_def newRowCodec_def physical_names)
qed

subsection \<open>The identity of a row\<close>

definition cell_param :: "cell option \<Rightarrow> sql_value" where
  "cell_param c = (case c of None \<Rightarrow> SqlNull | Some (CScalar s) \<Rightarrow> toSqlite s | Some (CJson w) \<Rightarrow> SqlJson w)"

lemma encodeCell_param: "encodeCell c v = Inr (p, cell) \<Longrightarrow> p = cell_param (Some cell)"
  by (cases c) (auto simp: encodeCell_Plain encodeCell_Json cell_param_def)

lemma put_columns_params:
  assumes "put_columns kvs cs = Inr (ps, row)" and "distinct (map col_name cs)"
  shows "list_all2 (\<lambda>c p. p = cell_param (map_of row (col_name c))) cs ps \<and> fst ` set row \<subseteq> col_name ` set cs"
  using assms
proof (induction cs arbitrary: ps row)
  case (Cons c cs)
  from Cons.prems(1) show ?case
  proof (cases rule: put_columns_Cons)
    case (absent ps')
    have IH: "list_all2 (\<lambda>c p. p = cell_param (map_of row (col_name c))) cs ps'" "fst ` set row \<subseteq> col_name ` set cs"
      using Cons.IH[OF absent(3)] Cons.prems(2) by simp_all
    then have "map_of row (col_name c) = None" using Cons.prems(2) by (auto simp: map_of_eq_None_iff)
    then show ?thesis using IH absent by (auto simp: cell_param_def)
  next
    case (given v p cell ps' row')
    have IH: "list_all2 (\<lambda>c p. p = cell_param (map_of row' (col_name c))) cs ps'" "fst ` set row' \<subseteq> col_name ` set cs"
      using Cons.IH[OF given(5)] Cons.prems(2) by simp_all
    have "list_all2 (\<lambda>d p. p = cell_param (map_of row (col_name d))) cs ps'"
      unfolding list_all2_conv_all_nth
    proof (intro conjI allI impI)
      show "length cs = length ps'" using IH(1) by (rule list_all2_lengthD)
      fix i
      assume i: "i < length cs"
      then have "col_name (cs ! i) \<noteq> col_name c" using Cons.prems(2) by (metis distinct.simps(2) list.simps(9) nth_map nth_mem length_map)
      then show "ps' ! i = cell_param (map_of row (col_name (cs ! i)))"
        using list_all2_nthD[OF IH(1) i] given(4) by simp
    qed
    then show ?thesis using IH given encodeCell_param[OF given(2)] by auto
  qed
qed simp

lemma findIndex_name:
  "distinct (map col_name cs) \<Longrightarrow> i < length cs \<Longrightarrow> findIndex (\<lambda>c. col_name c = col_name (cs ! i)) cs = i"
proof (induction cs arbitrary: i)
  case (Cons c cs)
  then show ?case by (cases i) auto
qed simp

lemma find_name: "distinct (map col_name cs) \<Longrightarrow> c \<in> set cs \<Longrightarrow> List.find (\<lambda>d. col_name d = col_name c) cs = Some c"
  by (induction cs) (auto simp: image_iff)

text \<open>The key object of a row: its key columns' scalars.\<close>

definition row_scalar :: "row \<Rightarrow> string \<Rightarrow> scalar" where
  "row_scalar row k = (case map_of row k of Some (CScalar s) \<Rightarrow> s | _ \<Rightarrow> SBool False)"

definition row_key :: "table_def \<Rightarrow> row \<Rightarrow> pval" where
  "row_key T row = PObj (map (\<lambda>k. (k, plain (row_scalar row k))) (td_key T))"

lemma key_cell:
  assumes "row_ok cs row" and "c \<in> set cs" and "order_column c" and "distinct (map col_name cs)"
  shows "\<exists>s. map_of row (col_name c) = Some (CScalar s) \<and> row_scalar row (col_name c) = s \<and> encodeScalar c (plain s) = Inr s"
proof -
  obtain n ty d where c: "c = Plain n ty False d" "ty = TStr \<or> ty = TInt"
    using assms(3) by (cases c) (auto simp: order_column_def col_type_def)
  have "col_name c \<in> fst ` set row" using assms(1-3) by (auto simp: row_ok_def order_column_def)
  then obtain x where x: "(col_name c, x) \<in> set row" by auto
  then obtain e where e: "e \<in> set cs" "col_name e = col_name c" "cell_ok e x" using assms(1) by (fastforce simp: row_ok_def)
  then have "e = c" using assms(2,4) by (auto simp: distinct_map inj_on_def)
  then obtain s where s: "x = CScalar s" "scalar_ok ty s" using e(3) c(1) by (cases x) (auto simp: cell_ok_def)
  have m: "map_of row (col_name c) = Some (CScalar s)" using x s(1) assms(1) by (simp add: row_ok_def)
  have "encodeScalar c (plain s) = Inr s"
    using c s(2) checkScalar_plain[OF s(2)] by (cases s) (auto simp: encodeScalar_def bound_scalar_def scalar_ok_def)
  then show ?thesis using m by (simp add: row_scalar_def)
qed

lemma plain_defined [simp]: "plain s \<noteq> PUndef"
  by (simp add: plain_def split: scalar.splits)

lemma encode_keys:
  assumes "row_ok cs row" and "distinct (map col_name cs)" and "\<forall>k\<in>set ks. map_of kvs k = Some (plain (row_scalar row k))"
    and "\<forall>k\<in>set ks. \<exists>c\<in>set cs. col_name c = k \<and> order_column c"
  shows "traverse (\<lambda>c. let value = field kvs (col_name c) in
        if value = PUndef then Inl (InvalidArgs ''key column is missing'')
        else andThen (encodeScalar c value) (\<lambda>s. Inr (col_name c, s)))
      (List.map_filter (\<lambda>name. List.find (\<lambda>c. col_name c = name) cs) ks) =
    Inr (map (\<lambda>k. (k, row_scalar row k)) ks)"
  using assms(3,4)
proof (induction ks)
  case Nil
  then show ?case by (simp add: List.map_filter_simps)
next
  case (Cons k ks)
  then obtain c where c: "c \<in> set cs" "col_name c = k" "order_column c" by auto
  then show ?case
    using Cons find_name[OF assms(2) c(1)] key_cell[OF assms(1) c(1) c(3) assms(2)]
    by (auto simp: List.map_filter_simps)
qed

theorem put_key_id:
  assumes "rows_put (table_rows T) v version = Inr e" and "table_ok T" and "text_units v"
  shows "\<exists>k. rows_key (table_rows T) (row_key T (er_row e)) = Inr k \<and> ek_id k = er_id e"
  using assms(1)
proof (cases rule: rows_put_parts)
  case (1 kvs ps)
  let ?cs = "td_columns T" and ?row = "er_row e"
  have ok: "distinct (map col_name ?cs)" "distinct (td_key T)"
    "\<forall>k\<in>set (td_key T). \<exists>c\<in>set ?cs. col_name c = k \<and> order_column c"
    using assms(2) by (simp_all add: table_ok_def columns_ok_def)
  have row: "row_ok ?cs ?row" by (rule put_row_ok[OF assms])
  let ?kv = "map (\<lambda>k. (k, plain (row_scalar ?row k))) (td_key T)"
  have kv: "\<forall>k\<in>set (td_key T). map_of ?kv k = Some (plain (row_scalar ?row k))"
    by (simp add: map_of_map_restrict)
  have "rows_key (table_rows T) (row_key T ?row) =
      Inr \<lparr>ek_params = map (\<lambda>k. toSqlite (row_scalar ?row k)) (td_key T), ek_key = map (\<lambda>k. (k, row_scalar ?row k)) (td_key T),
        ek_id = map (\<lambda>k. toSqlite (row_scalar ?row k)) (td_key T)\<rparr>"
    using encode_keys[OF row ok(1) kv ok(3)]
    by (auto simp: rows_key_def row_key_def table_rows_def newRowCodec_def closed_def own_fields_def Let_def comp_def)
  moreover have "er_id e = map (\<lambda>k. toSqlite (row_scalar ?row k)) (td_key T)"
    unfolding 1(4)
  proof (rule map_cong)
    fix k
    assume "k \<in> set (td_key T)"
    then obtain c where c: "c \<in> set ?cs" "col_name c = k" "order_column c" using ok(3) by auto
    obtain i where i: "i < length ?cs" "?cs ! i = c" using c(1) by (metis in_set_conv_nth)
    obtain s where s: "map_of ?row k = Some (CScalar s)" "row_scalar ?row k = s"
      using key_cell[OF row c(1) c(3) ok(1)] c(2) by auto
    have "ps ! i = cell_param (map_of ?row (col_name c))"
      using put_columns_params[OF 1(2) ok(1)] i by (auto simp: list_all2_conv_all_nth)
    then have "ps ! i = toSqlite s" using s c(2) by (simp add: cell_param_def)
    moreover have "findIndex (\<lambda>c. col_name c = k) ?cs = i" using findIndex_name[OF ok(1) i(1)] i(2) c(2) by simp
    moreover have "er_params e ! i = ps ! i" using 1(3) i(1) put_columns_length[OF 1(2)] by (simp add: nth_append)
    ultimately show "er_params e ! findIndex (\<lambda>c. col_name c = k) ?cs = toSqlite (row_scalar ?row k)" using s by simp
  qed simp
  ultimately show ?thesis by auto
qed

subsection \<open>The property\<close>

text \<open>A table of notes, for the witnesses.\<close>

definition demo_schemas :: schemas where
  "demo_schemas =
     [(''id'', \<lparr>sch_optional = False, sch_json = None, sch_fields = [(''type'', PText (units_of ''string''))]\<rparr>),
      (''n'', \<lparr>sch_optional = False, sch_json = None, sch_fields = [(''type'', PText (units_of ''integer'')), (''default'', PNum 7)]\<rparr>),
      (''note'', \<lparr>sch_optional = True, sch_json = None, sch_fields = [(''type'', PText (units_of ''string''))]\<rparr>)]"

definition demo_columns :: "column list" where
  "demo_columns = [Plain ''id'' TStr False None, Plain ''n'' TInt False (Some (SNum 7)), Plain ''note'' TStr True None]"

definition demo_table :: table_def where
  "demo_table = \<lparr>td_name = ''notes'', td_version = 1, td_schemas = demo_schemas, td_columns = demo_columns,
     td_key = [''id''], td_indexes = [(''by_n'', [''n''])], td_fingerprint = ''f'',
     td_record = map (\<lambda>c. (col_name c, columnRecord c)) demo_columns\<rparr>"

lemma demo_declared: "newTable (\<lambda>v. ''f'') ''notes'' 1 demo_schemas [''id''] [(''by_n'', [''n''])] = Inr demo_table"
  by code_simp

lemma demo_units: "schemas_units demo_schemas"
  by code_simp

definition demo_code :: json_code where
  "demo_code = \<lparr>run_migrate = (\<lambda>j v n. None), check_schema = (\<lambda>j v. True)\<rparr>"

definition demo_value :: pval where
  "demo_value = PObj [(''note'', PText [98]), (''id'', PText [97])]"

definition demo_row :: row where
  "demo_row = [(''id'', CScalar (SText [97])), (''n'', CScalar (SNum 7)), (''note'', CScalar (SText [98]))]"

lemma demo_units_value: "text_units demo_value"
  by code_simp

text \<open>
  C17. A row that a table's \<open>put\<close> accepts is a row of the table, is read back as it was recorded (with its
  defaults and its absent \<open>opt\<close> columns), and its key columns, given as a key, have
  the identity the row was put under.
\<close>

theorem put_roundtrip:
  assumes "newTable digest name v columns key indexes = Inr T" and "schemas_units columns"
    and "rows_put (table_rows T) value version = Inr e" and "text_units value"
  shows "row_ok (td_columns T) (er_row e) \<and>
    rows_decode code (table_rows T) (zip (rc_physical (table_rows T)) (er_params e)) = Inr (er_row e) \<and>
    (\<exists>k. rows_key (table_rows T) (row_key T (er_row e)) = Inr k \<and> ek_id k = er_id e)"
  using put_row_ok[OF assms(3) newTable_ok[OF assms(1,2)] assms(4)] put_decode[OF assms(3) newTable_ok[OF assms(1,2)]]
    put_key_id[OF assms(3) newTable_ok[OF assms(1,2)] assms(4)] by blast

theorem put_roundtrip_witness:
  "rows_decode demo_code (table_rows demo_table) (zip (rc_physical (table_rows demo_table))
     [SqlText [97], SqlNum 7, SqlText [98], SqlNum 1]) = Inr demo_row"
proof -
  have "rows_put (table_rows demo_table) demo_value 1 =
      Inr \<lparr>er_params = [SqlText [97], SqlNum 7, SqlText [98], SqlNum 1], er_row = demo_row, er_columns = [], er_id = [SqlText [97]]\<rparr>"
    by code_simp
  from put_roundtrip[OF demo_declared demo_units this demo_units_value] show ?thesis by simp
qed

text \<open>
  A column named as a member of \<open>Object.prototype\<close>: leaving its field out is refused although it is
  \<open>opt(...)\<close>, since \<open>fields[column.name]\<close> reads the inherited member.
\<close>

definition inherited_table :: table_def where
  "inherited_table = demo_table\<lparr>td_columns := [Plain ''id'' TStr False None, Plain ''constructor'' TStr True None]\<rparr>"

theorem inherited_column_refused:
  "describeColumns [(''id'', \<lparr>sch_optional = False, sch_json = None, sch_fields = [(''type'', PText (units_of ''string''))]\<rparr>),
      (''constructor'', \<lparr>sch_optional = True, sch_json = None, sch_fields = [(''type'', PText (units_of ''string''))]\<rparr>)] =
     Inr (td_columns inherited_table) \<and>
   (\<exists>message. rows_put (table_rows inherited_table) (PObj [(''id'', PText [97])]) 1 = Inl (InvalidArgs message))"
proof
  show "describeColumns [(''id'', \<lparr>sch_optional = False, sch_json = None, sch_fields = [(''type'', PText (units_of ''string''))]\<rparr>),
      (''constructor'', \<lparr>sch_optional = True, sch_json = None, sch_fields = [(''type'', PText (units_of ''string''))]\<rparr>)] =
     Inr (td_columns inherited_table)"
    by code_simp
  have "rows_put (table_rows inherited_table) (PObj [(''id'', PText [97])]) 1 =
      Inl (InvalidArgs ''not a value of the column type'')" by code_simp
  then show "\<exists>message. rows_put (table_rows inherited_table) (PObj [(''id'', PText [97])]) 1 = Inl (InvalidArgs message)" by blast
qed

end
