(* ===== verification/Store_Evaluate_Laws.thy ===== *)
theory Store_Evaluate_Laws
  imports Store_Evaluate Store_Rows_Laws
begin

text \<open>
  Type safety of the compiled vocabulary: what \<open>compileWhere\<close>, \<open>compileExpr\<close> and \<open>compileSet\<close> let
  through (\<open>where_ok\<close>, \<open>expr_null\<close>, \<open>set_ok\<close>) evaluates on every row of the table without a failing
  cast, to cells of the columns' types, if no optional column is named like a member of
  \<open>Object.prototype\<close>; the only error left is an integer out of range (\<open>applySet_typed\<close>).
\<close>

subsection \<open>Typing of the compiled vocabulary\<close>

definition column_scalar :: "column list \<Rightarrow> string \<Rightarrow> (scalar_type \<times> bool) option" where
  "column_scalar cs c = (case by_name cs c of Some (Plain n ty opt d) \<Rightarrow> Some (ty, opt) | _ \<Rightarrow> None)"

definition scalar_fits :: "column list \<Rightarrow> string \<Rightarrow> scalar \<Rightarrow> bool" where
  "scalar_fits cs c s = (case column_scalar cs c of Some (ty, opt) \<Rightarrow> scalar_ok ty s | None \<Rightarrow> False)"

fun where_ok :: "column list \<Rightarrow> where_node \<Rightarrow> bool" where
  "where_ok cs (WCompare k c s) = scalar_fits cs c s"
| "where_ok cs (WIn c ss) = (column_scalar cs c \<noteq> None \<and> (\<forall>s\<in>set ss. scalar_fits cs c s))"
| "where_ok cs (WNull c) = (column_scalar cs c \<noteq> None)"
| "where_ok cs (WPrefix c p) = (map_option fst (column_scalar cs c) = Some TStr \<and> scalar_fits cs c (SText p))"
| "where_ok cs (WAnd ns) = (\<forall>n\<in>set ns. where_ok cs n)"
| "where_ok cs (WOr ns) = (\<forall>n\<in>set ns. where_ok cs n)"
| "where_ok cs (WNot n) = where_ok cs n"

definition arith_types :: "arith \<Rightarrow> scalar_type list" where
  "arith_types k = (case k of Concat \<Rightarrow> [TStr] | Add \<Rightarrow> [TInt] | Sub \<Rightarrow> [TInt] | Max \<Rightarrow> [TInt, TNum] | Min \<Rightarrow> [TInt, TNum])"

text \<open>\<open>Some nullable\<close> of an expression of a column type.\<close>

fun expr_null :: "column list \<Rightarrow> scalar_type \<Rightarrow> expr_node \<Rightarrow> bool option" where
  "expr_null cs ty (ELit s) = (if scalar_ok ty s then Some False else None)"
| "expr_null cs ty ENull = Some True"
| "expr_null cs ty (ECol c) = (case column_scalar cs c of
      Some (t, opt) \<Rightarrow> if t = ty then Some opt else None | None \<Rightarrow> None)"
| "expr_null cs ty (EJson w) = None"
| "expr_null cs ty (EBin k a b) = (case (expr_null cs ty a, expr_null cs ty b) of
      (Some m, Some n) \<Rightarrow> if ty \<in> set (arith_types k) then Some (m \<or> n) else None | _ \<Rightarrow> None)"
| "expr_null cs ty (ECoalesce a b) = (case (expr_null cs ty a, expr_null cs ty b) of
      (Some m, Some n) \<Rightarrow> Some (m \<and> n) | _ \<Rightarrow> None)"
| "expr_null cs ty (EReplace e old new) =
     (if ty = TStr \<and> scalar_ok TStr (SText old) \<and> scalar_ok TStr (SText new) then expr_null cs ty e else None)"
| "expr_null cs ty (EWhen w a b) = (case (expr_null cs ty a, expr_null cs ty b) of
      (Some m, Some n) \<Rightarrow> if where_ok cs w then Some (m \<or> n) else None | _ \<Rightarrow> None)"

definition entry_ok :: "table_def \<Rightarrow> string \<times> expr_node \<Rightarrow> bool" where
  "entry_ok T = (\<lambda>(c, e). c \<notin> set (td_key T) \<and> (case by_name (td_columns T) c of
      None \<Rightarrow> False
    | Some (Plain n ty opt d) \<Rightarrow> expr_null (td_columns T) ty e = Some False \<or> (opt \<and> expr_null (td_columns T) ty e = Some True)
    | Some (Json n opt j) \<Rightarrow> (\<exists>w. e = EJson w) \<or> (opt \<and> e = ENull)))"

subsection \<open>Compiled vocabulary is well-typed\<close>

lemma scalarColumn_ok:
  assumes "scalarColumn T r = Inr c"
  shows "by_name (td_columns T) (col_name c) = Some c \<and> (\<exists>n ty opt d. c = Plain n ty opt d)"
proof -
  obtain x where x: "by_name (td_columns T) x = Some c" "col_type c \<noteq> TJson"
    using assms by (cases r) (auto simp: scalarColumn_def split: option.splits if_splits)
  then show ?thesis using by_name_Some[OF x(1)] by (cases c) (auto simp: col_type_def)
qed

lemma text_case: "(case s of SText p \<Rightarrow> f p | SNum x \<Rightarrow> Inl e | SBool b \<Rightarrow> Inl e) = Inr y \<longleftrightarrow> (\<exists>p. s = SText p \<and> f p = Inr y)"
  by (cases s) auto

lemma operand_ok: "operand c v = Inr s \<Longrightarrow> text_units v \<Longrightarrow> by_name cs (col_name c) = Some c \<Longrightarrow> scalar_fits cs (col_name c) s"
  by (cases c) (auto simp: operand_def scalar_fits_def column_scalar_def dest: checkScalar_ok split: if_splits)

lemma compileWhere_ok: "compileWhere T v = Inr n \<Longrightarrow> text_units v \<Longrightarrow> where_ok (td_columns T) n"
proof (induction T v arbitrary: n rule: compileWhere.induct)
  case (1 T args)
  then obtain ns where ns: "traverse (compileWhere T) args = Inr ns" "n = WAnd ns" by (auto simp: andThen_eq_Inr)
  then have "list_all2 (\<lambda>x y. compileWhere T x = Inr y) args ns" by (simp add: traverse_eq_Inr)
  then show ?case using 1 ns by (auto dest!: list_all2_rightD)
next
  case (2 T args)
  then obtain ns where ns: "traverse (compileWhere T) args = Inr ns" "n = WOr ns" by (auto simp: andThen_eq_Inr)
  then have "list_all2 (\<lambda>x y. compileWhere T x = Inr y) args ns" by (simp add: traverse_eq_Inr)
  then show ?case using 2 ns by (auto dest!: list_all2_rightD)
next
  case (3 T args)
  then show ?case by (auto simp: andThen_eq_Inr)
next
  case (4 T args)
  then show ?case by (auto simp: andThen_eq_Inr column_scalar_def dest!: scalarColumn_ok)
next
  case (5 T args)
  then obtain c s where c: "scalarColumn T (arg args 0) = Inr c" "col_type c = TScalar TStr"
    "operand c (arg args 1) = Inr s" "\<exists>p. s = SText p \<and> n = WPrefix (col_name c) p"
    by (auto simp: andThen_eq_Inr ensure_eq_Inr text_case)
  show ?case
    using c 5(2) scalarColumn_ok[OF c(1)] operand_ok[OF c(3), of "td_columns T"]
    by (auto simp: column_scalar_def col_type_def)
next
  case (6 T args)
  then obtain c where c0: "scalarColumn T (arg args 0) = Inr c" by (auto simp: andThen_eq_Inr)
  then obtain vs ss where c: "scalarColumn T (arg args 0) = Inr c" "arg args 1 = PArr vs"
    "traverse (operand c) vs = Inr ss" "n = WIn (col_name c) ss"
    using 6(1) by (cases "arg args 1") (auto simp: andThen_eq_Inr)
  have "text_units (arg args 1)" using 6 by simp
  then have "\<forall>v\<in>set vs. text_units v" using c(2) by simp
  moreover have "list_all2 (\<lambda>x y. operand c x = Inr y) vs ss" using c(3) by (simp add: traverse_eq_Inr)
  ultimately have "\<forall>s\<in>set ss. scalar_fits (td_columns T) (col_name c) s"
    using scalarColumn_ok[OF c(1)] by (auto dest!: list_all2_rightD intro: operand_ok)
  then show ?case using c scalarColumn_ok[OF c(1)] by (auto simp: column_scalar_def)
next
  case (7 T k args)
  then obtain c s where c: "scalarColumn T (arg args 0) = Inr c" "operand c (arg args 1) = Inr s"
    "n = WCompare k (col_name c) s"
    by (auto simp: andThen_eq_Inr)
  then show ?case using 7(2) scalarColumn_ok[OF c(1)] operand_ok[OF c(2), of "td_columns T"] by simp
qed simp_all

lemma binary_types: "binary operation = Some (k, types) \<Longrightarrow> types = arith_types k"
  by (cases operation) (auto simp: binary_def arith_types_def)

lemma compileExpr_literal:
  assumes "\<not> is_expression v" and "compileExpr T ty v = Inr (e, n)" and "text_units v"
  shows "expr_null cs ty e = Some n"
proof -
  have "compileExpr T ty v = (if v = PUndef \<or> v = PNull then Inr (ENull, True)
      else andThen (checkScalar ty v) (\<lambda>s. Inr (ELit s, False)))"
    using assms(1) by (cases v) (auto simp: is_expression_def)
  then show ?thesis
    using assms(2) checkScalar_ok[OF _ assms(3), of ty]
    by (cases "checkScalar ty v") (auto split: if_splits)
qed

lemma compileExpr_ok:
  "compileExpr T ty v = Inr (e, n) \<Longrightarrow> text_units v \<Longrightarrow> expr_null (td_columns T) ty e = Some n"
proof (induction T ty v arbitrary: e n rule: compileExpr.induct)
  case (1 T ty c)
  then obtain d where d: "by_name (td_columns T) c = Some d" "col_type d = TScalar ty" "e = ECol (col_name d)" "n = col_optional d"
    by (auto split: option.splits if_splits)
  then show ?case using by_name_Some[OF d(1)] by (cases d) (auto simp: column_scalar_def col_type_def)
next
  case (2 T ty args)
  then show ?case by (auto simp: andThen_eq_Inr)
next
  case (3 T ty args)
  then obtain a o' n' where a: "ty = TStr" "compileExpr T ty (arg args 0) = Inr (a, n)"
    "checkScalar TStr (arg args 1) = Inr (SText o')" "checkScalar TStr (arg args 2) = Inr (SText n')"
    "e = EReplace a o' n'"
    by (auto simp: andThen_eq_Inr ensure_eq_Inr text_case)
  then show ?case using 3 checkScalar_ok[OF a(3)] checkScalar_ok[OF a(4)] by (auto simp: andThen_eq_Inr)
next
  case (4 T ty args)
  from 4(3) obtain w a na b nb where a: "compileWhere T (arg args 0) = Inr w" "compileExpr T ty (arg args 1) = Inr (a, na)"
    "compileExpr T ty (arg args 2) = Inr (b, nb)" "e = EWhen w a b" "n = (na \<or> nb)"
    by (simp add: andThen_eq_Inr case_prod_beta) (metis prod.collapse)
  have u: "text_units (arg args i)" for i using 4(4) by simp
  show ?case using a 4(1)[OF a(1,2) u] 4(2)[OF a(1,2) refl a(3) u] compileWhere_ok[OF a(1) u] by simp
qed ((force simp: andThen_eq_Inr ensure_eq_Inr binary_def arith_types_def)
    | (erule compileExpr_literal[rotated]; simp add: is_expression_def))+


lemma compile_entry_ok:
  assumes "compile_entry T (name, v) = Inr x" and "text_units v"
  shows "entry_ok T x"
proof -
  obtain column where b: "by_name (td_columns T) name = Some column" "name \<notin> set (td_key T)"
    using assms(1) by (auto simp: compile_entry_def split: option.splits if_splits)
  show ?thesis
  proof (cases "v = PUndef")
    case True
    then have "col_optional column \<and> x = (name, ENull)" using assms(1) b by (auto simp: compile_entry_def split: if_splits)
    then show ?thesis using b by (cases column) (auto simp: entry_ok_def)
  next
    case False
    show ?thesis
    proof (cases column)
      case (Json n opt j)
      then obtain w where "x = (name, EJson w)"
        using assms(1) b False by (auto simp: compile_entry_def encodeCell_Json andThen_eq_Inr split: if_splits)
      then show ?thesis using b Json by (simp add: entry_ok_def)
    next
      case (Plain n ty opt d)
      show ?thesis
      proof (cases "is_expression v")
        case True
        then obtain node nullable where "compileExpr T ty v = Inr (node, nullable)" "\<not> (nullable \<and> \<not> opt)" "x = (name, node)"
          using assms(1) b False Plain by (auto simp: compile_entry_def andThen_eq_Inr split: if_splits)
        then show ?thesis using b Plain compileExpr_ok[of T ty v node nullable] assms(2)
          by (cases nullable) (auto simp: entry_ok_def)
      next
        case notexpr: False
        then obtain s where "checkScalar ty v = Inr s" "x = (name, ELit s)"
          using assms(1) b False Plain by (auto simp: compile_entry_def andThen_eq_Inr split: if_splits)
        then show ?thesis using b Plain checkScalar_ok[of ty v s] assms(2) by (auto simp: entry_ok_def)
      qed
    qed
  qed
qed

lemma own_fields_units: "own_fields v = Some kvs \<Longrightarrow> text_units v \<Longrightarrow> \<forall>kv\<in>set kvs. text_units (snd kv)"
  by (cases v) (auto simp: own_fields_def)

lemma compileSet_ok: "compileSet T v = Inr es \<Longrightarrow> text_units v \<Longrightarrow> \<forall>x\<in>set es. entry_ok T x"
proof
  fix x
  assume c: "compileSet T v = Inr es" "text_units v" and x: "x \<in> set es"
  obtain kvs where k: "own_fields v = Some kvs" "list_all2 (\<lambda>kv y. compile_entry T kv = Inr y) kvs es"
    using c(1) by (auto simp: compileSet_def traverse_eq_Inr split: option.splits if_splits)
  obtain kv where "kv \<in> set kvs" "compile_entry T kv = Inr x" using list_all2_rightD[OF k(2) x] by auto
  then show "entry_ok T x" using own_fields_units[OF k(1) c(2)] compile_entry_ok[of T "fst kv" "snd kv" x] by simp
qed

subsection \<open>Conditions evaluate\<close>

text \<open>
  Columns that are read by name without finding what a plain object inherits: none is named \<open>__proto__\<close>, and no
  optional one is named like a member of \<open>Object.prototype\<close>.
\<close>

definition plain_names :: "column list \<Rightarrow> bool" where
  "plain_names cs = (\<forall>c\<in>set cs. col_name c \<noteq> ''__proto__'' \<and> (col_optional c \<longrightarrow> col_name c \<notin> set object_members))"

lemma row_scalar_cell:
  assumes "row_ok cs row" and "distinct (map col_name cs) \<and> plain_names cs" and "column_scalar cs c = Some (ty, opt)"
  shows "read_cell row c = map_of row c" and "case map_of row c of None \<Rightarrow> opt | Some x \<Rightarrow> \<exists>s. x = CScalar s \<and> scalar_ok ty s"
proof -
  obtain n d where b: "by_name cs c = Some (Plain n ty opt d)"
    using assms(3) by (auto simp: column_scalar_def split: option.splits column.splits)
  then have col: "Plain n ty opt d \<in> set cs" "n = c" using by_name_Some[OF b] by auto
  show cell: "case map_of row c of None \<Rightarrow> opt | Some x \<Rightarrow> \<exists>s. x = CScalar s \<and> scalar_ok ty s"
  proof (cases "map_of row c")
    case None
    then have "c \<notin> fst ` set row" by (simp add: map_of_eq_None_iff)
    then show ?thesis using None col assms(1) by (force simp: row_ok_def)
  next
    case (Some x)
    then have "(c, x) \<in> set row" by (rule map_of_SomeD)
    then obtain e where e: "e \<in> set cs" "col_name e = c" "cell_ok e x" using assms(1) by (fastforce simp: row_ok_def)
    then have "e = Plain n ty opt d" using col assms(2) by (auto simp: distinct_map inj_on_def)
    then show ?thesis using e(3) Some by (auto simp: cell_ok_def split: cell.splits)
  qed
  show "read_cell row c = map_of row c"
    using cell assms(2) bspec[OF _ col(1), of "\<lambda>x. col_name x \<noteq> ''__proto__'' \<and> (col_optional x \<longrightarrow> col_name x \<notin> set object_members)"] col(2)
    by (auto simp: read_cell_def plain_names_def split: option.splits)
qed

lemma compareScalar_ok: "scalar_ok ty a \<Longrightarrow> scalar_ok ty b \<Longrightarrow> \<exists>r. compareScalar a b = Inr r"
  by (cases ty; cases a; cases b) (auto simp: scalar_ok_def compareScalar_def number_of_def)

lemma some_equal_ok: "scalar_ok ty a \<Longrightarrow> \<forall>b\<in>set ss. scalar_ok ty b \<Longrightarrow> \<exists>b. some_equal a ss = Inr b"
proof (induction ss)
  case (Cons s ss)
  then show ?case using compareScalar_ok[of ty a s] by auto
next
  case Nil
  show ?case by (rule exI[of _ False]) simp
qed

lemma run_steps_total: "(\<And>s x. x \<in> set xs \<Longrightarrow> \<exists>t. f s x = Inr t) \<Longrightarrow> \<exists>t. run_steps f s xs = Inr t"
proof (induction xs arbitrary: s)
  case (Cons x xs)
  obtain t where "f s x = Inr t" using Cons.prems[of x s] by auto
  then show ?case using Cons.IH[of t] Cons.prems by auto
qed simp

lemma andThen_total: "\<exists>a. r = Inr a \<Longrightarrow> (\<And>a. r = Inr a \<Longrightarrow> \<exists>b. f a = Inr b) \<Longrightarrow> \<exists>b. andThen r f = Inr b"
  by auto

lemma scalar_at_ok:
  assumes "row_ok cs row" and "distinct (map col_name cs) \<and> plain_names cs" and "column_scalar cs c = Some (ty, opt)"
  obtains (absent) "scalar_at row c = Inr None" "map_of row c = None"
  | (present) s where "scalar_at row c = Inr (Some s)" "scalar_ok ty s" "map_of row c = Some (CScalar s)"
  using row_scalar_cell[OF assms] by (cases "map_of row c") (auto simp: scalar_at_def)

lemma truth_ok:
  assumes "where_ok cs n" and "row_ok cs row" and "distinct (map col_name cs) \<and> plain_names cs"
  shows "\<exists>t. truth row n = Inr t"
  using assms(1)
proof (induction n)
  case (WCompare k c s)
  then obtain ty opt where t: "column_scalar cs c = Some (ty, opt)" "scalar_ok ty s"
    by (auto simp: scalar_fits_def split: option.splits)
  show ?case
  proof (cases rule: scalar_at_ok[OF assms(2,3) t(1)])
    case 2
    then show ?thesis using compareScalar_ok[OF 2(2) t(2)] by auto
  qed simp
next
  case (WIn c ss)
  then obtain ty opt where t: "column_scalar cs c = Some (ty, opt)" "\<forall>s\<in>set ss. scalar_ok ty s"
    by (auto simp: scalar_fits_def)
  show ?case
  proof (cases rule: scalar_at_ok[OF assms(2,3) t(1)])
    case 2
    then show ?thesis using some_equal_ok[OF 2(2) t(2)] by auto
  qed simp
next
  case (WPrefix c p)
  then obtain opt where t: "column_scalar cs c = Some (TStr, opt)" by auto
  show ?case
  proof (cases rule: scalar_at_ok[OF assms(2,3) t(1)])
    case (2 s)
    then show ?thesis by (cases s) (auto simp: scalar_ok_def)
  qed simp
next
  case (WAnd ns)
  then show ?case by (auto intro!: run_steps_total andThen_total)
next
  case (WOr ns)
  then show ?case by (auto intro!: run_steps_total andThen_total)
next
  case (WNot n)
  then show ?case by auto
qed simp

lemma matches_ok: "where_ok cs n \<Longrightarrow> row_ok cs row \<Longrightarrow> distinct (map col_name cs) \<and> plain_names cs \<Longrightarrow> \<exists>b. matches n row = Inr b"
  using truth_ok[of cs n row] by (auto simp: matches_def)


subsection \<open>Values evaluate to their column's type\<close>

definition value_ok :: "scalar_type \<Rightarrow> bool \<Rightarrow> (store_error, cell option) result \<Rightarrow> bool" where
  "value_ok ty nullable r = (case r of
      Inl e \<Rightarrow> e = OUT_OF_RANGE
    | Inr None \<Rightarrow> nullable
    | Inr (Some (CScalar s)) \<Rightarrow> scalar_ok ty s
    | Inr (Some (CJson w)) \<Rightarrow> False)"

lemma value_ok_cases:
  assumes "value_ok ty nullable r"
  obtains (range) "r = Inl OUT_OF_RANGE" | (null) "r = Inr None" nullable
  | (scalar) s where "r = Inr (Some (CScalar s))" "scalar_ok ty s"
  using assms by (auto simp: value_ok_def split: sum.splits option.splits cell.splits)

lemma value_ok_simps [simp]:
  "value_ok ty n (Inl e) = (e = OUT_OF_RANGE)" "value_ok ty n (Inr None) = n"
  "value_ok ty n (Inr (Some (CScalar s))) = scalar_ok ty s" "value_ok ty n (Inr (Some (CJson w))) = False"
  by (simp_all add: value_ok_def)

lemma safe_integer_arith:
  assumes "safe_integer x" and "safe_integer y" and "\<bar>r\<bar> \<le> 9007199254740991" and "r = x + y \<or> r = x - y"
  shows "safe_integer r"
proof -
  obtain i j :: int where "x = of_int i" "y = of_int j" using assms(1,2) unfolding safe_integer_def by metis
  then have "r = of_int (i + j) \<or> r = of_int (i - j)" using assms(4) by simp
  then have "of_int \<lfloor>r\<rfloor> = r" by (metis floor_of_int)
  then show ?thesis using assms(3) by (simp add: safe_integer_def)
qed

lemma operate_ok:
  assumes "ty \<in> set (arith_types k)" and "scalar_ok ty a" and "scalar_ok ty b"
  shows "case operate k a b of Inl e \<Rightarrow> e = OUT_OF_RANGE | Inr s \<Rightarrow> scalar_ok ty s"
proof -
  have sum: ?thesis if k: "k = Add \<or> k = Sub"
  proof -
    have ty: "ty = TInt" using assms(1) k by (auto simp: arith_types_def)
    then obtain x y where xy: "a = SNum x" "b = SNum y" "safe_integer x" "safe_integer y"
      using assms(2,3) by (cases a; cases b) (auto simp: scalar_ok_def)
    define r where "r = (if k = Add then x + y else x - y)"
    have "operate k a b = (if r > 9007199254740991 \<or> r < - 9007199254740991 then Inl OUT_OF_RANGE else Inr (SNum r))"
      using k xy by (auto simp: operate_def r_def Let_def)
    moreover have "scalar_ok TInt (SNum r)" if "\<not> (r > 9007199254740991 \<or> r < - 9007199254740991)"
      using safe_integer_arith[OF xy(3,4), of r] that by (auto simp: r_def scalar_ok_def abs_le_iff split: if_splits)
    ultimately show ?thesis using ty by auto
  qed
  obtain r where r: "compareScalar a b = Inr r" using compareScalar_ok[OF assms(2,3)] by auto
  have concat: ?thesis if k: "k = Concat"
  proof -
    have ty: "ty = TStr" using assms(1) k by (simp add: arith_types_def)
    then obtain s t where "a = SText s" "b = SText t" using assms(2,3) by (cases a; cases b) (auto simp: scalar_ok_def)
    then show ?thesis using assms(2,3) k ty by (auto simp: operate_def scalar_ok_def isWellFormed_append)
  qed
  show ?thesis using sum concat assms r by (cases k) (auto simp: operate_def)
qed

lemma replace_ok:
  "scalar_ok TStr (SText t) \<Longrightarrow> scalar_ok TStr (SText old) \<Longrightarrow> scalar_ok TStr (SText new) \<Longrightarrow>
   scalar_ok TStr (SText (if startsWith t old then new @ drop (length old) t else t))"
proof -
  assume t: "scalar_ok TStr (SText t)" and o': "scalar_ok TStr (SText old)" and n: "scalar_ok TStr (SText new)"
  have "scalar_ok TStr (SText (new @ drop (length old) t))" if sw: "startsWith t old"
  proof -
    obtain rest where "t = old @ rest" using sw by (auto simp: startsWith_prefix prefix_def)
    then show ?thesis using t o' n wf_suffix[of old rest] by (auto simp: scalar_ok_def isWellFormed_append)
  qed
  then show ?thesis using t by simp
qed

lemma evaluate_ok:
  assumes "row_ok cs row" and "distinct (map col_name cs) \<and> plain_names cs" and "expr_null cs ty e = Some nullable"
  shows "value_ok ty nullable (evaluate row e)"
  using assms(3)
proof (induction e arbitrary: nullable)
  case (ELit s)
  then show ?case by (auto split: if_splits)
next
  case (ECol c)
  then obtain opt where c: "column_scalar cs c = Some (ty, opt)" "nullable = opt" by (auto split: option.splits if_splits)
  show ?case using row_scalar_cell[OF assms(1,2) c(1)] c(2) by (cases "map_of row c") auto
next
  case (EBin k a b)
  then obtain m n where mn: "expr_null cs ty a = Some m" "expr_null cs ty b = Some n" "ty \<in> set (arith_types k)" "nullable = (m \<or> n)"
    by (auto split: option.splits if_splits)
  show ?case
  proof (cases rule: value_ok_cases[OF EBin.IH(1)[OF mn(1)]])
    case 2
    then show ?thesis using mn(4)
      by (cases rule: value_ok_cases[OF EBin.IH(2)[OF mn(2)]]) (auto simp: as_scalar_def)
  next
    case a: (3 s)
    show ?thesis
    proof (cases rule: value_ok_cases[OF EBin.IH(2)[OF mn(2)]])
      case (3 t)
      then show ?thesis using a operate_ok[OF mn(3) a(2) 3(2)] by (cases "operate k s t") (auto simp: as_scalar_def)
    qed (use a mn(4) in \<open>auto simp: as_scalar_def\<close>)
  qed simp
next
  case (ECoalesce a b)
  then obtain m n where mn: "expr_null cs ty a = Some m" "expr_null cs ty b = Some n" "nullable = (m \<and> n)"
    by (auto split: option.splits)
  show ?case
    by (cases rule: value_ok_cases[OF ECoalesce.IH(1)[OF mn(1)]]; cases rule: value_ok_cases[OF ECoalesce.IH(2)[OF mn(2)]])
      (use mn(3) in auto)
next
  case (EReplace e old new)
  then have e: "ty = TStr" "scalar_ok TStr (SText old)" "scalar_ok TStr (SText new)" "expr_null cs ty e = Some nullable"
    by (auto split: if_splits)
  show ?case
  proof (cases rule: value_ok_cases[OF EReplace.IH[OF e(4)]])
    case (3 s)
    then obtain t where "s = SText t" using e(1) by (cases s) (auto simp: scalar_ok_def)
    then show ?thesis using 3 e replace_ok[of t old new] by auto
  qed simp_all
next
  case (EWhen w a b)
  then obtain m n where mn: "expr_null cs ty a = Some m" "expr_null cs ty b = Some n" "where_ok cs w" "nullable = (m \<or> n)"
    by (auto split: option.splits if_splits)
  obtain t where "matches w row = Inr t" using matches_ok[OF mn(3) assms(1,2)] by auto
  then show ?case
    by (cases t; cases rule: value_ok_cases[OF EWhen.IH(1)[OF mn(1)]]; cases rule: value_ok_cases[OF EWhen.IH(2)[OF mn(2)]])
      (use mn(4) in auto)
qed simp_all

subsection \<open>Rows after a set\<close>

lemma row_ok_update:
  assumes "row_ok cs r" and "col \<in> set cs" and "col_name col = c" and "cell_ok col x"
  shows "row_ok cs (AList.update c x r)"
  using assms unfolding row_ok_def by (auto simp: distinct_update dom_update dest: set_update_subset)

lemma row_ok_delete:
  assumes "row_ok cs r" and "\<forall>d\<in>set cs. col_name d = c \<longrightarrow> col_optional d"
  shows "row_ok cs (AList.delete c r)"
proof -
  have "col_name d \<in> fst ` set (AList.delete c r)" if "d \<in> set cs" "\<not> col_optional d" for d
  proof -
    have "col_name d \<in> fst ` set r" using assms(1) that unfolding row_ok_def by blast
    then obtain x where "(col_name d, x) \<in> set r" by auto
    moreover have "col_name d \<noteq> c" using assms(2) that by auto
    ultimately have "(col_name d, x) \<in> set (AList.delete c r)" by (simp add: AList.delete_eq)
    then show ?thesis by (metis fst_conv image_eqI)
  qed
  moreover have "distinct (map fst (AList.delete c r))" using assms(1) unfolding row_ok_def by (simp add: AList.distinct_delete)
  moreover have "\<forall>(n, v)\<in>set (AList.delete c r). \<exists>d\<in>set cs. col_name d = n \<and> cell_ok d v"
    using assms(1) unfolding row_ok_def by (auto dest: in_set_deleteD)
  ultimately show ?thesis unfolding row_ok_def by blast
qed

lemma entry_value:
  assumes "entry_ok T (c, e)" and "row_ok (td_columns T) row" and "distinct (map col_name (td_columns T)) \<and> plain_names (td_columns T)"
  obtains (range) "evaluate row e = Inl OUT_OF_RANGE"
  | (null) "evaluate row e = Inr None" "\<forall>d\<in>set (td_columns T). col_name d = c \<longrightarrow> col_optional d"
  | (cell) x col where "evaluate row e = Inr (Some x)" "col \<in> set (td_columns T)" "col_name col = c" "cell_ok col x"
proof -
  let ?cs = "td_columns T"
  obtain col where b: "by_name ?cs c = Some col" using assms(1) by (auto simp: entry_ok_def split: option.splits)
  have col: "col \<in> set ?cs" "col_name col = c" using by_name_Some[OF b] by auto
  have only: "d = col" if "d \<in> set ?cs" "col_name d = c" for d
    using that col assms(3) by (auto simp: distinct_map inj_on_def)
  show thesis
  proof (cases col)
    case (Plain n ty opt d)
    then obtain nullable where n: "expr_null ?cs ty e = Some nullable" "nullable \<longrightarrow> opt"
      using assms(1) b by (auto simp: entry_ok_def)
    show thesis
    proof (cases rule: value_ok_cases[OF evaluate_ok[OF assms(2,3) n(1)]])
      case 1
      then show thesis by (rule range)
    next
      case 2
      then have "col_optional col" using n(2) Plain by simp
      then show thesis using null[OF 2(1)] only by blast
    next
      case (3 s)
      then show thesis using cell[OF 3(1) col] Plain by (simp add: cell_ok_def)
    qed
  next
    case (Json n opt j)
    then consider w where "e = EJson w" | "opt" "e = ENull" using assms(1) b by (auto simp: entry_ok_def)
    then show thesis
    proof cases
      case (1 w)
      then show thesis using cell[of "CJson w" col] col Json by (simp add: cell_ok_def)
    next
      case 2
      then have "evaluate row e = Inr None" "col_optional col" using Json by simp_all
      then show thesis using null only by blast
    qed
  qed
qed

lemma applySet_from:
  assumes "\<forall>x\<in>set es. entry_ok T x" and "row_ok (td_columns T) row" and "distinct (map col_name (td_columns T)) \<and> plain_names (td_columns T)"
    and "row_ok (td_columns T) r"
  shows "case run_steps (\<lambda>after (c, e). andThen (evaluate row e) (\<lambda>v.
       Inr (case v of None \<Rightarrow> AList.delete c after | Some x \<Rightarrow> AList.update c x after))) r es of
     Inl err \<Rightarrow> err = OUT_OF_RANGE
   | Inr r' \<Rightarrow> row_ok (td_columns T) r' \<and> (\<forall>k\<in>set (td_key T). map_of r' k = map_of r k)"
  using assms(1,4)
proof (induction es arbitrary: r)
  case (Cons x es)
  obtain c e where x: "x = (c, e)" by (cases x)
  have key: "c \<notin> set (td_key T)" using Cons.prems x by (auto simp: entry_ok_def)
  have "entry_ok T (c, e)" using Cons.prems(1) x by simp
  from entry_value[OF this assms(2,3)] show ?case
  proof cases
    case 1
    then show ?thesis using x by simp
  next
    case 2
    have "row_ok (td_columns T) (AList.delete c r)" by (rule row_ok_delete[OF Cons.prems(2) 2(2)])
    then show ?thesis using Cons.IH[of "AList.delete c r"] Cons.prems(1) x 2(1) key
      by (auto split: sum.splits)
  next
    case (3 v col)
    have "row_ok (td_columns T) (AList.update c v r)" by (rule row_ok_update[OF Cons.prems(2) 3(2-4)])
    then show ?thesis using Cons.IH[of "AList.update c v r"] Cons.prems(1) x 3(1) key
      by (auto split: sum.splits)
  qed
qed simp

subsection \<open>The properties\<close>

text \<open>
  C15. Sets are type-safe: a set that the compiler accepts for a declared table without an optional column that is
  named like a member of \<open>Object.prototype\<close>, applied to any row of it, fails only for an integer outside the
  safe range; otherwise it gives a row of the table again, with the key columns as they were. Casts of the
  evaluator never fail, no column that must have a value loses it.
\<close>

theorem applySet_typed:
  assumes "newTable digest name v columns key indexes = Inr T" and "schemas_units columns" and "plain_names (td_columns T)"
    and "compileSet T value = Inr es" and "text_units value" and "row_ok (td_columns T) row"
  shows "case applySet es row of
      Inl e \<Rightarrow> e = OUT_OF_RANGE
    | Inr after \<Rightarrow> row_ok (td_columns T) after \<and> (\<forall>k\<in>set (td_key T). map_of after k = map_of row k)"
  unfolding applySet_def
  by (rule applySet_from[OF compileSet_ok[OF assms(4,5)] assms(6) _ assms(6)])
    (use newTable_ok[OF assms(1,2)] assms(3) in \<open>simp add: table_ok_def columns_ok_def\<close>)

definition demo_set :: pval where
  "demo_set = PObj [(''n'', build_add (PColumn ''n'') (PNum 1)), (''note'', PUndef)]"

theorem applySet_typed_witness:
  "applySet [(''n'', EBin Add (ECol ''n'') (ELit (SNum 1))), (''note'', ENull)] demo_row =
     Inr [(''id'', CScalar (SText [97])), (''n'', CScalar (SNum 8))] \<and>
   row_ok demo_columns [(''id'', CScalar (SText [97])), (''n'', CScalar (SNum 8))]"
proof -
  let ?es = "[(''n'', EBin Add (ECol ''n'') (ELit (SNum 1))), (''note'', ENull)]"
  have c: "compileSet demo_table demo_set = Inr ?es" by code_simp
  have u: "text_units demo_set" by code_simp
  have r: "row_ok (td_columns demo_table) demo_row" by code_simp
  have a: "applySet ?es demo_row = Inr [(''id'', CScalar (SText [97])), (''n'', CScalar (SNum 8))]" by code_simp
  have n: "plain_names (td_columns demo_table)" by code_simp
  from applySet_typed[OF demo_declared demo_units n c u r] a show ?thesis by (simp add: demo_table_def)
qed

text \<open>
  With an optional column named \<open>constructor\<close> a set is not type-safe: where the column is absent, its value is the
  inherited function, which a set of another column to it puts into the row.
\<close>

theorem inherited_column_set:
  "compileSet (inherited_table\<lparr>td_columns := td_columns inherited_table @ [Plain ''note'' TStr True None]\<rparr>)
     (PObj [(''note'', PColumn ''constructor'')]) = Inr [(''note'', ECol ''constructor'')] \<and>
   applySet [(''note'', ECol ''constructor'')] [(''id'', CScalar (SText [97]))] =
     Inr [(''id'', CScalar (SText [97])), (''note'', CJson PFunction)]"
proof
  show "compileSet (inherited_table\<lparr>td_columns := td_columns inherited_table @ [Plain ''note'' TStr True None]\<rparr>)
     (PObj [(''note'', PColumn ''constructor'')]) = Inr [(''note'', ECol ''constructor'')]" by code_simp
  show "applySet [(''note'', ECol ''constructor'')] [(''id'', CScalar (SText [97]))] =
     Inr [(''id'', CScalar (SText [97])), (''note'', CJson PFunction)]" by code_simp
qed

end
