(* ===== verification/Store_Sql_Laws.thy ===== *)
theory Store_Sql_Laws
  imports Store_Sql Store_Evaluate_Laws
begin

text \<open>
  The statements of a table bind every parameter at the place its value has. The reference renders a
  condition, a value or a set with its values written in place (\<open>where_text\<close>, \<open>expr_text\<close>,
  \<open>set_text\<close>); binding a statement's parameters to its \<open>?\<close>s in order gives that text
  (\<open>statements_bound\<close>). And the SQL of a prefix condition is that of a range on which the evaluator agrees
  (\<open>prefix_as_range\<close>).
\<close>

datatype piece = Token token | Bound sql_value

fun bind_params :: "token list \<Rightarrow> sql_value list \<Rightarrow> piece list option" where
  "bind_params [] [] = Some []"
| "bind_params [] (v # vs) = None"
| "bind_params (t # ts) vs =
     (if t = Hole then (case vs of [] \<Rightarrow> None | v # ws \<Rightarrow> map_option (Cons (Bound v)) (bind_params ts ws))
      else map_option (Cons (Token t)) (bind_params ts vs))"

definition erase :: "piece list \<Rightarrow> token list" where
  "erase ps = map (\<lambda>p. case p of Token t \<Rightarrow> t | Bound v \<Rightarrow> Hole) ps"

definition bound_values :: "piece list \<Rightarrow> sql_value list" where
  "bound_values ps = List.map_filter (\<lambda>p. case p of Token t \<Rightarrow> None | Bound v \<Rightarrow> Some v) ps"

lemma erase_simps [simp]:
  "erase [] = []" "erase (Token t # ps) = t # erase ps" "erase (Bound v # ps) = Hole # erase ps"
  "erase (ps @ qs) = erase ps @ erase qs"
  by (simp_all add: erase_def)

lemma bound_values_simps [simp]:
  "bound_values [] = []" "bound_values (Token t # ps) = bound_values ps" "bound_values (Bound v # ps) = v # bound_values ps"
  "bound_values (ps @ qs) = bound_values ps @ bound_values qs"
  by (simp_all add: bound_values_def List.map_filter_def)

definition no_hole :: "piece list \<Rightarrow> bool" where
  "no_hole ps = (Token Hole \<notin> set ps)"

lemma bind_erase: "no_hole ps \<Longrightarrow> bind_params (erase ps) (bound_values ps) = Some ps"
proof (induction ps)
  case (Cons p ps)
  then show ?case by (cases p) (auto simp: no_hole_def)
qed simp

subsection \<open>The reference rendering\<close>

fun join_pieces :: "string \<Rightarrow> piece list list \<Rightarrow> piece list" where
  "join_pieces sep [] = []"
| "join_pieces sep [x] = x"
| "join_pieces sep (x # y # ys) = x @ Token (Raw sep) # join_pieces sep (y # ys)"

definition raw :: "string \<Rightarrow> piece" where
  "raw s = Token (Raw s)"

definition ident :: "string \<Rightarrow> piece" where
  "ident s = Token (Id s)"

fun where_text :: "where_node \<Rightarrow> piece list" where
  "where_text (WAnd nodes) =
     (if nodes = [] then [raw ''1''] else [raw ''(''] @ join_pieces '' AND '' (map where_text nodes) @ [raw '')''])"
| "where_text (WOr nodes) =
     (if nodes = [] then [raw ''0''] else [raw ''(''] @ join_pieces '' OR '' (map where_text nodes) @ [raw '')''])"
| "where_text (WNot node) = [raw ''(NOT ''] @ where_text node @ [raw '')'']"
| "where_text (WNull c) = [ident c, raw '' IS NULL'']"
| "where_text (WIn c vs) =
     [ident c, raw '' IN (SELECT value FROM json_each('', Bound (SqlJson (PArr (map (\<lambda>v. plain (bound_scalar v)) vs))), raw ''))'']"
| "where_text (WPrefix c p) = (case prefixUpperBound p of
      None \<Rightarrow> [ident c, raw '' >= '', Bound (SqlText p)]
    | Some u \<Rightarrow> [raw ''('', ident c, raw '' >= '', Bound (SqlText p), raw '' AND '', ident c, raw '' < '', Bound (SqlText u), raw '')''])"
| "where_text (WCompare k c v) = [ident c, raw '' '', raw (comparison_sql k), raw '' '', Bound (toSqlite v)]"

definition arith_text :: "arith \<Rightarrow> piece list \<Rightarrow> piece list \<Rightarrow> piece list" where
  "arith_text k a b = (case k of
      Add \<Rightarrow> [raw ''(''] @ a @ [raw '' + ''] @ b @ [raw '')'']
    | Sub \<Rightarrow> [raw ''(''] @ a @ [raw '' - ''] @ b @ [raw '')'']
    | Max \<Rightarrow> [raw ''max(''] @ a @ [raw '', ''] @ b @ [raw '')'']
    | Min \<Rightarrow> [raw ''min(''] @ a @ [raw '', ''] @ b @ [raw '')'']
    | Concat \<Rightarrow> [raw ''(''] @ a @ [raw '' || ''] @ b @ [raw '')''])"

fun expr_text :: "expr_node \<Rightarrow> piece list" where
  "expr_text ENull = [raw ''NULL'']"
| "expr_text (ELit s) = [Bound (toSqlite s)]"
| "expr_text (ECol c) = [ident c]"
| "expr_text (EJson w) = [Bound (SqlJson w)]"
| "expr_text (EWhen w a b) =
     [raw ''(CASE WHEN ''] @ where_text w @ [raw '' THEN ''] @ expr_text a @ [raw '' ELSE ''] @ expr_text b @ [raw '' END)'']"
| "expr_text (EReplace s old new) =
     [raw ''(CASE WHEN substr(''] @ expr_text s @ [raw '', 1, '', Bound (SqlNum (of_nat (length (code_points old)))), raw '') = '',
      Bound (SqlText old), raw '' THEN '', Bound (SqlText new), raw '' || substr(''] @ expr_text s @
     [raw '', '', Bound (SqlNum (of_nat (length (code_points old)) + 1)), raw '') ELSE ''] @ expr_text s @ [raw '' END)'']"
| "expr_text (ECoalesce a b) = [raw ''coalesce(''] @ expr_text a @ [raw '', ''] @ expr_text b @ [raw '')'']"
| "expr_text (EBin k a b) = arith_text k (expr_text a) (expr_text b)"

definition assignment_text :: "(string \<times> int) list \<Rightarrow> string \<times> expr_node \<Rightarrow> piece list list" where
  "assignment_text versions = (\<lambda>(c, e). ([ident c, raw '' = ''] @ expr_text e) # (case map_of versions c of
      None \<Rightarrow> []
    | Some v \<Rightarrow> [[ident (versionColumn c), raw '' = '', Bound (if e = ENull then SqlNull else SqlNum (of_int v))]]))"

definition set_text :: "set_node \<Rightarrow> (string \<times> int) list \<Rightarrow> piece list" where
  "set_text es versions = join_pieces '', '' (concat (map (assignment_text versions) es))"

subsection \<open>Rendering is the reference with its values taken out\<close>

lemma erase_join [simp]: "erase (join_pieces sep xs) = join_tokens sep (map erase xs)"
  by (induction sep xs rule: join_pieces.induct) auto

lemma bound_values_join [simp]: "bound_values (join_pieces sep xs) = concat (map bound_values xs)"
  by (induction sep xs rule: join_pieces.induct) auto

lemma piece_simps [simp]:
  "erase (raw s # ps) = Raw s # erase ps" "erase (ident s # ps) = Id s # erase ps"
  "bound_values (raw s # ps) = bound_values ps" "bound_values (ident s # ps) = bound_values ps"
  by (simp_all add: raw_def ident_def)

lemma thread_text:
  "(\<And>x ps. x \<in> set xs \<Longrightarrow> f ps x = (ps @ bound_values (g x), erase (g x))) \<Longrightarrow>
   thread f ps xs = (ps @ concat (map (\<lambda>x. bound_values (g x)) xs), map (\<lambda>x. erase (g x)) xs)"
  by (induction xs arbitrary: ps) auto

lemma whereSql_text: "whereSql n ps = (ps @ bound_values (where_text n), erase (where_text n))"
proof (induction n arbitrary: ps)
  case (WAnd ns)
  have "thread (\<lambda>ps each. whereSql each ps) ps ns =
      (ps @ concat (map (\<lambda>x. bound_values (where_text x)) ns), map (\<lambda>x. erase (where_text x)) ns)"
    by (rule thread_text) (rule WAnd)
  then show ?case by (simp add: comp_def)
next
  case (WOr ns)
  have "thread (\<lambda>ps each. whereSql each ps) ps ns =
      (ps @ concat (map (\<lambda>x. bound_values (where_text x)) ns), map (\<lambda>x. erase (where_text x)) ns)"
    by (rule thread_text) (rule WOr)
  then show ?case by (simp add: comp_def)
qed (auto simp: quote_def split: option.splits)

lemma exprSql_text: "exprSql e ps = (ps @ bound_values (expr_text e), erase (expr_text e))"
proof (induction e arbitrary: ps)
  case (EBin k a b)
  then show ?case by (cases k) (simp_all add: arith_sql_def arith_text_def)
qed (simp_all add: quote_def whereSql_text Let_def)

lemma concat_concat_map: "concat (concat (map f xs)) = concat (map (\<lambda>x. concat (f x)) xs)"
  by (induction xs) auto

lemma setSql_text: "setSql es versions ps = (ps @ bound_values (set_text es versions), erase (set_text es versions))"
proof -
  have a: "assignment_sql versions ps x =
      (ps @ concat (map bound_values (assignment_text versions x)), map erase (assignment_text versions x))" for ps x
    by (cases x) (simp add: assignment_sql_def assignment_text_def exprSql_text quote_def Let_def split: option.splits)
  have "thread (assignment_sql versions) ps es =
      (ps @ concat (map (\<lambda>x. concat (map bound_values (assignment_text versions x))) es), map (\<lambda>x. map erase (assignment_text versions x)) es)"
    by (induction es arbitrary: ps) (auto simp: a)
  then show ?thesis by (simp add: setSql_def set_text_def map_concat comp_def concat_concat_map)
qed


lemma no_hole_simps [simp]:
  "no_hole []" "no_hole (raw s # ps) = no_hole ps" "no_hole (ident s # ps) = no_hole ps"
  "no_hole (Bound v # ps) = no_hole ps" "no_hole (ps @ qs) = (no_hole ps \<and> no_hole qs)"
  by (auto simp: no_hole_def raw_def ident_def)

lemma no_hole_join: "\<forall>x\<in>set xs. no_hole x \<Longrightarrow> no_hole (join_pieces sep xs)"
  by (induction sep xs rule: join_pieces.induct) (auto simp: no_hole_def)

lemma no_hole_where: "no_hole (where_text n)"
  by (induction n) (auto intro!: no_hole_join split: option.splits)

lemma no_hole_expr: "no_hole (expr_text e)"
  by (induction e) (auto simp: no_hole_where arith_text_def split: arith.splits)

lemma no_hole_set: "no_hole (set_text es versions)"
  unfolding set_text_def by (rule no_hole_join) (auto simp: assignment_text_def no_hole_expr split: option.splits)

subsection \<open>The statements\<close>

definition bound_statement :: "statement \<Rightarrow> piece list option" where
  "bound_statement s = bind_params (st_sql s) (st_params s)"

lemma bound_statementI:
  "st_sql s = erase ps \<Longrightarrow> st_params s = bound_values ps \<Longrightarrow> no_hole ps \<Longrightarrow> bound_statement s = Some ps"
  by (simp add: bound_statement_def bind_erase)

definition filter_text :: "where_node option \<Rightarrow> piece list" where
  "filter_text condition = (case condition of None \<Rightarrow> [] | Some w \<Rightarrow> [raw '' WHERE ''] @ where_text w)"

lemma updateWhere_bound:
  "bound_statement (sql_updateWhere sql condition es versions) =
   Some ([raw ''UPDATE '', ident (ts_table sql), raw '' SET ''] @ set_text es versions @ [raw '' WHERE ''] @ where_text condition)"
  by (rule bound_statementI)
    (simp_all add: sql_updateWhere_def setSql_text whereSql_text quote_def no_hole_where no_hole_set)

lemma deleteWhere_bound:
  "bound_statement (sql_deleteWhere sql condition) =
   Some ([raw ''DELETE FROM '', ident (ts_table sql), raw '' WHERE ''] @ where_text condition)"
  by (rule bound_statementI) (simp_all add: sql_deleteWhere_def whereSql_text quote_def no_hole_where)

lemma count_bound:
  "bound_statement (sql_count sql condition) =
   Some ([raw ''SELECT count(*) AS count FROM '', ident (ts_table sql)] @ filter_text condition)"
  by (rule bound_statementI)
    (auto simp: sql_count_def filter_text_def whereSql_text quote_def no_hole_where split: option.splits)

text \<open>The key of an update by key is bound after the set, each part at its column.\<close>

definition key_text :: "string list \<Rightarrow> sql_value list \<Rightarrow> piece list" where
  "key_text key vs = join_pieces '' AND '' (map (\<lambda>(c, v). [ident c, raw '' = '', Bound v]) (zip key vs))"

lemma key_tokens:
  assumes "length key = length vs"
  shows "join_tokens '' AND '' (map (\<lambda>c. [quote c, Raw '' = '', Hole]) key) = erase (key_text key vs) \<and>
    bound_values (key_text key vs) = vs \<and> no_hole (key_text key vs)"
proof -
  have "map (\<lambda>c. [quote c, Raw '' = '', Hole]) key = map erase (map (\<lambda>(c, v). [ident c, raw '' = '', Bound v]) (zip key vs)) \<and>
      concat (map bound_values (map (\<lambda>(c, v). [ident c, raw '' = '', Bound v]) (zip key vs))) = vs"
    using assms by (induction key vs rule: list_induct2) (auto simp: quote_def)
  moreover have "no_hole (key_text key vs)" unfolding key_text_def by (rule no_hole_join) auto
  ultimately show ?thesis by (simp add: key_text_def)
qed

lemma update_bound:
  assumes "length key = length vs"
  shows "bound_statement (sql_update (newTableSql table columns physical key) es vs versions) =
    Some ([raw ''UPDATE '', ident table, raw '' SET ''] @ set_text es versions @ [raw '' WHERE ''] @ key_text key vs)"
  by (rule bound_statementI)
    (use key_tokens[OF assms] in \<open>simp_all add: sql_update_def newTableSql_def Let_def setSql_text quote_def no_hole_set\<close>)

text \<open>A page: the filter's values, then those of the row to continue after, then the limit.\<close>

definition continue_text :: "order \<Rightarrow> sql_value list \<Rightarrow> piece list" where
  "continue_text ord vs =
     [raw ''(''] @ join_pieces '', '' (map (\<lambda>c. [ident c]) (ord_columns ord)) @
     [raw '') '', raw (if ord_direction ord = Asc then ''>'' else ''<''), raw '' (''] @
     join_pieces '', '' (map (\<lambda>v. [Bound v]) vs) @ [raw '')'']"

definition page_conditions :: "where_node option \<Rightarrow> order \<Rightarrow> sql_value list option \<Rightarrow> piece list list" where
  "page_conditions condition ord continue =
     (case condition of None \<Rightarrow> [] | Some w \<Rightarrow> [where_text w]) @
     (case continue of None \<Rightarrow> [] | Some vs \<Rightarrow> [continue_text ord vs])"

definition page_text ::
  "piece list \<Rightarrow> string \<Rightarrow> where_node option \<Rightarrow> order \<Rightarrow> sql_value list option \<Rightarrow> int \<Rightarrow> piece list" where
  "page_text selected table condition ord continue limit =
     (let cs = page_conditions condition ord continue in
      [raw ''SELECT ''] @ selected @ [raw '' FROM '', ident table] @
      (if cs = [] then [] else [raw '' WHERE ''] @ join_pieces '' AND '' cs) @
      [raw '' ORDER BY ''] @
      join_pieces '', '' (map (\<lambda>c. [ident c, raw (if ord_direction ord = Asc then '' ASC'' else '' DESC'')]) (ord_columns ord)) @
      [raw '' LIMIT '', Bound (SqlNum (of_int limit))])"

lemma page_conditions_hole: "x \<in> set (page_conditions condition ord continue) \<Longrightarrow> no_hole x"
  by (auto simp: page_conditions_def continue_text_def no_hole_where intro!: no_hole_join split: option.splits)

text \<open>The columns a page reads: the ones asked for, else every declared one and the version columns.\<close>

definition selected_names :: "column list \<Rightarrow> string list option \<Rightarrow> string list" where
  "selected_names cs columns = (case columns of
      None \<Rightarrow> map col_name cs @ map (\<lambda>(n, j). versionColumn n) (json_columns cs) | Some ns \<Rightarrow> ns)"

definition names_text :: "string list \<Rightarrow> piece list" where
  "names_text ns = join_pieces '', '' (map (\<lambda>c. [ident c]) ns)"

lemma concat_nil [simp]: "concat (map (\<lambda>x. []) xs) = []"
  by (induction xs) auto

lemma names_text_simps [simp]:
  "erase (names_text ns) = join_tokens '', '' (map (\<lambda>c. [Id c]) ns)" "bound_values (names_text ns) = []" "no_hole (names_text ns)"
  by (auto simp: names_text_def comp_def intro!: no_hole_join)

lemma select_bound:
  "bound_statement (sql_select (newTableSql table cs physical key) condition ord continue limit columns) =
   Some (page_text (names_text (selected_names cs columns)) table condition ord continue limit)"
proof (rule bound_statementI)
  let ?s = "sql_select (newTableSql table cs physical key) condition ord continue limit columns"
  let ?t = "page_text (names_text (selected_names cs columns)) table condition ord continue limit"
  have e: "concat (map (bound_values \<circ> (\<lambda>v. [Bound v])) vs) = vs" for vs :: "sql_value list" by (induction vs) auto
  show "st_params ?s = bound_values ?t"
    by (auto simp: sql_select_def page_text_def page_conditions_def continue_text_def whereSql_text Let_def comp_def e[unfolded comp_def]
        split: option.splits)
  have "(case columns of None \<Rightarrow> ts_select (newTableSql table cs physical key)
        | Some ns \<Rightarrow> join_tokens '', '' (map (\<lambda>c. [quote c]) ns)) = erase (names_text (selected_names cs columns))"
    by (auto simp: newTableSql_def selected_names_def quote_def Let_def comp_def case_prod_unfold split: option.splits)
  moreover have "ts_table (newTableSql table cs physical key) = table" by (simp add: newTableSql_def Let_def)
  ultimately show "st_sql ?s = erase ?t"
    by (auto simp: sql_select_def page_text_def page_conditions_def continue_text_def whereSql_text quote_def Let_def comp_def
        split: option.splits)
  show "no_hole ?t"
    using page_conditions_hole by (auto simp: page_text_def Let_def intro!: no_hole_join)
qed

text \<open>A put binds the encoded row's parameters to the physical columns; a get and a delete bind the key.\<close>

definition put_text :: "string \<Rightarrow> string list \<Rightarrow> sql_value list \<Rightarrow> piece list" where
  "put_text table physical vs =
     [raw ''INSERT OR REPLACE INTO '', ident table, raw '' (''] @ names_text physical @ [raw '') VALUES (''] @
     join_pieces '', '' (map (\<lambda>v. [Bound v]) vs) @ [raw '')'']"

lemma bound_list: "no_hole (join_pieces '', '' (map (\<lambda>v. [Bound v]) vs))"
  by (rule no_hole_join) auto

lemma put_bound:
  assumes "length physical = length vs"
  shows "bound_statement \<lparr>st_sql = ts_put (newTableSql table cs physical key), st_params = vs\<rparr> = Some (put_text table physical vs)"
proof -
  have "map (\<lambda>c. [Hole]) physical = map (\<lambda>v. [Hole]) vs" using assms by (simp add: map_replicate_const)
  then show ?thesis
    by (intro bound_statementI) (simp_all add: put_text_def newTableSql_def putSql_def quote_def Let_def comp_def bound_list)
qed

lemma delete_bound:
  assumes "length key = length vs"
  shows "bound_statement \<lparr>st_sql = ts_delete (newTableSql table cs physical key), st_params = vs\<rparr> =
    Some ([raw ''DELETE FROM '', ident table, raw '' WHERE ''] @ key_text key vs)"
  by (rule bound_statementI) (use key_tokens[OF assms] in \<open>simp_all add: newTableSql_def Let_def quote_def\<close>)

lemma get_bound:
  assumes "length key = length vs"
  shows "bound_statement \<lparr>st_sql = ts_get (newTableSql table cs physical key), st_params = vs\<rparr> =
    Some ([raw ''SELECT ''] @ names_text (selected_names cs None) @ [raw '' FROM '', ident table, raw '' WHERE ''] @ key_text key vs)"
  by (rule bound_statementI)
    (use key_tokens[OF assms] in \<open>simp_all add: newTableSql_def Let_def quote_def selected_names_def comp_def case_prod_unfold\<close>)

subsection \<open>The properties\<close>

text \<open>
  C19. Every statement binds each of its parameters where its value belongs: taking the parameters in
  order for the \<open>?\<close>s of a put of an encoded row, a get, an update or a delete by key, a bulk update or delete, a
  count or a page gives the reference text, in which each value of the row, the set, the condition, the key, the
  cursor and the limit is written in its place, and none is left over.
\<close>

theorem statements_bound:
  assumes "length key = length vs" and "length physical = length params"
  shows "bound_statement \<lparr>st_sql = ts_put (newTableSql table cs physical key), st_params = params\<rparr> = Some (put_text table physical params) \<and>
   bound_statement \<lparr>st_sql = ts_get (newTableSql table cs physical key), st_params = vs\<rparr> =
     Some ([raw ''SELECT ''] @ names_text (selected_names cs None) @ [raw '' FROM '', ident table, raw '' WHERE ''] @ key_text key vs) \<and>
   bound_statement (sql_update (newTableSql table cs physical key) es vs versions) =
     Some ([raw ''UPDATE '', ident table, raw '' SET ''] @ set_text es versions @ [raw '' WHERE ''] @ key_text key vs) \<and>
   bound_statement \<lparr>st_sql = ts_delete (newTableSql table cs physical key), st_params = vs\<rparr> =
     Some ([raw ''DELETE FROM '', ident table, raw '' WHERE ''] @ key_text key vs) \<and>
   bound_statement (sql_updateWhere sql w es versions) =
     Some ([raw ''UPDATE '', ident (ts_table sql), raw '' SET ''] @ set_text es versions @ [raw '' WHERE ''] @ where_text w) \<and>
   bound_statement (sql_deleteWhere sql w) =
     Some ([raw ''DELETE FROM '', ident (ts_table sql), raw '' WHERE ''] @ where_text w) \<and>
   bound_statement (sql_count sql condition) =
     Some ([raw ''SELECT count(*) AS count FROM '', ident (ts_table sql)] @ filter_text condition) \<and>
   bound_statement (sql_select (newTableSql table cs physical key) condition ord continue limit columns) =
     Some (page_text (names_text (selected_names cs columns)) table condition ord continue limit)"
  by (intro conjI put_bound get_bound update_bound delete_bound updateWhere_bound deleteWhere_bound count_bound select_bound assms)

theorem statements_bound_witness:
  "bound_statement (sql_update (newTableSql ''t'' demo_columns [''id''] [''id'']) [(''n'', ELit (SNum 1))] [SqlText [97]] []) =
     Some [raw ''UPDATE '', ident ''t'', raw '' SET '', ident ''n'', raw '' = '', Bound (SqlNum 1), raw '' WHERE '',
       ident ''id'', raw '' = '', Bound (SqlText [97])]"
  using statements_bound[of "[''id'']" "[SqlText [97]]" "[''id'']" "[SqlText [97]]" "''t''" demo_columns "[(''n'', ELit (SNum 1))]" "[]"]
  by (simp add: set_text_def assignment_text_def key_text_def toSqlite_def)

text \<open>The text of tokens: its characters, with the identifiers, literals and \<open>?\<close>s in them.\<close>

definition sql_text :: "token list \<Rightarrow> (char + token) list" where
  "sql_text ts = concat (map (\<lambda>t. case t of Raw s \<Rightarrow> map Inl s | _ \<Rightarrow> [Inr t]) ts)"

definition prefix_range :: "string \<Rightarrow> units \<Rightarrow> where_node" where
  "prefix_range c p = (case prefixUpperBound p of
      None \<Rightarrow> WCompare Cgte c (SText p)
    | Some u \<Rightarrow> WAnd [WCompare Cgte c (SText p), WCompare Clt c (SText u)])"

text \<open>
  C18. A prefix condition is evaluated as it is rendered: its SQL is, text and parameters, that of the condition
  \<open>>=\<close> the prefix and, where there is a string above all with that prefix, \<open><\<close> it; and on every row of a declared
  table without an optional column named like a member of \<open>Object.prototype\<close> the evaluator gives the prefix
  condition the truth value of that range, unknown where the column is absent.
\<close>

theorem prefix_as_range:
  assumes "newTable digest name v columns key indexes = Inr T" and "schemas_units columns" and "plain_names (td_columns T)"
    and "compileWhere T condition = Inr (WPrefix c p)" and "text_units condition" and "row_ok (td_columns T) row"
  shows "fst (whereSql (WPrefix c p) params) = fst (whereSql (prefix_range c p) params) \<and>
    sql_text (snd (whereSql (WPrefix c p) params)) = sql_text (snd (whereSql (prefix_range c p) params)) \<and>
    truth row (WPrefix c p) = truth row (prefix_range c p)"
proof -
  have w: "where_ok (td_columns T) (WPrefix c p)" by (rule compileWhere_ok[OF assms(4,5)])
  then obtain opt where c: "column_scalar (td_columns T) c = Some (TStr, opt)" and p: "scalar_ok TStr (SText p)"
    by (auto simp: scalar_fits_def)
  have d: "distinct (map col_name (td_columns T)) \<and> plain_names (td_columns T)"
    using newTable_ok[OF assms(1,2)] assms(3) by (simp add: table_ok_def columns_ok_def)
  have "truth row (WPrefix c p) = truth row (prefix_range c p)"
  proof (cases rule: scalar_at_ok[OF assms(6) d c])
    case 1
    then show ?thesis by (simp add: both_def prefix_range_def split: option.split)
  next
    case (2 s)
    then obtain t where t: "s = SText t" "isWellFormed t" by (cases s) (auto simp: scalar_ok_def)
    have wp: "isWellFormed p" using p by (simp add: scalar_ok_def)
    show ?thesis
      using 2(1) t(1) prefix_is_range[OF t(2) wp] compareText_swap[of t p]
      by (auto simp: compareScalar_def holds_def both_def prefix_range_def split: option.splits)
  qed
  moreover have "fst (whereSql (WPrefix c p) params) = fst (whereSql (prefix_range c p) params) \<and>
      sql_text (snd (whereSql (WPrefix c p) params)) = sql_text (snd (whereSql (prefix_range c p) params))"
    by (simp add: prefix_range_def sql_text_def comparison_sql_def toSqlite_def quote_def split: option.split)
  ultimately show ?thesis by blast
qed

theorem prefix_as_range_witness:
  "truth [(''id'', CScalar (SText [97, 98])), (''n'', CScalar (SNum 7))] (WPrefix ''id'' [97]) =
     truth [(''id'', CScalar (SText [97, 98])), (''n'', CScalar (SNum 7))]
       (WAnd [WCompare Cgte ''id'' (SText [97]), WCompare Clt ''id'' (SText [98])]) \<and>
   fst (whereSql (WPrefix ''id'' [97]) []) = [SqlText [97], SqlText [98]]"
proof -
  let ?row = "[(''id'', CScalar (SText [97, 98])), (''n'', CScalar (SNum 7))]"
  have c: "compileWhere demo_table (build_prefix (PColumn ''id'') (PText [97])) = Inr (WPrefix ''id'' [97])" by code_simp
  have u: "text_units (build_prefix (PColumn ''id'') (PText [97]))" by code_simp
  have r: "row_ok (td_columns demo_table) ?row" by code_simp
  have n: "plain_names (td_columns demo_table)" by code_simp
  have b: "prefix_range ''id'' [97] = WAnd [WCompare Cgte ''id'' (SText [97]), WCompare Clt ''id'' (SText [98])]"
    by (simp add: prefix_range_def prefixUpperBound_def fromCodePoint_def)
  from prefix_as_range[OF demo_declared demo_units n c u r, of "[]"] show ?thesis
    unfolding b by (simp add: toSqlite_def)
qed

end
