(* ===== verification/Store_Writes.thy ===== *)
theory Store_Writes
  imports Store_Sql
begin

text \<open>
  Table writes (\<open>packages/chord/src/store/table-writes.ts\<close>): their recorded form, the staged writes a
  transaction or a migration hands the commit step, and what the step does with them, with its working
  state (\<open>step.ts\<close>) and the recorded tables (\<open>catalog.ts\<close>, \<open>table-history.ts\<close>). SQLite is the
  parameter \<open>changed\<close>: the number of rows a statement changes, given the statements run before it.
\<close>

subsection \<open>Recorded tables and writes\<close>

datatype table_state = Ready | Migrating

record table_record =
  tr_table :: string
  tr_version :: int
  tr_state :: table_state
  tr_columns :: "(string \<times> column_record) list"
  tr_key :: "string list"
  tr_fingerprint :: string
  tr_indexes :: "(string \<times> string list) list"

datatype table_edit =
    EditRename string string
  | EditAdd string column_record
  | EditDrop string
  | EditJson string column_record
  | EditIndex string "string list"
  | EditDropIndex string

record table_definition_write =
  tw_table :: string
  tw_version :: int
  tw_state :: table_state
  tw_columns :: "(string \<times> column_record) list"
  tw_key :: "string list"
  tw_fingerprint :: string

type_synonym stored_key = "(string \<times> scalar) list"
type_synonym column_versions = "(string \<times> int) list"

datatype table_write =
    WriteTable table_definition_write
  | WriteIndex string string "string list"
  | WriteDropIndex string string
  | WriteAlter string int table_edit
  | WritePut string row int column_versions
  | WriteUpdate string stored_key set_node column_versions nat "int option"
  | WriteDelete string stored_key nat
  | WriteUpdateWhere string where_node set_node column_versions nat "int option"
  | WriteDeleteWhere string where_node nat

text \<open>The versions of the \<open>json(...)\<close> columns a set writes, and the ones it records: a clear has none.\<close>

definition jsonVersions :: "table_def \<Rightarrow> set_node \<Rightarrow> column_versions" where
  "jsonVersions T es = List.map_filter (\<lambda>(name, e). case by_name (td_columns T) name of
      Some (Json n opt j) \<Rightarrow> Some (name, jc_version j) | _ \<Rightarrow> None) es"

definition recordedVersions :: "set_node \<Rightarrow> column_versions \<Rightarrow> column_versions" where
  "recordedVersions es versions = filter (\<lambda>(column, version). map_of es column \<noteq> Some ENull) versions"

subsection \<open>The commit step\<close>

record step =
  sp_tables :: "(string \<times> table_record) list"
  sp_catalog :: "(string \<times> table_record) list"
  sp_log :: "statement list"
  sp_rows :: nat

definition step_table :: "step \<Rightarrow> string \<Rightarrow> table_record option" where
  "step_table s name = (case map_of (sp_tables s) name of Some r \<Rightarrow> Some r | None \<Rightarrow> map_of (sp_catalog s) name)"

definition set_table :: "string \<Rightarrow> table_record \<Rightarrow> step \<Rightarrow> step" where
  "set_table name r s = s\<lparr>sp_tables := AList.update name r (sp_tables s)\<rparr>"

definition step_run :: "token list \<Rightarrow> sql_value list \<Rightarrow> step \<Rightarrow> step" where
  "step_run sql params s = s\<lparr>sp_log := sp_log s @ [\<lparr>st_sql = sql, st_params = params\<rparr>]\<rparr>"

definition recorded :: "step \<Rightarrow> string \<Rightarrow> (store_error, table_record) result" where
  "recorded s name = (case step_table s name of None \<Rightarrow> Inl (Refused ''not in the store'') | Some r \<Rightarrow> Inr r)"

definition applyTable :: "table_definition_write \<Rightarrow> step \<Rightarrow> step" where
  "applyTable w s =
     (let existing = step_table s (tw_table w);
          s1 = (case existing of None \<Rightarrow> step_run (createTableSql (tw_table w) (tw_columns w) (tw_key w)) [] s | Some r \<Rightarrow> s) in
      set_table (tw_table w)
        \<lparr>tr_table = tw_table w, tr_version = tw_version w, tr_state = tw_state w, tr_columns = tw_columns w,
         tr_key = tw_key w, tr_fingerprint = tw_fingerprint w,
         tr_indexes = (case existing of None \<Rightarrow> [] | Some r \<Rightarrow> tr_indexes r)\<rparr> s1)"

definition applyIndex :: "string \<Rightarrow> string \<Rightarrow> string list \<Rightarrow> step \<Rightarrow> (store_error, step) result" where
  "applyIndex table name columns s =
     andThen (recorded s table) (\<lambda>existing.
     Inr (set_table table (existing\<lparr>tr_indexes := AList.update name columns (tr_indexes existing)\<rparr>)
       (step_run (createIndexSql table name columns (tr_key existing)) [] s)))"

definition applyDropIndex :: "string \<Rightarrow> string \<Rightarrow> step \<Rightarrow> (store_error, step) result" where
  "applyDropIndex table name s =
     andThen (recorded s table) (\<lambda>existing.
     Inr (set_table table (existing\<lparr>tr_indexes := AList.delete name (tr_indexes existing)\<rparr>)
       (step_run (dropIndexSql table name) [] s)))"

definition rename_column :: "string \<Rightarrow> string \<Rightarrow> string \<Rightarrow> string" where
  "rename_column old new column = (if column = old then new else column)"

definition is_json_column :: "table_record \<Rightarrow> string \<Rightarrow> bool" where
  "is_json_column r name = (case map_of (tr_columns r) name of None \<Rightarrow> False | Some c \<Rightarrow> cr_type c = TJson)"

definition alter_sql :: "string \<Rightarrow> string \<Rightarrow> token list \<Rightarrow> token list" where
  "alter_sql table action rest = [Raw ''ALTER TABLE '', quote table, Raw action] @ rest"

text \<open>\<open>Object.fromEntries\<close> of the renamed entries: a name that occurs twice keeps its place and takes the last value.\<close>

definition from_entries :: "(string \<times> 'a) list \<Rightarrow> (string \<times> 'a) list" where
  "from_entries es = fold (\<lambda>(k, v) r. AList.update k v r) es []"

definition applyAlter :: "string \<Rightarrow> table_edit \<Rightarrow> step \<Rightarrow> (store_error, step) result" where
  "applyAlter table edit s =
     andThen (recorded s table) (\<lambda>existing.
     case edit of
       EditRename old new \<Rightarrow>
         (let rename = rename_column old new;
              s1 = step_run (alter_sql table '' RENAME COLUMN '' [quote old, Raw '' TO '', quote new]) [] s;
              s2 = (if is_json_column existing old
                    then step_run (alter_sql table '' RENAME COLUMN ''
                      [quote (versionColumn old), Raw '' TO '', quote (versionColumn new)]) [] s1 else s1) in
          Inr (set_table table (existing\<lparr>
            tr_columns := from_entries (map (\<lambda>(n, c). (rename n, c)) (tr_columns existing)),
            tr_key := map rename (tr_key existing),
            tr_indexes := map (\<lambda>(n, cs). (n, map rename cs)) (tr_indexes existing)\<rparr>) s2))
     | EditAdd name column \<Rightarrow>
         (let s1 = fold (\<lambda>definition. step_run (alter_sql table '' ADD COLUMN '' definition) []) (columnSql name column) s in
          Inr (set_table table (existing\<lparr>tr_columns := AList.update name column (tr_columns existing)\<rparr>) s1))
     | EditDrop name \<Rightarrow>
         (let s1 = step_run (alter_sql table '' DROP COLUMN '' [quote name]) [] s;
              s2 = (if is_json_column existing name
                    then step_run (alter_sql table '' DROP COLUMN '' [quote (versionColumn name)]) [] s1 else s1) in
          Inr (set_table table (existing\<lparr>tr_columns := AList.delete name (tr_columns existing)\<rparr>) s2))
     | EditJson name column \<Rightarrow>
         Inr (set_table table (existing\<lparr>tr_columns := AList.update name column (tr_columns existing)\<rparr>) s)
     | EditIndex name columns \<Rightarrow> Inl IllTyped
     | EditDropIndex name \<Rightarrow> Inl IllTyped)"

subsection \<open>Staged writes\<close>

text \<open>
  What \<open>apply\<close> of a staged write does: a \<open>put\<close> statement, a statement whose count is recorded, or one
  of the schema writes.
\<close>

datatype staged_write =
    StagedPut "token list" "sql_value list" table_write
  | StagedCounted statement "nat \<Rightarrow> table_write"
  | StagedTable table_definition_write
  | StagedIndex string string "string list"
  | StagedDropIndex string string
  | StagedAlter string int table_edit

definition stageEdit :: "string \<Rightarrow> int \<Rightarrow> table_edit \<Rightarrow> staged_write" where
  "stageEdit table version edit = (case edit of
      EditIndex name columns \<Rightarrow> StagedIndex table name columns
    | EditDropIndex name \<Rightarrow> StagedDropIndex table name
    | _ \<Rightarrow> StagedAlter table version edit)"

definition stagePut :: "token list \<Rightarrow> string \<Rightarrow> encoded_row \<Rightarrow> int \<Rightarrow> staged_write" where
  "stagePut sql table e version = StagedPut sql (er_params e) (WritePut table (er_row e) version (er_columns e))"

definition stageUpdate ::
  "statement \<Rightarrow> string \<Rightarrow> stored_key \<Rightarrow> set_node \<Rightarrow> column_versions \<Rightarrow> int option \<Rightarrow> staged_write" where
  "stageUpdate statement table key es columns version =
     StagedCounted statement (\<lambda>count. WriteUpdate table key es columns count version)"

definition stageDelete :: "statement \<Rightarrow> string \<Rightarrow> stored_key \<Rightarrow> staged_write" where
  "stageDelete statement table key = StagedCounted statement (\<lambda>count. WriteDelete table key count)"

definition stageUpdateWhere ::
  "statement \<Rightarrow> string \<Rightarrow> where_node \<Rightarrow> set_node \<Rightarrow> column_versions \<Rightarrow> int option \<Rightarrow> staged_write" where
  "stageUpdateWhere statement table condition es columns version =
     StagedCounted statement (\<lambda>count. WriteUpdateWhere table condition es columns count version)"

definition stageDeleteWhere :: "statement \<Rightarrow> string \<Rightarrow> where_node \<Rightarrow> staged_write" where
  "stageDeleteWhere statement table condition = StagedCounted statement (\<lambda>count. WriteDeleteWhere table condition count)"

definition apply_staged ::
  "(statement list \<Rightarrow> statement \<Rightarrow> nat) \<Rightarrow> step \<Rightarrow> staged_write \<Rightarrow> (store_error, step \<times> table_write) result" where
  "apply_staged changed s w = (case w of
      StagedPut sql params write \<Rightarrow>
        (let s1 = step_run sql params s in Inr (s1\<lparr>sp_rows := sp_rows s1 + 1\<rparr>, write))
    | StagedCounted statement rec \<Rightarrow>
        (let count = changed (sp_log s) statement; s1 = step_run (st_sql statement) (st_params statement) s in
         Inr (s1\<lparr>sp_rows := sp_rows s1 + count\<rparr>, rec count))
    | StagedTable write \<Rightarrow> Inr (applyTable write s, WriteTable write)
    | StagedIndex table name columns \<Rightarrow> andThen (applyIndex table name columns s) (\<lambda>s1. Inr (s1, WriteIndex table name columns))
    | StagedDropIndex table name \<Rightarrow> andThen (applyDropIndex table name s) (\<lambda>s1. Inr (s1, WriteDropIndex table name))
    | StagedAlter table version edit \<Rightarrow> andThen (applyAlter table edit s) (\<lambda>s1. Inr (s1, WriteAlter table version edit)))"

end
