(* ===== verification/Store_Evolve.thy ===== *)
theory Store_Evolve
  imports Store_Writes
begin

text \<open>
  The history of a table: the editor of \<open>evolveTable\<close> (\<open>packages/chord/src/store/table-evolve.ts\<close>),
  the plan of an activation (\<open>table-history.ts\<close>) and the commits of a migration
  (\<open>table-migration.ts\<close>). A callback of \<open>evolveTable\<close> is the list of edits it makes.
\<close>

subsection \<open>Migrations\<close>

text \<open>A data step's patch is the plugin's function of a decoded row; \<open>None\<close> when it throws.\<close>

datatype data_step =
    RowsStep (step_def: table_def) "row \<Rightarrow> pval option"
  | UpdateStep (step_def: table_def) "where_node option" set_node

record migration =
  mg_before :: "table_edit list"
  mg_step :: "data_step option"
  mg_after :: "table_edit list"

datatype version_chain = Version (vc_def: table_def) (vc_evolution: "(version_chain \<times> migration) option")

subsection \<open>The editor\<close>

record editor =
  ed_previous :: table_def
  ed_schemas :: schemas
  ed_key :: "string list"
  ed_indexes :: "(string \<times> string list) list"
  ed_phase_after :: bool
  ed_before :: "table_edit list"
  ed_step :: "data_step option"
  ed_after :: "table_edit list"

definition newEditor :: "table_def \<Rightarrow> editor" where
  "newEditor previous =
     \<lparr>ed_previous = previous, ed_schemas = td_schemas previous, ed_key = td_key previous, ed_indexes = td_indexes previous,
      ed_phase_after = False, ed_before = [], ed_step = None, ed_after = []\<rparr>"

definition assertBefore :: "editor \<Rightarrow> (store_error, unit) result" where
  "assertBefore ed = ensure (\<not> ed_phase_after ed) (Refused ''comes before the data step and before drop, index and dropIndex'')"

definition assertNewName :: "editor \<Rightarrow> string \<Rightarrow> string option \<Rightarrow> (store_error, unit) result" where
  "assertNewName ed name old =
     ensure (\<forall>existing\<in>set (map fst (ed_schemas ed)). Some existing = old \<or> foldAscii existing \<noteq> foldAscii name)
       (Refused ''column exists'')"

definition assertColumn :: "editor \<Rightarrow> string \<Rightarrow> (store_error, column_schema) result" where
  "assertColumn ed name = (case map_of (ed_schemas ed) name of None \<Rightarrow> Inl (Refused ''no column'') | Some s \<Rightarrow> Inr s)"

definition describe_one :: "string \<Rightarrow> column_schema \<Rightarrow> (store_error, column) result" where
  "describe_one name schema = andThen (describeColumns [(name, schema)]) (\<lambda>cs. Inr (hd cs))"

definition editor_options :: "(pval \<Rightarrow> string) \<Rightarrow> editor \<Rightarrow> (store_error, table_def) result" where
  "editor_options digest ed =
     newTable digest (td_name (ed_previous ed)) (td_version (ed_previous ed) + 1) (ed_schemas ed) (ed_key ed) (ed_indexes ed)"

definition ed_rename :: "string \<Rightarrow> string \<Rightarrow> editor \<Rightarrow> (store_error, editor) result" where
  "ed_rename old new ed =
     andThen (assertBefore ed) (\<lambda>_.
     andThen (assertColumn ed old) (\<lambda>_.
     andThen (checkColumnName new) (\<lambda>_.
     andThen (assertNewName ed new (Some old)) (\<lambda>_.
     let rename = rename_column old new in
     Inr (ed\<lparr>ed_schemas := from_entries (map (\<lambda>(n, s). (rename n, s)) (ed_schemas ed)),
             ed_key := map rename (ed_key ed),
             ed_indexes := map (\<lambda>(n, cs). (n, map rename cs)) (ed_indexes ed),
             ed_before := ed_before ed @ [EditRename old new]\<rparr>)))))"

definition ed_add :: "string \<Rightarrow> column_schema \<Rightarrow> editor \<Rightarrow> (store_error, editor) result" where
  "ed_add name column ed =
     andThen (assertBefore ed) (\<lambda>_.
     andThen (assertNewName ed name None) (\<lambda>_.
     andThen (describe_one name column) (\<lambda>described.
     andThen (ensure (col_optional described \<or> (case described of Plain n ty opt d \<Rightarrow> d \<noteq> None | Json n opt j \<Rightarrow> False))
       (Refused ''needs opt(...) or a default'')) (\<lambda>_.
     Inr (ed\<lparr>ed_schemas := AList.update name column (ed_schemas ed),
             ed_before := ed_before ed @ [EditAdd name (columnRecord described)]\<rparr>)))))"

text \<open>\<open>opt(column)\<close> of a schema that is not optional.\<close>

definition opt_schema :: "column_schema \<Rightarrow> column_schema" where
  "opt_schema s = s\<lparr>sch_optional := True\<rparr>"

definition ed_json :: "string \<Rightarrow> column_schema \<Rightarrow> editor \<Rightarrow> (store_error, editor) result" where
  "ed_json name column ed =
     andThen (assertBefore ed) (\<lambda>_.
     andThen (assertColumn ed name) (\<lambda>present.
     andThen (describe_one name present) (\<lambda>existing.
     case existing of
       Plain n ty opt d \<Rightarrow> Inl (Refused ''not a json(...) column'')
     | Json n opt before \<Rightarrow>
         andThen (ensure (\<not> sch_optional column) (Refused ''the column keeps its nullability'')) (\<lambda>_.
         let schema = (if opt then opt_schema column else column) in
         andThen (describe_one name schema) (\<lambda>described.
         case described of
           Plain n' ty opt' d \<Rightarrow> Inl (Refused ''expected a json(...) column'')
         | Json n' opt' after \<Rightarrow>
             andThen (ensure (jc_version before \<le> jc_version after) (Refused ''goes back'')) (\<lambda>_.
             andThen (ensure (\<not> (jc_version after = jc_version before \<and> jc_fingerprint after \<noteq> jc_fingerprint before))
               (Refused ''changes its schema (raise its version)'')) (\<lambda>_.
             Inr (ed\<lparr>ed_schemas := AList.update name schema (ed_schemas ed),
                     ed_before := ed_before ed @ [EditJson name (columnRecord described)]\<rparr>))))))))"

definition ed_rows :: "(pval \<Rightarrow> string) \<Rightarrow> (row \<Rightarrow> pval option) option \<Rightarrow> editor \<Rightarrow> (store_error, editor) result" where
  "ed_rows digest patch ed =
     andThen (assertBefore ed) (\<lambda>_. case patch of
       None \<Rightarrow> Inl (Refused ''expected a function'')
     | Some f \<Rightarrow> andThen (editor_options digest ed) (\<lambda>T.
         Inr (ed\<lparr>ed_step := Some (RowsStep T f), ed_phase_after := True\<rparr>)))"

definition ed_update :: "(pval \<Rightarrow> string) \<Rightarrow> pval \<Rightarrow> pval \<Rightarrow> editor \<Rightarrow> (store_error, editor) result" where
  "ed_update digest condition v ed =
     andThen (assertBefore ed) (\<lambda>_.
     andThen (editor_options digest ed) (\<lambda>T.
     andThen (if condition = PUndef then Inr None else andThen (compileWhere T condition) (\<lambda>w. Inr (Some w))) (\<lambda>w.
     andThen (compileSet T v) (\<lambda>es.
     Inr (ed\<lparr>ed_step := Some (UpdateStep T w es), ed_phase_after := True\<rparr>)))))"

definition ed_drop :: "string \<Rightarrow> editor \<Rightarrow> (store_error, editor) result" where
  "ed_drop name ed =
     andThen (assertColumn ed name) (\<lambda>_.
     andThen (ensure (name \<notin> set (ed_key ed)) (Refused ''is a key column'')) (\<lambda>_.
     let doomed = map fst (filter (\<lambda>(index, columns). name \<in> set columns) (ed_indexes ed)) in
     Inr (ed\<lparr>ed_phase_after := True,
             ed_indexes := fold AList.delete doomed (ed_indexes ed),
             ed_schemas := AList.delete name (ed_schemas ed),
             ed_after := ed_after ed @ map EditDropIndex doomed @ [EditDrop name]\<rparr>)))"

definition ed_index :: "string \<Rightarrow> string list \<Rightarrow> editor \<Rightarrow> (store_error, editor) result" where
  "ed_index name columns ed =
     andThen (ensure (index_name name) (Refused ''expected [a-z0-9_]+'')) (\<lambda>_.
     andThen (ensure (map_of (ed_indexes ed) name = None) (Refused ''index exists'')) (\<lambda>_.
     andThen (describeColumns (ed_schemas ed)) (\<lambda>described.
     andThen (orderColumns (by_name described) columns) (\<lambda>checked.
     Inr (ed\<lparr>ed_phase_after := True,
             ed_indexes := AList.update name checked (ed_indexes ed),
             ed_after := ed_after ed @ [EditIndex name checked]\<rparr>)))))"

definition ed_dropIndex :: "string \<Rightarrow> editor \<Rightarrow> (store_error, editor) result" where
  "ed_dropIndex name ed =
     andThen (ensure (map_of (ed_indexes ed) name \<noteq> None) (Refused ''no index'')) (\<lambda>_.
     Inr (ed\<lparr>ed_phase_after := True,
             ed_indexes := AList.delete name (ed_indexes ed),
             ed_after := ed_after ed @ [EditDropIndex name]\<rparr>))"

datatype table_edit_call =
    CallRename string string
  | CallAdd string column_schema
  | CallJson string column_schema
  | CallRows "(row \<Rightarrow> pval option) option"
  | CallUpdate pval pval
  | CallDrop string
  | CallIndex string "string list"
  | CallDropIndex string

definition editor_call :: "(pval \<Rightarrow> string) \<Rightarrow> editor \<Rightarrow> table_edit_call \<Rightarrow> (store_error, editor) result" where
  "editor_call digest ed call = (case call of
      CallRename old new \<Rightarrow> ed_rename old new ed
    | CallAdd name column \<Rightarrow> ed_add name column ed
    | CallJson name column \<Rightarrow> ed_json name column ed
    | CallRows patch \<Rightarrow> ed_rows digest patch ed
    | CallUpdate condition v \<Rightarrow> ed_update digest condition v ed
    | CallDrop name \<Rightarrow> ed_drop name ed
    | CallIndex name columns \<Rightarrow> ed_index name columns ed
    | CallDropIndex name \<Rightarrow> ed_dropIndex name ed)"

definition ed_finish :: "(pval \<Rightarrow> string) \<Rightarrow> editor \<Rightarrow> (store_error, table_def \<times> migration) result" where
  "ed_finish digest ed =
     andThen (editor_options digest ed) (\<lambda>T.
     Inr (T, \<lparr>mg_before = ed_before ed, mg_step = ed_step ed, mg_after = ed_after ed\<rparr>))"

definition evolveTable ::
  "(pval \<Rightarrow> string) \<Rightarrow> version_chain \<Rightarrow> table_edit_call list \<Rightarrow> (store_error, version_chain) result" where
  "evolveTable digest previous calls =
     andThen (run_steps (editor_call digest) (newEditor (vc_def previous)) calls) (\<lambda>ed.
     andThen (ed_finish digest ed) (\<lambda>(T, migration). Inr (Version T (Some (previous, migration)))))"

subsection \<open>The plan of an activation\<close>

datatype from_point = Begin | Resume

datatype table_plan = PlanCreate | PlanReady | PlanMigrate "version_chain list" from_point

fun historyOf :: "version_chain \<Rightarrow> version_chain list" where
  "historyOf (Version T None) = [Version T None]"
| "historyOf (Version T (Some (previous, migration))) = historyOf previous @ [Version T (Some (previous, migration))]"

definition chain_version :: "version_chain \<Rightarrow> int" where
  "chain_version v = td_version (vc_def v)"

definition has_data_step :: "version_chain \<Rightarrow> bool" where
  "has_data_step v = (case vc_evolution v of None \<Rightarrow> False | Some (p, m) \<Rightarrow> mg_step m \<noteq> None)"

definition planTable :: "version_chain \<Rightarrow> table_record option \<Rightarrow> (store_error, table_plan) result" where
  "planTable newest rec = (case rec of
      None \<Rightarrow> Inr PlanCreate
    | Some r \<Rightarrow>
        if tr_version r > chain_version newest then Inl (Refused ''newer than the code'')
        else let versions = historyOf newest in
          (case List.find (\<lambda>v. chain_version v = tr_version r) versions of
             None \<Rightarrow> Inl (Refused ''older than the history's base'')
           | Some at_version \<Rightarrow>
               if td_fingerprint (vc_def at_version) \<noteq> tr_fingerprint r then Inl (Refused ''recorded with another definition'')
               else if tr_state r = Ready \<and> tr_version r = chain_version newest then Inr PlanReady
               else if tr_state r = Migrating \<and> \<not> has_data_step at_version then Inl (Refused ''no data step to resume'')
               else if tr_state r = Migrating
                    then Inr (PlanMigrate (filter (\<lambda>v. chain_version v \<ge> tr_version r) versions) Resume)
                    else Inr (PlanMigrate (filter (\<lambda>v. chain_version v > tr_version r) versions) Begin)))"

subsection \<open>The commits of a migration\<close>

definition recordOf :: "table_def \<Rightarrow> table_def \<Rightarrow> table_state \<Rightarrow> string \<Rightarrow> staged_write" where
  "recordOf columns T state table = StagedTable
     \<lparr>tw_table = table, tw_version = td_version T, tw_state = state, tw_columns = td_record columns,
      tw_key = td_key columns, tw_fingerprint = td_fingerprint T\<rparr>"

definition creation :: "table_def \<Rightarrow> string \<Rightarrow> staged_write list" where
  "creation T table = recordOf T T Ready table # map (\<lambda>(name, columns). StagedIndex table name columns) (td_indexes T)"

definition sqlOf :: "table_def \<Rightarrow> string \<Rightarrow> table_sql" where
  "sqlOf T table = newTableSql table (td_columns T) (rc_physical (table_rows T)) (td_key T)"

definition below_version :: "int \<Rightarrow> where_node" where
  "below_version v = WCompare Clt ROW_VERSION (SNum (of_int v))"

definition updateStep :: "table_def \<Rightarrow> where_node option \<Rightarrow> set_node \<Rightarrow> int \<Rightarrow> string \<Rightarrow> staged_write" where
  "updateStep T condition es v table =
     (let below = below_version v;
          w = (case condition of None \<Rightarrow> below | Some c \<Rightarrow> WAnd [c, below]);
          versions = jsonVersions T es;
          statement = sql_updateWhere (sqlOf T table) w (AList.update ROW_VERSION (ELit (SNum (of_int v))) es) versions in
      stageUpdateWhere statement table w es (recordedVersions es versions) (Some v))"

definition cellOf :: "column \<Rightarrow> pval \<Rightarrow> (store_error, expr_node) result" where
  "cellOf column v =
     (if v = PUndef then (if col_optional column then Inr ENull else Inl (Refused ''cannot be cleared''))
      else andThen (encodeCell column v) (\<lambda>(p, cell). Inr (case cell of CJson w \<Rightarrow> EJson w | CScalar s \<Rightarrow> ELit s)))"

definition stored_scalar :: "sql_value \<Rightarrow> scalar" where
  "stored_scalar v = (case v of SqlText t \<Rightarrow> SText t | SqlNum r \<Rightarrow> SNum r | _ \<Rightarrow> SText [])"

type_synonym stored_row = "(string \<times> sql_value) list"

definition patchRow ::
  "json_code \<Rightarrow> table_def \<Rightarrow> (row \<Rightarrow> pval option) \<Rightarrow> int \<Rightarrow> string \<Rightarrow> stored_row \<Rightarrow> (store_error, staged_write) result" where
  "patchRow code T patch v table stored =
     andThen (rows_decode code (table_rows T) stored) (\<lambda>row.
     case patch row of
       None \<Rightarrow> Inl (Refused ''the patch threw'')
     | Some p \<Rightarrow> (case own_fields p of
         None \<Rightarrow> Inl (Refused ''expected an object of column values'')
       | Some entries \<Rightarrow>
           andThen (traverse (\<lambda>(name, value). case by_name (td_columns T) name of
               None \<Rightarrow> Inl (Refused ''no column'')
             | Some column \<Rightarrow> if name \<in> set (td_key T) then Inl (Refused ''key column cannot change'')
                 else andThen (cellOf column value) (\<lambda>e. Inr (name, e))) entries) (\<lambda>es.
           let key = map (\<lambda>name. (name, stored_scalar (sql_field stored name))) (td_key T);
               versions = jsonVersions T es;
               params = map (sql_field stored) (td_key T);
               statement = sql_update (sqlOf T table) (AList.update ROW_VERSION (ELit (SNum (of_int v))) es) params versions in
           Inr (stageUpdate statement table key es (recordedVersions es versions) (Some v)))))"

definition MIGRATION_CHUNK :: nat where
  "MIGRATION_CHUNK = 100"

text \<open>
  The commits of the \<open>rows\<close> step, given what its successive reads return (\<open>pages\<close>), each with the read's
  statement; a page that is not the last continues after its last row. No further page: the activation
  was abandoned between two chunks.
\<close>

fun rowsStep ::
  "json_code \<Rightarrow> table_def \<Rightarrow> (row \<Rightarrow> pval option) \<Rightarrow> int \<Rightarrow> string \<Rightarrow> staged_write list \<Rightarrow> sql_value list option \<Rightarrow>
   stored_row list list \<Rightarrow> (store_error, (statement \<times> staged_write list) list) result" where
  "rowsStep code T patch v table ready continue [] = Inr []"
| "rowsStep code T patch v table ready continue (stored # pages) =
     (let statement = sql_select (sqlOf T table) (Some (below_version v)) \<lparr>ord_columns = td_key T, ord_direction = Asc\<rparr>
            continue (int MIGRATION_CHUNK + 1) None;
          last_page = (length stored \<le> MIGRATION_CHUNK);
          chunk = take MIGRATION_CHUNK stored in
      andThen (traverse (patchRow code T patch v table) chunk) (\<lambda>writes.
      if last_page then Inr [(statement, writes @ ready)]
      else andThen (rowsStep code T patch v table ready (Some (map (sql_field (last chunk)) (td_key T))) pages)
        (\<lambda>commits. Inr ((statement, writes) # commits))))"

text \<open>The commits that bring the table to one version, from its start or after its first commit.\<close>

definition migrateSteps ::
  "json_code \<Rightarrow> version_chain \<Rightarrow> from_point \<Rightarrow> string \<Rightarrow> stored_row list list \<Rightarrow> (store_error, staged_write list list) result" where
  "migrateSteps code version start table pages = (case vc_evolution version of
      None \<Rightarrow> Inl (Refused ''no migration'')
    | Some (previous, m) \<Rightarrow>
        (let T = vc_def version;
             edits = map (stageEdit table (td_version T));
             ready = edits (mg_after m) @ [recordOf T T Ready table] in
         case mg_step m of
           None \<Rightarrow> Inr [edits (mg_before m) @ ready]
         | Some data \<Rightarrow>
             (let begin_commit = (if start = Begin
                    then [edits (mg_before m) @ [recordOf (step_def data) T Migrating table]] else []) in
              case data of
                UpdateStep S condition es \<Rightarrow> Inr (begin_commit @ [updateStep S condition es (td_version T) table # ready])
              | RowsStep S patch \<Rightarrow>
                  andThen (rowsStep code S patch (td_version T) table ready None pages)
                    (\<lambda>commits. Inr (begin_commit @ map snd commits)))))"

text \<open>
  The commits through the versions of a plan, the first from the plan's point; \<open>pages\<close> gives what the
  reads of each version's data step return.
\<close>

fun migrateTable ::
  "json_code \<Rightarrow> string \<Rightarrow> (version_chain \<Rightarrow> stored_row list list) \<Rightarrow> version_chain list \<Rightarrow> from_point \<Rightarrow>
   (store_error, staged_write list list) result" where
  "migrateTable code table pages [] first = Inr []"
| "migrateTable code table pages (v # vs) first =
     andThen (migrateSteps code v first table (pages v)) (\<lambda>commits.
     andThen (migrateTable code table pages vs Begin) (\<lambda>rest. Inr (commits @ rest)))"

end
