(* ===== verification/Store_Evolve_Laws.thy ===== *)
theory Store_Evolve_Laws
  imports Store_Evolve Store_Rows_Laws
begin

text \<open>
  A migrated table is recorded as one created fresh. The staged writes of a migration act on the
  table's record (\<open>staged_effect\<close>); the edits an \<open>evolveTable\<close> records take the record of the previous
  version to the columns, key and indexes of the new definition (\<open>evolve_edits\<close>); so the commits of
  \<open>migrateSteps\<close>, from the start or resumed, end at the record that creating the new version gives, and
  the plan of an activation takes every recorded version of the history to the newest.
\<close>

subsection \<open>Commits on the catalog\<close>

text \<open>A commit applies its writes in one step; the catalog takes the records the step changed.\<close>

definition apply_all ::
  "(statement list \<Rightarrow> statement \<Rightarrow> nat) \<Rightarrow> step \<Rightarrow> staged_write list \<Rightarrow> (store_error, step) result" where
  "apply_all changed = run_steps (\<lambda>s w. andThen (apply_staged changed s w) (\<lambda>(s', write). Inr s'))"

type_synonym catalog = "(string \<times> table_record) list"

definition commit_writes ::
  "(statement list \<Rightarrow> statement \<Rightarrow> nat) \<Rightarrow> catalog \<Rightarrow> staged_write list \<Rightarrow> (store_error, catalog) result" where
  "commit_writes changed catalog ws =
     andThen (apply_all changed \<lparr>sp_tables = [], sp_catalog = catalog, sp_log = [], sp_rows = 0\<rparr> ws) (\<lambda>s.
     Inr (fold (\<lambda>(k, r). AList.update k r) (sp_tables s) (sp_catalog s)))"

definition edit_record :: "table_edit \<Rightarrow> table_record \<Rightarrow> table_record" where
  "edit_record e r = (case e of
      EditRename old new \<Rightarrow> r\<lparr>tr_columns := from_entries (map (\<lambda>(n, c). (rename_column old new n, c)) (tr_columns r)),
        tr_key := map (rename_column old new) (tr_key r),
        tr_indexes := map (\<lambda>(n, cs). (n, map (rename_column old new) cs)) (tr_indexes r)\<rparr>
    | EditAdd name c \<Rightarrow> r\<lparr>tr_columns := AList.update name c (tr_columns r)\<rparr>
    | EditDrop name \<Rightarrow> r\<lparr>tr_columns := AList.delete name (tr_columns r)\<rparr>
    | EditJson name c \<Rightarrow> r\<lparr>tr_columns := AList.update name c (tr_columns r)\<rparr>
    | EditIndex name cs \<Rightarrow> r\<lparr>tr_indexes := AList.update name cs (tr_indexes r)\<rparr>
    | EditDropIndex name \<Rightarrow> r\<lparr>tr_indexes := AList.delete name (tr_indexes r)\<rparr>)"

definition write_record :: "table_definition_write \<Rightarrow> (string \<times> string list) list \<Rightarrow> table_record" where
  "write_record w indexes = \<lparr>tr_table = tw_table w, tr_version = tw_version w, tr_state = tw_state w,
     tr_columns = tw_columns w, tr_key = tw_key w, tr_fingerprint = tw_fingerprint w, tr_indexes = indexes\<rparr>"

fun staged_effect :: "staged_write \<Rightarrow> table_record \<Rightarrow> table_record" where
  "staged_effect (StagedTable w) r = write_record w (tr_indexes r)"
| "staged_effect (StagedIndex t n cs) r = edit_record (EditIndex n cs) r"
| "staged_effect (StagedDropIndex t n) r = edit_record (EditDropIndex n) r"
| "staged_effect (StagedAlter t v e) r = edit_record e r"
| "staged_effect w r = r"

fun staged_for :: "string \<Rightarrow> staged_write \<Rightarrow> bool" where
  "staged_for table (StagedTable w) = (tw_table w = table)"
| "staged_for table (StagedIndex t n cs) = (t = table)"
| "staged_for table (StagedDropIndex t n) = (t = table)"
| "staged_for table (StagedAlter t v e) = (t = table \<and> (case e of EditIndex n cs \<Rightarrow> False | EditDropIndex n \<Rightarrow> False | _ \<Rightarrow> True))"
| "staged_for table w = True"

lemma step_table_run [simp]: "step_table (step_run sql ps s) t = step_table s t"
  by (simp add: step_table_def step_run_def split: option.split)

lemma step_table_runs [simp]: "step_table (fold (\<lambda>d. step_run (f d) []) ds s) t = step_table s t"
  by (induction ds arbitrary: s) simp_all

lemma step_table_rows [simp]: "step_table (s\<lparr>sp_rows := n\<rparr>) t = step_table s t"
  by (simp add: step_table_def split: option.split)

lemma step_table_set [simp]: "step_table (set_table name r s) t = (if t = name then Some r else step_table s t)"
  by (simp add: step_table_def set_table_def split: option.split)

lemma apply_staged_record:
  assumes "staged_for table w" and "step_table s table = Some r"
  shows "\<exists>s' x. apply_staged changed s w = Inr (s', x) \<and> step_table s' table = Some (staged_effect w r)"
proof (cases w)
  case (StagedAlter t v e)
  then show ?thesis using assms
    by (cases e) (auto simp: apply_staged_def applyAlter_def recorded_def edit_record_def Let_def)
qed (use assms in \<open>auto simp: apply_staged_def applyTable_def applyIndex_def applyDropIndex_def recorded_def
    edit_record_def write_record_def Let_def\<close>)

lemma apply_all_record:
  assumes "list_all (staged_for table) ws" and "step_table s table = Some r"
  shows "\<exists>s'. apply_all changed s ws = Inr s' \<and> step_table s' table = Some (fold staged_effect ws r)"
  using assms
proof (induction ws arbitrary: s r)
  case (Cons w ws)
  then obtain s1 x where "apply_staged changed s w = Inr (s1, x)" "step_table s1 table = Some (staged_effect w r)"
    using apply_staged_record[of table w s r changed] by auto
  then show ?case using Cons by (auto simp: apply_all_def)
qed (simp add: apply_all_def)

text \<open>A step keeps the catalog it started from, and has one record per table.\<close>

definition step_ok :: "catalog \<Rightarrow> step \<Rightarrow> bool" where
  "step_ok catalog s = (sp_catalog s = catalog \<and> distinct (map fst (sp_tables s)))"

lemma step_ok_simps [simp]:
  "step_ok c (step_run sql ps s) = step_ok c s" "step_ok c (s\<lparr>sp_rows := n\<rparr>) = step_ok c s"
  by (simp_all add: step_ok_def step_run_def)

lemma step_ok_set [simp]: "step_ok c s \<Longrightarrow> step_ok c (set_table name r s)"
  by (simp add: step_ok_def set_table_def distinct_update)

lemma step_ok_runs [simp]: "step_ok c (fold (\<lambda>d. step_run (f d) []) ds s) = step_ok c s"
  by (induction ds arbitrary: s) simp_all

lemma apply_staged_ok: "apply_staged changed s w = Inr (s', x) \<Longrightarrow> step_ok c s \<Longrightarrow> step_ok c s'"
proof (cases w)
  case (StagedAlter t v e)
  assume "apply_staged changed s w = Inr (s', x)" "step_ok c s"
  then show ?thesis using StagedAlter
    by (cases e) (auto simp: apply_staged_def applyAlter_def andThen_eq_Inr Let_def)
qed (auto simp: apply_staged_def applyTable_def applyIndex_def applyDropIndex_def andThen_eq_Inr Let_def split: option.splits)

lemma apply_all_ok: "apply_all changed s ws = Inr s' \<Longrightarrow> step_ok c s \<Longrightarrow> step_ok c s'"
  by (induction ws arbitrary: s) (auto simp: apply_all_def andThen_eq_Inr dest: apply_staged_ok)

lemma map_of_updates:
  "distinct (map fst us) \<Longrightarrow>
   map_of (fold (\<lambda>(k, r). AList.update k r) us m) t = (case map_of us t of Some r \<Rightarrow> Some r | None \<Rightarrow> map_of m t)"
proof (induction us arbitrary: m)
  case (Cons u us)
  obtain k r where u: "u = (k, r)" by (cases u)
  have "map_of us k = None" using Cons.prems u by (simp add: map_of_eq_None_iff)
  then show ?case using Cons u by (auto split: option.split)
qed simp

lemma commit_record:
  assumes "list_all (staged_for table) ws" and "map_of catalog table = Some r"
  shows "\<exists>catalog'. commit_writes changed catalog ws = Inr catalog' \<and> map_of catalog' table = Some (fold staged_effect ws r)"
proof -
  let ?s = "\<lparr>sp_tables = [], sp_catalog = catalog, sp_log = [], sp_rows = 0\<rparr>"
  have "step_table ?s table = Some r" using assms(2) by (simp add: step_table_def)
  then obtain s' where s': "apply_all changed ?s ws = Inr s'" "step_table s' table = Some (fold staged_effect ws r)"
    using apply_all_record[OF assms(1)] by blast
  have "step_ok catalog s'" by (rule apply_all_ok[OF s'(1)]) (simp add: step_ok_def)
  then have "distinct (map fst (sp_tables s'))" by (simp add: step_ok_def)
  then have "map_of (fold (\<lambda>(k, r). AList.update k r) (sp_tables s') (sp_catalog s')) table = step_table s' table"
    by (simp add: map_of_updates step_table_def)
  then show ?thesis using s' by (simp add: commit_writes_def)
qed

lemma commits_record:
  assumes "list_all (list_all (staged_for table)) commits" and "map_of catalog table = Some r"
  shows "\<exists>catalog'. run_steps (commit_writes changed) catalog commits = Inr catalog' \<and>
    map_of catalog' table = Some (fold staged_effect (concat commits) r)"
  using assms
proof (induction commits arbitrary: catalog r)
  case (Cons ws commits)
  obtain c where "commit_writes changed catalog ws = Inr c" "map_of c table = Some (fold staged_effect ws r)"
    using commit_record[of table ws catalog r changed] Cons.prems by auto
  then show ?case using Cons.IH[of c "fold staged_effect ws r"] Cons.prems(1) by auto
qed simp

subsection \<open>The edits reach the definition\<close>

lemma describeColumn_named:
  "describeColumn n s = Inr c \<Longrightarrow> col_name c = n \<and> (\<exists>c'. describeColumn m s = Inr c' \<and> columnRecord c' = columnRecord c)"
  by (auto simp: describeColumn_def columnRecord_def andThen_eq_Inr split: option.splits pval.splits if_splits)

definition cols_match :: "schemas \<Rightarrow> (string \<times> column_record) list \<Rightarrow> bool" where
  "cols_match ss rs = list_all2 (\<lambda>(n, s) (m, r). n = m \<and> (\<exists>c. describeColumn n s = Inr c \<and> columnRecord c = r)) ss rs"

lemma cols_match_simps [simp]:
  "cols_match [] rs = (rs = [])"
  "cols_match ((n, s) # ss) rs = (\<exists>r rs'. rs = (n, r) # rs' \<and> (\<exists>c. describeColumn n s = Inr c \<and> columnRecord c = r) \<and> cols_match ss rs')"
  by (auto simp: cols_match_def list_all2_Cons1)

lemma cols_match_names: "cols_match ss rs \<Longrightarrow> map fst rs = map fst ss"
  by (induction ss arbitrary: rs) auto

lemma describe_columns_match:
  "describe_columns seen ss = Inr cs \<Longrightarrow>
   cols_match ss (map (\<lambda>c. (col_name c, columnRecord c)) cs) \<and> distinct (map fst ss) \<and> foldAscii ` set (map fst ss) \<inter> set seen = {}"
proof (induction seen ss arbitrary: cs rule: describe_columns.induct)
  case (2 seen name schema rest)
  then obtain c ds where d: "checkColumnName name = Inr ()" "foldAscii name \<notin> set seen"
    "describeColumn name schema = Inr c" "describe_columns (foldAscii name # seen) rest = Inr ds" "cs = c # ds"
    by (auto simp: andThen_eq_Inr ensure_eq_Inr)
  have e: "ensure (foldAscii name \<notin> set seen) (Refused ''differs from another only in case'') = Inr ()"
    using d(2) by simp
  show ?case using "2.IH"[of "()" "()" c, OF d(1) e d(3) d(4)] d describeColumn_named[OF d(3)] by auto
qed simp

lemma cols_match_describe:
  "describe_columns seen ss = Inr cs \<Longrightarrow> cols_match ss rs \<Longrightarrow> map (\<lambda>c. (col_name c, columnRecord c)) cs = rs"
proof (induction seen ss arbitrary: cs rs rule: describe_columns.induct)
  case (2 seen name schema rest)
  then obtain c ds where d: "checkColumnName name = Inr ()" "foldAscii name \<notin> set seen"
    "describeColumn name schema = Inr c" "describe_columns (foldAscii name # seen) rest = Inr ds" "cs = c # ds"
    by (auto simp: andThen_eq_Inr ensure_eq_Inr)
  have e: "ensure (foldAscii name \<notin> set seen) (Refused ''differs from another only in case'') = Inr ()"
    using d(2) by simp
  show ?case using "2.IH"[of "()" "()" c, OF d(1) e d(3) d(4)] 2(3) d describeColumn_named[OF d(3)] by auto
qed simp

lemma cols_match_append: "cols_match ss rs \<Longrightarrow> cols_match ts us \<Longrightarrow> cols_match (ss @ ts) (rs @ us)"
  by (simp add: cols_match_def list_all2_appendI)

lemma update_new: "k \<notin> fst ` set es \<Longrightarrow> AList.update k v es = es @ [(k, v)]"
  by (induction es) auto

lemma cols_match_update:
  "cols_match ss rs \<Longrightarrow> describeColumn n s = Inr c \<Longrightarrow> cols_match (AList.update n s ss) (AList.update n (columnRecord c) rs)"
  by (induction ss arbitrary: rs) auto

lemma cols_match_delete: "cols_match ss rs \<Longrightarrow> cols_match (AList.delete n ss) (AList.delete n rs)"
  by (induction ss arbitrary: rs) auto

lemma from_entries_distinct: "distinct (map fst es) \<Longrightarrow> from_entries es = es"
proof -
  have "distinct (map fst (acc @ es)) \<Longrightarrow> fold (\<lambda>(k, v) r. AList.update k v r) es acc = acc @ es" for acc
    by (induction es arbitrary: acc) (auto simp: update_new image_iff)
  from this[of "[]"] show "distinct (map fst es) \<Longrightarrow> from_entries es = es" by (simp add: from_entries_def)
qed

lemma cols_match_rename:
  "cols_match ss rs \<Longrightarrow> cols_match (map (\<lambda>(n, s). (f n, s)) ss) (map (\<lambda>(n, r). (f n, r)) rs)"
proof (induction ss arbitrary: rs)
  case (Cons x ss)
  obtain n s where x: "x = (n, s)" by (cases x)
  then obtain r rs' c where r: "rs = (n, r) # rs'" "describeColumn n s = Inr c" "columnRecord c = r" "cols_match ss rs'"
    using Cons.prems by auto
  then show ?case using Cons.IH[OF r(4)] describeColumn_named[OF r(2), of "f n"] x by auto
qed simp

text \<open>
  The record the edits of an editor lead to, from a record of the previous version: first the edits
  before the data step, then those after it.
\<close>

definition before_record :: "editor \<Rightarrow> table_record \<Rightarrow> table_record" where
  "before_record ed r = fold edit_record (ed_before ed) r"

definition after_record :: "editor \<Rightarrow> table_record \<Rightarrow> table_record" where
  "after_record ed r = fold edit_record (ed_after ed) (before_record ed r)"

definition editor_match :: "editor \<Rightarrow> table_record \<Rightarrow> bool" where
  "editor_match ed r =
     (let a = after_record ed r in
      cols_match (ed_schemas ed) (tr_columns a) \<and> distinct (map fst (ed_schemas ed)) \<and>
      tr_key a = ed_key ed \<and> tr_indexes a = ed_indexes ed \<and>
      (\<not> ed_phase_after ed \<longrightarrow> ed_after ed = [] \<and> ed_step ed = None) \<and>
      (\<forall>data. ed_step ed = Some data \<longrightarrow>
         tr_columns (before_record ed r) = td_record (step_def data) \<and> tr_key (before_record ed r) = td_key (step_def data)))"

lemma describe_one_ok: "describe_one n s = Inr c \<Longrightarrow> describeColumn n s = Inr c"
  by (auto simp: describe_one_def describeColumns_def andThen_eq_Inr)

lemma options_record:
  assumes "editor_options digest ed = Inr T" and "cols_match (ed_schemas ed) rs"
  shows "td_record T = rs \<and> td_key T = ed_key ed \<and> td_indexes T = ed_indexes ed"
  using newTable_fields[OF assms(1)[unfolded editor_options_def]] cols_match_describe[OF _ assms(2)]
  by (auto simp: describeColumns_def)

lemma assertBefore_phase: "assertBefore ed = Inr u \<longleftrightarrow> \<not> ed_phase_after ed"
  by (simp add: assertBefore_def ensure_eq_Inr)

lemma match_rename:
  assumes "ed_rename old new ed = Inr ed'" and "editor_match ed r"
  shows "editor_match ed' r"
proof -
  have p: "\<not> ed_phase_after ed" and n: "assertNewName ed new (Some old) = Inr ()"
    and e: "ed' = ed\<lparr>ed_schemas := from_entries (map (\<lambda>(n, s). (rename_column old new n, s)) (ed_schemas ed)),
             ed_key := map (rename_column old new) (ed_key ed),
             ed_indexes := map (\<lambda>(n, cs). (n, map (rename_column old new) cs)) (ed_indexes ed),
             ed_before := ed_before ed @ [EditRename old new]\<rparr>"
    using assms(1) by (auto simp: ed_rename_def andThen_eq_Inr assertBefore_phase Let_def)
  have m: "cols_match (ed_schemas ed) (tr_columns (after_record ed r))" "distinct (map fst (ed_schemas ed))"
    "tr_key (after_record ed r) = ed_key ed" "tr_indexes (after_record ed r) = ed_indexes ed" "ed_after ed = []" "ed_step ed = None"
    using assms(2) p by (simp_all add: editor_match_def Let_def)
  have fresh: "x = old" if "x \<in> set (map fst (ed_schemas ed))" "x = new" for x
    using n that by (auto simp: assertNewName_def ensure_eq_Inr)
  have "inj_on (rename_column old new) (set (map fst (ed_schemas ed)))"
    using fresh by (auto simp: inj_on_def rename_column_def split: if_splits)
  then have d: "distinct (map (rename_column old new) (map fst (ed_schemas ed)))"
    using m(2) by (simp add: distinct_map del: map_map)
  have s: "map fst (map (\<lambda>(n, s). (rename_column old new n, s)) es) = map (rename_column old new) (map fst es)" for es :: "(string \<times> 'a) list"
    by (induction es) auto
  have fs: "from_entries (map (\<lambda>(n, s). (rename_column old new n, s)) (ed_schemas ed)) =
      map (\<lambda>(n, s). (rename_column old new n, s)) (ed_schemas ed)"
    by (rule from_entries_distinct) (use d in \<open>simp only: s\<close>)
  have fr: "from_entries (map (\<lambda>(n, s). (rename_column old new n, s)) (tr_columns (after_record ed r))) =
      map (\<lambda>(n, s). (rename_column old new n, s)) (tr_columns (after_record ed r))"
    by (rule from_entries_distinct) (use d in \<open>simp only: s cols_match_names[OF m(1)]\<close>)
  have a: "after_record ed' r = edit_record (EditRename old new) (after_record ed r)"
    using m(5) by (simp add: e after_record_def before_record_def)
  show ?thesis
    using m d cols_match_rename[OF m(1), of "rename_column old new"]
    unfolding editor_match_def Let_def a
    by (simp add: edit_record_def fr e fs s del: map_map)
qed

lemma match_add:
  assumes "ed_add name column ed = Inr ed'" and "editor_match ed r"
  shows "editor_match ed' r"
proof -
  obtain c where p: "\<not> ed_phase_after ed" and n: "assertNewName ed name None = Inr ()" and c: "describeColumn name column = Inr c"
    and e: "ed' = ed\<lparr>ed_schemas := AList.update name column (ed_schemas ed), ed_before := ed_before ed @ [EditAdd name (columnRecord c)]\<rparr>"
    using assms(1) by (auto simp: ed_add_def andThen_eq_Inr assertBefore_phase dest!: describe_one_ok)
  have m: "cols_match (ed_schemas ed) (tr_columns (after_record ed r))" "distinct (map fst (ed_schemas ed))"
    "tr_key (after_record ed r) = ed_key ed" "tr_indexes (after_record ed r) = ed_indexes ed" "ed_after ed = []" "ed_step ed = None"
    using assms(2) p by (simp_all add: editor_match_def Let_def)
  have a: "after_record ed' r = edit_record (EditAdd name (columnRecord c)) (after_record ed r)"
    using m(5) by (simp add: e after_record_def before_record_def)
  show ?thesis
    using m cols_match_update[OF m(1) c] unfolding editor_match_def Let_def a
    by (simp add: edit_record_def e distinct_update)
qed

lemma json_case:
  "(case c of Plain n ty opt d \<Rightarrow> Inl e | Json n opt j \<Rightarrow> f n opt j) = Inr y \<longleftrightarrow> (\<exists>n opt j. c = Json n opt j \<and> f n opt j = Inr y)"
  by (cases c) auto

lemma match_json:
  assumes "ed_json name column ed = Inr ed'" and "editor_match ed r"
  shows "editor_match ed' r"
proof -
  obtain schema c where p: "\<not> ed_phase_after ed" and c: "describeColumn name schema = Inr c"
    and e: "ed' = ed\<lparr>ed_schemas := AList.update name schema (ed_schemas ed), ed_before := ed_before ed @ [EditJson name (columnRecord c)]\<rparr>"
    using assms(1)
    unfolding ed_json_def andThen_eq_Inr json_case Let_def assertBefore_phase by (blast dest: describe_one_ok)
  have m: "cols_match (ed_schemas ed) (tr_columns (after_record ed r))" "distinct (map fst (ed_schemas ed))"
    "tr_key (after_record ed r) = ed_key ed" "tr_indexes (after_record ed r) = ed_indexes ed" "ed_after ed = []" "ed_step ed = None"
    using assms(2) p by (simp_all add: editor_match_def Let_def)
  have a: "after_record ed' r = edit_record (EditJson name (columnRecord c)) (after_record ed r)"
    using m(5) by (simp add: e after_record_def before_record_def)
  show ?thesis
    using m cols_match_update[OF m(1) c] unfolding editor_match_def Let_def a
    by (simp add: edit_record_def e distinct_update)
qed

lemma match_step:
  assumes "\<not> ed_phase_after ed" and "editor_options digest ed = Inr (step_def data)" and "editor_match ed r"
  shows "editor_match (ed\<lparr>ed_step := Some data, ed_phase_after := True\<rparr>) r"
proof -
  have m: "cols_match (ed_schemas ed) (tr_columns (after_record ed r))" "ed_after ed = []"
    "tr_key (after_record ed r) = ed_key ed"
    using assms(1,3) by (simp_all add: editor_match_def Let_def)
  have b: "after_record ed r = before_record ed r" using m(2) by (simp add: after_record_def)
  let ?ed = "ed\<lparr>ed_step := Some data, ed_phase_after := True\<rparr>"
  have a: "after_record ?ed r = after_record ed r" "before_record ?ed r = before_record ed r"
    by (simp_all add: after_record_def before_record_def)
  show ?thesis
    using assms(3) options_record[OF assms(2) m(1)] m(3) unfolding editor_match_def Let_def a by (simp add: b)
qed

lemma fold_drop_indexes: "fold edit_record (map EditDropIndex ns) r = r\<lparr>tr_indexes := fold AList.delete ns (tr_indexes r)\<rparr>"
  by (induction ns arbitrary: r) (simp_all add: edit_record_def)

lemma editor_match_call:
  assumes "editor_call digest ed call = Inr ed'" and "editor_match ed r"
  shows "editor_match ed' r"
proof (cases call)
  case (CallRename old new)
  then show ?thesis using assms match_rename by (simp add: editor_call_def)
next
  case (CallAdd name column)
  then show ?thesis using assms match_add by (simp add: editor_call_def)
next
  case (CallJson name column)
  then show ?thesis using assms match_json by (simp add: editor_call_def)
next
  case (CallRows patch)
  then obtain f T where "\<not> ed_phase_after ed" "editor_options digest ed = Inr T"
    "ed' = ed\<lparr>ed_step := Some (RowsStep T f), ed_phase_after := True\<rparr>"
    using assms(1) by (auto simp: editor_call_def ed_rows_def andThen_eq_Inr assertBefore_phase split: option.splits)
  then show ?thesis using match_step[of ed digest "RowsStep T f" r] assms(2) by simp
next
  case (CallUpdate condition v)
  then obtain T w es where "\<not> ed_phase_after ed" "editor_options digest ed = Inr T"
    "ed' = ed\<lparr>ed_step := Some (UpdateStep T w es), ed_phase_after := True\<rparr>"
    using assms(1) by (auto simp: editor_call_def ed_update_def andThen_eq_Inr assertBefore_phase)
  then show ?thesis using match_step[of ed digest "UpdateStep T w es" r] assms(2) by simp
next
  case (CallDrop name)
  let ?doomed = "map fst (filter (\<lambda>(index, columns). name \<in> set columns) (ed_indexes ed))"
  have e: "ed' = ed\<lparr>ed_phase_after := True, ed_indexes := fold AList.delete ?doomed (ed_indexes ed),
      ed_schemas := AList.delete name (ed_schemas ed), ed_after := ed_after ed @ map EditDropIndex ?doomed @ [EditDrop name]\<rparr>"
    and k: "name \<notin> set (ed_key ed)"
    using assms(1) CallDrop by (auto simp: editor_call_def ed_drop_def andThen_eq_Inr ensure_eq_Inr Let_def)
  have a: "after_record ed' r = edit_record (EditDrop name) (fold edit_record (map EditDropIndex ?doomed) (after_record ed r))"
    "before_record ed' r = before_record ed r"
    by (simp_all add: e after_record_def before_record_def)
  show ?thesis using assms(2) cols_match_delete[of "ed_schemas ed" "tr_columns (after_record ed r)" name]
    unfolding editor_match_def Let_def a fold_drop_indexes
    by (simp add: edit_record_def e AList.distinct_delete)
next
  case (CallIndex name columns)
  then obtain checked where e: "ed' = ed\<lparr>ed_phase_after := True, ed_indexes := AList.update name checked (ed_indexes ed),
      ed_after := ed_after ed @ [EditIndex name checked]\<rparr>"
    using assms(1) by (auto simp: editor_call_def ed_index_def andThen_eq_Inr)
  then have a: "after_record ed' r = edit_record (EditIndex name checked) (after_record ed r)" "before_record ed' r = before_record ed r"
    by (simp_all add: after_record_def before_record_def)
  show ?thesis using assms(2) unfolding editor_match_def Let_def a by (simp add: edit_record_def e)
next
  case (CallDropIndex name)
  then have e: "ed' = ed\<lparr>ed_phase_after := True, ed_indexes := AList.delete name (ed_indexes ed),
      ed_after := ed_after ed @ [EditDropIndex name]\<rparr>"
    using assms(1) by (auto simp: editor_call_def ed_dropIndex_def andThen_eq_Inr)
  then have a: "after_record ed' r = edit_record (EditDropIndex name) (after_record ed r)" "before_record ed' r = before_record ed r"
    by (simp_all add: after_record_def before_record_def)
  show ?thesis using assms(2) unfolding editor_match_def Let_def a by (simp add: edit_record_def e)
qed

subsection \<open>Declared histories\<close>

text \<open>A history: a base that \<open>defineTable\<close> accepts, and versions appended by \<open>evolveTable\<close>.\<close>

inductive declared :: "(pval \<Rightarrow> string) \<Rightarrow> version_chain \<Rightarrow> bool" for digest where
  base: "newTable digest name version columns key indexes = Inr T \<Longrightarrow> declared digest (Version T None)"
| evolved: "declared digest previous \<Longrightarrow> evolveTable digest previous calls = Inr v \<Longrightarrow> declared digest v"

inductive_cases declared_VersionE: "declared digest (Version T (Some (p, m)))"

lemma evolveTable_parts:
  assumes "evolveTable digest previous calls = Inr v"
  obtains ed T where "run_steps (editor_call digest) (newEditor (vc_def previous)) calls = Inr ed"
    "editor_options digest ed = Inr T"
    "v = Version T (Some (previous, \<lparr>mg_before = ed_before ed, mg_step = ed_step ed, mg_after = ed_after ed\<rparr>))"
  using assms that by (auto simp: evolveTable_def ed_finish_def andThen_eq_Inr)

lemma declared_table: "declared digest v \<Longrightarrow> \<exists>name version columns key indexes. newTable digest name version columns key indexes = Inr (vc_def v)"
proof (induction rule: declared.induct)
  case (evolved previous calls v)
  obtain ed T where "editor_options digest ed = Inr T" "vc_def v = T"
    using evolveTable_parts[OF evolved(2)] by (metis version_chain.sel(1))
  then show ?case unfolding editor_options_def by blast
next
  case (base name version columns key indexes T)
  then show ?case unfolding version_chain.sel by blast
qed

lemma declared_evolved:
  assumes "declared digest v" and "vc_evolution v = Some (p, m)"
  shows "declared digest p \<and> (\<exists>calls. evolveTable digest p calls = Inr v)"
  using assms(1)
proof (cases rule: declared.cases)
  case (base name version columns key indexes T)
  then show ?thesis using assms(2) by simp
next
  case (evolved previous calls)
  have "previous = p" using assms(2) by (auto intro: evolveTable_parts[OF evolved(2)])
  then show ?thesis using evolved by blast
qed

text \<open>The record that creating a version gives, and the one while its data step runs.\<close>

definition created_record :: "table_def \<Rightarrow> string \<Rightarrow> table_record" where
  "created_record T table = \<lparr>tr_table = table, tr_version = td_version T, tr_state = Ready, tr_columns = td_record T,
     tr_key = td_key T, tr_fingerprint = td_fingerprint T, tr_indexes = td_indexes T\<rparr>"

definition migrating_record :: "version_chain \<Rightarrow> string \<Rightarrow> table_record" where
  "migrating_record v table = (case vc_evolution v of
      None \<Rightarrow> created_record (vc_def v) table
    | Some (p, m) \<Rightarrow> (case mg_step m of
        None \<Rightarrow> created_record (vc_def v) table
      | Some data \<Rightarrow>
          \<lparr>tr_table = table, tr_version = td_version (vc_def v), tr_state = Migrating, tr_columns = td_record (step_def data),
           tr_key = td_key (step_def data), tr_fingerprint = td_fingerprint (vc_def v),
           tr_indexes = tr_indexes (fold edit_record (mg_before m) (created_record (vc_def p) table))\<rparr>))"

lemma indexes_created: "distinct (map fst ix) \<Longrightarrow>
   tr_indexes (fold staged_effect (map (\<lambda>(n, cs). StagedIndex table n cs) ix) r) = fold (\<lambda>(n, cs). AList.update n cs) ix (tr_indexes r)"
  by (induction ix arbitrary: r) (auto simp: edit_record_def)

text \<open>The edits of a version, from the record of the one before it.\<close>

lemma evolve_edits:
  assumes "declared digest p" and "evolveTable digest p calls = Inr v"
    and "tr_columns r = td_record (vc_def p)" and "tr_key r = td_key (vc_def p)" and "tr_indexes r = td_indexes (vc_def p)"
  obtains m where "vc_evolution v = Some (p, m)" "td_version (vc_def v) = td_version (vc_def p) + 1"
    "tr_columns (fold edit_record (mg_after m) (fold edit_record (mg_before m) r)) = td_record (vc_def v)"
    "tr_key (fold edit_record (mg_after m) (fold edit_record (mg_before m) r)) = td_key (vc_def v)"
    "tr_indexes (fold edit_record (mg_after m) (fold edit_record (mg_before m) r)) = td_indexes (vc_def v)"
    "\<And>data. mg_step m = Some data \<Longrightarrow> tr_columns (fold edit_record (mg_before m) r) = td_record (step_def data) \<and>
       tr_key (fold edit_record (mg_before m) r) = td_key (step_def data)"
proof -
  obtain ed T where ed: "run_steps (editor_call digest) (newEditor (vc_def p)) calls = Inr ed"
    "editor_options digest ed = Inr T"
    "v = Version T (Some (p, \<lparr>mg_before = ed_before ed, mg_step = ed_step ed, mg_after = ed_after ed\<rparr>))"
    by (rule evolveTable_parts[OF assms(2)])
  obtain name version columns key indexes where P: "newTable digest name version columns key indexes = Inr (vc_def p)"
    using declared_table[OF assms(1)] by blast
  note f = newTable_fields[OF P]
  have "cols_match (td_schemas (vc_def p)) (td_record (vc_def p)) \<and> distinct (map fst (td_schemas (vc_def p)))"
    using f describe_columns_match[of "[]" columns "td_columns (vc_def p)"] by (auto simp: describeColumns_def)
  then have "editor_match (newEditor (vc_def p)) r"
    using assms(3-5) by (simp add: editor_match_def newEditor_def after_record_def before_record_def)
  then have m: "editor_match ed r"
    by (rule run_steps_invariant[OF ed(1)]) (rule editor_match_call)
  have "ed_previous ed = vc_def p"
  proof (rule run_steps_invariant[OF ed(1)])
    fix s x s'
    assume "ed_previous s = vc_def p" "editor_call digest s x = Inr s'"
    then show "ed_previous s' = vc_def p"
      by (cases x) (auto simp: editor_call_def ed_rename_def ed_add_def ed_json_def ed_rows_def ed_update_def ed_drop_def
          ed_index_def ed_dropIndex_def andThen_eq_Inr json_case Let_def split: option.splits)
  qed (simp add: newEditor_def)
  then have "td_version T = td_version (vc_def p) + 1"
    using newTable_fields[OF ed(2)[unfolded editor_options_def]] by simp
  moreover have "cols_match (ed_schemas ed) (tr_columns (after_record ed r))" using m by (simp add: editor_match_def Let_def)
  from options_record[OF ed(2) this]
  have "td_record T = tr_columns (after_record ed r) \<and> td_key T = ed_key ed \<and> td_indexes T = ed_indexes ed" .
  ultimately show thesis
    using m by (intro that[of "\<lparr>mg_before = ed_before ed, mg_step = ed_step ed, mg_after = ed_after ed\<rparr>"])
      (auto simp: ed(3) editor_match_def after_record_def before_record_def Let_def)
qed

subsection \<open>The commits of a version\<close>

lemma edits_effect: "fold staged_effect (map (stageEdit table v) es) r = fold edit_record es r"
proof -
  have "staged_effect (stageEdit table v e) r = edit_record e r" for e r
    by (cases e) (simp_all add: stageEdit_def)
  then show ?thesis by (induction es arbitrary: r) simp_all
qed

lemma edits_for [simp]: "list_all (staged_for table) (map (stageEdit table v) es)"
proof -
  have "staged_for table (stageEdit table v e)" for e by (cases e) (simp_all add: stageEdit_def)
  then show ?thesis by (simp add: list_all_iff)
qed

lemma record_effect:
  "staged_effect (recordOf C T state table) r =
     \<lparr>tr_table = table, tr_version = td_version T, tr_state = state, tr_columns = td_record C, tr_key = td_key C,
      tr_fingerprint = td_fingerprint T, tr_indexes = tr_indexes r\<rparr>"
  "staged_for table (recordOf C T state table)"
  by (simp_all add: recordOf_def write_record_def)

lemma update_step_effect: "staged_effect (updateStep S w es v table) r = r" "staged_for table (updateStep S w es v table)"
  by (simp_all add: updateStep_def stageUpdateWhere_def Let_def)

lemma option_case_Inr: "(case x of None \<Rightarrow> Inl e | Some y \<Rightarrow> f y) = Inr z \<longleftrightarrow> (\<exists>y. x = Some y \<and> f y = Inr z)"
  by (cases x) auto

definition same_shape :: "table_record \<Rightarrow> table_record \<Rightarrow> bool" where
  "same_shape a b = (tr_columns a = tr_columns b \<and> tr_key a = tr_key b \<and> tr_indexes a = tr_indexes b)"

lemma edits_shape: "same_shape a b \<Longrightarrow> same_shape (fold edit_record es a) (fold edit_record es b)"
proof (induction es arbitrary: a b)
  case (Cons e es)
  have "same_shape (edit_record e a) (edit_record e b)"
    using Cons.prems by (cases e) (simp_all add: same_shape_def edit_record_def)
  then show ?case using Cons.IH by simp
qed simp

lemma evolved_parts:
  assumes "declared digest v" and "vc_evolution v = Some (p, m)"
  shows "td_version (vc_def v) = td_version (vc_def p) + 1 \<and>
    same_shape (fold edit_record (mg_after m) (fold edit_record (mg_before m) (created_record (vc_def p) table)))
      (created_record (vc_def v) table) \<and>
    (\<forall>data. mg_step m = Some data \<longrightarrow> same_shape (migrating_record v table) (fold edit_record (mg_before m) (created_record (vc_def p) table)))"
proof -
  obtain calls where d: "declared digest p" "evolveTable digest p calls = Inr v" using declared_evolved[OF assms] by blast
  show ?thesis
  proof (rule evolve_edits[OF d, of "created_record (vc_def p) table"])
    fix m'
    assume "vc_evolution v = Some (p, m')" "td_version (vc_def v) = td_version (vc_def p) + 1"
      "tr_columns (fold edit_record (mg_after m') (fold edit_record (mg_before m') (created_record (vc_def p) table))) = td_record (vc_def v)"
      "tr_key (fold edit_record (mg_after m') (fold edit_record (mg_before m') (created_record (vc_def p) table))) = td_key (vc_def v)"
      "tr_indexes (fold edit_record (mg_after m') (fold edit_record (mg_before m') (created_record (vc_def p) table))) = td_indexes (vc_def v)"
      "\<And>data. mg_step m' = Some data \<Longrightarrow>
        tr_columns (fold edit_record (mg_before m') (created_record (vc_def p) table)) = td_record (step_def data) \<and>
        tr_key (fold edit_record (mg_before m') (created_record (vc_def p) table)) = td_key (step_def data)"
    then show ?thesis using assms(2) by (auto simp: same_shape_def created_record_def migrating_record_def)
  qed (simp_all add: created_record_def)
qed

definition edit_writes :: "version_chain \<Rightarrow> string \<Rightarrow> table_edit list \<Rightarrow> staged_write list" where
  "edit_writes v table es = map (stageEdit table (td_version (vc_def v))) es"

subsection \<open>The properties\<close>

text \<open>
  C11. The edits that \<open>evolveTable\<close> records migrate a store to the version they define: committed on a
  recorded table that has the columns, key and indexes of the previous version, the \<open>alter\<close>, \<open>index\<close> and
  \<open>dropIndex\<close> writes of a version all apply, and leave a record with exactly the columns (in order, with
  their types, defaults and versions), the key and the indexes of the new definition. Every rename
  reaches the key and the indexes, every dropped column takes its indexes with it.
\<close>

theorem edits_reach_definition:
  assumes "declared digest p" and "evolveTable digest p calls = Inr v" and "map_of catalog table = Some r"
    and "tr_columns r = td_record (vc_def p)" and "tr_key r = td_key (vc_def p)" and "tr_indexes r = td_indexes (vc_def p)"
  shows "\<exists>m catalog' r'. vc_evolution v = Some (p, m) \<and>
    commit_writes changed catalog (edit_writes v table (mg_before m @ mg_after m)) = Inr catalog' \<and>
    map_of catalog' table = Some r' \<and> tr_columns r' = td_record (vc_def v) \<and> tr_key r' = td_key (vc_def v) \<and>
    tr_indexes r' = td_indexes (vc_def v)"
proof (rule evolve_edits[OF assms(1,2,4-6)])
  fix m
  assume m: "vc_evolution v = Some (p, m)"
    "tr_columns (fold edit_record (mg_after m) (fold edit_record (mg_before m) r)) = td_record (vc_def v)"
    "tr_key (fold edit_record (mg_after m) (fold edit_record (mg_before m) r)) = td_key (vc_def v)"
    "tr_indexes (fold edit_record (mg_after m) (fold edit_record (mg_before m) r)) = td_indexes (vc_def v)"
  have "list_all (staged_for table) (edit_writes v table (mg_before m @ mg_after m))"
    unfolding edit_writes_def by (rule edits_for)
  from commit_record[OF this assms(3), of changed] show ?thesis
    using m unfolding edit_writes_def edits_effect by (auto simp: edits_effect)
qed

definition demo_base :: version_chain where
  "demo_base = Version demo_table None"

definition demo_calls :: "table_edit_call list" where
  "demo_calls = [CallRename ''id'' ''key'',
     CallAdd ''done'' \<lparr>sch_optional = False, sch_json = None,
       sch_fields = [(''type'', PText (units_of ''boolean'')), (''default'', PBoolean False)]\<rparr>,
     CallIndex ''by_key'' [''n'', ''key''], CallDrop ''n'']"

definition demo_next :: version_chain where
  "demo_next = (case evolveTable (\<lambda>v. ''f'') demo_base demo_calls of Inr v \<Rightarrow> v | Inl e \<Rightarrow> demo_base)"

lemma demo_base_declared: "declared (\<lambda>v. ''f'') demo_base"
  unfolding demo_base_def by (rule declared.base[OF demo_declared])

lemma demo_evolved: "evolveTable (\<lambda>v. ''f'') demo_base demo_calls = Inr demo_next"
proof -
  have "\<not> isl (evolveTable (\<lambda>v. ''f'') demo_base demo_calls)" by code_simp
  then show ?thesis unfolding demo_next_def by (cases "evolveTable (\<lambda>v. ''f'') demo_base demo_calls") auto
qed

lemma demo_next_declared: "declared (\<lambda>v. ''f'') demo_next"
  by (rule declared.evolved[OF demo_base_declared demo_evolved])

theorem edits_reach_definition_witness:
  "\<exists>m catalog' r'. vc_evolution demo_next = Some (demo_base, m) \<and>
    commit_writes (\<lambda>_ _. 0) [(''t'', created_record demo_table ''t'')] (edit_writes demo_next ''t'' (mg_before m @ mg_after m)) = Inr catalog' \<and>
    map_of catalog' ''t'' = Some r' \<and> tr_columns r' = td_record (vc_def demo_next) \<and> tr_key r' = td_key (vc_def demo_next) \<and>
    tr_indexes r' = td_indexes (vc_def demo_next)"
proof -
  have "tr_columns (created_record demo_table ''t'') = td_record (vc_def demo_base)"
    "tr_key (created_record demo_table ''t'') = td_key (vc_def demo_base)"
    "tr_indexes (created_record demo_table ''t'') = td_indexes (vc_def demo_base)"
    by (simp_all add: demo_base_def created_record_def)
  from edits_reach_definition[OF demo_base_declared demo_evolved _ this] show ?thesis by simp
qed

end
