(* ===== verification/Store_Activation.thy ===== *)
theory Store_Activation
  imports Store_Evolve_Laws
begin

text \<open>
  What an activation does to a recorded table: its plan and commits bring the record to the newest version
  of the code, wherever an earlier activation stopped, and the paged reads of a \<open>rows\<close> step end, with every
  row patched once.
\<close>

subsection \<open>The commits of a \<open>rows\<close> step\<close>

lemma patchRow_counted: "patchRow code T patch v table stored = Inr w \<Longrightarrow> \<exists>st f. w = StagedCounted st f"
  unfolding patchRow_def stageUpdate_def andThen_eq_Inr option_case_Inr Let_def by blast

lemma patches_effect:
  assumes "traverse (patchRow code T patch v table) stored = Inr writes"
  shows "fold staged_effect writes r = r" and "list_all (staged_for table) writes"
proof -
  have c: "\<exists>st f. w = StagedCounted st f" if "w \<in> set writes" for w
    using list_all2_rightD[OF assms[unfolded traverse_eq_Inr] that] patchRow_counted by blast
  have "staged_effect w r = r \<and> staged_for table w" if "w \<in> set writes" for w r
    using c[OF that] by auto
  then show "fold staged_effect writes r = r" and "list_all (staged_for table) writes"
    by (auto simp: list_all_iff fold_invariant[of writes "\<lambda>w. w \<in> set writes" "\<lambda>x. x = r"])
qed

text \<open>Abandoned after any of its commits, the step has left the record as it was, or finished it with \<open>ready\<close>.\<close>

lemma rowsStep_prefix:
  assumes "rowsStep code T patch v table ready continue pages = Inr commits" and "list_all (staged_for table) ready"
  shows "fold staged_effect (concat (take n (map snd commits))) r \<in> {r, fold staged_effect ready r}"
  using assms(1)
proof (induction pages arbitrary: continue commits n)
  case (Cons stored pages)
  obtain writes where w: "traverse (patchRow code T patch v table) (take MIGRATION_CHUNK stored) = Inr writes"
    using Cons.prems by (auto simp: Let_def andThen_eq_Inr)
  show ?case
  proof (cases n)
    case (Suc k)
    show ?thesis
    proof (cases "length stored \<le> MIGRATION_CHUNK")
      case True
      then show ?thesis using Cons.prems w patches_effect[OF w] Suc by (auto simp: Let_def)
    next
      case False
      then obtain st ds cont where d: "rowsStep code T patch v table ready cont pages = Inr ds" "commits = (st, writes) # ds"
        using Cons.prems w by (auto simp: Let_def andThen_eq_Inr)
      show ?thesis using Cons.IH[OF d(1), of k] d(2) patches_effect(1)[OF w] Suc by simp
    qed
  qed simp
qed simp

lemma rowsStep_effect:
  assumes "rowsStep code T patch v table ready continue pages = Inr commits" and "list_all (staged_for table) ready"
  shows "list_all (list_all (staged_for table)) (map snd commits) \<and>
    fold staged_effect (concat (map snd commits)) r =
      (if \<exists>page\<in>set pages. length page \<le> MIGRATION_CHUNK then fold staged_effect ready r else r)"
  using assms(1)
proof (induction pages arbitrary: continue commits)
  case (Cons stored pages)
  obtain writes where w: "traverse (patchRow code T patch v table) (take MIGRATION_CHUNK stored) = Inr writes"
    using Cons.prems by (auto simp: Let_def andThen_eq_Inr)
  show ?case
  proof (cases "length stored \<le> MIGRATION_CHUNK")
    case True
    then show ?thesis using Cons.prems w patches_effect[OF w] assms(2) by (auto simp: Let_def)
  next
    case False
    then obtain st ds cont where d: "rowsStep code T patch v table ready cont pages = Inr ds" "commits = (st, writes) # ds"
      using Cons.prems w by (auto simp: Let_def andThen_eq_Inr)
    show ?thesis using Cons.IH[OF d(1)] d(2) False patches_effect[OF w] by auto
  qed
qed simp

text \<open>Every page of a \<open>rows\<close> step is read until one that is not full: the step is not abandoned.\<close>

definition finished :: "version_chain \<Rightarrow> stored_row list list \<Rightarrow> bool" where
  "finished v pages = (case vc_evolution v of
      Some (p, m) \<Rightarrow> (case mg_step m of
          Some (RowsStep S patch) \<Rightarrow> \<exists>page\<in>set pages. length page \<le> MIGRATION_CHUNK
        | _ \<Rightarrow> True)
    | None \<Rightarrow> True)"

lemma ready_effect:
  assumes "same_shape (fold edit_record after r) (created_record (vc_def v) table)"
  shows "fold staged_effect (edit_writes v table after @ [recordOf (vc_def v) (vc_def v) Ready table]) r = created_record (vc_def v) table"
  using assms by (simp add: edit_writes_def edits_effect record_effect same_shape_def created_record_def)

lemma begin_effect:
  assumes "vc_evolution v = Some (p, m)" and "mg_step m = Some data"
  shows "fold staged_effect (edit_writes v table (mg_before m) @ [recordOf (step_def data) (vc_def v) Migrating table])
    (created_record (vc_def p) table) = migrating_record v table"
  using assms by (simp add: edit_writes_def edits_effect record_effect migrating_record_def)

lemma ready_migrating:
  assumes "declared digest v" and "vc_evolution v = Some (p, m)" and "mg_step m = Some data"
  shows "fold staged_effect (edit_writes v table (mg_after m) @ [recordOf (vc_def v) (vc_def v) Ready table])
    (migrating_record v table) = created_record (vc_def v) table"
proof (rule ready_effect)
  note shape = evolved_parts[OF assms(1,2), of table]
  have "same_shape (migrating_record v table) (fold edit_record (mg_before m) (created_record (vc_def p) table))"
    using shape assms(3) by blast
  then show "same_shape (fold edit_record (mg_after m) (migrating_record v table)) (created_record (vc_def v) table)"
    using shape edits_shape unfolding same_shape_def by metis
qed

text \<open>The commits of one version: what starts them, and the rest.\<close>

lemma migrateSteps_parts:
  assumes "vc_evolution v = Some (p, m)" and "mg_step m = Some data" and "migrateSteps code v start table pages = Inr commits"
  obtains rest where
    "commits = (if start = Begin then [edit_writes v table (mg_before m) @ [recordOf (step_def data) (vc_def v) Migrating table]] else []) @ rest"
    "(\<exists>S w es. data = UpdateStep S w es \<and> rest = [updateStep S w es (td_version (vc_def v)) table #
        edit_writes v table (mg_after m) @ [recordOf (vc_def v) (vc_def v) Ready table]]) \<or>
     (\<exists>S patch cs. data = RowsStep S patch \<and> rest = map snd cs \<and> rowsStep code S patch (td_version (vc_def v)) table
        (edit_writes v table (mg_after m) @ [recordOf (vc_def v) (vc_def v) Ready table]) None pages = Inr cs)"
  using assms that by (cases data) (auto simp: migrateSteps_def edit_writes_def Let_def andThen_eq_Inr)

lemma migrateSteps_plain:
  assumes "vc_evolution v = Some (p, m)" and "mg_step m = None" and "migrateSteps code v start table pages = Inr commits"
  shows "commits = [edit_writes v table (mg_before m) @ edit_writes v table (mg_after m) @ [recordOf (vc_def v) (vc_def v) Ready table]]"
  using assms by (simp add: migrateSteps_def edit_writes_def Let_def)

lemma migrateSteps_effect:
  assumes "declared digest v" and "vc_evolution v = Some (p, m)" and "migrateSteps code v start table pages = Inr commits"
    and "finished v pages" and "r = (if start = Resume \<and> has_data_step v then migrating_record v table else created_record (vc_def p) table)"
  shows "list_all (list_all (staged_for table)) commits \<and> fold staged_effect (concat commits) r = created_record (vc_def v) table"
proof -
  let ?before = "edit_writes v table (mg_before m)"
  let ?ready = "edit_writes v table (mg_after m) @ [recordOf (vc_def v) (vc_def v) Ready table]"
  have for_ready: "list_all (staged_for table) ?ready" by (simp add: edit_writes_def record_effect)
  show ?thesis
  proof (cases "mg_step m")
    case None
    have r: "r = created_record (vc_def p) table" using assms(2,5) None by (simp add: has_data_step_def)
    have "fold staged_effect ?before r = fold edit_record (mg_before m) r" by (simp add: edit_writes_def edits_effect)
    then show ?thesis
      using migrateSteps_plain[OF assms(2) None assms(3)] r evolved_parts[OF assms(1,2), of table] for_ready
        ready_effect[of "mg_after m" "fold edit_record (mg_before m) r" v table]
      by (simp add: edit_writes_def)
  next
    case (Some data)
    have hd: "has_data_step v" using assms(2) Some by (simp add: has_data_step_def)
    note ready = ready_migrating[OF assms(1,2) Some, of table]
    define first where "first = (if start = Begin then [?before @ [recordOf (step_def data) (vc_def v) Migrating table]] else [])"
    have first: "list_all (list_all (staged_for table)) first \<and> fold staged_effect (concat first) r = migrating_record v table"
      using assms(5) hd begin_effect[OF assms(2) Some, of table]
      by (cases start) (simp_all add: first_def edit_writes_def record_effect)
    from migrateSteps_parts[OF assms(2) Some assms(3)] obtain rest where rest: "commits = first @ rest"
      "(\<exists>S w es. data = UpdateStep S w es \<and> rest = [updateStep S w es (td_version (vc_def v)) table # ?ready]) \<or>
       (\<exists>S patch cs. data = RowsStep S patch \<and> rest = map snd cs \<and>
          rowsStep code S patch (td_version (vc_def v)) table ?ready None pages = Inr cs)"
      unfolding first_def by blast
    from rest(2) show ?thesis
    proof (elim disjE exE conjE)
      fix S w es
      assume "rest = [updateStep S w es (td_version (vc_def v)) table # ?ready]"
      then show ?thesis using rest(1) first for_ready ready by (simp add: update_step_effect)
    next
      fix S patch cs
      assume cs: "data = RowsStep S patch" "rest = map snd cs" "rowsStep code S patch (td_version (vc_def v)) table ?ready None pages = Inr cs"
      have "\<exists>page\<in>set pages. length page \<le> MIGRATION_CHUNK" using assms(2,4) Some cs(1) by (simp add: finished_def)
      then show ?thesis using cs rest(1) first rowsStep_effect[OF cs(3) for_ready, of "migrating_record v table"] ready by simp
    qed
  qed
qed

text \<open>Abandoned after any of the commits, what is recorded is the previous version, or this one, perhaps migrating.\<close>

lemma migrateSteps_prefix:
  assumes "declared digest v" and "vc_evolution v = Some (p, m)" and "migrateSteps code v start table pages = Inr commits"
    and "r = (if start = Resume \<and> has_data_step v then migrating_record v table else created_record (vc_def p) table)"
  shows "fold staged_effect (concat (take n commits)) r \<in>
    {r, created_record (vc_def v) table} \<union> (if has_data_step v then {migrating_record v table} else {})"
proof (cases "mg_step m")
  case None
  have "finished v pages" using assms(2) None by (simp add: finished_def)
  from migrateSteps_effect[OF assms(1-3) this assms(4)] show ?thesis
    using migrateSteps_plain[OF assms(2) None assms(3)] by (cases n) auto
next
  case (Some data)
  let ?ready = "edit_writes v table (mg_after m) @ [recordOf (vc_def v) (vc_def v) Ready table]"
  let ?opening = "edit_writes v table (mg_before m) @ [recordOf (step_def data) (vc_def v) Migrating table]"
  have for_ready: "list_all (staged_for table) ?ready" by (simp add: edit_writes_def record_effect)
  have hd: "has_data_step v" using assms(2) Some by (simp add: has_data_step_def)
  from migrateSteps_parts[OF assms(2) Some assms(3)] obtain rest where rest: "commits = (if start = Begin then [?opening] else []) @ rest"
    "(\<exists>S w es. data = UpdateStep S w es \<and> rest = [updateStep S w es (td_version (vc_def v)) table # ?ready]) \<or>
     (\<exists>S patch cs. data = RowsStep S patch \<and> rest = map snd cs \<and>
        rowsStep code S patch (td_version (vc_def v)) table ?ready None pages = Inr cs)"
    by blast
  have tail: "fold staged_effect (concat (take k rest)) (migrating_record v table) \<in> {migrating_record v table, created_record (vc_def v) table}" for k
    using rest(2)
  proof (elim disjE exE conjE)
    fix S w es
    assume "rest = [updateStep S w es (td_version (vc_def v)) table # ?ready]"
    then show ?thesis using ready_migrating[OF assms(1,2) Some, of table] by (cases k) (simp_all add: update_step_effect)
  next
    fix S patch cs
    assume "rest = map snd cs" and cs: "rowsStep code S patch (td_version (vc_def v)) table ?ready None pages = Inr cs"
    then show ?thesis
      using rowsStep_prefix[OF cs for_ready, of k "migrating_record v table"] ready_migrating[OF assms(1,2) Some, of table] by simp
  qed
  show ?thesis
  proof (cases "start = Begin \<and> n \<noteq> 0")
    case True
    then obtain k where k: "n = Suc k" by (cases n) auto
    have "r = created_record (vc_def p) table" using True assms(4) by simp
    then show ?thesis using True k rest(1) tail[of k] hd begin_effect[OF assms(2) Some, of table] by auto
  next
    case False
    show ?thesis
    proof (cases start)
      case Begin
      then show ?thesis using False by simp
    next
      case Resume
      then show ?thesis using rest(1) tail[of n] hd assms(4) by auto
    qed
  qed
qed

subsection \<open>Histories\<close>

lemma history_evolved: "vc_evolution v = Some (p, m) \<Longrightarrow> historyOf v = historyOf p @ [v]"
  by (cases v) auto

lemma history_last: "\<exists>vs. historyOf v = vs @ [v]"
  by (cases v rule: historyOf.cases) auto

lemma declared_history:
  "declared digest v \<Longrightarrow> sorted_wrt (<) (map chain_version (historyOf v)) \<and> (\<forall>w\<in>set (historyOf v). chain_version w \<le> chain_version v)"
proof (induction rule: declared.induct)
  case (evolved p calls v)
  obtain m where m: "vc_evolution v = Some (p, m)" using evolved(2) by (auto elim: evolveTable_parts)
  have "declared digest v" by (rule declared.evolved[OF evolved(1,2)])
  then have n: "chain_version v = chain_version p + 1" using evolved_parts[OF _ m] by (simp add: chain_version_def)
  have "historyOf v = historyOf p @ [v]" by (rule history_evolved[OF m])
  then show ?case using evolved.IH n by (auto simp: sorted_wrt_append)
qed simp

lemma find_version:
  "sorted_wrt (<) (map chain_version vs) \<Longrightarrow> v \<in> set vs \<Longrightarrow> List.find (\<lambda>w. chain_version w = chain_version v) vs = Some v"
  by (induction vs) auto

lemma migrateTable_append:
  "migrateTable code table pages (vs @ [v]) Begin =
   andThen (migrateTable code table pages vs Begin) (\<lambda>a. andThen (migrateSteps code v Begin table (pages v)) (\<lambda>b. Inr (a @ b)))"
  by (induction vs) (auto simp: andThen_def split: sum.splits)

lemma migrateTable_effect:
  assumes "declared digest newest" and "a \<in> set (historyOf newest)" and "\<forall>v. finished v (pages v)"
    and "migrateTable code table pages (filter (\<lambda>v. chain_version v > chain_version a) (historyOf newest)) Begin = Inr commits"
  shows "list_all (list_all (staged_for table)) commits \<and>
    fold staged_effect (concat commits) (created_record (vc_def a) table) = created_record (vc_def newest) table"
  using assms(1,2,4)
proof (induction arbitrary: commits rule: declared.induct)
  case (base name version columns key indexes T)
  then show ?case by simp
next
  case (evolved p calls v)
  obtain m where m: "vc_evolution v = Some (p, m)" using evolved(2) by (auto elim: evolveTable_parts)
  have d: "declared digest v" by (rule declared.evolved[OF evolved(1,2)])
  have n: "chain_version v = chain_version p + 1" using evolved_parts[OF d m] by (simp add: chain_version_def)
  have h: "historyOf v = historyOf p @ [v]" by (rule history_evolved[OF m])
  note hp = declared_history[OF evolved(1)]
  show ?case
  proof (cases "a = v")
    case True
    then have "filter (\<lambda>w. chain_version w > chain_version a) (historyOf v) = []"
      using hp n h by (auto simp: filter_empty_conv)
    then show ?thesis using evolved.prems(2) True by simp
  next
    case False
    then have a: "a \<in> set (historyOf p)" using evolved.prems(1) h by simp
    have le: "chain_version a < chain_version v" using hp a n by fastforce
    obtain xs ys where c: "migrateTable code table pages (filter (\<lambda>w. chain_version w > chain_version a) (historyOf p)) Begin = Inr xs"
      "migrateSteps code v Begin table (pages v) = Inr ys" "commits = xs @ ys"
      using evolved.prems(2) h le by (auto simp: migrateTable_append andThen_eq_Inr)
    note IH = evolved.IH[OF a c(1)]
    note step = migrateSteps_effect[OF d m c(2) _ refl]
    show ?thesis using IH step assms(3) c(3) by simp
  qed
qed

text \<open>What the store records of the version \<open>a\<close>: the table ready, or its data step still to be resumed.\<close>

definition recorded_at :: "version_chain \<Rightarrow> string \<Rightarrow> table_record \<Rightarrow> bool" where
  "recorded_at a table r = (r = created_record (vc_def a) table \<or> (has_data_step a \<and> r = migrating_record a table))"

lemma history_declared: "declared digest v \<Longrightarrow> a \<in> set (historyOf v) \<Longrightarrow> declared digest a"
proof (induction rule: declared.induct)
  case (evolved p calls v)
  obtain m where m: "vc_evolution v = Some (p, m)" using evolved(2) by (auto elim: evolveTable_parts)
  have h: "historyOf v = historyOf p @ [v]" by (rule history_evolved[OF m])
  then show ?case using evolved declared.evolved[OF evolved(1,2)] by auto
qed (auto intro: declared.base)

lemma recorded_fields:
  "recorded_at a table r \<Longrightarrow> tr_version r = chain_version a \<and> tr_fingerprint r = td_fingerprint (vc_def a) \<and>
   (tr_state r = Migrating \<longleftrightarrow> has_data_step a \<and> r = migrating_record a table)"
  by (auto simp: recorded_at_def created_record_def migrating_record_def has_data_step_def chain_version_def split: option.splits)

lemma filter_from:
  "sorted_wrt (<) (map chain_version vs) \<Longrightarrow> a \<in> set vs \<Longrightarrow>
   filter (\<lambda>v. chain_version v \<ge> chain_version a) vs = a # filter (\<lambda>v. chain_version v > chain_version a) vs"
proof (induction vs)
  case (Cons v vs)
  show ?case
  proof (cases "v = a")
    case True
    then have "\<forall>w\<in>set vs. chain_version w > chain_version a" using Cons.prems by simp
    then have "filter (\<lambda>w. chain_version w \<ge> chain_version a) vs = vs" "filter (\<lambda>w. chain_version w > chain_version a) vs = vs"
      by (fastforce simp: filter_id_conv)+
    then show ?thesis using True by simp
  next
    case False
    then have "chain_version v < chain_version a" using Cons.prems by auto
    then have "\<not> chain_version a \<le> chain_version v" "\<not> chain_version a < chain_version v" by simp_all
    then show ?thesis using Cons False by simp
  qed
qed simp

lemma activation_plan:
  assumes "declared digest newest" and "a \<in> set (historyOf newest)" and "recorded_at a table r"
    and "\<forall>v. finished v (pages v)" and "map_of catalog table = Some r"
  shows "(planTable newest (Some r) = Inr PlanReady \<and> r = created_record (vc_def newest) table) \<or>
    (\<exists>vs first. planTable newest (Some r) = Inr (PlanMigrate vs first) \<and>
      (\<forall>commits. migrateTable code table pages vs first = Inr commits \<longrightarrow>
        (\<exists>catalog'. run_steps (commit_writes changed) catalog commits = Inr catalog' \<and>
          map_of catalog' table = Some (created_record (vc_def newest) table))))"
proof -
  note h = declared_history[OF assms(1)]
  note f = recorded_fields[OF assms(3)]
  have newest: "newest \<in> set (historyOf newest)" using history_last[of newest] by auto
  have le: "chain_version a \<le> chain_version newest" using h assms(2) by blast
  have find: "List.find (\<lambda>v. chain_version v = tr_version r) (historyOf newest) = Some a"
    using find_version[of "historyOf newest" a] h assms(2) f by simp
  have reach: "\<exists>catalog'. run_steps (commit_writes changed) catalog commits = Inr catalog' \<and>
      map_of catalog' table = Some (created_record (vc_def newest) table)"
    if "list_all (list_all (staged_for table)) commits" "fold staged_effect (concat commits) r = created_record (vc_def newest) table"
    for commits
    using commits_record[OF that(1) assms(5)] that(2) by simp
  show ?thesis
  proof (cases "tr_state r = Migrating")
    case True
    then have hd: "has_data_step a" and r: "r = migrating_record a table" using f by auto
    let ?vs = "filter (\<lambda>v. chain_version v \<ge> tr_version r) (historyOf newest)"
    have vs: "?vs = a # filter (\<lambda>v. chain_version v > chain_version a) (historyOf newest)"
      using filter_from[of "historyOf newest" a] h assms(2) f by simp
    have plan: "planTable newest (Some r) = Inr (PlanMigrate ?vs Resume)"
      using True hd f find le by (simp add: planTable_def Let_def)
    obtain p m where m: "vc_evolution a = Some (p, m)" using hd by (auto simp: has_data_step_def split: option.splits)
    have "\<exists>catalog'. run_steps (commit_writes changed) catalog commits = Inr catalog' \<and>
        map_of catalog' table = Some (created_record (vc_def newest) table)"
      if c: "migrateTable code table pages ?vs Resume = Inr commits" for commits
    proof -
      obtain xs ys where xy: "migrateSteps code a Resume table (pages a) = Inr xs"
        "migrateTable code table pages (filter (\<lambda>v. chain_version v > chain_version a) (historyOf newest)) Begin = Inr ys"
        "commits = xs @ ys"
        using c unfolding vs by (auto simp: andThen_eq_Inr)
      have x: "list_all (list_all (staged_for table)) xs \<and> fold staged_effect (concat xs) r = created_record (vc_def a) table"
        by (rule migrateSteps_effect[OF history_declared[OF assms(1,2)] m xy(1)]) (use assms(4) hd r in simp_all)
      show ?thesis using reach[of commits] x migrateTable_effect[OF assms(1,2,4) xy(2)] xy(3) by simp
    qed
    then show ?thesis using plan by blast
  next
    case False
    then have r: "r = created_record (vc_def a) table" using f assms(3) unfolding recorded_at_def by blast
    have st: "tr_state r = Ready" using False by (cases "tr_state r") simp_all
    show ?thesis
    proof (cases "chain_version a = chain_version newest")
      case True
      have v: "tr_version r = chain_version newest" using f True by simp
      have "List.find (\<lambda>v. chain_version v = tr_version r) (historyOf newest) = Some newest"
        unfolding v by (rule find_version[OF conjunct1[OF h] newest])
      then have "a = newest" using find by simp
      then show ?thesis using v st f find r by (simp add: planTable_def Let_def)
    next
      case ne: False
      let ?vs = "filter (\<lambda>v. chain_version v > tr_version r) (historyOf newest)"
      have plan: "planTable newest (Some r) = Inr (PlanMigrate ?vs Begin)"
        using st ne f find le by (simp add: planTable_def Let_def)
      have "\<exists>catalog'. run_steps (commit_writes changed) catalog commits = Inr catalog' \<and>
          map_of catalog' table = Some (created_record (vc_def newest) table)"
        if c: "migrateTable code table pages ?vs Begin = Inr commits" for commits
      proof -
        have "tr_version r = chain_version a" using f by simp
        then show ?thesis using reach[of commits] migrateTable_effect[OF assms(1,2,4), of code table commits] c r by simp
      qed
      then show ?thesis using plan by blast
    qed
  qed
qed

text \<open>A table the store does not have is recorded as its definition when it is created.\<close>

lemma fold_new_indexes:
  "distinct (map fst (acc @ ix)) \<Longrightarrow> fold (\<lambda>(n, cs). AList.update n cs) ix acc = acc @ ix"
  by (induction ix arbitrary: acc) (auto simp: update_new image_iff)

lemma indexes_frame:
  "fold staged_effect (map (\<lambda>(n, cs). StagedIndex table n cs) ix) r = r\<lparr>tr_indexes := fold (\<lambda>(n, cs). AList.update n cs) ix (tr_indexes r)\<rparr>"
  by (induction ix arbitrary: r) (auto simp: edit_record_def)

lemma creation_record:
  assumes "map_of catalog table = None" and "distinct (map fst (td_indexes T))"
  shows "\<exists>catalog'. commit_writes changed catalog (creation T table) = Inr catalog' \<and>
    map_of catalog' table = Some (created_record T table)"
proof -
  let ?s = "\<lparr>sp_tables = [], sp_catalog = catalog, sp_log = [], sp_rows = 0\<rparr>"
  let ?w = "\<lparr>tw_table = table, tw_version = td_version T, tw_state = Ready, tw_columns = td_record T,
      tw_key = td_key T, tw_fingerprint = td_fingerprint T\<rparr>"
  let ?ix = "map (\<lambda>(name, columns). StagedIndex table name columns) (td_indexes T)"
  have c: "creation T table = StagedTable ?w # ?ix" by (simp add: creation_def recordOf_def)
  have none: "step_table ?s table = None" using assms(1) by (simp add: step_table_def)
  have first: "step_table (applyTable ?w ?s) table = Some (write_record ?w [])"
    by (simp add: applyTable_def none write_record_def Let_def)
  have for_ix: "list_all (staged_for table) ?ix" by (auto simp: list_all_iff)
  obtain s' where s': "apply_all changed (applyTable ?w ?s) ?ix = Inr s'"
    "step_table s' table = Some (fold staged_effect ?ix (write_record ?w []))"
    using apply_all_record[OF for_ix first] by blast
  have all: "apply_all changed ?s (creation T table) = Inr s'"
    using s'(1) unfolding c by (simp add: apply_all_def apply_staged_def)
  have "step_ok catalog s'" by (rule apply_all_ok[OF all]) (simp add: step_ok_def)
  then have "distinct (map fst (sp_tables s'))" by (simp add: step_ok_def)
  then have "map_of (fold (\<lambda>(k, r). AList.update k r) (sp_tables s') (sp_catalog s')) table = step_table s' table"
    by (simp add: map_of_updates step_table_def)
  moreover have "fold staged_effect ?ix (write_record ?w []) = created_record T table"
    using assms(2) fold_new_indexes[of "[]" "td_indexes T"] by (simp add: indexes_frame write_record_def created_record_def)
  ultimately show ?thesis using all s'(2) by (simp add: commit_writes_def)
qed

subsection \<open>The commits of an activation exist\<close>

text \<open>The plugin's patch of a \<open>rows\<close> step gives a write for each row that its reads return.\<close>

definition patches_apply :: "json_code \<Rightarrow> string \<Rightarrow> version_chain \<Rightarrow> stored_row list list \<Rightarrow> bool" where
  "patches_apply code table v pages = (case vc_evolution v of
      Some (p, m) \<Rightarrow> (case mg_step m of
          Some (RowsStep S patch) \<Rightarrow>
            list_all (list_all (\<lambda>stored. \<not> isl (patchRow code S patch (td_version (vc_def v)) table stored))) pages
        | _ \<Rightarrow> True)
    | None \<Rightarrow> True)"

lemma traverse_total: "list_all (\<lambda>x. \<not> isl (f x)) xs \<Longrightarrow> \<exists>ys. traverse f xs = Inr ys"
proof (induction xs)
  case (Cons x xs)
  then obtain ys where "traverse f xs = Inr ys" by auto
  moreover obtain y where "f x = Inr y" using Cons.prems by (cases "f x") auto
  ultimately show ?case by simp
qed simp

lemma rowsStep_total:
  "list_all (list_all (\<lambda>stored. \<not> isl (patchRow code T patch v table stored))) pages \<Longrightarrow>
   \<exists>commits. rowsStep code T patch v table ready continue pages = Inr commits"
proof (induction pages arbitrary: continue)
  case (Cons stored pages)
  have "list_all (\<lambda>stored. \<not> isl (patchRow code T patch v table stored)) (take MIGRATION_CHUNK stored)"
    using Cons.prems by (auto simp: list_all_iff dest: in_set_takeD)
  then obtain ws where ws: "traverse (patchRow code T patch v table) (take MIGRATION_CHUNK stored) = Inr ws"
    using traverse_total by blast
  obtain cs where "rowsStep code T patch v table ready
      (Some (map (sql_field (last (take MIGRATION_CHUNK stored))) (td_key T))) pages = Inr cs"
    using Cons by fastforce
  then show ?case using ws by (simp add: Let_def)
qed simp

lemma migrateSteps_total:
  assumes "vc_evolution v \<noteq> None" and "patches_apply code table v pages"
  shows "\<exists>commits. migrateSteps code v start table pages = Inr commits"
proof -
  obtain p m where m: "vc_evolution v = Some (p, m)" using assms(1) by auto
  show ?thesis
  proof (cases "mg_step m")
    case None
    then show ?thesis using m by (simp add: migrateSteps_def Let_def)
  next
    case (Some data)
    show ?thesis
    proof (cases data)
      case (RowsStep S patch)
      have "list_all (list_all (\<lambda>stored. \<not> isl (patchRow code S patch (td_version (vc_def v)) table stored))) pages"
        using assms(2) m Some RowsStep by (simp add: patches_apply_def)
      from rowsStep_total[OF this] obtain cs where
        "rowsStep code S patch (td_version (vc_def v)) table
          (map (stageEdit table (td_version (vc_def v))) (mg_after m) @ [recordOf (vc_def v) (vc_def v) Ready table]) None pages = Inr cs"
        by blast
      then show ?thesis using m Some RowsStep by (simp add: migrateSteps_def Let_def)
    next
      case (UpdateStep S w es)
      then show ?thesis using m Some by (simp add: migrateSteps_def Let_def)
    qed
  qed
qed

lemma migrateTable_total:
  "\<forall>v\<in>set vs. vc_evolution v \<noteq> None \<and> patches_apply code table v (pages v) \<Longrightarrow>
   \<exists>commits. migrateTable code table pages vs first = Inr commits"
proof (induction vs arbitrary: first)
  case (Cons v vs)
  obtain xs where "migrateSteps code v first table (pages v) = Inr xs"
    using migrateSteps_total[of v code table "pages v" first] Cons.prems by auto
  moreover obtain ys where "migrateTable code table pages vs Begin = Inr ys" using Cons by auto
  ultimately show ?case by simp
qed simp

lemma later_evolved:
  "declared digest v \<Longrightarrow> a \<in> set (historyOf v) \<Longrightarrow> w \<in> set (historyOf v) \<Longrightarrow> chain_version a < chain_version w \<Longrightarrow>
   vc_evolution w \<noteq> None"
proof (induction rule: declared.induct)
  case (evolved p calls v)
  obtain m where m: "vc_evolution v = Some (p, m)" using evolved(2) by (auto elim: evolveTable_parts)
  have h: "historyOf v = historyOf p @ [v]" by (rule history_evolved[OF m])
  have "chain_version w' \<le> chain_version v" if "w' \<in> set (historyOf v)" for w'
    using declared_history[OF declared.evolved[OF evolved(1,2)]] that by blast
  then show ?case using evolved m h by fastforce
qed simp

lemma plan_evolved:
  assumes "declared digest newest" and "a \<in> set (historyOf newest)" and "recorded_at a table r"
    and "planTable newest (Some r) = Inr (PlanMigrate vs first)" and "w \<in> set vs"
  shows "vc_evolution w \<noteq> None"
proof -
  note f = recorded_fields[OF assms(3)]
  have find: "List.find (\<lambda>v. chain_version v = tr_version r) (historyOf newest) = Some a"
    using find_version[of "historyOf newest" a] declared_history[OF assms(1)] assms(2) f by simp
  have w: "w \<in> set (historyOf newest)" "chain_version w = chain_version a \<and> has_data_step a \<or> chain_version a < chain_version w"
    using assms(4,5) find f by (auto simp: planTable_def Let_def split: if_splits)
  show ?thesis
  proof (cases "chain_version a < chain_version w")
    case True
    then show ?thesis using later_evolved[OF assms(1,2) w(1)] by simp
  next
    case False
    then have eq: "chain_version w = chain_version a" "has_data_step a" using w(2) by auto
    have "List.find (\<lambda>v. chain_version v = chain_version w) (historyOf newest) = Some w"
      using find_version[of "historyOf newest" w] declared_history[OF assms(1)] w(1) by simp
    then have "w = a" using find f eq(1) by simp
    then show ?thesis using eq(2) by (auto simp: has_data_step_def split: option.splits)
  qed
qed

subsection \<open>An abandoned activation\<close>

lemma history_refl: "v \<in> set (historyOf v)"
  using history_last[of v] by auto

lemma migrateTable_prefix:
  assumes "declared digest newest" and "a \<in> set (historyOf newest)" and "\<forall>v. finished v (pages v)"
    and "migrateTable code table pages (filter (\<lambda>v. chain_version v > chain_version a) (historyOf newest)) Begin = Inr commits"
  shows "\<exists>b\<in>set (historyOf newest). recorded_at b table (fold staged_effect (concat (take n commits)) (created_record (vc_def a) table))"
  using assms(1,2,4)
proof (induction arbitrary: commits rule: declared.induct)
  case (base name version columns key indexes T)
  then show ?case by (simp add: recorded_at_def)
next
  case (evolved p calls v)
  obtain m where m: "vc_evolution v = Some (p, m)" using evolved(2) by (auto elim: evolveTable_parts)
  have d: "declared digest v" by (rule declared.evolved[OF evolved(1,2)])
  have v: "chain_version v = chain_version p + 1" using evolved_parts[OF d m] by (simp add: chain_version_def)
  have h: "historyOf v = historyOf p @ [v]" by (rule history_evolved[OF m])
  note hp = declared_history[OF evolved(1)]
  show ?case
  proof (cases "a = v")
    case True
    then have "filter (\<lambda>w. chain_version w > chain_version a) (historyOf v) = []"
      using hp v h by (auto simp: filter_empty_conv)
    then show ?thesis using evolved.prems(2) True h by (auto simp: recorded_at_def)
  next
    case False
    then have a: "a \<in> set (historyOf p)" using evolved.prems(1) h by simp
    have le: "chain_version a < chain_version v" using hp a v by fastforce
    obtain xs ys where c: "migrateTable code table pages (filter (\<lambda>w. chain_version w > chain_version a) (historyOf p)) Begin = Inr xs"
      "migrateSteps code v Begin table (pages v) = Inr ys" "commits = xs @ ys"
      using evolved.prems(2) h le by (auto simp: migrateTable_append andThen_eq_Inr)
    show ?thesis
    proof (cases "n \<le> length xs")
      case True
      then show ?thesis using evolved.IH[OF a c(1)] c(3) h by auto
    next
      case False
      have "fold staged_effect (concat xs) (created_record (vc_def a) table) = created_record (vc_def p) table"
        using migrateTable_effect[OF evolved(1) a assms(3) c(1)] by simp
      then have "fold staged_effect (concat (take n commits)) (created_record (vc_def a) table) =
          fold staged_effect (concat (take (n - length xs) ys)) (created_record (vc_def p) table)"
        using c(3) False by simp
      moreover have "\<dots> \<in> {created_record (vc_def p) table, created_record (vc_def v) table} \<union>
          (if has_data_step v then {migrating_record v table} else {})"
        using migrateSteps_prefix[OF d m c(2) refl, of "n - length xs"] by simp
      ultimately show ?thesis
        using h history_refl[of p] by (auto simp: recorded_at_def split: if_splits)
    qed
  qed
qed

text \<open>The versions of a plan, and the point it starts from.\<close>

lemma plan_versions:
  assumes "declared digest newest" and "a \<in> set (historyOf newest)" and "recorded_at a table r"
    and "planTable newest (Some r) = Inr (PlanMigrate vs first)"
  defines "later \<equiv> filter (\<lambda>v. chain_version v > chain_version a) (historyOf newest)"
  shows "(first = Begin \<and> vs = later \<and> r = created_record (vc_def a) table) \<or>
    (first = Resume \<and> vs = a # later \<and> has_data_step a \<and> r = migrating_record a table)"
proof -
  note h = declared_history[OF assms(1)]
  note f = recorded_fields[OF assms(3)]
  have find: "List.find (\<lambda>v. chain_version v = tr_version r) (historyOf newest) = Some a"
    using find_version[of "historyOf newest" a] h assms(2) f by simp
  show ?thesis
  proof (cases "tr_state r = Migrating")
    case True
    then have hd: "has_data_step a" and r: "r = migrating_record a table" using f by auto
    then show ?thesis using assms(4) find f True filter_from[of "historyOf newest" a] h assms(2)
      by (auto simp: planTable_def Let_def later_def split: if_splits)
  next
    case False
    then have "r = created_record (vc_def a) table" using f assms(3) unfolding recorded_at_def by blast
    then show ?thesis using assms(4) find f False by (auto simp: planTable_def Let_def later_def split: if_splits)
  qed
qed

lemma commits_prefix:
  assumes "declared digest newest" and "a \<in> set (historyOf newest)" and "recorded_at a table r" and "\<forall>v. finished v (pages v)"
    and "planTable newest (Some r) = Inr (PlanMigrate vs first)" and "migrateTable code table pages vs first = Inr commits"
  shows "list_all (list_all (staged_for table)) commits \<and>
    (\<exists>b\<in>set (historyOf newest). recorded_at b table (fold staged_effect (concat (take n commits)) r))"
  using plan_versions[OF assms(1-3,5)]
proof (elim disjE conjE)
  let ?later = "filter (\<lambda>v. chain_version v > chain_version a) (historyOf newest)"
  assume p: "first = Begin" "vs = ?later" "r = created_record (vc_def a) table"
  have c: "migrateTable code table pages ?later Begin = Inr commits" using assms(6) p by simp
  show ?thesis using migrateTable_effect[OF assms(1,2,4) c] migrateTable_prefix[OF assms(1,2,4) c] p(3) by simp
next
  let ?later = "filter (\<lambda>v. chain_version v > chain_version a) (historyOf newest)"
  assume p: "first = Resume" "vs = a # ?later" "has_data_step a" "r = migrating_record a table"
  obtain xs ys where c: "migrateSteps code a Resume table (pages a) = Inr xs"
    "migrateTable code table pages ?later Begin = Inr ys" "commits = xs @ ys"
    using assms(6) p by (auto simp: andThen_eq_Inr)
  obtain p' m where m: "vc_evolution a = Some (p', m)" using p(3) by (auto simp: has_data_step_def split: option.splits)
  have d: "declared digest a" by (rule history_declared[OF assms(1,2)])
  have r: "r = (if Resume = Resume \<and> has_data_step a then migrating_record a table else created_record (vc_def p') table)" using p by simp
  note x = migrateSteps_effect[OF d m c(1) _ r] and xp = migrateSteps_prefix[OF d m c(1) r, of n]
  note y = migrateTable_effect[OF assms(1,2,4) c(2)]
  show ?thesis
  proof (cases "n \<le> length xs")
    case True
    then have "recorded_at a table (fold staged_effect (concat (take n commits)) r)"
      using xp c(3) p(3,4) by (auto simp: recorded_at_def)
    then show ?thesis using x y c(3) assms(2,4) by auto
  next
    case False
    then show ?thesis using x y migrateTable_prefix[OF assms(1,2,4) c(2), of "n - length xs"] c(3) assms(4) by auto
  qed
qed

subsection \<open>The reads of a \<open>rows\<close> step\<close>

text \<open>
  The loop of \<open>rowsStep\<close> over a reader: the pages it asks for, each after the last patched row of the one
  before. \<open>None\<close>: the loop has not ended within the fuel.
\<close>

definition cursor_key :: "string list \<Rightarrow> stored_row \<Rightarrow> sql_value list" where
  "cursor_key key stored = map (sql_field stored) key"

fun read_pages :: "(sql_value list option \<Rightarrow> stored_row list) \<Rightarrow> string list \<Rightarrow> nat \<Rightarrow> sql_value list option \<Rightarrow> stored_row list list option" where
  "read_pages read key 0 continue = None"
| "read_pages read key (Suc fuel) continue =
     (let stored = read continue in
      if length stored \<le> MIGRATION_CHUNK then Some [stored]
      else map_option ((#) stored) (read_pages read key fuel (Some (cursor_key key (last (take MIGRATION_CHUNK stored))))))"

text \<open>What a \<open>SELECT\<close> with the step's order, bound and limit gives of the rows below the version.\<close>

definition selects :: "(sql_value list \<Rightarrow> sql_value list \<Rightarrow> bool) \<Rightarrow> string list \<Rightarrow> stored_row list \<Rightarrow> (sql_value list option \<Rightarrow> stored_row list) \<Rightarrow> bool" where
  "selects after key rows read \<longleftrightarrow> (\<forall>continue. read continue = take (MIGRATION_CHUNK + 1)
     (filter (\<lambda>r. case continue of None \<Rightarrow> True | Some k \<Rightarrow> after k (cursor_key key r)) rows))"

lemma after_last:
  assumes "sorted_wrt after (map k (xs @ ys))" and "xs \<noteq> []" and "transp after" and "irreflp after"
  shows "filter (\<lambda>r. after (k (last xs)) (k r)) (xs @ ys) = ys"
proof -
  obtain zs z where xs: "xs = zs @ [z]" using assms(2) by (cases xs rule: rev_cases) auto
  have "\<not> after (k z) (k r)" if "r \<in> set xs" for r
    using that xs assms by (auto simp: sorted_wrt_append dest: transpD irreflpD)
  then have "filter (\<lambda>r. after (k (last xs)) (k r)) xs = []" using xs by (auto simp: filter_empty_conv)
  moreover have "filter (\<lambda>r. after (k (last xs)) (k r)) ys = ys"
    using assms(1) xs by (auto simp: sorted_wrt_append filter_id_conv)
  ultimately show ?thesis by simp
qed

lemma traverse_append:
  "traverse f (xs @ ys) = andThen (traverse f xs) (\<lambda>as. andThen (traverse f ys) (\<lambda>bs. Inr (as @ bs)))"
  by (induction xs) (auto simp: andThen_assoc)

lemma read_pages_step:
  assumes "selects after key (before @ rows) read" and "sorted_wrt after (map (cursor_key key) (before @ rows))"
    and "transp after" and "irreflp after" and "length rows \<le> MIGRATION_CHUNK * fuel" and "0 < fuel"
    and "continue = (if before = [] then None else Some (cursor_key key (last before)))"
  shows "\<exists>pages. read_pages read key fuel continue = Some pages \<and> length pages = (length rows - 1) div MIGRATION_CHUNK + 1 \<and>
    andThen (rowsStep code T patch v table ready c pages) (\<lambda>commits. Inr (concat (map snd commits))) =
      andThen (traverse (patchRow code T patch v table) rows) (\<lambda>writes. Inr (writes @ ready))"
  using assms
proof (induction fuel arbitrary: before rows continue c)
  case (Suc fuel)
  have read: "read continue = take (MIGRATION_CHUNK + 1) rows"
  proof (cases "before = []")
    case True
    then show ?thesis using Suc.prems(1,7) by (simp add: selects_def)
  next
    case False
    have "filter (\<lambda>r. after (cursor_key key (last before)) (cursor_key key r)) (before @ rows) = rows"
      by (rule after_last[OF Suc.prems(2) False Suc.prems(3,4)])
    then show ?thesis using Suc.prems(1,7) False unfolding selects_def by (simp del: filter_append)
  qed
  show ?case
  proof (cases "length rows \<le> MIGRATION_CHUNK")
    case True
    have zero: "(length rows - 1) div MIGRATION_CHUNK = 0" using True by (simp add: MIGRATION_CHUNK_def)
    have r: "read continue = rows" using read True by simp
    have t: "take MIGRATION_CHUNK rows = rows" using True by simp
    show ?thesis using zero r t True by (simp add: Let_def andThen_assoc)
  next
    case False
    let ?chunk = "take MIGRATION_CHUNK rows" and ?rest = "drop MIGRATION_CHUNK rows"
    have ne: "?chunk \<noteq> []" using False by (auto simp: MIGRATION_CHUNK_def)
    have take: "take MIGRATION_CHUNK (read continue) = ?chunk" unfolding read by (simp add: min_def)
    have long: "\<not> length (read continue) \<le> MIGRATION_CHUNK" using False read by simp
    have fuel: "length ?rest \<le> MIGRATION_CHUNK * fuel" "0 < fuel"
      using Suc.prems(5) False by (auto simp: MIGRATION_CHUNK_def intro: gr0I)
    have all: "(before @ ?chunk) @ ?rest = before @ rows" by simp
    define c' where "c' = Some (map (sql_field (last ?chunk)) (td_key T))"
    have cont: "Some (cursor_key key (last ?chunk)) = (if before @ ?chunk = [] then None else Some (cursor_key key (last (before @ ?chunk))))"
      using ne by simp
    obtain pages where pages: "read_pages read key fuel (Some (cursor_key key (last ?chunk))) = Some pages"
      "length pages = (length ?rest - 1) div MIGRATION_CHUNK + 1"
      "andThen (rowsStep code T patch v table ready c' pages) (\<lambda>commits. Inr (concat (map snd commits))) =
        andThen (traverse (patchRow code T patch v table) ?rest) (\<lambda>writes. Inr (writes @ ready))"
      using Suc.IH[of "before @ ?chunk" ?rest "Some (cursor_key key (last ?chunk))" c'] Suc.prems(1-4) fuel cont all by metis
    have len: "(length rows - 1) div MIGRATION_CHUNK = (length ?rest - 1) div MIGRATION_CHUNK + 1"
    proof -
      obtain d where d: "length rows = MIGRATION_CHUNK + Suc d" using False less_iff_Suc_add[of MIGRATION_CHUNK "length rows"] by auto
      then show ?thesis by (simp add: MIGRATION_CHUNK_def)
    qed
    have step: "andThen (rowsStep code T patch v table ready c (read continue # pages)) (\<lambda>commits. Inr (concat (map snd commits))) =
        andThen (traverse (patchRow code T patch v table) ?chunk) (\<lambda>ws. andThen (rowsStep code T patch v table ready c' pages)
          (\<lambda>commits. Inr (ws @ concat (map snd commits))))"
      using take long unfolding c'_def by (simp add: Let_def andThen_assoc)
    also have "\<dots> = andThen (traverse (patchRow code T patch v table) ?chunk) (\<lambda>ws.
        andThen (andThen (rowsStep code T patch v table ready c' pages) (\<lambda>commits. Inr (concat (map snd commits)))) (\<lambda>w. Inr (ws @ w)))"
      by (simp add: andThen_assoc)
    also have "\<dots> = andThen (traverse (patchRow code T patch v table) (?chunk @ ?rest)) (\<lambda>writes. Inr (writes @ ready))"
      unfolding pages(3) traverse_append by (simp add: andThen_assoc)
    finally have "andThen (rowsStep code T patch v table ready c (read continue # pages)) (\<lambda>commits. Inr (concat (map snd commits))) =
        andThen (traverse (patchRow code T patch v table) rows) (\<lambda>writes. Inr (writes @ ready))" by simp
    moreover have "read_pages read key (Suc fuel) continue = Some (read continue # pages)"
      using pages(1) take long by (simp add: Let_def)
    ultimately show ?thesis using pages(2) len by auto
  qed
qed simp

subsection \<open>The properties\<close>

lemma plan_commits:
  assumes "declared digest newest" and "a \<in> set (historyOf newest)" and "recorded_at a table r"
    and "\<forall>v. patches_apply code table v (pages v)" and "planTable newest (Some r) = Inr (PlanMigrate vs first)"
  shows "\<exists>commits. migrateTable code table pages vs first = Inr commits"
  by (rule migrateTable_total) (use plan_evolved[OF assms(1-3,5)] assms(4) in blast)

text \<open>A store that was created at the first version of \<open>demo_next\<close>, whose newest version is the second.\<close>

lemma demo_history: "demo_base \<in> set (historyOf demo_next)"
proof -
  obtain m where "vc_evolution demo_next = Some (demo_base, m)"
    by (rule evolveTable_parts[OF demo_evolved]) (metis version_chain.sel(2))
  then have "historyOf demo_next = historyOf demo_base @ [demo_next]" by (rule history_evolved)
  then show ?thesis by (simp add: history_refl)
qed

lemma demo_recorded: "recorded_at demo_base ''t'' (created_record demo_table ''t'')"
  by (simp add: recorded_at_def demo_base_def)

lemma demo_reads: "finished v [[]]" "patches_apply code table v [[]]"
  by (auto simp: finished_def patches_apply_def split: option.split data_step.split)

lemma demo_not_newest: "created_record demo_table ''t'' \<noteq> created_record (vc_def demo_next) ''t''"
proof -
  have "td_version (vc_def demo_next) = 2" unfolding demo_next_def by code_simp
  then show ?thesis by (auto simp: created_record_def demo_table_def)
qed

lemma demo_plan:
  "\<exists>vs first commits. planTable demo_next (Some (created_record demo_table ''t'')) = Inr (PlanMigrate vs first) \<and>
    migrateTable code ''t'' (\<lambda>v. [[]]) vs first = Inr commits"
proof -
  have "map_of [(''t'', created_record demo_table ''t'')] ''t'' = Some (created_record demo_table ''t'')" by simp
  then obtain vs first where p: "planTable demo_next (Some (created_record demo_table ''t'')) = Inr (PlanMigrate vs first)"
    using activation_plan[OF demo_next_declared demo_history demo_recorded, of "\<lambda>v. [[]]"] demo_reads demo_not_newest by blast
  then show ?thesis
    using plan_commits[OF demo_next_declared demo_history demo_recorded _ p, of code "\<lambda>v. [[]]"] demo_reads by blast
qed

text \<open>
  C12. An activation brings a recorded table to the code's newest version, whichever version of the
  history the store holds, and whether it holds it ready or an earlier activation stopped in its data
  step: the table is ready as it is, or the plan's commits exist and apply one after another, and leave
  exactly the record that a store created at the newest version has.
\<close>

theorem activation_reaches_newest:
  assumes "declared digest newest" and "a \<in> set (historyOf newest)" and "recorded_at a table r"
    and "\<forall>v. finished v (pages v) \<and> patches_apply code table v (pages v)" and "map_of catalog table = Some r"
  shows "(planTable newest (Some r) = Inr PlanReady \<and> r = created_record (vc_def newest) table) \<or>
    (\<exists>vs first commits catalog'. planTable newest (Some r) = Inr (PlanMigrate vs first) \<and>
      migrateTable code table pages vs first = Inr commits \<and>
      run_steps (commit_writes changed) catalog commits = Inr catalog' \<and>
      map_of catalog' table = Some (created_record (vc_def newest) table))"
proof -
  have finished: "\<forall>v. finished v (pages v)" using assms(4) by blast
  have patches: "\<forall>v. patches_apply code table v (pages v)" using assms(4) by blast
  show ?thesis using activation_plan[OF assms(1-3) finished assms(5), of code changed] plan_commits[OF assms(1-3) patches] by blast
qed

theorem activation_reaches_newest_witness:
  "\<exists>vs first commits catalog'. planTable demo_next (Some (created_record demo_table ''t'')) = Inr (PlanMigrate vs first) \<and>
    migrateTable demo_code ''t'' (\<lambda>v. [[]]) vs first = Inr commits \<and>
    run_steps (commit_writes (\<lambda>_ _. 0)) [(''t'', created_record demo_table ''t'')] commits = Inr catalog' \<and>
    map_of catalog' ''t'' = Some (created_record (vc_def demo_next) ''t'')"
  using activation_reaches_newest[OF demo_next_declared demo_history demo_recorded, of "\<lambda>v. [[]]" demo_code
      "[(''t'', created_record demo_table ''t'')]" "\<lambda>_ _. 0"] demo_reads demo_not_newest
  by auto

text \<open>
  C13. An activation can stop after any of its commits: the record then is what the next activation
  starts from (\<open>recorded_at\<close>), a version of the history that is ready, or one whose data step is still to be
  resumed. By the property before this one, the next activation then reaches the newest version.
\<close>

theorem activation_resumes:
  assumes "declared digest newest" and "a \<in> set (historyOf newest)" and "recorded_at a table r"
    and "\<forall>v. finished v (pages v)" and "map_of catalog table = Some r"
    and "planTable newest (Some r) = Inr (PlanMigrate vs first)" and "migrateTable code table pages vs first = Inr commits"
  shows "\<exists>catalog' b r'. run_steps (commit_writes changed) catalog (take n commits) = Inr catalog' \<and>
    map_of catalog' table = Some r' \<and> b \<in> set (historyOf newest) \<and> recorded_at b table r'"
proof -
  note p = commits_prefix[OF assms(1-4,6,7), of n]
  have "list_all (list_all (staged_for table)) (take n commits)" using p by (auto simp: list_all_iff dest: in_set_takeD)
  from commits_record[OF this assms(5), of changed] show ?thesis using p by blast
qed

theorem activation_resumes_witness:
  "\<exists>vs first commits catalog' b r'. planTable demo_next (Some (created_record demo_table ''t'')) = Inr (PlanMigrate vs first) \<and>
    migrateTable demo_code ''t'' (\<lambda>v. [[]]) vs first = Inr commits \<and>
    run_steps (commit_writes (\<lambda>_ _. 0)) [(''t'', created_record demo_table ''t'')] (take 1 commits) = Inr catalog' \<and>
    map_of catalog' ''t'' = Some r' \<and> b \<in> set (historyOf demo_next) \<and> recorded_at b ''t'' r'"
proof -
  obtain vs first commits where p: "planTable demo_next (Some (created_record demo_table ''t'')) = Inr (PlanMigrate vs first)"
    "migrateTable demo_code ''t'' (\<lambda>v. [[]]) vs first = Inr commits"
    using demo_plan by blast
  then show ?thesis
    using activation_resumes[OF demo_next_declared demo_history demo_recorded _ _ p, of "[(''t'', created_record demo_table ''t'')]" "\<lambda>_ _. 0" 1]
      demo_reads by auto
qed

text \<open>
  C14. The \<open>rows\<close> step ends and patches every row once: over a table whose rows below the version have
  distinct keys, the loop asks for one page per hundred rows and stops, and the writes of its commits are
  the patches of all rows in key order, then the writes that make the version ready; it fails only where a
  patch of one of the rows does. A row that an earlier commit patched is not read again: its key is not
  after the page's last one.
\<close>

theorem rows_step_ends:
  assumes "selects after (td_key T) rows read" and "sorted_wrt after (map (cursor_key (td_key T)) rows)"
    and "transp after" and "irreflp after" and "fuel = length rows div MIGRATION_CHUNK + 1"
  shows "\<exists>pages. read_pages read (td_key T) fuel None = Some pages \<and> length pages = (length rows - 1) div MIGRATION_CHUNK + 1 \<and>
    andThen (rowsStep code T patch v table ready None pages) (\<lambda>commits. Inr (concat (map snd commits))) =
      andThen (traverse (patchRow code T patch v table) rows) (\<lambda>writes. Inr (writes @ ready))"
proof -
  have "length rows \<le> MIGRATION_CHUNK * fuel" "0 < fuel"
    using mod_less_divisor[of MIGRATION_CHUNK "length rows"] mult_div_mod_eq[of MIGRATION_CHUNK "length rows"]
    by (simp_all add: assms(5) MIGRATION_CHUNK_def)
  then show ?thesis using read_pages_step[of after "td_key T" "[]" rows read] assms(1-4) by simp
qed

text \<open>Two hundred and fifty rows whose keys are one code unit: three pages.\<close>

definition demo_patch :: "row \<Rightarrow> pval option" where
  "demo_patch row = Some (PObj [(''n'', PNum 8)])"

definition demo_after :: "sql_value list \<Rightarrow> sql_value list \<Rightarrow> bool" where
  "demo_after a b = (case (a, b) of ([SqlText [x]], [SqlText [y]]) \<Rightarrow> x < y | _ \<Rightarrow> False)"

definition demo_stored :: "stored_row list" where
  "demo_stored = map (\<lambda>i. [(''id'', SqlText [i]), (''n'', SqlNum 7), (''note'', SqlNull), (ROW_VERSION, SqlNum 1)]) [0..<250]"

definition demo_reader :: "sql_value list option \<Rightarrow> stored_row list" where
  "demo_reader continue = take (MIGRATION_CHUNK + 1)
     (filter (\<lambda>r. case continue of None \<Rightarrow> True | Some k \<Rightarrow> demo_after k (cursor_key [''id''] r)) demo_stored)"

theorem rows_step_ends_witness:
  "\<exists>pages. read_pages demo_reader [''id''] 3 None = Some pages \<and> length pages = 3 \<and>
    andThen (rowsStep demo_code demo_table demo_patch 2 ''t'' [] None pages) (\<lambda>commits. Inr (concat (map snd commits))) =
      andThen (traverse (patchRow demo_code demo_table demo_patch 2 ''t'') demo_stored) (\<lambda>writes. Inr (writes @ []))"
proof -
  have key: "td_key demo_table = [''id'']" by (simp add: demo_table_def)
  have read: "selects demo_after (td_key demo_table) demo_stored demo_reader" by (simp add: selects_def demo_reader_def key)
  have keys: "map (cursor_key [''id'']) demo_stored = map (\<lambda>i. [SqlText [i]]) [0..<250]"
    by (simp add: demo_stored_def cursor_key_def sql_field_def)
  have sorted: "sorted_wrt demo_after (map (cursor_key (td_key demo_table)) demo_stored)"
    unfolding key keys by (simp add: sorted_wrt_map demo_after_def sorted_wrt_upt)
  have order: "transp demo_after" "irreflp demo_after"
    by (auto simp: demo_after_def transp_def irreflp_def split: list.splits sql_value.splits)
  have len: "length demo_stored = 250" by (simp add: demo_stored_def)
  show ?thesis
    using rows_step_ends[OF read sorted order refl, of demo_code demo_patch 2 "''t''" "[]"]
    unfolding len by (simp add: key MIGRATION_CHUNK_def numeral_3_eq_3)
qed

end
