(* ===== verification/Store_Apply.thy ===== *)
theory Store_Apply
  imports Store_Writes
begin

text \<open>
  The applier of recorded table writes (\<open>packages/chord/src/store/applier.ts\<close>): a replica applies the writes
  an outbox gave it, each checked against its own records, a trust boundary. A write crosses as JSON whose
  shape \<open>archive.ts\<close> checks (\<open>wire_write\<close>), the conditions, sets and row values aside: those are JSON values
  here, which the applier checks and reads as nodes. Its document writes are not modelled.
\<close>

subsection \<open>Writes on the wire\<close>

text \<open>The JSON form of the nodes (the types of \<open>expression.ts\<close>).\<close>

definition name_json :: "string \<Rightarrow> pval" where
  "name_json name = PText (units_of name)"

fun where_json :: "where_node \<Rightarrow> pval" where
  "where_json (WCompare k c s) = PObj [(comparison_name k, PArr [name_json c, plain s])]"
| "where_json (WIn c ss) = PObj [(''inArray'', PArr [name_json c, PArr (map plain ss)])]"
| "where_json (WNull c) = PObj [(''isNull'', name_json c)]"
| "where_json (WPrefix c p) = PObj [(''prefix'', PArr [name_json c, PText p])]"
| "where_json (WAnd nodes) = PObj [(''and'', PArr (map where_json nodes))]"
| "where_json (WOr nodes) = PObj [(''or'', PArr (map where_json nodes))]"
| "where_json (WNot node) = PObj [(''not'', where_json node)]"

definition arith_name :: "arith \<Rightarrow> string" where
  "arith_name k = (case k of Add \<Rightarrow> ''add'' | Sub \<Rightarrow> ''sub'' | Max \<Rightarrow> ''max'' | Min \<Rightarrow> ''min'' | Concat \<Rightarrow> ''concat'')"

fun expr_json :: "expr_node \<Rightarrow> pval" where
  "expr_json (ELit s) = plain s"
| "expr_json ENull = PNull"
| "expr_json (ECol c) = PObj [(''col'', name_json c)]"
| "expr_json (EJson w) = PObj [(''json'', w)]"
| "expr_json (EBin k a b) = PObj [(arith_name k, PArr [expr_json a, expr_json b])]"
| "expr_json (ECoalesce a b) = PObj [(''coalesce'', PArr [expr_json a, expr_json b])]"
| "expr_json (EReplace e old new) = PObj [(''replacePrefix'', PArr [expr_json e, PText old, PText new])]"
| "expr_json (EWhen w a b) = PObj [(''when'', PArr [where_json w, expr_json a, expr_json b])]"

definition set_json :: "set_node \<Rightarrow> pval" where
  "set_json es = PObj (map (\<lambda>(c, e). (c, expr_json e)) es)"

definition cell_json :: "cell \<Rightarrow> pval" where
  "cell_json c = (case c of CScalar s \<Rightarrow> plain s | CJson w \<Rightarrow> w)"

datatype wire_write =
    WireTable table_definition_write
  | WireIndex string string "string list"
  | WireDropIndex string string
  | WireAlter string int table_edit
  | WirePut string "(string \<times> pval) list" int column_versions
  | WireUpdate string stored_key pval column_versions nat "int option"
  | WireDelete string stored_key nat
  | WireUpdateWhere string pval pval column_versions nat "int option"
  | WireDeleteWhere string pval nat

definition wire :: "table_write \<Rightarrow> wire_write" where
  "wire w = (case w of
      WriteTable d \<Rightarrow> WireTable d
    | WriteIndex table name columns \<Rightarrow> WireIndex table name columns
    | WriteDropIndex table name \<Rightarrow> WireDropIndex table name
    | WriteAlter table version edit \<Rightarrow> WireAlter table version edit
    | WritePut table r version columns \<Rightarrow> WirePut table (map (\<lambda>(n, c). (n, cell_json c)) r) version columns
    | WriteUpdate table key es columns count version \<Rightarrow> WireUpdate table key (set_json es) columns count version
    | WriteDelete table key count \<Rightarrow> WireDelete table key count
    | WriteUpdateWhere table condition es columns count version \<Rightarrow>
        WireUpdateWhere table (where_json condition) (set_json es) columns count version
    | WriteDeleteWhere table condition count \<Rightarrow> WireDeleteWhere table (where_json condition) count)"

subsection \<open>Conditions and expressions\<close>

definition MALFORMED :: store_error where
  "MALFORMED = InvalidArgs ''malformed''"

definition isScalar :: "pval \<Rightarrow> (store_error, scalar) result" where
  "isScalar v = (case v of
      PText t \<Rightarrow> Inr (SText t) | PNum n \<Rightarrow> Inr (SNum n) | PBoolean b \<Rightarrow> Inr (SBool b) | _ \<Rightarrow> Inl MALFORMED)"

text \<open>The name among \<open>names\<close> whose text is \<open>t\<close>.\<close>

definition named :: "string list \<Rightarrow> units \<Rightarrow> string option" where
  "named names t = List.find (\<lambda>n. units_of n = t) names"

text \<open>
  A column of a condition: the row's version, or what \<open>record.columns[name]\<close> gives, if it is no \<open>json\<close>
  column; that read also finds the members of \<open>Object.prototype\<close>.
\<close>

definition condition_column :: "table_record \<Rightarrow> pval \<Rightarrow> (store_error, string) result" where
  "condition_column r v = (case v of
      PText t \<Rightarrow>
        (case named (ROW_VERSION # map fst (tr_columns r)) t of
           Some n \<Rightarrow> if n \<noteq> ROW_VERSION \<and> is_json_column r n then Inl MALFORMED else Inr n
         | None \<Rightarrow> (case named (object_members @ [''__proto__'']) t of Some n \<Rightarrow> Inr n | None \<Rightarrow> Inl MALFORMED))
    | _ \<Rightarrow> Inl MALFORMED)"

definition comparison_of :: "string \<Rightarrow> comparison option" where
  "comparison_of name = List.find (\<lambda>k. comparison_name k = name) [Ceq, Cne, Clt, Clte, Cgt, Cgte]"

fun checkWhere :: "table_record \<Rightarrow> pval \<Rightarrow> (store_error, where_node) result" where
  "checkWhere r (PObj [(op, v)]) =
     (if op = ''and'' \<or> op = ''or'' then (case v of
        PArr nodes \<Rightarrow> andThen (traverse (checkWhere r) nodes) (\<lambda>ns. Inr (if op = ''and'' then WAnd ns else WOr ns))
      | _ \<Rightarrow> Inl MALFORMED)
      else if op = ''not'' then andThen (checkWhere r v) (\<lambda>n. Inr (WNot n))
      else if op = ''isNull'' then andThen (condition_column r v) (\<lambda>c. Inr (WNull c))
      else (case v of
        PArr [column, x] \<Rightarrow>
          andThen (condition_column r column) (\<lambda>c.
          if op = ''inArray'' then (case x of
              PArr vs \<Rightarrow> andThen (traverse isScalar vs) (\<lambda>ss. Inr (WIn c ss)) | _ \<Rightarrow> Inl MALFORMED)
          else if op = ''prefix'' then (case x of PText p \<Rightarrow> Inr (WPrefix c p) | _ \<Rightarrow> Inl MALFORMED)
          else (case comparison_of op of
              Some k \<Rightarrow> andThen (isScalar x) (\<lambda>s. Inr (WCompare k c s)) | None \<Rightarrow> Inl MALFORMED))
      | _ \<Rightarrow> Inl MALFORMED))"
| "checkWhere r v = Inl MALFORMED"

definition arith_of :: "string \<Rightarrow> arith option" where
  "arith_of name = List.find (\<lambda>k. arith_name k = name) [Add, Sub, Max, Min, Concat]"

fun checkExpr :: "table_record \<Rightarrow> pval \<Rightarrow> (store_error, expr_node) result" where
  "checkExpr r PNull = Inr ENull"
| "checkExpr r (PObj [(op, v)]) =
     (if op = ''col'' then (case v of
        PText t \<Rightarrow> (case named (map fst (tr_columns r)) t of Some c \<Rightarrow> Inr (ECol c) | None \<Rightarrow> Inl MALFORMED)
      | _ \<Rightarrow> Inl MALFORMED)
      else if op = ''json'' then Inr (EJson v)
      else (case v of
        PArr [a, b] \<Rightarrow>
          if op = ''coalesce'' \<or> arith_of op \<noteq> None then
            andThen (checkExpr r a) (\<lambda>x. andThen (checkExpr r b) (\<lambda>y.
            Inr (case arith_of op of Some k \<Rightarrow> EBin k x y | None \<Rightarrow> ECoalesce x y)))
          else Inl MALFORMED
      | PArr [a, b, c] \<Rightarrow>
          if op = ''replacePrefix'' then
            andThen (checkExpr r a) (\<lambda>x. case (b, c) of (PText old, PText new) \<Rightarrow> Inr (EReplace x old new) | _ \<Rightarrow> Inl MALFORMED)
          else if op = ''when'' then
            andThen (checkWhere r a) (\<lambda>w. andThen (checkExpr r b) (\<lambda>x. andThen (checkExpr r c) (\<lambda>y. Inr (EWhen w x y))))
          else Inl MALFORMED
      | _ \<Rightarrow> Inl MALFORMED))"
| "checkExpr r v = andThen (isScalar v) (\<lambda>s. Inr (ELit s))"

subsection \<open>Counted writes\<close>

definition keyParams :: "table_record \<Rightarrow> stored_key \<Rightarrow> (store_error, sql_value list) result" where
  "keyParams r key =
     andThen (ensure (length key = length (tr_key r)) (InvalidArgs ''not a key'')) (\<lambda>_.
     traverse (\<lambda>name. case map_of key name of
         None \<Rightarrow> Inl (InvalidArgs ''key column is missing'')
       | Some s \<Rightarrow> (case map_of (tr_columns r) name of
           None \<Rightarrow> Inl IllTyped
         | Some c \<Rightarrow> andThen (checkScalar (case cr_type c of TScalar ty \<Rightarrow> ty | TJson \<Rightarrow> TStr) (plain s)) (\<lambda>x. Inr (toSqlite x))))
       (tr_key r))"

text \<open>The nodes of a set, and the set with the version it stamps.\<close>

definition set_nodes :: "table_record \<Rightarrow> pval \<Rightarrow> (store_error, set_node) result" where
  "set_nodes r v = (case v of
      PObj entries \<Rightarrow>
        andThen (ensure (entries \<noteq> []) MALFORMED) (\<lambda>_.
        traverse (\<lambda>(c, node).
          andThen (ensure (map_of (tr_columns r) c \<noteq> None \<and> c \<notin> set (tr_key r)) MALFORMED) (\<lambda>_.
          andThen (checkExpr r node) (\<lambda>e. Inr (c, e)))) entries)
    | _ \<Rightarrow> Inl MALFORMED)"

definition stamped :: "int option \<Rightarrow> set_node \<Rightarrow> set_node" where
  "stamped version es = (case version of None \<Rightarrow> es | Some n \<Rightarrow> AList.update ROW_VERSION (ELit (SNum (of_int n))) es)"

definition setOf :: "table_record \<Rightarrow> pval \<Rightarrow> int option \<Rightarrow> (store_error, set_node) result" where
  "setOf r v version = andThen (set_nodes r v) (\<lambda>es. Inr (stamped version es))"

definition set_names :: "pval \<Rightarrow> string list" where
  "set_names v = (case v of PObj entries \<Rightarrow> map fst entries | _ \<Rightarrow> [])"

text \<open>\<open>write.columns[name] ?? column.version\<close>; an inherited member is a function, which is no version.\<close>

definition versionsOf :: "table_record \<Rightarrow> string list \<Rightarrow> column_versions \<Rightarrow> (store_error, column_versions) result" where
  "versionsOf r names columns =
     traverse (\<lambda>(name, c).
       let version = (case map_of columns name of
             Some v \<Rightarrow> Some v
           | None \<Rightarrow> if name \<in> set (object_members @ [''__proto__'']) then None else cr_version c) in
       (case (version, cr_version c) of
          (Some v, Some newest) \<Rightarrow> if isSafeInteger v \<and> 1 \<le> v \<and> v \<le> newest then Inr (name, v) else Inl (InvalidArgs ''no readable version'')
        | _ \<Rightarrow> Inl (InvalidArgs ''no readable version'')))
       (filter (\<lambda>(name, c). cr_type c = TJson \<and> name \<in> set names) (tr_columns r))"

text \<open>The columns of the record, which are all that a \<open>TableSql\<close> reads of the columns.\<close>

definition record_column :: "string \<times> column_record \<Rightarrow> column" where
  "record_column = (\<lambda>(n, c). case cr_type c of
      TScalar ty \<Rightarrow> Plain n ty (cr_optional c) (cr_default c)
    | TJson \<Rightarrow> Json n (cr_optional c) \<lparr>jc_version = 0, jc_fingerprint = [], jc_migrates = False\<rparr>)"

definition record_sql :: "table_record \<Rightarrow> string \<Rightarrow> table_sql" where
  "record_sql r table = newTableSql table (map record_column (tr_columns r)) [] (tr_key r)"

definition counted_statement :: "table_record \<Rightarrow> wire_write \<Rightarrow> (store_error, statement \<times> nat) result" where
  "counted_statement r w = (case w of
      WireUpdate table key v columns count version \<Rightarrow>
        andThen (setOf r v version) (\<lambda>es.
        andThen (keyParams r key) (\<lambda>params.
        andThen (versionsOf r (set_names v) columns) (\<lambda>versions.
        Inr (sql_update (record_sql r table) es params versions, count))))
    | WireDelete table key count \<Rightarrow>
        andThen (keyParams r key) (\<lambda>params. Inr (\<lparr>st_sql = ts_delete (record_sql r table), st_params = params\<rparr>, count))
    | WireUpdateWhere table condition v columns count version \<Rightarrow>
        andThen (checkWhere r condition) (\<lambda>node.
        andThen (setOf r v version) (\<lambda>es.
        andThen (versionsOf r (set_names v) columns) (\<lambda>versions.
        Inr (sql_updateWhere (record_sql r table) node es versions, count))))
    | WireDeleteWhere table condition count \<Rightarrow>
        andThen (checkWhere r condition) (\<lambda>node. Inr (sql_deleteWhere (record_sql r table) node, count))
    | _ \<Rightarrow> Inl IllTyped)"

definition applyCounted ::
  "(statement list \<Rightarrow> statement \<Rightarrow> nat) \<Rightarrow> table_record \<Rightarrow> wire_write \<Rightarrow> step \<Rightarrow> (store_error, step) result" where
  "applyCounted changed r w s =
     andThen (counted_statement r w) (\<lambda>(statement, count).
     if changed (sp_log s) statement = count then Inr (step_run (st_sql statement) (st_params statement) s)
     else Inl Diverged)"

subsection \<open>A put\<close>

text \<open>
  The cells of a row by physical name: its columns' and the versions of its \<open>json(...)\<close> cells. An inherited member
  read as a version is a function, which SQLite does not bind: an error here too.
\<close>

fun put_cells ::
  "(string \<times> pval) list \<Rightarrow> column_versions \<Rightarrow> (string \<times> column_record) list \<Rightarrow> (store_error, (string \<times> sql_value) list) result" where
  "put_cells r versions [] = Inr []"
| "put_cells r versions ((name, column) # columns) =
     (let value = field r name;
          absent = (if cr_type column = TJson then map_of r name = None else value = PUndef) in
      andThen (if absent
        then (if cr_optional column then Inr [(name, SqlNull)] else Inl (InvalidArgs ''column is missing''))
        else (case cr_type column of
            TScalar ty \<Rightarrow> andThen (checkScalar ty value) (\<lambda>s. Inr [(name, toSqlite s)])
          | TJson \<Rightarrow> (case (map_of versions name, cr_version column) of
              (Some v, Some newest) \<Rightarrow>
                if v > newest then Inl (InvalidArgs ''no readable version'')
                else andThen (toJson value) (\<lambda>text. case text of
                    None \<Rightarrow> Inl (InvalidArgs ''not JSON'')
                  | Some w \<Rightarrow> Inr [(name, SqlJson w), (versionColumn name, SqlNum (of_int v))])
            | _ \<Rightarrow> Inl (InvalidArgs ''no readable version'')))) (\<lambda>cells.
      andThen (put_cells r versions columns) (\<lambda>rest. Inr (cells @ rest))))"

definition putParams ::
  "table_record \<Rightarrow> (string \<times> pval) list \<Rightarrow> column_versions \<Rightarrow> int \<Rightarrow> string list \<Rightarrow> (store_error, sql_value list) result" where
  "putParams r values versions version physical =
     andThen (ensure (\<forall>(f, v)\<in>set values. map_of (tr_columns r) f \<noteq> None) (InvalidArgs ''unknown column'')) (\<lambda>_.
     andThen (ensure (\<forall>(f, v)\<in>set versions. is_json_column r f \<and> map_of values f \<noteq> None) (InvalidArgs ''a version for no json(...) cell'')) (\<lambda>_.
     andThen (ensure (version \<le> tr_version r) (InvalidArgs ''newer than the table'')) (\<lambda>_.
     andThen (put_cells values versions (tr_columns r)) (\<lambda>cells.
     Inr (map (\<lambda>name. if name = ROW_VERSION then SqlNum (of_int version) else sql_field cells name) physical)))))"

subsection \<open>Schema writes\<close>

definition checkColumn :: "column_record \<Rightarrow> (store_error, unit) result" where
  "checkColumn c =
     (let json = (cr_type c = TJson) in
      andThen (ensure (json = (cr_version c \<noteq> None) \<and> json = (cr_fingerprint c \<noteq> None)) (InvalidArgs ''version and fingerprint'')) (\<lambda>_.
      case cr_default c of
        None \<Rightarrow> Inr ()
      | Some d \<Rightarrow> (case cr_type c of
          TScalar ty \<Rightarrow> if cr_optional c then Inl (InvalidArgs ''default'') else andThen (checkScalar ty (plain d)) (\<lambda>_. Inr ())
        | TJson \<Rightarrow> Inl (InvalidArgs ''default''))))"

definition checkOrderColumns :: "(string \<times> column_record) list \<Rightarrow> string list \<Rightarrow> (store_error, unit) result" where
  "checkOrderColumns columns names =
     andThen (ensure (distinct names) (InvalidArgs ''a column occurs twice'')) (\<lambda>_.
     ensure (\<forall>name\<in>set names. case map_of columns name of
         None \<Rightarrow> False
       | Some c \<Rightarrow> \<not> cr_optional c \<and> (cr_type c = TScalar TStr \<or> cr_type c = TScalar TInt)) (InvalidArgs ''no order column''))"

fun check_columns :: "string list \<Rightarrow> (string \<times> column_record) list \<Rightarrow> (store_error, unit) result" where
  "check_columns folded [] = Inr ()"
| "check_columns folded ((name, c) # columns) =
     andThen (ensure (checkColumnName name = Inr () \<and> foldAscii name \<notin> set folded) (InvalidArgs ''not a column name'')) (\<lambda>_.
     andThen (checkColumn c) (\<lambda>_. check_columns (foldAscii name # folded) columns))"

fun split_colon :: "string \<Rightarrow> string list" where
  "split_colon [] = [[]]"
| "split_colon (c # cs) = (if c = CHR '':'' then [] # split_colon cs else (case split_colon cs of p # ps \<Rightarrow> (c # p) # ps | [] \<Rightarrow> [[c]]))"

definition checkTable :: "table_definition_write \<Rightarrow> (store_error, unit) result" where
  "checkTable w =
     (let parts = split_colon (tw_table w) in
      andThen (ensure (length parts = 2) (InvalidArgs ''not owner:table'')) (\<lambda>_.
      andThen (ensure (\<forall>p\<in>set parts. checkName p = Inr ()) (InvalidArgs ''table name part'')) (\<lambda>_.
      andThen (check_columns [] (tw_columns w)) (\<lambda>_.
      andThen (ensure (tw_key w \<noteq> []) (InvalidArgs ''the key has no column'')) (\<lambda>_.
      checkOrderColumns (tw_columns w) (tw_key w))))))"

definition fresh_column :: "table_record \<Rightarrow> string \<Rightarrow> bool" where
  "fresh_column r name = (checkColumnName name = Inr () \<and> (\<forall>each\<in>set (map fst (tr_columns r)). foldAscii each \<noteq> foldAscii name))"

definition checkAlter :: "table_record \<Rightarrow> int \<Rightarrow> table_edit \<Rightarrow> (store_error, unit) result" where
  "checkAlter r version edit =
     andThen (ensure (version = tr_version r \<or> version = tr_version r + 1) (InvalidArgs ''an edit of another version'')) (\<lambda>_.
     let has = (\<lambda>name. map_of (tr_columns r) name \<noteq> None);
         indexed = (\<lambda>name. name \<in> set (tr_key r) \<or> (\<exists>ix\<in>set (tr_indexes r). name \<in> set (snd ix))) in
     andThen (ensure (case edit of
         EditRename old new \<Rightarrow> has old \<and> fresh_column r new
       | EditAdd name c \<Rightarrow> fresh_column r name \<and> (cr_optional c \<or> cr_default c \<noteq> None)
       | EditDrop name \<Rightarrow> has name \<and> \<not> indexed name
       | EditJson name c \<Rightarrow> has name \<and> is_json_column r name \<and> cr_type c = TJson
       | _ \<Rightarrow> False) (InvalidArgs ''an edit the table cannot take'')) (\<lambda>_.
     case edit of EditAdd name c \<Rightarrow> checkColumn c | EditJson name c \<Rightarrow> checkColumn c | _ \<Rightarrow> Inr ()))"

definition checkIndex :: "table_record \<Rightarrow> string \<Rightarrow> string list \<Rightarrow> (store_error, unit) result" where
  "checkIndex r name columns =
     andThen (ensure (index_name name \<and> map_of (tr_indexes r) name = None) (InvalidArgs ''not a new index name'')) (\<lambda>_.
     checkOrderColumns (tr_columns r) columns)"

subsection \<open>Applying a write\<close>

definition replica_record :: "step \<Rightarrow> string \<Rightarrow> (store_error, table_record) result" where
  "replica_record s table = (case step_table s table of None \<Rightarrow> Inl (InvalidArgs ''table is not recorded'') | Some r \<Rightarrow> Inr r)"

definition applyWrite ::
  "(statement list \<Rightarrow> statement \<Rightarrow> nat) \<Rightarrow> step \<Rightarrow> wire_write \<Rightarrow> (store_error, step) result" where
  "applyWrite changed s w = (case w of
      WireTable d \<Rightarrow> andThen (checkTable d) (\<lambda>_. Inr (applyTable d s))
    | WireIndex table name columns \<Rightarrow>
        andThen (replica_record s table) (\<lambda>r. andThen (checkIndex r name columns) (\<lambda>_. applyIndex table name columns s))
    | WireDropIndex table name \<Rightarrow>
        andThen (replica_record s table) (\<lambda>r.
        andThen (ensure (map_of (tr_indexes r) name \<noteq> None) (InvalidArgs ''no index'')) (\<lambda>_. applyDropIndex table name s))
    | WireAlter table version edit \<Rightarrow>
        andThen (replica_record s table) (\<lambda>r. andThen (checkAlter r version edit) (\<lambda>_. applyAlter table edit s))
    | WirePut table values version columns \<Rightarrow>
        andThen (replica_record s table) (\<lambda>r.
        let (physical, sql) = recordedPut table (tr_columns r) in
        andThen (putParams r values columns version physical) (\<lambda>params. Inr (step_run sql params s)))
    | WireUpdate table key v columns count version \<Rightarrow> andThen (replica_record s table) (\<lambda>r. applyCounted changed r w s)
    | WireDelete table key count \<Rightarrow> andThen (replica_record s table) (\<lambda>r. applyCounted changed r w s)
    | WireUpdateWhere table condition v columns count version \<Rightarrow> andThen (replica_record s table) (\<lambda>r. applyCounted changed r w s)
    | WireDeleteWhere table condition count \<Rightarrow> andThen (replica_record s table) (\<lambda>r. applyCounted changed r w s))"

end
