(* ===== verification/Store_Changes.thy ===== *)
theory Store_Changes
  imports Store_Writes Store_Evaluate_Laws
begin

text \<open>
  A transaction's writes to one table (\<open>packages/chord/src/store/table-changes.ts\<close>): staged in order
  for the commit step, and kept per key so that \<open>get\<close> overlays them on the committed row. The abstract
  view of a transaction is a table, a map from key identities to what a read of the row gives, on which each
  write takes effect at once (the value of an update that cannot be evaluated is its error, until the row is
  put or deleted); \<open>get\<close>, which replays only the writes after the last \<open>put\<close> or \<open>delete\<close> of its key,
  reads that table, until a bulk write makes it refuse (\<open>get_reads_own_writes\<close>).
\<close>

subsection \<open>The code's overlay\<close>

datatype key_write = KPut row | KUpdate set_node | KDelete

record table_handle =
  th_def :: table_def
  th_sql :: table_sql

record table_changes =
  tch_handle :: table_handle
  tch_staged :: "staged_write list"
  tch_byKey :: "(sql_value list \<times> key_write list) list"
  tch_bulk :: bool

definition newChanges :: "table_handle \<Rightarrow> staged_write list \<Rightarrow> table_changes" where
  "newChanges handle staged = \<lparr>tch_handle = handle, tch_staged = staged, tch_byKey = [], tch_bulk = False\<rparr>"

definition changes_push :: "staged_write \<Rightarrow> table_changes \<Rightarrow> table_changes" where
  "changes_push w st = st\<lparr>tch_staged := tch_staged st @ [w]\<rparr>"

definition changes_write :: "sql_value list \<Rightarrow> key_write \<Rightarrow> table_changes \<Rightarrow> table_changes" where
  "changes_write kid w st = (case map_of (tch_byKey st) kid of
      None \<Rightarrow> st\<lparr>tch_byKey := AList.update kid [w] (tch_byKey st)\<rparr>
    | Some ws \<Rightarrow> st\<lparr>tch_byKey := AList.update kid (ws @ [w]) (tch_byKey st)\<rparr>)"

definition changes_put :: "pval \<Rightarrow> table_changes \<Rightarrow> (store_error, table_changes) result" where
  "changes_put v st =
     (let T = th_def (tch_handle st); sql = th_sql (tch_handle st) in
      andThen (rows_put (table_rows T) v (td_version T)) (\<lambda>e.
      Inr (changes_write (er_id e) (KPut (er_row e))
        (changes_push (stagePut (ts_put sql) (ts_table sql) e (td_version T)) st))))"

definition changes_update :: "pval \<Rightarrow> pval \<Rightarrow> table_changes \<Rightarrow> (store_error, table_changes) result" where
  "changes_update key v st =
     (let T = th_def (tch_handle st); sql = th_sql (tch_handle st) in
      andThen (rows_key (table_rows T) key) (\<lambda>k.
      andThen (compileSet T v) (\<lambda>es.
      let versions = jsonVersions T es in
      Inr (changes_write (ek_id k) (KUpdate es)
        (changes_push (stageUpdate (sql_update sql es (ek_params k) versions) (ts_table sql) (ek_key k) es
          (recordedVersions es versions) None) st)))))"

definition changes_delete :: "pval \<Rightarrow> table_changes \<Rightarrow> (store_error, table_changes) result" where
  "changes_delete key st =
     (let T = th_def (tch_handle st); sql = th_sql (tch_handle st) in
      andThen (rows_key (table_rows T) key) (\<lambda>k.
      Inr (changes_write (ek_id k) KDelete
        (changes_push (stageDelete \<lparr>st_sql = ts_delete sql, st_params = ek_params k\<rparr> (ts_table sql) (ek_key k)) st))))"

definition changes_updateWhere :: "pval \<Rightarrow> pval \<Rightarrow> table_changes \<Rightarrow> (store_error, table_changes) result" where
  "changes_updateWhere condition v st =
     (let T = th_def (tch_handle st); sql = th_sql (tch_handle st) in
      andThen (compileWhere T condition) (\<lambda>w.
      andThen (compileSet T v) (\<lambda>es.
      let versions = jsonVersions T es in
      Inr ((changes_push (stageUpdateWhere (sql_updateWhere sql w es versions) (ts_table sql) w es
        (recordedVersions es versions) None) st)\<lparr>tch_bulk := True\<rparr>))))"

definition changes_deleteWhere :: "pval \<Rightarrow> table_changes \<Rightarrow> (store_error, table_changes) result" where
  "changes_deleteWhere condition st =
     (let T = th_def (tch_handle st); sql = th_sql (tch_handle st) in
      andThen (compileWhere T condition) (\<lambda>w.
      Inr ((changes_push (stageDeleteWhere (sql_deleteWhere sql w) (ts_table sql) w) st)\<lparr>tch_bulk := True\<rparr>)))"

text \<open>The loop of \<open>get\<close> that steps back over the updates at the end of a key's writes.\<close>

fun replay_start :: "key_write list \<Rightarrow> nat \<Rightarrow> nat" where
  "replay_start ws 0 = 0"
| "replay_start ws (Suc n) = (case ws ! n of KUpdate es \<Rightarrow> replay_start ws n | _ \<Rightarrow> Suc n)"

definition overlay_step :: "row option \<Rightarrow> key_write \<Rightarrow> (store_error, row option) result" where
  "overlay_step r w = (case (r, w) of
      (Some row, KUpdate es) \<Rightarrow> andThen (applySet es row) (\<lambda>row'. Inr (Some row'))
    | _ \<Rightarrow> Inr r)"

text \<open>\<open>committed\<close> is the read of the committed row by its key.\<close>

definition changes_get ::
  "(sql_value list \<Rightarrow> (store_error, row option) result) \<Rightarrow> pval \<Rightarrow> table_changes \<Rightarrow> (store_error, row option) result" where
  "changes_get committed key st =
     (if tch_bulk st then Inl ReadAfterBulk
      else andThen (rows_key (table_rows (th_def (tch_handle st))) key) (\<lambda>k.
        let writes = (case map_of (tch_byKey st) (ek_id k) of None \<Rightarrow> [] | Some ws \<Rightarrow> ws);
            start = replay_start writes (length writes) in
        andThen (if start = 0 then committed (ek_id k)
                 else case writes ! (start - 1) of KPut row \<Rightarrow> Inr (Some row) | _ \<Rightarrow> Inr None) (\<lambda>row.
        run_steps overlay_step row (drop start writes))))"

subsection \<open>The abstract table\<close>

datatype change =
    CPut pval
  | CUpdate pval pval
  | CDelete pval
  | CUpdateWhere pval pval
  | CDeleteWhere pval

definition change_step :: "table_changes \<Rightarrow> change \<Rightarrow> (store_error, table_changes) result" where
  "change_step st c = (case c of
      CPut v \<Rightarrow> changes_put v st
    | CUpdate key v \<Rightarrow> changes_update key v st
    | CDelete key \<Rightarrow> changes_delete key st
    | CUpdateWhere w v \<Rightarrow> changes_updateWhere w v st
    | CDeleteWhere w \<Rightarrow> changes_deleteWhere w st)"

type_synonym table_view = "sql_value list \<Rightarrow> (store_error, row option) result"

definition write_effect :: "(store_error, row option) result \<Rightarrow> key_write \<Rightarrow> (store_error, row option) result" where
  "write_effect r w = (case w of
      KPut row \<Rightarrow> Inr (Some row)
    | KDelete \<Rightarrow> Inr None
    | KUpdate es \<Rightarrow> andThen r (\<lambda>current. case current of
          None \<Rightarrow> Inr None
        | Some row \<Rightarrow> andThen (applySet es row) (\<lambda>row'. Inr (Some row'))))"

text \<open>The key and the write of a change of one row; a bulk change has none.\<close>

definition single_write :: "table_def \<Rightarrow> change \<Rightarrow> (store_error, sql_value list \<times> key_write) result" where
  "single_write T c = (case c of
      CPut v \<Rightarrow> andThen (rows_put (table_rows T) v (td_version T)) (\<lambda>e. Inr (er_id e, KPut (er_row e)))
    | CUpdate key v \<Rightarrow> andThen (rows_key (table_rows T) key) (\<lambda>k. andThen (compileSet T v) (\<lambda>es. Inr (ek_id k, KUpdate es)))
    | CDelete key \<Rightarrow> andThen (rows_key (table_rows T) key) (\<lambda>k. Inr (ek_id k, KDelete))
    | CUpdateWhere w v \<Rightarrow> Inl ReadAfterBulk
    | CDeleteWhere w \<Rightarrow> Inl ReadAfterBulk)"

definition is_bulk :: "change \<Rightarrow> bool" where
  "is_bulk c = (case c of CUpdateWhere w v \<Rightarrow> True | CDeleteWhere w \<Rightarrow> True | _ \<Rightarrow> False)"

text \<open>A bulk change is checked; what it does to the rows is left to the commit, and no read sees the table after it.\<close>

definition table_step :: "table_def \<Rightarrow> table_view \<Rightarrow> change \<Rightarrow> (store_error, table_view) result" where
  "table_step T V c = (case c of
      CUpdateWhere w v \<Rightarrow> andThen (compileWhere T w) (\<lambda>_. andThen (compileSet T v) (\<lambda>_. Inr V))
    | CDeleteWhere w \<Rightarrow> andThen (compileWhere T w) (\<lambda>_. Inr V)
    | _ \<Rightarrow> andThen (single_write T c) (\<lambda>(kid, w). Inr (V(kid := write_effect (V kid) w))))"

subsection \<open>Replaying the last writes is replaying all of them\<close>

definition replay_all :: "(store_error, row option) result \<Rightarrow> key_write list \<Rightarrow> (store_error, row option) result" where
  "replay_all = foldl write_effect"

lemma write_effect_update: "write_effect r (KUpdate es) = andThen r (\<lambda>row. overlay_step row (KUpdate es))"
  by (cases r) (simp_all add: write_effect_def overlay_step_def split: option.split)

lemma replay_updates:
  "\<forall>w\<in>set ws. \<exists>es. w = KUpdate es \<Longrightarrow> replay_all r ws = andThen r (\<lambda>row. run_steps overlay_step row ws)"
proof (induction ws arbitrary: r)
  case Nil
  then show ?case by (cases r) (simp_all add: replay_all_def)
next
  case (Cons w ws)
  then obtain es where w: "w = KUpdate es" by auto
  have "replay_all r (w # ws) = replay_all (write_effect r w) ws" by (simp add: replay_all_def)
  also have "\<dots> = andThen (write_effect r w) (\<lambda>row. run_steps overlay_step row ws)" using Cons by simp
  finally show ?case by (cases r) (simp_all add: w write_effect_update)
qed

lemma replay_start_bound: "replay_start ws n \<le> n"
  by (induction n) (auto split: key_write.splits)

lemma replay_start_updates:
  "replay_start ws n \<le> i \<Longrightarrow> i < n \<Longrightarrow> \<exists>es. ws ! i = KUpdate es"
proof (induction n)
  case (Suc n)
  then show ?case by (cases "i = n") (auto split: key_write.splits)
qed simp

lemma replay_start_last: "0 < replay_start ws n \<Longrightarrow> ws ! (replay_start ws n - 1) \<noteq> KUpdate es"
  by (induction n) (auto split: key_write.splits)

lemma replay_last:
  "andThen (let start = replay_start ws (length ws) in
       if start = 0 then r else case ws ! (start - 1) of KPut row \<Rightarrow> Inr (Some row) | _ \<Rightarrow> Inr None)
     (\<lambda>row. run_steps overlay_step row (drop (replay_start ws (length ws)) ws)) = replay_all r ws"
proof -
  let ?s = "replay_start ws (length ws)"
  have upd: "\<forall>w\<in>set (drop ?s ws). \<exists>es. w = KUpdate es"
    using replay_start_updates[of ws "length ws"] by (auto simp: in_set_conv_nth)
  show ?thesis
  proof (cases "?s = 0")
    case True
    then show ?thesis using upd replay_updates[of ws r] by simp
  next
    case False
    then have split: "ws = take (?s - 1) ws @ ws ! (?s - 1) # drop ?s ws"
      using replay_start_bound[of ws "length ws"] by (metis Suc_diff_1 id_take_nth_drop le_imp_less_Suc less_le_trans lessI not_gr_zero Suc_pred)
    have last: "write_effect x (ws ! (?s - 1)) = (case ws ! (?s - 1) of KPut row \<Rightarrow> Inr (Some row) | _ \<Rightarrow> Inr None)" for x
      using replay_start_last[of ws "length ws"] False by (cases "ws ! (?s - 1)") (auto simp: write_effect_def)
    have "replay_all r ws = replay_all (write_effect (replay_all r (take (?s - 1) ws)) (ws ! (?s - 1))) (drop ?s ws)"
      by (subst split) (simp add: replay_all_def)
    then show ?thesis using False replay_updates[OF upd] by (simp add: last[simplified] Let_def)
  qed
qed

subsection \<open>Refinement\<close>

text \<open>The writes of a key in a list of writes.\<close>

definition writes_of :: "sql_value list \<Rightarrow> (sql_value list \<times> key_write) list \<Rightarrow> key_write list" where
  "writes_of kid ws = map snd (filter (\<lambda>w. fst w = kid) ws)"

lemma writes_of_append [simp]: "writes_of kid (ws @ [(i, w)]) = writes_of kid ws @ (if i = kid then [w] else [])"
  by (simp add: writes_of_def)

definition overlay_of :: "table_changes \<Rightarrow> sql_value list \<Rightarrow> key_write list" where
  "overlay_of st kid = (case map_of (tch_byKey st) kid of None \<Rightarrow> [] | Some ws \<Rightarrow> ws)"

lemma overlay_write [simp]:
  "overlay_of (changes_write i w st) kid = overlay_of st kid @ (if i = kid then [w] else [])"
  by (auto simp: overlay_of_def changes_write_def split: option.splits)

lemma overlay_push [simp]: "overlay_of (changes_push s st) kid = overlay_of st kid"
  by (simp add: overlay_of_def changes_push_def)

lemma changes_frame [simp]:
  "tch_handle (changes_write i w st) = tch_handle st" "tch_bulk (changes_write i w st) = tch_bulk st"
  "tch_handle (changes_push s st) = tch_handle st" "tch_bulk (changes_push s st) = tch_bulk st"
  by (auto simp: changes_write_def changes_push_def split: option.splits)

lemma change_single:
  assumes "single_write (th_def (tch_handle st)) c = Inr (kid, w)"
  shows "\<exists>st'. change_step st c = Inr st' \<and> tch_handle st' = tch_handle st \<and> tch_bulk st' = tch_bulk st \<and>
    (\<forall>i. overlay_of st' i = overlay_of st i @ (if kid = i then [w] else []))"
  using assms
  by (cases c)
    (auto simp: single_write_def change_step_def changes_put_def changes_update_def changes_delete_def Let_def andThen_eq_Inr)

text \<open>A change fails in the code and on the table with the same error, or takes effect in both.\<close>

lemma change_simulates:
  assumes "\<And>kid. replay_all (W kid) (overlay_of st kid) = V kid" and "T = th_def (tch_handle st)"
  shows "(\<exists>e. change_step st c = Inl e \<and> table_step T V c = Inl e) \<or>
    (\<exists>st' V'. change_step st c = Inr st' \<and> table_step T V c = Inr V' \<and> tch_handle st' = tch_handle st \<and>
      tch_bulk st' = (tch_bulk st \<or> is_bulk c) \<and> (\<forall>kid. replay_all (W kid) (overlay_of st' kid) = V' kid))"
proof (cases c)
  case (CPut v)
  then show ?thesis using assms
    by (cases "rows_put (table_rows T) v (td_version T)")
      (simp_all add: change_step_def table_step_def single_write_def changes_put_def is_bulk_def Let_def replay_all_def)
next
  case (CUpdate key v)
  then show ?thesis using assms
    by (cases "rows_key (table_rows T) key"; cases "compileSet T v")
      (simp_all add: change_step_def table_step_def single_write_def changes_update_def is_bulk_def Let_def replay_all_def)
next
  case (CDelete key)
  then show ?thesis using assms
    by (cases "rows_key (table_rows T) key")
      (simp_all add: change_step_def table_step_def single_write_def changes_delete_def is_bulk_def Let_def replay_all_def)
next
  case (CUpdateWhere w v)
  then show ?thesis using assms
    by (cases "compileWhere T w"; cases "compileSet T v")
      (simp_all add: change_step_def table_step_def changes_updateWhere_def is_bulk_def Let_def overlay_of_def changes_push_def)
next
  case (CDeleteWhere w)
  then show ?thesis using assms
    by (cases "compileWhere T w")
      (simp_all add: change_step_def table_step_def changes_deleteWhere_def is_bulk_def Let_def overlay_of_def changes_push_def)
qed

lemma changes_simulate:
  assumes "\<And>kid. replay_all (W kid) (overlay_of st kid) = V kid"
  shows "(\<exists>e. run_steps change_step st cs = Inl e \<and> run_steps (table_step (th_def (tch_handle st))) V cs = Inl e) \<or>
    (\<exists>st' V'. run_steps change_step st cs = Inr st' \<and> run_steps (table_step (th_def (tch_handle st))) V cs = Inr V' \<and>
      tch_handle st' = tch_handle st \<and> tch_bulk st' = (tch_bulk st \<or> (\<exists>c\<in>set cs. is_bulk c)) \<and>
      (\<forall>kid. replay_all (W kid) (overlay_of st' kid) = V' kid))"
  using assms
proof (induction cs arbitrary: st V)
  case (Cons c cs)
  from change_simulates[OF Cons.prems refl, of c] show ?case
  proof (elim disjE exE conjE)
    fix st1 V1
    assume s: "change_step st c = Inr st1" "table_step (th_def (tch_handle st)) V c = Inr V1" "tch_handle st1 = tch_handle st"
      "tch_bulk st1 = (tch_bulk st \<or> is_bulk c)" "\<forall>kid. replay_all (W kid) (overlay_of st1 kid) = V1 kid"
    then show ?thesis using Cons.IH[of st1 V1] by simp
  qed simp
qed simp

subsection \<open>The property\<close>

text \<open>
  C9. Reads of a transaction see its own writes. Whatever sequence of puts, updates, deletes and bulk writes is
  staged on whatever committed rows, the staging fails exactly when the sequence of writes, checked one after the
  other on an abstract table, does, with the same error. Otherwise \<open>get\<close> of a key is refused if one of the writes
  was a bulk write; if none was, \<open>get\<close>, which replays only the writes of its key after the last put or delete,
  gives what that table has for the key once every write took effect in turn: the row, its absence, or the error of
  an update that cannot be evaluated.
\<close>

theorem get_reads_own_writes:
  assumes "rows_key (table_rows (th_def handle)) key = Inr k"
  shows "case run_steps change_step (newChanges handle staged) cs of
      Inl e \<Rightarrow> run_steps (table_step (th_def handle)) committed cs = Inl e
    | Inr st \<Rightarrow> (\<exists>V. run_steps (table_step (th_def handle)) committed cs = Inr V \<and>
        changes_get committed key st = (if \<exists>c\<in>set cs. is_bulk c then Inl ReadAfterBulk else V (ek_id k)))"
proof -
  let ?st = "newChanges handle staged"
  have n: "tch_handle ?st = handle" "\<not> tch_bulk ?st" "\<And>kid. replay_all (committed kid) (overlay_of ?st kid) = committed kid"
    by (simp_all add: newChanges_def overlay_of_def replay_all_def)
  from changes_simulate[of committed ?st committed cs, OF n(3)] show ?thesis
  proof (elim disjE exE conjE)
    fix st V
    assume s: "run_steps change_step ?st cs = Inr st" "run_steps (table_step (th_def (tch_handle ?st))) committed cs = Inr V"
      "tch_handle st = tch_handle ?st" "tch_bulk st = (tch_bulk ?st \<or> (\<exists>c\<in>set cs. is_bulk c))"
      "\<forall>kid. replay_all (committed kid) (overlay_of st kid) = V kid"
    have "changes_get committed key st = (if \<exists>c\<in>set cs. is_bulk c then Inl ReadAfterBulk else V (ek_id k))"
      using s n(1,2) assms replay_last[of "overlay_of st (ek_id k)" "committed (ek_id k)"]
      unfolding changes_get_def overlay_of_def[symmetric] by (auto simp: Let_def)
    then show ?thesis using s n(1) by simp
  qed (simp add: n(1))
qed

definition demo_handle :: table_handle where
  "demo_handle = \<lparr>th_def = demo_table, th_sql = newTableSql ''app:notes'' demo_columns [''id'', ''n'', ''note'', ''$v''] [''id'']\<rparr>"

definition demo_key :: pval where
  "demo_key = PObj [(''id'', PText [97])]"

theorem get_reads_own_writes_witness:
  "(\<exists>st. run_steps change_step (newChanges demo_handle []) [CPut demo_value, CUpdate demo_key demo_set] = Inr st \<and>
     changes_get (\<lambda>kid. Inr None) demo_key st = Inr (Some [(''id'', CScalar (SText [97])), (''n'', CScalar (SNum 8))])) \<and>
   (\<exists>st. run_steps change_step (newChanges demo_handle []) [CDeleteWhere (build_and [])] = Inr st \<and>
     changes_get (\<lambda>kid. Inr None) demo_key st = Inl ReadAfterBulk)"
proof -
  let ?es = "[(''n'', EBin Add (ECol ''n'') (ELit (SNum 1))), (''note'', ENull)]"
  let ?row = "[(''id'', CScalar (SText [97])), (''n'', CScalar (SNum 8))]"
  let ?id = "[SqlText [97]]"
  have p: "single_write demo_table (CPut demo_value) = Inr (?id, KPut demo_row)" by code_simp
  have u: "single_write demo_table (CUpdate demo_key demo_set) = Inr (?id, KUpdate ?es)" by code_simp
  have a: "applySet ?es demo_row = Inr ?row" by code_simp
  have w: "compileWhere demo_table (build_and []) = Inr (WAnd [])" by code_simp
  have k: "rows_key (table_rows (th_def demo_handle)) demo_key = Inr \<lparr>ek_params = ?id, ek_key = [(''id'', SText [97])], ek_id = ?id\<rparr>"
    unfolding demo_handle_def table_handle.select_convs by code_simp
  have t: "run_steps (table_step (th_def demo_handle)) (\<lambda>kid. Inr None) [CPut demo_value, CUpdate demo_key demo_set] =
      Inr ((\<lambda>kid. Inr None)(?id := Inr (Some ?row)))"
    by (simp add: demo_handle_def table_step_def p u a write_effect_def)
  have b: "run_steps (table_step (th_def demo_handle)) (\<lambda>kid. Inr None) [CDeleteWhere (build_and [])] = Inr (\<lambda>kid. Inr None)"
    by (simp add: demo_handle_def table_step_def w)
  show ?thesis
    using get_reads_own_writes[OF k, where staged = "[]" and cs = "[CPut demo_value, CUpdate demo_key demo_set]" and committed = "\<lambda>kid. Inr None"]
      get_reads_own_writes[OF k, where staged = "[]" and cs = "[CDeleteWhere (build_and [])]" and committed = "\<lambda>kid. Inr None"] t b
    by (auto simp: is_bulk_def simp del: run_steps.simps split: sum.splits)
qed

end
