(* ===== verification/Store_Apply_Laws.thy ===== *)
theory Store_Apply_Laws
  imports Store_Apply Store_Changes Store_Evolve
begin

text \<open>
  A replica follows: the writes that a transaction's commit records pass every check of the applier on a replica
  with the same records, and make it run the same statements with the same parameters, so it ends with the same
  records and, SQLite being deterministic, the same rows.
\<close>

subsection \<open>Nodes read back\<close>

lemma units_of_inject [simp]: "units_of a = units_of b \<longleftrightarrow> a = b"
  by (auto simp: units_of_def inj_map_eq_map inj_on_def)

lemma named_mem: "n \<in> set names \<Longrightarrow> named names (units_of n) = Some n"
  by (induction names) (auto simp: named_def)

lemma isScalar_plain [simp]: "isScalar (plain s) = Inr s"
  by (cases s) (simp_all add: isScalar_def plain_def)

lemma traverse_plain [simp]: "traverse isScalar (map plain ss) = Inr ss"
  by (induction ss) simp_all

lemma comparison_of_name [simp]: "comparison_of (comparison_name k) = Some k"
  by (cases k) (simp_all add: comparison_of_def comparison_name_def)

lemma comparison_name_other [simp]:
  "comparison_name k \<notin> {''and'', ''or'', ''not'', ''isNull'', ''inArray'', ''prefix''}"
  by (cases k) (simp_all add: comparison_name_def)

fun where_columns :: "where_node \<Rightarrow> string list" where
  "where_columns (WCompare k c s) = [c]"
| "where_columns (WIn c ss) = [c]"
| "where_columns (WNull c) = [c]"
| "where_columns (WPrefix c p) = [c]"
| "where_columns (WAnd ns) = concat (map where_columns ns)"
| "where_columns (WOr ns) = concat (map where_columns ns)"
| "where_columns (WNot n) = where_columns n"

definition readable :: "table_record \<Rightarrow> string \<Rightarrow> bool" where
  "readable r c = (condition_column r (name_json c) = Inr c)"

lemma traverse_readable:
  "(\<And>n. n \<in> set ns \<Longrightarrow> f (g n) = Inr n) \<Longrightarrow> traverse f (map g ns) = Inr ns"
  by (induction ns) simp_all

lemma traverse_map: "\<forall>x\<in>set xs. f x = Inr (g x) \<Longrightarrow> traverse f xs = Inr (map g xs)"
  by (induction xs) simp_all

lemma checkWhere_json: "\<forall>c\<in>set (where_columns w). readable r c \<Longrightarrow> checkWhere r (where_json w) = Inr w"
proof (induction w)
  case (WCompare k c s)
  then show ?case using comparison_name_other[of k] by (simp add: readable_def)
next
  case (WAnd ns)
  then show ?case using traverse_readable[of ns "checkWhere r" where_json] by simp
next
  case (WOr ns)
  then show ?case using traverse_readable[of ns "checkWhere r" where_json] by simp
qed (simp_all add: readable_def)

fun expr_columns :: "expr_node \<Rightarrow> string list" where
  "expr_columns (ECol c) = [c]"
| "expr_columns (EBin k a b) = expr_columns a @ expr_columns b"
| "expr_columns (ECoalesce a b) = expr_columns a @ expr_columns b"
| "expr_columns (EReplace e old new) = expr_columns e"
| "expr_columns (EWhen w a b) = where_columns w @ expr_columns a @ expr_columns b"
| "expr_columns e = []"

lemma arith_of_name [simp]: "arith_of (arith_name k) = Some k"
  by (cases k) (simp_all add: arith_of_def arith_name_def)

lemma arith_of_other [simp]: "arith_of ''coalesce'' = None"
  by (simp add: arith_of_def arith_name_def)

lemma arith_name_other [simp]: "arith_name k \<notin> {''col'', ''json''}"
  by (cases k) (simp_all add: arith_name_def)

lemma checkExpr_plain [simp]: "checkExpr r (plain s) = Inr (ELit s)"
  by (cases s) (simp_all add: plain_def isScalar_def)

lemma checkExpr_json:
  "\<forall>c\<in>set (expr_columns e). readable r c \<and> c \<in> fst ` set (tr_columns r) \<Longrightarrow> checkExpr r (expr_json e) = Inr e"
proof (induction e)
  case (ECol c)
  then show ?case using named_mem[of c "map fst (tr_columns r)"] by (simp add: name_json_def)
next
  case (EBin k a b)
  then show ?case using arith_name_other[of k] by simp
next
  case (EWhen w a b)
  then show ?case using checkWhere_json[of w r] by (auto simp: arith_of_def arith_name_def)
qed simp_all

subsection \<open>The record of a definition\<close>

definition records :: "table_def \<Rightarrow> table_record \<Rightarrow> bool" where
  "records T r = (tr_columns r = td_record T \<and> tr_key r = td_key T \<and> td_version T \<le> tr_version r)"

text \<open>
  Names that are no member of \<open>Object.prototype\<close>, and the versions that \<open>json(...)\<close> accepts (its constructor
  refuses others).
\<close>

definition ordinary :: "table_def \<Rightarrow> bool" where
  "ordinary T = (\<forall>c\<in>set (td_columns T). col_name c \<notin> set (object_members @ [''__proto__'']) \<and>
     (case c of Json n opt j \<Rightarrow> isSafeInteger (jc_version j) \<and> 1 \<le> jc_version j | _ \<Rightarrow> True))"

definition recorded_columns :: "column list \<Rightarrow> (string \<times> column_record) list" where
  "recorded_columns cs = map (\<lambda>c. (col_name c, columnRecord c)) cs"

lemma columnRecord_simps [simp]:
  "cr_type (columnRecord c) = col_type c" "cr_optional (columnRecord c) = col_optional c"
  "cr_version (columnRecord (Json n opt j)) = Some (jc_version j)"
  by (cases c; simp add: columnRecord_def col_type_def)+

lemma map_of_recorded:
  assumes "distinct (map col_name cs)"
  shows "map_of (recorded_columns cs) n = map_option columnRecord (by_name cs n)"
proof (cases "by_name cs n")
  case None
  then have "n \<notin> col_name ` set cs" by (force simp: by_name_def map_of_eq_None_iff)
  then show ?thesis using None by (auto simp: recorded_columns_def map_of_eq_None_iff)
next
  case (Some c)
  then have c: "c \<in> set cs" "col_name c = n" using by_name_Some by auto
  have "map_of (recorded_columns cs) n = Some (columnRecord c)"
    using assms c by (simp add: recorded_columns_def map_of_eq_Some_iff comp_def image_iff) (metis)
  then show ?thesis using Some by simp
qed

text \<open>A replica's record of a declared table.\<close>

definition recorded_table :: "table_def \<Rightarrow> table_record \<Rightarrow> bool" where
  "recorded_table T r = (table_ok T \<and> td_record T = recorded_columns (td_columns T) \<and> ordinary T \<and> records T r)"

lemma table_names:
  "recorded_table T r \<Longrightarrow> distinct (map col_name (td_columns T)) \<and> (\<forall>c\<in>set (td_columns T). checkColumnName (col_name c) = Inr ())"
  by (simp add: recorded_table_def table_ok_def columns_ok_def)

lemma table_columns:
  "recorded_table T r \<Longrightarrow> tr_columns r = recorded_columns (td_columns T) \<and> tr_key r = td_key T \<and> td_version T \<le> tr_version r"
  by (simp add: recorded_table_def records_def)

lemma table_key: "recorded_table T r \<Longrightarrow> tr_key r = td_key T"
  by (simp add: table_columns)

lemma column_at: "recorded_table T r \<Longrightarrow> map_of (tr_columns r) n = map_option columnRecord (by_name (td_columns T) n)"
  by (simp add: table_columns map_of_recorded table_names)

lemma column_names: "recorded_table T r \<Longrightarrow> map fst (tr_columns r) = map col_name (td_columns T)"
  by (simp add: table_columns recorded_columns_def)

lemma json_at:
  assumes "recorded_table T r"
  shows "is_json_column r n \<longleftrightarrow> (\<exists>opt j. by_name (td_columns T) n = Some (Json n opt j))"
proof (cases "by_name (td_columns T) n")
  case (Some c)
  then show ?thesis using by_name_Some[OF Some] by (cases c) (auto simp: is_json_column_def column_at[OF assms] col_type_def)
qed (simp add: is_json_column_def column_at[OF assms])

lemma readable_column:
  assumes "recorded_table T r" and "column_scalar (td_columns T) c \<noteq> None"
  shows "readable r c \<and> c \<in> fst ` set (tr_columns r)"
proof -
  obtain n ty opt d where b: "by_name (td_columns T) c = Some (Plain n ty opt d)"
    using assms(2) by (auto simp: column_scalar_def split: option.splits column.splits)
  then have mem: "c \<in> set (map fst (tr_columns r))" unfolding column_names[OF assms(1)] using by_name_Some[OF b] by force
  then show ?thesis
    using b named_mem[of c "ROW_VERSION # map fst (tr_columns r)"]
    by (simp add: readable_def condition_column_def name_json_def json_at[OF assms(1)])
qed

lemma readable_version: "readable r ROW_VERSION"
  using named_mem[of ROW_VERSION "ROW_VERSION # map fst (tr_columns r)"]
  by (simp add: readable_def condition_column_def name_json_def)

lemma where_columns_ok: "where_ok cs w \<Longrightarrow> c \<in> set (where_columns w) \<Longrightarrow> column_scalar cs c \<noteq> None"
  by (induction w) (auto simp: scalar_fits_def split: option.splits)

lemma where_back: "recorded_table T r \<Longrightarrow> where_ok (td_columns T) w \<Longrightarrow> checkWhere r (where_json w) = Inr w"
  using where_columns_ok readable_column by (auto intro!: checkWhere_json)

lemma expr_columns_ok: "expr_null cs ty e \<noteq> None \<Longrightarrow> c \<in> set (expr_columns e) \<Longrightarrow> column_scalar cs c \<noteq> None"
  by (induction e) (auto split: option.splits if_splits dest: where_columns_ok)

lemma expr_back: "recorded_table T r \<Longrightarrow> expr_null (td_columns T) ty e \<noteq> None \<Longrightarrow> checkExpr r (expr_json e) = Inr e"
  using expr_columns_ok readable_column by (intro checkExpr_json) blast

lemma entry_back: "recorded_table T r \<Longrightarrow> entry_ok T (c, e) \<Longrightarrow> checkExpr r (expr_json e) = Inr e"
  using expr_back by (fastforce simp: entry_ok_def split: option.splits column.splits)

lemma set_back:
  assumes "recorded_table T r" and "\<forall>x\<in>set es. entry_ok T x" and "es \<noteq> []"
  shows "set_nodes r (set_json es) = Inr es"
proof -
  have "traverse (\<lambda>(c, node). andThen (ensure (map_of (tr_columns r) c \<noteq> None \<and> c \<notin> set (tr_key r)) MALFORMED) (\<lambda>_.
      andThen (checkExpr r node) (\<lambda>e. Inr (c, e)))) (map (\<lambda>(c, e). (c, expr_json e)) es) = Inr es"
  proof (rule traverse_readable)
    fix x
    assume m: "x \<in> set es"
    obtain c e where x: "x = (c, e)" by (cases x)
    have ok: "entry_ok T (c, e)" using m x assms(2) by blast
    then have "map_of (tr_columns r) c \<noteq> None" "c \<notin> set (tr_key r)"
      by (auto simp: entry_ok_def column_at[OF assms(1)] table_key[OF assms(1)] split: option.splits)
    then show "(case case x of (c, e) \<Rightarrow> (c, expr_json e) of (c, node) \<Rightarrow>
        andThen (ensure (map_of (tr_columns r) c \<noteq> None \<and> c \<notin> set (tr_key r)) MALFORMED) (\<lambda>_.
        andThen (checkExpr r node) (\<lambda>e. Inr (c, e)))) = Inr x"
      using x entry_back[OF assms(1) ok] by (simp add: ensure_def)
  qed
  then show ?thesis using assms(3) by (simp add: set_nodes_def set_json_def ensure_def)
qed

subsection \<open>Versions, keys and rows read back\<close>

text \<open>The versions a replica stamps are those of the origin: its records name them, a clear stamps \<open>NULL\<close> in any case.\<close>

lemma map_of_jsonVersions:
  "map_of (jsonVersions T es) c = (if c \<in> fst ` set es then (case by_name (td_columns T) c of
     Some (Json n opt j) \<Rightarrow> Some (jc_version j) | _ \<Rightarrow> None) else None)"
  by (induction es) (auto simp: jsonVersions_def map_filter_simps split: option.splits column.splits)

lemma map_of_recordedVersions:
  "map_of (recordedVersions es versions) c = (if map_of es c = Some ENull then None else map_of versions c)"
  by (induction versions) (auto simp: recordedVersions_def)

lemma assignment_versions: "map_of vs = map_of ws \<Longrightarrow> assignment_sql vs = assignment_sql ws"
  by (intro ext) (simp add: assignment_sql_def Let_def split: prod.splits)

lemma setSql_versions: "map_of vs = map_of ws \<Longrightarrow> setSql es vs = setSql es ws"
  by (intro ext) (simp add: setSql_def assignment_versions[of vs ws])

lemma statement_versions:
  assumes "map_of vs = map_of ws"
  shows "sql_update q es key vs = sql_update q es key ws" and "sql_updateWhere q w es vs = sql_updateWhere q w es ws"
  using setSql_versions[OF assms] by (simp_all add: sql_update_def sql_updateWhere_def)

lemma versions_back:
  assumes R: "recorded_table T r"
  shows "\<exists>vs. versionsOf r (map fst es) (recordedVersions es (jsonVersions T es)) = Inr vs \<and> map_of vs = map_of (jsonVersions T es)"
proof -
  define vs where "vs = map (\<lambda>(n, c). (n, the (cr_version c))) (filter (\<lambda>(n, c). cr_type c = TJson \<and> n \<in> fst ` set es) (tr_columns r))"
  have json: "\<exists>opt j. by_name (td_columns T) n = Some (Json n opt j) \<and> c = columnRecord (Json n opt j) \<and>
      n \<notin> set (object_members @ [''__proto__'']) \<and> isSafeInteger (jc_version j) \<and> 1 \<le> jc_version j"
    if n: "(n, c) \<in> set (tr_columns r)" and ty: "cr_type c = TJson" for n c
  proof -
    obtain d where d: "d \<in> set (td_columns T)" "n = col_name d" "c = columnRecord d"
      using n table_columns[OF R] by (auto simp: recorded_columns_def)
    obtain opt j where dj: "d = Json n opt j" using ty d by (cases d) (auto simp: col_type_def)
    moreover have "by_name (td_columns T) n = Some d" using by_name_mem[of "td_columns T" d] table_names[OF R] d by simp
    ultimately show ?thesis using d R unfolding recorded_table_def ordinary_def by fastforce
  qed
  have t: "versionsOf r (map fst es) (recordedVersions es (jsonVersions T es)) = Inr vs"
    unfolding versionsOf_def vs_def set_map
  proof (rule traverse_map, rule ballI)
    fix x
    assume x: "x \<in> set (filter (\<lambda>(n, c). cr_type c = TJson \<and> n \<in> fst ` set es) (tr_columns r))"
    obtain n c where nc: "x = (n, c)" by (cases x)
    then have m: "(n, c) \<in> set (tr_columns r)" "cr_type c = TJson" "n \<in> fst ` set es" using x by auto
    obtain opt j where j: "by_name (td_columns T) n = Some (Json n opt j)" "c = columnRecord (Json n opt j)"
      "n \<notin> set (object_members @ [''__proto__''])" "isSafeInteger (jc_version j)" "1 \<le> jc_version j"
      using json[OF m(1,2)] by blast
    then show "(case x of (name, c) \<Rightarrow> let version = (case map_of (recordedVersions es (jsonVersions T es)) name of
          Some v \<Rightarrow> Some v | None \<Rightarrow> if name \<in> set (object_members @ [''__proto__'']) then None else cr_version c) in
        (case (version, cr_version c) of
          (Some v, Some newest) \<Rightarrow> if isSafeInteger v \<and> 1 \<le> v \<and> v \<le> newest then Inr (name, v) else Inl (InvalidArgs ''no readable version'')
        | _ \<Rightarrow> Inl (InvalidArgs ''no readable version''))) = Inr (case x of (n, c) \<Rightarrow> (n, the (cr_version c)))"
      using nc m(3) by (simp add: map_of_recordedVersions map_of_jsonVersions Let_def)
  qed
  have "map_of vs n = map_of (jsonVersions T es) n" for n
  proof (cases "\<exists>opt j. by_name (td_columns T) n = Some (Json n opt j) \<and> n \<in> fst ` set es")
    case True
    then obtain opt j where j: "by_name (td_columns T) n = Some (Json n opt j)" "n \<in> fst ` set es" by blast
    have c: "map_of (tr_columns r) n = Some (columnRecord (Json n opt j))" using j by (simp add: column_at[OF R])
    have "map_of (filter (\<lambda>(n, c). cr_type c = TJson \<and> n \<in> fst ` set es) (tr_columns r)) n = Some (columnRecord (Json n opt j))"
      using c j(2) table_names[OF R] column_names[OF R] by (simp add: map_of_eq_Some_iff distinct_map_filter col_type_def)
    moreover have "map_of vs n = map_option (\<lambda>c. the (cr_version c))
        (map_of (filter (\<lambda>(n, c). cr_type c = TJson \<and> n \<in> fst ` set es) (tr_columns r)) n)"
      unfolding vs_def by (simp add: map_of_map)
    ultimately show ?thesis using j by (simp add: map_of_jsonVersions)
  next
    case False
    have "n \<notin> fst ` set vs"
    proof
      assume "n \<in> fst ` set vs"
      then obtain c where "(n, c) \<in> set (tr_columns r)" "cr_type c = TJson" "n \<in> fst ` set es" by (force simp: vs_def)
      then show False using json False by blast
    qed
    moreover have "map_of (jsonVersions T es) n = None"
      using False by_name_Some[of "td_columns T" n] by (auto simp: map_of_jsonVersions split: option.splits column.splits)
    ultimately show ?thesis by (metis map_of_eq_None_iff)
  qed
  then show ?thesis using t by blast
qed

text \<open>A key.\<close>

lemma list_all2_mono_mem:
  "list_all2 P xs ys \<Longrightarrow> (\<And>x y. x \<in> set xs \<Longrightarrow> P x y \<Longrightarrow> Q x y) \<Longrightarrow> list_all2 Q xs ys"
  by (induction rule: list_all2_induct) auto

lemma key_scalar:
  assumes "encodeScalar c v = Inr s" and "order_column c" and "text_units v"
  shows "\<exists>n ty d. c = Plain n ty False d \<and> checkScalar ty (plain s) = Inr s"
proof -
  obtain n ty d where c: "c = Plain n ty False d" "ty = TStr \<or> ty = TInt"
    using assms(2) by (cases c) (auto simp: order_column_def col_type_def)
  obtain x where x: "checkScalar ty v = Inr x" "s = bound_scalar x"
    using assms(1) c(1) by (auto simp: encodeScalar_def andThen_eq_Inr)
  have ok: "scalar_ok ty x" by (rule checkScalar_ok[OF x(1) assms(3)])
  then have "s = x" using x(2) c(2) by (cases x) (auto simp: bound_scalar_def scalar_ok_def)
  then show ?thesis using c checkScalar_plain[OF ok] by blast
qed

lemma key_column:
  assumes "table_ok T" and "n \<in> set (td_key T)"
  shows "\<exists>c. by_name (td_columns T) n = Some c \<and> List.find (\<lambda>c. col_name c = n) (td_columns T) = Some c \<and> col_name c = n \<and> order_column c"
proof -
  obtain c where "c \<in> set (td_columns T)" "col_name c = n" "order_column c" using assms by (auto simp: table_ok_def)
  then show ?thesis
    using assms(1) find_name[of "td_columns T" c] by_name_mem[of "td_columns T" c] by (auto simp: table_ok_def columns_ok_def)
qed

lemma map_filter_map: "\<forall>n\<in>set ns. f n = Some (g n) \<Longrightarrow> List.map_filter f ns = map g ns"
  by (induction ns) (simp_all add: map_filter_simps)

lemma rows_key_parts:
  assumes "rows_key (table_rows T) v = Inr k" and "table_ok T" and "text_units v"
  shows "map fst (ek_key k) = td_key T \<and> ek_params k = map (\<lambda>(n, s). toSqlite s) (ek_key k) \<and>
    (\<forall>(n, s)\<in>set (ek_key k). \<exists>ty d. by_name (td_columns T) n = Some (Plain n ty False d) \<and> checkScalar ty (plain s) = Inr s)"
proof -
  let ?col = "\<lambda>n. the (by_name (td_columns T) n)"
  have find: "List.map_filter (\<lambda>name. List.find (\<lambda>c. col_name c = name) (td_columns T)) (td_key T) = map ?col (td_key T)"
    by (rule map_filter_map) (use key_column[OF assms(2)] in force)
  obtain kvs where kvs: "closed v (td_key T) = Inr kvs"
    "list_all2 (\<lambda>n y. (let c = ?col n; value = field kvs (col_name c) in
        if value = PUndef then Inl (InvalidArgs ''key column is missing'')
        else andThen (encodeScalar c value) (\<lambda>s. Inr (col_name c, s))) = Inr y) (td_key T) (ek_key k)"
    "ek_params k = map (\<lambda>(n, s). toSqlite s) (ek_key k)"
    using assms(1) by (auto simp: rows_key_def table_rows_def newRowCodec_def find andThen_eq_Inr traverse_eq_Inr list_all2_map1 Let_def)
  have units: "text_units (field kvs n)" for n
    by (rule text_units_field) (use closed_units[OF kvs(1) assms(3)] in blast)
  have entries: "list_all2 (\<lambda>n y. fst y = n \<and> (\<exists>ty d. by_name (td_columns T) n = Some (Plain n ty False d) \<and>
      checkScalar ty (plain (snd y)) = Inr (snd y))) (td_key T) (ek_key k)"
  proof (rule list_all2_mono_mem[OF kvs(2)])
    fix n y
    assume n: "n \<in> set (td_key T)" and y: "(let c = ?col n; value = field kvs (col_name c) in
        if value = PUndef then Inl (InvalidArgs ''key column is missing'')
        else andThen (encodeScalar c value) (\<lambda>s. Inr (col_name c, s))) = Inr y"
    obtain c where c: "by_name (td_columns T) n = Some c" "col_name c = n" "order_column c" using key_column[OF assms(2) n] by blast
    obtain s where s: "encodeScalar c (field kvs n) = Inr s" "y = (n, s)"
      using y c by (auto simp: Let_def andThen_eq_Inr split: if_splits)
    then show "fst y = n \<and> (\<exists>ty d. by_name (td_columns T) n = Some (Plain n ty False d) \<and> checkScalar ty (plain (snd y)) = Inr (snd y))"
      using key_scalar[OF s(1) c(3) units] c by auto
  qed
  have "map fst (ek_key k) = td_key T"
    using entries by (auto simp: list_all2_conv_all_nth intro!: nth_equalityI)
  moreover have "\<exists>ty d. by_name (td_columns T) (fst y) = Some (Plain (fst y) ty False d) \<and> checkScalar ty (plain (snd y)) = Inr (snd y)"
    if y: "y \<in> set (ek_key k)" for y
    using list_all2_rightD[OF entries y] by auto
  ultimately show ?thesis using kvs(3) by (simp add: case_prod_unfold)
qed

lemma key_back:
  assumes R: "recorded_table T r" and k: "rows_key (table_rows T) v = Inr k" and u: "text_units v"
  shows "keyParams r (ek_key k) = Inr (ek_params k)"
proof -
  have T: "table_ok T" using R by (simp add: recorded_table_def)
  note p = rows_key_parts[OF k T u]
  have d: "distinct (map fst (ek_key k))" using p T by (simp add: table_ok_def)
  have "traverse (\<lambda>name. case map_of (ek_key k) name of
         None \<Rightarrow> Inl (InvalidArgs ''key column is missing'')
       | Some s \<Rightarrow> (case map_of (tr_columns r) name of
           None \<Rightarrow> Inl IllTyped
         | Some c \<Rightarrow> andThen (checkScalar (case cr_type c of TScalar ty \<Rightarrow> ty | TJson \<Rightarrow> TStr) (plain s)) (\<lambda>x. Inr (toSqlite x))))
       (map fst (ek_key k)) = Inr (map (\<lambda>n. toSqlite (the (map_of (ek_key k) n))) (map fst (ek_key k)))"
  proof (rule traverse_map, rule ballI)
    fix n
    assume "n \<in> set (map fst (ek_key k))"
    then obtain s where s: "(n, s) \<in> set (ek_key k)" by auto
    then obtain ty d where "by_name (td_columns T) n = Some (Plain n ty False d)" "checkScalar ty (plain s) = Inr s" using p by blast
    moreover have "map_of (ek_key k) n = Some s" using s d by simp
    ultimately show "(case map_of (ek_key k) n of
         None \<Rightarrow> Inl (InvalidArgs ''key column is missing'')
       | Some s \<Rightarrow> (case map_of (tr_columns r) n of
           None \<Rightarrow> Inl IllTyped
         | Some c \<Rightarrow> andThen (checkScalar (case cr_type c of TScalar ty \<Rightarrow> ty | TJson \<Rightarrow> TStr) (plain s)) (\<lambda>x. Inr (toSqlite x)))) =
        Inr (toSqlite (the (map_of (ek_key k) n)))"
      by (simp add: column_at[OF R] col_type_def)
  qed
  moreover have "map (\<lambda>n. toSqlite (the (map_of (ek_key k) n))) (map fst (ek_key k)) = map (\<lambda>(n, s). toSqlite s) (ek_key k)"
    using d by (auto intro!: nth_equalityI simp: case_prod_unfold)
  then have "map (\<lambda>n. toSqlite (the (map_of (ek_key k) n))) (map fst (ek_key k)) = ek_params k" using p by simp
  moreover have "length (ek_key k) = length (tr_key r)" "tr_key r = map fst (ek_key k)"
    using p table_key[OF R] by (simp_all, metis length_map)
  ultimately show ?thesis by (simp add: keyParams_def ensure_def)
qed

text \<open>A row. The serialized form of a \<open>json(...)\<close> cell is serialized as itself.\<close>

fun json_value :: "pval \<Rightarrow> bool" where
  "json_value (PArr xs) = (\<forall>x\<in>set xs. json_value x)"
| "json_value (PObj kvs) = (\<forall>kv\<in>set kvs. json_value (snd kv))"
| "json_value v = (case v of PNull \<Rightarrow> True | PText t \<Rightarrow> True | PNum n \<Rightarrow> True | PBoolean b \<Rightarrow> True | _ \<Rightarrow> False)"

lemma json_value_elements:
  assumes "list_all2 (\<lambda>x y. toJson x = Inr y) xs ys" and "\<And>x w. x \<in> set xs \<Longrightarrow> toJson x = Inr (Some w) \<Longrightarrow> json_value w"
  shows "\<forall>y\<in>set ys. json_value (case y of None \<Rightarrow> PNull | Some w \<Rightarrow> w)"
  using assms by (auto split: option.split dest!: list_all2_rightD)

lemma toJson_json: "toJson v = Inr (Some w) \<Longrightarrow> json_value w"
proof (induction v arbitrary: w rule: toJson.induct)
  case (5 xs)
  then show ?case using json_value_elements[of xs _] by (auto simp: andThen_eq_Inr traverse_eq_Inr)
next
  case (6 kvs)
  obtain ys where ys: "list_all2 (\<lambda>kv y. andThen (toJson (snd kv)) (\<lambda>z. Inr (fst kv, z)) = Inr y) kvs ys"
    "w = PObj (List.map_filter (\<lambda>(k, y). map_option (Pair k) y) ys)"
    using 6(2) by (auto simp: andThen_eq_Inr traverse_eq_Inr case_prod_unfold)
  have "json_value (snd e)" if e: "e \<in> set (List.map_filter (\<lambda>(k, y). map_option (Pair k) y) ys)" for e
  proof -
    obtain k z where z: "(k, Some z) \<in> set ys" "e = (k, z)" using e by (auto simp: List.map_filter_def)
    obtain a b where ab: "(a, b) \<in> set kvs" "toJson b = Inr (Some z)"
      using list_all2_rightD[OF ys(1) z(1)] by (force simp: andThen_eq_Inr)
    show ?thesis using 6(1)[OF ab(1) refl ab(2)] z(2) by simp
  qed
  then show ?case using ys(2) by auto
next
  case (8 operation args)
  then show ?case using json_value_elements[of args _] by (auto simp: andThen_eq_Inr traverse_eq_Inr)
next
  case (9 c args)
  then show ?case using json_value_elements[of args _] by (auto simp: andThen_eq_Inr traverse_eq_Inr)
qed auto

lemma json_toJson: "json_value w \<Longrightarrow> toJson w = Inr (Some w)"
proof (induction w)
  case (PArr xs)
  then have "traverse toJson xs = Inr (map Some xs)" by (intro traverse_map) simp
  then show ?case by (simp add: comp_def)
next
  case (PObj kvs)
  have "traverse (\<lambda>(k, v). andThen (toJson v) (\<lambda>y. Inr (k, y))) kvs = Inr (map (\<lambda>(k, v). (k, Some v)) kvs)"
    by (intro traverse_map ballI) (use PObj in \<open>fastforce split: prod.splits\<close>)
  moreover have "List.map_filter (\<lambda>(k, y). map_option (Pair k) y) (map (\<lambda>(k, v). (k, Some v)) kvs) = kvs"
    by (induction kvs) (auto simp: map_filter_simps)
  ultimately show ?case by simp
qed simp_all

text \<open>The cells of a row that \<open>put\<close> encoded, by physical name.\<close>

definition row_cells :: "row \<Rightarrow> column list \<Rightarrow> (string \<times> sql_value) list" where
  "row_cells stored cs = concat (map (\<lambda>c. (col_name c, cell_param (map_of stored (col_name c))) # (case c of
      Json n opt j \<Rightarrow> if n \<in> fst ` set stored then [(versionColumn n, SqlNum (of_int (jc_version j)))] else []
    | Plain n ty opt d \<Rightarrow> [])) cs)"

definition wire_row :: "row \<Rightarrow> (string \<times> pval) list" where
  "wire_row stored = map (\<lambda>(n, c). (n, cell_json c)) stored"

lemma map_of_wire_row: "map_of (wire_row stored) n = map_option cell_json (map_of stored n)"
  by (simp add: wire_row_def map_of_map)

lemma put_cells_back:
  assumes "row_ok all stored" and "\<forall>(n, c)\<in>set stored. \<forall>w. c = CJson w \<longrightarrow> json_value w" and "distinct (map col_name all)"
    and "\<forall>n opt j. Json n opt j \<in> set all \<longrightarrow> n \<in> fst ` set stored \<longrightarrow> map_of versions n = Some (jc_version j)"
    and "\<forall>c\<in>set all. col_name c \<notin> set (object_members @ [''__proto__''])" and "set cs \<subseteq> set all"
  shows "put_cells (wire_row stored) versions (recorded_columns cs) = Inr (row_cells stored cs)"
  using assms(6)
proof (induction cs)
  case (Cons c cs)
  have c: "c \<in> set all" and IH: "put_cells (wire_row stored) versions (recorded_columns cs) = Inr (row_cells stored cs)"
    using Cons by simp_all
  have ordinary: "col_name c \<notin> set (object_members @ [''__proto__''])" using assms(5) c by blast
  show ?case
  proof (cases "map_of stored (col_name c)")
    case None
    then have absent: "col_name c \<notin> fst ` set stored" by (simp add: map_of_eq_None_iff)
    then have opt: "col_optional c" using assms(1) c by (auto simp: row_ok_def)
    have "field (wire_row stored) (col_name c) = PUndef" using None ordinary by (simp add: field_def map_of_wire_row)
    then show ?thesis using None opt IH absent
      by (cases c) (auto simp: recorded_columns_def row_cells_def cell_param_def map_of_wire_row col_type_def)
  next
    case (Some x)
    then have m: "(col_name c, x) \<in> set stored" by (rule map_of_SomeD)
    then obtain d where d: "d \<in> set all" "col_name d = col_name c" "cell_ok d x" using assms(1) by (fastforce simp: row_ok_def)
    then have ok: "cell_ok c x" using assms(3) c by (metis distinct_map inj_onD)
    have got: "field (wire_row stored) (col_name c) = cell_json x" using Some by (simp add: map_of_wire_row)
    have present: "col_name c \<in> fst ` set stored" using m by force
    show ?thesis
    proof (cases c)
      case (Plain n ty opt df)
      then obtain s where s: "x = CScalar s" "scalar_ok ty s" using ok by (auto simp: cell_ok_def split: cell.splits)
      then show ?thesis using Plain Some IH got checkScalar_plain[OF s(2)]
        by (simp add: recorded_columns_def row_cells_def cell_param_def cell_json_def col_type_def)
    next
      case (Json n opt j)
      then obtain w where w: "x = CJson w" using ok by (auto simp: cell_ok_def split: cell.splits)
      then have "toJson w = Inr (Some w)" using assms(2) m by (intro json_toJson) fastforce
      moreover have "map_of versions n = Some (jc_version j)" using assms(4) c Json present by simp
      ultimately show ?thesis using Json Some IH got present w
        by (simp add: recorded_columns_def row_cells_def cell_param_def cell_json_def col_type_def map_of_wire_row)
    qed
  qed
qed (simp add: recorded_columns_def row_cells_def)

lemma put_columns_json:
  "put_columns kvs cs = Inr (ps, stored) \<Longrightarrow> (n, CJson w) \<in> set stored \<Longrightarrow> json_value w"
proof (induction cs arbitrary: ps stored)
  case (Cons c cs)
  from Cons.prems(1) show ?case
  proof (cases rule: put_columns_Cons)
    case (given v p cell ps' row')
    then show ?thesis
      using Cons.IH[OF given(5)] Cons.prems(2) by (cases c) (auto simp: encodeCell_Plain encodeCell_Json dest: toJson_json)
  qed (use Cons in blast)
qed simp

lemma row_cells_names:
  "x \<in> fst ` set (row_cells stored cs) \<Longrightarrow> x \<in> col_name ` set cs \<or> (\<exists>n opt j. Json n opt j \<in> set cs \<and> x = versionColumn n)"
  by (force simp: row_cells_def split: column.splits if_splits)

lemma row_cells_at:
  assumes "distinct (map col_name cs)" and "\<forall>c\<in>set cs. checkColumnName (col_name c) = Inr ()" and "c \<in> set cs"
  shows "map_of (row_cells stored cs) (col_name c) = Some (cell_param (map_of stored (col_name c)))"
    and "c = Json n opt j \<Longrightarrow> map_of (row_cells stored cs) (versionColumn n) =
      (if n \<in> fst ` set stored then Some (SqlNum (of_int (jc_version j))) else None)"
proof -
  have other: "versionColumn m \<noteq> col_name d" if "d \<in> set cs" for m d
    using assms(2) that version_no_column by metis
  show "map_of (row_cells stored cs) (col_name c) = Some (cell_param (map_of stored (col_name c)))"
    using assms other
  proof (induction cs)
    case (Cons d cs)
    have step: "row_cells stored (d # cs) = row_cells stored [d] @ row_cells stored cs" by (simp add: row_cells_def)
    show ?case
    proof (cases "c = d")
      case True
      then show ?thesis by (simp add: row_cells_def)
    next
      case False
      then have c: "c \<in> set cs" using Cons.prems by simp
      have "col_name c \<noteq> col_name d" using Cons.prems(1) c by simp (metis image_eqI)
      moreover have "col_name c \<noteq> versionColumn m" for m using Cons.prems(4)[of c m] c by simp
      ultimately have "col_name c \<notin> fst ` set (row_cells stored [d])"
        using row_cells_names[of "col_name c" stored "[d]"] by fastforce
      then have "map_of (row_cells stored [d]) (col_name c) = None" by (simp add: map_of_eq_None_iff)
      then show ?thesis using Cons c unfolding step by (simp add: map_add_def)
    qed
  qed simp
  assume cn: "c = Json n opt j"
  show "map_of (row_cells stored cs) (versionColumn n) = (if n \<in> fst ` set stored then Some (SqlNum (of_int (jc_version j))) else None)"
    using assms other
  proof (induction cs)
    case (Cons d cs)
    have step: "row_cells stored (d # cs) = row_cells stored [d] @ row_cells stored cs" by (simp add: row_cells_def)
    show ?case
    proof (cases "c = d")
      case True
      then have "versionColumn n \<notin> fst ` set (row_cells stored cs)"
        using Cons.prems cn row_cells_names[of "versionColumn n" stored cs] by (force simp: versionColumn_def)
      then have "map_of (row_cells stored cs) (versionColumn n) = None" by (simp add: map_of_eq_None_iff)
      moreover have d: "d = Json n opt j" using True cn by simp
      moreover have "map_of (row_cells stored [d]) (versionColumn n) =
          (if n \<in> fst ` set stored then Some (SqlNum (of_int (jc_version j))) else None)"
        by (simp add: d row_cells_def versionColumn_def)
      ultimately show ?thesis unfolding step by (simp add: map_add_def)
    next
      case False
      then have c: "c \<in> set cs" using Cons.prems by simp
      then have "versionColumn n \<notin> fst ` set (row_cells stored [d])"
        using Cons.prems cn row_cells_names[of "versionColumn n" stored "[d]"] by (force simp: versionColumn_def)
      then have "map_of (row_cells stored [d]) (versionColumn n) = None" by (simp add: map_of_eq_None_iff)
      then show ?thesis using Cons c unfolding step by (simp add: map_add_def)
    qed
  qed simp
qed

lemma physical_back:
  assumes "recorded_table T r"
  shows "physicalColumns (map (\<lambda>(n, r). (n, cr_type r)) (tr_columns r)) = rc_physical (table_rows T)"
  using table_columns[OF assms] by (simp add: recorded_columns_def table_rows_def newRowCodec_def comp_def)

lemma json_columns_of: "Json n opt j \<in> set cs \<Longrightarrow> (n, j) \<in> set (json_columns cs)"
  by (induction cs rule: json_columns.induct) auto

lemma put_back:
  assumes R: "recorded_table T r" and e: "rows_put (table_rows T) v version = Inr e" and u: "text_units v" and "version \<le> td_version T"
  shows "putParams r (wire_row (er_row e)) (er_columns e) version (rc_physical (table_rows T)) = Inr (er_params e)"
proof -
  let ?cs = "td_columns T" and ?row = "er_row e"
  let ?at = "\<lambda>name. if name = ROW_VERSION then SqlNum (of_int version) else sql_field (row_cells ?row ?cs) name"
  have T: "table_ok T" using R by (simp add: recorded_table_def)
  obtain kvs ps where p: "put_columns kvs ?cs = Inr (ps, ?row)"
    "er_params e = ps @ map (\<lambda>(n, j). if n \<in> fst ` set ?row then SqlNum (of_int (jc_version j)) else SqlNull) (json_columns ?cs)
      @ [SqlNum (of_int version)]"
    by (rule rows_put_parts[OF e])
  have cols: "er_columns e = map (\<lambda>(n, j). (n, jc_version j)) (filter (\<lambda>(n, j). n \<in> fst ` set ?row) (json_columns ?cs))"
    using e by (auto simp: rows_put_def table_rows_def newRowCodec_def andThen_eq_Inr Let_def case_prod_unfold)
  note names = table_names[OF R]
  have row: "row_ok ?cs ?row" by (rule put_row_ok[OF e T u])
  note params = put_columns_params[OF p(1) conjunct1[OF names]]
  have js: "\<exists>opt. Json n opt j \<in> set ?cs" if m: "(n, j) \<in> set (json_columns ?cs)" for n j using json_columns_mem[OF m] .
  have cells: "put_cells (wire_row ?row) (er_columns e) (recorded_columns ?cs) = Inr (row_cells ?row ?cs)"
  proof (rule put_cells_back[OF row _ conjunct1[OF names]])
    show "\<forall>(n, c)\<in>set ?row. \<forall>w. c = CJson w \<longrightarrow> json_value w" using put_columns_json[OF p(1)] by auto
    show "\<forall>c\<in>set ?cs. col_name c \<notin> set (object_members @ [''__proto__''])"
      using R unfolding recorded_table_def ordinary_def by blast
    show "\<forall>n opt j. Json n opt j \<in> set ?cs \<longrightarrow> n \<in> fst ` set ?row \<longrightarrow> map_of (er_columns e) n = Some (jc_version j)"
    proof (intro allI impI)
      fix n opt j
      assume "Json n opt j \<in> set ?cs" "n \<in> fst ` set ?row"
      then have "(n, j) \<in> set (filter (\<lambda>(n, j). n \<in> fst ` set ?row) (json_columns ?cs))" using json_columns_of by simp
      moreover have "distinct (map fst (filter (\<lambda>(n, j). n \<in> fst ` set ?row) (json_columns ?cs)))"
        using json_columns_distinct[OF conjunct1[OF names]] by (rule distinct_map_filter)
      ultimately have "map_of (filter (\<lambda>(n, j). n \<in> fst ` set ?row) (json_columns ?cs)) n = Some j" by simp
      then show "map_of (er_columns e) n = Some (jc_version j)" unfolding cols map_of_map by simp
    qed
  qed simp
  have first: "map (\<lambda>c. sql_field (row_cells ?row ?cs) (col_name c)) ?cs = ps"
    using params row_cells_at(1)[OF conjunct1[OF names] conjunct2[OF names], of _ ?row]
    by (auto simp: list_all2_conv_all_nth sql_field_def intro!: nth_equalityI)
  have second: "sql_field (row_cells ?row ?cs) (versionColumn n) = (if n \<in> fst ` set ?row then SqlNum (of_int (jc_version j)) else SqlNull)"
    if m: "(n, j) \<in> set (json_columns ?cs)" for n j
  proof -
    obtain opt where o: "Json n opt j \<in> set ?cs" using js[OF m] ..
    show ?thesis using row_cells_at(2)[OF conjunct1[OF names] conjunct2[OF names] o refl, of ?row] by (simp add: sql_field_def)
  qed
  have row_names: "col_name c \<noteq> ROW_VERSION" if c: "c \<in> set ?cs" for c
    using names c version_no_column[of "[]"] by (force simp: ROW_VERSION_def versionColumn_def)
  have version_names: "versionColumn n \<noteq> ROW_VERSION" if m: "(n, j) \<in> set (json_columns ?cs)" for n j
    using js[OF m] names by (force simp: ROW_VERSION_def versionColumn_def checkColumnName_def ensure_def)
  have "map ?at (map col_name ?cs) = ps" using first row_names by auto
  moreover have "map ?at (map (\<lambda>x. versionColumn (fst x)) (json_columns ?cs)) =
      map (\<lambda>(n, j). if n \<in> fst ` set ?row then SqlNum (of_int (jc_version j)) else SqlNull) (json_columns ?cs)"
    unfolding map_map comp_def
  proof (rule map_cong[OF refl])
    fix x
    assume x: "x \<in> set (json_columns ?cs)"
    obtain n j where "x = (n, j)" by (cases x)
    then show "?at (versionColumn (fst x)) =
        (case x of (n, j) \<Rightarrow> if n \<in> fst ` set ?row then SqlNum (of_int (jc_version j)) else SqlNull)"
      using second version_names x by simp
  qed
  ultimately have at: "map ?at (rc_physical (table_rows T)) = er_params e"
    unfolding p(2) table_rows_def newRowCodec_def physical_names by simp
  have "\<forall>(f, v)\<in>set (wire_row ?row). map_of (tr_columns r) f \<noteq> None"
  proof (rule ballI)
    fix x
    assume "x \<in> set (wire_row ?row)"
    then have "fst x \<in> fst ` set ?row" by (force simp: wire_row_def)
    then have "fst x \<in> set (map fst (tr_columns r))" unfolding column_names[OF R] using params by auto
    then show "case x of (f, v) \<Rightarrow> map_of (tr_columns r) f \<noteq> None" by (cases x) (simp add: map_of_eq_None_iff)
  qed
  moreover have "\<forall>(f, v)\<in>set (er_columns e). is_json_column r f \<and> map_of (wire_row ?row) f \<noteq> None"
  proof (rule ballI)
    fix x
    assume "x \<in> set (er_columns e)"
    then obtain n j where x: "x = (n, jc_version j)" "(n, j) \<in> set (json_columns ?cs)" "n \<in> fst ` set ?row" by (auto simp: cols)
    obtain opt where o: "Json n opt j \<in> set ?cs" using js[OF x(2)] ..
    have "is_json_column r n" using by_name_mem[OF conjunct1[OF names] o] by (auto simp: json_at[OF R])
    moreover have "map_of ?row n \<noteq> None" using x(3) by (simp add: map_of_eq_None_iff)
    ultimately show "case x of (f, v) \<Rightarrow> is_json_column r f \<and> map_of (wire_row ?row) f \<noteq> None"
      using x(1) by (simp add: map_of_wire_row)
  qed
  ultimately show ?thesis
    using at cells assms(4) table_columns[OF R] by (simp add: putParams_def ensure_def)
qed

subsection \<open>One write\<close>

text \<open>The origin and the replica have run the same statements and hold the same records.\<close>

definition replica_of :: "step \<Rightarrow> step \<Rightarrow> bool" where
  "replica_of s t = (sp_log t = sp_log s \<and> (\<forall>n. step_table t n = step_table s n))"

definition follows :: "(statement list \<Rightarrow> statement \<Rightarrow> nat) \<Rightarrow> string \<Rightarrow> table_record \<Rightarrow> staged_write \<Rightarrow> bool" where
  "follows changed table r w = (\<forall>s t. replica_of s t \<longrightarrow> step_table s table = Some r \<longrightarrow>
     (\<exists>s' x t'. apply_staged changed s w = Inr (s', x) \<and> applyWrite changed t (wire x) = Inr t' \<and>
        replica_of s' t' \<and> step_table s' table = Some r))"

lemma step_table_frame [simp]:
  "step_table (step_run sql params s) n = step_table s n" "step_table (s\<lparr>sp_rows := k\<rparr>) n = step_table s n"
  "sp_log (step_run sql params s) = sp_log s @ [\<lparr>st_sql = sql, st_params = params\<rparr>]"
  by (simp_all add: step_table_def step_run_def split: option.split)

lemma follows_counted:
  assumes "\<And>count. counted_statement r (wire (rec count)) = Inr (statement, count)"
    and "\<And>t count. step_table t table = Some r \<Longrightarrow> applyWrite changed t (wire (rec count)) = applyCounted changed r (wire (rec count)) t"
  shows "follows changed table r (StagedCounted statement rec)"
  using assms by (auto simp: follows_def apply_staged_def applyCounted_def replica_of_def Let_def)

text \<open>A statement of a table reads only its name and its key.\<close>

lemma record_sql_statements:
  assumes "tr_key r = key"
  shows "sql_update (record_sql r table) es = sql_update (newTableSql table cs physical key) es"
    and "sql_updateWhere (record_sql r table) = sql_updateWhere (newTableSql table cs physical key)"
    and "sql_deleteWhere (record_sql r table) = sql_deleteWhere (newTableSql table cs physical key)"
    and "ts_delete (record_sql r table) = ts_delete (newTableSql table cs physical key)"
  using assms
  by (auto simp: record_sql_def newTableSql_def sql_update_def sql_updateWhere_def sql_deleteWhere_def Let_def fun_eq_iff)

lemma set_names_json [simp]: "set_names (set_json es) = map fst es"
  by (auto simp: set_names_def set_json_def case_prod_unfold)

lemma stamped_None [simp]: "stamped None es = es"
  by (simp add: stamped_def)

lemma compileSet_nonempty: "compileSet T v = Inr es \<Longrightarrow> es \<noteq> []"
  by (auto simp: compileSet_def traverse_eq_Inr split: option.splits if_splits)

text \<open>A table as a transaction writes it: its handle's SQL, and the record the store keeps for it.\<close>

definition store_table :: "table_handle \<Rightarrow> table_record \<Rightarrow> bool" where
  "store_table h r = (recorded_table (th_def h) r \<and>
     th_sql h = newTableSql (tr_table r) (td_columns (th_def h)) (rc_physical (table_rows (th_def h))) (td_key (th_def h)))"

fun change_units :: "change \<Rightarrow> bool" where
  "change_units (CPut v) = text_units v"
| "change_units (CUpdate key v) = (text_units key \<and> text_units v)"
| "change_units (CDelete key) = text_units key"
| "change_units (CUpdateWhere w v) = (text_units w \<and> text_units v)"
| "change_units (CDeleteWhere w) = text_units w"

subsection \<open>Following a transaction\<close>

lemma change_follows:
  assumes "store_table (tch_handle st) r" and "change_step st c = Inr st'" and "change_units c"
  shows "\<exists>w. tch_staged st' = tch_staged st @ [w] \<and> tch_handle st' = tch_handle st \<and> follows changed (tr_table r) r w"
proof -
  let ?T = "th_def (tch_handle st)" and ?table = "tr_table r"
  have R: "recorded_table ?T r" and sql: "th_sql (tch_handle st) = newTableSql ?table (td_columns ?T) (rc_physical (table_rows ?T)) (td_key ?T)"
    using assms(1) by (simp_all add: store_table_def)
  have name: "ts_table (th_sql (tch_handle st)) = ?table" by (simp add: sql newTableSql_def Let_def)
  note statements = record_sql_statements[OF table_key[OF R], where table = ?table and cs = "td_columns ?T" and
      physical = "rc_physical (table_rows ?T)", folded sql]
  have W: "\<And>w n. compileWhere ?T w = Inr n \<Longrightarrow> text_units w \<Longrightarrow> checkWhere r (where_json n) = Inr n"
    by (rule where_back[OF R]) (rule compileWhere_ok)
  have E: "\<And>v es. compileSet ?T v = Inr es \<Longrightarrow> text_units v \<Longrightarrow> set_nodes r (set_json es) = Inr es"
    by (rule set_back[OF R]) (auto dest: compileSet_ok compileSet_nonempty)
  show ?thesis
  proof (cases c)
    case (CPut v)
    then obtain e where e: "rows_put (table_rows ?T) v (td_version ?T) = Inr e"
      "st' = changes_write (er_id e) (KPut (er_row e)) (changes_push (stagePut (ts_put (th_sql (tch_handle st))) ?table e (td_version ?T)) st)"
      using assms(2) by (auto simp: change_step_def changes_put_def Let_def andThen_eq_Inr name)
    have "putParams r (wire_row (er_row e)) (er_columns e) (td_version ?T) (rc_physical (table_rows ?T)) = Inr (er_params e)"
      using put_back[OF R e(1)] assms(3) CPut by simp
    then have "follows changed ?table r (stagePut (ts_put (th_sql (tch_handle st))) ?table e (td_version ?T))"
      by (auto simp: follows_def stagePut_def apply_staged_def wire_def applyWrite_def replica_record_def replica_of_def Let_def
          recordedPut_def physical_back[OF R] sql newTableSql_def wire_row_def)
    then show ?thesis unfolding e(2) by (simp add: changes_push_def changes_write_def split: option.split)
  next
    case (CUpdate key v)
    then obtain k es where e: "rows_key (table_rows ?T) key = Inr k" "compileSet ?T v = Inr es"
      "st' = changes_write (ek_id k) (KUpdate es) (changes_push (stageUpdate (sql_update (th_sql (tch_handle st)) es (ek_params k) (jsonVersions ?T es))
         ?table (ek_key k) es (recordedVersions es (jsonVersions ?T es)) None) st)"
      using assms(2) by (auto simp: change_step_def changes_update_def Let_def andThen_eq_Inr name)
    obtain vs where vs: "versionsOf r (map fst es) (recordedVersions es (jsonVersions ?T es)) = Inr vs" "map_of vs = map_of (jsonVersions ?T es)"
      using versions_back[OF R] by blast
    have "follows changed ?table r (stageUpdate (sql_update (th_sql (tch_handle st)) es (ek_params k) (jsonVersions ?T es))
         ?table (ek_key k) es (recordedVersions es (jsonVersions ?T es)) None)"
      unfolding stageUpdate_def
      by (rule follows_counted)
        (use E[OF e(2)] key_back[OF R e(1)] vs statement_versions(1)[OF vs(2)] assms(3) CUpdate in
          \<open>simp_all add: wire_def counted_statement_def setOf_def statements applyWrite_def replica_record_def\<close>)
    then show ?thesis unfolding e(3) by (simp add: changes_push_def changes_write_def split: option.split)
  next
    case (CDelete key)
    then obtain k where e: "rows_key (table_rows ?T) key = Inr k"
      "st' = changes_write (ek_id k) KDelete (changes_push (stageDelete \<lparr>st_sql = ts_delete (th_sql (tch_handle st)), st_params = ek_params k\<rparr>
         ?table (ek_key k)) st)"
      using assms(2) by (auto simp: change_step_def changes_delete_def Let_def andThen_eq_Inr name)
    have "follows changed ?table r (stageDelete \<lparr>st_sql = ts_delete (th_sql (tch_handle st)), st_params = ek_params k\<rparr> ?table (ek_key k))"
      unfolding stageDelete_def
      by (rule follows_counted)
        (use key_back[OF R e(1)] assms(3) CDelete in
          \<open>simp_all add: wire_def counted_statement_def statements applyWrite_def replica_record_def\<close>)
    then show ?thesis unfolding e(2) by (simp add: changes_push_def changes_write_def split: option.split)
  next
    case (CUpdateWhere condition v)
    then obtain w es where e: "compileWhere ?T condition = Inr w" "compileSet ?T v = Inr es"
      "st' = (changes_push (stageUpdateWhere (sql_updateWhere (th_sql (tch_handle st)) w es (jsonVersions ?T es))
         ?table w es (recordedVersions es (jsonVersions ?T es)) None) st)\<lparr>tch_bulk := True\<rparr>"
      using assms(2) by (auto simp: change_step_def changes_updateWhere_def Let_def andThen_eq_Inr name)
    obtain vs where vs: "versionsOf r (map fst es) (recordedVersions es (jsonVersions ?T es)) = Inr vs" "map_of vs = map_of (jsonVersions ?T es)"
      using versions_back[OF R] by blast
    have "follows changed ?table r (stageUpdateWhere (sql_updateWhere (th_sql (tch_handle st)) w es (jsonVersions ?T es))
         ?table w es (recordedVersions es (jsonVersions ?T es)) None)"
      unfolding stageUpdateWhere_def
      by (rule follows_counted)
        (use W[OF e(1)] E[OF e(2)] vs statement_versions(2)[OF vs(2)] assms(3) CUpdateWhere in
          \<open>simp_all add: wire_def counted_statement_def setOf_def statements applyWrite_def replica_record_def\<close>)
    then show ?thesis unfolding e(3) by (simp add: changes_push_def)
  next
    case (CDeleteWhere condition)
    then obtain w where e: "compileWhere ?T condition = Inr w"
      "st' = (changes_push (stageDeleteWhere (sql_deleteWhere (th_sql (tch_handle st)) w) ?table w) st)\<lparr>tch_bulk := True\<rparr>"
      using assms(2) by (auto simp: change_step_def changes_deleteWhere_def Let_def andThen_eq_Inr name)
    have "follows changed ?table r (stageDeleteWhere (sql_deleteWhere (th_sql (tch_handle st)) w) ?table w)"
      unfolding stageDeleteWhere_def
      by (rule follows_counted)
        (use W[OF e(1)] assms(3) CDeleteWhere in
          \<open>simp_all add: wire_def counted_statement_def statements applyWrite_def replica_record_def\<close>)
    then show ?thesis unfolding e(2) by (simp add: changes_push_def)
  qed
qed

lemma changes_follow:
  assumes "store_table (tch_handle st) r" and "run_steps change_step st cs = Inr st'" and "\<forall>c\<in>set cs. change_units c"
  shows "\<exists>ws. tch_staged st' = tch_staged st @ ws \<and> (\<forall>w\<in>set ws. follows changed (tr_table r) r w)"
  using assms
proof (induction cs arbitrary: st)
  case (Cons c cs)
  obtain st1 where st1: "change_step st c = Inr st1" "run_steps change_step st1 cs = Inr st'"
    using Cons.prems(2) by (auto simp: andThen_eq_Inr)
  obtain w where w: "tch_staged st1 = tch_staged st @ [w]" "tch_handle st1 = tch_handle st" "follows changed (tr_table r) r w"
    using change_follows[OF Cons.prems(1) st1(1)] Cons.prems(3) by auto
  obtain ws where "tch_staged st' = tch_staged st1 @ ws" "\<forall>w\<in>set ws. follows changed (tr_table r) r w"
    using Cons.IH[OF _ st1(2)] Cons.prems(1,3) w(2) by auto
  then show ?case using w by (intro exI[of _ "w # ws"]) simp
qed simp

lemma follow_run:
  assumes "\<forall>w\<in>set ws. follows changed table r w" and "replica_of s t" and "step_table s table = Some r"
  shows "\<exists>s' xs t'. thread_result (apply_staged changed) s ws = Inr (s', xs) \<and>
    run_steps (applyWrite changed) t (map wire xs) = Inr t' \<and> replica_of s' t'"
  using assms
proof (induction ws arbitrary: s t)
  case (Cons w ws)
  obtain s1 x t1 where 1: "apply_staged changed s w = Inr (s1, x)" "applyWrite changed t (wire x) = Inr t1"
    "replica_of s1 t1" "step_table s1 table = Some r"
    using Cons.prems unfolding follows_def by (metis list.set_intros(1))
  obtain s' xs t' where "thread_result (apply_staged changed) s1 ws = Inr (s', xs)"
    "run_steps (applyWrite changed) t1 (map wire xs) = Inr t'" "replica_of s' t'"
    using Cons.IH[OF _ 1(3,4)] Cons.prems(1) by auto
  then show ?case using 1(1,2) by simp
qed simp

text \<open>
  Not every schema write that the origin makes passes the replica's checks: an evolution may rename a column to a
  name that differs only in case (\<open>assertNewName\<close>), and \<open>checkAlter\<close>, which compares the new name with every
  recorded column, the renamed one included, refuses that edit.
\<close>

lemma case_rename_refused:
  assumes "map_of (tr_columns r) old \<noteq> None" and "foldAscii new = foldAscii old"
  shows "\<exists>e. checkAlter r version (EditRename old new) = Inl e"
proof -
  have "old \<in> set (map fst (tr_columns r))" using assms(1) by (simp add: map_of_eq_None_iff)
  then have "\<not> fresh_column r new" using assms(2) by (auto simp: fresh_column_def)
  then show ?thesis by (cases "version = tr_version r \<or> version = tr_version r + 1") (simp_all add: checkAlter_def Let_def)
qed

lemma case_rename_accepted:
  "\<exists>ed. ed_rename ''note'' ''Note'' (newEditor demo_table) = Inr ed \<and> ed_before ed = [EditRename ''note'' ''Note'']"
proof -
  have "(case ed_rename ''note'' ''Note'' (newEditor demo_table) of Inr ed \<Rightarrow> ed_before ed = [EditRename ''note'' ''Note''] | Inl e \<Rightarrow> False)"
    by code_simp
  then show ?thesis by (auto split: sum.splits)
qed

subsection \<open>The property\<close>

text \<open>
  C10. A replica follows its origin: on a replica that has run the same statements and holds the same records, the
  writes that the commit of a transaction's puts, updates and deletes records pass every check of the applier and
  run the same statements with the same parameters, each changing the recorded number of rows, so the replica ends
  with the same statements run and the same records. The table's columns are no members of \<open>Object.prototype\<close>.
\<close>

theorem replica_follows:
  assumes "newTable digest name v columns key indexes = Inr T" and "schemas_units columns" and "ordinary T"
    and "run_steps change_step (newChanges \<lparr>th_def = T,
        th_sql = newTableSql table (td_columns T) (rc_physical (table_rows T)) (td_key T)\<rparr> []) cs = Inr st"
    and "\<forall>c\<in>set cs. change_units c"
    and "step_table s table = Some r" and "records T r" and "tr_table r = table"
    and "sp_log t = sp_log s" and "\<forall>n. step_table t n = step_table s n"
  shows "\<exists>s' ws t'. thread_result (apply_staged changed) s (tch_staged st) = Inr (s', ws) \<and>
    run_steps (applyWrite changed) t (map wire ws) = Inr t' \<and> sp_log t' = sp_log s' \<and> (\<forall>n. step_table t' n = step_table s' n)"
proof -
  let ?h = "\<lparr>th_def = T, th_sql = newTableSql table (td_columns T) (rc_physical (table_rows T)) (td_key T)\<rparr>"
  have "recorded_table T r"
    using newTable_ok[OF assms(1,2)] newTable_fields[OF assms(1)] assms(3,7) by (simp add: recorded_table_def recorded_columns_def)
  then have "store_table (tch_handle (newChanges ?h [])) r" using assms(8) by (simp add: store_table_def newChanges_def)
  from changes_follow[OF this assms(4,5), of changed]
  have "\<forall>w\<in>set (tch_staged st). follows changed table r w" using assms(8) by (auto simp: newChanges_def)
  moreover have "replica_of s t" using assms(9,10) by (simp add: replica_of_def)
  ultimately obtain s' ws t' where "thread_result (apply_staged changed) s (tch_staged st) = Inr (s', ws)"
    "run_steps (applyWrite changed) t (map wire ws) = Inr t'" "replica_of s' t'"
    using follow_run[OF _ _ assms(6)] by blast
  then show ?thesis unfolding replica_of_def by blast
qed

definition demo_record :: table_record where
  "demo_record = \<lparr>tr_table = ''app:notes'', tr_version = 1, tr_state = Ready, tr_columns = td_record demo_table, tr_key = [''id''],
     tr_fingerprint = ''f'', tr_indexes = [(''by_n'', [''n''])]\<rparr>"

definition demo_origin :: step where
  "demo_origin = \<lparr>sp_tables = [], sp_catalog = [(''app:notes'', demo_record)], sp_log = [], sp_rows = 0\<rparr>"

definition demo_replica :: step where
  "demo_replica = \<lparr>sp_tables = [(''app:notes'', demo_record)], sp_catalog = [], sp_log = [], sp_rows = 5\<rparr>"

definition demo_changes :: "change list" where
  "demo_changes = [CPut demo_value, CUpdate demo_key demo_set, CDeleteWhere (build_prefix (PColumn ''id'') (PText [98]))]"

theorem replica_follows_witness:
  "\<exists>st s' ws t'. run_steps change_step (newChanges demo_handle []) demo_changes = Inr st \<and>
     thread_result (apply_staged (\<lambda>log statement. 1)) demo_origin (tch_staged st) = Inr (s', ws) \<and>
     run_steps (applyWrite (\<lambda>log statement. 1)) demo_replica (map wire ws) = Inr t' \<and> sp_log t' = sp_log s'"
proof -
  have h: "\<lparr>th_def = demo_table, th_sql = newTableSql ''app:notes'' (td_columns demo_table) (rc_physical (table_rows demo_table)) (td_key demo_table)\<rparr>
      = demo_handle" by code_simp
  let ?es = "[(''n'', EBin Add (ECol ''n'') (ELit (SNum 1))), (''note'', ENull)]"
  let ?id = "[SqlText [97]]"
  have "single_write demo_table (CPut demo_value) = Inr (?id, KPut demo_row)"
    "single_write demo_table (CUpdate demo_key demo_set) = Inr (?id, KUpdate ?es)"
    "compileWhere demo_table (build_prefix (PColumn ''id'') (PText [98])) = Inr (WPrefix ''id'' [98])" by code_simp+
  note demo = this
  obtain st1 where st1: "change_step (newChanges demo_handle []) (CPut demo_value) = Inr st1" "th_def (tch_handle st1) = demo_table"
    using change_single[of "newChanges demo_handle []" "CPut demo_value" ?id "KPut demo_row"] demo(1)
    by (auto simp: newChanges_def demo_handle_def)
  obtain st2 where st2: "change_step st1 (CUpdate demo_key demo_set) = Inr st2" "th_def (tch_handle st2) = demo_table"
    using change_single[of st1 "CUpdate demo_key demo_set" ?id "KUpdate ?es"] demo(2) st1(2) by auto
  obtain st where "change_step st2 (CDeleteWhere (build_prefix (PColumn ''id'') (PText [98]))) = Inr st"
    using demo(3) st2(2) by (auto simp: change_step_def changes_deleteWhere_def Let_def)
  then have st: "run_steps change_step (newChanges demo_handle []) demo_changes = Inr st"
    using st1 st2 by (simp add: demo_changes_def)
  have o: "ordinary demo_table" by code_simp
  have u: "\<forall>c\<in>set demo_changes. change_units c" by code_simp
  have r: "records demo_table demo_record" by code_simp
  have s: "step_table demo_origin ''app:notes'' = Some demo_record" "sp_log demo_replica = sp_log demo_origin"
    "\<forall>n. step_table demo_replica n = step_table demo_origin n" "tr_table demo_record = ''app:notes''"
    by (simp_all add: demo_origin_def demo_replica_def demo_record_def step_table_def)
  show ?thesis
    using replica_follows[OF demo_declared demo_units o st[folded h] u s(1) r s(4) s(2,3), of "\<lambda>log statement. 1"] st by blast
qed

end
