(* ===== verification/Session_Transcript.thy ===== *)
theory Session_Transcript
  imports Json
begin

text \<open>
  Transcripts of the agent (\<open>packages/ai/src/utils/transcript.ts\<close>, \<open>packages/ai/src/utils/text.ts\<close>, the messages of
  \<open>packages/ai/src/types.ts\<close> and \<open>packages/cli/src/core/messages.ts\<close>): the prompt and the tools in force are what
  replaying the system messages of the transcript gives. The fields that no modelled function reads are a \<open>json\<close>.
  Section names and tool names keep the order in which they were set; a section whose name is an array index, which
  JavaScript would move to the front of the object, keeps its place here too.
\<close>

subsection \<open>Messages\<close>

text \<open>
  \<open>NoContent\<close> is the \<open>null\<close> or missing content of old or edited session files, which the projection of a session
  replaces before anything reads it; its text is empty here.
\<close>

datatype block =
    TextBlock string
  | ThinkingBlock string
  | ToolCallBlock string string json
  | ImageBlock json

datatype content = ContentText string | ContentBlocks "block list" | NoContent

record tool =
  tl_name :: string
  tl_description :: string
  tl_parameters :: json
  tl_sampling :: "json option"
  tl_local :: json

record system_message =
  sys_content :: content
  sys_sections :: "(string \<times> string option) list"
  sys_toolsAdded :: "tool list option"
  sys_toolsRemoved :: "string list"
  sys_timestamp :: int

record usage =
  us_input :: nat
  us_output :: nat
  us_cacheRead :: nat
  us_cacheWrite :: nat
  us_totalTokens :: nat
  us_other :: json

record assistant_message =
  as_content :: content
  as_provider :: string
  as_model :: string
  as_usage :: "usage option"
  as_stopReason :: string
  as_timestamp :: int
  as_other :: json

record bash_message =
  bs_command :: string
  bs_output :: string
  bs_exitCode :: "int option"
  bs_cancelled :: bool
  bs_truncated :: bool
  bs_fullOutputPath :: "string option"
  bs_exclude :: bool
  bs_timestamp :: int

text \<open>\<open>ToolResultMsg\<close> has the names and the arguments of its nested calls; \<open>HookMsg\<close> is the custom message of version 2.\<close>

datatype agent_message =
    SystemMsg system_message
  | UserMsg content int
  | AssistantMsg assistant_message
  | ToolResultMsg content "(string \<times> json) list" json
  | BashMsg bash_message
  | CustomMsg string content bool "json option" int
  | HookMsg string content bool "json option" int
  | BranchSummaryMsg string string int
  | CompactionSummaryMsg string nat int

definition contentText :: "string \<Rightarrow> content \<Rightarrow> string" where
  "contentText separator c = (case c of
      ContentText t \<Rightarrow> t
    | ContentBlocks bs \<Rightarrow> join separator (List.map_filter (\<lambda>b. case b of TextBlock t \<Rightarrow> Some t | _ \<Rightarrow> None) bs)
    | NoContent \<Rightarrow> [])"

definition NEWLINE :: string where
  "NEWLINE = [CHR 0x0A]"

definition PARAGRAPH :: string where
  "PARAGRAPH = [CHR 0x0A, CHR 0x0A]"

definition getSystemMessageText :: "system_message \<Rightarrow> string" where
  "getSystemMessageText m =
     join PARAGRAPH (filter (\<lambda>p. p \<noteq> []) (contentText NEWLINE (sys_content m) # List.map_filter snd (sys_sections m)))"

definition renderSystemMessageUpdate :: "system_message \<Rightarrow> string" where
  "renderSystemMessageUpdate m =
     (let t = contentText NEWLINE (sys_content m) in
      join PARAGRAPH ((if t \<noteq> [] then [t] else []) @ map (\<lambda>(name, v). case v of
          None \<Rightarrow> ''Removed system prompt section '' @ [CHR 0x22] @ name @ [CHR 0x22] @ ''.''
        | Some text \<Rightarrow> ''Updated system prompt section '' @ [CHR 0x22] @ name @ [CHR 0x22] @ '':'' @ PARAGRAPH @ text) (sys_sections m)))"

subsection \<open>Leading messages\<close>

definition createInitialSystemMessage :: "string option \<Rightarrow> tool list option \<Rightarrow> system_message option" where
  "createInitialSystemMessage systemPrompt tools =
     (let hasSystemPrompt = (systemPrompt \<noteq> None \<and> systemPrompt \<noteq> Some []);
          hasTools = (tools \<noteq> None \<and> tools \<noteq> Some []) in
      if \<not> hasSystemPrompt \<and> \<not> hasTools then None
      else Some \<lparr>sys_content = ContentText (case systemPrompt of None \<Rightarrow> [] | Some t \<Rightarrow> t), sys_sections = [],
        sys_toolsAdded = (if hasTools then tools else None), sys_toolsRemoved = [], sys_timestamp = 0\<rparr>)"

definition normalizeContext :: "string option \<Rightarrow> tool list option \<Rightarrow> agent_message list \<Rightarrow> agent_message list" where
  "normalizeContext systemPrompt tools messages = (case createInitialSystemMessage systemPrompt tools of
      None \<Rightarrow> messages | Some m \<Rightarrow> SystemMsg m # messages)"

definition isSystemMessage :: "agent_message \<Rightarrow> bool" where
  "isSystemMessage m = (case m of SystemMsg s \<Rightarrow> True | _ \<Rightarrow> False)"

definition getInitialSystemMessage :: "agent_message list \<Rightarrow> system_message option" where
  "getInitialSystemMessage messages = (case messages of SystemMsg m # ms \<Rightarrow> Some m | _ \<Rightarrow> None)"

definition withoutInitialSystemMessage :: "agent_message list \<Rightarrow> agent_message list" where
  "withoutInitialSystemMessage messages = (if getInitialSystemMessage messages \<noteq> None then tl messages else messages)"

subsection \<open>Replaying system messages\<close>

definition system_messages :: "agent_message list \<Rightarrow> system_message list" where
  "system_messages messages = List.map_filter (\<lambda>m. case m of SystemMsg s \<Rightarrow> Some s | _ \<Rightarrow> None) messages"

definition toolsAdded :: "system_message \<Rightarrow> tool list" where
  "toolsAdded m = (case sys_toolsAdded m of None \<Rightarrow> [] | Some ts \<Rightarrow> ts)"

definition replay_tools :: "(string \<times> tool) list \<Rightarrow> system_message \<Rightarrow> (string \<times> tool) list" where
  "replay_tools tools m =
     fold (\<lambda>t ts. AList.update (tl_name t) t ts) (toolsAdded m) (fold AList.delete (sys_toolsRemoved m) tools)"

definition currentTools :: "system_message list \<Rightarrow> tool list" where
  "currentTools ms = map snd (foldl replay_tools [] ms)"

definition getCurrentTools :: "agent_message list \<Rightarrow> tool list" where
  "getCurrentTools messages = currentTools (system_messages messages)"

definition replay_section :: "string \<times> string option \<Rightarrow> (string \<times> string) list \<Rightarrow> (string \<times> string) list" where
  "replay_section = (\<lambda>(name, v) sections. case v of None \<Rightarrow> AList.delete name sections | Some t \<Rightarrow> AList.update name t sections)"

definition currentSystem :: "system_message list \<Rightarrow> system_message option" where
  "currentSystem ms =
     (let content = filter (\<lambda>t. t \<noteq> []) (map (\<lambda>m. contentText NEWLINE (sys_content m)) ms);
          sections = foldl (\<lambda>acc m. fold replay_section (sys_sections m) acc) [] ms;
          timestamp = (case ms of [] \<Rightarrow> None | m # rest \<Rightarrow> Some (sys_timestamp m));
          tools = currentTools ms in
      if timestamp = None \<and> tools = [] then None
      else Some \<lparr>sys_content = ContentText (join PARAGRAPH content), sys_sections = map (\<lambda>(n, t). (n, Some t)) sections,
        sys_toolsAdded = (if tools \<noteq> [] then Some tools else None), sys_toolsRemoved = [],
        sys_timestamp = (case timestamp of None \<Rightarrow> 0 | Some t \<Rightarrow> t)\<rparr>)"

definition getCurrentSystemMessage :: "agent_message list \<Rightarrow> system_message option" where
  "getCurrentSystemMessage messages = currentSystem (system_messages messages)"

definition getCurrentSystemPrompt :: "agent_message list \<Rightarrow> string" where
  "getCurrentSystemPrompt messages = (case getCurrentSystemMessage messages of None \<Rightarrow> [] | Some m \<Rightarrow> getSystemMessageText m)"

definition collapseSystemMessages :: "agent_message list \<Rightarrow> agent_message list" where
  "collapseSystemMessages messages =
     (let rest = filter (\<lambda>m. \<not> isSystemMessage m) messages in
      case getCurrentSystemMessage messages of None \<Rightarrow> rest | Some head \<Rightarrow> SystemMsg head # rest)"

definition resolveTranscript :: "bool \<Rightarrow> agent_message list \<Rightarrow> agent_message list" where
  "resolveTranscript supported messages = (if supported then messages else collapseSystemMessages messages)"

subsection \<open>Tool declarations\<close>

text \<open>The declaration of a tool; the serialized parameters are represented by their value.\<close>

definition toToolDeclaration :: "tool \<Rightarrow> tool" where
  "toToolDeclaration t = t\<lparr>tl_local := JNull\<rparr>"

definition declarationsEqual :: "tool \<Rightarrow> tool \<Rightarrow> bool" where
  "declarationsEqual left right = (toToolDeclaration left = toToolDeclaration right)"

text \<open>\<open>new Map(tools.map((tool) => [tool.name, tool]))\<close>.\<close>

definition tool_map :: "tool list \<Rightarrow> string \<Rightarrow> tool option" where
  "tool_map tools = map_of (map (\<lambda>t. (tl_name t, t)) (rev tools))"

definition getToolStateChanges :: "tool list \<Rightarrow> tool list \<Rightarrow> tool list \<times> string list" where
  "getToolStateChanges previous current =
     (map toToolDeclaration (filter (\<lambda>t. case tool_map previous (tl_name t) of
          None \<Rightarrow> True | Some p \<Rightarrow> \<not> declarationsEqual p t) current),
      map tl_name (filter (\<lambda>t. case tool_map current (tl_name t) of
          None \<Rightarrow> True | Some c \<Rightarrow> \<not> declarationsEqual t c) previous))"

definition getDeclaredTools :: "agent_message list \<Rightarrow> tool list" where
  "getDeclaredTools messages =
     map snd (fold (\<lambda>t ts. AList.update (tl_name t) t ts) (concat (map toolsAdded (system_messages messages))) [])"

fun redefinition :: "(string \<times> tool) list \<Rightarrow> tool list \<Rightarrow> bool" where
  "redefinition declared [] = False"
| "redefinition declared (t # ts) =
     (case map_of declared (tl_name t) of
        Some previous \<Rightarrow> if declarationsEqual previous t then redefinition (AList.update (tl_name t) t declared) ts else True
      | None \<Rightarrow> redefinition (AList.update (tl_name t) t declared) ts)"

definition hasToolRedefinitions :: "agent_message list \<Rightarrow> bool" where
  "hasToolRedefinitions messages = redefinition [] (concat (map toolsAdded (system_messages messages)))"

subsection \<open>Tool changes on a transport\<close>

text \<open>The loop of \<open>findLastNonAdditiveToolChange\<close>: the names declared, the index of the message, the last one found.\<close>

fun declare_names :: "string list \<Rightarrow> tool list \<Rightarrow> bool \<times> string list" where
  "declare_names declared [] = (False, declared)"
| "declare_names declared (t # ts) =
     (let (again, names) = declare_names (tl_name t # declared) ts in (tl_name t \<in> set declared \<or> again, names))"

fun last_non_additive :: "string list \<Rightarrow> nat \<Rightarrow> int \<Rightarrow> system_message list \<Rightarrow> int" where
  "last_non_additive declared i found [] = found"
| "last_non_additive declared i found (m # ms) =
     (let (again, names) = declare_names declared (toolsAdded m) in
      last_non_additive names (Suc i) (if sys_toolsRemoved m \<noteq> [] \<or> again then int i else found) ms)"

definition findLastNonAdditiveToolChange :: "system_message list \<Rightarrow> int" where
  "findLastNonAdditiveToolChange ms = last_non_additive [] 0 (- 1) ms"

definition hasNonAdditiveToolChanges :: "agent_message list \<Rightarrow> bool" where
  "hasNonAdditiveToolChanges messages = (findLastNonAdditiveToolChange (system_messages messages) \<ge> 0)"

datatype tool_support = NoChanges | Additions | Changes

record transcript_tools =
  tt_requestTools :: "tool list"
  tt_folded :: nat

definition resolveTranscriptTools :: "agent_message list \<Rightarrow> tool_support \<Rightarrow> transcript_tools" where
  "resolveTranscriptTools messages support =
     (let ms = system_messages messages in
      case support of
        NoChanges \<Rightarrow> \<lparr>tt_requestTools = currentTools ms, tt_folded = length ms\<rparr>
      | Changes \<Rightarrow> \<lparr>tt_requestTools = [], tt_folded = 0\<rparr>
      | Additions \<Rightarrow>
          (let folded = max (if getInitialSystemMessage messages \<noteq> None then 1 else 0) (nat (findLastNonAdditiveToolChange ms + 1)) in
           \<lparr>tt_requestTools = currentTools (take folded ms), tt_folded = folded\<rparr>))"

subsection \<open>The messages a model gets\<close>

definition CODE :: string where
  "CODE = [CHR 0x60, CHR 0x60, CHR 0x60]"

definition bashExecutionToText :: "bash_message \<Rightarrow> string" where
  "bashExecutionToText m =
     ''Ran '' @ [CHR 0x60] @ bs_command m @ [CHR 0x60] @ NEWLINE @
     (if bs_output m \<noteq> [] then CODE @ NEWLINE @ bs_output m @ NEWLINE @ CODE else ''(no output)'') @
     (if bs_cancelled m then PARAGRAPH @ ''(command cancelled)''
      else (case bs_exitCode m of None \<Rightarrow> [] | Some code \<Rightarrow>
        if code \<noteq> 0 then PARAGRAPH @ ''Command exited with code '' @ show_int code else [])) @
     (case bs_fullOutputPath m of None \<Rightarrow> [] | Some p \<Rightarrow>
        if bs_truncated m \<and> p \<noteq> [] then PARAGRAPH @ ''[Output truncated. Full output: '' @ p @ '']'' else [])"

definition COMPACTION_SUMMARY_PREFIX :: string where
  "COMPACTION_SUMMARY_PREFIX =
     ''The conversation history before this point was compacted into the following summary:'' @ PARAGRAPH @ ''<summary>'' @ NEWLINE"

definition COMPACTION_SUMMARY_SUFFIX :: string where
  "COMPACTION_SUMMARY_SUFFIX = NEWLINE @ ''</summary>''"

definition BRANCH_SUMMARY_PREFIX :: string where
  "BRANCH_SUMMARY_PREFIX =
     ''The following is a summary of a branch that this conversation came back from:'' @ PARAGRAPH @ ''<summary>'' @ NEWLINE"

definition BRANCH_SUMMARY_SUFFIX :: string where
  "BRANCH_SUMMARY_SUFFIX = ''</summary>''"

definition to_llm :: "agent_message \<Rightarrow> agent_message option" where
  "to_llm m = (case m of
      BashMsg b \<Rightarrow> if bs_exclude b then None else Some (UserMsg (ContentBlocks [TextBlock (bashExecutionToText b)]) (bs_timestamp b))
    | CustomMsg ty c display details time \<Rightarrow>
        Some (UserMsg (case c of ContentText t \<Rightarrow> ContentBlocks [TextBlock t] | _ \<Rightarrow> c) time)
    | BranchSummaryMsg summary fromId time \<Rightarrow>
        Some (UserMsg (ContentBlocks [TextBlock (BRANCH_SUMMARY_PREFIX @ summary @ BRANCH_SUMMARY_SUFFIX)]) time)
    | CompactionSummaryMsg summary tokensBefore time \<Rightarrow>
        Some (UserMsg (ContentBlocks [TextBlock (COMPACTION_SUMMARY_PREFIX @ summary @ COMPACTION_SUMMARY_SUFFIX)]) time)
    | HookMsg ty c display details time \<Rightarrow> None
    | _ \<Rightarrow> Some m)"

definition convertToLlm :: "agent_message list \<Rightarrow> agent_message list" where
  "convertToLlm messages = List.map_filter to_llm messages"

end
