(* ===== verification/Session_Tree.thy ===== *)
theory Session_Tree
  imports Session_Transcript
begin

text \<open>
  The entries of a session and their projection to the context of the model
  (\<open>packages/cli/src/core/session-manager.ts\<close>, its functions on entries). A timestamp is the instant that its ISO
  text stands for. Text that a file stores without an id is the empty id, which the code treats like a missing one.
\<close>

subsection \<open>Entries\<close>

record compaction =
  cp_summary :: string
  cp_firstKept :: string
  cp_firstKeptIndex :: "nat option"
  cp_tokensBefore :: nat
  cp_details :: "json option"
  cp_usage :: "usage option"
  cp_fromHook :: "bool option"
  cp_systemMessage :: "system_message option"

datatype entry_body =
    Message agent_message
  | ThinkingLevelChange string
  | ModelChange string string
  | UsageEntry string string string usage "string option"
  | Compaction compaction
  | BranchSummary string string "json option" "usage option" "bool option"
  | Custom string "json option"
  | CustomMessage string content bool "json option"
  | ContextEdit string "content option"
  | LabelEntry string "string option"
  | SessionInfo "string option"

record session_entry =
  en_id :: string
  en_parentId :: "string option"
  en_timestamp :: int
  en_body :: entry_body

type_synonym index = "(string \<times> session_entry) list"

definition is_compaction :: "session_entry \<Rightarrow> bool" where
  "is_compaction e = (case en_body e of Compaction c \<Rightarrow> True | _ \<Rightarrow> False)"

definition getLatestCompactionEntry :: "session_entry list \<Rightarrow> session_entry option" where
  "getLatestCompactionEntry es = List.find is_compaction (rev es)"

subsection \<open>The path to the root\<close>

definition buildEntryIndex :: "session_entry list \<Rightarrow> index option \<Rightarrow> index" where
  "buildEntryIndex entries byId = (case byId of Some index \<Rightarrow> index | None \<Rightarrow> fold (\<lambda>e. AList.update (en_id e) e) entries [])"

definition parent_entry :: "index \<Rightarrow> session_entry \<Rightarrow> session_entry option" where
  "parent_entry index e = (case en_parentId e of None \<Rightarrow> None | Some p \<Rightarrow> if p = [] then None else map_of index p)"

text \<open>The loop that follows parents, which does not end on a cycle; the path is reversed after it.\<close>

partial_function (option) walk_up :: "index \<Rightarrow> session_entry option \<Rightarrow> session_entry list \<Rightarrow> session_entry list option" where
  "walk_up index current path = (case current of
      None \<Rightarrow> Some path
    | Some e \<Rightarrow> walk_up index (parent_entry index e) (e # path))"

definition last_entry :: "session_entry list \<Rightarrow> session_entry option" where
  "last_entry entries = (if entries = [] then None else Some (last entries))"

text \<open>The entry a path starts from: \<open>leaf\<close> is \<open>null\<close> (\<open>Some None\<close>), an id or left out (\<open>None\<close>).\<close>

definition path_start :: "session_entry list \<Rightarrow> string option option \<Rightarrow> index \<Rightarrow> session_entry option" where
  "path_start entries leaf index = (case leaf of
      Some None \<Rightarrow> None
    | Some (Some i) \<Rightarrow> (case (if i = [] then None else map_of index i) of Some e \<Rightarrow> Some e | None \<Rightarrow> last_entry entries)
    | None \<Rightarrow> last_entry entries)"

definition buildSessionPath :: "session_entry list \<Rightarrow> string option option \<Rightarrow> index option \<Rightarrow> session_entry list option" where
  "buildSessionPath entries leaf byId = (let index = buildEntryIndex entries byId in walk_up index (path_start entries leaf index) [])"

subsection \<open>The context\<close>

definition context_setting :: "string \<times> (string \<times> string) option \<Rightarrow> session_entry \<Rightarrow> string \<times> (string \<times> string) option" where
  "context_setting = (\<lambda>(level, model) e. case en_body e of
      ThinkingLevelChange l \<Rightarrow> (l, model)
    | ModelChange provider modelId \<Rightarrow> (level, Some (provider, modelId))
    | Message (AssistantMsg a) \<Rightarrow> (level, Some (as_provider a, as_model a))
    | _ \<Rightarrow> (level, model))"

definition getSessionContextSettings :: "session_entry list \<Rightarrow> string \<times> (string \<times> string) option" where
  "getSessionContextSettings path = foldl context_setting (''off'', None) path"

definition present :: "content \<Rightarrow> content \<Rightarrow> content" where
  "present c fallback = (if c = NoContent then fallback else c)"

definition sessionEntryToContextMessages :: "session_entry \<Rightarrow> agent_message list" where
  "sessionEntryToContextMessages e = (case en_body e of
      Message m \<Rightarrow> [case m of
          SystemMsg s \<Rightarrow> SystemMsg (s\<lparr>sys_content := present (sys_content s) (ContentText [])\<rparr>)
        | UserMsg c t \<Rightarrow> UserMsg (present c (ContentBlocks [])) t
        | AssistantMsg a \<Rightarrow> AssistantMsg (a\<lparr>as_content := present (as_content a) (ContentBlocks [])\<rparr>)
        | ToolResultMsg c calls other \<Rightarrow> ToolResultMsg (present c (ContentBlocks [])) calls other
        | _ \<Rightarrow> m]
    | CustomMessage ty c display details \<Rightarrow> [CustomMsg ty (present c (ContentBlocks [])) display details (en_timestamp e)]
    | BranchSummary fromId summary details us hook \<Rightarrow> if summary = [] then [] else [BranchSummaryMsg summary fromId (en_timestamp e)]
    | Compaction c \<Rightarrow>
        (let summary = CompactionSummaryMsg (cp_summary c) (cp_tokensBefore c) (en_timestamp e) in
         case cp_systemMessage c of Some s \<Rightarrow> [SystemMsg s, summary] | None \<Rightarrow> [summary])
    | _ \<Rightarrow> [])"

definition is_system_entry :: "session_entry \<Rightarrow> bool" where
  "is_system_entry e = (case en_body e of Message m \<Rightarrow> isSystemMessage m | _ \<Rightarrow> False)"

text \<open>The loop over the entries before the compaction: the kept ones, from \<open>firstKeptEntryId\<close> on, without system messages.\<close>

fun kept_entries :: "string \<Rightarrow> bool \<Rightarrow> session_entry list \<Rightarrow> session_entry list" where
  "kept_entries first found [] = []"
| "kept_entries first found (e # es) =
     (let found' = (found \<or> en_id e = first) in
      (if found' \<and> \<not> is_system_entry e then [e] else []) @ kept_entries first found' es)"

definition context_of_path :: "session_entry list \<Rightarrow> session_entry list" where
  "context_of_path path = (case getLatestCompactionEntry path of
      None \<Rightarrow> path
    | Some c \<Rightarrow> (case en_body c of Compaction body \<Rightarrow>
        (let i = length (takeWhile (\<lambda>e. en_id e \<noteq> en_id c) path) in
         [c] @ kept_entries (cp_firstKept body) False (take i path) @ drop (Suc i) path) | _ \<Rightarrow> path))"

definition buildContextEntries :: "session_entry list \<Rightarrow> string option option \<Rightarrow> index option \<Rightarrow> session_entry list option" where
  "buildContextEntries entries leaf byId = map_option context_of_path (buildSessionPath entries leaf byId)"

definition edit_content :: "content \<Rightarrow> agent_message \<Rightarrow> agent_message" where
  "edit_content c m =
     (let blocks = (case c of ContentText t \<Rightarrow> ContentBlocks [TextBlock t] | _ \<Rightarrow> c) in
      case m of
        UserMsg old t \<Rightarrow> UserMsg c t
      | AssistantMsg a \<Rightarrow> AssistantMsg (a\<lparr>as_content := blocks\<rparr>)
      | ToolResultMsg old calls other \<Rightarrow> ToolResultMsg blocks calls other
      | CustomMsg ty old display details t \<Rightarrow> CustomMsg ty c display details t
      | _ \<Rightarrow> m)"

text \<open>\<open>edit\<close>: none, an edit that omits the entry (\<open>Some None\<close>), or one that replaces its content.\<close>

definition projectContextEntry :: "session_entry \<Rightarrow> content option option \<Rightarrow> agent_message list" where
  "projectContextEntry e edit = (case edit of
      None \<Rightarrow> sessionEntryToContextMessages e
    | Some None \<Rightarrow> []
    | Some (Some c) \<Rightarrow> map (edit_content c) (sessionEntryToContextMessages e))"

definition context_edits :: "session_entry list \<Rightarrow> (string \<times> content option) list" where
  "context_edits es = fold (\<lambda>e edits. case en_body e of ContextEdit target c \<Rightarrow> AList.update target c edits | _ \<Rightarrow> edits) es []"

record projection =
  pj_entries :: "(session_entry \<times> agent_message list) list"
  pj_messages :: "agent_message list"
  pj_thinkingLevel :: string
  pj_model :: "(string \<times> string) option"

definition project_entries :: "session_entry list \<Rightarrow> (session_entry \<times> agent_message list) list" where
  "project_entries es =
     (let edits = context_edits es in
      map (\<lambda>(i, e). (e, if is_compaction e \<and> i > 0 then [] else projectContextEntry e (map_of edits (en_id e)))) (enumerate 0 es))"

definition project_path :: "session_entry list \<Rightarrow> projection" where
  "project_path path =
     (let (level, model) = getSessionContextSettings path; es = project_entries (context_of_path path) in
      \<lparr>pj_entries = es, pj_messages = concat (map snd es), pj_thinkingLevel = level, pj_model = model\<rparr>)"

definition buildSessionProjection :: "session_entry list \<Rightarrow> string option option \<Rightarrow> index option \<Rightarrow> projection option" where
  "buildSessionProjection entries leaf byId = map_option project_path (buildSessionPath entries leaf byId)"

definition buildSessionContext ::
  "session_entry list \<Rightarrow> string option option \<Rightarrow> index option \<Rightarrow> (agent_message list \<times> string \<times> (string \<times> string) option) option" where
  "buildSessionContext entries leaf byId =
     map_option (\<lambda>p. (pj_messages p, pj_thinkingLevel p, pj_model p)) (buildSessionProjection entries leaf byId)"

end
