(* ===== verification/Session_Manager.thy ===== *)
theory Session_Manager
  imports Session_Tree
begin

text \<open>
  The session manager (class \<open>SessionManager\<close> of \<open>packages/cli/src/core/session-manager.ts\<close>): an append-only tree of
  entries with a leaf, kept in memory and in a file of one JSON line per entry. A line is represented by the entry it
  holds. The clock, random ids, the lock another process may hold and whether a write succeeds are in \<open>io\<close>; a
  failing write changes no file. An operation gives the state it leaves and its result, also when it throws.
\<close>

subsection \<open>Files\<close>

record header =
  hd_version :: "nat option"
  hd_id :: string
  hd_timestamp :: int
  hd_cwd :: string
  hd_parentSession :: "string option"

datatype file_entry = Header header | Entry session_entry

datatype line = Line file_entry | Blank | Malformed

record text_file =
  tf_lines :: "line list"
  tf_ended :: bool

definition written :: "file_entry list \<Rightarrow> text_file" where
  "written es = \<lparr>tf_lines = map Line es, tf_ended = True\<rparr>"

text \<open>A line appended to a text that does not end in a newline joins its last line.\<close>

definition append_line :: "file_entry \<Rightarrow> text_file \<Rightarrow> text_file" where
  "append_line e f = \<lparr>tf_lines = (if tf_ended f \<or> tf_lines f = [] then tf_lines f @ [Line e]
     else butlast (tf_lines f) @ [if last (tf_lines f) = Blank then Line e else Malformed]), tf_ended = True\<rparr>"

definition CURRENT_SESSION_VERSION :: nat where
  "CURRENT_SESSION_VERSION = 3"

definition parsed :: "line list \<Rightarrow> file_entry list" where
  "parsed ls = List.map_filter (\<lambda>l. case l of Line e \<Rightarrow> Some e | _ \<Rightarrow> None) ls"

definition loadEntriesFromFile :: "text_file option \<Rightarrow> file_entry list" where
  "loadEntriesFromFile file = (case file of
      None \<Rightarrow> []
    | Some f \<Rightarrow> (case parsed (tf_lines f) of Header h # es \<Rightarrow> Header h # es | _ \<Rightarrow> []))"

definition repairFinalNewline :: "text_file \<Rightarrow> text_file" where
  "repairFinalNewline f = (if tf_lines f = [] then f else f\<lparr>tf_ended := True\<rparr>)"

definition readSessionHeader :: "text_file \<Rightarrow> header option" where
  "readSessionHeader f = (case parsed (tf_lines f) of Header h # es \<Rightarrow> Some h | _ \<Rightarrow> None)"

definition entries_of :: "file_entry list \<Rightarrow> session_entry list" where
  "entries_of es = List.map_filter (\<lambda>e. case e of Entry x \<Rightarrow> Some x | Header h \<Rightarrow> None) es"

definition find_header :: "file_entry list \<Rightarrow> header option" where
  "find_header es = (case List.map_filter (\<lambda>e. case e of Header h \<Rightarrow> Some h | Entry x \<Rightarrow> None) es of [] \<Rightarrow> None | h # hs \<Rightarrow> Some h)"

subsection \<open>Ids\<close>

datatype session_error =
    SessionClosed | SessionLockLost | SessionLocked | InvalidSessionId | InvalidSession | WriteFailed
  | DestinationExists | EntryNotFound string | NotOnBranch string | NotEditable string | BadReplacement
  | Hangs                                             \<comment> \<open>a walk to the root that does not end\<close>

definition id_edge :: "char \<Rightarrow> bool" where
  "id_edge c = (let n = (of_char c :: nat) in 48 \<le> n \<and> n \<le> 57 \<or> 65 \<le> n \<and> n \<le> 90 \<or> 97 \<le> n \<and> n \<le> 122)"

definition assertValidSessionId :: "string \<Rightarrow> (session_error, unit) result" where
  "assertValidSessionId i =
     ensure (i \<noteq> [] \<and> id_edge (hd i) \<and> id_edge (last i) \<and> (\<forall>c\<in>set i. id_edge c \<or> c \<in> set ''._-'')) InvalidSessionId"

fun generate_id :: "(nat \<Rightarrow> string) \<Rightarrow> (string \<Rightarrow> bool) \<Rightarrow> nat \<Rightarrow> nat \<Rightarrow> string \<times> nat" where
  "generate_id uuid has 0 n = (uuid n, Suc n)"
| "generate_id uuid has (Suc tries) n =
     (let i = take 8 (uuid n) in if has i then generate_id uuid has tries (Suc n) else (i, Suc n))"

definition generateId :: "(nat \<Rightarrow> string) \<Rightarrow> (string \<Rightarrow> bool) \<Rightarrow> nat \<Rightarrow> string \<times> nat" where
  "generateId uuid has n = generate_id uuid has 100 n"

subsection \<open>Migrations\<close>

text \<open>
  Version 1 had no tree: \<open>n\<close> counts the random ids drawn, \<open>before\<close> is the part of the list already changed. The set
  that the code checks new ids against stays empty.
\<close>

fun migrate_entries :: "(nat \<Rightarrow> string) \<Rightarrow> nat \<Rightarrow> string option \<Rightarrow> file_entry list \<Rightarrow> file_entry list \<Rightarrow> file_entry list \<times> nat" where
  "migrate_entries uuid n prev before [] = (before, n)"
| "migrate_entries uuid n prev before (Header h # rest) =
     migrate_entries uuid n prev (before @ [Header (h\<lparr>hd_version := Some 2\<rparr>)]) rest"
| "migrate_entries uuid n prev before (Entry e # rest) =
     (let (i, n') = generateId uuid (\<lambda>x. False) n;
          e1 = e\<lparr>en_id := i, en_parentId := prev\<rparr>;
          e2 = (case en_body e1 of
              Compaction c \<Rightarrow> (case cp_firstKeptIndex c of
                  None \<Rightarrow> e1
                | Some k \<Rightarrow>
                    (let all = before @ Entry e1 # rest;
                         kept = (if k < length all then (case all ! k of Entry t \<Rightarrow> en_id t | Header h \<Rightarrow> cp_firstKept c) else cp_firstKept c) in
                     e1\<lparr>en_body := Compaction (c\<lparr>cp_firstKept := kept, cp_firstKeptIndex := None\<rparr>)\<rparr>))
            | _ \<Rightarrow> e1) in
      migrate_entries uuid n' (Some i) (before @ [Entry e2]) rest)"

definition migrateV1ToV2 :: "(nat \<Rightarrow> string) \<Rightarrow> nat \<Rightarrow> file_entry list \<Rightarrow> file_entry list \<times> nat" where
  "migrateV1ToV2 uuid n es = migrate_entries uuid n None [] es"

definition migrateV2ToV3 :: "file_entry list \<Rightarrow> file_entry list" where
  "migrateV2ToV3 es = map (\<lambda>e. case e of
      Header h \<Rightarrow> Header (h\<lparr>hd_version := Some 3\<rparr>)
    | Entry x \<Rightarrow> Entry (case en_body x of
        Message (HookMsg ty c display details t) \<Rightarrow> x\<lparr>en_body := Message (CustomMsg ty c display details t)\<rparr> | _ \<Rightarrow> x)) es"

definition session_version :: "file_entry list \<Rightarrow> nat" where
  "session_version es = (case find_header es of None \<Rightarrow> 1 | Some h \<Rightarrow> (case hd_version h of None \<Rightarrow> 1 | Some v \<Rightarrow> v))"

definition migrateToCurrentVersion :: "(nat \<Rightarrow> string) \<Rightarrow> nat \<Rightarrow> file_entry list \<Rightarrow> bool \<times> file_entry list \<times> nat" where
  "migrateToCurrentVersion uuid n es =
     (let version = session_version es in
      if version \<ge> CURRENT_SESSION_VERSION then (False, es, n)
      else let (es1, n1) = (if version < 2 then migrateV1ToV2 uuid n es else (es, n)) in (True, migrateV2ToV3 es1, n1))"

subsection \<open>The manager\<close>

text \<open>The lock is the file it covers and whether it was lost; \<open>ss_disk\<close> are the session files, \<open>ss_random\<close> counts random ids.\<close>

record session =
  ss_id :: string
  ss_file :: "string option"
  ss_cwd :: string
  ss_persist :: bool
  ss_flushed :: bool
  ss_entries :: "file_entry list"
  ss_byId :: index
  ss_labels :: "(string \<times> string) list"
  ss_labelTimes :: "(string \<times> int) list"
  ss_leaf :: "string option"
  ss_lock :: "(string \<times> bool) option"
  ss_closed :: bool
  ss_disk :: "(string \<times> text_file) list"
  ss_random :: nat

record io =
  io_now :: int
  io_write :: bool
  io_free :: "string \<Rightarrow> bool"
  io_uuid :: "nat \<Rightarrow> string"
  io_sessionId :: string
  io_path :: "string \<Rightarrow> string"

type_synonym 'a outcome = "session \<times> (session_error, 'a) result"

definition then_do :: "'a outcome \<Rightarrow> (session \<Rightarrow> 'a \<Rightarrow> 'b outcome) \<Rightarrow> 'b outcome" where
  "then_do r f = (case r of (s, Inl e) \<Rightarrow> (s, Inl e) | (s, Inr x) \<Rightarrow> f s x)"

definition assertWritable :: "session \<Rightarrow> (session_error, unit) result" where
  "assertWritable s =
     (if \<not> ss_persist s then Inr ()
      else if ss_closed s then Inl SessionClosed
      else (case ss_file s of None \<Rightarrow> Inr () | Some f \<Rightarrow> (case ss_lock s of
          None \<Rightarrow> Inl SessionLockLost
        | Some (file, lost) \<Rightarrow> if file \<noteq> f \<or> lost then Inl SessionLockLost else Inr ())))"

definition close_session :: "session \<Rightarrow> session" where
  "close_session s = (if ss_persist s then s\<lparr>ss_closed := True, ss_lock := None\<rparr> else s)"

definition hasLostLock :: "session \<Rightarrow> bool" where
  "hasLostLock s = (\<not> ss_closed s \<and> ss_file s \<noteq> None \<and> ss_file s \<noteq> Some [] \<and>
     (case ss_lock s of None \<Rightarrow> True | Some (file, lost) \<Rightarrow> lost))"

definition index_entry :: "session \<Rightarrow> session_entry \<Rightarrow> session" where
  "index_entry s e =
     (let s1 = s\<lparr>ss_byId := AList.update (en_id e) e (ss_byId s), ss_leaf := Some (en_id e)\<rparr> in
      case en_body e of
        LabelEntry target label \<Rightarrow>
          (if label \<noteq> None \<and> label \<noteq> Some []
           then s1\<lparr>ss_labels := AList.update target (the label) (ss_labels s1),
                   ss_labelTimes := AList.update target (en_timestamp e) (ss_labelTimes s1)\<rparr>
           else s1\<lparr>ss_labels := AList.delete target (ss_labels s1), ss_labelTimes := AList.delete target (ss_labelTimes s1)\<rparr>)
      | _ \<Rightarrow> s1)"

definition buildIndex :: "session \<Rightarrow> session" where
  "buildIndex s = foldl index_entry (s\<lparr>ss_byId := [], ss_labels := [], ss_labelTimes := [], ss_leaf := None\<rparr>) (entries_of (ss_entries s))"

definition write_file :: "string \<Rightarrow> text_file \<Rightarrow> session \<Rightarrow> session" where
  "write_file f t s = s\<lparr>ss_disk := AList.update f t (ss_disk s)\<rparr>"

definition rewriteFile :: "io \<Rightarrow> session \<Rightarrow> unit outcome" where
  "rewriteFile io s = (case assertWritable s of
      Inl e \<Rightarrow> (s, Inl e)
    | Inr u \<Rightarrow> (case ss_file s of
        Some f \<Rightarrow> if \<not> ss_persist s then (s, Inr ())
          else if io_write io then (write_file f (written (ss_entries s)) s, Inr ()) else (s, Inl WriteFailed)
      | None \<Rightarrow> (s, Inr ())))"

definition newSession :: "io \<Rightarrow> string option \<Rightarrow> string option \<Rightarrow> session \<Rightarrow> (string option) outcome" where
  "newSession io given parent s = (case andThen (assertWritable s) (\<lambda>_. case given of None \<Rightarrow> Inr () | Some i \<Rightarrow> assertValidSessionId i) of
      Inl e \<Rightarrow> (s, Inl e)
    | Inr u \<Rightarrow>
        (let i = (case given of None \<Rightarrow> io_sessionId io | Some i \<Rightarrow> i);
             header = \<lparr>hd_version = Some CURRENT_SESSION_VERSION, hd_id = i, hd_timestamp = io_now io, hd_cwd = ss_cwd s, hd_parentSession = parent\<rparr>;
             file = (if ss_persist s then Some (io_path io i) else None) in
         if file \<noteq> None \<and> \<not> io_free io (the file) then (s, Inl SessionLocked)
         else (s\<lparr>ss_id := i, ss_file := file, ss_lock := map_option (\<lambda>f. (f, False)) file, ss_entries := [Header header],
                 ss_byId := [], ss_labels := [], ss_labelTimes := [], ss_leaf := None, ss_flushed := False\<rparr>, Inr file)))"

definition loadEntries :: "io \<Rightarrow> file_entry list \<Rightarrow> string option \<Rightarrow> string option \<Rightarrow> session \<Rightarrow> unit outcome" where
  "loadEntries io es given parent s = (case find_header es of
      Some h \<Rightarrow> (case assertValidSessionId (hd_id h) of
          Inl e \<Rightarrow> (s, Inl e)
        | Inr u \<Rightarrow>
            (let (changed, es1, n) = migrateToCurrentVersion (io_uuid io) (ss_random s) es;
                 s1 = s\<lparr>ss_entries := es1, ss_id := hd_id h, ss_random := n\<rparr> in
             if changed then then_do (rewriteFile io s1) (\<lambda>s2 _. (buildIndex s2, Inr ())) else (buildIndex s1, Inr ())))
    | None \<Rightarrow> then_do (newSession io given parent s) (\<lambda>s1 _. (buildIndex (s1\<lparr>ss_entries := ss_entries s1 @ es\<rparr>), Inr ())))"

text \<open>What follows a failure while a file is opened: the manager is closed.\<close>

definition or_close :: "unit outcome \<Rightarrow> unit outcome" where
  "or_close r = (case r of (s, Inl e) \<Rightarrow> (close_session s, Inl e) | (s, Inr u) \<Rightarrow> (s, Inr u))"

definition open_file :: "io \<Rightarrow> string \<Rightarrow> session \<Rightarrow> unit outcome" where
  "open_file io f s =
     (if ss_persist s \<and> \<not> io_free io f then (s, Inl SessionLocked)
      else or_close
        (let s1 = s\<lparr>ss_lock := (if ss_persist s then Some (f, False) else None), ss_file := Some f\<rparr>;
             file = map_of (ss_disk s1) f; es = loadEntriesFromFile file in
         if es = [] then
           (if file \<noteq> None \<and> tf_lines (the file) \<noteq> [] then (s1, Inl InvalidSession)
            else then_do (loadEntries io [Header \<lparr>hd_version = Some CURRENT_SESSION_VERSION, hd_id = io_sessionId io,
                   hd_timestamp = io_now io, hd_cwd = ss_cwd s1, hd_parentSession = None\<rparr>] None None s1) (\<lambda>s2 _.
                 let s3 = s2\<lparr>ss_flushed := False\<rparr> in
                 if file \<noteq> None then then_do (rewriteFile io s3) (\<lambda>s4 _. (s4\<lparr>ss_flushed := True\<rparr>, Inr ())) else (s3, Inr ())))
         else then_do (loadEntries io es None None s1) (\<lambda>s2 _.
              case assertWritable s2 of
                Inl e \<Rightarrow> (s2, Inl e)
              | Inr u \<Rightarrow> (case map_of (ss_disk s2) f of
                  None \<Rightarrow> (s2, Inl WriteFailed)
                | Some t \<Rightarrow> if io_write io then ((write_file f (repairFinalNewline t) s2)\<lparr>ss_flushed := True\<rparr>, Inr ())
                    else (s2, Inl WriteFailed)))))"

definition setSessionFile :: "io \<Rightarrow> string \<Rightarrow> session \<Rightarrow> unit outcome" where
  "setSessionFile io f s = (case assertWritable s of Inl e \<Rightarrow> (s, Inl e) | Inr u \<Rightarrow> open_file io f s)"

end
