(* ===== verification/Session_Operations.thy ===== *)
theory Session_Operations
  imports Session_Manager
begin

text \<open>
  The operations of the session manager: appends of every kind of entry, reads of the tree, branches, and the forks
  that keep one branch (\<open>packages/cli/src/core/session-manager.ts\<close>).
\<close>

subsection \<open>Appending\<close>

text \<open>A file is created once the session has a user or assistant message.\<close>

definition hasConversation :: "session \<Rightarrow> bool" where
  "hasConversation s = (\<exists>e\<in>set (entries_of (ss_entries s)). case en_body e of
      Message (UserMsg c t) \<Rightarrow> True | Message (AssistantMsg a) \<Rightarrow> True | _ \<Rightarrow> False)"

definition persist_entry :: "io \<Rightarrow> session_entry \<Rightarrow> session \<Rightarrow> unit outcome" where
  "persist_entry io e s = (case assertWritable s of
      Inl err \<Rightarrow> (s, Inl err)
    | Inr u \<Rightarrow> (case ss_file s of
        None \<Rightarrow> (s, Inr ())
      | Some f \<Rightarrow>
          if \<not> ss_persist s then (s, Inr ())
          else if \<not> ss_flushed s then
            (if \<not> hasConversation s then (s, Inr ())
             else if map_of (ss_disk s) f \<noteq> None \<or> \<not> io_write io then (s, Inl WriteFailed)
             else ((write_file f (written (ss_entries s)) s)\<lparr>ss_flushed := True\<rparr>, Inr ()))
          else if io_write io then
            (write_file f (append_line (Entry e) (case map_of (ss_disk s) f of None \<Rightarrow> \<lparr>tf_lines = [], tf_ended = True\<rparr> | Some t \<Rightarrow> t)) s, Inr ())
          else (s, Inl WriteFailed)))"

definition push_entry :: "session_entry \<Rightarrow> session \<Rightarrow> session" where
  "push_entry e s = s\<lparr>ss_entries := ss_entries s @ [Entry e], ss_byId := AList.update (en_id e) e (ss_byId s), ss_leaf := Some (en_id e)\<rparr>"

definition appendEntry :: "io \<Rightarrow> session_entry \<Rightarrow> session \<Rightarrow> unit outcome" where
  "appendEntry io e s = (case assertWritable s of
      Inl err \<Rightarrow> (s, Inl err)
    | Inr u \<Rightarrow> (case persist_entry io e (push_entry e s) of
        (s1, Inr v) \<Rightarrow> (s1, Inr ())
      | (s1, Inl err) \<Rightarrow> (s1\<lparr>ss_entries := butlast (ss_entries s1), ss_byId := AList.delete (en_id e) (ss_byId s1),
          ss_leaf := ss_leaf s\<rparr>, Inl err)))"

text \<open>A new entry, whose body may name its id.\<close>

definition fresh_entry :: "io \<Rightarrow> string option \<Rightarrow> (string \<Rightarrow> entry_body) \<Rightarrow> session \<Rightarrow> session \<times> session_entry" where
  "fresh_entry io parent body s =
     (let (i, n) = generateId (io_uuid io) (\<lambda>x. map_of (ss_byId s) x \<noteq> None) (ss_random s) in
      (s\<lparr>ss_random := n\<rparr>, \<lparr>en_id = i, en_parentId = parent, en_timestamp = io_now io, en_body = body i\<rparr>))"

definition append_body :: "io \<Rightarrow> entry_body \<Rightarrow> session \<Rightarrow> string outcome" where
  "append_body io body s =
     (let (s1, e) = fresh_entry io (ss_leaf s) (\<lambda>i. body) s in then_do (appendEntry io e s1) (\<lambda>s2 _. (s2, Inr (en_id e))))"

definition appendMessage :: "io \<Rightarrow> agent_message \<Rightarrow> session \<Rightarrow> string outcome" where
  "appendMessage io m s = append_body io (Message m) s"

definition appendThinkingLevelChange :: "io \<Rightarrow> string \<Rightarrow> session \<Rightarrow> string outcome" where
  "appendThinkingLevelChange io level s = append_body io (ThinkingLevelChange level) s"

definition appendModelChange :: "io \<Rightarrow> string \<Rightarrow> string \<Rightarrow> session \<Rightarrow> string outcome" where
  "appendModelChange io provider modelId s = append_body io (ModelChange provider modelId) s"

definition appendUsage :: "io \<Rightarrow> string \<Rightarrow> string \<Rightarrow> string \<Rightarrow> usage \<Rightarrow> string option \<Rightarrow> session \<Rightarrow> string outcome" where
  "appendUsage io kind provider model us note_text s =
     append_body io (UsageEntry kind provider model us (if note_text = Some [] then None else note_text)) s"

definition appendCustomEntry :: "io \<Rightarrow> string \<Rightarrow> json option \<Rightarrow> session \<Rightarrow> string outcome" where
  "appendCustomEntry io ty data s = append_body io (Custom ty data) s"

definition appendCustomMessageEntry :: "io \<Rightarrow> string \<Rightarrow> content \<Rightarrow> bool \<Rightarrow> json option \<Rightarrow> session \<Rightarrow> string outcome" where
  "appendCustomMessageEntry io ty c display details s = append_body io (CustomMessage ty c display details) s"

text \<open>\<open>name.replace(/[\r\n]+/g, " ").trim()\<close>; the white space of the model is that of ASCII and the no-break space.\<close>

definition white :: "char \<Rightarrow> bool" where
  "white c = ((of_char c :: nat) \<in> {9, 10, 11, 12, 13, 32, 160})"

definition trim :: "string \<Rightarrow> string" where
  "trim t = rev (dropWhile white (rev (dropWhile white t)))"

definition line_break :: "char \<Rightarrow> bool" where
  "line_break c = (c = CHR 0x0A \<or> c = CHR 0x0D)"

fun join_lines :: "bool \<Rightarrow> string \<Rightarrow> string" where
  "join_lines inside [] = []"
| "join_lines inside (c # cs) =
     (if line_break c then (if inside then [] else '' '') @ join_lines True cs else c # join_lines False cs)"

definition appendSessionInfo :: "io \<Rightarrow> string \<Rightarrow> session \<Rightarrow> string outcome" where
  "appendSessionInfo io name s = append_body io (SessionInfo (Some (trim (join_lines False name)))) s"

definition getSessionName :: "session \<Rightarrow> string option" where
  "getSessionName s = (case List.map_filter (\<lambda>e. case en_body e of SessionInfo name \<Rightarrow> Some name | _ \<Rightarrow> None) (rev (entries_of (ss_entries s))) of
      [] \<Rightarrow> None
    | name # rest \<Rightarrow> (case name of None \<Rightarrow> None | Some t \<Rightarrow> if trim t = [] then None else Some (trim t)))"

subsection \<open>Reading the tree\<close>

definition getEntries :: "session \<Rightarrow> session_entry list" where
  "getEntries s = entries_of (ss_entries s)"

definition getHeader :: "session \<Rightarrow> header option" where
  "getHeader s = find_header (ss_entries s)"

definition getEntry :: "session \<Rightarrow> string \<Rightarrow> session_entry option" where
  "getEntry s i = map_of (ss_byId s) i"

definition getLeafEntry :: "session \<Rightarrow> session_entry option" where
  "getLeafEntry s = (case ss_leaf s of None \<Rightarrow> None | Some i \<Rightarrow> if i = [] then None else map_of (ss_byId s) i)"

definition getChildren :: "session \<Rightarrow> string \<Rightarrow> session_entry list" where
  "getChildren s parent = filter (\<lambda>e. en_parentId e = Some parent) (map snd (ss_byId s))"

definition getLabel :: "session \<Rightarrow> string \<Rightarrow> string option" where
  "getLabel s i = map_of (ss_labels s) i"

definition getBranch :: "session \<Rightarrow> string option \<Rightarrow> session_entry list option" where
  "getBranch s from =
     (let start = (case from of Some i \<Rightarrow> Some i | None \<Rightarrow> ss_leaf s) in
      walk_up (ss_byId s) (case start of None \<Rightarrow> None | Some i \<Rightarrow> if i = [] then None else map_of (ss_byId s) i) [])"

definition session_projection :: "session \<Rightarrow> projection option" where
  "session_projection s = buildSessionProjection (getEntries s) (Some (ss_leaf s)) (Some (ss_byId s))"

definition session_context :: "session \<Rightarrow> (agent_message list \<times> string \<times> (string \<times> string) option) option" where
  "session_context s = buildSessionContext (getEntries s) (Some (ss_leaf s)) (Some (ss_byId s))"

text \<open>
  The tree: each entry below its parent, the oldest child first; \<open>n\<close> bounds the depth. Ids are taken to be
  distinct: of two entries with one id the code would show the later one twice.
\<close>

datatype tree_node = Node session_entry "string option" "int option" "tree_node list"

definition children_of :: "session \<Rightarrow> session_entry \<Rightarrow> session_entry list" where
  "children_of s e = sort_key en_timestamp (filter (\<lambda>c. en_parentId c = Some (en_id e) \<and> en_id c \<noteq> en_id e) (getEntries s))"

fun tree_below :: "nat \<Rightarrow> session \<Rightarrow> session_entry \<Rightarrow> tree_node" where
  "tree_below 0 s e = Node e (map_of (ss_labels s) (en_id e)) (map_of (ss_labelTimes s) (en_id e)) []"
| "tree_below (Suc n) s e =
     Node e (map_of (ss_labels s) (en_id e)) (map_of (ss_labelTimes s) (en_id e)) (map (tree_below n s) (children_of s e))"

definition tree_roots :: "session \<Rightarrow> session_entry list" where
  "tree_roots s = filter (\<lambda>e. case en_parentId e of
      None \<Rightarrow> True | Some p \<Rightarrow> p = en_id e \<or> p \<notin> en_id ` set (getEntries s)) (getEntries s)"

definition getTree :: "session \<Rightarrow> tree_node list" where
  "getTree s = map (tree_below (length (getEntries s)) s) (tree_roots s)"

subsection \<open>Appends that read the tree\<close>

definition appendCompaction ::
  "io \<Rightarrow> string \<Rightarrow> string option \<Rightarrow> nat \<Rightarrow> json option \<Rightarrow> bool option \<Rightarrow> usage option \<Rightarrow> session \<Rightarrow> string outcome" where
  "appendCompaction io summary firstKept tokensBefore details fromHook us s = (case session_projection s of
      None \<Rightarrow> (s, Inl Hangs)
    | Some p \<Rightarrow>
        (let system = map_option (\<lambda>m. m\<lparr>sys_timestamp := io_now io\<rparr>) (getCurrentSystemMessage (pj_messages p));
             (s1, e) = fresh_entry io (ss_leaf s) (\<lambda>i. Compaction \<lparr>cp_summary = summary,
               cp_firstKept = (case firstKept of None \<Rightarrow> i | Some k \<Rightarrow> k), cp_firstKeptIndex = None, cp_tokensBefore = tokensBefore,
               cp_details = details, cp_usage = us, cp_fromHook = fromHook, cp_systemMessage = system\<rparr>) s in
         then_do (appendEntry io e s1) (\<lambda>s2 _. (s2, Inr (en_id e)))))"

definition editable :: "session_entry \<Rightarrow> bool" where
  "editable e = (case en_body e of
      CustomMessage ty c display details \<Rightarrow> True
    | Message (UserMsg c t) \<Rightarrow> True | Message (AssistantMsg a) \<Rightarrow> True | Message (ToolResultMsg c calls other) \<Rightarrow> True
    | _ \<Rightarrow> False)"

definition normalize_replacement :: "session_entry \<Rightarrow> content option \<Rightarrow> content option" where
  "normalize_replacement target r = (case r of
      Some (ContentText t) \<Rightarrow> (case en_body target of
          Message (AssistantMsg a) \<Rightarrow> Some (ContentBlocks [TextBlock t])
        | Message (ToolResultMsg c calls other) \<Rightarrow> Some (ContentBlocks [TextBlock t])
        | _ \<Rightarrow> r)
    | _ \<Rightarrow> r)"

definition appendContextEdit :: "io \<Rightarrow> string \<Rightarrow> content option \<Rightarrow> session \<Rightarrow> string outcome" where
  "appendContextEdit io target replacement s =
     (case andThen (assertWritable s) (\<lambda>_.
        andThen (ensure (replacement \<noteq> Some NoContent) BadReplacement) (\<lambda>_.
        case map_of (ss_byId s) target of
          None \<Rightarrow> Inl (EntryNotFound target)
        | Some e \<Rightarrow> (case getBranch s None of
            None \<Rightarrow> Inl Hangs
          | Some path \<Rightarrow>
              andThen (ensure (target \<in> en_id ` set path) (NotOnBranch target)) (\<lambda>_.
              andThen (ensure (editable e) (NotEditable target)) (\<lambda>_. Inr e))))) of
        Inl err \<Rightarrow> (s, Inl err)
      | Inr e \<Rightarrow> append_body io (ContextEdit target (normalize_replacement e replacement)) s)"

definition set_label :: "string \<Rightarrow> string option \<Rightarrow> int \<Rightarrow> session \<Rightarrow> session" where
  "set_label target label t s =
     (if label \<noteq> None \<and> label \<noteq> Some []
      then s\<lparr>ss_labels := AList.update target (the label) (ss_labels s), ss_labelTimes := AList.update target t (ss_labelTimes s)\<rparr>
      else s\<lparr>ss_labels := AList.delete target (ss_labels s), ss_labelTimes := AList.delete target (ss_labelTimes s)\<rparr>)"

definition appendLabelChange :: "io \<Rightarrow> string \<Rightarrow> string option \<Rightarrow> session \<Rightarrow> string outcome" where
  "appendLabelChange io target label s = (case assertWritable s of
      Inl err \<Rightarrow> (s, Inl err)
    | Inr u \<Rightarrow> if map_of (ss_byId s) target = None then (s, Inl (EntryNotFound target))
        else (let (s1, e) = fresh_entry io (ss_leaf s) (\<lambda>i. LabelEntry target label) s in
              then_do (appendEntry io e s1) (\<lambda>s2 _. (set_label target label (en_timestamp e) s2, Inr (en_id e)))))"

subsection \<open>Branching\<close>

definition branch :: "string \<Rightarrow> session \<Rightarrow> unit outcome" where
  "branch i s = (case assertWritable s of
      Inl err \<Rightarrow> (s, Inl err)
    | Inr u \<Rightarrow> if map_of (ss_byId s) i = None then (s, Inl (EntryNotFound i)) else (s\<lparr>ss_leaf := Some i\<rparr>, Inr ()))"

definition resetLeaf :: "session \<Rightarrow> unit outcome" where
  "resetLeaf s = (case assertWritable s of Inl err \<Rightarrow> (s, Inl err) | Inr u \<Rightarrow> (s\<lparr>ss_leaf := None\<rparr>, Inr ()))"

definition branchWithSummary ::
  "io \<Rightarrow> string option \<Rightarrow> string \<Rightarrow> json option \<Rightarrow> bool option \<Rightarrow> usage option \<Rightarrow> session \<Rightarrow> string outcome" where
  "branchWithSummary io from summary details fromHook us s = (case assertWritable s of
      Inl err \<Rightarrow> (s, Inl err)
    | Inr u \<Rightarrow> (case from of
        Some i \<Rightarrow> if map_of (ss_byId s) i = None then (s, Inl (EntryNotFound i))
          else append_body io (BranchSummary (case ss_leaf s of None \<Rightarrow> ''root'' | Some l \<Rightarrow> l) summary details us fromHook) (s\<lparr>ss_leaf := from\<rparr>)
      | None \<Rightarrow> append_body io (BranchSummary (case ss_leaf s of None \<Rightarrow> ''root'' | Some l \<Rightarrow> l) summary details us fromHook) (s\<lparr>ss_leaf := None\<rparr>)))"

text \<open>
  The path without its labels: entries are chained again, and a compaction that keeps from a label keeps from the
  entry after it. \<open>pending\<close> are labels whose next entry is to come.
\<close>

fun rechain :: "string list \<Rightarrow> (string \<times> string) list \<Rightarrow> string option \<Rightarrow> session_entry list \<Rightarrow> session_entry list" where
  "rechain pending replaced parent [] = []"
| "rechain pending replaced parent (e # es) = (case en_body e of
      LabelEntry target label \<Rightarrow> rechain (pending @ [en_id e]) replaced parent es
    | body \<Rightarrow>
        (let replaced1 = fold (\<lambda>l. AList.update l (en_id e)) pending replaced;
             body1 = (case body of
                 Compaction c \<Rightarrow> Compaction (c\<lparr>cp_firstKept := (if cp_firstKept c = en_id e then en_id e
                   else case map_of replaced1 (cp_firstKept c) of Some i \<Rightarrow> i | None \<Rightarrow> cp_firstKept c)\<rparr>)
               | _ \<Rightarrow> body) in
         e\<lparr>en_parentId := parent, en_body := body1\<rparr> # rechain [] replaced1 (Some (en_id e)) es))"

text \<open>The labels of the path written again after it; \<open>ids\<close> are the ids in use.\<close>

fun label_entries :: "(nat \<Rightarrow> string) \<Rightarrow> string list \<Rightarrow> string option \<Rightarrow> nat \<Rightarrow> (string \<times> string \<times> int) list \<Rightarrow> session_entry list \<times> nat" where
  "label_entries uuid ids parent n [] = ([], n)"
| "label_entries uuid ids parent n ((target, label, t) # ls) =
     (let (i, n1) = generateId uuid (\<lambda>x. x \<in> set ids) n;
          (es, n2) = label_entries uuid (i # ids) (Some i) n1 ls in
      (\<lparr>en_id = i, en_parentId = parent, en_timestamp = t, en_body = LabelEntry target (Some label)\<rparr> # es, n2))"

definition labels_to_write :: "session \<Rightarrow> string list \<Rightarrow> (string \<times> string \<times> int) list" where
  "labels_to_write s ids =
     map (\<lambda>(target, label). (target, label, the (map_of (ss_labelTimes s) target))) (filter (\<lambda>(target, label). target \<in> set ids) (ss_labels s))"

definition createBranchedSession :: "io \<Rightarrow> string \<Rightarrow> string option \<Rightarrow> session \<Rightarrow> (string option) outcome" where
  "createBranchedSession io leaf given s =
     (case andThen (assertWritable s) (\<lambda>_. case given of None \<Rightarrow> Inr () | Some i \<Rightarrow> assertValidSessionId i) of
        Inl err \<Rightarrow> (s, Inl err)
      | Inr u \<Rightarrow> (case getBranch s (Some leaf) of
          None \<Rightarrow> (s, Inl Hangs)
        | Some [] \<Rightarrow> (s, Inl (EntryNotFound leaf))
        | Some path \<Rightarrow>
            (let kept = rechain [] [] None path; ids = map en_id kept;
                 i = (case given of None \<Rightarrow> io_sessionId io | Some i \<Rightarrow> i);
                 file = (if ss_persist s then Some (io_path io i) else None);
                 header = \<lparr>hd_version = Some CURRENT_SESSION_VERSION, hd_id = i, hd_timestamp = io_now io, hd_cwd = ss_cwd s,
                   hd_parentSession = (if ss_persist s then ss_file s else None)\<rparr>;
                 parent = (if kept = [] then None else if en_id (last kept) = [] then None else Some (en_id (last kept)));
                 (labels, n) = label_entries (io_uuid io) ids parent (ss_random s) (labels_to_write s ids);
                 es = Header header # map Entry (kept @ labels) in
             if \<not> ss_persist s then (buildIndex (s\<lparr>ss_entries := es, ss_id := i, ss_random := n\<rparr>), Inr None)
             else if \<not> io_free io (the file) then (s\<lparr>ss_random := n\<rparr>, Inl SessionLocked)
             else if map_of (ss_disk s) (the file) \<noteq> None then ((buildIndex (s\<lparr>ss_random := n\<rparr>))\<lparr>ss_leaf := ss_leaf s\<rparr>, Inl DestinationExists)
             else (let s1 = (buildIndex (s\<lparr>ss_entries := es, ss_id := i, ss_file := file, ss_lock := Some (the file, False),
                          ss_random := n\<rparr>))\<lparr>ss_flushed := False\<rparr> in
                   if \<not> hasConversation s1 then (s1, Inr file)
                   else if io_write io then ((write_file (the file) (written es) s1)\<lparr>ss_flushed := True\<rparr>, Inr file)
                   else ((buildIndex (s\<lparr>ss_random := n\<rparr>))\<lparr>ss_leaf := ss_leaf s\<rparr>, Inl WriteFailed)))))"

subsection \<open>Managers\<close>

definition no_session :: "string \<Rightarrow> bool \<Rightarrow> (string \<times> text_file) list \<Rightarrow> nat \<Rightarrow> session" where
  "no_session cwd persist disk n = \<lparr>ss_id = [], ss_file = None, ss_cwd = cwd, ss_persist = persist, ss_flushed = False, ss_entries = [],
     ss_byId = [], ss_labels = [], ss_labelTimes = [], ss_leaf = None, ss_lock = None, ss_closed = False, ss_disk = disk, ss_random = n\<rparr>"

definition create_session :: "io \<Rightarrow> string \<Rightarrow> string option \<Rightarrow> string option \<Rightarrow> (string \<times> text_file) list \<Rightarrow> nat \<Rightarrow> (string option) outcome" where
  "create_session io cwd given parent disk n = newSession io given parent (no_session cwd True disk n)"

definition open_session :: "io \<Rightarrow> string \<Rightarrow> string \<Rightarrow> string option \<Rightarrow> (string \<times> text_file) list \<Rightarrow> nat \<Rightarrow> unit outcome" where
  "open_session io processCwd f override disk n =
     (let header = (case map_of disk f of None \<Rightarrow> None | Some t \<Rightarrow> if override = None then readSessionHeader t else None);
          cwd = (case override of Some c \<Rightarrow> c | None \<Rightarrow> (case header of Some h \<Rightarrow> hd_cwd h | None \<Rightarrow> processCwd)) in
      open_file io f (no_session cwd True disk n))"

definition inMemory :: "io \<Rightarrow> string \<Rightarrow> string option \<Rightarrow> file_entry list \<Rightarrow> nat \<Rightarrow> unit outcome" where
  "inMemory io cwd given es n =
     (if es \<noteq> [] then loadEntries io es given None (no_session cwd False [] n)
      else then_do (newSession io given None (no_session cwd False [] n)) (\<lambda>s _. (s, Inr ())))"

definition branchEntries :: "io \<Rightarrow> string \<Rightarrow> file_entry list \<Rightarrow> string \<Rightarrow> nat \<Rightarrow> (session_error, session_entry list) result" where
  "branchEntries io cwd es leaf n =
     snd (then_do (inMemory io cwd None es n) (\<lambda>s _. then_do (createBranchedSession io leaf None s) (\<lambda>s1 _. (s1, Inr (getEntries s1)))))"

text \<open>\<open>leaf\<close>: one branch (\<open>Some (Some id)\<close>), no entries (\<open>Some None\<close>) or the whole file (\<open>None\<close>).\<close>

definition forkFrom ::
  "io \<Rightarrow> string \<Rightarrow> string \<Rightarrow> string option \<Rightarrow> string option option \<Rightarrow> (string \<times> text_file) list \<Rightarrow> nat \<Rightarrow> unit outcome" where
  "forkFrom io source cwd given leaf disk n =
     (let es = loadEntriesFromFile (map_of disk source); s = no_session cwd True disk n in
      case andThen (ensure (es \<noteq> []) InvalidSession) (\<lambda>_. andThen (case given of None \<Rightarrow> Inr () | Some i \<Rightarrow> assertValidSessionId i) (\<lambda>_.
        case leaf of None \<Rightarrow> Inr (entries_of es) | Some None \<Rightarrow> Inr [] | Some (Some l) \<Rightarrow> branchEntries io cwd es l n)) of
        Inl err \<Rightarrow> (s, Inl err)
      | Inr copied \<Rightarrow>
          (let i = (case given of None \<Rightarrow> io_sessionId io | Some i \<Rightarrow> i); f = io_path io i;
               header = \<lparr>hd_version = Some CURRENT_SESSION_VERSION, hd_id = i, hd_timestamp = io_now io, hd_cwd = cwd, hd_parentSession = Some source\<rparr> in
           if \<not> io_free io f then (s, Inl SessionLocked)
           else if map_of disk f \<noteq> None \<or> \<not> io_write io then (s, Inl WriteFailed)
           else (case open_file io f (write_file f (written (Header header # map Entry copied)) s) of
               (s1, Inr u) \<Rightarrow> (s1, Inr ())
             | (s1, Inl err) \<Rightarrow> (s1\<lparr>ss_disk := AList.delete f (ss_disk s1)\<rparr>, Inl err))))"

end
