(* ===== verification/Session_Laws.thy ===== *)
theory Session_Laws
  imports Session_Operations
begin

text \<open>
  Laws of the session manager: the invariants of its tree (\<open>tree_ok\<close>) and of its file (\<open>disk_ok\<close>), which every
  operation keeps whether it succeeds or throws, the branch of an entry, which no append changes, and the walk from an
  entry that is its own parent, which does not end (\<open>self_parent_hangs\<close>).
\<close>

subsection \<open>The invariant of the tree\<close>

definition pairs :: "session_entry list \<Rightarrow> index" where
  "pairs es = map (\<lambda>e. (en_id e, e)) es"

text \<open>Ids are distinct and not empty, and the parent of an entry comes before it.\<close>

fun chained :: "string list \<Rightarrow> session_entry list \<Rightarrow> bool" where
  "chained seen [] = True"
| "chained seen (e # es) =
     (en_id e \<noteq> [] \<and> en_id e \<notin> set seen \<and> (case en_parentId e of None \<Rightarrow> True | Some p \<Rightarrow> p \<in> set seen) \<and>
      chained (en_id e # seen) es)"

definition label_step :: "(string \<times> string) list \<times> (string \<times> int) list \<Rightarrow> session_entry \<Rightarrow> (string \<times> string) list \<times> (string \<times> int) list" where
  "label_step = (\<lambda>(ls, ts) e. case en_body e of
      LabelEntry target label \<Rightarrow>
        (if label \<noteq> None \<and> label \<noteq> Some [] then (AList.update target (the label) ls, AList.update target (en_timestamp e) ts)
         else (AList.delete target ls, AList.delete target ts))
    | _ \<Rightarrow> (ls, ts))"

definition labels_of :: "session_entry list \<Rightarrow> (string \<times> string) list \<times> (string \<times> int) list" where
  "labels_of es = foldl label_step ([], []) es"

definition known :: "session_entry list \<Rightarrow> string option \<Rightarrow> bool" where
  "known es i = (case i of None \<Rightarrow> True | Some x \<Rightarrow> x \<in> en_id ` set es)"

definition tree_ok :: "session \<Rightarrow> bool" where
  "tree_ok s = (chained [] (getEntries s) \<and> ss_byId s = pairs (getEntries s) \<and> known (getEntries s) (ss_leaf s) \<and>
     (ss_labels s, ss_labelTimes s) = labels_of (getEntries s))"

text \<open>A file holds the entries of its session as soon as there is a conversation, and ends in a newline.\<close>

definition disk_ok :: "session \<Rightarrow> bool" where
  "disk_ok s = (\<forall>f. ss_persist s \<longrightarrow> ss_file s = Some f \<longrightarrow>
     (if ss_flushed s then \<exists>t. map_of (ss_disk s) f = Some t \<and> tf_ended t \<and> parsed (tf_lines t) = ss_entries s
      else \<not> hasConversation s))"

text \<open>The random ids still to come are new, and longer than the short ids cut from them.\<close>

definition fresh_uuids :: "(nat \<Rightarrow> string) \<Rightarrow> session \<Rightarrow> bool" where
  "fresh_uuids uuid s = ((\<forall>m n. uuid m = uuid n \<longrightarrow> m = n) \<and> (\<forall>n. 8 < length (uuid n)) \<and>
     (\<forall>n\<ge>ss_random s. uuid n \<notin> en_id ` set (getEntries s)))"

lemma chained_append:
  "chained seen (xs @ ys) = (chained seen xs \<and> chained (rev (map en_id xs) @ seen) ys)"
  by (induction xs arbitrary: seen) auto

lemma chained_snoc:
  "chained [] (es @ [e]) = (chained [] es \<and> en_id e \<noteq> [] \<and> en_id e \<notin> en_id ` set es \<and> known es (en_parentId e))"
  by (auto simp: chained_append known_def split: option.splits)

lemma chained_distinct: "chained seen es \<Longrightarrow> distinct (map en_id es) \<and> set (map en_id es) \<inter> set seen = {} \<and> [] \<notin> set (map en_id es)"
  by (induction es arbitrary: seen) fastforce+

lemma pairs_simps [simp]: "pairs [] = []" "pairs (xs @ ys) = pairs xs @ pairs ys" "pairs (e # es) = (en_id e, e) # pairs es"
  by (simp_all add: pairs_def)

lemma fst_pairs [simp]: "fst ` set (pairs es) = en_id ` set es"
  by (force simp: pairs_def)

lemma map_of_pairs_none: "map_of (pairs es) i = None \<longleftrightarrow> i \<notin> en_id ` set es"
  by (simp add: map_of_eq_None_iff)

lemma map_of_pairs:
  assumes "distinct (map en_id es)" and "e \<in> set es"
  shows "map_of (pairs es) (en_id e) = Some e"
proof -
  have "map fst (pairs es) = map en_id es" by (simp add: pairs_def)
  then have "distinct (map fst (pairs es))" using assms(1) by simp
  then show ?thesis using assms(2) by (auto simp: map_of_eq_Some_iff pairs_def)
qed

lemma map_of_pairs_some: "map_of (pairs es) i = Some e \<Longrightarrow> e \<in> set es \<and> en_id e = i"
  by (auto simp: pairs_def dest!: map_of_SomeD)

lemma update_pairs: "en_id e \<notin> en_id ` set es \<Longrightarrow> AList.update (en_id e) e (pairs es) = pairs (es @ [e])"
  by (induction es) auto

lemma delete_pairs: "en_id e \<notin> en_id ` set es \<Longrightarrow> AList.delete (en_id e) (pairs (es @ [e])) = pairs es"
  by (induction es) auto

lemma entries_of_simps [simp]:
  "entries_of [] = []" "entries_of (Header h # es) = entries_of es" "entries_of (Entry e # es) = e # entries_of es"
  "entries_of (xs @ ys) = entries_of xs @ entries_of ys" "entries_of (map Entry zs) = zs"
  by (simp_all add: entries_of_def map_filter_simps List.map_filter_def comp_def)

subsection \<open>Rebuilding the index\<close>

lemma index_entry_fields [simp]:
  "ss_byId (index_entry s e) = AList.update (en_id e) e (ss_byId s)" "ss_leaf (index_entry s e) = Some (en_id e)"
  "(ss_labels (index_entry s e), ss_labelTimes (index_entry s e)) = label_step (ss_labels s, ss_labelTimes s) e"
  "ss_entries (index_entry s e) = ss_entries s" "ss_persist (index_entry s e) = ss_persist s" "ss_file (index_entry s e) = ss_file s"
  "ss_flushed (index_entry s e) = ss_flushed s" "ss_disk (index_entry s e) = ss_disk s" "ss_random (index_entry s e) = ss_random s"
  "ss_lock (index_entry s e) = ss_lock s" "ss_closed (index_entry s e) = ss_closed s" "ss_id (index_entry s e) = ss_id s"
  "ss_cwd (index_entry s e) = ss_cwd s"
  by (simp_all add: index_entry_def label_step_def Let_def split: entry_body.split)

lemma foldl_index_fields:
  "ss_entries (foldl index_entry s es) = ss_entries s \<and> ss_persist (foldl index_entry s es) = ss_persist s \<and>
   ss_file (foldl index_entry s es) = ss_file s \<and> ss_flushed (foldl index_entry s es) = ss_flushed s \<and>
   ss_disk (foldl index_entry s es) = ss_disk s \<and> ss_random (foldl index_entry s es) = ss_random s \<and>
   ss_lock (foldl index_entry s es) = ss_lock s \<and> ss_closed (foldl index_entry s es) = ss_closed s \<and>
   ss_id (foldl index_entry s es) = ss_id s \<and> ss_cwd (foldl index_entry s es) = ss_cwd s \<and>
   (ss_labels (foldl index_entry s es), ss_labelTimes (foldl index_entry s es)) = foldl label_step (ss_labels s, ss_labelTimes s) es"
  by (induction es arbitrary: s) simp_all

lemma foldl_index_byId: "chained [] es \<Longrightarrow> ss_byId s = [] \<Longrightarrow> ss_byId (foldl index_entry s es) = pairs es"
proof (induction es rule: rev_induct)
  case (snoc e es)
  then show ?case by (simp add: chained_snoc update_pairs)
qed simp

lemma foldl_index_leaf: "ss_leaf s = None \<Longrightarrow> ss_leaf (foldl index_entry s es) = (if es = [] then None else Some (en_id (last es)))"
  by (cases es rule: rev_cases) simp_all

lemma buildIndex_fields [simp]:
  "ss_entries (buildIndex s) = ss_entries s" "ss_persist (buildIndex s) = ss_persist s" "ss_file (buildIndex s) = ss_file s"
  "ss_flushed (buildIndex s) = ss_flushed s" "ss_disk (buildIndex s) = ss_disk s" "ss_random (buildIndex s) = ss_random s"
  "ss_lock (buildIndex s) = ss_lock s" "ss_closed (buildIndex s) = ss_closed s" "ss_id (buildIndex s) = ss_id s"
  "ss_cwd (buildIndex s) = ss_cwd s" "getEntries (buildIndex s) = getEntries s" "hasConversation (buildIndex s) = hasConversation s"
  by (simp_all add: buildIndex_def foldl_index_fields getEntries_def hasConversation_def)

lemma buildIndex_labels: "(ss_labels (buildIndex s), ss_labelTimes (buildIndex s)) = labels_of (getEntries s)"
  by (simp add: buildIndex_def foldl_index_fields labels_of_def getEntries_def)

lemma buildIndex_byId: "chained [] (getEntries s) \<Longrightarrow> ss_byId (buildIndex s) = pairs (getEntries s)"
  by (simp add: buildIndex_def getEntries_def foldl_index_byId)

lemma buildIndex_leaf: "ss_leaf (buildIndex s) = (if getEntries s = [] then None else Some (en_id (last (getEntries s))))"
  by (simp add: buildIndex_def getEntries_def foldl_index_leaf)

lemma buildIndex_tree: "chained [] (getEntries s) \<Longrightarrow> tree_ok (buildIndex s)"
  by (simp add: tree_ok_def buildIndex_labels buildIndex_byId buildIndex_leaf known_def)

text \<open>Rebuilding the index of a well-formed session and restoring its leaf changes nothing.\<close>

lemma buildIndex_same: "tree_ok s \<Longrightarrow> (buildIndex s)\<lparr>ss_leaf := ss_leaf s\<rparr> = s"
proof -
  assume t: "tree_ok s"
  have "(ss_labels (buildIndex s), ss_labelTimes (buildIndex s)) = (ss_labels s, ss_labelTimes s)"
    using t by (simp add: tree_ok_def buildIndex_labels)
  then show ?thesis using t buildIndex_byId[of s] by (auto simp: tree_ok_def intro!: session.equality)
qed

subsection \<open>Fresh ids\<close>

lemma generate_id_fresh:
  assumes "\<forall>m n. uuid m = uuid n \<longrightarrow> m = n" and "\<forall>n. 8 < length (uuid n)" and "\<forall>k\<ge>n. \<not> has (uuid k)"
    and "generate_id uuid has tries n = (i, n')"
  shows "\<not> has i \<and> i \<noteq> [] \<and> n < n' \<and> (\<forall>k\<ge>n'. uuid k \<noteq> i)"
  using assms(3,4)
proof (induction tries arbitrary: n)
  case 0
  then have "i = uuid n" "n' = Suc n" by simp_all
  moreover have "uuid n \<noteq> []" using assms(2) by (metis list.size(3) not_less_zero)
  moreover have "uuid k \<noteq> uuid n" if "k \<ge> Suc n" for k using assms(1) that by fastforce
  ultimately show ?case using 0(1) by auto
next
  case (Suc tries)
  show ?case
  proof (cases "has (take 8 (uuid n))")
    case True
    then show ?thesis using Suc.IH[of "Suc n"] Suc.prems by (simp add: Let_def)
  next
    case False
    then have i: "i = take 8 (uuid n)" "n' = Suc n" using Suc.prems(2) by (simp_all add: Let_def)
    have "length i = 8" using assms(2) i(1) by (simp add: less_imp_le)
    then have "uuid k \<noteq> i" for k using assms(2) by (metis less_irrefl)
    then show ?thesis using False i \<open>length i = 8\<close> by auto
  qed
qed

lemma generateId_fresh:
  assumes "fresh_uuids uuid s" and "generateId uuid (\<lambda>x. map_of (ss_byId s) x \<noteq> None) (ss_random s) = (i, n)" and "ss_byId s = pairs (getEntries s)"
  shows "i \<notin> en_id ` set (getEntries s) \<and> i \<noteq> [] \<and> ss_random s < n \<and> (\<forall>k\<ge>n. uuid k \<noteq> i)"
proof -
  have "\<forall>k\<ge>ss_random s. \<not> map_of (ss_byId s) (uuid k) \<noteq> None"
    using assms(1,3) by (simp add: fresh_uuids_def map_of_pairs_none)
  from generate_id_fresh[OF _ _ this assms(2)[unfolded generateId_def]]
  show ?thesis using assms(1,3) by (simp add: fresh_uuids_def map_of_pairs_none)
qed

subsection \<open>Appending keeps the invariant\<close>

lemma assertWritable_push [simp]:
  "assertWritable (push_entry e s) = assertWritable s" "assertWritable (s\<lparr>ss_random := n\<rparr>) = assertWritable s"
  "assertWritable (s\<lparr>ss_leaf := l\<rparr>) = assertWritable s"
  by (simp_all add: assertWritable_def push_entry_def split: option.split)

lemma push_entry_fields [simp]:
  "ss_entries (push_entry e s) = ss_entries s @ [Entry e]" "ss_file (push_entry e s) = ss_file s"
  "ss_persist (push_entry e s) = ss_persist s" "ss_flushed (push_entry e s) = ss_flushed s" "ss_disk (push_entry e s) = ss_disk s"
  "getEntries (push_entry e s) = getEntries s @ [e]"
  by (simp_all add: push_entry_def getEntries_def)

lemma parsed_simps [simp]:
  "parsed [] = []" "parsed (xs @ ys) = parsed xs @ parsed ys" "parsed (Line e # ls) = e # parsed ls" "parsed (map Line es) = es"
  by (simp_all add: parsed_def map_filter_simps List.map_filter_def comp_def)

lemma append_line_parsed: "tf_ended t \<Longrightarrow> parsed (tf_lines (append_line e t)) = parsed (tf_lines t) @ [e] \<and> tf_ended (append_line e t)"
  by (simp add: append_line_def)

text \<open>An append succeeds and changes the entries, or throws and leaves the state as it was.\<close>

lemma appendEntry_cases:
  assumes "tree_ok s" and "disk_ok s" and "en_id e \<notin> en_id ` set (getEntries s)"
  shows "(\<exists>err. appendEntry io e s = (s, Inl err)) \<or>
    (\<exists>fl d. appendEntry io e s = ((push_entry e s)\<lparr>ss_flushed := fl, ss_disk := d\<rparr>, Inr ()) \<and>
       disk_ok ((push_entry e s)\<lparr>ss_flushed := fl, ss_disk := d\<rparr>) \<and> (ss_flushed s \<longrightarrow> fl))"
proof (cases "assertWritable s")
  case (Inl err)
  then show ?thesis by (simp add: appendEntry_def)
next
  case (Inr u)
  let ?p = "push_entry e s"
  have undo: "?p\<lparr>ss_entries := butlast (ss_entries ?p), ss_byId := AList.delete (en_id e) (ss_byId ?p), ss_leaf := ss_leaf s\<rparr> = s"
    using assms(1,3) delete_pairs[of e "getEntries s"] update_pairs[of e "getEntries s"]
    by (auto simp: push_entry_def tree_ok_def intro!: session.equality)
  have on_disk: "ss_persist s \<Longrightarrow> ss_file s = Some f \<Longrightarrow> ss_flushed s \<Longrightarrow>
      \<exists>t. map_of (ss_disk s) f = Some t \<and> tf_ended t \<and> parsed (tf_lines t) = ss_entries s" for f
    using assms(2) by (simp add: disk_ok_def)
  consider err where "persist_entry io e ?p = (?p, Inl err)"
    | fl d where "persist_entry io e ?p = (?p\<lparr>ss_flushed := fl, ss_disk := d\<rparr>, Inr ())" "disk_ok (?p\<lparr>ss_flushed := fl, ss_disk := d\<rparr>)" "ss_flushed s \<longrightarrow> fl"
  proof (cases "ss_persist s \<and> ss_file s \<noteq> None")
    case False
    then have "persist_entry io e ?p = (?p\<lparr>ss_flushed := ss_flushed s, ss_disk := ss_disk s\<rparr>, Inr ())"
      using Inr by (auto simp: persist_entry_def intro!: session.equality split: option.split)
    then show ?thesis using that(2) False by (auto simp: disk_ok_def)
  next
    case True
    then obtain f where f: "ss_file s = Some f" "ss_persist s" by auto
    show ?thesis
    proof (cases "ss_flushed s")
      case False
      show ?thesis
      proof (cases "hasConversation ?p")
        case no: False
        then have "persist_entry io e ?p = (?p\<lparr>ss_flushed := False, ss_disk := ss_disk s\<rparr>, Inr ())"
          using Inr f False by (auto simp: persist_entry_def intro!: session.equality)
        moreover have "disk_ok (?p\<lparr>ss_flushed := False, ss_disk := ss_disk s\<rparr>)" using no by (auto simp: disk_ok_def hasConversation_def)
        ultimately show ?thesis using that(2) False by blast
      next
        case yes: True
        let ?d = "AList.update f (written (ss_entries ?p)) (ss_disk s)"
        show ?thesis
        proof (cases "map_of (ss_disk s) f \<noteq> None \<or> \<not> io_write io")
          case True
          then show ?thesis using that(1) Inr f False yes by (simp add: persist_entry_def)
        next
          case can: False
          have "persist_entry io e ?p = (?p\<lparr>ss_flushed := True, ss_disk := ?d\<rparr>, Inr ())"
            using Inr f False yes can by (auto simp: persist_entry_def write_file_def intro!: session.equality)
          moreover have "disk_ok (?p\<lparr>ss_flushed := True, ss_disk := ?d\<rparr>)" using f by (simp add: disk_ok_def written_def)
          ultimately show ?thesis using that(2) by blast
        qed
      qed
    next
      case flushed: True
      then obtain t where t: "map_of (ss_disk s) f = Some t" "tf_ended t" "parsed (tf_lines t) = ss_entries s" using on_disk f by blast
      show ?thesis
      proof (cases "io_write io")
        case True
        let ?d = "AList.update f (append_line (Entry e) t) (ss_disk s)"
        have "persist_entry io e ?p = (?p\<lparr>ss_flushed := True, ss_disk := ?d\<rparr>, Inr ())"
          using Inr f flushed t(1) True by (auto simp: persist_entry_def write_file_def intro!: session.equality)
        moreover have "disk_ok (?p\<lparr>ss_flushed := True, ss_disk := ?d\<rparr>)"
          using f append_line_parsed[OF t(2), of "Entry e"] t(3) by (simp add: disk_ok_def)
        ultimately show ?thesis using that(2) by blast
      next
        case False
        then show ?thesis using that(1) Inr f flushed t(1) by (simp add: persist_entry_def)
      qed
    qed
  qed
  then show ?thesis using Inr undo by cases (auto simp: appendEntry_def)
qed

definition session_ok :: "(nat \<Rightarrow> string) \<Rightarrow> session \<Rightarrow> bool" where
  "session_ok uuid s = (tree_ok s \<and> disk_ok s \<and> fresh_uuids uuid s)"

text \<open>The entries and the file of a session only grow.\<close>

definition grew :: "session \<Rightarrow> session \<Rightarrow> bool" where
  "grew s s' = ((\<exists>es. ss_entries s' = ss_entries s @ map Entry es) \<and> ss_file s' = ss_file s \<and> ss_persist s' = ss_persist s \<and>
     (ss_flushed s \<longrightarrow> ss_flushed s'))"

lemma grew_refl [simp]: "grew s s" "grew s (s\<lparr>ss_random := n\<rparr>)" "grew s (s\<lparr>ss_leaf := l\<rparr>)" "grew s (s\<lparr>ss_lock := k\<rparr>)"
  "grew s (s\<lparr>ss_closed := b\<rparr>)"
  by (auto simp: grew_def)

lemma grew_trans: "grew s t \<Longrightarrow> grew t u \<Longrightarrow> grew s u"
  unfolding grew_def by (metis append.assoc map_append)

lemma grew_entries: "grew s s' \<Longrightarrow> \<exists>es. getEntries s' = getEntries s @ es"
  by (auto simp: grew_def getEntries_def)

lemma getEntries_frame [simp]:
  "getEntries (s\<lparr>ss_random := n\<rparr>) = getEntries s" "getEntries (s\<lparr>ss_leaf := l\<rparr>) = getEntries s"
  "getEntries (s\<lparr>ss_flushed := fl\<rparr>) = getEntries s" "getEntries (s\<lparr>ss_disk := d\<rparr>) = getEntries s"
  "getEntries (s\<lparr>ss_labels := ls\<rparr>) = getEntries s" "getEntries (s\<lparr>ss_labelTimes := ts\<rparr>) = getEntries s"
  "getEntries (s\<lparr>ss_lock := k\<rparr>) = getEntries s" "getEntries (s\<lparr>ss_closed := b\<rparr>) = getEntries s"
  by (simp_all add: getEntries_def)

lemma disk_ok_frame [simp]:
  "disk_ok (s\<lparr>ss_random := n\<rparr>) = disk_ok s" "disk_ok (s\<lparr>ss_leaf := l\<rparr>) = disk_ok s" "disk_ok (s\<lparr>ss_lock := k\<rparr>) = disk_ok s"
  "disk_ok (s\<lparr>ss_closed := b\<rparr>) = disk_ok s" "disk_ok (s\<lparr>ss_labels := ls\<rparr>) = disk_ok s"
  "disk_ok (s\<lparr>ss_labelTimes := ts\<rparr>) = disk_ok s"
  by (simp_all add: disk_ok_def hasConversation_def)

lemma tree_ok_frame [simp]:
  "tree_ok (s\<lparr>ss_random := n\<rparr>) = tree_ok s" "tree_ok (s\<lparr>ss_lock := k\<rparr>) = tree_ok s" "tree_ok (s\<lparr>ss_closed := b\<rparr>) = tree_ok s"
  by (simp_all add: tree_ok_def)

lemma pushed_tree:
  assumes "tree_ok s" and "en_id e \<notin> en_id ` set (getEntries s)" and "en_id e \<noteq> []" and "known (getEntries s) (en_parentId e)"
    and "getEntries s' = getEntries s @ [e]" and "ss_byId s' = AList.update (en_id e) e (ss_byId s)" and "ss_leaf s' = Some (en_id e)"
    and "(ss_labels s', ss_labelTimes s') = label_step (ss_labels s, ss_labelTimes s) e"
  shows "tree_ok s'"
  using assms by (simp add: tree_ok_def chained_snoc update_pairs known_def labels_of_def)

lemma fresh_append:
  assumes "session_ok uuid s" and "io_uuid io = uuid" and "fresh_entry io parent mk s = (s1, e)" and "appendEntry io e s1 = (s2, r)"
  shows "en_id e \<notin> en_id ` set (getEntries s) \<and> en_id e \<noteq> [] \<and> en_parentId e = parent \<and> en_body e = mk (en_id e) \<and>
    en_timestamp e = io_now io \<and> session_ok uuid s1 \<and> getEntries s1 = getEntries s \<and> (\<exists>n. s1 = s\<lparr>ss_random := n\<rparr>) \<and>
    ((\<exists>err. r = Inl err \<and> s2 = s1) \<or>
     r = Inr () \<and> disk_ok s2 \<and> fresh_uuids uuid s2 \<and> grew s s2 \<and> (\<exists>fl d. s2 = (push_entry e s1)\<lparr>ss_flushed := fl, ss_disk := d\<rparr>))"
proof -
  obtain i n where g: "generateId (io_uuid io) (\<lambda>x. map_of (ss_byId s) x \<noteq> None) (ss_random s) = (i, n)" by fastforce
  have e: "s1 = s\<lparr>ss_random := n\<rparr>" "e = \<lparr>en_id = i, en_parentId = parent, en_timestamp = io_now io, en_body = mk i\<rparr>"
    using assms(3) g by (simp_all add: fresh_entry_def)
  have t: "tree_ok s" "disk_ok s" "fresh_uuids uuid s" using assms(1) by (simp_all add: session_ok_def)
  have f: "i \<notin> en_id ` set (getEntries s)" "i \<noteq> []" "ss_random s < n" "\<forall>k\<ge>n. uuid k \<noteq> i"
    using generateId_fresh[OF t(3), of i n] g assms(2) t(1) by (simp_all add: tree_ok_def)
  have fresh1: "fresh_uuids uuid s1" using t(3) f(3) by (simp add: fresh_uuids_def e(1))
  have fresh2: "fresh_uuids uuid ((push_entry e s1)\<lparr>ss_flushed := fl, ss_disk := d\<rparr>)" for fl d
    using fresh1 f(4) by (auto simp: fresh_uuids_def e push_entry_def getEntries_def)
  have "(\<exists>err. appendEntry io e s1 = (s1, Inl err)) \<or>
    (\<exists>fl d. appendEntry io e s1 = ((push_entry e s1)\<lparr>ss_flushed := fl, ss_disk := d\<rparr>, Inr ()) \<and>
       disk_ok ((push_entry e s1)\<lparr>ss_flushed := fl, ss_disk := d\<rparr>) \<and> (ss_flushed s1 \<longrightarrow> fl))"
    by (rule appendEntry_cases) (use t f in \<open>simp_all add: e\<close>)
  moreover have "grew s ((push_entry e s1)\<lparr>ss_flushed := fl, ss_disk := d\<rparr>)" if "ss_flushed s1 \<longrightarrow> fl" for fl d
    unfolding grew_def by (rule conjI, rule exI[of _ "[e]"]) (use that in \<open>simp_all add: e(1)\<close>)
  ultimately show ?thesis using assms(4) f t fresh1 fresh2 by (auto simp: e session_ok_def)
qed

text \<open>The state after an append of an entry that is no label.\<close>

lemma fresh_appended:
  assumes "session_ok uuid s" and "io_uuid io = uuid" and "fresh_entry io parent mk s = (s1, e)" and "appendEntry io e s1 = (s2, r)"
    and "known (getEntries s) parent" and "\<And>i target label. mk i \<noteq> LabelEntry target label"
  shows "session_ok uuid s2 \<and> grew s s2 \<and>
    (if r = Inr () then getEntries s2 = getEntries s @ [e] else getEntries s2 = getEntries s \<and> ss_leaf s2 = ss_leaf s)"
proof -
  note a = fresh_append[OF assms(1-4)]
  show ?thesis
  proof (cases "r = Inr ()")
    case False
    then show ?thesis using a by auto
  next
    case True
    then obtain fl d where s2: "s2 = (push_entry e s1)\<lparr>ss_flushed := fl, ss_disk := d\<rparr>" "disk_ok s2" "fresh_uuids uuid s2" using a by auto
    have keep: "label_step p e = p" for p using a assms(6) by (cases p; cases "mk (en_id e)") (simp_all add: label_step_def)
    obtain n where n: "s1 = s\<lparr>ss_random := n\<rparr>" using a by blast
    have "tree_ok s2"
    proof (rule pushed_tree[of s e])
      show "tree_ok s" using assms(1) by (simp add: session_ok_def)
      show "en_id e \<notin> en_id ` set (getEntries s)" "en_id e \<noteq> []" using a by blast+
      show "known (getEntries s) (en_parentId e)" using a assms(5) by simp
      show "(ss_labels s2, ss_labelTimes s2) = label_step (ss_labels s, ss_labelTimes s) e"
        unfolding keep by (simp add: s2(1) n push_entry_def)
    qed (simp_all add: s2(1) n push_entry_def getEntries_def)
    moreover have "getEntries s2 = getEntries s @ [e]" by (simp add: s2(1) n)
    moreover have "grew s s2" using a True by simp
    ultimately show ?thesis using True s2(2,3) by (simp add: session_ok_def)
  qed
qed

lemma append_body_ok:
  assumes "session_ok uuid s" and "io_uuid io = uuid" and "append_body io body s = (s', r)" and "\<And>target label. body \<noteq> LabelEntry target label"
  shows "session_ok uuid s' \<and> grew s s' \<and> (case r of
      Inl err \<Rightarrow> getEntries s' = getEntries s \<and> ss_leaf s' = ss_leaf s
    | Inr i \<Rightarrow> getEntries s' = getEntries s @ [\<lparr>en_id = i, en_parentId = ss_leaf s, en_timestamp = io_now io, en_body = body\<rparr>])"
proof -
  obtain s1 e where f: "fresh_entry io (ss_leaf s) (\<lambda>i. body) s = (s1, e)" by fastforce
  obtain s2 q where q: "appendEntry io e s1 = (s2, q)" by fastforce
  have "known (getEntries s) (ss_leaf s)" using assms(1) by (simp add: session_ok_def tree_ok_def)
  from fresh_appended[OF assms(1,2) f q this assms(4)]
  have ok: "session_ok uuid s2 \<and> grew s s2" "if q = Inr () then getEntries s2 = getEntries s @ [e] else getEntries s2 = getEntries s \<and> ss_leaf s2 = ss_leaf s"
    by blast+
  have e: "e = \<lparr>en_id = en_id e, en_parentId = ss_leaf s, en_timestamp = io_now io, en_body = body\<rparr>"
    using fresh_append[OF assms(1,2) f q] by (intro session_entry.equality) simp_all
  show ?thesis
  proof (cases q)
    case (Inl err)
    then have "s' = s2" "r = Inl err" using assms(3) f q by (simp_all add: append_body_def then_do_def)
    then show ?thesis using ok Inl by simp
  next
    case (Inr u)
    then have "s' = s2" "r = Inr (en_id e)" using assms(3) f q by (simp_all add: append_body_def then_do_def)
    then show ?thesis using ok Inr e by (cases e) simp
  qed
qed

lemma append_body_grew:
  assumes "session_ok uuid s" and "io_uuid io = uuid" and "\<And>target label. body \<noteq> LabelEntry target label"
  shows "session_ok uuid (fst (append_body io body s)) \<and> grew s (fst (append_body io body s))"
  using append_body_ok[OF assms(1,2) _ assms(3), of "fst (append_body io body s)" "snd (append_body io body s)"] by simp

subsection \<open>Branches\<close>

text \<open>The path to an entry, from its entries newest first: each one is looked for before the one found last.\<close>

fun ancestors :: "session_entry list \<Rightarrow> string option \<Rightarrow> session_entry list \<Rightarrow> session_entry list" where
  "ancestors [] i path = path"
| "ancestors (e # es) i path = (if i = Some (en_id e) then ancestors es (en_parentId e) (e # path) else ancestors es i path)"

definition lookup :: "index \<Rightarrow> string option \<Rightarrow> session_entry option" where
  "lookup index i = (case i of None \<Rightarrow> None | Some x \<Rightarrow> if x = [] then None else map_of index x)"

lemma parent_lookup: "parent_entry index e = lookup index (en_parentId e)"
  by (simp add: parent_entry_def lookup_def)

lemma walk_step: "walk_up index (Some e) path = walk_up index (parent_entry index e) (e # path)"
  by (subst walk_up.simps) simp

lemma walk_end: "walk_up index None path = Some path"
  by (subst walk_up.simps) simp

lemma walk_chained:
  assumes "chained [] (es @ rest)" and "known es i"
  shows "walk_up (pairs (es @ rest)) (lookup (pairs (es @ rest)) i) path = Some (ancestors (rev es) i path)"
  using assms
proof (induction es arbitrary: rest i path rule: rev_induct)
  case Nil
  then show ?case by (auto simp: known_def lookup_def walk_end split: option.splits)
next
  case (snoc e es)
  let ?all = "(es @ [e]) @ rest"
  have IH: "walk_up (pairs ?all) (lookup (pairs ?all) j) q = Some (ancestors (rev es) j q)" if "known es j" for j q
    using snoc.IH[of "e # rest" j q] snoc.prems(1) that by simp
  show ?case
  proof (cases "i = Some (en_id e)")
    case True
    have c: "chained [] (es @ [e])" using snoc.prems(1) unfolding chained_append[of _ "es @ [e]"] by blast
    have "distinct (map en_id ?all)" using chained_distinct[OF snoc.prems(1)] by simp
    then have "map_of (pairs ?all) (en_id e) = Some e" by (rule map_of_pairs) simp
    then have "lookup (pairs ?all) i = Some e" using True c by (simp add: lookup_def chained_snoc)
    moreover have "known es (en_parentId e)" using c by (simp add: chained_snoc)
    ultimately show ?thesis using True IH[of "en_parentId e" "e # path"] by (simp add: walk_step parent_lookup)
  next
    case False
    then have "known es i" using snoc.prems(2) by (auto simp: known_def split: option.splits)
    then show ?thesis using False IH by simp
  qed
qed

lemma ancestors_append: "ancestors es i path = ancestors es i [] @ path"
proof (induction es arbitrary: i path)
  case (Cons e es)
  show ?case
  proof (cases "i = Some (en_id e)")
    case True
    then show ?thesis using Cons[of "en_parentId e" "e # path"] Cons[of "en_parentId e" "[e]"] by simp
  qed (simp add: Cons[of i path])
qed simp

definition path_to :: "session_entry list \<Rightarrow> string option \<Rightarrow> session_entry list" where
  "path_to es i = ancestors (rev es) i []"

lemma path_to_snoc: "path_to (es @ [e]) i = (if i = Some (en_id e) then path_to es (en_parentId e) @ [e] else path_to es i)"
  using ancestors_append[of "rev es" "en_parentId e" "[e]"] by (simp add: path_to_def)

lemma path_to_nil [simp]: "path_to [] i = []"
  by (simp add: path_to_def)

lemma path_to_unknown: "i = None \<or> i = Some [] \<Longrightarrow> chained [] es \<Longrightarrow> path_to es i = []"
  by (induction es rule: rev_induct) (auto simp: path_to_snoc chained_snoc)

lemma path_to_grows: "known es i \<Longrightarrow> chained [] (es @ ms) \<Longrightarrow> path_to (es @ ms) i = path_to es i"
proof (induction ms rule: rev_induct)
  case (snoc e ms)
  have c: "chained [] ((es @ ms) @ [e])" using snoc.prems(2) by simp
  then have "i \<noteq> Some (en_id e)" using snoc.prems(1) unfolding chained_snoc by (auto simp: known_def)
  then have "path_to ((es @ ms) @ [e]) i = path_to (es @ ms) i" unfolding path_to_snoc by simp
  then show ?case using snoc.IH snoc.prems(1) c unfolding chained_snoc by simp
qed simp

lemma path_to_last: "known es (Some i) \<Longrightarrow> chained [] es \<Longrightarrow> path_to es (Some i) \<noteq> [] \<and> en_id (last (path_to es (Some i))) = i"
proof (induction es rule: rev_induct)
  case (snoc e es)
  then show ?case by (auto simp: path_to_snoc chained_snoc known_def)
qed (simp add: known_def)

lemma path_to_mem: "e \<in> set (path_to es i) \<Longrightarrow> e \<in> set es"
proof (induction es arbitrary: i rule: rev_induct)
  case (snoc x es)
  then show ?case by (auto simp: path_to_snoc split: if_splits)
qed simp

lemma path_to_chained: "chained [] es \<Longrightarrow> chained [] (path_to es i)"
proof (induction es arbitrary: i rule: rev_induct)
  case (snoc e es)
  have es: "chained [] es" and e: "en_id e \<noteq> []" "en_id e \<notin> en_id ` set es" "known es (en_parentId e)"
    using snoc.prems by (simp_all add: chained_snoc)
  have "known (path_to es (en_parentId e)) (en_parentId e)"
  proof (cases "en_parentId e")
    case (Some p)
    then have "path_to es (Some p) \<noteq> [] \<and> en_id (last (path_to es (Some p))) = p" using path_to_last es e(3) by simp
    then show ?thesis unfolding Some known_def by (metis image_eqI last_in_set option.simps(5))
  qed (simp add: known_def)
  then show ?case using snoc.IH[OF es] e path_to_mem by (fastforce simp: path_to_snoc chained_snoc)
qed simp

lemma getBranch_path:
  assumes "tree_ok s" and "known (getEntries s) i" and "i = (case from of Some x \<Rightarrow> Some x | None \<Rightarrow> ss_leaf s)"
  shows "getBranch s from = Some (path_to (getEntries s) i)"
proof -
  have b: "ss_byId s = pairs (getEntries s)" and c: "chained [] (getEntries s @ [])" using assms(1) by (simp_all add: tree_ok_def)
  show ?thesis
    unfolding getBranch_def b Let_def assms(3)[symmetric] path_to_def
    using walk_chained[OF c assms(2), of "[]"] by (simp add: lookup_def)
qed

lemma leaf_known: "tree_ok s \<Longrightarrow> known (getEntries s) (ss_leaf s)"
  by (simp add: tree_ok_def)

lemma session_path:
  assumes "tree_ok s"
  shows "buildSessionPath (getEntries s) (Some (ss_leaf s)) (Some (ss_byId s)) = Some (path_to (getEntries s) (ss_leaf s))"
proof (cases "ss_leaf s")
  case None
  then show ?thesis
    using assms by (simp add: buildSessionPath_def path_start_def buildEntryIndex_def walk_end path_to_unknown tree_ok_def)
next
  case (Some i)
  have t: "chained [] (getEntries s)" "ss_byId s = pairs (getEntries s)" "known (getEntries s) (Some i)"
    using assms Some by (simp_all add: tree_ok_def)
  then obtain e where e: "e \<in> set (getEntries s)" "en_id e = i" by (auto simp: known_def)
  then have "map_of (pairs (getEntries s)) i = Some e" "i \<noteq> []"
    using map_of_pairs[of "getEntries s" e] chained_distinct[OF t(1)] by (simp, force)
  then have "path_start (getEntries s) (Some (Some i)) (pairs (getEntries s)) = lookup (pairs (getEntries s)) (Some i)"
    by (simp add: path_start_def lookup_def)
  then show ?thesis
    using walk_chained[of "getEntries s" "[]" "Some i" "[]"] t Some by (simp add: buildSessionPath_def buildEntryIndex_def path_to_def)
qed

text \<open>What the model of a session gets is the projection of the path to its leaf.\<close>

lemma session_projection_path: "tree_ok s \<Longrightarrow> session_projection s = Some (project_path (path_to (getEntries s) (ss_leaf s)))"
  by (simp add: session_projection_def buildSessionProjection_def session_path)

subsection \<open>Entries that are their own parent\<close>

lemma walk_self: "parent_entry index e = Some e \<Longrightarrow> walk_up index (Some e) path = None"
proof -
  have "walk_up i cur q = Some p \<Longrightarrow> cur = Some e \<longrightarrow> parent_entry i e \<noteq> Some e" for i cur q p
    by (rule walk_up.raw_induct[where P = "\<lambda>i cur q p. cur = Some e \<longrightarrow> parent_entry i e \<noteq> Some e"]) (auto split: option.splits)
  then show "parent_entry index e = Some e \<Longrightarrow> walk_up index (Some e) path = None" by (cases "walk_up index (Some e) path") blast+
qed

text \<open>
  An entry that is its own parent, which a loaded file may hold since the entries of a file are not checked: the
  tree shows it as a root, as its code intends, but the walk from it to the root does not end.
\<close>

theorem self_parent_hangs:
  assumes "map_of (ss_byId s) (en_id e) = Some e" and "e \<in> set (getEntries s)" and "en_parentId e = Some (en_id e)" and "en_id e \<noteq> []"
  shows "e \<in> set (tree_roots s) \<and> getBranch s (Some (en_id e)) = None \<and>
    buildSessionContext (getEntries s) (Some (Some (en_id e))) (Some (ss_byId s)) = None"
proof -
  have "parent_entry (ss_byId s) e = Some e" using assms by (simp add: parent_entry_def)
  from walk_self[OF this] show ?thesis
    using assms by (simp add: tree_roots_def getBranch_def buildSessionContext_def buildSessionProjection_def buildSessionPath_def
        buildEntryIndex_def path_start_def)
qed

definition demo_self :: session where
  "demo_self = buildIndex ((no_session ''w'' False [] 0)\<lparr>ss_entries :=
     [Entry \<lparr>en_id = ''x'', en_parentId = Some ''x'', en_timestamp = 0, en_body = ThinkingLevelChange ''low''\<rparr>]\<rparr>)"

theorem self_parent_hangs_witness: "length (tree_roots demo_self) = 1 \<and> getBranch demo_self (Some ''x'') = None"
proof -
  let ?e = "\<lparr>en_id = ''x'', en_parentId = Some ''x'', en_timestamp = 0, en_body = ThinkingLevelChange ''low''\<rparr>"
  have s: "map_of (ss_byId demo_self) ''x'' = Some ?e" "getEntries demo_self = [?e]" "tree_roots demo_self = [?e]" by code_simp+
  show ?thesis using self_parent_hangs[of demo_self ?e] s by simp
qed

end
