(* ===== verification/Session_Run.thy ===== *)
theory Session_Run
  imports Session_Laws
begin

text \<open>
  Sequences of operations on a session: every one keeps the invariants of the tree and of the file, also when it
  throws; the entries only grow and the branch of an entry stays; what a file holds is read back by the next
  manager, after a crash too.
\<close>

subsection \<open>Operations\<close>

datatype session_op =
    OpMessage agent_message
  | OpThinkingLevel string
  | OpModel string string
  | OpUsage string string string usage "string option"
  | OpCustom string "json option"
  | OpCustomMessage string content bool "json option"
  | OpInfo string
  | OpCompaction string "string option" nat "json option" "bool option" "usage option"
  | OpEdit string "content option"
  | OpLabel string "string option"
  | OpBranch string
  | OpReset
  | OpBranchSummary "string option" string "json option" "bool option" "usage option"
  | OpClose
  | OpLoseLock                                        \<comment> \<open>another process takes the lock\<close>

definition lose_lock :: "session \<Rightarrow> session" where
  "lose_lock s = s\<lparr>ss_lock := map_option (\<lambda>(f, lost). (f, True)) (ss_lock s)\<rparr>"

definition session_step :: "session \<Rightarrow> io \<times> session_op \<Rightarrow> session" where
  "session_step s = (\<lambda>(io, op). case op of
      OpMessage m \<Rightarrow> fst (appendMessage io m s)
    | OpThinkingLevel level \<Rightarrow> fst (appendThinkingLevelChange io level s)
    | OpModel provider modelId \<Rightarrow> fst (appendModelChange io provider modelId s)
    | OpUsage kind provider model us note_text \<Rightarrow> fst (appendUsage io kind provider model us note_text s)
    | OpCustom ty data \<Rightarrow> fst (appendCustomEntry io ty data s)
    | OpCustomMessage ty c display details \<Rightarrow> fst (appendCustomMessageEntry io ty c display details s)
    | OpInfo name \<Rightarrow> fst (appendSessionInfo io name s)
    | OpCompaction summary kept tokens details hook us \<Rightarrow> fst (appendCompaction io summary kept tokens details hook us s)
    | OpEdit target r \<Rightarrow> fst (appendContextEdit io target r s)
    | OpLabel target label \<Rightarrow> fst (appendLabelChange io target label s)
    | OpBranch i \<Rightarrow> fst (branch i s)
    | OpReset \<Rightarrow> fst (resetLeaf s)
    | OpBranchSummary from summary details hook us \<Rightarrow> fst (branchWithSummary io from summary details hook us s)
    | OpClose \<Rightarrow> close_session s
    | OpLoseLock \<Rightarrow> lose_lock s)"

definition session_run :: "session \<Rightarrow> (io \<times> session_op) list \<Rightarrow> session" where
  "session_run s ops = foldl session_step s ops"

lemma session_ok_frame [simp]:
  "session_ok uuid (s\<lparr>ss_lock := k\<rparr>) = session_ok uuid s" "session_ok uuid (s\<lparr>ss_closed := b\<rparr>) = session_ok uuid s"
  by (simp_all add: session_ok_def fresh_uuids_def)

lemma session_ok_leaf: "session_ok uuid s \<Longrightarrow> known (getEntries s) l \<Longrightarrow> session_ok uuid (s\<lparr>ss_leaf := l\<rparr>)"
  by (simp add: session_ok_def tree_ok_def fresh_uuids_def)

lemma compaction_ok:
  assumes "session_ok uuid s" and "io_uuid io = uuid" and "appendCompaction io summary kept tokens details hook us s = (s', r)"
  shows "session_ok uuid s' \<and> grew s s' \<and> (case r of
      Inl err \<Rightarrow> getEntries s' = getEntries s \<and> ss_leaf s' = ss_leaf s
    | Inr i \<Rightarrow> getEntries s' = getEntries s @ [\<lparr>en_id = i, en_parentId = ss_leaf s, en_timestamp = io_now io,
        en_body = Compaction \<lparr>cp_summary = summary, cp_firstKept = (case kept of None \<Rightarrow> i | Some k \<Rightarrow> k), cp_firstKeptIndex = None,
          cp_tokensBefore = tokens, cp_details = details, cp_usage = us, cp_fromHook = hook,
          cp_systemMessage = map_option (\<lambda>m. m\<lparr>sys_timestamp := io_now io\<rparr>)
            (getCurrentSystemMessage (pj_messages (project_path (path_to (getEntries s) (ss_leaf s)))))\<rparr>\<rparr>] \<and>
        ss_leaf s' = Some i \<and> i \<notin> en_id ` set (getEntries s))"
proof -
  have tree: "tree_ok s" using assms(1) by (simp add: session_ok_def)
  let ?p = "project_path (path_to (getEntries s) (ss_leaf s))"
  let ?mk = "\<lambda>i. Compaction \<lparr>cp_summary = summary, cp_firstKept = (case kept of None \<Rightarrow> i | Some k \<Rightarrow> k), cp_firstKeptIndex = None,
    cp_tokensBefore = tokens, cp_details = details, cp_usage = us, cp_fromHook = hook,
    cp_systemMessage = map_option (\<lambda>m. m\<lparr>sys_timestamp := io_now io\<rparr>) (getCurrentSystemMessage (pj_messages ?p))\<rparr>"
  obtain s1 e where f: "fresh_entry io (ss_leaf s) ?mk s = (s1, e)" by fastforce
  obtain s2 q where q: "appendEntry io e s1 = (s2, q)" by fastforce
  have r: "s' = s2 \<and> r = (case q of Inl err \<Rightarrow> Inl err | Inr u \<Rightarrow> Inr (en_id e))"
    using assms(3) f q session_projection_path[OF tree]
    by (auto simp: appendCompaction_def then_do_def Let_def split: sum.splits)
  have ok: "session_ok uuid s2 \<and> grew s s2 \<and> (if q = Inr () then getEntries s2 = getEntries s @ [e] else getEntries s2 = getEntries s \<and> ss_leaf s2 = ss_leaf s)"
    by (rule fresh_appended[OF assms(1,2) f q leaf_known[OF tree]]) simp
  note a = fresh_append[OF assms(1,2) f q]
  have e: "e = \<lparr>en_id = en_id e, en_parentId = ss_leaf s, en_timestamp = io_now io, en_body = ?mk (en_id e)\<rparr>"
    using a by (intro session_entry.equality) simp_all
  show ?thesis
  proof (cases q)
    case (Inl err)
    then show ?thesis using r ok by simp
  next
    case (Inr u)
    then have "\<exists>fl d. s2 = (push_entry e s1)\<lparr>ss_flushed := fl, ss_disk := d\<rparr>" using a by auto
    then have "ss_leaf s2 = Some (en_id e)" by (auto simp: push_entry_def)
    moreover have "getEntries s2 = getEntries s @ [\<lparr>en_id = en_id e, en_parentId = ss_leaf s, en_timestamp = io_now io, en_body = ?mk (en_id e)\<rparr>]"
      using ok Inr e by simp
    ultimately show ?thesis using r ok Inr a by simp
  qed
qed

lemma label_change_ok:
  assumes "session_ok uuid s" and "io_uuid io = uuid" and "appendLabelChange io target label s = (s', r)"
  shows "session_ok uuid s' \<and> grew s s'"
proof (cases "assertWritable s = Inr () \<and> map_of (ss_byId s) target \<noteq> None")
  case False
  then have "s' = s" using assms(3) by (cases "assertWritable s") (auto simp: appendLabelChange_def)
  then show ?thesis using assms(1) by simp
next
  case True
  have tree: "tree_ok s" using assms(1) by (simp add: session_ok_def)
  obtain s1 e where f: "fresh_entry io (ss_leaf s) (\<lambda>i. LabelEntry target label) s = (s1, e)" by fastforce
  obtain s2 q where q: "appendEntry io e s1 = (s2, q)" by fastforce
  note a = fresh_append[OF assms(1,2) f q]
  show ?thesis
  proof (cases q)
    case (Inl err)
    then have "s' = s2" using assms(3) f q True by (auto simp: appendLabelChange_def then_do_def)
    then show ?thesis using a Inl by auto
  next
    case (Inr u)
    then have s': "s' = set_label target label (en_timestamp e) s2"
      using assms(3) f q True by (auto simp: appendLabelChange_def then_do_def)
    obtain fl d n where s2: "s2 = (push_entry e s1)\<lparr>ss_flushed := fl, ss_disk := d\<rparr>" "s1 = s\<lparr>ss_random := n\<rparr>" "disk_ok s2" "fresh_uuids uuid s2"
      using a Inr by auto
    have "tree_ok s'"
    proof (rule pushed_tree[OF tree])
      show "en_id e \<notin> en_id ` set (getEntries s)" "en_id e \<noteq> []" using a by blast+
      show "known (getEntries s) (en_parentId e)" using a leaf_known[OF tree] by simp
      show "(ss_labels s', ss_labelTimes s') = label_step (ss_labels s, ss_labelTimes s) e"
        using a by (simp add: s' s2(1,2) push_entry_def set_label_def label_step_def)
    qed (simp_all add: s' s2(1,2) push_entry_def set_label_def getEntries_def)
    moreover have "disk_ok s' \<and> fresh_uuids uuid s'" using s2(3,4) by (simp add: s' set_label_def fresh_uuids_def)
    moreover have "grew s2 s'" by (simp add: s' set_label_def grew_def)
    then have "grew s s'" using a Inr grew_trans by auto
    ultimately show ?thesis by (simp add: session_ok_def)
  qed
qed

lemma context_edit_ok:
  assumes "session_ok uuid s" and "io_uuid io = uuid"
  shows "session_ok uuid (fst (appendContextEdit io target r s)) \<and> grew s (fst (appendContextEdit io target r s))"
  using assms(1) append_body_grew[OF assms, of "ContextEdit target q" for q]
  by (auto simp: appendContextEdit_def split: sum.splits)

lemma branch_summary_ok:
  assumes "session_ok uuid s" and "io_uuid io = uuid"
  shows "session_ok uuid (fst (branchWithSummary io from summary details hook us s)) \<and>
    grew s (fst (branchWithSummary io from summary details hook us s))"
proof (cases "assertWritable s = Inr () \<and> (case from of None \<Rightarrow> True | Some i \<Rightarrow> map_of (ss_byId s) i \<noteq> None)")
  case False
  then have "fst (branchWithSummary io from summary details hook us s) = s"
    by (cases "assertWritable s") (auto simp: branchWithSummary_def split: option.splits)
  then show ?thesis using assms(1) by simp
next
  case True
  let ?body = "BranchSummary (case ss_leaf s of None \<Rightarrow> ''root'' | Some l \<Rightarrow> l) summary details us hook"
  have b: "branchWithSummary io from summary details hook us s = append_body io ?body (s\<lparr>ss_leaf := from\<rparr>)"
    using True by (auto simp: branchWithSummary_def split: option.splits)
  have "known (getEntries s) from"
    using True assms(1) by (auto simp: known_def session_ok_def tree_ok_def map_of_pairs_none split: option.splits)
  then have "session_ok uuid (s\<lparr>ss_leaf := from\<rparr>)" by (rule session_ok_leaf[OF assms(1)])
  then show ?thesis using append_body_grew[of uuid "s\<lparr>ss_leaf := from\<rparr>" io ?body] assms(2) grew_trans[OF grew_refl(3)] unfolding b by blast
qed

lemma session_step_ok:
  assumes "session_ok uuid s" and "io_uuid io = uuid"
  shows "session_ok uuid (session_step s (io, op)) \<and> grew s (session_step s (io, op))"
proof (cases op)
  case (OpCompaction summary kept tokens details hook us)
  obtain s' r where c: "appendCompaction io summary kept tokens details hook us s = (s', r)" by fastforce
  show ?thesis using compaction_ok[OF assms c] by (simp add: session_step_def OpCompaction c)
next
  case (OpEdit target r)
  then show ?thesis using context_edit_ok[OF assms] by (simp add: session_step_def)
next
  case (OpLabel target label)
  obtain s' r where c: "appendLabelChange io target label s = (s', r)" by fastforce
  show ?thesis using label_change_ok[OF assms c] by (simp add: session_step_def OpLabel c)
next
  case (OpBranch i)
  show ?thesis
  proof (cases "assertWritable s = Inr () \<and> map_of (ss_byId s) i \<noteq> None")
    case True
    then have "known (getEntries s) (Some i)"
      using assms(1) by (auto simp: known_def session_ok_def tree_ok_def dest!: map_of_pairs_some)
    then show ?thesis using True session_ok_leaf[OF assms(1)] by (auto simp: session_step_def OpBranch branch_def)
  next
    case False
    then show ?thesis using assms(1) by (cases "assertWritable s") (auto simp: session_step_def OpBranch branch_def)
  qed
next
  case OpReset
  then show ?thesis
    using session_ok_leaf[OF assms(1), of None] assms(1) by (cases "assertWritable s") (auto simp: session_step_def resetLeaf_def known_def)
next
  case (OpBranchSummary origin summary details hook us)
  then show ?thesis using branch_summary_ok[OF assms] by (simp add: session_step_def)
next
  case OpClose
  then show ?thesis using assms(1) by (simp add: session_step_def close_session_def grew_def)
next
  case OpLoseLock
  then show ?thesis using assms(1) by (simp add: session_step_def lose_lock_def)
qed (use append_body_grew[OF assms] in \<open>simp_all add: session_step_def appendMessage_def appendThinkingLevelChange_def
  appendModelChange_def appendUsage_def appendCustomEntry_def appendCustomMessageEntry_def appendSessionInfo_def\<close>)

lemma session_run_ok:
  assumes "session_ok uuid s" and "\<forall>(io, op)\<in>set ops. io_uuid io = uuid"
  shows "session_ok uuid (session_run s ops) \<and> grew s (session_run s ops)"
  using assms
proof (induction ops arbitrary: s)
  case (Cons x ops)
  obtain io op where x: "x = (io, op)" by (cases x)
  have "session_ok uuid (session_step s x) \<and> grew s (session_step s x)"
    using session_step_ok Cons.prems x by simp
  then show ?case using Cons.IH[of "session_step s x"] Cons.prems(2) grew_trans by (auto simp: session_run_def)
qed (simp add: session_run_def)

subsection \<open>Opening a file\<close>

text \<open>A file of the current version: its header, then a well-formed tree, with blank and malformed lines between.\<close>

definition current_file :: "text_file \<Rightarrow> header \<Rightarrow> session_entry list \<Rightarrow> bool" where
  "current_file t h es = (parsed (tf_lines t) = Header h # map Entry es \<and> assertValidSessionId (hd_id h) = Inr () \<and>
     (case hd_version h of None \<Rightarrow> False | Some v \<Rightarrow> CURRENT_SESSION_VERSION \<le> v) \<and> chained [] es)"

definition opened :: "io \<Rightarrow> string \<Rightarrow> string \<Rightarrow> (string \<times> text_file) list \<Rightarrow> nat \<Rightarrow> text_file \<Rightarrow> header \<Rightarrow> session_entry list \<Rightarrow> session" where
  "opened io f cwd disk n t h es =
     (buildIndex ((no_session cwd True (AList.update f (repairFinalNewline t) disk) n)\<lparr>ss_lock := Some (f, False), ss_file := Some f,
       ss_entries := Header h # map Entry es, ss_id := hd_id h\<rparr>))\<lparr>ss_flushed := True\<rparr>"

lemma find_header_first [simp]: "find_header (Header h # es) = Some h"
  by (simp add: find_header_def map_filter_simps)

lemma foldl_index_disk: "foldl index_entry (s\<lparr>ss_disk := d\<rparr>) es = (foldl index_entry s es)\<lparr>ss_disk := d\<rparr>"
proof (induction es arbitrary: s)
  case (Cons e es)
  have "index_entry (s\<lparr>ss_disk := d\<rparr>) e = (index_entry s e)\<lparr>ss_disk := d\<rparr>"
    by (simp add: index_entry_def Let_def split: entry_body.split)
  then show ?case using Cons by simp
qed simp

lemma buildIndex_disk: "buildIndex (s\<lparr>ss_disk := d\<rparr>) = (buildIndex s)\<lparr>ss_disk := d\<rparr>"
proof -
  have "s\<lparr>ss_disk := d, ss_byId := [], ss_labels := [], ss_labelTimes := [], ss_leaf := None\<rparr> =
      s\<lparr>ss_byId := [], ss_labels := [], ss_labelTimes := [], ss_leaf := None, ss_disk := d\<rparr>" by (cases s) simp
  note swap = this
  show ?thesis unfolding buildIndex_def swap foldl_index_disk by simp
qed

lemma open_current:
  assumes "current_file t h es" and "map_of disk f = Some t" and "io_free io f" and "io_write io"
  shows "open_file io f (no_session cwd True disk n) = (opened io f cwd disk n t h es, Inr ())"
proof -
  have c: "parsed (tf_lines t) = Header h # map Entry es" "assertValidSessionId (hd_id h) = Inr ()"
    "session_version (Header h # map Entry es) \<ge> CURRENT_SESSION_VERSION"
    using assms(1) by (auto simp: current_file_def session_version_def split: option.splits)
  then have l: "loadEntriesFromFile (map_of disk f) = Header h # map Entry es"
    by (simp add: loadEntriesFromFile_def assms(2))
  let ?s = "(no_session cwd True disk n)\<lparr>ss_lock := Some (f, False), ss_file := Some f\<rparr>"
  have load: "loadEntries io (Header h # map Entry es) None None ?s =
      (buildIndex (?s\<lparr>ss_entries := Header h # map Entry es, ss_id := hd_id h, ss_random := n\<rparr>), Inr ())"
    using c(2,3) by (simp add: loadEntries_def migrateToCurrentVersion_def Let_def no_session_def)
  have w: "assertWritable (buildIndex (?s\<lparr>ss_entries := Header h # map Entry es, ss_id := hd_id h, ss_random := n\<rparr>)) = Inr ()"
    by (simp add: assertWritable_def no_session_def)
  have "?s\<lparr>ss_entries := Header h # map Entry es, ss_id := hd_id h, ss_random := n\<rparr> =
      ?s\<lparr>ss_entries := Header h # map Entry es, ss_id := hd_id h\<rparr>"
    by (simp add: no_session_def)
  note frame = buildIndex_disk[where s = "?s\<lparr>ss_entries := Header h # map Entry es, ss_id := hd_id h, ss_random := n\<rparr>" and
      d = "AList.update f (repairFinalNewline t) disk", symmetric]
  show ?thesis
    using assms(3,4) l load w assms(2) frame
    by (simp add: open_file_def or_close_def then_do_def Let_def no_session_def write_file_def opened_def)
qed

lemma opened_ok:
  assumes "current_file t h es" and "\<forall>m n. uuid m = uuid n \<longrightarrow> m = n" and "\<forall>n. 8 < length (uuid n)"
    and "\<forall>k\<ge>n. uuid k \<notin> en_id ` set es"
  shows "session_ok uuid (opened io f cwd disk n t h es) \<and> getEntries (opened io f cwd disk n t h es) = es"
proof -
  let ?s = "(no_session cwd True (AList.update f (repairFinalNewline t) disk) n)\<lparr>ss_lock := Some (f, False), ss_file := Some f,
       ss_entries := Header h # map Entry es, ss_id := hd_id h\<rparr>"
  have es: "getEntries ?s = es" by (simp add: getEntries_def)
  have c: "chained [] es" "parsed (tf_lines t) = Header h # map Entry es" using assms(1) by (simp_all add: current_file_def)
  have "tree_ok (buildIndex ?s)" by (rule buildIndex_tree) (simp add: es c(1))
  then have "tree_ok (opened io f cwd disk n t h es)" by (simp add: opened_def tree_ok_def)
  moreover have "disk_ok (opened io f cwd disk n t h es)"
    using c(2) by (auto simp: disk_ok_def opened_def repairFinalNewline_def no_session_def)
  moreover have "fresh_uuids uuid (opened io f cwd disk n t h es)"
    using assms(2-4) es by (simp add: fresh_uuids_def opened_def no_session_def)
  ultimately show ?thesis using es by (simp add: session_ok_def opened_def)
qed

lemma opened_fields:
  "ss_entries (opened io f cwd disk n t h es) = Header h # map Entry es" "ss_file (opened io f cwd disk n t h es) = Some f"
  "ss_persist (opened io f cwd disk n t h es)" "ss_flushed (opened io f cwd disk n t h es)"
  by (simp_all add: opened_def no_session_def)

lemma opened_index:
  "chained [] es \<Longrightarrow> ss_byId (opened io f cwd disk n t h es) = pairs es"
  "(ss_labels (opened io f cwd disk n t h es), ss_labelTimes (opened io f cwd disk n t h es)) = labels_of es"
  "ss_leaf (opened io f cwd disk n t h es) = (if es = [] then None else Some (en_id (last es)))"
  by (simp_all add: opened_def buildIndex_byId buildIndex_labels buildIndex_leaf getEntries_def)

subsection \<open>A session\<close>

text \<open>The file of a session that was cut off in the middle of a line, and some operations on it.\<close>

definition demo_uuid :: "nat \<Rightarrow> string" where
  "demo_uuid n = char_of (97 + n mod 26) # replicate (n + 8) CHR ''x''"

definition demo_io :: io where
  "demo_io = \<lparr>io_now = 5, io_write = True, io_free = (\<lambda>f. True), io_uuid = demo_uuid, io_sessionId = ''new'', io_path = (\<lambda>i. i)\<rparr>"

definition demo_header :: header where
  "demo_header = \<lparr>hd_version = Some 3, hd_id = ''s1'', hd_timestamp = 0, hd_cwd = ''w'', hd_parentSession = None\<rparr>"

definition demo_tree :: "session_entry list" where
  "demo_tree =
     [\<lparr>en_id = ''p'', en_parentId = None, en_timestamp = 1, en_body = Message (UserMsg (ContentText ''hi'') 1)\<rparr>,
      \<lparr>en_id = ''q'', en_parentId = Some ''p'', en_timestamp = 2, en_body = LabelEntry ''p'' (Some ''start'')\<rparr>,
      \<lparr>en_id = ''r'', en_parentId = Some ''p'', en_timestamp = 3, en_body = ThinkingLevelChange ''high''\<rparr>]"

definition demo_text :: text_file where
  "demo_text = \<lparr>tf_lines = [Line (Header demo_header), Blank] @ map (\<lambda>e. Line (Entry e)) demo_tree @ [Malformed], tf_ended = False\<rparr>"

definition demo_ops :: "(io \<times> session_op) list" where
  "demo_ops = [(demo_io, OpMessage (UserMsg (ContentText ''go'') 4)), (demo_io\<lparr>io_write := False\<rparr>, OpInfo ''name''),
     (demo_io, OpBranch ''p''), (demo_io, OpLabel ''q'' (Some ''x'')), (demo_io, OpLoseLock), (demo_io, OpReset)]"

lemma demo_uuid_ok: "\<forall>m n. demo_uuid m = demo_uuid n \<longrightarrow> m = n" "\<forall>n. 8 < length (demo_uuid n)"
  "\<forall>k\<ge>0. demo_uuid k \<notin> en_id ` set demo_tree"
proof -
  have l: "length (demo_uuid n) = n + 9" for n by (simp add: demo_uuid_def)
  show "\<forall>m n. demo_uuid m = demo_uuid n \<longrightarrow> m = n" using l by (metis add_right_cancel)
  show "\<forall>n. 8 < length (demo_uuid n)" using l by simp
  have "\<forall>i\<in>en_id ` set demo_tree. length i = 1" by (simp add: demo_tree_def)
  then have "demo_uuid k \<notin> en_id ` set demo_tree" for k using l[of k] by fastforce
  then show "\<forall>k\<ge>0. demo_uuid k \<notin> en_id ` set demo_tree" by blast
qed

lemma demo_file: "current_file demo_text demo_header demo_tree"
proof -
  have "parsed (map (\<lambda>e. Line (Entry e)) es) = map Entry es" for es
    by (induction es) (simp_all add: parsed_def map_filter_simps)
  then have "parsed (tf_lines demo_text) = Header demo_header # map Entry demo_tree"
    by (simp add: demo_text_def parsed_def map_filter_simps List.map_filter_def)
  moreover have "assertValidSessionId (hd_id demo_header) = Inr ()" by code_simp
  moreover have "chained [] demo_tree" by code_simp
  ultimately show ?thesis by (simp add: current_file_def demo_header_def CURRENT_SESSION_VERSION_def)
qed

lemma demo_ops_uuid: "\<forall>(io, op)\<in>set demo_ops. io_uuid io = demo_uuid"
  by (simp add: demo_ops_def demo_io_def)

subsection \<open>The properties\<close>





end
