(* ===== verification/Session_Transcript_Laws.thy ===== *)
theory Session_Transcript_Laws
  imports Session_Transcript
begin

text \<open>
  Laws of the replay: the system message that a transcript amounts to can stand for the messages it was replayed
  from (\<open>currentSystem_prefix\<close>), the changes between two tool states lead from one to the other
  (\<open>tool_changes_replay\<close>), and a transport that can only add tools is told the current ones (\<open>additions_reach\<close>).
\<close>

lemma system_messages_simps [simp]:
  "system_messages [] = []" "system_messages (SystemMsg s # ms) = s # system_messages ms"
  "system_messages (xs @ ys) = system_messages xs @ system_messages ys"
  by (simp_all add: system_messages_def map_filter_simps List.map_filter_def)

lemma system_messages_none: "\<forall>m\<in>set ms. \<not> isSystemMessage m \<Longrightarrow> system_messages ms = []"
  by (induction ms) (auto simp: system_messages_def map_filter_simps isSystemMessage_def split: agent_message.splits)

subsection \<open>Tools by name\<close>

definition named_tools :: "(string \<times> tool) list \<Rightarrow> bool" where
  "named_tools ts = (distinct (map fst ts) \<and> (\<forall>(n, t)\<in>set ts. n = tl_name t))"

lemma fold_update_distinct: "distinct (map fst ts) \<Longrightarrow> distinct (map fst (fold (\<lambda>t. AList.update (f t) t) xs ts))"
  by (induction xs arbitrary: ts) (auto simp: distinct_update)

lemma distinct_keys_delete: "distinct (map fst ts) \<Longrightarrow> distinct (map fst (AList.delete k ts))"
  by (simp add: distinct_delete)

lemma fold_delete_distinct: "distinct (map fst ts) \<Longrightarrow> distinct (map fst (fold AList.delete ks ts))"
  by (induction ks arbitrary: ts) (auto simp: distinct_keys_delete)

lemma named_update: "named_tools ts \<Longrightarrow> named_tools (AList.update (tl_name t) t ts)"
  by (auto simp: named_tools_def distinct_update dest!: set_update_subset)

lemma named_delete: "named_tools ts \<Longrightarrow> named_tools (AList.delete k ts)"
  by (auto simp: named_tools_def distinct_keys_delete dest!: in_set_deleteD)

lemma named_updates: "named_tools ts \<Longrightarrow> named_tools (fold (\<lambda>t. AList.update (tl_name t) t) xs ts)"
  by (induction xs arbitrary: ts) (auto intro: named_update)

lemma named_deletes: "named_tools ts \<Longrightarrow> named_tools (fold AList.delete ks ts)"
  by (induction ks arbitrary: ts) (auto intro: named_delete)

lemma named_replay: "named_tools ts \<Longrightarrow> named_tools (replay_tools ts m)"
  by (simp add: replay_tools_def named_updates named_deletes)

lemma named_foldl: "named_tools ts \<Longrightarrow> named_tools (foldl replay_tools ts ms)"
  by (induction ms arbitrary: ts) (auto intro: named_replay)

lemma named_nil [simp]: "named_tools []"
  by (simp add: named_tools_def)

lemma named_pairs: "named_tools ts \<Longrightarrow> map (\<lambda>t. (tl_name t, t)) (map snd ts) = ts"
  by (induction ts) (auto simp: named_tools_def)

text \<open>Adding tools with new names appends them.\<close>

lemma update_fresh: "k \<notin> fst ` set ts \<Longrightarrow> AList.update k v ts = ts @ [(k, v)]"
  by (induction ts) auto

lemma fold_update_fresh:
  "distinct (map tl_name xs) \<Longrightarrow> set (map tl_name xs) \<inter> fst ` set ts = {} \<Longrightarrow>
   fold (\<lambda>t. AList.update (tl_name t) t) xs ts = ts @ map (\<lambda>t. (tl_name t, t)) xs"
proof (induction xs arbitrary: ts)
  case (Cons x xs)
  then show ?case by (auto simp: update_fresh)
qed simp

lemma named_names: "named_tools ts \<Longrightarrow> map tl_name (map snd ts) = map fst ts"
  by (induction ts) (auto simp: named_tools_def)

lemma named_distinct: "named_tools ts \<Longrightarrow> distinct (map tl_name (map snd ts))"
  unfolding named_names by (simp add: named_tools_def)

lemma fold_update_named: "named_tools ts \<Longrightarrow> fold (\<lambda>t. AList.update (tl_name t) t) (map snd ts) [] = ts"
  using fold_update_fresh[of "map snd ts" "[]"] named_pairs[of ts] named_distinct[of ts] by simp

subsection \<open>The system message in force\<close>

text \<open>What a system message amounts to, as the state that the replay keeps: texts, sections and tools.\<close>

definition replayed_texts :: "system_message list \<Rightarrow> string list" where
  "replayed_texts ms = filter (\<lambda>t. t \<noteq> []) (map (\<lambda>m. contentText NEWLINE (sys_content m)) ms)"

definition replayed_sections :: "(string \<times> string) list \<Rightarrow> system_message list \<Rightarrow> (string \<times> string) list" where
  "replayed_sections acc ms = foldl (\<lambda>acc m. fold replay_section (sys_sections m) acc) acc ms"

lemma currentSystem_alt:
  "currentSystem ms = (case ms of [] \<Rightarrow> None | m # rest \<Rightarrow> Some \<lparr>sys_content = ContentText (join PARAGRAPH (replayed_texts ms)),
     sys_sections = map (\<lambda>(n, t). (n, Some t)) (replayed_sections [] ms),
     sys_toolsAdded = (if currentTools ms \<noteq> [] then Some (currentTools ms) else None), sys_toolsRemoved = [],
     sys_timestamp = sys_timestamp m\<rparr>)"
  by (auto simp: currentSystem_def replayed_texts_def replayed_sections_def currentTools_def Let_def split: list.splits)

lemma join_Nil_iff: "\<forall>x\<in>set xs. x \<noteq> [] \<Longrightarrow> join sep xs = [] \<longleftrightarrow> xs = []"
  by (cases "(sep, xs)" rule: join.cases) auto

lemma join_pieces_Cons: "ys \<noteq> [] \<Longrightarrow> join sep (x # ys) = x @ sep @ join sep ys"
  by (cases ys) auto

lemma join_append: "xs \<noteq> [] \<Longrightarrow> ys \<noteq> [] \<Longrightarrow> join sep (xs @ ys) = join sep xs @ sep @ join sep ys"
proof (induction xs)
  case (Cons x xs)
  then show ?case by (cases "xs = []") (simp_all add: join_pieces_Cons)
qed simp

lemma join_joined: "xs \<noteq> [] \<Longrightarrow> join sep (join sep xs # ys) = join sep (xs @ ys)"
  by (cases "ys = []") (simp_all add: join_pieces_Cons join_append)

lemma section_updates_distinct: "distinct (map fst acc) \<Longrightarrow> distinct (map fst (fold replay_section ss acc))"
  by (induction ss arbitrary: acc) (auto simp: replay_section_def distinct_update distinct_keys_delete split: option.splits)

lemma replayed_sections_distinct: "distinct (map fst acc) \<Longrightarrow> distinct (map fst (replayed_sections acc ms))"
  by (induction ms arbitrary: acc) (auto simp: replayed_sections_def section_updates_distinct)

lemma sections_again:
  "distinct (map fst (acc @ ss)) \<Longrightarrow> fold replay_section (map (\<lambda>(n, t). (n, Some t)) ss) acc = acc @ ss"
proof (induction ss arbitrary: acc)
  case (Cons s ss)
  obtain n t where s: "s = (n, t)" by (cases s)
  have "AList.update n t acc = acc @ [(n, t)]" using Cons.prems s by (intro update_fresh) auto
  then show ?case using Cons.IH[of "acc @ [(n, t)]"] Cons.prems s by (simp add: replay_section_def)
qed simp

text \<open>The system message that some messages amount to stands for them before any later messages.\<close>

lemma currentSystem_prefix:
  assumes "currentSystem xs = Some s"
  shows "currentSystem (s # ys) = currentSystem (xs @ ys)"
proof -
  obtain x xs' where xs: "xs = x # xs'" using assms by (cases xs) (auto simp: currentSystem_alt)
  have s: "s = \<lparr>sys_content = ContentText (join PARAGRAPH (replayed_texts xs)),
     sys_sections = map (\<lambda>(n, t). (n, Some t)) (replayed_sections [] xs),
     sys_toolsAdded = (if currentTools xs \<noteq> [] then Some (currentTools xs) else None), sys_toolsRemoved = [],
     sys_timestamp = sys_timestamp x\<rparr>"
    using assms unfolding currentSystem_alt xs by simp
  have tx: "\<forall>t\<in>set (replayed_texts ms). t \<noteq> []" for ms by (simp add: replayed_texts_def)
  have ta: "replayed_texts (as @ bs) = replayed_texts as @ replayed_texts bs" for as bs by (simp add: replayed_texts_def)
  have texts: "join PARAGRAPH (replayed_texts (s # ys)) = join PARAGRAPH (replayed_texts (xs @ ys))"
  proof (cases "replayed_texts xs = []")
    case True
    then have "replayed_texts (s # ys) = replayed_texts ys" by (simp add: replayed_texts_def s contentText_def)
    then show ?thesis using True by (simp add: ta)
  next
    case False
    then have "replayed_texts (s # ys) = join PARAGRAPH (replayed_texts xs) # replayed_texts ys"
      using join_Nil_iff[OF tx, of PARAGRAPH xs] by (simp add: replayed_texts_def s contentText_def)
    then show ?thesis using join_joined[OF False] by (simp add: ta)
  qed
  have "fold replay_section (sys_sections s) [] = replayed_sections [] xs"
    using sections_again[of "[]" "replayed_sections [] xs"] replayed_sections_distinct[of "[]" xs] by (simp add: s)
  then have sections: "replayed_sections [] (s # ys) = replayed_sections [] (xs @ ys)"
    by (simp add: replayed_sections_def)
  have named: "named_tools (foldl replay_tools [] xs)" by (rule named_foldl) simp
  have "toolsAdded s = currentTools xs" by (simp add: toolsAdded_def s)
  then have "replay_tools [] s = foldl replay_tools [] xs"
    using fold_update_named[OF named] by (simp add: replay_tools_def currentTools_def s)
  then have tools: "currentTools (s # ys) = currentTools (xs @ ys)" by (simp add: currentTools_def)
  have first: "sys_timestamp s = sys_timestamp x" by (simp add: s)
  show ?thesis unfolding currentSystem_alt[of "s # ys"] currentSystem_alt[of "xs @ ys"]
    using texts sections tools first by (simp add: xs)
qed

lemma currentSystem_again: "currentSystem xs = Some s \<Longrightarrow> currentSystem [s] = Some s"
  using currentSystem_prefix[of xs s "[]"] by simp

lemma currentSystem_none: "currentSystem xs = None \<longleftrightarrow> xs = []"
  by (auto simp: currentSystem_alt split: list.splits)

lemma collapse_keeps: "getCurrentSystemMessage (collapseSystemMessages ms) = getCurrentSystemMessage ms"
proof -
  have rest: "system_messages (filter (\<lambda>m. \<not> isSystemMessage m) ms) = []" by (rule system_messages_none) simp
  show ?thesis
  proof (cases "getCurrentSystemMessage ms")
    case None
    then have "collapseSystemMessages ms = filter (\<lambda>m. \<not> isSystemMessage m) ms"
      by (simp add: collapseSystemMessages_def Let_def)
    then show ?thesis using None rest by (simp add: getCurrentSystemMessage_def currentSystem_none)
  next
    case (Some s)
    then have "currentSystem [s] = Some s" by (intro currentSystem_again) (simp add: getCurrentSystemMessage_def)
    then show ?thesis using Some by (simp add: collapseSystemMessages_def Let_def getCurrentSystemMessage_def rest)
  qed
qed

subsection \<open>Changes of the tool state\<close>

lemma map_of_deletes: "map_of (fold AList.delete ks ts) n = (if n \<in> set ks then None else map_of ts n)"
  by (induction ks arbitrary: ts) (auto simp: delete_conv')

lemma map_of_tool_updates:
  "map_of (fold (\<lambda>t. AList.update (tl_name t) t) xs ts) n = (case tool_map xs n of None \<Rightarrow> map_of ts n | Some t \<Rightarrow> Some t)"
proof (induction xs arbitrary: ts)
  case (Cons x xs)
  have "tool_map (x # xs) n = (case tool_map xs n of None \<Rightarrow> if n = tl_name x then Some x else None | Some t \<Rightarrow> Some t)"
    by (auto simp: tool_map_def map_add_def split: option.splits)
  then show ?case using Cons.IH[of "AList.update (tl_name x) x ts"] by (auto split: option.splits)
qed (simp add: tool_map_def)

lemma tool_map_distinct: "distinct (map tl_name ts) \<Longrightarrow> tool_map ts n = Some t \<longleftrightarrow> t \<in> set ts \<and> tl_name t = n"
  unfolding tool_map_def
  by (subst map_of_eq_Some_iff) (auto simp: comp_def rev_map[symmetric])

lemma toToolDeclaration_name [simp]: "tl_name (toToolDeclaration t) = tl_name t"
  by (simp add: toToolDeclaration_def)

lemma declarations_again [simp]: "toToolDeclaration (toToolDeclaration t) = toToolDeclaration t"
  by (simp add: toToolDeclaration_def)

lemma tool_map_filter_none:
  "distinct (map tl_name ts) \<Longrightarrow> tool_map (map toToolDeclaration (filter P ts)) n =
     (case tool_map ts n of None \<Rightarrow> None | Some t \<Rightarrow> if P t then Some (toToolDeclaration t) else None)"
proof -
  assume d: "distinct (map tl_name ts)"
  have d': "distinct (map tl_name (map toToolDeclaration (filter P ts)))"
    using d by (simp add: comp_def distinct_map_filter)
  show ?thesis
  proof (cases "tool_map ts n")
    case None
    then have "\<forall>t\<in>set ts. tl_name t \<noteq> n" using tool_map_distinct[OF d, of n] by force
    then have "tool_map (map toToolDeclaration (filter P ts)) n \<noteq> Some t" for t using tool_map_distinct[OF d', of n t] by auto
    then show ?thesis using None by (cases "tool_map (map toToolDeclaration (filter P ts)) n") auto
  next
    case (Some t)
    then have t: "t \<in> set ts" "tl_name t = n" using tool_map_distinct[OF d] by auto
    have only: "u = t" if "u \<in> set ts" "tl_name u = n" for u
      using that t d by (metis distinct_map inj_onD)
    show ?thesis
    proof (cases "P t")
      case True
      then have "tool_map (map toToolDeclaration (filter P ts)) n = Some (toToolDeclaration t)"
        using t tool_map_distinct[OF d', of n "toToolDeclaration t"] by auto
      then show ?thesis using Some True by simp
    next
      case False
      then have "tool_map (map toToolDeclaration (filter P ts)) n \<noteq> Some u" for u
        using tool_map_distinct[OF d', of n u] only by auto
      then show ?thesis using Some False by (cases "tool_map (map toToolDeclaration (filter P ts)) n") auto
    qed
  qed
qed

lemma current_tools_map: "named_tools ts \<Longrightarrow> tool_map (map snd ts) n = map_of ts n \<and> distinct (map tl_name (map snd ts))"
proof -
  assume n: "named_tools ts"
  have d: "distinct (map tl_name (map snd ts))" by (rule named_distinct[OF n])
  have "map (\<lambda>t. (tl_name t, t)) (rev (map snd ts)) = rev ts" using named_pairs[OF n] by (simp add: rev_map[symmetric])
  then have "tool_map (map snd ts) n = map_of (rev ts) n" by (simp add: tool_map_def)
  also have "\<dots> = map_of ts n"
    using n map_of_eq_Some_iff[of ts n] map_of_eq_Some_iff[of "rev ts" n]
    by (cases "map_of ts n"; cases "map_of (rev ts) n") (auto simp: named_tools_def rev_map[symmetric])
  finally show ?thesis using d by blast
qed

text \<open>
  C24. Tool changes are complete: a system message with the changes between the tools in force and the wanted ones,
  appended to the transcript, puts exactly the wanted declarations in force, whatever was added, removed or redefined
  before; \<open>current\<close> has one tool per name.
\<close>

theorem tool_changes_replay:
  assumes "getToolStateChanges (getCurrentTools ms) current = (added, removed)" and "distinct (map tl_name current)"
    and "sys_toolsAdded s = Some added" and "sys_toolsRemoved s = removed"
  shows "map_option toToolDeclaration (tool_map (getCurrentTools (ms @ [SystemMsg s])) n) =
    map_option toToolDeclaration (tool_map current n)"
proof -
  let ?P = "foldl replay_tools [] (system_messages ms)"
  have named: "named_tools ?P" by (rule named_foldl) simp
  have prev: "getCurrentTools ms = map snd ?P" by (simp add: getCurrentTools_def currentTools_def)
  have d: "distinct (map tl_name (getCurrentTools ms))" unfolding prev by (rule named_distinct[OF named])
  define changed where "changed = (\<lambda>t. case tool_map (getCurrentTools ms) (tl_name t) of None \<Rightarrow> True | Some p \<Rightarrow> \<not> declarationsEqual p t)"
  have added: "added = map toToolDeclaration (filter changed current)"
    using assms(1) by (auto simp: getToolStateChanges_def changed_def)
  have removed: "n \<in> set removed \<longleftrightarrow> (\<exists>p. tool_map (getCurrentTools ms) n = Some p \<and>
      (case tool_map current n of None \<Rightarrow> True | Some c \<Rightarrow> \<not> declarationsEqual p c))"
    using assms(1) tool_map_distinct[OF d, of n] by (auto simp: getToolStateChanges_def)
  have "named_tools (replay_tools ?P s)" by (rule named_replay[OF named])
  then have "tool_map (getCurrentTools (ms @ [SystemMsg s])) n = map_of (replay_tools ?P s) n"
    using current_tools_map by (simp add: getCurrentTools_def currentTools_def)
  also have "\<dots> = (case tool_map added n of None \<Rightarrow> if n \<in> set removed then None else tool_map (getCurrentTools ms) n | Some t \<Rightarrow> Some t)"
    using current_tools_map[OF named]
    by (simp add: replay_tools_def toolsAdded_def assms(3,4) map_of_tool_updates map_of_deletes prev split: option.split)
  finally have got: "tool_map (getCurrentTools (ms @ [SystemMsg s])) n = \<dots>" .
  have name: "tl_name c = n" if "tool_map current n = Some c" for c using that tool_map_distinct[OF assms(2)] by simp
  show ?thesis
  proof (cases "tool_map current n")
    case None
    then have "tool_map added n = None" using tool_map_filter_none[OF assms(2), of changed n] by (simp add: added)
    then show ?thesis using got removed None by auto
  next
    case (Some c)
    then have a: "tool_map added n = (if changed c then Some (toToolDeclaration c) else None)"
      using tool_map_filter_none[OF assms(2), of changed n] by (simp add: added)
    show ?thesis
    proof (cases "changed c")
      case True
      then show ?thesis using got a Some by simp
    next
      case False
      then obtain p where p: "tool_map (getCurrentTools ms) n = Some p" "declarationsEqual p c"
        using name[OF Some] by (auto simp: changed_def split: option.splits)
      then have "n \<notin> set removed" using removed Some by simp
      then show ?thesis using got a False p Some by (simp add: declarationsEqual_def)
    qed
  qed
qed

text \<open>A transcript with one tool, which is redefined while another one is added.\<close>

definition demo_tool :: "string \<Rightarrow> json \<Rightarrow> tool" where
  "demo_tool name params = \<lparr>tl_name = name, tl_description = [], tl_parameters = params, tl_sampling = None, tl_local = JNull\<rparr>"

definition demo_system :: "tool list \<Rightarrow> string list \<Rightarrow> system_message" where
  "demo_system added removed = \<lparr>sys_content = ContentText ''p'', sys_sections = [], sys_toolsAdded = Some added, sys_toolsRemoved = removed,
     sys_timestamp = 0\<rparr>"

theorem tool_changes_replay_witness:
  "map_option toToolDeclaration (tool_map (getCurrentTools
      ([SystemMsg (demo_system [demo_tool ''a'' JNull] [])] @ [SystemMsg (demo_system [demo_tool ''a'' (JBool True), demo_tool ''b'' JNull] [''a''])])) ''a'') =
    map_option toToolDeclaration (tool_map [demo_tool ''a'' (JBool True), demo_tool ''b'' JNull] ''a'')"
  by (rule tool_changes_replay[where added = "[demo_tool ''a'' (JBool True), demo_tool ''b'' JNull]" and removed = "[''a'']"]) code_simp+


subsection \<open>Tools on a transport that can only add them\<close>

fun additive :: "string list \<Rightarrow> system_message list \<Rightarrow> bool" where
  "additive declared [] = True"
| "additive declared (m # ms) =
     (sys_toolsRemoved m = [] \<and> \<not> fst (declare_names declared (toolsAdded m)) \<and>
      additive (snd (declare_names declared (toolsAdded m))) ms)"

definition declared_after :: "string list \<Rightarrow> system_message list \<Rightarrow> string list" where
  "declared_after declared ms = foldl (\<lambda>names m. snd (declare_names names (toolsAdded m))) declared ms"

lemma declare_names_eq:
  "snd (declare_names declared ts) = rev (map tl_name ts) @ declared \<and>
   (\<not> fst (declare_names declared ts) \<longleftrightarrow> distinct (map tl_name ts) \<and> set (map tl_name ts) \<inter> set declared = {})"
proof (induction ts arbitrary: declared)
  case (Cons t ts)
  then show ?case using Cons.IH[of "tl_name t # declared"] by (auto simp: Let_def case_prod_unfold)
qed simp

lemma last_non_additive_bound: "found < int i \<Longrightarrow> found \<le> last_non_additive declared i found ms"
proof (induction ms arbitrary: declared i found)
  case (Cons m ms)
  let ?names = "snd (declare_names declared (toolsAdded m))"
  have "found \<le> last_non_additive ?names (Suc i) found ms" "int i \<le> last_non_additive ?names (Suc i) (int i) ms"
    using Cons by simp_all
  then show ?case using Cons.prems by (simp add: Let_def case_prod_unfold)
qed simp

lemma additive_suffix:
  assumes "found < int i" and "last_non_additive declared i found ms < int (i + k)"
  shows "additive (declared_after declared (take k ms)) (drop k ms)"
  using assms
proof (induction ms arbitrary: declared i found k)
  case (Cons m ms)
  let ?names = "snd (declare_names declared (toolsAdded m))"
  let ?found = "if sys_toolsRemoved m \<noteq> [] \<or> fst (declare_names declared (toolsAdded m)) then int i else found"
  have r: "last_non_additive declared i found (m # ms) = last_non_additive ?names (Suc i) ?found ms"
    by (simp add: Let_def case_prod_unfold)
  have f: "?found < int (Suc i)" using Cons.prems(1) by simp
  show ?case
  proof (cases k)
    case 0
    have "?found \<le> last_non_additive ?names (Suc i) ?found ms" by (rule last_non_additive_bound[OF f])
    then have "?found < int i" using Cons.prems(2) 0 r by simp
    then have m: "sys_toolsRemoved m = [] \<and> \<not> fst (declare_names declared (toolsAdded m))" by (auto split: if_splits)
    have "additive (declared_after ?names (take 0 ms)) (drop 0 ms)"
      using Cons.IH[OF f, of ?names 0] Cons.prems(2) 0 r by simp
    then show ?thesis using 0 m by (simp add: declared_after_def)
  next
    case (Suc j)
    have "additive (declared_after ?names (take j ms)) (drop j ms)"
      using Cons.IH[OF f, of ?names j] Cons.prems(2) Suc r by simp
    then show ?thesis using Suc by (simp add: declared_after_def)
  qed
qed simp

lemma additive_replay:
  assumes "additive declared ms" and "fst ` set tools \<subseteq> set declared"
  shows "foldl replay_tools tools ms = tools @ map (\<lambda>t. (tl_name t, t)) (concat (map toolsAdded ms)) \<and>
    (\<forall>m\<in>set ms. sys_toolsRemoved m = [])"
  using assms
proof (induction ms arbitrary: declared tools)
  case (Cons m ms)
  let ?ts = "toolsAdded m"
  have m: "sys_toolsRemoved m = []" "distinct (map tl_name ?ts)" "set (map tl_name ?ts) \<inter> set declared = {}"
    using Cons.prems(1) declare_names_eq[of declared ?ts] by auto
  have step: "replay_tools tools m = tools @ map (\<lambda>t. (tl_name t, t)) ?ts"
    using fold_update_fresh[of ?ts tools] m Cons.prems(2) by (auto simp: replay_tools_def)
  have "fst ` set (tools @ map (\<lambda>t. (tl_name t, t)) ?ts) \<subseteq> set (snd (declare_names declared ?ts))"
    using Cons.prems(2) declare_names_eq[of declared ?ts] by (auto simp: image_image)
  then show ?case using Cons.IH[of "snd (declare_names declared ?ts)" "tools @ map (\<lambda>t. (tl_name t, t)) ?ts"] Cons.prems(1) step m(1)
    by simp
qed simp

lemma delete_keys: "fst ` set (AList.delete k ts) \<subseteq> fst ` set ts"
  by (auto dest!: in_set_deleteD)

lemma deletes_keys: "fst ` set (fold AList.delete ks ts) \<subseteq> fst ` set ts"
proof (induction ks arbitrary: ts)
  case (Cons k ks)
  show ?case using Cons[of "AList.delete k ts"] delete_keys[of k ts] by (simp only: fold_simps)
qed simp

lemma update_keys: "fst ` set (AList.update k v ts) = insert k (fst ` set ts)"
  by (induction ts) auto

lemma updates_keys: "fst ` set (fold (\<lambda>t. AList.update (tl_name t) t) xs ts) = fst ` set ts \<union> tl_name ` set xs"
  by (induction xs arbitrary: ts) (simp_all add: update_keys)

lemma replay_names: "fst ` set tools \<subseteq> set declared \<Longrightarrow> fst ` set (foldl replay_tools tools ms) \<subseteq> set (declared_after declared ms)"
proof (induction ms arbitrary: tools declared)
  case (Cons m ms)
  have "fst ` set (replay_tools tools m) \<subseteq> fst ` set tools \<union> tl_name ` set (toolsAdded m)"
    using deletes_keys[of "sys_toolsRemoved m" tools] by (auto simp: replay_tools_def updates_keys)
  then have "fst ` set (replay_tools tools m) \<subseteq> set (snd (declare_names declared (toolsAdded m)))"
    using Cons.prems declare_names_eq[of declared "toolsAdded m"] by auto
  then show ?case using Cons.IH by (simp add: declared_after_def)
qed (simp add: declared_after_def)

text \<open>
  C25. A transport that can only add tools is told the tools in force: those of the request, followed by what the
  later system messages add, are the current tools in their order, and no later system message removes a tool.
\<close>

theorem additions_reach:
  "getCurrentTools ms = tt_requestTools (resolveTranscriptTools ms Additions) @
      concat (map toolsAdded (drop (tt_folded (resolveTranscriptTools ms Additions)) (system_messages ms))) \<and>
    concat (map sys_toolsRemoved (drop (tt_folded (resolveTranscriptTools ms Additions)) (system_messages ms))) = []"
proof -
  let ?ms = "system_messages ms" and ?r = "resolveTranscriptTools ms Additions"
  let ?k = "tt_folded ?r"
  have k: "?k = max (if getInitialSystemMessage ms \<noteq> None then 1 else 0) (nat (findLastNonAdditiveToolChange ?ms + 1))"
    and t: "tt_requestTools ?r = currentTools (take ?k ?ms)"
    by (simp_all add: resolveTranscriptTools_def Let_def)
  have "findLastNonAdditiveToolChange ?ms < int (0 + ?k)" unfolding k by (auto simp: max_def)
  then have a: "additive (declared_after [] (take ?k ?ms)) (drop ?k ?ms)"
    unfolding findLastNonAdditiveToolChange_def by (rule additive_suffix[rotated]) simp
  have "fst ` set (foldl replay_tools [] (take ?k ?ms)) \<subseteq> set (declared_after [] (take ?k ?ms))" by (rule replay_names) simp
  from additive_replay[OF a this]
  have "foldl replay_tools [] (take ?k ?ms @ drop ?k ?ms) =
      foldl replay_tools [] (take ?k ?ms) @ map (\<lambda>t. (tl_name t, t)) (concat (map toolsAdded (drop ?k ?ms)))"
    and r: "\<forall>m\<in>set (drop ?k ?ms). sys_toolsRemoved m = []" unfolding foldl_append by blast+
  then have "map snd (foldl replay_tools [] ?ms) =
      map snd (foldl replay_tools [] (take ?k ?ms)) @ concat (map toolsAdded (drop ?k ?ms))"
    by (simp add: comp_def)
  then show ?thesis using r t by (simp add: getCurrentTools_def currentTools_def)
qed

end
