(* ===== verification/Session_Context.thy ===== *)
theory Session_Context
  imports Session_Run Session_Transcript_Laws
begin

text \<open>
  Entries that contribute the same messages: the messages of a path depend only on its entries without their
  parents, labels and compaction marks (\<open>bare\<close>), so a copy of a branch that differs in these alone has its context.
\<close>

subsection \<open>Entries that contribute the same messages\<close>

definition labelled :: "session_entry \<Rightarrow> bool" where
  "labelled e = (case en_body e of LabelEntry target label \<Rightarrow> True | _ \<Rightarrow> False)"

text \<open>An entry without what only the shape of the tree depends on.\<close>

definition strip :: "session_entry \<Rightarrow> session_entry" where
  "strip e = e\<lparr>en_parentId := None, en_body := (case en_body e of Compaction c \<Rightarrow> Compaction (c\<lparr>cp_firstKept := []\<rparr>) | b \<Rightarrow> b)\<rparr>"

definition bare :: "session_entry list \<Rightarrow> session_entry list" where
  "bare es = map strip (filter (\<lambda>e. \<not> labelled e) es)"

lemma strip_id [simp]: "en_id (strip e) = en_id e"
  by (simp add: strip_def)

lemma strip_messages [simp]: "sessionEntryToContextMessages (strip e) = sessionEntryToContextMessages e"
  by (simp add: sessionEntryToContextMessages_def strip_def Let_def split: entry_body.split)

lemma strip_compaction [simp]: "is_compaction (strip e) = is_compaction e"
  by (simp add: is_compaction_def strip_def split: entry_body.split)

lemma strip_project [simp]: "projectContextEntry (strip e) edit = projectContextEntry e edit"
  by (simp add: projectContextEntry_def split: option.split)

lemma strip_setting [simp]: "context_setting x (strip e) = context_setting x e"
  by (simp add: context_setting_def strip_def split: prod.split entry_body.split)

lemma labelled_project: "labelled e \<Longrightarrow> projectContextEntry e edit = []"
  by (auto simp: labelled_def projectContextEntry_def sessionEntryToContextMessages_def split: entry_body.splits option.split)

lemma labelled_not_compaction: "labelled e \<Longrightarrow> \<not> is_compaction e"
  by (auto simp: labelled_def is_compaction_def split: entry_body.splits)

lemma bare_simps [simp]:
  "bare [] = []" "bare (e # es) = (if labelled e then bare es else strip e # bare es)" "bare (xs @ ys) = bare xs @ bare ys"
  by (simp_all add: bare_def)

definition edit_step :: "session_entry \<Rightarrow> (string \<times> content option) list \<Rightarrow> (string \<times> content option) list" where
  "edit_step e edits = (case en_body e of ContextEdit target c \<Rightarrow> AList.update target c edits | _ \<Rightarrow> edits)"

lemma edit_step_strip [simp]: "edit_step (strip e) = edit_step e"
  by (simp add: fun_eq_iff edit_step_def strip_def split: entry_body.split)

lemma edit_step_labelled: "labelled e \<Longrightarrow> edit_step e = id"
  by (auto simp: fun_eq_iff edit_step_def labelled_def split: entry_body.splits)

lemma context_edits_bare: "context_edits (bare es) = context_edits es"
proof -
  have "fold edit_step (bare es) edits = fold edit_step es edits" for edits
    by (induction es arbitrary: edits) (simp_all add: edit_step_labelled)
  then show ?thesis by (simp add: context_edits_def edit_step_def[abs_def])
qed

lemma settings_bare: "getSessionContextSettings (bare es) = getSessionContextSettings es"
proof -
  have "labelled e \<Longrightarrow> context_setting x e = x" for e x
    by (auto simp: labelled_def context_setting_def split: entry_body.splits prod.split)
  then have "foldl context_setting x (bare es) = foldl context_setting x es" for x
    by (induction es arbitrary: x) simp_all
  then show ?thesis by (simp add: getSessionContextSettings_def)
qed

text \<open>The messages of a context: a compaction after the first entry contributes none.\<close>

definition context_messages :: "session_entry list \<Rightarrow> agent_message list" where
  "context_messages es = concat (map snd (project_entries es))"

definition later_messages :: "(string \<times> content option) list \<Rightarrow> session_entry list \<Rightarrow> agent_message list" where
  "later_messages edits es = concat (map (\<lambda>e. if is_compaction e then [] else projectContextEntry e (map_of edits (en_id e))) es)"

lemma later_messages_bare: "later_messages edits (bare es) = later_messages edits es"
  by (induction es) (simp_all add: later_messages_def labelled_project labelled_not_compaction)

lemma context_messages_Cons:
  "context_messages (e # es) = projectContextEntry e (map_of (context_edits (e # es)) (en_id e)) @ later_messages (context_edits (e # es)) es"
proof -
  have "map snd (map (\<lambda>(i, e). (e, if is_compaction e \<and> i > 0 then [] else projectContextEntry e (map_of edits (en_id e)))) (enumerate (Suc n) es)) =
      map (\<lambda>e. if is_compaction e then [] else projectContextEntry e (map_of edits (en_id e))) es" for n edits
    by (induction es arbitrary: n) simp_all
  then show ?thesis by (simp add: context_messages_def project_entries_def Let_def later_messages_def)
qed

lemma later_no_compaction:
  "\<forall>e\<in>set es. \<not> is_compaction e \<Longrightarrow> later_messages edits es = concat (map (\<lambda>e. projectContextEntry e (map_of edits (en_id e))) es)"
  by (induction es) (simp_all add: later_messages_def)

text \<open>Contexts with the same bare entries have the same messages, if no compaction follows a first entry that is none.\<close>

definition first_only :: "session_entry list \<Rightarrow> bool" where
  "first_only es = ((\<exists>c rest. es = c # rest \<and> is_compaction c) \<or> (\<forall>e\<in>set es. \<not> is_compaction e))"

lemma bare_compaction: "(\<forall>e\<in>set (bare es). \<not> is_compaction e) \<longleftrightarrow> (\<forall>e\<in>set es. \<not> is_compaction e)"
  by (induction es) (auto dest: labelled_not_compaction)

lemma context_messages_flat:
  "\<forall>e\<in>set es. \<not> is_compaction e \<Longrightarrow> context_messages es = later_messages (context_edits es) es"
proof (cases es)
  case (Cons e rest)
  assume "\<forall>e\<in>set es. \<not> is_compaction e"
  then show ?thesis unfolding Cons context_messages_Cons by (simp add: later_messages_def)
qed (simp add: later_messages_def context_messages_def project_entries_def)

lemma context_messages_bare: "first_only es \<Longrightarrow> context_messages (bare es) = context_messages es"
proof -
  assume "first_only es"
  then consider c rest where "es = c # rest" "is_compaction c" | "\<forall>e\<in>set es. \<not> is_compaction e" by (auto simp: first_only_def)
  then show ?thesis
  proof cases
    case 1
    then have "bare es = strip c # bare rest" using labelled_not_compaction by auto
    then show ?thesis
      using context_edits_bare[of es] by (simp add: 1 context_messages_Cons later_messages_bare)
  next
    case 2
    then show ?thesis
      using bare_compaction[of es] by (simp add: context_messages_flat later_messages_bare context_edits_bare)
  qed
qed

subsection \<open>The path without its labels\<close>

text \<open>The entry that a compaction \<open>c\<close> keeps from once the labels of the entries before it are gone.\<close>

fun kept_from :: "string \<Rightarrow> string list \<Rightarrow> session_entry list \<Rightarrow> string \<Rightarrow> string" where
  "kept_from f pending [] c = (if f \<in> set pending then c else f)"
| "kept_from f pending (e # es) c =
     (if labelled e then kept_from f (pending @ [en_id e]) es c
      else if f \<in> set pending then en_id e else kept_from f [] es c)"

fun rechain_state :: "string list \<Rightarrow> (string \<times> string) list \<Rightarrow> string option \<Rightarrow> session_entry list \<Rightarrow> string list \<times> (string \<times> string) list \<times> string option" where
  "rechain_state pending replaced parent [] = (pending, replaced, parent)"
| "rechain_state pending replaced parent (e # es) =
     (if labelled e then rechain_state (pending @ [en_id e]) replaced parent es
      else rechain_state [] (fold (\<lambda>l. AList.update l (en_id e)) pending replaced) (Some (en_id e)) es)"

definition rechained :: "(string \<times> string) list \<Rightarrow> string option \<Rightarrow> session_entry \<Rightarrow> session_entry" where
  "rechained replaced parent e = e\<lparr>en_parentId := parent, en_body := (case en_body e of
      Compaction c \<Rightarrow> Compaction (c\<lparr>cp_firstKept := (if cp_firstKept c = en_id e then en_id e
        else case map_of replaced (cp_firstKept c) of Some i \<Rightarrow> i | None \<Rightarrow> cp_firstKept c)\<rparr>)
    | b \<Rightarrow> b)\<rparr>"

lemma rechain_Cons:
  "rechain pending replaced parent (e # es) =
     (if labelled e then rechain (pending @ [en_id e]) replaced parent es
      else (let replaced1 = fold (\<lambda>l. AList.update l (en_id e)) pending replaced in
        rechained replaced1 parent e # rechain [] replaced1 (Some (en_id e)) es))"
  by (auto simp: labelled_def rechained_def Let_def split: entry_body.splits)

declare rechain.simps(2) [simp del]

lemma rechained_simps [simp]:
  "en_id (rechained r p e) = en_id e" "en_parentId (rechained r p e) = p" "strip (rechained r p e) = strip e"
  "labelled (rechained r p e) = labelled e" "is_compaction (rechained r p e) = is_compaction e"
  "is_system_entry (rechained r p e) = is_system_entry e"
  by (simp_all add: rechained_def strip_def labelled_def is_compaction_def is_system_entry_def split: entry_body.split)

lemma rechain_append:
  "rechain pending replaced parent (xs @ ys) = rechain pending replaced parent xs @
     (case rechain_state pending replaced parent xs of (p, r, q) \<Rightarrow> rechain p r q ys)"
  by (induction xs arbitrary: pending replaced parent) (simp_all add: rechain_Cons Let_def)

lemma rechain_strip: "map strip (rechain pending replaced parent es) = bare es"
  by (induction es arbitrary: pending replaced parent) (simp_all add: rechain_Cons Let_def)

lemma rechain_unlabelled: "e \<in> set (rechain pending replaced parent es) \<Longrightarrow> \<not> labelled e"
  by (induction es arbitrary: pending replaced parent) (auto simp: rechain_Cons Let_def split: if_splits)

lemma rechain_compaction: "\<forall>e\<in>set es. \<not> is_compaction e \<Longrightarrow> \<forall>e\<in>set (rechain pending replaced parent es). \<not> is_compaction e"
  by (induction es arbitrary: pending replaced parent) (auto simp: rechain_Cons Let_def split: if_splits)

lemma rechain_ids: "map en_id (rechain pending replaced parent es) = map en_id (filter (\<lambda>e. \<not> labelled e) es)"
  by (induction es arbitrary: pending replaced parent) (simp_all add: rechain_Cons Let_def)

lemma map_of_pending: "map_of (fold (\<lambda>l. AList.update l i) pending r) f = (if f \<in> set pending then Some i else map_of r f)"
  by (induction pending arbitrary: r) auto

text \<open>The map of replaced labels at a compaction that follows \<open>es\<close>.\<close>

lemma replaced_after:
  assumes "rechain_state pending replaced parent es = (p, r, q)" and "distinct (pending @ map en_id es)"
    and "map_of replaced f \<noteq> None \<Longrightarrow> f \<notin> set pending \<and> f \<notin> en_id ` set es"
  shows "(case map_of (fold (\<lambda>l. AList.update l c) p r) f of Some i \<Rightarrow> i | None \<Rightarrow> f) =
    (case map_of replaced f of Some i \<Rightarrow> i | None \<Rightarrow> kept_from f pending es c)"
  using assms
proof (induction es arbitrary: pending replaced parent)
  case Nil
  then show ?case by (auto simp: map_of_pending split: option.splits)
next
  case (Cons e es)
  show ?case
  proof (cases "labelled e")
    case True
    then show ?thesis using Cons.IH[of "pending @ [en_id e]" replaced parent] Cons.prems by (auto split: option.split)
  next
    case False
    let ?r = "fold (\<lambda>l. AList.update l (en_id e)) pending replaced"
    have "map_of ?r f \<noteq> None \<Longrightarrow> f \<notin> set [] \<and> f \<notin> en_id ` set es"
      using Cons.prems(2,3) by (auto simp: map_of_pending split: if_splits)
    then have "(case map_of (fold (\<lambda>l. AList.update l c) p r) f of Some i \<Rightarrow> i | None \<Rightarrow> f) =
        (case map_of ?r f of Some i \<Rightarrow> i | None \<Rightarrow> kept_from f [] es c)"
      using Cons.IH[of "[]" ?r "Some (en_id e)"] Cons.prems(1,2) False by simp
    then show ?thesis using False Cons.prems(3) by (auto simp: map_of_pending split: option.splits)
  qed
qed

lemma kept_from_known: "kept_from f pending es c = f \<or> kept_from f pending es c \<in> en_id ` set es \<or> kept_from f pending es c = c"
  by (induction f pending es c rule: kept_from.induct) auto

lemma kept_from_other: "f \<notin> set pending \<Longrightarrow> f \<notin> en_id ` set es \<Longrightarrow> kept_from f pending es c = f"
  by (induction f pending es c rule: kept_from.induct) auto

lemma kept_all: "map strip (kept_entries g True (rechain pending replaced parent es)) = bare (kept_entries f True es)"
  by (induction es arbitrary: pending replaced parent) (auto simp: rechain_Cons Let_def)

lemma kept_rechained:
  assumes "distinct (pending @ map en_id es @ [c])"
  shows "map strip (kept_entries (kept_from f pending es c) False (rechain pending replaced parent es)) =
    bare (kept_entries f (f \<in> set pending) es)"
  using assms
proof (induction es arbitrary: pending replaced parent)
  case (Cons e es)
  show ?case
  proof (cases "labelled e")
    case True
    have "f \<in> set pending \<or> en_id e = f \<longleftrightarrow> f \<in> set (pending @ [en_id e])" by auto
    then show ?thesis using True Cons.IH[of "pending @ [en_id e]" replaced parent] Cons.prems
      by (simp add: rechain_Cons Let_def)
  next
    case False
    let ?r = "fold (\<lambda>l. AList.update l (en_id e)) pending replaced"
    have all: "map strip (kept_entries g True (rechain [] ?r (Some (en_id e)) es)) = bare (kept_entries f True es)" for g
      by (rule kept_all)
    show ?thesis
    proof (cases "f \<in> set pending \<or> f = en_id e")
      case True
      then have "kept_from f pending (e # es) c = en_id e"
        using False Cons.prems kept_from_other[of f "[]" es c] by auto
      then show ?thesis using False True all by (auto simp: rechain_Cons Let_def)
    next
      case no: False
      let ?k = "kept_from f [] es c"
      have "en_id e \<notin> en_id ` set es" "en_id e \<noteq> c" using Cons.prems by auto
      then have "?k \<noteq> en_id e" using kept_from_known[of f "[]" es c] no by metis
      moreover have "kept_from f pending (e # es) c = ?k" using False no by simp
      ultimately show ?thesis
        using False no Cons.IH[of "[]" ?r "Some (en_id e)"] Cons.prems by (auto simp: rechain_Cons Let_def)
    qed
  qed
qed simp

subsection \<open>The context of a path\<close>

lemma compaction_split:
  "(\<forall>e\<in>set es. \<not> is_compaction e) \<or> (\<exists>before c rest. es = before @ c # rest \<and> is_compaction c \<and> (\<forall>e\<in>set rest. \<not> is_compaction e))"
proof (induction es rule: rev_induct)
  case (snoc e es)
  show ?case
  proof (cases "is_compaction e")
    case True
    then have "es @ [e] = es @ e # [] \<and> is_compaction e \<and> (\<forall>x\<in>set []. \<not> is_compaction x)" by simp
    then show ?thesis by blast
  next
    case False
    then show ?thesis using snoc
    proof (elim disjE exE)
      fix before c rest
      assume "es = before @ c # rest \<and> is_compaction c \<and> (\<forall>e\<in>set rest. \<not> is_compaction e)"
      then have "es @ [e] = before @ c # (rest @ [e]) \<and> is_compaction c \<and> (\<forall>x\<in>set (rest @ [e]). \<not> is_compaction x)" using False by simp
      then show ?thesis by blast
    qed simp
  qed
qed simp

lemma latest_none: "\<forall>e\<in>set es. \<not> is_compaction e \<Longrightarrow> getLatestCompactionEntry es = None"
  by (simp add: getLatestCompactionEntry_def find_None_iff)

lemma latest_some: "is_compaction c \<Longrightarrow> \<forall>e\<in>set rest. \<not> is_compaction e \<Longrightarrow> getLatestCompactionEntry (before @ c # rest) = Some c"
proof -
  assume "is_compaction c" "\<forall>e\<in>set rest. \<not> is_compaction e"
  moreover have "List.find P (xs @ y # zs) = Some y" if "P y" "\<forall>x\<in>set xs. \<not> P x" for P xs and y :: session_entry and zs
    using that by (induction xs) auto
  ultimately show ?thesis by (simp add: getLatestCompactionEntry_def)
qed

lemma context_flat: "\<forall>e\<in>set es. \<not> is_compaction e \<Longrightarrow> context_of_path es = es"
  by (simp add: context_of_path_def latest_none)

lemma context_compacted:
  assumes "en_body c = Compaction body" and "\<forall>e\<in>set rest. \<not> is_compaction e" and "distinct (map en_id (before @ c # rest))"
  shows "context_of_path (before @ c # rest) = c # kept_entries (cp_firstKept body) False before @ rest"
proof -
  have "is_compaction c" using assms(1) by (simp add: is_compaction_def)
  moreover have "takeWhile (\<lambda>e. en_id e \<noteq> en_id c) (before @ c # rest) = before"
    using assms(3) by (subst takeWhile_append2) (auto simp: image_iff)
  ultimately show ?thesis using latest_some[of c rest before] assms(1,2) by (simp add: context_of_path_def)
qed

lemma context_first_only: "distinct (map en_id es) \<Longrightarrow> first_only (context_of_path es)"
proof -
  assume d: "distinct (map en_id es)"
  show ?thesis
  proof (cases "\<forall>e\<in>set es. \<not> is_compaction e")
    case True
    then show ?thesis by (simp add: context_flat first_only_def)
  next
    case False
    then obtain before c rest where c: "es = before @ c # rest" "is_compaction c" "\<forall>e\<in>set rest. \<not> is_compaction e"
      using compaction_split[of es] by blast
    obtain body where "en_body c = Compaction body" using c(2) by (auto simp: is_compaction_def split: entry_body.splits)
    then show ?thesis using context_compacted[of c body rest before] c d by (auto simp: first_only_def)
  qed
qed

lemma bare_labelled: "\<forall>e\<in>set es. labelled e \<Longrightarrow> bare es = []"
  by (induction es) simp_all

lemma bare_unlabelled: "\<forall>e\<in>set es. \<not> labelled e \<Longrightarrow> bare es = map strip es"
  by (induction es) simp_all

lemma kept_unlabelled: "\<forall>e\<in>set es. \<not> labelled e \<Longrightarrow> \<forall>e\<in>set (kept_entries f b es). \<not> labelled e"
  by (induction es arbitrary: b) (auto simp: Let_def split: if_splits)

text \<open>The path without its labels, and any labels after it, has the bare context of the path.\<close>

lemma context_rechained:
  assumes "distinct (map en_id path)" and "\<forall>e\<in>set labels. labelled e" and "distinct (map en_id (rechain [] [] None path @ labels))"
  shows "bare (context_of_path (rechain [] [] None path @ labels)) = bare (context_of_path path)"
proof (cases "\<forall>e\<in>set path. \<not> is_compaction e")
  case True
  have "\<forall>e\<in>set (rechain [] [] None path @ labels). \<not> is_compaction e"
    using rechain_compaction[OF True] assms(2) labelled_not_compaction by auto
  then have "context_of_path (rechain [] [] None path @ labels) = rechain [] [] None path @ labels" by (rule context_flat)
  then show ?thesis
    using context_flat[OF True] bare_unlabelled[of "rechain [] [] None path"] rechain_unlabelled rechain_strip bare_labelled[OF assms(2)]
    by simp
next
  case False
  then obtain before c rest where c: "path = before @ c # rest" "is_compaction c" "\<forall>e\<in>set rest. \<not> is_compaction e"
    using compaction_split[of path] by blast
  obtain body where body: "en_body c = Compaction body" using c(2) by (auto simp: is_compaction_def split: entry_body.splits)
  have nl: "\<not> labelled c" by (simp add: labelled_def body)
  obtain p r q where st: "rechain_state [] [] None before = (p, r, q)" by (metis prod_cases3)
  let ?r = "fold (\<lambda>l. AList.update l (en_id c)) p r"
  let ?A = "rechain [] [] None before" and ?c = "rechained ?r q c" and ?B = "rechain [] ?r (Some (en_id c)) rest"
  have kept: "rechain [] [] None path = ?A @ ?c # ?B"
    unfolding c(1) rechain_append st by (simp add: rechain_Cons nl Let_def)
  define k where "k = (if cp_firstKept body = en_id c then en_id c
     else case map_of ?r (cp_firstKept body) of Some i \<Rightarrow> i | None \<Rightarrow> cp_firstKept body)"
  have cb: "en_body ?c = Compaction (body\<lparr>cp_firstKept := k\<rparr>)" by (simp add: rechained_def body k_def)
  have d: "distinct ([] @ map en_id before @ [en_id c])" "distinct ([] @ map en_id before)" using assms(1) by (simp_all add: c(1))
  have "k = kept_from (cp_firstKept body) [] before (en_id c)"
    using replaced_after[OF st d(2), of "cp_firstKept body" "en_id c"] kept_from_other[of "en_id c" "[]" before "en_id c"] d(1)
    by (auto simp: k_def)
  then have before: "map strip (kept_entries k False ?A) = bare (kept_entries (cp_firstKept body) False before)"
    using kept_rechained[OF d(1), of "cp_firstKept body" "[]" None] by simp
  have "\<forall>e\<in>set ?B. \<not> is_compaction e" by (rule rechain_compaction[OF c(3)])
  then have B: "\<forall>e\<in>set (?B @ labels). \<not> is_compaction e" using assms(2) labelled_not_compaction by auto
  have "context_of_path (?A @ ?c # (?B @ labels)) = ?c # kept_entries k False ?A @ ?B @ labels"
    using context_compacted[OF cb B, of ?A] assms(3) unfolding kept by simp
  moreover have "context_of_path path = c # kept_entries (cp_firstKept body) False before @ rest"
    unfolding c(1) by (rule context_compacted[OF body c(3)]) (use assms(1) c(1) in simp)
  moreover have "bare (kept_entries k False ?A) = map strip (kept_entries k False ?A)"
    by (rule bare_unlabelled, rule kept_unlabelled) (use rechain_unlabelled in blast)
  moreover have "bare ?B = bare rest"
    using bare_unlabelled[of ?B] rechain_unlabelled[of _ "[]" ?r "Some (en_id c)" rest] rechain_strip[of "[]" ?r "Some (en_id c)" rest] by metis
  ultimately show ?thesis using nl before bare_labelled[OF assms(2)] by (simp add: kept)
qed

end
