(* ===== verification/Session_Branch.thy ===== *)
theory Session_Branch
  imports Session_Context
begin

text \<open>
  A session that keeps one branch of another has the context and the labels of that branch
  (\<open>branched_session_context\<close>).
\<close>

subsection \<open>One branch\<close>

text \<open>Each entry is the child of the one before.\<close>

fun linear :: "string option \<Rightarrow> session_entry list \<Rightarrow> bool" where
  "linear parent [] = True"
| "linear parent (e # es) = (en_parentId e = parent \<and> linear (Some (en_id e)) es)"

lemma linear_append: "linear parent (xs @ ys) = (linear parent xs \<and> linear (if xs = [] then parent else Some (en_id (last xs))) ys)"
  by (induction xs arbitrary: parent) auto

lemma linear_chained:
  "linear parent es \<Longrightarrow> distinct (map en_id es) \<Longrightarrow> [] \<notin> en_id ` set es \<Longrightarrow> set seen \<inter> en_id ` set es = {} \<Longrightarrow>
    (case parent of None \<Rightarrow> True | Some p \<Rightarrow> p \<in> set seen) \<Longrightarrow> chained seen es"
  by (induction es arbitrary: parent seen) (auto simp: eq_commute)

lemma linear_path:
  "linear None es \<Longrightarrow> distinct (map en_id es) \<Longrightarrow> path_to es (if es = [] then None else Some (en_id (last es))) = es"
proof (induction es rule: rev_induct)
  case (snoc e es)
  then have "linear None es" "en_parentId e = (if es = [] then None else Some (en_id (last es)))" "distinct (map en_id es)"
    by (simp_all add: linear_append)
  then show ?case using snoc.IH by (simp add: path_to_snoc)
qed simp

lemma rechain_linear: "linear parent (rechain pending replaced parent es)"
  by (induction es arbitrary: pending replaced parent) (simp_all add: rechain_Cons Let_def)

lemma label_entries_ok:
  assumes "\<forall>m n. uuid m = uuid n \<longrightarrow> m = n" and "\<forall>n. 8 < length (uuid n)"
    and "label_entries uuid ids parent n ls = (es, n')" and "\<forall>k\<ge>n. uuid k \<notin> set ids"
  shows "linear parent es \<and> (\<forall>e\<in>set es. labelled e) \<and> distinct (map en_id es) \<and> set ids \<inter> en_id ` set es = {} \<and>
    [] \<notin> en_id ` set es \<and> n \<le> n' \<and> (\<forall>k\<ge>n'. uuid k \<notin> en_id ` set es)"
  using assms(3,4)
proof (induction ls arbitrary: ids parent n es n')
  case (Cons l ls)
  obtain target label t where l: "l = (target, label, t)" by (cases l)
  obtain i n1 where i: "generateId uuid (\<lambda>x. x \<in> set ids) n = (i, n1)" by fastforce
  obtain es1 n2 where r: "label_entries uuid (i # ids) (Some i) n1 ls = (es1, n2)" by fastforce
  have es: "es = \<lparr>en_id = i, en_parentId = parent, en_timestamp = t, en_body = LabelEntry target (Some label)\<rparr> # es1" "n' = n2"
    using Cons.prems(1) i r by (simp_all add: l)
  have f: "i \<notin> set ids" "i \<noteq> []" "n < n1" "\<forall>k\<ge>n1. uuid k \<noteq> i"
    using generate_id_fresh[OF assms(1,2), of n "\<lambda>x. x \<in> set ids"] Cons.prems(2) i unfolding generateId_def by blast+
  have "\<forall>k\<ge>n1. uuid k \<notin> set (i # ids)" using Cons.prems(2) f(3,4) by simp
  from Cons.IH[OF r this] show ?case using f by (auto simp: es labelled_def)
qed simp

text \<open>The labels of the entries kept are those of the session.\<close>

lemma labels_of_unlabelled: "\<forall>e\<in>set es. \<not> labelled e \<Longrightarrow> foldl label_step acc es = acc"
  by (induction es) (auto simp: label_step_def labelled_def split: entry_body.splits prod.splits)

lemma labels_written:
  assumes "label_entries uuid ids parent n ls = (es, n')" and "distinct (map fst ls)" and "\<forall>(target, label, t)\<in>set ls. label \<noteq> []"
  shows "map_of (fst (foldl label_step acc es)) x = (case map_of ls x of Some (label, t) \<Rightarrow> Some label | None \<Rightarrow> map_of (fst acc) x) \<and>
    map_of (snd (foldl label_step acc es)) x = (case map_of ls x of Some (label, t) \<Rightarrow> Some t | None \<Rightarrow> map_of (snd acc) x)"
  using assms
proof (induction ls arbitrary: ids parent n es n' acc)
  case (Cons l ls)
  obtain target label t where l: "l = (target, label, t)" by (cases l)
  obtain i n1 where i: "generateId uuid (\<lambda>x. x \<in> set ids) n = (i, n1)" by fastforce
  obtain es1 n2 where r: "label_entries uuid (i # ids) (Some i) n1 ls = (es1, n2)" by fastforce
  obtain la ta where acc: "acc = (la, ta)" by (cases acc)
  have "foldl label_step acc es = foldl label_step (AList.update target label la, AList.update target t ta) es1"
    using Cons.prems(1,3) i r by (auto simp: l acc label_step_def)
  then show ?case
    using Cons.IH[OF r, of "(AList.update target label la, AList.update target t ta)"] Cons.prems(2,3)
    by (auto simp: l acc map_of_eq_None_iff[THEN iffD2] update_conv' split: option.splits)
qed simp

definition labels_wf :: "(string \<times> string) list \<times> (string \<times> int) list \<Rightarrow> bool" where
  "labels_wf x = (distinct (map fst (fst x)) \<and> (\<forall>(i, label)\<in>set (fst x). label \<noteq> []) \<and> map fst (snd x) = map fst (fst x))"

lemma update_mem: "p \<in> set (AList.update k v xs) \<Longrightarrow> p = (k, v) \<or> p \<in> set xs"
  by (induction xs) (auto split: if_splits)

lemma delete_mem: "p \<in> set (AList.delete k xs) \<Longrightarrow> p \<in> set xs"
  by (simp add: AList.delete_eq)

lemma labels_wf_update:
  "label \<noteq> [] \<Longrightarrow> labels_wf (ls, ts) \<Longrightarrow> labels_wf (AList.update k label ls, AList.update k t ts)"
  by (auto simp: labels_wf_def distinct_update AList.update_keys dest!: update_mem)

lemma labels_wf_delete: "labels_wf (ls, ts) \<Longrightarrow> labels_wf (AList.delete k ls, AList.delete k ts)"
  by (auto simp: labels_wf_def AList.delete_keys distinct_removeAll dest!: delete_mem)

lemma label_step_wf: "labels_wf x \<Longrightarrow> labels_wf (label_step x e)"
  by (cases x) (auto simp: label_step_def labels_wf_update labels_wf_delete split: entry_body.split)

lemma labels_of_wf: "labels_wf (labels_of es)"
proof -
  have "labels_wf x \<Longrightarrow> labels_wf (foldl label_step x es)" for x by (induction es arbitrary: x) (simp_all add: label_step_wf)
  moreover have "labels_wf ([], [])" by (simp add: labels_wf_def)
  ultimately show ?thesis unfolding labels_of_def by blast
qed

lemma map_of_filter_keys: "map_of (filter (\<lambda>(k, v). P k) xs) x = (if P x then map_of xs x else None)"
  by (induction xs) auto

lemma labels_to_write_map:
  "map_of (labels_to_write s ids) x =
    (if x \<in> set ids then map_option (\<lambda>label. (label, the (map_of (ss_labelTimes s) x))) (map_of (ss_labels s) x) else None)"
proof -
  have "map_of (map (\<lambda>(k, v). (k, v, f k)) xs) x = map_option (\<lambda>v. (v, f x)) (map_of xs x)" for f :: "string \<Rightarrow> int" and xs :: "(string \<times> string) list"
    by (induction xs) auto
  then show ?thesis by (simp add: labels_to_write_def map_of_filter_keys[of "\<lambda>k. k \<in> set ids", simplified])
qed

lemma labels_to_write_ok:
  assumes "labels_wf (ss_labels s, ts)"
  shows "distinct (map fst (labels_to_write s ids)) \<and> (\<forall>(target, label, t)\<in>set (labels_to_write s ids). label \<noteq> [])"
proof -
  have "map fst (labels_to_write s ids) = filter (\<lambda>k. k \<in> set ids) (map fst (ss_labels s))"
    by (induction "ss_labels s") (auto simp: labels_to_write_def filter_map comp_def case_prod_unfold)
  then show ?thesis using assms by (auto simp: labels_wf_def labels_to_write_def)
qed

text \<open>The entries, the file and the labels of a session with one branch.\<close>

definition one_branch :: "session_entry list \<Rightarrow> session_entry list \<Rightarrow> session_entry list" where
  "one_branch path labels = rechain [] [] None path @ labels"

lemma branch_entries_ok:
  assumes "tree_ok s" and "fresh_uuids uuid s" and "path = path_to (getEntries s) i" and "kept = rechain [] [] None path" and "ids = map en_id kept"
    and "label_entries uuid ids (if kept = [] then None else if en_id (last kept) = [] then None else Some (en_id (last kept))) (ss_random s)
      (labels_to_write s ids) = (labels, n)"
  shows "chained [] (one_branch path labels) \<and> linear None (one_branch path labels) \<and> (\<forall>e\<in>set labels. labelled e) \<and>
    (\<forall>k\<ge>n. uuid k \<notin> en_id ` set (one_branch path labels)) \<and>
    map_of (fst (labels_of (one_branch path labels))) x = (if x \<in> set ids then map_of (ss_labels s) x else None)"
proof -
  have u: "\<forall>m n. uuid m = uuid n \<longrightarrow> m = n" "\<forall>n. 8 < length (uuid n)" "\<forall>k\<ge>ss_random s. uuid k \<notin> en_id ` set (getEntries s)"
    using assms(2) by (simp_all add: fresh_uuids_def)
  have path: "chained [] path" using assms(1,3) path_to_chained by (simp add: tree_ok_def)
  have ids: "ids = map en_id (filter (\<lambda>e. \<not> labelled e) path)" by (simp add: assms(4,5) rechain_ids)
  have sub: "set ids \<subseteq> en_id ` set (getEntries s)" using path_to_mem[of _ "getEntries s" i] by (auto simp: ids assms(3))
  have dist: "distinct ids" "[] \<notin> set ids" using chained_distinct[OF path] by (auto simp: ids distinct_map_filter)
  have last_id: "kept \<noteq> [] \<Longrightarrow> en_id (last kept) \<in> set ids" by (simp add: assms(5))
  have last: "(if kept = [] then None else if en_id (last kept) = [] then None else Some (en_id (last kept))) =
      (if kept = [] then None else Some (en_id (last kept)))"
    using dist(2) last_id by (cases "kept = []") (simp, metis)
  have "\<forall>k\<ge>ss_random s. uuid k \<notin> set ids" using u(3) sub by blast
  from label_entries_ok[OF u(1,2) assms(6) this]
  have l: "linear (if kept = [] then None else Some (en_id (last kept))) labels" "\<forall>e\<in>set labels. labelled e"
    "distinct (map en_id labels)" "set ids \<inter> en_id ` set labels = {}" "[] \<notin> en_id ` set labels" "ss_random s \<le> n"
    "\<forall>k\<ge>n. uuid k \<notin> en_id ` set labels"
    unfolding last by blast+
  have lin: "linear None (one_branch path labels)"
    using l(1) rechain_linear[of None "[]" "[]" path] unfolding one_branch_def assms(4)[symmetric] by (simp add: linear_append)
  have img: "en_id ` set (one_branch path labels) = set ids \<union> en_id ` set labels" by (simp add: one_branch_def assms(4,5) image_Un)
  have ch: "chained [] (one_branch path labels)"
  proof (rule linear_chained[OF lin])
    have "map en_id (one_branch path labels) = ids @ map en_id labels" by (simp add: one_branch_def assms(4,5))
    then show "distinct (map en_id (one_branch path labels))" using dist(1) l(3,4) by simp
    show "[] \<notin> en_id ` set (one_branch path labels)" using img dist(2) l(5) by blast
  qed simp_all
  have lw: "labels_wf (ss_labels s, ss_labelTimes s)" using assms(1) labels_of_wf by (simp add: tree_ok_def)
  have "labels_of (one_branch path labels) = foldl label_step ([], []) labels"
    using labels_of_unlabelled[of kept "([], [])"] rechain_unlabelled by (auto simp: labels_of_def one_branch_def assms(4))
  moreover have "map_of (fst (foldl label_step ([], []) labels)) x =
      (case map_of (labels_to_write s ids) x of Some (label, t) \<Rightarrow> Some label | None \<Rightarrow> map_of [] x)"
    using labels_written[OF assms(6), of "([], [])" x] labels_to_write_ok[OF lw] by (simp split: option.split)
  ultimately have "map_of (fst (labels_of (one_branch path labels))) x = (if x \<in> set ids then map_of (ss_labels s) x else None)"
    by (simp add: labels_to_write_map split: option.split)
  moreover have "\<forall>k\<ge>n. uuid k \<notin> en_id ` set (one_branch path labels)"
    unfolding img using u(3) sub l(6,7) by (meson UnE le_trans subsetD)
  ultimately show ?thesis using ch lin l(2) by blast
qed

lemma parsed_entries [simp]: "parsed (map (Line \<circ> Entry) es) = map Entry es"
  using parsed_simps(4)[of "map Entry es"] by simp

lemma branched_ok:
  assumes "session_ok uuid s" and "io_uuid io = uuid" and "createBranchedSession io leaf given s = (s', Inr f)"
  shows "\<exists>labels. known (getEntries s) (Some leaf) \<and> getEntries s' = one_branch (path_to (getEntries s) (Some leaf)) labels \<and>
    (\<forall>e\<in>set labels. labelled e) \<and> linear None (getEntries s') \<and> session_ok uuid s' \<and>
    ss_leaf s' = (if getEntries s' = [] then None else Some (en_id (last (getEntries s')))) \<and>
    (\<forall>x. map_of (ss_labels s') x = (if x \<in> en_id ` set (rechain [] [] None (path_to (getEntries s) (Some leaf)))
       then map_of (ss_labels s) x else None))"
proof -
  have t: "tree_ok s" "fresh_uuids uuid s" using assms(1) by (simp_all add: session_ok_def)
  have known: "known (getEntries s) (Some leaf)"
  proof (rule ccontr)
    assume "\<not> known (getEntries s) (Some leaf)"
    then have "map_of (ss_byId s) leaf = None" using t(1) by (simp add: tree_ok_def known_def map_of_pairs_none)
    then have "getBranch s (Some leaf) = Some []" by (simp add: getBranch_def walk_end)
    then show False using assms(3) by (auto simp: createBranchedSession_def split: sum.splits)
  qed
  let ?path = "path_to (getEntries s) (Some leaf)"
  have b: "getBranch s (Some leaf) = Some ?path" by (rule getBranch_path[OF t(1) known]) simp
  define kept where "kept = rechain [] [] None ?path"
  define ids where "ids = map en_id kept"
  define parent where "parent = (if kept = [] then None else if en_id (last kept) = [] then None else Some (en_id (last kept)))"
  obtain labels n where l: "label_entries uuid ids parent (ss_random s) (labels_to_write s ids) = (labels, n)" by fastforce
  have kl: "kept @ labels = one_branch ?path labels" by (simp add: kept_def one_branch_def)
  have "?path \<noteq> []" using path_to_last[OF known] t(1) by (simp add: tree_ok_def)
  then obtain p ps where pp: "?path = p # ps" by (cases ?path) auto
  let ?es = "\<lambda>h. Header h # map Entry (kept @ labels)"
  let ?mk = "\<lambda>h fn lock. buildIndex (s\<lparr>ss_entries := ?es h, ss_id := hd_id h, ss_file := fn, ss_lock := lock, ss_random := n\<rparr>)"
  define fn where "fn = io_path io (case given of None \<Rightarrow> io_sessionId io | Some i \<Rightarrow> i)"
  define h where "h = \<lparr>hd_version = Some CURRENT_SESSION_VERSION, hd_id = (case given of None \<Rightarrow> io_sessionId io | Some i \<Rightarrow> i),
    hd_timestamp = io_now io, hd_cwd = ss_cwd s, hd_parentSession = (if ss_persist s then ss_file s else None)\<rparr>"
  have hi: "(case given of None \<Rightarrow> io_sessionId io | Some i \<Rightarrow> i) = hd_id h" by (simp add: h_def)
  have hf: "fn = io_path io (hd_id h)" by (simp add: fn_def hi)
  note cr = assms(3)[unfolded createBranchedSession_def b pp list.case option.case kept_def[unfolded pp, symmetric] assms(2)
      ids_def[symmetric] Let_def parent_def[symmetric] l prod.case h_def[symmetric], unfolded hi]
  have "\<exists>fn lock fl disk. s' = (?mk h fn lock)\<lparr>ss_flushed := fl, ss_disk := disk\<rparr> \<and>
    (\<not> ss_persist s \<or> (\<exists>f. fl \<and> fn = Some f \<and> map_of disk f = Some (written (?es h))) \<or> \<not> fl \<and> \<not> hasConversation s')"
  proof (cases "ss_persist s")
    case False
    then have h: "s' = buildIndex (s\<lparr>ss_entries := ?es h, ss_id := hd_id h, ss_random := n\<rparr>)"
      using cr by (simp split: sum.splits)
    show ?thesis
      by (rule exI[of _ "ss_file s"], rule exI[of _ "ss_lock s"], rule exI[of _ "ss_flushed s"], rule exI[of _ "ss_disk s"])
        (simp add: False h)
  next
    case True
    let ?s1 = "(?mk h (Some fn) (Some (fn, False)))\<lparr>ss_flushed := False\<rparr>"
    have h: "\<not> hasConversation ?s1 \<and> s' = ?s1 \<or> s' = (write_file fn (written (?es h)) ?s1)\<lparr>ss_flushed := True\<rparr>"
      using cr True by (auto simp: hf split: sum.splits if_splits)
    then show ?thesis
    proof (elim disjE conjE)
      assume "\<not> hasConversation ?s1" "s' = ?s1"
      then show ?thesis
        by (intro exI[of _ "Some fn"] exI[of _ "Some (fn, False)"] exI[of _ False] exI[of _ "ss_disk s"]) simp
    next
      assume "s' = (write_file fn (written (?es h)) ?s1)\<lparr>ss_flushed := True\<rparr>"
      then show ?thesis
        by (intro exI[of _ "Some fn"] exI[of _ "Some (fn, False)"] exI[of _ True] exI[of _ "AList.update fn (written (?es h)) (ss_disk s)"])
          (simp add: write_file_def)
    qed
  qed
  then obtain fl disk fn lock where s': "s' = (?mk h fn lock)\<lparr>ss_flushed := fl, ss_disk := disk\<rparr>"
    and d: "\<not> ss_persist s \<or> (\<exists>f. fl \<and> fn = Some f \<and> map_of disk f = Some (written (?es h))) \<or> \<not> fl \<and> \<not> hasConversation s'" by blast
  have mk: "getEntries (?mk h fn lock) = one_branch ?path labels" unfolding kl[symmetric] unfolding getEntries_def by simp
  have e: "getEntries s' = one_branch ?path labels" using mk by (simp add: s')
  note ok = branch_entries_ok[OF t refl kept_def ids_def l[unfolded parent_def]]
  have "tree_ok (?mk h fn lock)" by (rule buildIndex_tree) (use ok mk in simp)
  then have tree: "tree_ok s'" by (simp add: s' tree_ok_def)
  have "disk_ok s'" using d by (auto simp: disk_ok_def s' written_def)
  moreover have "fresh_uuids uuid s'" using t(2) ok by (simp add: fresh_uuids_def e) (simp add: s')
  moreover have "ss_leaf s' = (if getEntries s' = [] then None else Some (en_id (last (getEntries s'))))"
    unfolding e using mk by (simp add: s' buildIndex_leaf)
  moreover have "map_of (ss_labels s') x = (if x \<in> en_id ` set (rechain [] [] None ?path) then map_of (ss_labels s) x else None)" for x
  proof -
    have "ss_labels s' = fst (labels_of (one_branch ?path labels))" using tree by (metis e fst_conv tree_ok_def)
    then show ?thesis using ok[of x] by (simp add: ids_def kept_def)
  qed
  ultimately show ?thesis using tree known e ok by (auto simp: session_ok_def)
qed

subsection \<open>Contexts\<close>

lemma session_context_path:
  "tree_ok s \<Longrightarrow> session_context s = Some (let path = path_to (getEntries s) (ss_leaf s); (level, model) = getSessionContextSettings path in
     (context_messages (context_of_path path), level, model))"
  by (simp add: session_context_def buildSessionContext_def buildSessionProjection_def session_path project_path_def Let_def
      context_messages_def split: prod.split)

text \<open>The context of another leaf.\<close>

lemma leaf_context:
  assumes "tree_ok s" and "known (getEntries s) i"
  shows "buildSessionContext (getEntries s) (Some i) (Some (ss_byId s)) = Some (let path = path_to (getEntries s) i;
     (level, model) = getSessionContextSettings path in (context_messages (context_of_path path), level, model))"
proof -
  have "tree_ok (s\<lparr>ss_leaf := i\<rparr>)" using assms by (simp add: tree_ok_def)
  from session_context_path[OF this] show ?thesis by (simp add: session_context_def)
qed

text \<open>
  C22. A session that keeps one branch of another (a fork, a clone or a branch that is extracted to its own file)
  is well-formed and has exactly the context of that branch: the same messages for the model, with its context
  edits and its compaction, the same thinking level and the same model. The labels of the branch are left out and
  written again after it with new ids, so the label of an entry that the new session has is its label in the old one.
\<close>

theorem branched_session_context:
  assumes "session_ok uuid s" and "io_uuid io = uuid" and "createBranchedSession io leaf given s = (s', Inr f)"
  shows "session_ok uuid s' \<and> session_context s' = buildSessionContext (getEntries s) (Some (Some leaf)) (Some (ss_byId s)) \<and>
    session_context s' \<noteq> None \<and>
    (\<forall>e\<in>set (getEntries s'). \<not> labelled e \<longrightarrow> map_of (ss_labels s') (en_id e) = map_of (ss_labels s) (en_id e))"
proof -
  let ?path = "path_to (getEntries s) (Some leaf)"
  obtain labels where b: "known (getEntries s) (Some leaf)" "getEntries s' = one_branch ?path labels" "\<forall>e\<in>set labels. labelled e"
    "linear None (getEntries s')" "session_ok uuid s'" "ss_leaf s' = (if getEntries s' = [] then None else Some (en_id (last (getEntries s'))))"
    "\<forall>x. map_of (ss_labels s') x = (if x \<in> en_id ` set (rechain [] [] None ?path) then map_of (ss_labels s) x else None)"
    using branched_ok[OF assms] by blast
  have t: "tree_ok s" "tree_ok s'" using assms(1) b(5) by (simp_all add: session_ok_def)
  then have d: "distinct (map en_id (getEntries s'))" "distinct (map en_id ?path)"
    using chained_distinct path_to_chained unfolding tree_ok_def by blast+
  have path: "path_to (getEntries s') (ss_leaf s') = one_branch ?path labels"
    unfolding b(6) using linear_path[OF b(4) d(1)] b(2) by simp
  have bare: "bare (one_branch ?path labels) = bare ?path"
    using rechain_strip[of "[]" "[]" None ?path] bare_unlabelled[of "rechain [] [] None ?path"] rechain_unlabelled bare_labelled[OF b(3)]
    by (auto simp: one_branch_def)
  then have settings: "getSessionContextSettings (one_branch ?path labels) = getSessionContextSettings ?path"
    using settings_bare[of "one_branch ?path labels"] settings_bare[of ?path] by simp
  have "bare (context_of_path (one_branch ?path labels)) = bare (context_of_path ?path)"
    unfolding one_branch_def using context_rechained[OF d(2) b(3)] d(1) b(2) by (simp add: one_branch_def)
  moreover have "first_only (context_of_path (one_branch ?path labels))" "first_only (context_of_path ?path)"
    using context_first_only d b(2) by metis+
  ultimately have "context_messages (context_of_path (one_branch ?path labels)) = context_messages (context_of_path ?path)"
    using context_messages_bare by metis
  then have "session_context s' = buildSessionContext (getEntries s) (Some (Some leaf)) (Some (ss_byId s)) \<and> session_context s' \<noteq> None"
    using session_context_path[OF t(2)] leaf_context[OF t(1) b(1)] path settings by (simp add: Let_def)
  moreover have "map_of (ss_labels s') (en_id e) = map_of (ss_labels s) (en_id e)" if "e \<in> set (getEntries s')" "\<not> labelled e" for e
  proof -
    have "e \<in> set (rechain [] [] None ?path)" using that b(3) by (auto simp: b(2) one_branch_def)
    then show ?thesis using b(7) by simp
  qed
  ultimately show ?thesis using b(5) by blast
qed

text \<open>A session with a compaction that keeps from a label, and the branch of its last entry in a session of its own.\<close>

definition demo_history :: "session_entry list" where
  "demo_history = demo_tree @
     [\<lparr>en_id = ''s'', en_parentId = Some ''q'', en_timestamp = 4, en_body = Message (UserMsg (ContentText ''again'') 4)\<rparr>,
      \<lparr>en_id = ''t'', en_parentId = Some ''s'', en_timestamp = 5, en_body = Compaction \<lparr>cp_summary = ''sum'', cp_firstKept = ''q'',
         cp_firstKeptIndex = None, cp_tokensBefore = 9, cp_details = None, cp_usage = None, cp_fromHook = None, cp_systemMessage = None\<rparr>\<rparr>,
      \<lparr>en_id = ''u'', en_parentId = Some ''t'', en_timestamp = 6, en_body = Message (UserMsg (ContentText ''more'') 6)\<rparr>]"

definition demo_history_text :: text_file where
  "demo_history_text = written (Header demo_header # map Entry demo_history)"

definition demo_session :: session where
  "demo_session = opened demo_io ''f'' ''w'' [] 0 demo_history_text demo_header demo_history"

lemma demo_history_ok: "session_ok demo_uuid demo_session \<and> getEntries demo_session = demo_history"
proof -
  have "parsed (tf_lines demo_history_text) = Header demo_header # map Entry demo_history"
    by (simp add: demo_history_text_def written_def flip: list.map)
  moreover have "assertValidSessionId (hd_id demo_header) = Inr ()" "chained [] demo_history" by code_simp+
  ultimately have "current_file demo_history_text demo_header demo_history"
    by (simp add: current_file_def demo_header_def CURRENT_SESSION_VERSION_def)
  moreover have "\<forall>k\<ge>0. demo_uuid k \<notin> en_id ` set demo_history"
  proof -
    have "\<forall>i\<in>en_id ` set demo_history. length i = 1" by (simp add: demo_history_def demo_tree_def)
    then have "demo_uuid k \<notin> en_id ` set demo_history" for k using spec[OF demo_uuid_ok(2), of k] by fastforce
    then show ?thesis by blast
  qed
  ultimately show ?thesis unfolding demo_session_def by (intro opened_ok demo_uuid_ok) 
qed

theorem branched_session_context_witness:
  "\<exists>s' f. createBranchedSession demo_io ''u'' None demo_session = (s', Inr f) \<and>
    session_context s' = buildSessionContext demo_history (Some (Some ''u'')) (Some (ss_byId demo_session))"
proof -
  have known: "known (getEntries demo_session) (Some ''u'')" using demo_history_ok by (simp add: known_def demo_history_def)
  have path: "path_to demo_history (Some ''u'') = map ((!) demo_history) [0, 1, 3, 4, 5]" by code_simp
  have b: "getBranch demo_session (Some ''u'') = Some (map ((!) demo_history) [0, 1, 3, 4, 5])"
    using getBranch_path[of demo_session "Some ''u''" "Some ''u''", OF _ known] demo_history_ok path by (simp add: session_ok_def)
  have s: "assertWritable demo_session = Inr ()" "ss_persist demo_session" "map_of (ss_disk demo_session) ''new'' = None"
    by (simp_all add: demo_session_def opened_def assertWritable_def no_session_def)
  have "\<exists>s' f. createBranchedSession demo_io ''u'' None demo_session = (s', Inr f)"
    unfolding createBranchedSession_def b Let_def using s by (auto simp: demo_io_def split: prod.split)
  then show ?thesis using branched_session_context[of demo_uuid demo_session demo_io "''u''" None] demo_history_ok
    by (force simp: demo_io_def)
qed

end
