(* ===== verification/Session_Compaction.thy ===== *)
theory Session_Compaction
  imports Session_Branch
begin

text \<open>
  Compactions: what the model gets after one (\<open>compaction_keeps_prompt\<close>), by the laws of the replay of system
  messages and of the projection of a path.
\<close>

lemma currentSystem_stamp: "currentSystem [m] = Some m \<Longrightarrow> currentSystem [m\<lparr>sys_timestamp := t\<rparr>] = Some (m\<lparr>sys_timestamp := t\<rparr>)"
proof -
  have "currentTools [m\<lparr>sys_timestamp := t\<rparr>] = currentTools [m]" by (simp add: currentTools_def replay_tools_def toolsAdded_def)
  then have "currentSystem [m\<lparr>sys_timestamp := t\<rparr>] = map_option (\<lambda>x. x\<lparr>sys_timestamp := t\<rparr>) (currentSystem [m])"
    by (simp add: currentSystem_def Let_def)
  then show "currentSystem [m] = Some m \<Longrightarrow> currentSystem [m\<lparr>sys_timestamp := t\<rparr>] = Some (m\<lparr>sys_timestamp := t\<rparr>)" by simp
qed

lemma currentSystem_tools: "currentSystem xs = Some m \<Longrightarrow> currentTools xs = toolsAdded m"
  by (auto simp: currentSystem_def toolsAdded_def Let_def split: if_splits)

lemma system_messages_other: "\<not> isSystemMessage m \<Longrightarrow> system_messages (m # ms) = system_messages ms"
  by (simp add: system_messages_def isSystemMessage_def map_filter_simps split: agent_message.splits)

lemma edit_keeps_kind [simp]: "isSystemMessage (edit_content c m) = isSystemMessage m"
  by (simp add: isSystemMessage_def edit_content_def Let_def split: agent_message.split)

lemma projected_no_system:
  "\<not> is_system_entry e \<Longrightarrow> \<not> is_compaction e \<Longrightarrow> m \<in> set (projectContextEntry e edit) \<Longrightarrow> \<not> isSystemMessage m"
  by (auto simp: projectContextEntry_def sessionEntryToContextMessages_def is_system_entry_def is_compaction_def isSystemMessage_def
      edit_content_def Let_def split: option.splits entry_body.splits agent_message.splits if_splits)

lemma kept_no_system: "e \<in> set (kept_entries f b es) \<Longrightarrow> \<not> is_system_entry e \<and> e \<in> set es"
  by (induction es arbitrary: b) (auto simp: Let_def split: if_splits)

lemma kept_none: "f \<notin> en_id ` set es \<Longrightarrow> kept_entries f False es = []"
  by (induction es) (auto simp: Let_def)

lemma later_no_system: "\<forall>e\<in>set es. \<not> is_system_entry e \<Longrightarrow> m \<in> set (later_messages edits es) \<Longrightarrow> \<not> isSystemMessage m"
  by (auto simp: later_messages_def dest: projected_no_system split: if_splits)

lemma edits_mem: "p \<in> set (AList.update k v xs) \<Longrightarrow> p = (k, v) \<or> p \<in> set xs"
  by (induction xs) (auto split: if_splits)

lemma context_edits_target: "(i, c) \<in> set (context_edits es) \<Longrightarrow> \<exists>e\<in>set es. en_body e = ContextEdit i c"
proof -
  have "(i, c) \<in> set (fold edit_step es edits) \<Longrightarrow> (i, c) \<in> set edits \<or> (\<exists>e\<in>set es. en_body e = ContextEdit i c)" for edits
  proof (induction es arbitrary: edits)
    case (Cons e es)
    have "(i, c) \<in> set (edit_step e edits) \<Longrightarrow> (i, c) \<in> set edits \<or> en_body e = ContextEdit i c"
      by (auto simp: edit_step_def dest: edits_mem split: entry_body.splits)
    then show ?case using Cons.IH[of "edit_step e edits"] Cons.prems by auto
  qed simp
  from this[of "[]"] show "(i, c) \<in> set (context_edits es) \<Longrightarrow> \<exists>e\<in>set es. en_body e = ContextEdit i c"
    by (simp add: context_edits_def edit_step_def[abs_def])
qed

text \<open>The edits of a session name its entries.\<close>

definition edits_known :: "session_entry list \<Rightarrow> bool" where
  "edits_known es = (\<forall>e\<in>set es. case en_body e of ContextEdit target c \<Rightarrow> target \<in> en_id ` set es | _ \<Rightarrow> True)"

lemma edits_known_fresh:
  assumes "edits_known es" and "i \<notin> en_id ` set es" and "set xs \<subseteq> set es"
  shows "map_of (context_edits xs) i = None"
proof (rule ccontr)
  assume "map_of (context_edits xs) i \<noteq> None"
  then obtain c where "(i, c) \<in> set (context_edits xs)" by (auto dest: map_of_SomeD)
  then obtain e where "e \<in> set xs" "en_body e = ContextEdit i c" using context_edits_target by blast
  then show False using assms unfolding edits_known_def by force
qed

text \<open>The kept messages of a branch, from the entry \<open>first\<close> on.\<close>

definition kept_messages :: "string \<Rightarrow> session_entry list \<Rightarrow> agent_message list" where
  "kept_messages first path = (let es = kept_entries first False path in later_messages (context_edits es) es)"

text \<open>What stands for the history: the system message in force, stamped, the summary and the kept messages.\<close>

definition compacted :: "int \<Rightarrow> string \<Rightarrow> nat \<Rightarrow> agent_message list \<Rightarrow> agent_message list \<Rightarrow> agent_message list" where
  "compacted t summary tokens messages kept =
     (case getCurrentSystemMessage messages of None \<Rightarrow> [] | Some m \<Rightarrow> [SystemMsg (m\<lparr>sys_timestamp := t\<rparr>)]) @
     CompactionSummaryMsg summary tokens t # kept"

lemma compacted_prompt:
  assumes "system_messages kept = []"
  shows "getCurrentTools (compacted t summary tokens messages kept) = getCurrentTools messages \<and>
    getCurrentSystemPrompt (compacted t summary tokens messages kept) = getCurrentSystemPrompt messages"
proof -
  let ?after = "compacted t summary tokens messages kept"
  define sm where "sm = map_option (\<lambda>m. m\<lparr>sys_timestamp := t\<rparr>) (getCurrentSystemMessage messages)"
  have sys: "system_messages ?after = (case sm of None \<Rightarrow> [] | Some m \<Rightarrow> [m])"
    using assms by (simp add: compacted_def sm_def system_messages_other isSystemMessage_def split: option.split)
  have empty: "currentSystem [] = None" by (simp add: currentSystem_none)
  have again: "getCurrentSystemMessage ?after = sm"
    unfolding getCurrentSystemMessage_def sys using currentSystem_stamp currentSystem_again empty
    by (auto simp: empty sm_def getCurrentSystemMessage_def currentSystem_none split: option.split)
  have "getCurrentTools ?after = getCurrentTools messages"
  proof (cases "getCurrentSystemMessage messages")
    case None
    then show ?thesis unfolding getCurrentTools_def sys by (simp add: sm_def getCurrentSystemMessage_def currentSystem_none empty)
  next
    case (Some m)
    then have "getCurrentTools messages = toolsAdded m" "getCurrentTools ?after = toolsAdded (m\<lparr>sys_timestamp := t\<rparr>)"
      using again currentSystem_tools unfolding getCurrentTools_def getCurrentSystemMessage_def sm_def by auto
    then show ?thesis by (simp add: toolsAdded_def)
  qed
  moreover have "getCurrentSystemPrompt ?after = getCurrentSystemPrompt messages"
    using again by (simp add: getCurrentSystemPrompt_def sm_def getSystemMessageText_def split: option.split)
  ultimately show ?thesis by blast
qed

text \<open>The messages of a path after a compaction of it.\<close>

lemma compacted_context:
  assumes "distinct (map en_id (path @ [c]))" and "en_body c = Compaction body" and "map_of (context_edits kept) (en_id c) = None"
    and "kept = kept_entries (cp_firstKept body) False path"
  shows "context_messages (context_of_path (path @ [c])) =
    (case cp_systemMessage body of None \<Rightarrow> [] | Some m \<Rightarrow> [SystemMsg m]) @
    CompactionSummaryMsg (cp_summary body) (cp_tokensBefore body) (en_timestamp c) # later_messages (context_edits kept) kept"
proof -
  have "context_of_path (path @ [c]) = c # kept" using context_compacted[of c body "[]" path] assms(1,2,4) by simp
  moreover have "context_edits (c # kept) = context_edits kept" by (simp add: context_edits_def assms(2))
  ultimately show ?thesis
    by (simp add: context_messages_Cons projectContextEntry_def sessionEntryToContextMessages_def assms(2,3) split: option.split)
qed

text \<open>
  C23. A compaction replaces the history and nothing else: after it the model gets the system message in force, if
  there is one, the summary, and the messages of the entries of the branch from the first kept one on (none when the
  compaction keeps from itself), with their context edits and without older summaries and system messages; the
  prompt and the tools in force, the thinking level and the model are those of before.
\<close>

theorem compaction_keeps_prompt:
  assumes "session_ok uuid s" and "io_uuid io = uuid" and "edits_known (getEntries s)"
    and "appendCompaction io summary kept tokens details hook us s = (s', Inr i)"
    and "session_context s = Some (messages, level, model)"
  shows "\<exists>messages'. session_context s' = Some (messages', level, model) \<and>
    messages' = (case getCurrentSystemMessage messages of None \<Rightarrow> [] | Some m \<Rightarrow> [SystemMsg (m\<lparr>sys_timestamp := io_now io\<rparr>)]) @
      CompactionSummaryMsg summary tokens (io_now io) #
      (case kept of None \<Rightarrow> [] | Some k \<Rightarrow> kept_messages k (path_to (getEntries s) (ss_leaf s))) \<and>
    getCurrentTools messages' = getCurrentTools messages \<and> getCurrentSystemPrompt messages' = getCurrentSystemPrompt messages"
proof -
  have t: "tree_ok s" using assms(1) by (simp add: session_ok_def)
  let ?path = "path_to (getEntries s) (ss_leaf s)"
  define k where "k = (case kept of None \<Rightarrow> i | Some k \<Rightarrow> k)"
  define body where "body = \<lparr>cp_summary = summary, cp_firstKept = k, cp_firstKeptIndex = None, cp_tokensBefore = tokens, cp_details = details,
    cp_usage = us, cp_fromHook = hook, cp_systemMessage = map_option (\<lambda>m. m\<lparr>sys_timestamp := io_now io\<rparr>) (getCurrentSystemMessage messages)\<rparr>"
  define c where "c = \<lparr>en_id = i, en_parentId = ss_leaf s, en_timestamp = io_now io, en_body = Compaction body\<rparr>"
  have m: "messages = context_messages (context_of_path ?path)" "getSessionContextSettings ?path = (level, model)"
    using assms(5) session_context_path[OF t] by (auto simp: Let_def)
  have msgs: "pj_messages (project_path ?path) = messages"
    by (simp add: project_path_def Let_def m(1) context_messages_def split: prod.split)
  have s': "session_ok uuid s'" "getEntries s' = getEntries s @ [c]" "ss_leaf s' = Some i" "i \<notin> en_id ` set (getEntries s)"
    using compaction_ok[OF assms(1,2,4)] by (simp_all add: msgs c_def body_def k_def)
  then have t': "tree_ok s'" by (simp add: session_ok_def)
  have fresh: "i \<notin> en_id ` set ?path" using s'(4) path_to_mem by blast
  have path: "path_to (getEntries s') (ss_leaf s') = ?path @ [c]" by (simp add: s'(2,3) path_to_snoc c_def)
  have d: "distinct (map en_id (?path @ [c]))" using path t' path_to_chained chained_distinct unfolding tree_ok_def by metis
  have "set (kept_entries k False ?path) \<subseteq> set (getEntries s)" using kept_no_system path_to_mem by blast
  from edits_known_fresh[OF assms(3) s'(4) this] have fixed: "map_of (context_edits (kept_entries k False ?path)) (en_id c) = None"
    by (simp add: c_def)
  have "en_body c = Compaction body" "k = cp_firstKept body" by (simp_all add: c_def body_def)
  from compacted_context[OF d this(1) fixed, unfolded this(2)]
  have "context_messages (context_of_path (?path @ [c])) = (case cp_systemMessage body of None \<Rightarrow> [] | Some m \<Rightarrow> [SystemMsg m]) @
      CompactionSummaryMsg (cp_summary body) (cp_tokensBefore body) (en_timestamp c) # kept_messages (cp_firstKept body) ?path"
    by (simp add: kept_messages_def Let_def)
  also have "\<dots> = compacted (io_now io) summary tokens messages (kept_messages k ?path)"
    unfolding compacted_def body_def c_def by (cases "getCurrentSystemMessage messages") simp_all
  finally have "context_messages (context_of_path (?path @ [c])) = compacted (io_now io) summary tokens messages (kept_messages k ?path)" .
  moreover have "getSessionContextSettings (?path @ [c]) = (level, model)"
    using m(2) by (simp add: getSessionContextSettings_def context_setting_def c_def)
  ultimately have "session_context s' = Some (compacted (io_now io) summary tokens messages (kept_messages k ?path), level, model)"
    using session_context_path[OF t'] path by simp
  moreover have "system_messages (kept_messages k ?path) = []"
    by (rule system_messages_none) (auto simp: kept_messages_def Let_def dest: later_no_system[rotated] kept_no_system)
  moreover have "kept_messages k ?path = (case kept of None \<Rightarrow> [] | Some k \<Rightarrow> kept_messages k ?path)"
    using kept_none[OF fresh] by (simp add: k_def kept_messages_def later_messages_def split: option.split)
  ultimately show ?thesis
    using compacted_prompt[of "kept_messages k ?path" "io_now io" summary tokens messages]
    by (intro exI[of _ "compacted (io_now io) summary tokens messages (kept_messages k ?path)"]) (simp add: compacted_def)
qed

theorem compaction_keeps_prompt_witness:
  "\<exists>s' i messages level model messages'. appendCompaction demo_io ''short'' (Some ''s'') 3 None None None demo_session = (s', Inr i) \<and>
    session_context demo_session = Some (messages, level, model) \<and> session_context s' = Some (messages', level, model) \<and>
    getCurrentSystemPrompt messages' = getCurrentSystemPrompt messages"
proof -
  have ok: "session_ok demo_uuid demo_session" "getEntries demo_session = demo_history" using demo_history_ok by blast+
  then have t: "tree_ok demo_session" by (simp add: session_ok_def)
  have known: "edits_known (getEntries demo_session)" unfolding ok(2) by (simp add: edits_known_def demo_history_def demo_tree_def)
  have d: "ss_lock demo_session = Some (''f'', False)" "\<not> ss_closed demo_session" "ss_flushed demo_session" "ss_file demo_session = Some ''f''"
    by (simp_all add: demo_session_def opened_def no_session_def)
  have "\<exists>s' i. appendCompaction demo_io ''short'' (Some ''s'') 3 None None None demo_session = (s', Inr i)"
    by (auto simp: appendCompaction_def session_projection_path[OF t] Let_def fresh_entry_def appendEntry_def persist_entry_def
        then_do_def push_entry_def assertWritable_def d demo_io_def split: prod.split option.split)
  then obtain s' i where c: "appendCompaction demo_io ''short'' (Some ''s'') 3 None None None demo_session = (s', Inr i)" by blast
  obtain messages level model where m: "session_context demo_session = Some (messages, level, model)"
    using session_context_path[OF t] by (simp add: Let_def) (metis surj_pair)
  show ?thesis using compaction_keeps_prompt[OF ok(1) _ known c m] c m by (auto simp: demo_io_def)
qed

end
